(* ===== verification/Xy_Prelude.thy ===== *)
theory Xy_Prelude
  imports Main "HOL-Library.Word" "HOL-Library.Monad_Syntax"
begin

text \<open>
  Shared material of the libxylem development: the machine types of the C sources, the
  \<^verbatim>\<open>XY_OK\<close> / \<^verbatim>\<open>XY_ERR_*\<close> codes of \<^verbatim>\<open>include/ttypt/xy.h\<close>, the theorem collections that
  the component theories fill, a contract for walks along a chain of links (three of the
  runtime's data structures are such chains), a contract for first-match scans of an array,
  a contract for step systems and their reachable states, and a few lemmas on options, lists
  and words.

  A model function returns an \<open>option\<close> where the C code dereferences memory or loops:
  \<^const>\<open>None\<close> is a run that leaves the defined behaviour of C (a null or dangling
  dereference) or that does not come back from a loop. A theorem that an operation
  \<^emph>\<open>returns\<close> is therefore always of the form \<open>\<exists>r. f \<dots> = Some r\<close>.
\<close>

unbundle bit_operations_syntax

type_synonym u8 = "8 word"
type_synonym u32 = "32 word"
type_synonym u64 = "64 word"

named_theorems heap_simps \<open>reads of a heap after a write to it\<close>
named_theorems mask_simps \<open>bits of prefix masks\<close>
named_theorems err_simps \<open>numeric values of the error codes\<close>


section \<open>Status codes\<close>

text \<open>The codes of \<^verbatim>\<open>xy.h\<close>, as C \<^verbatim>\<open>int\<close>s.\<close>

definition XY_OK :: int where "XY_OK = 0"
definition XY_ERR_NOTFOUND :: int where "XY_ERR_NOTFOUND = -1"
definition XY_ERR_INVALID :: int where "XY_ERR_INVALID = -2"
definition XY_ERR_TOOBIG :: int where "XY_ERR_TOOBIG = -3"
definition XY_ERR_INIT :: int where "XY_ERR_INIT = -4"
definition XY_ERR_EPERM :: int where "XY_ERR_EPERM = -5"
definition XY_ERR_ABI :: int where "XY_ERR_ABI = -6"

lemmas xy_codes [err_simps] =
  XY_OK_def XY_ERR_NOTFOUND_def XY_ERR_INVALID_def XY_ERR_TOOBIG_def
  XY_ERR_INIT_def XY_ERR_EPERM_def XY_ERR_ABI_def

definition XY_MAX_RET_SIZE :: nat where "XY_MAX_RET_SIZE = 4096"


section \<open>Chains of links\<close>

text \<open>
  A chain from an optional pointer: follow \<open>nxt\<close> until it is \<^const>\<open>None\<close>. \<open>nxt p\<close>
  is itself optional, since \<open>p\<close> may not be an allocated cell.
\<close>

primrec chain :: "('p \<Rightarrow> 'p option option) \<Rightarrow> 'p option \<Rightarrow> 'p list \<Rightarrow> bool" where
  "chain nxt x [] \<longleftrightarrow> x = None"
| "chain nxt x (p # ps) \<longleftrightarrow> x = Some p \<and> (\<exists>y. nxt p = Some y \<and> chain nxt y ps)"

text \<open>The same walk as a program, with a bound on the number of links followed.\<close>

fun follow :: "('p \<Rightarrow> 'p option option) \<Rightarrow> nat \<Rightarrow> 'p option \<Rightarrow> 'p list option" where
  "follow nxt n None = Some []"
| "follow nxt 0 (Some p) = None"
| "follow nxt (Suc n) (Some p) =
     do { y \<leftarrow> nxt p; ps \<leftarrow> follow nxt n y; Some (p # ps) }"

lemma chain_None [simp]: "chain nxt None ps \<longleftrightarrow> ps = []"
  by (cases ps) auto

lemma chain_Some:
  "chain nxt (Some p) ps \<longleftrightarrow> (\<exists>y qs. ps = p # qs \<and> nxt p = Some y \<and> chain nxt y qs)"
  by (cases ps) auto

lemma chain_unique: "chain nxt x ps \<Longrightarrow> chain nxt x qs \<Longrightarrow> ps = qs"
  by (induction ps arbitrary: x qs) (auto simp: chain_Some)

lemma chain_cong:
  "\<lbrakk>chain nxt x ps; \<And>p. p \<in> set ps \<Longrightarrow> nxt' p = nxt p\<rbrakk> \<Longrightarrow> chain nxt' x ps"
  by (induction ps arbitrary: x) auto

lemma chain_append:
  "chain nxt x (ps @ q # qs) \<Longrightarrow> chain nxt (Some q) (q # qs)"
  by (induction ps arbitrary: x) auto

lemma chain_distinct: "chain nxt x ps \<Longrightarrow> distinct ps"
proof (induction ps arbitrary: x)
  case (Cons p ps)
  then obtain y where y: "nxt p = Some y" "chain nxt y ps" by auto
  have "p \<notin> set ps"
  proof
    assume "p \<in> set ps"
    then obtain us vs where "ps = us @ p # vs" by (meson split_list)
    with y have "chain nxt (Some p) (p # vs)" by (metis chain_append)
    with y have "chain nxt y vs" by simp
    with y have "vs = ps" by (auto dest: chain_unique)
    with \<open>ps = us @ p # vs\<close> show False by simp
  qed
  with Cons.IH y show ?case by simp
qed simp

lemma chain_allocated: "chain nxt x ps \<Longrightarrow> p \<in> set ps \<Longrightarrow> nxt p \<noteq> None"
  by (induction ps arbitrary: x) auto

lemma chain_pred:
  "chain nxt x ps \<Longrightarrow> p \<in> set ps \<Longrightarrow> x = Some p \<or> (\<exists>c \<in> set ps. nxt c = Some (Some p))"
  by (induction ps arbitrary: x) auto

lemma chain_closed:
  "chain nxt x ps \<Longrightarrow> c \<in> set ps \<Longrightarrow> nxt c = Some (Some p) \<Longrightarrow> p \<in> set ps"
proof (induction ps arbitrary: x)
  case (Cons q qs)
  then show ?case by (cases "c = q") (auto simp: chain_Some)
qed simp

lemma follow_chain: "follow nxt n x = Some ps \<Longrightarrow> chain nxt x ps"
  by (induction nxt n x arbitrary: ps rule: follow.induct)
     (auto split: Option.bind_splits)

lemma chain_follow: "chain nxt x ps \<Longrightarrow> length ps \<le> n \<Longrightarrow> follow nxt n x = Some ps"
proof (induction ps arbitrary: x n)
  case (Cons p ps)
  then obtain m where "n = Suc m" by (cases n) auto
  with Cons show ?case by auto
qed simp

text \<open>
  A chain of cells below a bound has at most that many cells: the reason why the number of
  cells allocated so far is enough fuel for any walk.
\<close>

lemma chain_length_bound:
  assumes "chain nxt x ps" and "\<And>p. p \<in> set ps \<Longrightarrow> p < (n::nat)"
  shows "length ps \<le> n"
proof -
  have "length ps = card (set ps)"
    using assms(1) by (simp add: chain_distinct distinct_card)
  also have "\<dots> \<le> card {..<n}"
    using assms(2) by (intro card_mono) auto
  finally show ?thesis by simp
qed


section \<open>Linking and unlinking a cell\<close>

text \<open>The first element as a link.\<close>

definition first :: "'a list \<Rightarrow> 'a option" where
  "first xs = (case xs of [] \<Rightarrow> None | x # _ \<Rightarrow> Some x)"

lemma first_simps [simp]: "first [] = None" "first (x # xs) = Some x"
  by (simp_all add: first_def)

lemma first_append [simp]: "first (xs @ ys) = (if xs = [] then first ys else first xs)"
  by (cases xs) auto

lemma first_rev: "first (rev xs) = (if xs = [] then None else Some (last xs))"
  by (cases xs rule: rev_cases) auto

lemma first_None [simp]: "first xs = None \<longleftrightarrow> xs = []"
  by (cases xs) auto

lemma chain_first: "chain nxt x ps \<Longrightarrow> x = first ps"
  by (cases ps) auto

lemma chain_at: "chain nxt x (ps @ m # qs) \<Longrightarrow> nxt m = Some (first qs)"
  by (induction ps arbitrary: x) (auto dest: chain_first)

text \<open>A segment of a chain, up to the link \<open>y\<close> that leaves it.\<close>

primrec seg :: "('p \<Rightarrow> 'p option option) \<Rightarrow> 'p option \<Rightarrow> 'p list \<Rightarrow> 'p option \<Rightarrow> bool" where
  "seg nxt x [] y \<longleftrightarrow> x = y"
| "seg nxt x (p # ps) y \<longleftrightarrow> x = Some p \<and> (\<exists>z. nxt p = Some z \<and> seg nxt z ps y)"

lemma chain_seg: "chain nxt x ps \<longleftrightarrow> seg nxt x ps None"
  by (induction ps arbitrary: x) auto

lemma seg_append: "seg nxt x (ps @ qs) y \<longleftrightarrow> (\<exists>z. seg nxt x ps z \<and> seg nxt z qs y)"
  by (induction ps arbitrary: x) auto

lemma seg_snoc: "seg nxt x (ps @ [p]) y \<longleftrightarrow> seg nxt x ps (Some p) \<and> nxt p = Some y"
  by (auto simp: seg_append)

lemma seg_cong:
  "seg nxt x ps y \<Longrightarrow> (\<And>p. p \<in> set ps \<Longrightarrow> nxt' p = nxt p) \<Longrightarrow> seg nxt' x ps y"
  by (induction ps arbitrary: x) auto

lemma seg_retarget:
  assumes "seg nxt x ps y" "distinct ps"
    and "\<And>p. p \<in> set ps \<Longrightarrow> nxt' p = (if p = last ps then Some z else nxt p)"
  shows "seg nxt' (if ps = [] then z else x) ps z"
proof (cases ps rule: rev_cases)
  case (snoc qs p)
  then have "seg nxt x qs (Some p)" using assms(1) by (simp add: seg_snoc)
  moreover have "nxt' q = nxt q" if "q \<in> set qs" for q
    using assms(2,3) that snoc by auto
  ultimately have "seg nxt' x qs (Some p)" by (rule seg_cong)
  with snoc assms(3) show ?thesis by (simp add: seg_snoc)
qed simp

lemma chain_unlink:
  assumes ch: "chain nxt x (ps @ m # qs)" and n: "nxt m = Some n"
    and new: "\<And>p. p \<noteq> m \<Longrightarrow> nxt' p = (if ps \<noteq> [] \<and> p = last ps then Some n else nxt p)"
  shows "chain nxt' (if ps = [] then n else x) (ps @ qs)"
proof -
  have d: "distinct (ps @ m # qs)" using ch by (rule chain_distinct)
  have s: "seg nxt x ps (Some m)" "seg nxt n qs None"
    using ch n by (auto simp: chain_seg seg_append)
  have "seg nxt' (if ps = [] then n else x) ps n"
  proof (rule seg_retarget [OF s(1)])
    show "distinct ps" using d by simp
    show "nxt' p = (if p = last ps then Some n else nxt p)" if p: "p \<in> set ps" for p
    proof -
      have "p \<noteq> m" "ps \<noteq> []" using p d by auto
      then show ?thesis by (simp add: new)
    qed
  qed
  moreover have "seg nxt' n qs None"
    using s(2)
  proof (rule seg_cong)
    fix q assume "q \<in> set qs"
    then have "q \<noteq> m" "ps \<noteq> [] \<Longrightarrow> q \<noteq> last ps"
      using d by (auto dest: last_in_set)
    then show "nxt' q = nxt q" by (auto simp: new)
  qed
  ultimately show ?thesis by (auto simp: chain_seg seg_append)
qed

lemma chain_link:
  assumes ch: "chain nxt x (ps @ qs)" and m: "m \<notin> set (ps @ qs)"
    and n: "nxt' m = Some (first qs)"
    and new: "\<And>p. p \<noteq> m \<Longrightarrow> nxt' p = (if ps \<noteq> [] \<and> p = last ps then Some (Some m) else nxt p)"
  shows "chain nxt' (if ps = [] then Some m else x) (ps @ m # qs)"
proof -
  have d: "distinct (ps @ qs)" using ch by (rule chain_distinct)
  obtain z where s: "seg nxt x ps z" "seg nxt z qs None"
    using ch by (auto simp: chain_seg seg_append)
  then have z: "z = first qs" by (cases qs) auto
  have "seg nxt' (if ps = [] then Some m else x) ps (Some m)"
  proof (rule seg_retarget [OF s(1)])
    show "distinct ps" using d by simp
    show "nxt' p = (if p = last ps then Some (Some m) else nxt p)" if p: "p \<in> set ps" for p
    proof -
      have "p \<noteq> m" "ps \<noteq> []" using p m by auto
      then show ?thesis by (simp add: new)
    qed
  qed
  moreover have "seg nxt' z qs None"
    using s(2)
  proof (rule seg_cong)
    fix q assume "q \<in> set qs"
    then have "q \<noteq> m" "ps \<noteq> [] \<Longrightarrow> q \<noteq> last ps"
      using d m by (auto dest: last_in_set)
    then show "nxt' q = nxt q" by (auto simp: new)
  qed
  ultimately show ?thesis using n z by (auto simp: chain_seg seg_append)
qed


section \<open>First-match scans\<close>

text \<open>
  The index loops of the watcher and of the two hook tables all return the first position
  whose entry matches. \<open>first_index\<close> is that loop; \<open>first_match\<close> is its contract.
\<close>

fun first_index :: "('a \<Rightarrow> bool) \<Rightarrow> 'a list \<Rightarrow> nat option" where
  "first_index P [] = None"
| "first_index P (x # xs) = (if P x then Some 0 else map_option Suc (first_index P xs))"

lemma first_index_Some_iff:
  "first_index P xs = Some i \<longleftrightarrow>
     i < length xs \<and> P (xs ! i) \<and> (\<forall>j < i. \<not> P (xs ! j))"
proof (induction xs arbitrary: i)
  case (Cons x xs)
  show ?case
  proof (cases i)
    case 0
    then show ?thesis by auto
  next
    case (Suc k)
    have "(\<forall>j < i. \<not> P ((x # xs) ! j)) \<longleftrightarrow> \<not> P x \<and> (\<forall>j < k. \<not> P (xs ! j))"
      unfolding Suc by (metis less_Suc_eq_0_disj nth_Cons_0 nth_Cons_Suc)
    with Suc Cons.IH [of k] show ?thesis by auto
  qed
qed simp

lemma first_index_None_iff: "first_index P xs = None \<longleftrightarrow> (\<forall>x \<in> set xs. \<not> P x)"
  by (induction xs) auto

lemma first_index_map: "first_index P (map f xs) = first_index (\<lambda>x. P (f x)) xs"
  by (induction xs) auto

lemma first_index_append:
  "first_index P (xs @ ys) =
     (case first_index P xs of Some i \<Rightarrow> Some i
      | None \<Rightarrow> map_option (\<lambda>i. length xs + i) (first_index P ys))"
  by (induction xs)
     (auto split: option.splits simp: option.map_comp comp_def option.map_ident_strong
       intro!: option.map_cong)

locale first_match =
  fixes scan :: "'t \<Rightarrow> 'k \<Rightarrow> nat option"
    and elems :: "'t \<Rightarrow> 'a list"
    and matches :: "'k \<Rightarrow> 'a \<Rightarrow> bool"
  assumes scan_eq: "scan t k = first_index (matches k) (elems t)"
begin

lemma scan_hit: "scan t k = Some i \<Longrightarrow> i < length (elems t) \<and> matches k (elems t ! i)"
  by (simp add: scan_eq first_index_Some_iff)

lemma scan_least: "scan t k = Some i \<Longrightarrow> j < i \<Longrightarrow> \<not> matches k (elems t ! j)"
  by (simp add: scan_eq first_index_Some_iff)

lemma scan_miss: "scan t k = None \<longleftrightarrow> (\<forall>x \<in> set (elems t). \<not> matches k x)"
  by (simp add: scan_eq first_index_None_iff)

lemma scan_complete:
  assumes "x \<in> set (elems t)" "matches k x"
  shows "\<exists>i. scan t k = Some i"
  using assms scan_miss by (cases "scan t k") auto

lemma scan_unique:
  assumes uniq: "\<And>x y. x \<in> set (elems t) \<Longrightarrow> y \<in> set (elems t) \<Longrightarrow>
      matches k x \<Longrightarrow> matches k y \<Longrightarrow> x = y"
    and hit: "x \<in> set (elems t)" "matches k x"
  shows "\<exists>i. scan t k = Some i \<and> elems t ! i = x"
proof -
  obtain i where i: "scan t k = Some i" using scan_complete [OF hit] by blast
  then have "elems t ! i = x"
    using scan_hit [OF i] hit by (intro uniq) auto
  with i show ?thesis by blast
qed

end


section \<open>Step systems\<close>

text \<open>
  The reachable states of a system given by its start states and its step relation, and the
  induction principle for invariants.
\<close>

inductive reach :: "('s \<Rightarrow> bool) \<Rightarrow> ('s \<Rightarrow> 's \<Rightarrow> bool) \<Rightarrow> 's \<Rightarrow> bool"
  for start :: "'s \<Rightarrow> bool" and step :: "'s \<Rightarrow> 's \<Rightarrow> bool" where
  reach_start: "start s \<Longrightarrow> reach start step s"
| reach_step: "reach start step s \<Longrightarrow> step s t \<Longrightarrow> reach start step t"

locale step_system =
  fixes start :: "'s \<Rightarrow> bool"
    and step :: "'s \<Rightarrow> 's \<Rightarrow> bool"
    and inv :: "'s \<Rightarrow> bool"
  assumes inv_start: "start s \<Longrightarrow> inv s"
    and inv_step: "inv s \<Longrightarrow> step s t \<Longrightarrow> inv t"
begin

lemma reach_inv: "reach start step s \<Longrightarrow> inv s"
  by (induction rule: reach.induct) (auto intro: inv_start inv_step)

end


section \<open>Lists, options and words\<close>

lemma bind_Some_iff: "Option.bind x f = Some y \<longleftrightarrow> (\<exists>z. x = Some z \<and> f z = Some y)"
  by (cases x) auto

lemma map_option_neq_None [simp]: "map_option f x \<noteq> None \<longleftrightarrow> x \<noteq> None"
  by (cases x) auto

lemma last_two_distinct: "distinct xs \<Longrightarrow> length xs \<le> Suc 0 \<longleftrightarrow> (\<exists>x. set xs \<subseteq> {x})"
  by (cases xs; cases "tl xs") auto

lemma u8_less_bound: "unat (w :: u8) < 256"
  using unsigned_less [of w, where ?'a = nat] by simp

lemma unat_le_64: "unat (w :: u8) \<le> 64 \<longleftrightarrow> w \<le> 64"
  by (simp add: word_le_nat_alt)

end
