(* ===== verification/Xy_Types.thy ===== *)
theory Xy_Types
  imports Xy_Prelude
begin

text \<open>
  The data of the runtime, from \<^verbatim>\<open>src/papi.h\<close>, \<^verbatim>\<open>src/libxylem-internal.h\<close> and
  \<^verbatim>\<open>include/ttypt/xy.h\<close>: region and module entries, dispatch caches, adapters, module
  contexts, the runtime block \<^verbatim>\<open>xy_rt\<close>, the thread-locals, and the memory they live in; and
  the interface of everything the library calls but does not define.

  Conventions. A pointer is a \<open>nat\<close> and a nullable pointer an option. Each kind of heap
  object has its own heap, a partial map from addresses; an address outside it is dangling.
  An array with a capacity field is a list and the capacity its length. \<^verbatim>\<open>int\<close> counters are
  unbounded integers; \<^verbatim>\<open>uint8_t\<close> and \<^verbatim>\<open>uint64_t\<close> are words of their width. The POSIX
  configuration with \<^verbatim>\<open>dlinfo\<close> (Linux) is modelled, and one thread: its thread-locals are
  fields of the state.
\<close>

section \<open>Region identities\<close>

text \<open>\<^verbatim>\<open>xy_region_key_t\<close>: the packed pair that identifies a region.\<close>

datatype xy_region_key = Region_Key (rk_id: u64) (rk_plen: u8)

definition XY_REGION_ROOT :: u64 where "XY_REGION_ROOT = 0"
definition XY_REGION_INVALID :: u64 where "XY_REGION_INVALID = - 1"
definition XY_INVALID :: u32 where "XY_INVALID = - 1"

datatype xy_deny_type = XY_DENY_HOOK | XY_DENY_MODULE


section \<open>Heap objects\<close>

type_synonym rptr = nat \<comment> \<open>\<^verbatim>\<open>xy_region_entry_t *\<close>\<close>
type_synonym mptr = nat \<comment> \<open>\<^verbatim>\<open>xy_mod_entry_t *\<close>\<close>
type_synonym cptr = nat \<comment> \<open>\<^verbatim>\<open>xy_t *\<close>, a module's context\<close>
type_synonym aptr = nat \<comment> \<open>\<^verbatim>\<open>xy_adapter_t *\<close>\<close>
type_synonym sptr = nat \<comment> \<open>an interned path, \<^verbatim>\<open>const char *\<close>\<close>
type_synonym addr = nat \<comment> \<open>\<^verbatim>\<open>void *\<close> data: return buffers, arguments, user data\<close>
type_synonym fnptr = nat \<comment> \<open>the address of a symbol or function\<close>
type_synonym dlhandle = nat \<comment> \<open>a \<^verbatim>\<open>dlopen\<close> handle\<close>
type_synonym hd = nat \<comment> \<open>a corm table handle; 0 is no table\<close>

text \<open>A slot of \<^verbatim>\<open>fn_cache\<close>: null, the sentinel \<^verbatim>\<open>(void *)1\<close>, or a function.\<close>

datatype fn_slot = FN_NULL | XY_FN_NOT_FOUND | Fn fnptr

record xy_dispatch_slot =
  sl_me :: "mptr option"
  sl_cb :: fn_slot

record xy_hook_dispatch_cache =
  hc_slots :: "addr option"
  hc_count :: nat
  hc_cap :: nat
  hc_region_gen :: u64

record xy_region_entry =
  re_id :: u64
  re_depth :: u8
  re_plen :: u8
  re_child_bits :: u8
  re_owner_path :: "string option"
  re_denied_hooks :: "string list"
  re_denied_modules :: "sptr list"
  re_denied_hooks_set :: hd
  re_denied_modules_set :: hd
  re_subtree_flags :: u8
  re_dispatch_gen :: u64
  re_claim_handler :: "fnptr option"
  re_claim_handler_ud :: "addr option"
  re_require_claim :: bool
  re_parent :: "rptr option"
  re_children_head :: "rptr option"
  re_sibling_next :: "rptr option"
  re_mods_head :: "mptr option"
  re_mods_tail :: "mptr option"
  re_subtree_mods :: "mptr list"
  re_subtree_mods_cap :: nat
  re_subtree_mods_dirty :: bool
  re_hook_dispatch :: "xy_hook_dispatch_cache list"

record xy_mod_entry =
  me_ctx :: "cptr option"
  me_region_next :: "mptr option"
  me_fn_cache :: "fn_slot list"
  me_region_state :: "addr option"
  me_load_path :: "sptr option"
  me_handle :: "dlhandle option"
  me_region_entry :: "rptr option"
  me_region_id :: u64
  me_region_plen :: u8
  me_region_prev :: "mptr option"
  me_refcount :: int
  me_parent_entry :: "mptr option"
  me_hook_impl_bits :: "u64 list"
  me_mod_key :: string
  me_tmp_load_path :: "string option"

text \<open>The functions a context's table can point to, one per function-pointer field.\<close>

datatype xy_api =
    Api_call | Api_areg | Api_load | Api_err | Api_strerror | Api_last | Api_shutdown
  | Api_deny | Api_require_claim | Api_region_each | Api_with_region | Api_current_region
  | Api_current_region_plen | Api_region_exists | Api_claim_at | Api_region_at
  | Api_call_self | Api_unload | Api_reload

text \<open>
  \<^verbatim>\<open>xy_t\<close>, the mirror of \<^verbatim>\<open>struct xy_ctx\<close>: \<open>cx_fns f\<close> is what the field for \<open>f\<close>
  points to.
\<close>

record xy_t =
  cx_fns :: "xy_api \<Rightarrow> xy_api option"
  cx_adapter :: "aptr option"
  cx_module_path :: "string option"
  cx_region_id :: u64
  cx_region_state :: "addr option"

record xy_adapter =
  ad_name :: string
  ad_arg_size :: nat
  ad_ret_size :: nat
  ad_call :: "fnptr option"
  ad_hook_id :: int


section \<open>The state of the process\<close>

text \<open>\<^verbatim>\<open>xy_last_retp\<close> is null, the buffer of the running dispatch, or \<^verbatim>\<open>xy_last_retbuf\<close>.\<close>

datatype ret_ref = Caller_Buf addr | Last_Retbuf

text \<open>\<^verbatim>\<open>xy_runtime_t\<close>: the table handles and counters of \<^verbatim>\<open>xy_rt\<close>.\<close>

record xy_runtime =
  mod_hd :: hd
  mod_by_region_hd :: hd
  sica_hd :: hd
  path_intern_hd :: hd
  region_hd :: hd
  hook_id_hd :: hd
  xy_hook_id_counter :: int
  xy_adapter_by_id :: "aptr option list"
  xy_inited :: bool
  xy_mod_count :: int

text \<open>
  \<open>'h\<close> is the state of the corm library. \<open>next_addr\<close> is the first address never handed
  out by the allocator: the heaps only hold addresses below it. The last two fields are what
  the library holds of the linker and of the file system: how often each object is open, and
  the temporary copies on disk.
\<close>

record 'h xy_state =
  st_corm :: 'h
  regions :: "rptr \<Rightarrow> xy_region_entry option"
  mods :: "mptr \<Rightarrow> xy_mod_entry option"
  ctxs :: "cptr \<Rightarrow> xy_t option"
  adapters :: "aptr \<Rightarrow> xy_adapter option"
  paths :: "sptr \<Rightarrow> string option"
  slot_arrays :: "addr \<Rightarrow> xy_dispatch_slot list option"
  bufs :: "addr \<Rightarrow> u8 list option"
  next_addr :: nat
  xy_rt :: xy_runtime
  xy_global :: xy_t
  xy_err_val :: int
  xy_last_ran :: nat
  xy_last_retbuf :: "u8 list"
  xy_last_retp :: "ret_ref option"
  xy_current_region_id :: u64
  xy_current_region_entry :: "rptr option"
  xy_loading_mod :: "mptr option"
  xy_pending_ctx :: "cptr option"
  xy_reloading :: bool
  dl_refs :: "dlhandle \<Rightarrow> nat"
  tmp_files :: "string list"

definition set_err :: "int \<Rightarrow> 'h xy_state \<Rightarrow> 'h xy_state" where
  "set_err e s = s\<lparr>xy_err_val := e\<rparr>"

text \<open>\<^verbatim>\<open>XY_SET_ERR(e); return e;\<close>\<close>

definition fail_with :: "int \<Rightarrow> 'h xy_state \<Rightarrow> int \<times> 'h xy_state" where
  "fail_with e s = (e, set_err e s)"


section \<open>The libraries the runtime calls\<close>

text \<open>
  Keys and values of corm tables: region identities, strings and interned path pointers as
  keys, pointers and hook ids as values.
\<close>

datatype corm_key = KRegion xy_region_key | KStr string | KPath sptr
datatype corm_val = VPtr nat | VInt int

text \<open>
  The corm calls the library makes. \<open>corm_iter h d k\<close> is what the \<^verbatim>\<open>corm_iter\<close> /
  \<^verbatim>\<open>corm_next\<close> pair enumerates, for all keys (\<^const>\<open>None\<close>) or one; the flag of
  \<open>corm_open\<close> is \<^verbatim>\<open>CM_MULTIVALUE\<close>.
\<close>

record 'h corm =
  corm_open :: "'h \<Rightarrow> bool \<Rightarrow> hd \<times> 'h"
  corm_close :: "'h \<Rightarrow> hd \<Rightarrow> 'h"
  corm_get :: "'h \<Rightarrow> hd \<Rightarrow> corm_key \<Rightarrow> corm_val option"
  corm_put :: "'h \<Rightarrow> hd \<Rightarrow> corm_key \<Rightarrow> corm_val \<Rightarrow> 'h"
  corm_del :: "'h \<Rightarrow> hd \<Rightarrow> corm_key \<Rightarrow> 'h"
  corm_del_all :: "'h \<Rightarrow> hd \<Rightarrow> corm_key \<Rightarrow> 'h"
  corm_iter :: "'h \<Rightarrow> hd \<Rightarrow> corm_key option \<Rightarrow> (corm_key \<times> corm_val) list"
  corm_single :: "'h \<Rightarrow> hd \<Rightarrow> bool"

text \<open>
  What the runtime calls outside itself: the corm library, the dynamic linker, the path
  resolver and environment of the process, the allocator's answer, the copying of a file's
  bytes, and the code of modules and of the host (hook bodies, claim handlers, scope functions,
  the constructors that run inside \<^verbatim>\<open>dlopen\<close>, \<^verbatim>\<open>xy_install\<close>, \<^verbatim>\<open>xy_region_cleanup\<close>), which may
  call back into the library and so maps a state to a state. The symbols \<^verbatim>\<open>get_xy_ptr\<close>,
  \<^verbatim>\<open>xy_ctx_abi\<close> and \<^verbatim>\<open>xy_region_state_size\<close> of a module are functions that only return a value,
  and \<^verbatim>\<open>xy_claim\<close> is a byte.
\<close>

record 'h env =
  env_corm :: "'h corm"
  stl_realpath :: "string \<Rightarrow> string option"
  getenv :: "string \<Rightarrow> string option"
  stl_dlsym :: "dlhandle \<Rightarrow> string \<Rightarrow> fnptr option"
  dlinfo_base :: "dlhandle \<Rightarrow> addr option"
  dladdr_base :: "fnptr \<Rightarrow> addr option"
  malloc_ok :: "'h xy_state \<Rightarrow> nat \<Rightarrow> bool"
  run_hook :: "fnptr \<Rightarrow> addr option \<Rightarrow> fn_slot \<Rightarrow> addr option \<Rightarrow> 'h xy_state \<Rightarrow> 'h xy_state option"
  run_scope :: "fnptr \<Rightarrow> addr option \<Rightarrow> 'h xy_state \<Rightarrow> (int \<times> 'h xy_state) option"
  run_each :: "fnptr \<Rightarrow> u64 \<Rightarrow> u8 \<Rightarrow> addr option \<Rightarrow> 'h xy_state \<Rightarrow> (int \<times> 'h xy_state) option"
  run_claim :: "fnptr \<Rightarrow> string \<Rightarrow> u8 \<Rightarrow> addr option \<Rightarrow> 'h xy_state \<Rightarrow>
                  (int \<times> u8 \<times> 'h xy_state) option"
  stl_dlopen :: "string option \<Rightarrow> 'h xy_state \<Rightarrow> (dlhandle option \<times> 'h xy_state) option"
  stl_mkstemps :: "string \<Rightarrow> 'h xy_state \<Rightarrow> string option"
  copy_bytes :: "string \<Rightarrow> string \<Rightarrow> 'h xy_state \<Rightarrow> bool"
  call_get_xy :: "fnptr \<Rightarrow> cptr option"
  call_abi :: "fnptr \<Rightarrow> u64"
  call_state_size :: "fnptr \<Rightarrow> nat"
  read_claim :: "fnptr \<Rightarrow> u8"
  run_install :: "fnptr \<Rightarrow> 'h xy_state \<Rightarrow> 'h xy_state option"
  run_cleanup :: "fnptr \<Rightarrow> addr \<Rightarrow> 'h xy_state \<Rightarrow> 'h xy_state option"

text \<open>
  The documented behaviour of the corm tables the library uses: a table opened without
  \<^verbatim>\<open>CM_MULTIVALUE\<close> is a map; operations on one table, closing it included, leave the others alone; a new table is
  empty and its handle is a fresh, non-zero one; an iteration lists the entries once each.
\<close>

definition corm_ok :: "'h corm \<Rightarrow> bool" where
  "corm_ok C \<longleftrightarrow>
     (\<forall>h d k v d' k'. corm_single C h d' \<longrightarrow>
        corm_get C (corm_put C h d k v) d' k' =
          (if d' = d \<and> k' = k then Some v else corm_get C h d' k')) \<and>
     (\<forall>h d k d' k'. corm_single C h d' \<longrightarrow>
        corm_get C (corm_del C h d k) d' k' =
          (if d' = d \<and> k' = k then None else corm_get C h d' k')) \<and>
     (\<forall>h d k d' k'. corm_single C h d' \<longrightarrow>
        corm_get C (corm_del_all C h d k) d' k' =
          (if d' = d \<and> k' = k then None else corm_get C h d' k')) \<and>
     (\<forall>h d k v d'. corm_single C (corm_put C h d k v) d' = corm_single C h d') \<and>
     (\<forall>h d k d'. corm_single C (corm_del_all C h d k) d' = corm_single C h d') \<and>
     (\<forall>h d d' k. d' \<noteq> d \<longrightarrow>
        corm_get C (corm_close C h d) d' k = corm_get C h d' k \<and>
        corm_single C (corm_close C h d) d' = corm_single C h d') \<and>
     (\<forall>h d k d'. corm_single C (corm_del C h d k) d' = corm_single C h d') \<and>
     (\<forall>h m d h'. corm_open C h m = (d, h') \<longrightarrow>
        d \<noteq> 0 \<and> \<not> corm_single C h d \<and> (corm_single C h' d \<longleftrightarrow> \<not> m) \<and>
        (\<forall>k. corm_get C h' d k = None) \<and>
        (\<forall>d' k. d' \<noteq> d \<longrightarrow>
           corm_single C h' d' = corm_single C h d' \<and> corm_get C h' d' k = corm_get C h d' k)) \<and>
     (\<forall>h d. corm_single C h d \<longrightarrow>
        distinct (map fst (corm_iter C h d None)) \<and>
        (\<forall>k v. (k, v) \<in> set (corm_iter C h d None) \<longleftrightarrow> corm_get C h d k = Some v))"

definition env_ok :: "'h env \<Rightarrow> bool" where
  "env_ok E \<longleftrightarrow> corm_ok (env_corm E)"

text \<open>Table operations on the state.\<close>

definition tbl_get :: "'h env \<Rightarrow> 'h xy_state \<Rightarrow> hd \<Rightarrow> corm_key \<Rightarrow> corm_val option" where
  "tbl_get E s d k = corm_get (env_corm E) (st_corm s) d k"

definition tbl_put :: "'h env \<Rightarrow> hd \<Rightarrow> corm_key \<Rightarrow> corm_val \<Rightarrow> 'h xy_state \<Rightarrow> 'h xy_state" where
  "tbl_put E d k v s = s\<lparr>st_corm := corm_put (env_corm E) (st_corm s) d k v\<rparr>"

definition tbl_del :: "'h env \<Rightarrow> hd \<Rightarrow> corm_key \<Rightarrow> 'h xy_state \<Rightarrow> 'h xy_state" where
  "tbl_del E d k s = s\<lparr>st_corm := corm_del (env_corm E) (st_corm s) d k\<rparr>"

definition tbl_iter :: "'h env \<Rightarrow> 'h xy_state \<Rightarrow> hd \<Rightarrow> (corm_key \<times> corm_val) list" where
  "tbl_iter E s d = corm_iter (env_corm E) (st_corm s) d None"

definition tbl_single :: "'h env \<Rightarrow> 'h xy_state \<Rightarrow> hd \<Rightarrow> bool" where
  "tbl_single E s d \<longleftrightarrow> corm_single (env_corm E) (st_corm s) d"

definition tbl_open :: "'h env \<Rightarrow> bool \<Rightarrow> 'h xy_state \<Rightarrow> hd \<times> 'h xy_state" where
  "tbl_open E m s =
     (let (d, h) = corm_open (env_corm E) (st_corm s) m in (d, s\<lparr>st_corm := h\<rparr>))"

text \<open>\<^verbatim>\<open>corm_ptr\<close>: the pointer stored as a value, or null.\<close>

fun corm_ptr :: "corm_val option \<Rightarrow> nat option" where
  "corm_ptr (Some (VPtr p)) = Some p"
| "corm_ptr _ = None"


section \<open>Reads and writes of the heaps\<close>

definition upd_reg :: "rptr \<Rightarrow> (xy_region_entry \<Rightarrow> xy_region_entry) \<Rightarrow> 'h xy_state \<Rightarrow> 'h xy_state" where
  "upd_reg p f s = s\<lparr>regions := (regions s)(p := map_option f (regions s p))\<rparr>"

definition upd_mod :: "mptr \<Rightarrow> (xy_mod_entry \<Rightarrow> xy_mod_entry) \<Rightarrow> 'h xy_state \<Rightarrow> 'h xy_state" where
  "upd_mod p f s = s\<lparr>mods := (mods s)(p := map_option f (mods s p))\<rparr>"

definition upd_ctx :: "cptr \<Rightarrow> (xy_t \<Rightarrow> xy_t) \<Rightarrow> 'h xy_state \<Rightarrow> 'h xy_state" where
  "upd_ctx p f s = s\<lparr>ctxs := (ctxs s)(p := map_option f (ctxs s p))\<rparr>"

definition upd_adapter :: "aptr \<Rightarrow> (xy_adapter \<Rightarrow> xy_adapter) \<Rightarrow> 'h xy_state \<Rightarrow> 'h xy_state" where
  "upd_adapter p f s = s\<lparr>adapters := (adapters s)(p := map_option f (adapters s p))\<rparr>"

definition upd_rt :: "(xy_runtime \<Rightarrow> xy_runtime) \<Rightarrow> 'h xy_state \<Rightarrow> 'h xy_state" where
  "upd_rt f s = s\<lparr>xy_rt := f (xy_rt s)\<rparr>"

text \<open>\<^verbatim>\<open>calloc\<close> of a region entry that is then filled in.\<close>

definition new_region :: "xy_region_entry \<Rightarrow> 'h xy_state \<Rightarrow> rptr \<times> 'h xy_state" where
  "new_region e s =
     (next_addr s, s\<lparr>regions := (regions s)(next_addr s \<mapsto> e), next_addr := Suc (next_addr s)\<rparr>)"

text \<open>A zeroed entry, as \<^verbatim>\<open>calloc\<close> returns it.\<close>

definition region_zero :: xy_region_entry where
  "region_zero =
     \<lparr>re_id = 0, re_depth = 0, re_plen = 0, re_child_bits = 0, re_owner_path = None,
      re_denied_hooks = [], re_denied_modules = [], re_denied_hooks_set = 0,
      re_denied_modules_set = 0, re_subtree_flags = 0, re_dispatch_gen = 0,
      re_claim_handler = None, re_claim_handler_ud = None, re_require_claim = False,
      re_parent = None, re_children_head = None, re_sibling_next = None,
      re_mods_head = None, re_mods_tail = None, re_subtree_mods = [], re_subtree_mods_cap = 0,
      re_subtree_mods_dirty = False, re_hook_dispatch = []\<rparr>"

definition mod_zero :: xy_mod_entry where
  "mod_zero =
     \<lparr>me_ctx = None, me_region_next = None, me_fn_cache = [], me_region_state = None,
      me_load_path = None, me_handle = None, me_region_entry = None, me_region_id = 0,
      me_region_plen = 0, me_region_prev = None, me_refcount = 0, me_parent_entry = None,
      me_hook_impl_bits = [], me_mod_key = [], me_tmp_load_path = None\<rparr>"

definition xy_t_zero :: xy_t where
  "xy_t_zero =
     \<lparr>cx_fns = (\<lambda>_. None), cx_adapter = None, cx_module_path = None, cx_region_id = 0,
      cx_region_state = None\<rparr>"

text \<open>
  Fuel for a walk along heap links: the number of addresses handed out so far (plus one).
  Walks that go down the region tree are bounded by the width of an id instead.
\<close>

definition link_fuel :: "'h xy_state \<Rightarrow> nat" where
  "link_fuel s = Suc (next_addr s)"

definition depth_fuel :: nat where
  "depth_fuel = 66"


section \<open>Lemmas\<close>

lemma upd_reg_regions [heap_simps]:
  "regions (upd_reg p f s) q = (if q = p then map_option f (regions s q) else regions s q)"
  by (simp add: upd_reg_def)

lemma upd_mod_mods [heap_simps]:
  "mods (upd_mod p f s) q = (if q = p then map_option f (mods s q) else mods s q)"
  by (simp add: upd_mod_def)

lemma upd_ctx_ctxs [heap_simps]:
  "ctxs (upd_ctx p f s) q = (if q = p then map_option f (ctxs s q) else ctxs s q)"
  by (simp add: upd_ctx_def)

lemma upd_reg_frame [heap_simps]:
  "st_corm (upd_reg p f s) = st_corm s" "mods (upd_reg p f s) = mods s"
  "ctxs (upd_reg p f s) = ctxs s" "adapters (upd_reg p f s) = adapters s"
  "paths (upd_reg p f s) = paths s" "slot_arrays (upd_reg p f s) = slot_arrays s"
  "bufs (upd_reg p f s) = bufs s" "next_addr (upd_reg p f s) = next_addr s"
  "xy_rt (upd_reg p f s) = xy_rt s" "xy_global (upd_reg p f s) = xy_global s"
  "xy_err_val (upd_reg p f s) = xy_err_val s"
  "xy_current_region_id (upd_reg p f s) = xy_current_region_id s"
  "xy_current_region_entry (upd_reg p f s) = xy_current_region_entry s"
  by (simp_all add: upd_reg_def)

lemma upd_mod_frame [heap_simps]:
  "st_corm (upd_mod p f s) = st_corm s" "regions (upd_mod p f s) = regions s"
  "ctxs (upd_mod p f s) = ctxs s" "adapters (upd_mod p f s) = adapters s"
  "paths (upd_mod p f s) = paths s" "slot_arrays (upd_mod p f s) = slot_arrays s"
  "bufs (upd_mod p f s) = bufs s" "next_addr (upd_mod p f s) = next_addr s"
  "xy_rt (upd_mod p f s) = xy_rt s" "xy_global (upd_mod p f s) = xy_global s"
  "xy_err_val (upd_mod p f s) = xy_err_val s"
  "xy_current_region_id (upd_mod p f s) = xy_current_region_id s"
  "xy_current_region_entry (upd_mod p f s) = xy_current_region_entry s"
  by (simp_all add: upd_mod_def)

lemma set_err_frame [heap_simps]:
  "st_corm (set_err e s) = st_corm s" "regions (set_err e s) = regions s"
  "mods (set_err e s) = mods s" "ctxs (set_err e s) = ctxs s"
  "adapters (set_err e s) = adapters s" "paths (set_err e s) = paths s"
  "slot_arrays (set_err e s) = slot_arrays s" "bufs (set_err e s) = bufs s"
  "next_addr (set_err e s) = next_addr s" "xy_rt (set_err e s) = xy_rt s"
  "xy_global (set_err e s) = xy_global s"
  "xy_err_val (set_err e s) = e"
  "xy_current_region_id (set_err e s) = xy_current_region_id s"
  "xy_current_region_entry (set_err e s) = xy_current_region_entry s"
  by (simp_all add: set_err_def)

lemma tbl_put_frame [heap_simps]:
  "regions (tbl_put E d k v s) = regions s"
  "mods (tbl_put E d k v s) = mods s" "ctxs (tbl_put E d k v s) = ctxs s"
  "adapters (tbl_put E d k v s) = adapters s" "paths (tbl_put E d k v s) = paths s"
  "slot_arrays (tbl_put E d k v s) = slot_arrays s" "bufs (tbl_put E d k v s) = bufs s"
  "next_addr (tbl_put E d k v s) = next_addr s" "xy_rt (tbl_put E d k v s) = xy_rt s"
  "xy_global (tbl_put E d k v s) = xy_global s"
  "xy_err_val (tbl_put E d k v s) = xy_err_val s"
  "xy_current_region_id (tbl_put E d k v s) = xy_current_region_id s"
  "xy_current_region_entry (tbl_put E d k v s) = xy_current_region_entry s"
  by (simp_all add: tbl_put_def)

text \<open>Table reads only depend on the corm state.\<close>

lemma tbl_get_cong: "st_corm s = st_corm t \<Longrightarrow> tbl_get E s = tbl_get E t"
  by (intro ext) (simp add: tbl_get_def)

lemma tbl_single_cong: "st_corm s = st_corm t \<Longrightarrow> tbl_single E s = tbl_single E t"
  by (intro ext) (simp add: tbl_single_def)

lemma tbl_get_frame [heap_simps]:
  "tbl_get E (upd_reg p f s) = tbl_get E s" "tbl_get E (upd_mod p g s) = tbl_get E s"
  "tbl_get E (set_err e s) = tbl_get E s"
  "tbl_single E (upd_reg p f s) = tbl_single E s" "tbl_single E (upd_mod p g s) = tbl_single E s"
  "tbl_single E (set_err e s) = tbl_single E s"
  by (auto intro!: tbl_get_cong tbl_single_cong simp: heap_simps)

lemma tbl_get_put:
  "env_ok E \<Longrightarrow> tbl_single E s d' \<Longrightarrow>
   tbl_get E (tbl_put E d k v s) d' k' = (if d' = d \<and> k' = k then Some v else tbl_get E s d' k')"
  by (simp add: env_ok_def corm_ok_def tbl_get_def tbl_put_def tbl_single_def)

lemma tbl_single_put: "env_ok E \<Longrightarrow> tbl_single E (tbl_put E d k v s) d' = tbl_single E s d'"
  by (simp add: env_ok_def corm_ok_def tbl_put_def tbl_single_def)

lemma tbl_get_del:
  "env_ok E \<Longrightarrow> tbl_single E s d' \<Longrightarrow>
   tbl_get E (tbl_del E d k s) d' k' = (if d' = d \<and> k' = k then None else tbl_get E s d' k')"
  by (simp add: env_ok_def corm_ok_def tbl_get_def tbl_del_def tbl_single_def)

lemma tbl_single_del: "env_ok E \<Longrightarrow> tbl_single E (tbl_del E d k s) d' = tbl_single E s d'"
  by (simp add: env_ok_def corm_ok_def tbl_del_def tbl_single_def)

lemma tbl_iter_iff:
  "env_ok E \<Longrightarrow> tbl_single E s d \<Longrightarrow>
   (k, v) \<in> set (tbl_iter E s d) \<longleftrightarrow> tbl_get E s d k = Some v"
  by (simp add: env_ok_def corm_ok_def tbl_iter_def tbl_get_def tbl_single_def)

end
