(* ===== verification/Xy_Region.thy ===== *)
theory Xy_Region
  imports Xy_Types
begin

text \<open>
  The region tree of \<^verbatim>\<open>src/libxylem.c\<close>: prefix masks, lookup by full identity, the walks up the
  parent links and down the child lists, the two covering searches, and the creation of the
  root. The second half orders the identities by containment; the invariant of the tree and
  what the walks compute on it are in \<open>Xy_Tree\<close>.
\<close>

section \<open>Masks and identities\<close>

definition region_mask :: "u8 \<Rightarrow> u64" where
  "region_mask plen =
     (if plen = 0 then 0
      else if 64 \<le> plen then NOT 0
      else push_bit (64 - unat plen) (NOT 0))"

definition region_key :: "u64 \<Rightarrow> u8 \<Rightarrow> xy_region_key" where
  "region_key i plen = Region_Key i plen"

definition region_lookup :: "'h env \<Rightarrow> 'h xy_state \<Rightarrow> u64 \<Rightarrow> u8 \<Rightarrow> rptr option" where
  "region_lookup E s i plen =
     corm_ptr (tbl_get E s (region_hd (xy_rt s)) (KRegion (region_key i plen)))"

definition set_current_region :: "u64 \<Rightarrow> rptr option \<Rightarrow> 'h xy_state \<Rightarrow> 'h xy_state" where
  "set_current_region i e s = s\<lparr>xy_current_region_id := i, xy_current_region_entry := e\<rparr>"

definition region_lookup_current :: "'h xy_state \<Rightarrow> rptr option" where
  "region_lookup_current s = xy_current_region_entry s"

text \<open>0 before initialisation and for the root, otherwise the width of the current region.\<close>

definition region_current_plen :: "'h xy_state \<Rightarrow> u8 option" where
  "region_current_plen s =
     (case xy_current_region_entry s of
        None \<Rightarrow> Some 0
      | Some e \<Rightarrow> do { r \<leftarrow> regions s e; Some (re_plen r) })"


section \<open>Walks up the parent links\<close>

text \<open>The collecting loop of \<^verbatim>\<open>region_ancestor_chain\<close>, bounded by \<^verbatim>\<open>chain_cap\<close>.\<close>

fun ancestor_loop :: "'h xy_state \<Rightarrow> nat \<Rightarrow> rptr option \<Rightarrow> rptr list option" where
  "ancestor_loop s cap None = Some []"
| "ancestor_loop s 0 (Some e) = Some []"
| "ancestor_loop s (Suc cap) (Some e) =
     do { r \<leftarrow> regions s e; es \<leftarrow> ancestor_loop s cap (re_parent r); Some (e # es) }"

definition region_ancestor_chain :: "'h xy_state \<Rightarrow> rptr \<Rightarrow> nat \<Rightarrow> rptr list option" where
  "region_ancestor_chain s start cap = map_option rev (ancestor_loop s cap (Some start))"

text \<open>\<^verbatim>\<open>for (e = entry; e; e = e->parent) body\<close>\<close>

fun for_parents ::
  "nat \<Rightarrow> (xy_region_entry \<Rightarrow> xy_region_entry) \<Rightarrow> rptr option \<Rightarrow> 'h xy_state \<Rightarrow> 'h xy_state option" where
  "for_parents n body None s = Some s"
| "for_parents 0 body (Some e) s = None"
| "for_parents (Suc n) body (Some e) s =
     do { r \<leftarrow> regions s e; for_parents n body (re_parent r) (upd_reg e body s) }"

definition XY_SUBTREE_HAS_DENY :: u8 where "XY_SUBTREE_HAS_DENY = 1"
definition XY_SUBTREE_SECURITY_MASK :: u8 where "XY_SUBTREE_SECURITY_MASK = XY_SUBTREE_HAS_DENY"

definition mark_has_deny :: "xy_region_entry \<Rightarrow> xy_region_entry" where
  "mark_has_deny r = r\<lparr>re_subtree_flags := re_subtree_flags r OR XY_SUBTREE_HAS_DENY\<rparr>"

definition region_propagate_deny :: "rptr option \<Rightarrow> 'h xy_state \<Rightarrow> 'h xy_state option" where
  "region_propagate_deny entry s = for_parents depth_fuel mark_has_deny entry s"

definition bump_gen :: "xy_region_entry \<Rightarrow> xy_region_entry" where
  "bump_gen r =
     (let g = re_dispatch_gen r + 1
      in if g = 0 then r\<lparr>re_dispatch_gen := 1\<rparr> else r\<lparr>re_dispatch_gen := g\<rparr>)"

definition region_dispatch_gen_bump :: "rptr option \<Rightarrow> 'h xy_state \<Rightarrow> 'h xy_state option" where
  "region_dispatch_gen_bump entry s = for_parents depth_fuel bump_gen entry s"

definition mark_dirty :: "xy_region_entry \<Rightarrow> xy_region_entry" where
  "mark_dirty r = r\<lparr>re_subtree_mods_dirty := True\<rparr>"

definition region_mark_subtree_dirty :: "rptr option \<Rightarrow> 'h xy_state \<Rightarrow> 'h xy_state option" where
  "region_mark_subtree_dirty entry s =
     do { s1 \<leftarrow> region_dispatch_gen_bump entry s; for_parents depth_fuel mark_dirty entry s1 }"


section \<open>Walks down the child lists\<close>

text \<open>The links of \<^verbatim>\<open>children_head\<close> / \<^verbatim>\<open>sibling_next\<close> and of \<^verbatim>\<open>mods_head\<close> / \<^verbatim>\<open>region_next\<close>.\<close>

definition sib_next :: "'h xy_state \<Rightarrow> rptr \<Rightarrow> rptr option option" where
  "sib_next s p = map_option re_sibling_next (regions s p)"

definition mod_next :: "'h xy_state \<Rightarrow> mptr \<Rightarrow> mptr option option" where
  "mod_next s m = map_option me_region_next (mods s m)"

definition region_children :: "'h xy_state \<Rightarrow> xy_region_entry \<Rightarrow> rptr list option" where
  "region_children s r = follow (sib_next s) (link_fuel s) (re_children_head r)"

definition region_mods :: "'h xy_state \<Rightarrow> xy_region_entry \<Rightarrow> mptr list option" where
  "region_mods s r = follow (mod_next s) (link_fuel s) (re_mods_head r)"

text \<open>
  \<^verbatim>\<open>region_subtree_mods_push\<close>: append to the vector of \<open>root\<close>, doubling its capacity when
  it is full; \<open>-1\<close> when the allocator refuses. The list holds the first \<^verbatim>\<open>count\<close> elements.
\<close>

definition region_subtree_mods_push ::
  "'h env \<Rightarrow> rptr \<Rightarrow> mptr \<Rightarrow> 'h xy_state \<Rightarrow> (int \<times> 'h xy_state) option" where
  "region_subtree_mods_push E root me s =
     do { r \<leftarrow> regions s root;
          let cap = re_subtree_mods_cap r;
          let new_cap = (if length (re_subtree_mods r) \<ge> cap
                         then (if cap \<noteq> 0 then cap * 2 else 8) else cap);
          if length (re_subtree_mods r) \<ge> cap \<and> \<not> malloc_ok E s new_cap then Some (-1, s)
          else Some (0, upd_reg root
                 (\<lambda>r. r\<lparr>re_subtree_mods_cap := new_cap,
                          re_subtree_mods := re_subtree_mods r @ [me]\<rparr>) s) }"

text \<open>The module loop of \<^verbatim>\<open>region_collect_subtree_mods\<close>; a push leaves the links alone.\<close>

fun push_mods ::
  "'h env \<Rightarrow> rptr \<Rightarrow> mptr list \<Rightarrow> 'h xy_state \<Rightarrow> (int \<times> 'h xy_state) option" where
  "push_mods E root [] s = Some (0, s)"
| "push_mods E root (m # ms) s =
     do { (rc, s1) \<leftarrow> region_subtree_mods_push E root m s;
          if rc < 0 then Some (-1, s1) else push_mods E root ms s1 }"

fun region_collect_subtree_mods ::
    "'h env \<Rightarrow> nat \<Rightarrow> rptr \<Rightarrow> rptr \<Rightarrow> 'h xy_state \<Rightarrow> (int \<times> 'h xy_state) option"
  and collect_children ::
    "'h env \<Rightarrow> nat \<Rightarrow> rptr \<Rightarrow> rptr list \<Rightarrow> 'h xy_state \<Rightarrow> (int \<times> 'h xy_state) option" where
  "region_collect_subtree_mods E 0 root node s = None"
| "region_collect_subtree_mods E (Suc d) root node s =
     do { r \<leftarrow> regions s node;
          ms \<leftarrow> region_mods s r;
          (rc, s1) \<leftarrow> push_mods E root ms s;
          if rc < 0 then Some (-1, s1)
          else do { cs \<leftarrow> region_children s1 r;
                    collect_children E d root cs s1 } }"
| "collect_children E d root [] s = Some (0, s)"
| "collect_children E d root (c # cs) s =
     do { (rc, s1) \<leftarrow> region_collect_subtree_mods E d root c s;
          if rc < 0 then Some (-1, s1) else collect_children E d root cs s1 }"

text \<open>\<^verbatim>\<open>region_rebuild_subtree_mods\<close>: 0 on success, \<open>-1\<close> when the vector cannot grow.\<close>

definition region_rebuild_subtree_mods ::
  "'h env \<Rightarrow> rptr option \<Rightarrow> 'h xy_state \<Rightarrow> (int \<times> 'h xy_state) option" where
  "region_rebuild_subtree_mods E root s =
     (case root of
        None \<Rightarrow> Some (0, s)
      | Some root \<Rightarrow>
          do { r \<leftarrow> regions s root;
               (rc, s1) \<leftarrow> region_collect_subtree_mods E depth_fuel root root
                 (upd_reg root (\<lambda>r. r\<lparr>re_subtree_mods := []\<rparr>) s);
               if rc < 0 then Some (-1, s1)
               else Some (0, upd_reg root (\<lambda>r. r\<lparr>re_subtree_mods_dirty := False\<rparr>) s1) })"


section \<open>Covering searches\<close>

text \<open>\<open>best\<close> is null or a region; a node replaces it when it covers the point and is deeper.\<close>

definition better :: "'h xy_state \<Rightarrow> u64 \<Rightarrow> rptr \<Rightarrow> rptr option \<Rightarrow> rptr option option" where
  "better s i node best =
     do { r \<leftarrow> regions s node;
          if i AND region_mask (re_plen r) = re_id r
          then (case best of
                  None \<Rightarrow> Some (Some node)
                | Some b \<Rightarrow>
                    do { rb \<leftarrow> regions s b;
                         Some (if re_plen r > re_plen rb then Some node else best) })
          else Some best }"

fun region_find_ancestor_rec ::
    "nat \<Rightarrow> 'h xy_state \<Rightarrow> u64 \<Rightarrow> u8 \<Rightarrow> rptr \<Rightarrow> rptr option \<Rightarrow> rptr option option"
  and find_ancestor_children ::
    "nat \<Rightarrow> 'h xy_state \<Rightarrow> u64 \<Rightarrow> u8 \<Rightarrow> rptr list \<Rightarrow> rptr option \<Rightarrow> rptr option option" where
  "region_find_ancestor_rec 0 s i plen node best = None"
| "region_find_ancestor_rec (Suc d) s i plen node best =
     do { r \<leftarrow> regions s node;
          if re_plen r \<ge> plen then Some best
          else do { best' \<leftarrow> better s i node best;
                    cs \<leftarrow> region_children s r;
                    find_ancestor_children d s i plen cs best' } }"
| "find_ancestor_children d s i plen [] best = Some best"
| "find_ancestor_children d s i plen (c # cs) best =
     do { best' \<leftarrow> region_find_ancestor_rec d s i plen c best;
          find_ancestor_children d s i plen cs best' }"

definition region_nearest_ancestor :: "'h env \<Rightarrow> 'h xy_state \<Rightarrow> u64 \<Rightarrow> u8 \<Rightarrow> rptr option option" where
  "region_nearest_ancestor E s i plen =
     (case region_lookup E s XY_REGION_ROOT 0 of
        None \<Rightarrow> Some None
      | Some root \<Rightarrow> region_find_ancestor_rec depth_fuel s i plen root None)"

fun region_find_cover_rec ::
    "nat \<Rightarrow> 'h xy_state \<Rightarrow> u64 \<Rightarrow> u8 \<Rightarrow> rptr \<Rightarrow> rptr option \<Rightarrow> rptr option option"
  and find_cover_children ::
    "nat \<Rightarrow> 'h xy_state \<Rightarrow> u64 \<Rightarrow> u8 \<Rightarrow> rptr list \<Rightarrow> rptr option \<Rightarrow> rptr option option" where
  "region_find_cover_rec 0 s i plen node best = None"
| "region_find_cover_rec (Suc d) s i plen node best =
     do { r \<leftarrow> regions s node;
          if re_plen r > plen then Some best
          else do { best' \<leftarrow> better s i node best;
                    cs \<leftarrow> region_children s r;
                    find_cover_children d s i plen cs best' } }"
| "find_cover_children d s i plen [] best = Some best"
| "find_cover_children d s i plen (c # cs) best =
     do { best' \<leftarrow> region_find_cover_rec d s i plen c best;
          find_cover_children d s i plen cs best' }"


section \<open>The root\<close>

text \<open>\<^verbatim>\<open>region_ensure_root\<close>: create the root if it is missing and sync the thread-local.\<close>

definition region_ensure_root :: "'h env \<Rightarrow> 'h xy_state \<Rightarrow> 'h xy_state option" where
  "region_ensure_root E s =
     (let (root, s1) =
        (case region_lookup E s XY_REGION_ROOT 0 of
           Some root \<Rightarrow> (root, s)
         | None \<Rightarrow>
             (let (p, s') = new_region (region_zero\<lparr>re_id := XY_REGION_ROOT, re_dispatch_gen := 1\<rparr>) s
              in (p, tbl_put E (region_hd (xy_rt s'))
                       (KRegion (region_key XY_REGION_ROOT 0)) (VPtr p) s')))
      in do { cur \<leftarrow> region_current_plen s1;
              if xy_current_region_entry s1 = None \<or> cur = 0
              then do { r \<leftarrow> regions s1 root;
                        Some (set_current_region (re_id r) (Some root) s1) }
              else Some s1 })"



section \<open>The prefix order\<close>

text \<open>
  A region contains another when it is strictly shorter and the other's id, cut to its width,
  is its id. With equality this is a partial order on identities; the root is below every
  identity of positive width.
\<close>

instantiation xy_region_key :: order
begin

definition less_xy_region_key :: "xy_region_key \<Rightarrow> xy_region_key \<Rightarrow> bool" where
  "less_xy_region_key a b \<longleftrightarrow>
     rk_plen a < rk_plen b \<and> rk_id b AND region_mask (rk_plen a) = rk_id a"

definition less_eq_xy_region_key :: "xy_region_key \<Rightarrow> xy_region_key \<Rightarrow> bool" where
  "less_eq_xy_region_key a b \<longleftrightarrow> a = b \<or> a < (b :: xy_region_key)"

instance
proof
  fix a b c :: xy_region_key
  have trans: "a < c" if "a < b" "b < c" for a b c :: xy_region_key
  proof -
    from that have "rk_id c AND region_mask (rk_plen b) AND region_mask (rk_plen a) = rk_id a"
      by (simp add: less_xy_region_key_def and.assoc [symmetric])
    moreover have "region_mask (rk_plen b) AND region_mask (rk_plen a) = region_mask (rk_plen a)"
      using that
      by (intro bit_word_eqI)
         (auto simp: region_mask_def bit_simps less_xy_region_key_def word_le_nat_alt
            word_less_nat_alt unat_eq_0)
    ultimately show ?thesis
      using that by (auto simp: less_xy_region_key_def)
  qed
  show "a < b \<longleftrightarrow> a \<le> b \<and> \<not> b \<le> a"
    by (auto simp: less_eq_xy_region_key_def less_xy_region_key_def)
  show "a \<le> a" by (simp add: less_eq_xy_region_key_def)
  show "a \<le> b \<Longrightarrow> b \<le> c \<Longrightarrow> a \<le> c"
    by (auto simp: less_eq_xy_region_key_def intro: trans)
  show "a \<le> b \<Longrightarrow> b \<le> a \<Longrightarrow> a = b"
    by (auto simp: less_eq_xy_region_key_def less_xy_region_key_def)
qed

end

definition root_key :: xy_region_key where
  "root_key = Region_Key XY_REGION_ROOT 0"

text \<open>An identity whose id has no bits below its width, as \<^verbatim>\<open>xy_claim_at\<close> demands.\<close>

definition canonical :: "xy_region_key \<Rightarrow> bool" where
  "canonical k \<longleftrightarrow> rk_plen k \<le> 64 \<and> rk_id k AND region_mask (rk_plen k) = rk_id k"

lemma bit_region_mask [mask_simps]: "bit (region_mask p) n \<longleftrightarrow> n < 64 \<and> 64 \<le> n + unat p"
  by (auto simp: region_mask_def bit_simps word_le_nat_alt unat_eq_0)

lemma region_mask_and [mask_simps]: "region_mask a AND region_mask b = region_mask (min a b)"
  by (rule bit_word_eqI) (auto simp: bit_simps bit_region_mask min_def word_le_nat_alt)

lemma region_mask_0 [simp]: "region_mask 0 = 0"
  by (simp add: region_mask_def)

lemma region_mask_64 [simp]: "64 \<le> p \<Longrightarrow> region_mask p = - 1"
  by (auto simp: region_mask_def)

lemma key_less_iff:
  "Region_Key i p < Region_Key j q \<longleftrightarrow> p < q \<and> j AND region_mask p = i"
  by (simp add: less_xy_region_key_def)

lemma root_key_less: "0 < rk_plen k \<Longrightarrow> root_key < k"
  by (simp add: less_xy_region_key_def root_key_def XY_REGION_ROOT_def)

lemma root_key_simps [simp]: "rk_id root_key = 0" "rk_plen root_key = 0"
  by (simp_all add: root_key_def XY_REGION_ROOT_def)

lemma canonical_root [simp]: "canonical root_key"
  by (simp add: canonical_def root_key_def XY_REGION_ROOT_def)

lemma key_less_plen: "a < (b :: xy_region_key) \<Longrightarrow> rk_plen a < rk_plen b"
  by (simp add: less_xy_region_key_def)

text \<open>Two identities that contain the same one are comparable: covers form a chain.\<close>

lemma covers_comparable:
  assumes "a < (c :: xy_region_key)" "b < c" "rk_plen a \<le> rk_plen b"
  shows "a \<le> b"
proof (cases "rk_plen a = rk_plen b")
  case True
  with assms show ?thesis
    by (auto simp: less_xy_region_key_def less_eq_xy_region_key_def xy_region_key.expand)
next
  case False
  have "rk_id b AND region_mask (rk_plen a) = rk_id c AND (region_mask (rk_plen b) AND region_mask (rk_plen a))"
    using assms by (simp add: less_xy_region_key_def flip: and.assoc)
  also have "\<dots> = rk_id a"
    using assms by (simp add: less_xy_region_key_def region_mask_and min_absorb2)
  finally show ?thesis
    using False assms(3) by (auto simp: less_xy_region_key_def less_eq_xy_region_key_def)
qed

end
