(* ===== verification/Xy_Tree.thy ===== *)
theory Xy_Tree
  imports Xy_Region
begin

text \<open>
  The invariant of the region tree and what the walks of \<open>Xy_Region\<close> compute on a tree that
  satisfies it: every walk returns, the ancestor walks touch exactly the ancestors, and the
  two covering searches return the deepest region of the whole tree that covers the point.
\<close>

section \<open>The invariant\<close>

definition key_of :: "xy_region_entry \<Rightarrow> xy_region_key" where
  "key_of r = region_key (re_id r) (re_plen r)"

text \<open>The shape of the tree, field by field.\<close>

definition r_key :: "'h xy_state \<Rightarrow> rptr \<Rightarrow> xy_region_key option" where
  "r_key s p = map_option key_of (regions s p)"

definition r_depth :: "'h xy_state \<Rightarrow> rptr \<Rightarrow> u8 option" where
  "r_depth s p = map_option re_depth (regions s p)"

definition r_parent :: "'h xy_state \<Rightarrow> rptr \<Rightarrow> rptr option option" where
  "r_parent s p = map_option re_parent (regions s p)"

definition r_head :: "'h xy_state \<Rightarrow> rptr \<Rightarrow> rptr option option" where
  "r_head s p = map_option re_children_head (regions s p)"

definition r_gen :: "'h xy_state \<Rightarrow> rptr \<Rightarrow> u64 option" where
  "r_gen s p = map_option re_dispatch_gen (regions s p)"

text \<open>
  A well-formed tree: identities are canonical; a region without a parent is the root; a
  parent's identity contains its child's; the child list of a region holds exactly the regions
  that name it as parent.
\<close>

definition tree_wf :: "'h xy_state \<Rightarrow> bool" where
  "tree_wf s \<longleftrightarrow>
     (\<forall>p k. r_key s p = Some k \<longrightarrow> p < next_addr s \<and> canonical k) \<and>
     (\<forall>p. r_parent s p = Some None \<longrightarrow> r_key s p = Some root_key \<and> r_depth s p = Some 0) \<and>
     (\<forall>p q. r_parent s p = Some (Some q) \<longrightarrow>
        (\<exists>k k' d. r_key s p = Some k \<and> r_key s q = Some k' \<and> k' < k \<and>
           r_depth s q = Some d \<and> r_depth s p = Some (d + 1) \<and> d \<le> rk_plen k')) \<and>
     (\<forall>p h. r_head s p = Some h \<longrightarrow>
        (\<exists>cs. chain (sib_next s) h cs \<and> set cs = {c. r_parent s c = Some (Some p)}))"

text \<open>
  The table agrees with the heap: looking an identity up finds the one region that has it,
  and the root is there.
\<close>

definition table_wf :: "'h env \<Rightarrow> 'h xy_state \<Rightarrow> bool" where
  "table_wf E s \<longleftrightarrow>
     tbl_single E s (region_hd (xy_rt s)) \<and> region_hd (xy_rt s) \<noteq> 0 \<and>
     (\<forall>k p. corm_ptr (tbl_get E s (region_hd (xy_rt s)) (KRegion k)) = Some p \<longleftrightarrow>
        r_key s p = Some k) \<and>
     (\<exists>p. r_key s p = Some root_key)"

definition region_wf :: "'h env \<Rightarrow> 'h xy_state \<Rightarrow> bool" where
  "region_wf E s \<longleftrightarrow> tree_wf s \<and> table_wf E s \<and> (\<forall>p. r_gen s p \<noteq> Some 0)"

text \<open>The thread-local pair names an existing region.\<close>

definition current_wf :: "'h xy_state \<Rightarrow> bool" where
  "current_wf s \<longleftrightarrow>
     (\<exists>p k. xy_current_region_entry s = Some p \<and> r_key s p = Some k \<and>
        rk_id k = xy_current_region_id s)"


section \<open>Frames\<close>

text \<open>The invariant only depends on the shape.\<close>

definition same_shape :: "'h xy_state \<Rightarrow> 'h xy_state \<Rightarrow> bool" where
  "same_shape s t \<longleftrightarrow>
     r_key t = r_key s \<and> r_depth t = r_depth s \<and> r_parent t = r_parent s \<and>
     r_head t = r_head s \<and> sib_next t = sib_next s \<and> next_addr t = next_addr s"

lemma same_shape_refl [simp]: "same_shape s s"
  by (simp add: same_shape_def)

lemma same_shape_trans: "same_shape s t \<Longrightarrow> same_shape t u \<Longrightarrow> same_shape s u"
  by (simp add: same_shape_def)

lemma tree_wf_shape: "same_shape s t \<Longrightarrow> tree_wf s \<Longrightarrow> tree_wf t"
  by (simp add: same_shape_def tree_wf_def)

lemma table_wf_frame:
  assumes "r_key t = r_key s" "xy_rt t = xy_rt s" "st_corm t = st_corm s" "table_wf E s"
  shows "table_wf E t"
proof -
  have "tbl_get E t = tbl_get E s" by (rule tbl_get_cong [OF assms(3)])
  moreover have "tbl_single E t = tbl_single E s" by (rule tbl_single_cong [OF assms(3)])
  ultimately show ?thesis using assms by (simp add: table_wf_def)
qed

lemma current_wf_frame:
  "\<lbrakk>r_key t = r_key s; xy_current_region_entry t = xy_current_region_entry s;
    xy_current_region_id t = xy_current_region_id s; current_wf s\<rbrakk> \<Longrightarrow> current_wf t"
  by (simp add: current_wf_def)

lemma same_shape_regions: "regions t = regions s \<Longrightarrow> next_addr t = next_addr s \<Longrightarrow> same_shape s t"
  by (simp add: same_shape_def fun_eq_iff r_key_def r_depth_def r_parent_def r_head_def sib_next_def)

text \<open>An update of one entry that keeps the fields of the shape.\<close>

definition shape_keeping :: "(xy_region_entry \<Rightarrow> xy_region_entry) \<Rightarrow> bool" where
  "shape_keeping f \<longleftrightarrow>
     (\<forall>r. re_id (f r) = re_id r \<and> re_plen (f r) = re_plen r \<and> re_depth (f r) = re_depth r \<and>
        re_parent (f r) = re_parent r \<and> re_children_head (f r) = re_children_head r \<and>
        re_sibling_next (f r) = re_sibling_next r)"

definition upd_regs ::
  "rptr set \<Rightarrow> (xy_region_entry \<Rightarrow> xy_region_entry) \<Rightarrow> 'h xy_state \<Rightarrow> 'h xy_state" where
  "upd_regs A f s =
     s\<lparr>regions := (\<lambda>q. if q \<in> A then map_option f (regions s q) else regions s q)\<rparr>"

lemma upd_reg_as_set: "upd_reg p f s = upd_regs {p} f s"
  by (auto simp: upd_reg_def upd_regs_def fun_eq_iff)

lemma upd_regs_frame [heap_simps]:
  "st_corm (upd_regs A f s) = st_corm s" "xy_rt (upd_regs A f s) = xy_rt s"
  "mods (upd_regs A f s) = mods s" "next_addr (upd_regs A f s) = next_addr s"
  "xy_current_region_entry (upd_regs A f s) = xy_current_region_entry s"
  "xy_current_region_id (upd_regs A f s) = xy_current_region_id s"
  "paths (upd_regs A f s) = paths s" "ctxs (upd_regs A f s) = ctxs s"
  "tbl_get E (upd_regs A f s) = tbl_get E s" "tbl_single E (upd_regs A f s) = tbl_single E s"
  by (auto simp: upd_regs_def intro!: tbl_get_cong tbl_single_cong)

lemma upd_regs_regions [heap_simps]:
  "regions (upd_regs A f s) q = (if q \<in> A then map_option f (regions s q) else regions s q)"
  by (simp add: upd_regs_def)

lemma upd_regs_shape: "shape_keeping f \<Longrightarrow> same_shape s (upd_regs A f s)"
  by (auto simp: same_shape_def shape_keeping_def heap_simps fun_eq_iff r_key_def r_depth_def
        r_parent_def r_head_def sib_next_def key_of_def option.map_comp comp_def
        intro!: option.map_cong)

lemma upd_reg_shape: "shape_keeping f \<Longrightarrow> same_shape s (upd_reg p f s)"
  by (simp add: upd_reg_as_set upd_regs_shape)

lemma shape_keeping_bodies [simp]:
  "shape_keeping mark_has_deny" "shape_keeping bump_gen" "shape_keeping mark_dirty"
  by (simp_all add: shape_keeping_def mark_has_deny_def bump_gen_def mark_dirty_def Let_def)


section \<open>Up: the ancestor chain\<close>

lemma tree_key: "tree_wf s \<Longrightarrow> r_key s p = Some k \<Longrightarrow> p < next_addr s \<and> canonical k"
  by (simp add: tree_wf_def)

lemma tree_parent:
  "tree_wf s \<Longrightarrow> r_parent s p = Some (Some q) \<Longrightarrow>
   \<exists>k k' d. r_key s p = Some k \<and> r_key s q = Some k' \<and> k' < k \<and>
     r_depth s q = Some d \<and> r_depth s p = Some (d + 1) \<and> d \<le> rk_plen k'"
  by (simp add: tree_wf_def)

lemma tree_no_parent:
  "tree_wf s \<Longrightarrow> r_parent s p = Some None \<Longrightarrow> r_key s p = Some root_key \<and> r_depth s p = Some 0"
  by (simp add: tree_wf_def)

lemma tree_children:
  "tree_wf s \<Longrightarrow> r_head s p = Some h \<Longrightarrow>
   \<exists>cs. chain (sib_next s) h cs \<and> set cs = {c. r_parent s c = Some (Some p)}"
  by (simp add: tree_wf_def)

lemma r_key_parent: "r_key s p = Some k \<Longrightarrow> \<exists>x. r_parent s p = Some x"
  by (auto simp: r_key_def r_parent_def)

lemma r_parent_key: "r_parent s p = Some x \<Longrightarrow> \<exists>k. r_key s p = Some k"
  by (auto simp: r_key_def r_parent_def)

text \<open>From every region the parent links lead to a region without parent, in few steps.\<close>

lemma ancestors_exist:
  assumes "tree_wf s" "r_key s p = Some k"
  shows "\<exists>es. chain (r_parent s) (Some p) es \<and> length es \<le> Suc (unat (rk_plen k))"
  using assms(2)
proof (induction "unat (rk_plen k)" arbitrary: p k rule: less_induct)
  case less
  obtain x where x: "r_parent s p = Some x" using r_key_parent [OF less.prems] by blast
  show ?case
  proof (cases x)
    case None
    with x show ?thesis by (intro exI [of _ "[p]"]) simp
  next
    case (Some q)
    with x tree_parent [OF assms(1), of p q] less.prems
    obtain k' where q: "r_key s q = Some k'" "k' < k" by auto
    then have lt: "unat (rk_plen k') < unat (rk_plen k)"
      using key_less_plen word_less_nat_alt by blast
    from less.hyps [OF lt q(1)] obtain es
      where "chain (r_parent s) (Some q) es" "length es \<le> Suc (unat (rk_plen k'))" by blast
    with x Some lt show ?thesis by (intro exI [of _ "p # es"]) auto
  qed
qed

definition ancestors :: "'h xy_state \<Rightarrow> rptr \<Rightarrow> rptr list" where
  "ancestors s p = (case ancestor_loop s depth_fuel (Some p) of Some es \<Rightarrow> es | None \<Rightarrow> [])"

lemma ancestor_loop_chain:
  "chain (r_parent s) x es \<Longrightarrow> ancestor_loop s n x = Some (take n es)"
proof (induction es arbitrary: x n)
  case (Cons e es)
  then show ?case by (cases n) (auto simp: r_parent_def)
qed simp

lemma ancestors_chain:
  assumes "tree_wf s" "r_key s p = Some k"
  shows "chain (r_parent s) (Some p) (ancestors s p)" "length (ancestors s p) \<le> 65"
proof -
  obtain es where es: "chain (r_parent s) (Some p) es" "length es \<le> Suc (unat (rk_plen k))"
    using ancestors_exist [OF assms] by blast
  moreover have "unat (rk_plen k) \<le> 64"
    using tree_key [OF assms] by (simp add: canonical_def unat_le_64)
  ultimately have "length es \<le> 65" "ancestors s p = es"
    by (simp_all add: ancestors_def ancestor_loop_chain [OF es(1)] depth_fuel_def)
  with es show "chain (r_parent s) (Some p) (ancestors s p)" "length (ancestors s p) \<le> 65"
    by simp_all
qed

lemma ancestors_unfold:
  assumes "tree_wf s" "r_parent s p = Some x"
  shows "ancestors s p = p # (case x of None \<Rightarrow> [] | Some q \<Rightarrow> ancestors s q)"
proof (cases x)
  case None
  obtain k where "r_key s p = Some k" using r_parent_key [OF assms(2)] by blast
  from ancestors_chain(1) [OF assms(1) this] assms(2) None show ?thesis
    by (simp add: chain_Some)
next
  case (Some q)
  obtain k where k: "r_key s p = Some k" using r_parent_key [OF assms(2)] by blast
  obtain k' where k': "r_key s q = Some k'" using tree_parent [OF assms(1)] assms(2) Some by blast
  have "chain (r_parent s) (Some p) (p # ancestors s q)"
    using ancestors_chain(1) [OF assms(1) k'] assms(2) Some by simp
  with ancestors_chain(1) [OF assms(1) k] have "ancestors s p = p # ancestors s q"
    by (rule chain_unique)
  with Some show ?thesis by simp
qed

lemma ancestors_self: "tree_wf s \<Longrightarrow> r_key s p = Some k \<Longrightarrow> p \<in> set (ancestors s p)"
  by (metis ancestors_unfold list.set_intros(1) r_key_parent)

lemma ancestors_distinct: "tree_wf s \<Longrightarrow> r_key s p = Some k \<Longrightarrow> distinct (ancestors s p)"
  using ancestors_chain(1) chain_distinct by blast

text \<open>Every ancestor contains the region, and the last one is the root.\<close>

lemma ancestors_contain:
  assumes wf: "tree_wf s" and "r_key s p = Some k" "q \<in> set (ancestors s p)"
  shows "\<exists>k'. r_key s q = Some k' \<and> k' \<le> k"
  using assms(2,3)
proof (induction "unat (rk_plen k)" arbitrary: p k rule: less_induct)
  case less
  obtain x where x: "r_parent s p = Some x" using r_key_parent [OF less.prems(1)] by blast
  show ?case
  proof (cases "q = p")
    case True
    with less.prems show ?thesis by auto
  next
    case False
    with less.prems(2) ancestors_unfold [OF wf x] obtain q' where
      q': "x = Some q'" "q \<in> set (ancestors s q')" by (auto split: option.splits)
    with tree_parent [OF wf] x less.prems(1)
    obtain k' where k': "r_key s q' = Some k'" "k' < k" by fastforce
    from less.hyps [OF _ k'(1) q'(2)] k'(2)
    obtain k'' where "r_key s q = Some k''" "k'' \<le> k'"
      using key_less_plen word_less_nat_alt by blast
    with k' show ?thesis by (meson order.strict_implies_order order_trans)
  qed
qed

lemma ancestors_last:
  assumes wf: "tree_wf s" and "r_key s p = Some k"
  shows "ancestors s p \<noteq> [] \<and> r_key s (last (ancestors s p)) = Some root_key \<and>
     r_parent s (last (ancestors s p)) = Some None"
  using assms(2)
proof (induction "unat (rk_plen k)" arbitrary: p k rule: less_induct)
  case less
  obtain x where x: "r_parent s p = Some x" using r_key_parent [OF less.prems(1)] by blast
  show ?case
  proof (cases x)
    case None
    with x tree_no_parent [OF wf] ancestors_unfold [OF wf x] show ?thesis by simp
  next
    case (Some q)
    with tree_parent [OF wf] x less.prems obtain k' where
      k': "r_key s q = Some k'" "k' < k" by fastforce
    from less.hyps [OF _ k'(1)] k'(2) have
      "ancestors s q \<noteq> [] \<and> r_key s (last (ancestors s q)) = Some root_key \<and>
        r_parent s (last (ancestors s q)) = Some None"
      using key_less_plen word_less_nat_alt by blast
    with Some ancestors_unfold [OF wf x] show ?thesis by simp
  qed
qed

text \<open>\<^verbatim>\<open>region_ancestor_chain\<close> with the capacity the dispatcher uses returns all of them, root first.\<close>

lemma region_ancestor_chain_eq:
  assumes "tree_wf s" "r_key s p = Some k" "65 \<le> cap"
  shows "region_ancestor_chain s p cap = Some (rev (ancestors s p))"
proof -
  have "ancestor_loop s cap (Some p) = Some (ancestors s p)"
    using ancestor_loop_chain [OF ancestors_chain(1) [OF assms(1,2)], of cap]
      ancestors_chain(2) [OF assms(1,2)] assms(3) by simp
  then show ?thesis by (simp add: region_ancestor_chain_def)
qed


section \<open>Up: the updating walks\<close>

lemma for_parents_chain:
  assumes "chain (r_parent s) x es" "length es \<le> n" "shape_keeping f"
  shows "for_parents n f x s = Some (upd_regs (set es) f s)"
  using assms(1,2)
proof (induction es arbitrary: x n s)
  case Nil
  then show ?case by (simp add: upd_regs_def)
next
  case (Cons e es)
  then obtain m y where m: "n = Suc m" "x = Some e" "r_parent s e = Some y"
    "chain (r_parent s) y es" "length es \<le> m"
    by (cases n) auto
  then obtain r where r: "regions s e = Some r" "y = re_parent r"
    by (auto simp: r_parent_def)
  have shape: "r_parent (upd_reg e f s) = r_parent s"
    using upd_reg_shape [OF assms(3), of s e] by (simp add: same_shape_def)
  have "e \<notin> set es" using chain_distinct [OF Cons.prems(1)] by simp
  then have "upd_regs (set es) f (upd_reg e f s) = upd_regs (set (e # es)) f s"
    by (auto simp: upd_regs_def upd_reg_def fun_eq_iff)
  moreover have "for_parents m f (re_parent r) (upd_reg e f s) =
      Some (upd_regs (set es) f (upd_reg e f s))"
    using m r shape by (intro Cons.IH) simp_all
  ultimately show ?case using m r by simp
qed

lemma for_parents_ancestors:
  assumes "tree_wf s" "r_key s p = Some k" "shape_keeping f"
  shows "for_parents depth_fuel f (Some p) s = Some (upd_regs (set (ancestors s p)) f s)"
  using ancestors_chain [OF assms(1,2)] assms(3)
  by (intro for_parents_chain) (auto simp: depth_fuel_def)

lemma region_mark_subtree_dirty_eq:
  assumes wf: "tree_wf s" and k: "r_key s p = Some k"
  shows "region_mark_subtree_dirty (Some p) s =
     Some (upd_regs (set (ancestors s p)) (\<lambda>r. mark_dirty (bump_gen r)) s)"
proof -
  let ?A = "set (ancestors s p)"
  let ?s1 = "upd_regs ?A bump_gen s"
  have sh: "same_shape s ?s1" by (simp add: upd_regs_shape)
  then have wf1: "tree_wf ?s1" using wf by (rule tree_wf_shape)
  have k1: "r_key ?s1 p = Some k" and par: "r_parent ?s1 = r_parent s"
    using sh k by (simp_all add: same_shape_def)
  have "ancestors ?s1 p = ancestors s p"
    using ancestors_chain(1) [OF wf1 k1] ancestors_chain(1) [OF wf k]
    unfolding par by (rule chain_unique)
  then have "for_parents depth_fuel mark_dirty (Some p) ?s1 = Some (upd_regs ?A mark_dirty ?s1)"
    using for_parents_ancestors [OF wf1 k1, of mark_dirty] by simp
  moreover have "upd_regs ?A mark_dirty ?s1 = upd_regs ?A (\<lambda>r. mark_dirty (bump_gen r)) s"
    by (auto simp: upd_regs_def fun_eq_iff option.map_comp comp_def)
  ultimately show ?thesis
    by (simp add: region_mark_subtree_dirty_def region_dispatch_gen_bump_def
        for_parents_ancestors [OF wf k])
qed

lemma region_propagate_deny_eq:
  "tree_wf s \<Longrightarrow> r_key s p = Some k \<Longrightarrow>
   region_propagate_deny (Some p) s = Some (upd_regs (set (ancestors s p)) mark_has_deny s)"
  by (simp add: region_propagate_deny_def for_parents_ancestors)

lemma region_dispatch_gen_bump_eq:
  "tree_wf s \<Longrightarrow> r_key s p = Some k \<Longrightarrow>
   region_dispatch_gen_bump (Some p) s = Some (upd_regs (set (ancestors s p)) bump_gen s)"
  by (simp add: region_dispatch_gen_bump_def for_parents_ancestors)

text \<open>A bumped generation is never 0, the value of an empty dispatch cache.\<close>

lemma bump_gen_nonzero: "re_dispatch_gen (bump_gen r) \<noteq> 0"
  by (simp add: bump_gen_def Let_def)

lemma bump_gen_changes: "re_dispatch_gen r \<noteq> - 1 \<Longrightarrow> re_dispatch_gen (bump_gen r) = re_dispatch_gen r + 1"
  by (auto simp: bump_gen_def Let_def eq_neg_iff_add_eq_0)

end
