(* ===== verification/Xy_Cover.thy ===== *)
theory Xy_Cover
  imports Xy_Tree
begin

text \<open>
  The downward walks. \<open>cover_search\<close> is the contract shared by the two depth-first searches
  of \<^verbatim>\<open>src/libxylem.c\<close> (\<^verbatim>\<open>region_find_ancestor_rec\<close> and \<^verbatim>\<open>region_find_cover_rec\<close>, which
  differ in the width test that prunes a subtree): on a well-formed tree the search returns,
  and its result is a deepest covering region among all regions of the subtree. Both functions
  are interpreted, and the results are stated in the prefix order.
\<close>

section \<open>Subtrees and child lists\<close>

definition subtree :: "'h xy_state \<Rightarrow> rptr \<Rightarrow> rptr set" where
  "subtree s p = {q. r_key s q \<noteq> None \<and> p \<in> set (ancestors s q)}"

definition kids :: "'h xy_state \<Rightarrow> rptr \<Rightarrow> rptr set" where
  "kids s p = {c. r_parent s c = Some (Some p)}"

lemma kid_key:
  assumes "tree_wf s" "c \<in> kids s p" "r_key s p = Some k"
  shows "\<exists>k'. r_key s c = Some k' \<and> k < k'"
  using tree_parent [OF assms(1), of c p] assms(2,3) by (auto simp: kids_def)

lemma subtree_unfold:
  assumes wf: "tree_wf s" and k: "r_key s p = Some k"
  shows "subtree s p = insert p (\<Union>c \<in> kids s p. subtree s c)"
proof (intro set_eqI iffI)
  fix q assume "q \<in> subtree s p"
  then obtain kq where q: "r_key s q = Some kq" "p \<in> set (ancestors s q)"
    by (auto simp: subtree_def)
  with chain_pred [OF ancestors_chain(1) [OF wf q(1)] q(2)]
  show "q \<in> insert p (\<Union>c \<in> kids s p. subtree s c)"
    by (auto simp: subtree_def kids_def)
next
  fix q assume q: "q \<in> insert p (\<Union>c \<in> kids s p. subtree s c)"
  show "q \<in> subtree s p"
  proof (cases "q = p")
    case True
    with ancestors_self [OF wf k] k show ?thesis by (simp add: subtree_def)
  next
    case False
    with q obtain c kq where c: "r_parent s c = Some (Some p)" "r_key s q = Some kq"
      "c \<in> set (ancestors s q)" by (auto simp: kids_def subtree_def)
    with chain_closed [OF ancestors_chain(1) [OF wf c(2)] c(3,1)]
    show ?thesis by (simp add: subtree_def)
  qed
qed

lemma subtree_contained:
  "tree_wf s \<Longrightarrow> r_key s p = Some k \<Longrightarrow> q \<in> subtree s p \<Longrightarrow> \<exists>k'. r_key s q = Some k' \<and> k \<le> k'"
  using ancestors_contain by (fastforce simp: subtree_def)

text \<open>The root's subtree is the whole tree.\<close>

lemma subtree_root:
  assumes wf: "region_wf E s" and root: "r_key s p = Some root_key"
  shows "subtree s p = {q. r_key s q \<noteq> None}"
proof -
  have tw: "tree_wf s" and tab: "table_wf E s" using wf by (simp_all add: region_wf_def)
  have "p \<in> set (ancestors s q)" if q: "r_key s q = Some k" for q k
  proof -
    have l: "ancestors s q \<noteq> []" "r_key s (last (ancestors s q)) = Some root_key"
      using ancestors_last [OF tw q] by simp_all
    with root tab have "last (ancestors s q) = p"
      unfolding table_wf_def by (metis option.inject)
    with l show ?thesis by (metis last_in_set)
  qed
  then show ?thesis by (auto simp: subtree_def)
qed

lemma region_children_wf:
  assumes wf: "tree_wf s" and r: "regions s p = Some r"
  shows "\<exists>cs. region_children s r = Some cs \<and> set cs = kids s p \<and> distinct cs"
proof -
  have "r_head s p = Some (re_children_head r)" using r by (simp add: r_head_def)
  with wf obtain cs where cs: "chain (sib_next s) (re_children_head r) cs" "set cs = kids s p"
    unfolding tree_wf_def kids_def by blast
  have "c < next_addr s" if "c \<in> set cs" for c
  proof -
    have "r_parent s c = Some (Some p)" using that cs(2) by (simp add: kids_def)
    with r_parent_key tree_key [OF wf] show ?thesis by blast
  qed
  with cs(1) have "length cs \<le> next_addr s" by (intro chain_length_bound)
  with cs show ?thesis
    by (auto simp: region_children_def link_fuel_def chain_distinct intro!: chain_follow)
qed


section \<open>The contract of a covering search\<close>

text \<open>\<open>b\<close> is a deepest element of \<open>A\<close>, null exactly when \<open>A\<close> is empty.\<close>

definition deepest :: "'h xy_state \<Rightarrow> rptr set \<Rightarrow> rptr option \<Rightarrow> bool" where
  "deepest s A b \<longleftrightarrow>
     (case b of
        None \<Rightarrow> A = {}
      | Some q \<Rightarrow> q \<in> A \<and> (\<exists>k. r_key s q = Some k \<and>
          (\<forall>q' \<in> A. \<exists>k'. r_key s q' = Some k' \<and> rk_plen k' \<le> rk_plen k)))"

definition covers_point :: "'h xy_state \<Rightarrow> u64 \<Rightarrow> rptr \<Rightarrow> bool" where
  "covers_point s i q \<longleftrightarrow>
     (\<exists>k. r_key s q = Some k \<and> i AND region_mask (rk_plen k) = rk_id k)"

lemma better_deepest:
  assumes "r_key s node = Some k" "deepest s A best"
  shows "\<exists>b. better s i node best = Some b \<and>
     deepest s (A \<union> (if covers_point s i node then {node} else {})) b"
proof -
  obtain r where r: "regions s node = Some r" "k = key_of r"
    using assms(1) by (auto simp: r_key_def)
  have cov: "covers_point s i node \<longleftrightarrow> i AND region_mask (re_plen r) = re_id r"
    using r by (simp add: covers_point_def r_key_def key_of_def region_key_def)
  show ?thesis
  proof (cases best)
    case None
    with assms r cov show ?thesis
      by (auto simp: better_def deepest_def r_key_def)
  next
    case (Some b)
    with assms(2) obtain rb where rb: "regions s b = Some rb"
      by (auto simp: deepest_def r_key_def)
    have "re_plen r \<le> re_plen rb \<or> re_plen rb < re_plen r" by auto
    with Some assms r rb cov show ?thesis
      by (auto simp: better_def deepest_def r_key_def key_of_def region_key_def
          intro: order_trans less_imp_le)
  qed
qed

locale cover_search =
  fixes rec :: "nat \<Rightarrow> 'h xy_state \<Rightarrow> u64 \<Rightarrow> u8 \<Rightarrow> rptr \<Rightarrow> rptr option \<Rightarrow> rptr option option"
    and rec_list :: "nat \<Rightarrow> 'h xy_state \<Rightarrow> u64 \<Rightarrow> u8 \<Rightarrow> rptr list \<Rightarrow> rptr option \<Rightarrow> rptr option option"
    and stop :: "u8 \<Rightarrow> u8 \<Rightarrow> bool"
  assumes rec_step:
      "rec (Suc d) s i plen node best =
         do { r \<leftarrow> regions s node;
              if stop (re_plen r) plen then Some best
              else do { best' \<leftarrow> better s i node best;
                        cs \<leftarrow> region_children s r;
                        rec_list d s i plen cs best' } }"
    and rec_list_Nil: "rec_list d s i plen [] best = Some best"
    and rec_list_Cons:
      "rec_list d s i plen (c # cs) best =
         do { best' \<leftarrow> rec d s i plen c best; rec_list d s i plen cs best' }"
    and stop_mono: "stop a b \<Longrightarrow> a \<le> a' \<Longrightarrow> stop a' b"
begin

definition hits :: "'h xy_state \<Rightarrow> u64 \<Rightarrow> u8 \<Rightarrow> rptr \<Rightarrow> rptr set" where
  "hits s i plen p =
     {q \<in> subtree s p. covers_point s i q \<and> (\<exists>k. r_key s q = Some k \<and> \<not> stop (rk_plen k) plen)}"

lemma hits_stopped:
  assumes "tree_wf s" "r_key s p = Some k" "stop (rk_plen k) plen"
  shows "hits s i plen p = {}"
proof -
  have "stop (rk_plen k') plen" if "q \<in> subtree s p" "r_key s q = Some k'" for q k'
  proof -
    have "k \<le> k'" using subtree_contained [OF assms(1,2) that(1)] that(2) by auto
    then have "rk_plen k \<le> rk_plen k'"
      using key_less_plen less_imp_le by (fastforce simp: less_eq_xy_region_key_def)
    with assms(3) show ?thesis by (rule stop_mono)
  qed
  then show ?thesis by (auto simp: hits_def)
qed

lemma hits_unfold:
  assumes "tree_wf s" "r_key s p = Some k" "\<not> stop (rk_plen k) plen"
  shows "hits s i plen p =
     (if covers_point s i p then {p} else {}) \<union> (\<Union>c \<in> kids s p. hits s i plen c)"
  using assms subtree_unfold [OF assms(1,2)] by (auto simp: hits_def)

lemma rec_list_deepest:
  assumes node: "\<And>c best A. c \<in> set cs \<Longrightarrow> deepest s A best \<Longrightarrow>
      \<exists>b. rec d s i plen c best = Some b \<and> deepest s (A \<union> hits s i plen c) b"
    and "deepest s A best"
  shows "\<exists>b. rec_list d s i plen cs best = Some b \<and>
     deepest s (A \<union> (\<Union>c \<in> set cs. hits s i plen c)) b"
  using assms
proof (induction cs arbitrary: best A)
  case Nil
  then show ?case by (simp add: rec_list_Nil)
next
  case (Cons c cs)
  obtain b where b: "rec d s i plen c best = Some b" "deepest s (A \<union> hits s i plen c) b"
    using Cons.prems(1) [OF _ Cons.prems(2), of c] by auto
  have "\<exists>b'. rec_list d s i plen cs b = Some b' \<and>
      deepest s ((A \<union> hits s i plen c) \<union> (\<Union>c \<in> set cs. hits s i plen c)) b'"
    using Cons.prems(1) b(2) by (intro Cons.IH) auto
  with b(1) show ?case by (auto simp: rec_list_Cons Un_assoc)
qed

text \<open>Enough fuel: the widths below \<open>node\<close> are strictly larger, and no width exceeds 64.\<close>

lemma rec_deepest:
  assumes wf: "tree_wf s"
    and "r_key s node = Some k" "65 < d + unat (rk_plen k)" "deepest s A best"
  shows "\<exists>b. rec d s i plen node best = Some b \<and> deepest s (A \<union> hits s i plen node) b"
  using assms(2-)
proof (induction d arbitrary: node k A best)
  case 0
  then have "unat (rk_plen k) \<le> 64"
    using tree_key [OF wf] by (simp add: canonical_def unat_le_64)
  with 0 show ?case by simp
next
  case (Suc d)
  obtain r where r: "regions s node = Some r" "rk_plen k = re_plen r"
    using Suc.prems(1) by (auto simp: r_key_def key_of_def region_key_def)
  show ?case
  proof (cases "stop (re_plen r) plen")
    case True
    with r Suc.prems hits_stopped [OF wf Suc.prems(1)] show ?thesis by (simp add: rec_step)
  next
    case False
    obtain b where b: "better s i node best = Some b"
      "deepest s (A \<union> (if covers_point s i node then {node} else {})) b"
      using better_deepest [OF Suc.prems(1,3)] by blast
    obtain cs where cs: "region_children s r = Some cs" "set cs = kids s node"
      using region_children_wf [OF wf r(1)] by blast
    have "\<exists>b'. rec d s i plen c best' = Some b' \<and> deepest s (A' \<union> hits s i plen c) b'"
      if c: "c \<in> set cs" and deep: "deepest s A' best'" for c best' A'
    proof -
      obtain kc where kc: "r_key s c = Some kc" "k < kc"
        using kid_key [OF wf _ Suc.prems(1), of c] c cs(2) by auto
      then have "unat (rk_plen k) < unat (rk_plen kc)"
        using key_less_plen word_less_nat_alt by blast
      with Suc.prems(2) have "65 < d + unat (rk_plen kc)" by simp
      with kc(1) deep show ?thesis by (intro Suc.IH)
    qed
    then have "\<exists>b'. rec_list d s i plen cs b = Some b' \<and>
        deepest s (A \<union> (if covers_point s i node then {node} else {}) \<union>
          (\<Union>c \<in> set cs. hits s i plen c)) b'"
      using b(2) by (rule rec_list_deepest)
    then obtain b' where "rec_list d s i plen cs b = Some b'"
      "deepest s (A \<union> (if covers_point s i node then {node} else {}) \<union>
         (\<Union>c \<in> set cs. hits s i plen c)) b'"
      by blast
    with False r b(1) cs hits_unfold [OF wf Suc.prems(1), of plen i] show ?thesis
      by (simp add: rec_step Un_assoc)
  qed
qed

lemma search_from_root:
  assumes wf: "region_wf E s" and root: "r_key s root = Some root_key"
  shows "\<exists>b. rec depth_fuel s i plen root None = Some b \<and>
     deepest s {q. covers_point s i q \<and> (\<exists>k. r_key s q = Some k \<and> \<not> stop (rk_plen k) plen)} b"
proof -
  have tw: "tree_wf s" using wf by (simp add: region_wf_def)
  have "hits s i plen root =
      {q. covers_point s i q \<and> (\<exists>k. r_key s q = Some k \<and> \<not> stop (rk_plen k) plen)}"
    using subtree_root [OF wf root] by (auto simp: hits_def)
  moreover have "deepest s {} None" by (simp add: deepest_def)
  ultimately show ?thesis
    using rec_deepest [OF tw root, of depth_fuel "{}" None i plen] by (simp add: depth_fuel_def)
qed

end


section \<open>The two searches\<close>

interpretation anc: cover_search region_find_ancestor_rec find_ancestor_children "\<lambda>a b. b \<le> a"
  by unfold_locales auto

interpretation cov: cover_search region_find_cover_rec find_cover_children "\<lambda>a b. b < a"
  by unfold_locales auto

lemma region_lookup_iff:
  assumes "table_wf E s"
  shows "region_lookup E s i plen = Some p \<longleftrightarrow> r_key s p = Some (Region_Key i plen)"
  using assms by (simp add: table_wf_def region_lookup_def region_key_def)

lemma region_lookup_root:
  assumes "region_wf E s"
  shows "\<exists>p. region_lookup E s XY_REGION_ROOT 0 = Some p \<and> r_key s p = Some root_key"
proof -
  have tab: "table_wf E s" using assms by (simp add: region_wf_def)
  then obtain p where "r_key s p = Some root_key" by (auto simp: table_wf_def)
  with tab show ?thesis by (auto simp: region_lookup_iff root_key_def)
qed

lemma covers_point_less:
  "(covers_point s i q \<and> (\<exists>k. r_key s q = Some k \<and> \<not> plen \<le> rk_plen k)) \<longleftrightarrow>
   (\<exists>k. r_key s q = Some k \<and> k < Region_Key i plen)"
  by (auto simp: covers_point_def less_xy_region_key_def not_le)

text \<open>The nearest ancestor is the greatest identity strictly below the requested one.\<close>

lemma region_nearest_ancestor_greatest:
  assumes wf: "region_wf E s" and plen: "0 < plen"
  shows "\<exists>p k. region_nearest_ancestor E s i plen = Some (Some p) \<and> r_key s p = Some k \<and>
     k < Region_Key i plen \<and>
     (\<forall>q k'. r_key s q = Some k' \<longrightarrow> k' < Region_Key i plen \<longrightarrow> k' \<le> k)"
proof -
  obtain root where root: "region_lookup E s XY_REGION_ROOT 0 = Some root"
    "r_key s root = Some root_key" using region_lookup_root [OF wf] by blast
  let ?A = "{q. \<exists>k. r_key s q = Some k \<and> k < Region_Key i plen}"
  obtain b where b: "region_find_ancestor_rec depth_fuel s i plen root None = Some b"
    "deepest s ?A b"
    using anc.search_from_root [OF wf root(2), of i plen] unfolding covers_point_less by blast
  have "root \<in> ?A" using root(2) plen root_key_less by simp
  with b(2) obtain p k where p: "b = Some p" "r_key s p = Some k" "k < Region_Key i plen"
    "\<forall>q \<in> ?A. \<exists>k'. r_key s q = Some k' \<and> rk_plen k' \<le> rk_plen k"
    by (auto simp: deepest_def split: option.splits)
  moreover have "k' \<le> k" if "r_key s q = Some k'" "k' < Region_Key i plen" for q k'
  proof -
    have "q \<in> ?A" using that by blast
    with p(4) that(1) have "rk_plen k' \<le> rk_plen k" by fastforce
    with that(2) p(3) show ?thesis by (rule covers_comparable)
  qed
  ultimately show ?thesis using root(1) b(1) by (auto simp: region_nearest_ancestor_def)
qed

text \<open>The cover of a point is the greatest identity that contains or equals it.\<close>

lemma region_find_cover_greatest:
  assumes wf: "region_wf E s" and root: "region_lookup E s XY_REGION_ROOT 0 = Some root"
  shows "\<exists>p k. region_find_cover_rec depth_fuel s i plen root None = Some (Some p) \<and>
     r_key s p = Some k \<and> rk_plen k \<le> plen \<and> i AND region_mask (rk_plen k) = rk_id k \<and>
     (\<forall>q k'. r_key s q = Some k' \<longrightarrow> rk_plen k' \<le> plen \<longrightarrow>
        i AND region_mask (rk_plen k') = rk_id k' \<longrightarrow> k' \<le> k)"
proof -
  let ?A = "{q. covers_point s i q \<and> (\<exists>k. r_key s q = Some k \<and> \<not> plen < rk_plen k)}"
  have root': "r_key s root = Some root_key"
    using root wf by (simp add: region_wf_def region_lookup_iff root_key_def)
  obtain b where b: "region_find_cover_rec depth_fuel s i plen root None = Some b"
    "deepest s ?A b"
    using cov.search_from_root [OF wf root', of i plen] by blast
  have "root \<in> ?A" using root' by (simp add: covers_point_def)
  with b(2) obtain p k where p: "b = Some p" "r_key s p = Some k" "rk_plen k \<le> plen"
    "i AND region_mask (rk_plen k) = rk_id k"
    "\<forall>q \<in> ?A. \<exists>k'. r_key s q = Some k' \<and> rk_plen k' \<le> rk_plen k"
    by (auto simp: deepest_def covers_point_def not_less split: option.splits)
  moreover have "k' \<le> k" if k': "r_key s q = Some k'" "rk_plen k' \<le> plen"
      "i AND region_mask (rk_plen k') = rk_id k'" for q k'
  proof -
    have "q \<in> ?A" using k' by (auto simp: covers_point_def)
    with p(5) k'(1) have le: "rk_plen k' \<le> rk_plen k" by fastforce
    have "rk_id k AND region_mask (rk_plen k') = rk_id k'"
      using le p(4) k'(3) by (simp add: region_mask_and min_absorb2 and.assoc flip: p(4))
    with le p(4) k'(3) show ?thesis
      by (cases k; cases k') (auto simp: less_eq_xy_region_key_def less_xy_region_key_def)
  qed
  ultimately show ?thesis using b(1) by auto
qed

end
