(* ===== verification/Xy_Boot.thy ===== *)
theory Xy_Boot
  imports Xy_Cover
begin

text \<open>
  Start-up, from \<^verbatim>\<open>src/libxylem-runtime.c\<close>: \<^verbatim>\<open>xy_runtime_bootstrap\<close> opens the tables, fills the
  host's function table and creates the root region; every entry point of the library calls
  \<^verbatim>\<open>xy_runtime_ensure\<close> first. The lemmas show that start-up establishes the region invariant, so
  that every entry point can rely on it. (The type registrations \<^verbatim>\<open>corm_reg\<close> / \<^verbatim>\<open>corm_mreg\<close>
  carry no state that the library reads back and are left out, as is the Windows branch.)
\<close>

section \<open>Start-up\<close>

definition open_table ::
  "'h env \<Rightarrow> bool \<Rightarrow> (hd \<Rightarrow> xy_runtime \<Rightarrow> xy_runtime) \<Rightarrow> 'h xy_state \<Rightarrow> 'h xy_state" where
  "open_table E multi store s = (let (d, s') = tbl_open E multi s in upd_rt (store d) s')"

text \<open>
  The assignments \<^verbatim>\<open>xy.areg = xy_areg; \<dots>\<close>, in their order: the field and the function it is made
  to point to. Every field except \<^verbatim>\<open>last\<close> and \<^verbatim>\<open>shutdown\<close> is assigned.
\<close>

definition boot_fns :: "(xy_api \<times> xy_api) list" where
  "boot_fns =
     [(Api_areg, Api_areg), (Api_call, Api_call), (Api_load, Api_load), (Api_err, Api_err),
      (Api_strerror, Api_strerror), (Api_deny, Api_deny), (Api_require_claim, Api_require_claim),
      (Api_region_each, Api_region_each), (Api_current_region_plen, Api_current_region_plen),
      (Api_region_exists, Api_region_exists), (Api_claim_at, Api_claim_at), (Api_region_at, Api_region_at),
      (Api_call_self, Api_call_self), (Api_with_region, Api_with_region),
      (Api_current_region, Api_current_region), (Api_unload, Api_unload), (Api_reload, Api_reload)]"

definition bind_fns :: "(xy_api \<times> xy_api) list \<Rightarrow> xy_t \<Rightarrow> xy_t" where
  "bind_fns fs c = fold (\<lambda>(field, fn) c. c\<lparr>cx_fns := (cx_fns c)(field \<mapsto> fn)\<rparr>) fs c"

lemma bind_boot_fns:
  "bind_fns boot_fns c = c\<lparr>cx_fns := (\<lambda>f. if f \<in> {Api_last, Api_shutdown} then cx_fns c f else Some f)\<rparr>"
proof -
  have "((if f \<in> {Api_last, Api_shutdown} then cx_fns c f else Some f) = cx_fns (bind_fns boot_fns c) f)" for f
    by (cases f) (simp_all add: bind_fns_def boot_fns_def)
  then show ?thesis
    by (intro xy_t.equality) (simp_all add: fun_eq_iff, simp_all add: bind_fns_def boot_fns_def)
qed

definition xy_runtime_bootstrap :: "'h env \<Rightarrow> 'h xy_state \<Rightarrow> (int \<times> 'h xy_state) option" where
  "xy_runtime_bootstrap E s =
     (let s1 = (if sica_hd (xy_rt s) = 0
                then open_table E False (\<lambda>d r. r\<lparr>sica_hd := d\<rparr>) s else s);
          s2 = (if hook_id_hd (xy_rt s1) = 0
                then open_table E False (\<lambda>d r. r\<lparr>hook_id_hd := d\<rparr>) s1 else s1);
          s3 = (if path_intern_hd (xy_rt s2) = 0
                then open_table E False (\<lambda>d r. r\<lparr>path_intern_hd := d\<rparr>) s2 else s2);
          s4 = open_table E False (\<lambda>d r. r\<lparr>mod_hd := d\<rparr>) s3;
          s5 = open_table E True (\<lambda>d r. r\<lparr>mod_by_region_hd := d\<rparr>) s4;
          s6 = open_table E False (\<lambda>d r. r\<lparr>region_hd := d\<rparr>) s5;
          s7 = s6\<lparr>xy_global := bind_fns boot_fns (xy_global s6)\<rparr>
      in do { s8 \<leftarrow> region_ensure_root E s7;
              Some (XY_OK, upd_rt (\<lambda>r. r\<lparr>xy_inited := True\<rparr>) s8) })"

definition xy_runtime_ensure :: "'h env \<Rightarrow> 'h xy_state \<Rightarrow> (int \<times> 'h xy_state) option" where
  "xy_runtime_ensure E s =
     (if xy_inited (xy_rt s) then Some (XY_OK, s) else xy_runtime_bootstrap E s)"

definition xy_init :: "'h env \<Rightarrow> 'h xy_state \<Rightarrow> 'h xy_state option" where
  "xy_init E s = do { (ret, s') \<leftarrow> xy_runtime_ensure E s; Some (set_err ret s') }"


section \<open>What start-up establishes\<close>

text \<open>A process in which the library is not running: no region exists.\<close>

definition pristine :: "'h xy_state \<Rightarrow> bool" where
  "pristine s \<longleftrightarrow>
     \<not> xy_inited (xy_rt s) \<and> (\<forall>p. regions s p = None) \<and> xy_current_region_entry s = None"

definition ready :: "'h env \<Rightarrow> 'h xy_state \<Rightarrow> bool" where
  "ready E s \<longleftrightarrow> xy_inited (xy_rt s) \<and> region_wf E s \<and> current_wf s"

lemma tbl_open_laws:
  assumes "env_ok E" "tbl_open E m s = (d, s')"
  shows "d \<noteq> 0" "\<not> tbl_single E s d" "tbl_single E s' d \<longleftrightarrow> \<not> m" "tbl_get E s' d k = None"
    "d' \<noteq> d \<Longrightarrow> tbl_single E s' d' = tbl_single E s d'"
    "d' \<noteq> d \<Longrightarrow> tbl_get E s' d' k = tbl_get E s d' k"
    "\<exists>h. s' = s\<lparr>st_corm := h\<rparr>"
  using assms
  by (auto simp: env_ok_def corm_ok_def tbl_open_def tbl_single_def tbl_get_def split: prod.splits)

lemma open_table_frame:
  "regions (open_table E m store s) = regions s"
  "next_addr (open_table E m store s) = next_addr s"
  "xy_current_region_entry (open_table E m store s) = xy_current_region_entry s"
  "xy_global (open_table E m store s) = xy_global s"
  by (auto simp: open_table_def tbl_open_def upd_rt_def split: prod.splits)

lemma region_ensure_root_new:
  assumes E: "env_ok E" and none: "\<And>p. regions s p = None" "xy_current_region_entry s = None"
    and tab: "tbl_single E s (region_hd (xy_rt s))" "region_hd (xy_rt s) \<noteq> 0"
      "\<And>k. tbl_get E s (region_hd (xy_rt s)) k = None"
  shows "\<exists>s'. region_ensure_root E s = Some s' \<and> region_wf E s' \<and> current_wf s' \<and>
     xy_rt s' = xy_rt s \<and> xy_global s' = xy_global s \<and> r_key s' = [next_addr s \<mapsto> root_key]"
proof -
  define root where "root = region_zero\<lparr>re_id := XY_REGION_ROOT, re_dispatch_gen := 1\<rparr>"
  define s1 where "s1 = s\<lparr>regions := (regions s)(next_addr s \<mapsto> root), next_addr := Suc (next_addr s)\<rparr>"
  define s2 where "s2 = tbl_put E (region_hd (xy_rt s)) (KRegion root_key) (VPtr (next_addr s)) s1"
  define s' where "s' = set_current_region 0 (Some (next_addr s)) s2"
  have look: "region_lookup E s XY_REGION_ROOT 0 = None"
    by (simp add: region_lookup_def tab)
  have regs: "regions s' = (\<lambda>p. if p = next_addr s then Some root else None)"
    by (auto simp: s'_def s2_def s1_def set_current_region_def tbl_put_def none)
  have rt: "xy_rt s' = xy_rt s"
    by (simp add: s'_def s2_def s1_def set_current_region_def tbl_put_def)
  have root_fields: "re_id root = 0" "re_plen root = 0" "re_parent root = None"
      "re_children_head root = None" "re_depth root = 0" "re_dispatch_gen root = 1"
    by (simp_all add: root_def region_zero_def XY_REGION_ROOT_def)
  have cur: "region_current_plen s2 = Some 0" "regions s2 (next_addr s) = Some root"
      "xy_current_region_entry s2 = None"
    using none(2)
    by (simp_all add: region_current_plen_def s2_def s1_def tbl_put_def)
  have "region_ensure_root E s = Some s'"
    using look cur root_fields
    by (simp add: region_ensure_root_def new_region_def s'_def s2_def s1_def root_def
        root_key_def region_key_def tbl_put_frame)
  moreover have keys: "r_key s' = (\<lambda>p. if p = next_addr s then Some root_key else None)"
    using root_fields by (auto simp: r_key_def regs key_of_def region_key_def root_key_def XY_REGION_ROOT_def)
  moreover have "tree_wf s'"
  proof -
    have na: "next_addr s' = Suc (next_addr s)"
      by (simp add: s'_def s2_def s1_def set_current_region_def tbl_put_def)
    show ?thesis
      unfolding tree_wf_def keys na using root_fields
      by (auto simp: regs r_parent_def r_head_def r_depth_def split: if_splits
          intro!: exI [of _ "[]"])
  qed
  moreover have "table_wf E s'"
  proof -
    have "tbl_single E s1 = tbl_single E s" "tbl_get E s1 = tbl_get E s"
      by (auto simp: s1_def intro!: tbl_single_cong tbl_get_cong)
    moreover have "tbl_single E s' = tbl_single E s2" "tbl_get E s' = tbl_get E s2"
      by (auto simp: s'_def set_current_region_def intro!: tbl_single_cong tbl_get_cong)
    ultimately show ?thesis
      unfolding table_wf_def rt keys
      using tab E by (auto simp: s2_def tbl_get_put tbl_single_put split: if_splits)
  qed
  moreover have "current_wf s'"
    unfolding current_wf_def keys by (auto simp: s'_def set_current_region_def)
  moreover have "r_gen s' p \<noteq> Some 0" for p
    using root_fields by (simp add: r_gen_def regs)
  moreover have "r_key s' = [next_addr s \<mapsto> root_key]" using keys by auto
  moreover have "xy_global s' = xy_global s"
    by (simp add: s'_def s2_def s1_def set_current_region_def tbl_put_def)
  ultimately show ?thesis using rt unfolding region_wf_def by blast
qed

lemma region_wf_inited:
  "region_wf E (upd_rt (\<lambda>r. r\<lparr>xy_inited := b\<rparr>) s) = region_wf E s"
  "current_wf (upd_rt (\<lambda>r. r\<lparr>xy_inited := b\<rparr>) s) = current_wf s"
proof -
  let ?t = "upd_rt (\<lambda>r. r\<lparr>xy_inited := b\<rparr>) s"
  have "tbl_get E ?t = tbl_get E s" "tbl_single E ?t = tbl_single E s"
    by (auto simp: upd_rt_def intro!: tbl_get_cong tbl_single_cong)
  moreover have "r_key ?t = r_key s" "r_gen ?t = r_gen s" "same_shape s ?t" "same_shape ?t s"
    by (auto simp: fun_eq_iff r_key_def r_gen_def upd_rt_def intro!: same_shape_regions)
  moreover from this have "tree_wf ?t = tree_wf s"
    using tree_wf_shape by blast
  ultimately show "region_wf E ?t = region_wf E s" "current_wf ?t = current_wf s"
    by (auto simp: region_wf_def table_wf_def current_wf_def upd_rt_def)
qed

text \<open>Start-up in a pristine process returns \<^const>\<open>XY_OK\<close> and leaves a well-formed tree.\<close>

lemma bootstrap_ready:
  assumes E: "env_ok E" and p: "pristine s"
  shows "\<exists>s'. xy_runtime_bootstrap E s = Some (XY_OK, s') \<and> ready E s' \<and>
     r_key s' = [next_addr s \<mapsto> root_key] \<and> xy_global s' = bind_fns boot_fns (xy_global s)"
proof -
  define t1 where "t1 = (if sica_hd (xy_rt s) = 0
      then open_table E False (\<lambda>d r. r\<lparr>sica_hd := d\<rparr>) s else s)"
  define t2 where "t2 = (if hook_id_hd (xy_rt t1) = 0
      then open_table E False (\<lambda>d r. r\<lparr>hook_id_hd := d\<rparr>) t1 else t1)"
  define t3 where "t3 = (if path_intern_hd (xy_rt t2) = 0
      then open_table E False (\<lambda>d r. r\<lparr>path_intern_hd := d\<rparr>) t2 else t2)"
  define t5 where "t5 = open_table E True (\<lambda>d r. r\<lparr>mod_by_region_hd := d\<rparr>)
      (open_table E False (\<lambda>d r. r\<lparr>mod_hd := d\<rparr>) t3)"
  obtain d u where u: "tbl_open E False t5 = (d, u)" by fastforce
  note laws = tbl_open_laws [OF E u]
  define t6 where "t6 = open_table E False (\<lambda>d r. r\<lparr>region_hd := d\<rparr>) t5"
  define t7 where "t7 = t6\<lparr>xy_global := bind_fns boot_fns (xy_global t6)\<rparr>"
  have corm: "st_corm t7 = st_corm u" "region_hd (xy_rt t7) = d"
    by (auto simp: t7_def t6_def open_table_def u upd_rt_def)
  have "regions t7 = regions s" "xy_current_region_entry t7 = xy_current_region_entry s"
    by (auto simp: t7_def t6_def t5_def t3_def t2_def t1_def open_table_frame)
  then have none: "\<And>p. regions t7 p = None" "xy_current_region_entry t7 = None"
    using p by (simp_all add: pristine_def)
  have same: "next_addr t7 = next_addr s" "xy_global t7 = bind_fns boot_fns (xy_global s)"
    by (auto simp: t7_def t6_def t5_def t3_def t2_def t1_def open_table_frame)
  have tab: "tbl_single E t7 (region_hd (xy_rt t7))" "region_hd (xy_rt t7) \<noteq> 0"
      "\<And>k. tbl_get E t7 (region_hd (xy_rt t7)) k = None"
    using laws(1,3,4) tbl_single_cong [OF corm(1)] tbl_get_cong [OF corm(1)] corm(2) by simp_all
  obtain s' where s': "region_ensure_root E t7 = Some s'" "region_wf E s'" "current_wf s'"
    "xy_global s' = xy_global t7" "r_key s' = [next_addr t7 \<mapsto> root_key]"
    using region_ensure_root_new [OF E none tab] by blast
  have "xy_runtime_bootstrap E s = Some (XY_OK, upd_rt (\<lambda>r. r\<lparr>xy_inited := True\<rparr>) s')"
    using s'(1)
    unfolding xy_runtime_bootstrap_def Let_def t7_def t6_def t5_def t3_def t2_def t1_def by simp
  moreover have "xy_inited (xy_rt (upd_rt (\<lambda>r. r\<lparr>xy_inited := True\<rparr>) s'))"
    by (simp add: upd_rt_def)
  moreover have "r_key (upd_rt (\<lambda>r. r\<lparr>xy_inited := True\<rparr>) s') = r_key s'"
    by (auto simp: fun_eq_iff r_key_def upd_rt_def)
  moreover have "xy_global (upd_rt (\<lambda>r. r\<lparr>xy_inited := True\<rparr>) s') = xy_global s'"
    by (simp add: upd_rt_def)
  ultimately show ?thesis
    using s'(2-5) same by (auto simp: ready_def region_wf_inited)
qed

lemma ensure_ready [simp]: "ready E s \<Longrightarrow> xy_runtime_ensure E s = Some (XY_OK, s)"
  by (simp add: xy_runtime_ensure_def ready_def)

lemma ensure_pristine:
  "env_ok E \<Longrightarrow> pristine s \<Longrightarrow> \<exists>s'. xy_runtime_ensure E s = Some (XY_OK, s') \<and> ready E s'"
  using bootstrap_ready [of E s] by (auto simp: xy_runtime_ensure_def pristine_def)

lemma ensure_any:
  assumes "env_ok E" "pristine s \<or> ready E s"
  shows "\<exists>s'. xy_runtime_ensure E s = Some (XY_OK, s') \<and> ready E s'"
  using assms ensure_pristine by auto

text \<open>The invariant only reads the region heap, the tables and the allocator.\<close>

lemma region_wf_cong:
  assumes "regions t = regions s" "next_addr t = next_addr s" "xy_rt t = xy_rt s"
    "st_corm t = st_corm s"
  shows "region_wf E t \<longleftrightarrow> region_wf E s"
proof -
  have "same_shape s t" "same_shape t s" using assms by (auto intro!: same_shape_regions)
  then have "tree_wf t = tree_wf s" using tree_wf_shape by blast
  moreover have "r_key t = r_key s" "r_gen t = r_gen s"
    using assms(1) by (auto simp: fun_eq_iff r_key_def r_gen_def)
  ultimately show ?thesis
    using tbl_get_cong [OF assms(4)] tbl_single_cong [OF assms(4)] assms(3)
    by (simp add: region_wf_def table_wf_def)
qed

lemma set_current_region_frame [heap_simps]:
  "regions (set_current_region i e s) = regions s"
  "st_corm (set_current_region i e s) = st_corm s"
  "xy_rt (set_current_region i e s) = xy_rt s"
  "next_addr (set_current_region i e s) = next_addr s"
  "mods (set_current_region i e s) = mods s"
  "xy_current_region_id (set_current_region i e s) = i"
  "xy_current_region_entry (set_current_region i e s) = e"
  by (simp_all add: set_current_region_def)

lemma r_key_frame [heap_simps]:
  "r_key (set_current_region i e s) = r_key s" "r_key (set_err c s) = r_key s"
  "r_parent (set_current_region i e s) = r_parent s" "r_parent (set_err c s) = r_parent s"
  by (auto simp: fun_eq_iff r_key_def r_parent_def heap_simps)

lemma ready_set_current:
  "region_wf E s \<Longrightarrow> xy_inited (xy_rt s) \<Longrightarrow> r_key s p = Some k \<Longrightarrow> rk_id k = i \<Longrightarrow>
   ready E (set_current_region i (Some p) s)"
  by (auto simp: ready_def current_wf_def heap_simps region_wf_cong [of "set_current_region i (Some p) s" s])

lemma ready_set_err [simp]: "ready E (set_err e s) \<longleftrightarrow> ready E s"
proof -
  have "same_shape s (set_err e s)" "same_shape (set_err e s) s"
    by (auto simp: heap_simps intro!: same_shape_regions)
  then have "tree_wf (set_err e s) = tree_wf s" using tree_wf_shape by blast
  moreover have "r_key (set_err e s) = r_key s" "r_gen (set_err e s) = r_gen s"
    by (auto simp: fun_eq_iff r_key_def r_gen_def heap_simps)
  ultimately show ?thesis
    by (simp add: ready_def region_wf_def table_wf_def current_wf_def heap_simps)
qed

end
