(* ===== verification/Xy_Claim.thy ===== *)
theory Xy_Claim
  imports Xy_Boot
begin

text \<open>
  Creating and naming regions, from \<^verbatim>\<open>src/libxylem.c\<close>: the free-slot search
  \<^verbatim>\<open>region_alloc_slot\<close>, the engine-driven \<^verbatim>\<open>xy_claim_at\<close>, the cover lookup \<^verbatim>\<open>xy_region_at\<close>, and
  the scope and query calls of the region API. What they keep and compute is shown in \<open>Xy_Claim_Inv\<close>.
\<close>

section \<open>Creating a region\<close>

text \<open>
  What both claim paths do with a filled-in child entry: enter it in the table, link it at the
  head of the parent's child list, and mark the ancestors dirty.
\<close>

definition attach_region ::
  "'h env \<Rightarrow> rptr \<Rightarrow> xy_region_entry \<Rightarrow> 'h xy_state \<Rightarrow> (rptr \<times> 'h xy_state) option" where
  "attach_region E parent child s =
     (let (c, s1) = new_region child s;
          s2 = tbl_put E (region_hd (xy_rt s1)) (KRegion (region_key (re_id child) (re_plen child)))
                 (VPtr c) s1
      in do { rp \<leftarrow> regions s2 parent;
              let s3 = upd_reg c (\<lambda>r. r\<lparr>re_sibling_next := re_children_head rp\<rparr>) s2;
              let s4 = upd_reg parent (\<lambda>r. r\<lparr>re_children_head := Some c\<rparr>) s3;
              s5 \<leftarrow> region_mark_subtree_dirty (Some parent) s4;
              Some (c, s5) })"

definition xy_claim_at ::
  "'h env \<Rightarrow> u64 \<Rightarrow> u8 \<Rightarrow> fnptr option \<Rightarrow> addr option \<Rightarrow> 'h xy_state \<Rightarrow> (int \<times> 'h xy_state) option" where
  "xy_claim_at E i plen fn ud s =
     do { (enter_ret, s) \<leftarrow> xy_runtime_ensure E s;
          if enter_ret \<noteq> XY_OK then Some (fail_with enter_ret s)
          else if plen > 64 then Some (fail_with XY_ERR_TOOBIG s)
          else if i AND region_mask plen \<noteq> i then Some (fail_with XY_ERR_INVALID s)
          else case region_lookup E s i plen of
            Some existing \<Rightarrow>
              do { r \<leftarrow> regions s existing;
                   let s1 = (if fn \<noteq> None
                             then upd_reg existing
                               (\<lambda>r. r\<lparr>re_claim_handler := fn, re_claim_handler_ud := ud\<rparr>) s
                             else s);
                   Some (fail_with XY_OK (set_current_region i (Some existing) s1)) }
          | None \<Rightarrow>
              do { anc \<leftarrow> region_nearest_ancestor E s i plen;
                   case anc of
                     None \<Rightarrow> Some (fail_with XY_ERR_NOTFOUND s)
                   | Some parent \<Rightarrow>
                       do { rp \<leftarrow> regions s parent;
                            if plen \<le> re_plen rp then Some (fail_with XY_ERR_INVALID s)
                            else if \<not> malloc_ok E s 1 then Some (fail_with XY_ERR_TOOBIG s)
                            else do {
                              (c, s1) \<leftarrow> attach_region E parent
                                (region_zero\<lparr>re_id := i, re_plen := plen,
                                   re_depth := re_depth rp + 1,
                                   re_child_bits := plen - re_plen rp,
                                   re_owner_path := None, re_dispatch_gen := 1,
                                   re_parent := Some parent,
                                   re_claim_handler := fn, re_claim_handler_ud := ud\<rparr>) s;
                              Some (fail_with XY_OK (set_current_region i (Some c) s1)) } } } }"


section \<open>Free slots\<close>

text \<open>
  The \<^verbatim>\<open>do \<dots> while (s != num_slots)\<close> loop of \<^verbatim>\<open>region_alloc_slot\<close>, on 64-bit words: for
  \<^verbatim>\<open>num_slots\<close> 0 it runs until the counter wraps.
\<close>

function alloc_loop ::
  "'h env \<Rightarrow> 'h xy_state \<Rightarrow> u64 \<Rightarrow> u8 \<Rightarrow> nat \<Rightarrow> u64 \<Rightarrow> u64 \<Rightarrow> u64" where
  "alloc_loop E s pid cplen shift num_slots n =
     (let candidate_id = pid OR push_bit shift n
      in if region_lookup E s candidate_id cplen = None then candidate_id
         else if n + 1 = num_slots then XY_REGION_INVALID
         else alloc_loop E s pid cplen shift num_slots (n + 1))"
  by pat_completeness auto
termination
proof (relation "measure (\<lambda>(E, s, pid, cplen, shift, num_slots, n). unat (num_slots - (n + 1)))")
  fix n num_slots :: u64
  assume "n + 1 \<noteq> num_slots"
  then have "num_slots - (n + 1) \<noteq> 0" by simp
  then have "unat (num_slots - (n + 1) - 1) < unat (num_slots - (n + 1))"
    by (metis measure_unat)
  moreover have "num_slots - (n + 1) - 1 = num_slots - (n + 1 + 1)" by simp
  ultimately show "((E :: 'h env, s, pid, cplen, shift, num_slots, n + 1),
      (E, s, pid, cplen, shift, num_slots, n))
      \<in> measure (\<lambda>(E, s, pid, cplen, shift, num_slots, n). unat (num_slots - (n + 1)))"
    for E s pid cplen shift by simp
qed simp

declare alloc_loop.simps [simp del]

definition region_alloc_slot :: "'h env \<Rightarrow> 'h xy_state \<Rightarrow> xy_region_entry \<Rightarrow> u8 \<Rightarrow> u64" where
  "region_alloc_slot E s parent bits =
     (let cplen = re_plen parent + bits
      in if cplen > 64 then XY_REGION_INVALID
         else let num_slots = (if cplen = 64 then 0 else push_bit (unat bits) 1);
                  slot_shift = (if cplen < 64 then 64 - unat cplen else 0)
              in alloc_loop E s (re_id parent) cplen slot_shift num_slots 0)"


section \<open>Queries and scopes\<close>

text \<open>\<^verbatim>\<open>xy_region_at\<close> returns the id and writes the width to its out-parameter.\<close>

definition xy_region_at ::
  "'h env \<Rightarrow> u64 \<Rightarrow> u8 \<Rightarrow> 'h xy_state \<Rightarrow> ((u64 \<times> u8) \<times> 'h xy_state) option" where
  "xy_region_at E prefix_id plen s =
     do { (enter_ret, s) \<leftarrow> xy_runtime_ensure E s;
          if enter_ret \<noteq> XY_OK then Some ((XY_REGION_INVALID, 0), set_err enter_ret s)
          else if plen > 64 then Some ((XY_REGION_INVALID, 0), set_err XY_ERR_TOOBIG s)
          else do { hit \<leftarrow> (case region_lookup E s XY_REGION_ROOT 0 of
                       None \<Rightarrow> Some None
                     | Some root \<Rightarrow> region_find_cover_rec depth_fuel s prefix_id plen root None);
                    case hit of
                      None \<Rightarrow> Some ((XY_REGION_INVALID, 0), set_err XY_ERR_NOTFOUND s)
                    | Some h \<Rightarrow>
                        do { r \<leftarrow> regions s h;
                             Some ((re_id r, re_plen r), set_err XY_OK s) } } }"

definition xy_region_exists ::
  "'h env \<Rightarrow> u64 \<Rightarrow> u8 \<Rightarrow> 'h xy_state \<Rightarrow> (int \<times> 'h xy_state) option" where
  "xy_region_exists E region_id plen s =
     do { (enter_ret, s) \<leftarrow> xy_runtime_ensure E s;
          if enter_ret \<noteq> XY_OK then Some (fail_with enter_ret s)
          else if region_lookup E s region_id plen = None
          then Some (fail_with XY_ERR_NOTFOUND s)
          else Some (fail_with XY_OK s) }"

definition xy_current_region :: "'h env \<Rightarrow> 'h xy_state \<Rightarrow> (u64 \<times> 'h xy_state) option" where
  "xy_current_region E s =
     do { (enter_ret, s) \<leftarrow> xy_runtime_ensure E s;
          if enter_ret \<noteq> XY_OK then Some (XY_REGION_INVALID, set_err enter_ret s)
          else Some (xy_current_region_id s, s) }"

definition xy_current_region_plen :: "'h env \<Rightarrow> 'h xy_state \<Rightarrow> (u8 \<times> 'h xy_state) option" where
  "xy_current_region_plen E s =
     do { (enter_ret, s) \<leftarrow> xy_runtime_ensure E s;
          if enter_ret \<noteq> XY_OK then Some (0, set_err enter_ret s)
          else do { p \<leftarrow> region_current_plen s; Some (p, set_err XY_OK s) } }"

definition xy_with_region ::
  "'h env \<Rightarrow> u64 \<Rightarrow> u8 \<Rightarrow> fnptr option \<Rightarrow> addr option \<Rightarrow> 'h xy_state \<Rightarrow> (int \<times> 'h xy_state) option" where
  "xy_with_region E region_id plen fn ud s =
     do { (enter_ret, s) \<leftarrow> xy_runtime_ensure E s;
          if enter_ret \<noteq> XY_OK then Some (fail_with enter_ret s)
          else case fn of
            None \<Rightarrow> Some (fail_with XY_ERR_INVALID s)
          | Some f \<Rightarrow>
              (case region_lookup E s region_id plen of
                 None \<Rightarrow> Some (fail_with XY_ERR_NOTFOUND s)
               | Some target \<Rightarrow>
                   do { (ret, s1) \<leftarrow> run_scope E f ud (set_current_region region_id (Some target) s);
                        let s2 = set_current_region (xy_current_region_id s)
                                   (xy_current_region_entry s) s1;
                        Some (ret, set_err (if ret = XY_OK then XY_OK else ret) s2) }) }"

text \<open>The child loop of \<^verbatim>\<open>xy_region_each\<close>: the callback runs before the next link is read.\<close>

fun each_loop ::
  "'h env \<Rightarrow> nat \<Rightarrow> fnptr \<Rightarrow> addr option \<Rightarrow> rptr option \<Rightarrow> int \<Rightarrow> 'h xy_state \<Rightarrow>
     (int \<times> 'h xy_state) option" where
  "each_loop E n fn ud None ret s = Some (ret, s)"
| "each_loop E 0 fn ud (Some e) ret s = None"
| "each_loop E (Suc n) fn ud (Some e) ret s =
     do { r \<leftarrow> regions s e;
          (ret', s1) \<leftarrow> run_each E fn (re_id r) (re_plen r) ud s;
          if ret' \<noteq> XY_OK then Some (ret', s1)
          else do { r1 \<leftarrow> regions s1 e;
                    each_loop E n fn ud (re_sibling_next r1) ret' s1 } }"

definition xy_region_each ::
  "'h env \<Rightarrow> fnptr \<Rightarrow> addr option \<Rightarrow> 'h xy_state \<Rightarrow> (int \<times> 'h xy_state) option" where
  "xy_region_each E fn ud s =
     do { (enter_ret, s) \<leftarrow> xy_runtime_ensure E s;
          if enter_ret \<noteq> XY_OK then Some (fail_with enter_ret s)
          else case region_lookup_current s of
            None \<Rightarrow> Some (fail_with XY_ERR_NOTFOUND s)
          | Some parent \<Rightarrow>
              do { r \<leftarrow> regions s parent;
                   (ret, s1) \<leftarrow> each_loop E (link_fuel s) fn ud (re_children_head r) XY_OK s;
                   Some (ret, set_err XY_OK s1) } }"

definition xy_require_claim ::
  "'h env \<Rightarrow> fnptr option \<Rightarrow> addr option \<Rightarrow> 'h xy_state \<Rightarrow> (int \<times> 'h xy_state) option" where
  "xy_require_claim E fn ud s =
     do { (enter_ret, s) \<leftarrow> xy_runtime_ensure E s;
          if enter_ret \<noteq> XY_OK then Some (fail_with enter_ret s)
          else case region_lookup_current s of
            None \<Rightarrow> Some (fail_with XY_ERR_NOTFOUND s)
          | Some reg \<Rightarrow>
              do { r \<leftarrow> regions s reg;
                   Some (fail_with XY_OK
                     (upd_reg reg
                       (\<lambda>r. if fn = None
                            then r\<lparr>re_claim_handler := None, re_claim_handler_ud := None,
                                   re_require_claim := False\<rparr>
                            else r\<lparr>re_claim_handler := fn, re_claim_handler_ud := ud,
                                   re_require_claim := True\<rparr>) s)) } }"

end
