(* ===== verification/Xy_Claim_Inv.thy ===== *)
theory Xy_Claim_Inv
  imports Xy_Claim
begin

text \<open>
  Correctness of region creation and lookup: attaching a region keeps the invariant, every
  branch of \<^verbatim>\<open>xy_claim_at\<close> is characterised, \<^verbatim>\<open>xy_region_at\<close> finds what was claimed, and the
  slot search returns the first free slot inside the parent while there is one.
\<close>

section \<open>Depths\<close>

lemma depth_bound:
  assumes wf: "tree_wf s" and k: "r_key s p = Some k"
  shows "\<exists>d. r_depth s p = Some d \<and> d \<le> rk_plen k"
proof -
  obtain x where x: "r_parent s p = Some x" using r_key_parent [OF k] by blast
  show ?thesis
  proof (cases x)
    case None
    with tree_no_parent [OF wf] x k show ?thesis by auto
  next
    case (Some q)
    with tree_parent [OF wf, of p q] x k obtain k' d where
      d: "k' < k" "r_depth s p = Some (d + 1)" "d \<le> rk_plen k'" by auto
    then have "d < rk_plen k" using key_less_plen by (metis order_le_less_trans)
    then have "d + 1 \<le> rk_plen k" by (simp add: inc_le)
    with d show ?thesis by auto
  qed
qed


section \<open>Attaching keeps the invariant\<close>

text \<open>
  \<open>t\<close> is \<open>s\<close> with a new region at the next address, at the head of the child list of
  \<open>p\<close>, seen through the shape of the two trees.
\<close>

definition grown :: "'h xy_state \<Rightarrow> rptr \<Rightarrow> xy_region_key \<Rightarrow> u8 \<Rightarrow> 'h xy_state \<Rightarrow> bool" where
  "grown s p k d t \<longleftrightarrow>
     (\<exists>h. r_head s p = Some h \<and> sib_next t = (sib_next s)(next_addr s \<mapsto> h)) \<and>
     r_key t = (r_key s)(next_addr s \<mapsto> k) \<and>
     r_parent t = (r_parent s)(next_addr s \<mapsto> Some p) \<and>
     r_head t = (r_head s)(next_addr s \<mapsto> None, p \<mapsto> Some (next_addr s)) \<and>
     r_depth t = (r_depth s)(next_addr s \<mapsto> d + 1) \<and>
     next_addr t = Suc (next_addr s)"

lemma fresh_region:
  assumes "tree_wf s"
  shows "regions s (next_addr s) = None"
proof -
  have "r_key s (next_addr s) = None"
    using tree_key [OF assms, of "next_addr s"] by fastforce
  then show ?thesis by (simp add: r_key_def)
qed

lemma fresh_shape:
  "regions s c = None \<Longrightarrow> r_key s c = None \<and> r_parent s c = None \<and> r_head s c = None"
  by (simp add: r_key_def r_parent_def r_head_def)

lemma grown_old_children:
  assumes wf: "tree_wf s" and t: "grown s p k d t" and q: "r_head s q = Some h"
  shows "\<exists>cs. chain (sib_next t) h cs \<and> next_addr s \<notin> set cs \<and>
     set cs = {c. r_parent s c = Some (Some q)}"
proof -
  obtain cs where cs: "chain (sib_next s) h cs" "set cs = {c. r_parent s c = Some (Some q)}"
    using tree_children [OF wf q] by blast
  have new: "next_addr s \<notin> set cs"
    using cs(2) fresh_shape [OF fresh_region [OF wf]] by simp
  obtain h' where "sib_next t = (sib_next s)(next_addr s \<mapsto> h')"
    using t unfolding grown_def by blast
  with new have "sib_next t q = sib_next s q" if "q \<in> set cs" for q
    using that by auto
  with cs(1) have "chain (sib_next t) h cs" by (rule chain_cong)
  with cs(2) new show ?thesis by blast
qed

lemma grown_children:
  assumes wf: "tree_wf s" and t: "grown s p k d t" and p: "r_key s p = Some kp"
    and q: "r_head t q = Some h"
  shows "\<exists>cs. chain (sib_next t) h cs \<and> set cs = {c. r_parent t c = Some (Some q)}"
proof -
  let ?c = "next_addr s"
  have fresh: "r_key s ?c = None" "r_parent s ?c = None"
    using fresh_shape [OF fresh_region [OF wf]] by simp_all
  then have pc: "p \<noteq> ?c" using p by auto
  have no_child: "r_parent s c \<noteq> Some (Some ?c)" for c
    using tree_parent [OF wf, of c ?c] fresh by auto
  consider "q = ?c" | "q = p" | "q \<noteq> ?c" "q \<noteq> p" by blast
  then show ?thesis
  proof cases
    case 1
    with q pc no_child t show ?thesis by (intro exI [of _ "[]"]) (auto simp: grown_def)
  next
    case 2
    obtain h' where h': "r_head s p = Some h'" "sib_next t ?c = Some h'"
      using t by (auto simp: grown_def)
    from grown_old_children [OF wf t h'(1)] obtain cs where
      "chain (sib_next t) h' cs" "?c \<notin> set cs" "set cs = {c. r_parent s c = Some (Some p)}" by blast
    with 2 q h'(2) t show ?thesis by (intro exI [of _ "?c # cs"]) (auto simp: grown_def)
  next
    case 3
    with q t have "r_head s q = Some h" by (simp add: grown_def)
    from grown_old_children [OF wf t this] 3 t fresh show ?thesis
      by (auto simp: grown_def split: if_splits)
  qed
qed

lemma tree_wf_grown:
  assumes wf: "tree_wf s" and t: "grown s p k d t" and p: "r_key s p = Some kp" "r_depth s p = Some d"
    and k: "kp < k" "canonical k"
  shows "tree_wf t"
  unfolding tree_wf_def
proof (intro conjI allI impI)
  let ?c = "next_addr s"
  have fresh: "r_key s ?c = None" using fresh_shape [OF fresh_region [OF wf]] by simp
  note shape = t [unfolded grown_def]
  fix q kq assume "r_key t q = Some kq"
  then show "q < next_addr t" "canonical kq"
    using tree_key [OF wf] k(2) shape by (auto simp: less_Suc_eq split: if_splits)
next
  fix q assume "r_parent t q = Some None"
  then show "r_key t q = Some root_key" "r_depth t q = Some 0"
    using tree_no_parent [OF wf] t by (auto simp: grown_def split: if_splits)
next
  let ?c = "next_addr s"
  have fresh: "r_key s ?c = None" using fresh_shape [OF fresh_region [OF wf]] by simp
  then have pc: "p \<noteq> ?c" using p(1) by auto
  fix q q' assume par: "r_parent t q = Some (Some q')"
  show "\<exists>k k' d. r_key t q = Some k \<and> r_key t q' = Some k' \<and> k' < k \<and>
      r_depth t q' = Some d \<and> r_depth t q = Some (d + 1) \<and> d \<le> rk_plen k'"
  proof (cases "q = ?c")
    case True
    with par t have "q' = p" by (simp add: grown_def)
    with True pc p k(1) depth_bound [OF wf p(1)] t show ?thesis by (auto simp: grown_def)
  next
    case False
    with par t have "r_parent s q = Some (Some q')" by (simp add: grown_def)
    from tree_parent [OF wf this] False fresh t show ?thesis
      by (fastforce simp: grown_def)
  qed
next
  fix q h assume "r_head t q = Some h"
  then show "\<exists>cs. chain (sib_next t) h cs \<and> set cs = {c. r_parent t c = Some (Some q)}"
    by (rule grown_children [OF wf t p(1)])
qed

text \<open>The state after the links are set, before the ancestors are marked.\<close>

definition linked ::
  "'h env \<Rightarrow> rptr \<Rightarrow> xy_region_entry \<Rightarrow> xy_region_entry \<Rightarrow> 'h xy_state \<Rightarrow> 'h xy_state" where
  "linked E p rp child s =
     upd_reg p (\<lambda>r. r\<lparr>re_children_head := Some (next_addr s)\<rparr>)
       (upd_reg (next_addr s) (\<lambda>r. r\<lparr>re_sibling_next := re_children_head rp\<rparr>)
         (tbl_put E (region_hd (xy_rt s)) (KRegion (key_of child)) (VPtr (next_addr s))
           (s\<lparr>regions := (regions s)(next_addr s \<mapsto> child), next_addr := Suc (next_addr s)\<rparr>)))"

lemma linked_regions:
  assumes "regions s (next_addr s) = None" "regions s p = Some rp"
  shows "regions (linked E p rp child s) q =
      (if q = p then Some (rp\<lparr>re_children_head := Some (next_addr s)\<rparr>)
       else if q = next_addr s then Some (child\<lparr>re_sibling_next := re_children_head rp\<rparr>)
       else regions s q)"
  using assms by (auto simp: linked_def heap_simps)

lemma linked_grown:
  assumes "regions s (next_addr s) = None" "regions s p = Some rp"
    "re_parent child = Some p" "re_children_head child = None" "re_depth child = d + 1"
  shows "grown s p (key_of child) d (linked E p rp child s)"
proof -
  have "p \<noteq> next_addr s" using assms(1,2) by auto
  moreover have "next_addr (linked E p rp child s) = Suc (next_addr s)"
    by (simp add: linked_def heap_simps)
  ultimately show ?thesis
    using assms
    by (auto simp: grown_def fun_eq_iff r_key_def r_parent_def r_head_def r_depth_def sib_next_def
        linked_regions key_of_def)
qed

lemma linked_table:
  assumes E: "env_ok E" and tab: "table_wf E s" and fresh: "regions s (next_addr s) = None"
    and keys: "r_key (linked E p rp child s) = (r_key s)(next_addr s \<mapsto> key_of child)"
    and new: "\<And>q. r_key s q \<noteq> Some (key_of child)"
  shows "table_wf E (linked E p rp child s)"
proof -
  define s1 where
    "s1 = s\<lparr>regions := (regions s)(next_addr s \<mapsto> child), next_addr := Suc (next_addr s)\<rparr>"
  have eq: "tbl_get E s1 = tbl_get E s" "tbl_single E s1 = tbl_single E s"
    by (auto simp: s1_def intro!: tbl_get_cong tbl_single_cong)
  let ?put = "tbl_put E (region_hd (xy_rt s)) (KRegion (key_of child)) (VPtr (next_addr s)) s1"
  have "tbl_single E (linked E p rp child s) = tbl_single E ?put"
    "tbl_get E (linked E p rp child s) = tbl_get E ?put"
    "xy_rt (linked E p rp child s) = xy_rt s"
    by (simp_all add: linked_def s1_def heap_simps)
  moreover obtain root where "r_key s root = Some root_key" "root \<noteq> next_addr s"
    using tab fresh_shape [OF fresh] unfolding table_wf_def by (metis option.distinct(1))
  ultimately show ?thesis
    using tab E eq new fresh_shape [OF fresh]
    unfolding table_wf_def keys
    by (auto simp: tbl_get_put tbl_single_put split: if_splits intro!: exI [of _ root])
qed

lemma shape_keeping_mark_bump: "shape_keeping (\<lambda>r. mark_dirty (bump_gen r))"
  by (simp add: shape_keeping_def mark_dirty_def bump_gen_def Let_def)

lemma region_wf_mark:
  assumes wf: "region_wf E s"
  shows "region_wf E (upd_regs A (\<lambda>r. mark_dirty (bump_gen r)) s)"
proof -
  let ?t = "upd_regs A (\<lambda>r. mark_dirty (bump_gen r)) s"
  have sh: "same_shape s ?t" using shape_keeping_mark_bump by (rule upd_regs_shape)
  then have "tree_wf ?t" using wf by (auto simp: region_wf_def intro: tree_wf_shape)
  moreover have "table_wf E ?t"
    using wf sh by (intro table_wf_frame [of ?t s]) (auto simp: region_wf_def heap_simps same_shape_def)
  moreover have "r_gen ?t q \<noteq> Some 0" for q
    using wf by (auto simp: region_wf_def r_gen_def heap_simps mark_dirty_def bump_gen_nonzero)
  ultimately show ?thesis by (simp add: region_wf_def)
qed

lemma linked_tree_wf:
  assumes tw: "tree_wf s" and p: "regions s p = Some rp" "r_depth s p = Some d"
    and k: "key_of rp < key_of child" "canonical (key_of child)"
    and child: "re_parent child = Some p" "re_children_head child = None" "re_depth child = d + 1"
  shows "tree_wf (linked E p rp child s)"
proof -
  have "grown s p (key_of child) d (linked E p rp child s)"
    using fresh_region [OF tw] p(1) child by (rule linked_grown)
  moreover have "r_key s p = Some (key_of rp)" using p(1) by (simp add: r_key_def)
  ultimately show ?thesis using tw p(2) k by (blast intro: tree_wf_grown)
qed

lemma attach_exact:
  assumes "tree_wf s" and tw: "tree_wf (linked E p rp child s)" and rp: "regions s p = Some rp"
  shows "attach_region E p child s = Some (next_addr s,
     upd_regs (set (ancestors (linked E p rp child s) p)) (\<lambda>r. mark_dirty (bump_gen r)) (linked E p rp child s))"
proof -
  note fresh = fresh_region [OF assms(1)]
  have "r_key (linked E p rp child s) p = Some (key_of rp)"
    by (simp add: r_key_def linked_regions [OF fresh rp] key_of_def)
  note mark = region_mark_subtree_dirty_eq [OF tw this]
  have "regions (tbl_put E (region_hd (xy_rt s)) (KRegion (key_of child)) (VPtr (next_addr s))
      (s\<lparr>regions := (regions s)(next_addr s \<mapsto> child), next_addr := Suc (next_addr s)\<rparr>)) p = Some rp"
    using fresh rp by (auto simp: heap_simps)
  with mark show ?thesis by (simp add: attach_region_def new_region_def linked_def key_of_def Let_def)
qed

lemma attach_region_wf:
  assumes E: "env_ok E" and wf: "region_wf E s" and p: "r_key s p = Some kp" "r_depth s p = Some d"
    and k: "kp < key_of child" "canonical (key_of child)" "\<And>q. r_key s q \<noteq> Some (key_of child)"
    and child: "re_parent child = Some p" "re_children_head child = None"
      "re_depth child = d + 1" "re_dispatch_gen child \<noteq> 0"
  shows "\<exists>s'. attach_region E p child s = Some (next_addr s, s') \<and> region_wf E s' \<and>
     r_key s' = (r_key s)(next_addr s \<mapsto> key_of child) \<and>
     r_parent s' = (r_parent s)(next_addr s \<mapsto> Some p) \<and>
     xy_rt s' = xy_rt s \<and> xy_current_region_entry s' = xy_current_region_entry s \<and>
     xy_current_region_id s' = xy_current_region_id s"
proof -
  have tw: "tree_wf s" and tab: "table_wf E s" and gen: "\<And>q. r_gen s q \<noteq> Some 0"
    using wf by (simp_all add: region_wf_def)
  note fresh = fresh_region [OF tw]
  obtain rp where rp: "regions s p = Some rp" using p by (auto simp: r_key_def)
  define s4 where "s4 = linked E p rp child s"
  have g: "grown s p (key_of child) d s4"
    unfolding s4_def using fresh rp child(1-3) by (rule linked_grown)
  then have keys: "r_key s4 = (r_key s)(next_addr s \<mapsto> key_of child)"
    and pars: "r_parent s4 = (r_parent s)(next_addr s \<mapsto> Some p)" by (simp_all add: grown_def)
  have "kp = key_of rp" using p(1) rp by (simp add: r_key_def)
  then have tw4: "tree_wf s4" unfolding s4_def using tw rp p(2) k(1,2) child(1-3) by (intro linked_tree_wf) simp_all
  have "table_wf E s4"
    unfolding s4_def using E tab fresh keys [unfolded s4_def] k(3) by (rule linked_table)
  moreover have "r_gen s4 q \<noteq> Some 0" for q
    using gen [of q] gen [of p] child(4) rp fresh
    by (auto simp: r_gen_def s4_def linked_regions)
  ultimately have wf4: "region_wf E s4" using tw4 by (simp add: region_wf_def)
  define s5 where "s5 = upd_regs (set (ancestors s4 p)) (\<lambda>r. mark_dirty (bump_gen r)) s4"
  have "attach_region E p child s = Some (next_addr s, s5)"
    unfolding s5_def s4_def by (rule attach_exact [OF tw tw4 [unfolded s4_def] rp])
  moreover have "region_wf E s5" unfolding s5_def using wf4 by (rule region_wf_mark)
  moreover have "same_shape s4 s5"
    unfolding s5_def using shape_keeping_mark_bump by (rule upd_regs_shape)
  ultimately show ?thesis
    using keys pars by (auto simp: same_shape_def s5_def s4_def linked_def heap_simps)
qed


section \<open>xy_claim_at\<close>

lemma readyD:
  assumes "ready E s"
  shows "region_wf E s" "tree_wf s" "table_wf E s" "xy_inited (xy_rt s)" "current_wf s"
  using assms by (simp_all add: ready_def region_wf_def)

text \<open>An update of claim handlers keeps the invariant.\<close>

lemma region_wf_upd_reg:
  assumes wf: "region_wf E s" and f: "shape_keeping f" "\<And>r. re_dispatch_gen (f r) = re_dispatch_gen r"
  shows "region_wf E (upd_reg p f s)"
proof -
  let ?t = "upd_reg p f s"
  have sh: "same_shape s ?t" using f(1) by (rule upd_reg_shape)
  then have "tree_wf ?t" using wf by (auto simp: region_wf_def intro: tree_wf_shape)
  moreover have "table_wf E ?t"
    using wf sh by (intro table_wf_frame [of ?t s]) (auto simp: region_wf_def heap_simps same_shape_def)
  moreover have "r_gen ?t = r_gen s"
    using f(2) by (auto simp: fun_eq_iff r_gen_def heap_simps option.map_comp comp_def)
  ultimately show ?thesis using wf by (simp add: region_wf_def)
qed

lemma claim_at_rejects:
  assumes "ready E s" "plen > 64 \<or> i AND region_mask plen \<noteq> i"
  shows "xy_claim_at E i plen fn ud s =
     Some (fail_with (if plen > 64 then XY_ERR_TOOBIG else XY_ERR_INVALID) s)"
  using assms by (auto simp: xy_claim_at_def xy_codes)

lemma claim_at_existing:
  assumes s: "ready E s" and "plen \<le> 64" "i AND region_mask plen = i"
    and p: "r_key s p = Some (Region_Key i plen)"
  shows "xy_claim_at E i plen fn ud s =
     Some (fail_with XY_OK (set_current_region i (Some p)
       (if fn = None then s
        else upd_reg p (\<lambda>r. r\<lparr>re_claim_handler := fn, re_claim_handler_ud := ud\<rparr>) s)))"
proof -
  have "region_lookup E s i plen = Some p"
    using p readyD(3) [OF s] by (simp add: region_lookup_iff)
  moreover obtain r where "regions s p = Some r" using p by (auto simp: r_key_def)
  ultimately show ?thesis
    using assms by (auto simp: xy_claim_at_def xy_codes Let_def)
qed

lemma claim_at_existing_ready:
  assumes s: "ready E s" and p: "r_key s p = Some (Region_Key i plen)"
  shows "ready E (set_current_region i (Some p)
       (if fn = None then s
        else upd_reg p (\<lambda>r. r\<lparr>re_claim_handler := fn, re_claim_handler_ud := ud\<rparr>) s))"
    (is "ready E (set_current_region i (Some p) ?t)")
proof -
  let ?f = "\<lambda>r. r\<lparr>re_claim_handler := fn, re_claim_handler_ud := ud\<rparr>"
  have "shape_keeping ?f" by (simp add: shape_keeping_def)
  then have "region_wf E ?t" "r_key ?t = r_key s"
    using readyD(1) [OF s] upd_reg_shape [of ?f s p] region_wf_upd_reg [of E s ?f p]
    by (auto simp: same_shape_def)
  moreover have "xy_inited (xy_rt ?t)" using readyD(4) [OF s] by (simp add: heap_simps)
  ultimately show ?thesis using p by (intro ready_set_current) auto
qed

lemma claim_at_new:
  assumes E: "env_ok E" and s: "ready E s" and c: "plen \<le> 64" "i AND region_mask plen = i"
    and new: "\<And>p. r_key s p \<noteq> Some (Region_Key i plen)" and mem: "malloc_ok E s 1"
  shows "\<exists>s' p kp. xy_claim_at E i plen fn ud s = Some (XY_OK, s') \<and> ready E s' \<and>
     xy_err_val s' = XY_OK \<and>
     r_key s p = Some kp \<and> kp < Region_Key i plen \<and>
     (\<forall>q k. r_key s q = Some k \<longrightarrow> k < Region_Key i plen \<longrightarrow> k \<le> kp) \<and>
     r_key s' = (r_key s)(next_addr s \<mapsto> Region_Key i plen) \<and>
     r_parent s' = (r_parent s)(next_addr s \<mapsto> Some p) \<and>
     xy_current_region_entry s' = Some (next_addr s) \<and> xy_current_region_id s' = i"
proof -
  note wf = readyD [OF s]
  have "plen \<noteq> 0"
  proof
    assume "plen = 0"
    with c(2) have "Region_Key i plen = root_key" by (simp add: root_key_def XY_REGION_ROOT_def)
    with new region_lookup_root [OF wf(1)] show False by auto
  qed
  then have pos: "0 < plen" by (simp add: word_gt_0)
  have look: "region_lookup E s i plen = None"
    using new region_lookup_iff [OF wf(3)] by (cases "region_lookup E s i plen") auto
  obtain p kp where p: "region_nearest_ancestor E s i plen = Some (Some p)" "r_key s p = Some kp"
    "kp < Region_Key i plen"
    and best: "\<forall>q k. r_key s q = Some k \<longrightarrow> k < Region_Key i plen \<longrightarrow> k \<le> kp"
    using region_nearest_ancestor_greatest [OF wf(1) pos, of i] by blast
  obtain rp where rp: "regions s p = Some rp" "kp = key_of rp"
    using p(2) by (auto simp: r_key_def)
  define child where
    "child = region_zero\<lparr>re_id := i, re_plen := plen, re_depth := re_depth rp + 1,
       re_child_bits := plen - re_plen rp, re_owner_path := None, re_dispatch_gen := 1,
       re_parent := Some p, re_claim_handler := fn, re_claim_handler_ud := ud\<rparr>"
  have key: "key_of child = Region_Key i plen"
    by (simp add: child_def key_of_def region_key_def)
  have "r_depth s p = Some (re_depth rp)" using rp by (simp add: r_depth_def)
  then obtain s1 where s1: "attach_region E p child s = Some (next_addr s, s1)" "region_wf E s1"
    "r_key s1 = (r_key s)(next_addr s \<mapsto> Region_Key i plen)"
    "r_parent s1 = (r_parent s)(next_addr s \<mapsto> Some p)" "xy_rt s1 = xy_rt s"
    using attach_region_wf [OF E wf(1) p(2), of "re_depth rp" child] p(3) c new key
    by (auto simp: child_def region_zero_def canonical_def key_of_def region_key_def)
  have "ready E (set_current_region i (Some (next_addr s)) s1)"
    using s1 wf(4) by (intro ready_set_current) auto
  moreover have "\<not> plen \<le> re_plen rp"
    using p(3) rp by (simp add: key_of_def region_key_def key_less_iff not_le)
  ultimately show ?thesis
    using s1 look c p(1,2,3) best rp mem s
    by (intro exI [of _ "set_err XY_OK (set_current_region i (Some (next_addr s)) s1)"]
          exI [of _ p] exI [of _ kp])
       (auto simp: xy_claim_at_def fail_with_def heap_simps child_def xy_codes not_less)
qed

lemma claim_at_no_memory:
  assumes s: "ready E s" and c: "plen \<le> 64" "i AND region_mask plen = i"
    and new: "\<And>p. r_key s p \<noteq> Some (Region_Key i plen)" and mem: "\<not> malloc_ok E s 1"
  shows "xy_claim_at E i plen fn ud s = Some (fail_with XY_ERR_TOOBIG s)"
proof -
  note wf = readyD [OF s]
  have look: "region_lookup E s i plen = None"
    using new region_lookup_iff [OF wf(3)] by (cases "region_lookup E s i plen") auto
  have "plen \<noteq> 0"
  proof
    assume "plen = 0"
    with c(2) have "Region_Key i plen = root_key" by (simp add: root_key_def XY_REGION_ROOT_def)
    with new region_lookup_root [OF wf(1)] show False by auto
  qed
  then have pos: "0 < plen" by (simp add: word_gt_0)
  obtain p kp where p: "region_nearest_ancestor E s i plen = Some (Some p)" "r_key s p = Some kp"
    "kp < Region_Key i plen" using region_nearest_ancestor_greatest [OF wf(1) pos, of i] by blast
  obtain rp where rp: "regions s p = Some rp" "\<not> plen \<le> re_plen rp"
    using p(2,3) by (auto simp: r_key_def key_of_def region_key_def key_less_iff not_le)
  then show ?thesis using s c look mem p(1) by (simp add: xy_claim_at_def not_less)
qed

end
