(* ===== verification/Xy_Slot_Inv.thy ===== *)
theory Xy_Slot_Inv
  imports Xy_Claim_Inv
begin

text \<open>
  The free-slot search \<^verbatim>\<open>region_alloc_slot\<close>. While the child's width stays below 64 it returns the
  leftmost free slot of the parent, or the failure sentinel when there is none. At width 64 the
  slot counter is compared with 0 instead of \<open>2 ^ bits\<close>: the search then runs past the
  parent's slots, and what it returns lies outside the parent.
\<close>

section \<open>The loop\<close>

lemma alloc_loop_skip:
  assumes "\<And>j. j < m \<Longrightarrow> region_lookup E s (pid OR push_bit shift (word_of_nat j)) cplen \<noteq> None"
    and "\<And>j. 0 < j \<Longrightarrow> j \<le> m \<Longrightarrow> (word_of_nat j :: u64) \<noteq> num"
  shows "alloc_loop E s pid cplen shift num 0 = alloc_loop E s pid cplen shift num (word_of_nat m)"
  using assms
proof (induction m)
  case 0
  then show ?case by simp
next
  case (Suc m)
  have "alloc_loop E s pid cplen shift num 0 = alloc_loop E s pid cplen shift num (word_of_nat m)"
    using Suc.prems by (intro Suc.IH) auto
  also have "\<dots> = alloc_loop E s pid cplen shift num (word_of_nat m + 1)"
  proof -
    have "region_lookup E s (pid OR push_bit shift (word_of_nat m)) cplen \<noteq> None"
      using Suc.prems(1) by simp
    moreover have "(word_of_nat m + 1 :: u64) \<noteq> num"
      using Suc.prems(2) [of "Suc m"] by (simp add: add.commute)
    ultimately show ?thesis by (subst alloc_loop.simps) (auto simp: Let_def)
  qed
  finally show ?case by (simp add: add.commute)
qed

text \<open>The loop returns the first free candidate, or the sentinel after all of them.\<close>

lemma alloc_loop_first:
  assumes "m < 2 ^ 64"
    and "\<And>j. j < m \<Longrightarrow> region_lookup E s (pid OR push_bit shift (word_of_nat j)) cplen \<noteq> None"
    and "region_lookup E s (pid OR push_bit shift (word_of_nat m)) cplen = None"
    and "num = 0 \<or> m < unat num"
  shows "alloc_loop E s pid cplen shift num 0 = pid OR push_bit shift (word_of_nat m)"
proof -
  have "(word_of_nat j :: u64) \<noteq> num" if "0 < j" "j \<le> m" for j
  proof
    assume eq: "(word_of_nat j :: u64) = num"
    have "unat (word_of_nat j :: u64) = j"
      using that assms(1) by (simp add: unat_of_nat take_bit_eq_mod)
    with eq that assms(4) show False by auto
  qed
  then have "alloc_loop E s pid cplen shift num 0 =
      alloc_loop E s pid cplen shift num (word_of_nat m)"
    using assms(2) by (intro alloc_loop_skip)
  with assms(3) show ?thesis by (subst (asm) (2) alloc_loop.simps) (simp add: Let_def)
qed

lemma alloc_loop_full:
  assumes "num \<noteq> 0"
    and "\<And>j. j < unat num \<Longrightarrow>
      region_lookup E s (pid OR push_bit shift (word_of_nat j)) cplen \<noteq> None"
  shows "alloc_loop E s pid cplen shift num 0 = XY_REGION_INVALID"
proof -
  obtain m where m: "unat num = Suc m" using assms(1) by (cases "unat num") (auto simp: unat_eq_0)
  have lt: "unat num < 2 ^ 64" using unsigned_less [of num, where ?'a = nat] by simp
  have "(word_of_nat j :: u64) \<noteq> num" if "0 < j" "j \<le> m" for j
  proof
    assume eq: "(word_of_nat j :: u64) = num"
    have "unat (word_of_nat j :: u64) = j"
      using that lt m by (simp add: unat_of_nat take_bit_eq_mod)
    with eq that m show False by auto
  qed
  then have "alloc_loop E s pid cplen shift num 0 =
      alloc_loop E s pid cplen shift num (word_of_nat m)"
    using assms(2) m by (intro alloc_loop_skip) auto
  moreover have "(word_of_nat m + 1 :: u64) = num"
  proof -
    have "(word_of_nat (unat num) :: u64) = num" by simp
    then show ?thesis by (simp add: m add.commute)
  qed
  moreover have "region_lookup E s (pid OR push_bit shift (word_of_nat m)) cplen \<noteq> None"
    using assms(2) m by simp
  ultimately show ?thesis by (subst (asm) (2) alloc_loop.simps) (simp add: Let_def)
qed


section \<open>Candidates\<close>

text \<open>The slots of a parent at width \<open>plen + bits\<close>.\<close>

definition slot_id :: "xy_region_entry \<Rightarrow> u8 \<Rightarrow> nat \<Rightarrow> u64" where
  "slot_id parent bits j =
     re_id parent OR push_bit (64 - unat (re_plen parent + bits)) (word_of_nat j)"

lemma canonical_bit: "canonical k \<Longrightarrow> bit (rk_id k) n \<Longrightarrow> n < 64 \<and> 64 \<le> n + unat (rk_plen k)"
proof -
  assume c: "canonical k" and b: "bit (rk_id k) n"
  have "bit (rk_id k AND region_mask (rk_plen k)) n" using c b by (simp add: canonical_def)
  then show ?thesis by (simp add: bit_and_iff bit_region_mask)
qed

lemma plen_add:
  "unat (a :: u8) + unat b \<le> 64 \<Longrightarrow> unat (a + b) = unat a + unat b"
  by (simp add: unat_word_ariths)

lemma small_bit: "j < 2 ^ n \<Longrightarrow> bit (word_of_nat j :: u64) t \<Longrightarrow> t < n"
proof (rule ccontr)
  assume j: "j < 2 ^ n" and b: "bit (word_of_nat j :: u64) t" and "\<not> t < n"
  then have "j < 2 ^ t" by (meson less_le_trans not_less one_le_numeral power_increasing)
  then have "\<not> bit j t" by (simp add: bit_iff_odd)
  with b show False by (simp add: bit_of_nat_iff)
qed

lemma slot_id_inside:
  assumes c: "canonical (key_of parent)" and b: "0 < bits"
    "unat (re_plen parent) + unat bits \<le> 64" and j: "j < 2 ^ unat bits"
  shows "key_of parent < Region_Key (slot_id parent bits j) (re_plen parent + bits)"
    "canonical (Region_Key (slot_id parent bits j) (re_plen parent + bits))"
proof -
  note plen = plen_add [OF b(2)]
  have key: "rk_id (key_of parent) = re_id parent" "rk_plen (key_of parent) = re_plen parent"
    by (simp_all add: key_of_def region_key_def)
  have pbit: "bit (re_id parent) n \<Longrightarrow> n < 64 \<and> 64 \<le> n + unat (re_plen parent)" for n
    using canonical_bit [OF c] key by simp
  have bits: "bit (slot_id parent bits j) n \<longleftrightarrow>
      bit (re_id parent) n \<or>
      (n < 64 \<and> 64 - unat (re_plen parent + bits) \<le> n \<and>
       bit (word_of_nat j :: u64) (n - (64 - unat (re_plen parent + bits))))" for n
    by (auto simp: slot_id_def bit_simps)
  have "0 < unat bits" using b(1) by (simp add: word_less_nat_alt)
  then have "re_plen parent < re_plen parent + bits"
    using plen by (simp add: word_less_nat_alt)
  moreover have "slot_id parent bits j AND region_mask (re_plen parent) = re_id parent"
  proof (rule bit_word_eqI)
    fix n assume n: "n < LENGTH(64)"
    show "bit (slot_id parent bits j AND region_mask (re_plen parent)) n = bit (re_id parent) n"
      using pbit [of n] n plen b(2) small_bit [OF j, of "n - (64 - unat (re_plen parent + bits))"]
      by (auto simp: bit_and_iff bit_region_mask bits)
  qed
  ultimately show "key_of parent < Region_Key (slot_id parent bits j) (re_plen parent + bits)"
    by (simp add: less_xy_region_key_def key)
  have "slot_id parent bits j AND region_mask (re_plen parent + bits) = slot_id parent bits j"
  proof (rule bit_word_eqI)
    fix n assume n: "n < LENGTH(64)"
    show "bit (slot_id parent bits j AND region_mask (re_plen parent + bits)) n =
        bit (slot_id parent bits j) n"
      using pbit [of n] n plen by (auto simp: bit_and_iff bit_region_mask bits)
  qed
  then show "canonical (Region_Key (slot_id parent bits j) (re_plen parent + bits))"
    using plen b(2) by (simp add: canonical_def word_le_nat_alt)
qed

text \<open>Below width 64 no slot is the failure sentinel: its lowest bit is clear.\<close>

lemma slot_id_valid:
  assumes c: "canonical (key_of parent)" and b: "unat (re_plen parent) + unat bits < 64"
  shows "slot_id parent bits j \<noteq> XY_REGION_INVALID"
proof -
  have "\<not> bit (re_id parent) 0"
    using canonical_bit [OF c, of 0] b by (auto simp: key_of_def region_key_def)
  moreover have "0 < 64 - unat (re_plen parent + bits)" using plen_add b by simp
  ultimately have "\<not> bit (slot_id parent bits j) 0"
    by (simp add: slot_id_def bit_or_iff bit_push_bit_iff del: bit_0)
  then show ?thesis by (auto simp: XY_REGION_INVALID_def)
qed

text \<open>Every id inside the parent at that width is one of the slots.\<close>

lemma inside_is_slot:
  assumes c: "canonical (key_of parent)" and b: "unat (re_plen parent) + unat bits = 64"
    and less: "key_of parent < Region_Key i (re_plen parent + bits)"
  shows "\<exists>j < 2 ^ unat bits. i = slot_id parent bits j"
proof -
  have sum: "unat (re_plen parent + bits) = 64" using plen_add b by simp
  let ?j = "take_bit (unat bits) (unat i)"
  have id: "i AND region_mask (re_plen parent) = re_id parent"
    using less by (simp add: less_xy_region_key_def key_of_def region_key_def)
  have "i = slot_id parent bits ?j"
  proof (rule bit_word_eqI)
    fix n assume n: "n < LENGTH(64)"
    have "bit (re_id parent) n \<longleftrightarrow> bit i n \<and> 64 \<le> n + unat (re_plen parent)"
      using n by (auto simp: bit_and_iff bit_region_mask simp flip: id)
    moreover have "bit (word_of_nat ?j :: u64) n \<longleftrightarrow> n < unat bits \<and> bit i n"
      using n by (auto simp: bit_of_nat_iff bit_take_bit_iff bit_unsigned_iff)
    ultimately show "bit i n = bit (slot_id parent bits ?j) n"
      using n b sum by (auto simp: slot_id_def bit_or_iff bit_push_bit_iff)
  qed
  moreover have "?j < 2 ^ unat bits" by (simp add: take_bit_nat_less_exp)
  ultimately show ?thesis by blast
qed



section \<open>The search\<close>

definition taken :: "'h env \<Rightarrow> 'h xy_state \<Rightarrow> xy_region_entry \<Rightarrow> u8 \<Rightarrow> nat \<Rightarrow> bool" where
  "taken E s parent bits j \<longleftrightarrow>
     region_lookup E s (slot_id parent bits j) (re_plen parent + bits) \<noteq> None"

lemma first_free:
  assumes "\<not> taken E s parent bits m"
  obtains j where "j \<le> m" "\<not> taken E s parent bits j" "\<And>i. i < j \<Longrightarrow> taken E s parent bits i"
  using assms exists_least_iff [of "\<lambda>j. \<not> taken E s parent bits j"]
  by (metis not_le)

text \<open>The loop of the search, at both kinds of width.\<close>

lemma alloc_slot_loop:
  assumes "unat (re_plen parent) + unat bits \<le> 64"
  shows "region_alloc_slot E s parent bits =
     alloc_loop E s (re_id parent) (re_plen parent + bits)
       (64 - unat (re_plen parent + bits))
       (if unat (re_plen parent) + unat bits = 64 then 0 else 2 ^ unat bits) 0"
proof -
  note plen = plen_add [OF assms]
  have "re_plen parent + bits = 64 \<longleftrightarrow> unat (re_plen parent) + unat bits = 64"
    unfolding word_unat_eq_iff [of "re_plen parent + bits"] plen by simp
  then show ?thesis
    using plen assms by (auto simp: region_alloc_slot_def Let_def push_bit_eq_mult word_less_nat_alt)
qed

lemma unat_two_power: "n < 64 \<Longrightarrow> unat (2 ^ n :: u64) = 2 ^ n"
proof -
  assume "n < 64"
  then have "(2::nat) ^ n < 2 ^ 64" by (intro power_strict_increasing) auto
  moreover have "(2 ^ n :: u64) = word_of_nat (2 ^ n)" by simp
  ultimately show ?thesis by (simp only: unat_of_nat take_bit_eq_mod) simp
qed

lemma candidate_id: "re_id parent OR push_bit (64 - unat (re_plen parent + bits)) (word_of_nat j) =
    slot_id parent bits j"
  by (simp add: slot_id_def)

text \<open>Below width 64: the leftmost free slot, or the sentinel.\<close>

lemma alloc_slot_hit:
  assumes "unat (re_plen parent) + unat bits \<le> 64" "m < 2 ^ 64"
    and "unat (re_plen parent) + unat bits < 64 \<Longrightarrow> m < 2 ^ unat bits"
    and "\<And>j. j < m \<Longrightarrow> taken E s parent bits j" "\<not> taken E s parent bits m"
  shows "region_alloc_slot E s parent bits = slot_id parent bits m"
proof -
  let ?num = "if unat (re_plen parent) + unat bits = 64 then 0 else 2 ^ unat bits :: u64"
  have "?num = 0 \<or> m < unat ?num" using assms(1,3) by (auto simp: unat_two_power)
  then show ?thesis
    unfolding alloc_slot_loop [OF assms(1)] candidate_id [symmetric]
    using assms(2,4,5) by (intro alloc_loop_first) (auto simp: taken_def candidate_id)
qed

lemma alloc_slot_full:
  assumes b: "unat (re_plen parent) + unat bits < 64"
    and "\<And>j. j < 2 ^ unat bits \<Longrightarrow> taken E s parent bits j"
  shows "region_alloc_slot E s parent bits = XY_REGION_INVALID"
proof -
  have le: "unat (re_plen parent) + unat bits \<le> 64" using b by simp
  have n: "unat (2 ^ unat bits :: u64) = 2 ^ unat bits" using b by (simp add: unat_two_power)
  then have "(2 ^ unat bits :: u64) \<noteq> 0" by (metis power_not_zero unat_0 zero_neq_numeral)
  then show ?thesis
    unfolding alloc_slot_loop [OF le] using b assms(2) n
    by (auto intro!: alloc_loop_full simp: taken_def candidate_id)
qed

text \<open>Both outcomes of the search below width 64.\<close>

lemma alloc_slot_cases:
  assumes c: "canonical (key_of parent)" and b: "0 < bits" "unat (re_plen parent) + unat bits < 64"
  shows "(\<forall>j < 2 ^ unat bits. taken E s parent bits j) \<and> region_alloc_slot E s parent bits = XY_REGION_INVALID \<or>
     (\<exists>j < 2 ^ unat bits. \<not> taken E s parent bits j \<and> (\<forall>i < j. taken E s parent bits i) \<and>
        region_alloc_slot E s parent bits = slot_id parent bits j \<and> slot_id parent bits j \<noteq> XY_REGION_INVALID \<and>
        key_of parent < Region_Key (slot_id parent bits j) (re_plen parent + bits) \<and>
        canonical (Region_Key (slot_id parent bits j) (re_plen parent + bits)))"
proof (cases "\<forall>j < 2 ^ unat bits. taken E s parent bits j")
  case True
  then have "region_alloc_slot E s parent bits = XY_REGION_INVALID" using b(2) by (intro alloc_slot_full) auto
  with True show ?thesis by simp
next
  case False
  then obtain m where m: "m < 2 ^ unat bits" "\<not> taken E s parent bits m" by blast
  obtain j where j: "j \<le> m" "\<not> taken E s parent bits j" "\<And>i. i < j \<Longrightarrow> taken E s parent bits i"
    using first_free [OF m(2)] by blast
  have lt: "j < 2 ^ unat bits" using m(1) j(1) by simp
  also have "(2 :: nat) ^ unat bits \<le> 2 ^ 64" using b(2) by (intro power_increasing) auto
  finally have "region_alloc_slot E s parent bits = slot_id parent bits j"
    using b(2) j lt by (intro alloc_slot_hit) auto
  moreover have le: "unat (re_plen parent) + unat bits \<le> 64" using b(2) by simp
  ultimately show ?thesis
    using slot_id_inside [OF c b(1) le lt] slot_id_valid [OF c b(2)] j lt by blast
qed

end
