(* ===== verification/Xy_Instance.thy ===== *)
theory Xy_Instance
  imports Xy_Types "HOL-Library.AList"
begin

text \<open>
  A concrete environment: corm tables as association lists behind numbered handles, an
  allocator that never refuses, and small stand-ins for the host's and the modules' code. It
  satisfies the laws the development asks of the libraries the runtime calls, so that every
  theorem with such a hypothesis can be applied to a closed state.
\<close>

section \<open>Tables as association lists\<close>

record alist_corm =
  ac_next :: nat
  ac_single :: "nat \<Rightarrow> bool"
  ac_rows :: "nat \<Rightarrow> (corm_key \<times> corm_val) list"

definition list_corm :: "alist_corm corm" where
  "list_corm =
     \<lparr>corm_open = (\<lambda>h m. (Suc (ac_next h),
        h\<lparr>ac_next := Suc (ac_next h), ac_single := (ac_single h)(Suc (ac_next h) := \<not> m),
          ac_rows := (ac_rows h)(Suc (ac_next h) := [])\<rparr>)),
      corm_close = (\<lambda>h d. h\<lparr>ac_rows := (ac_rows h)(d := [])\<rparr>),
      corm_get = (\<lambda>h d. map_of (ac_rows h d)),
      corm_put = (\<lambda>h d k v. h\<lparr>ac_rows := (ac_rows h)(d := (k, v) #
        (if ac_single h d then AList.delete k (ac_rows h d) else ac_rows h d))\<rparr>),
      corm_del = (\<lambda>h d k. h\<lparr>ac_rows := (ac_rows h)(d := AList.delete k (ac_rows h d))\<rparr>),
      corm_del_all = (\<lambda>h d k. h\<lparr>ac_rows := (ac_rows h)(d := AList.delete k (ac_rows h d))\<rparr>),
      corm_iter = (\<lambda>h d k. case k of
          None \<Rightarrow> (if ac_single h d then AList.clearjunk (ac_rows h d) else ac_rows h d)
        | Some k \<Rightarrow> filter (\<lambda>e. fst e = k) (ac_rows h d)),
      corm_single = (\<lambda>h d. d \<le> ac_next h \<and> ac_single h d)\<rparr>"

lemma mem_clearjunk_iff: "(k, v) \<in> set (AList.clearjunk al) \<longleftrightarrow> map_of al k = Some v"
proof -
  have "distinct (map fst (AList.clearjunk al))" by (rule distinct_clearjunk)
  then have "(k, v) \<in> set (AList.clearjunk al) \<longleftrightarrow> map_of (AList.clearjunk al) k = Some v"
    by simp
  then show ?thesis by (simp add: map_of_clearjunk)
qed

lemma list_corm_ok: "corm_ok list_corm"
  unfolding corm_ok_def
  by (intro conjI allI impI)
     (auto simp: list_corm_def delete_conv' mem_clearjunk_iff distinct_clearjunk le_Suc_eq
       split: if_splits)


section \<open>A process that has not started the library\<close>

definition demo_env :: "alist_corm env" where
  "demo_env =
     \<lparr>env_corm = list_corm, stl_realpath = Some, getenv = (\<lambda>_. None),
      stl_dlsym = (\<lambda>h name. if name = ''on_tick'' then Some (1000 + h) else None),
      dlinfo_base = Some, dladdr_base = (\<lambda>f. Some (f - 1000)), malloc_ok = (\<lambda>_ _. True),
      run_hook = (\<lambda>_ _ _ _ s. Some s),
      run_scope = (\<lambda>_ _ s. Some (XY_OK, s\<lparr>xy_current_region_id := 7\<rparr>)),
      run_each = (\<lambda>_ _ _ _ s. Some (XY_OK, s)),
      run_claim = (\<lambda>_ _ _ _ s. Some (XY_OK, 4, s)),
      stl_dlopen = (\<lambda>path s. Some (map_option length path, s)), stl_mkstemps = (\<lambda>tmpl _. Some tmpl),
      copy_bytes = (\<lambda>_ _ _. True), call_get_xy = Some, call_abi = (\<lambda>_. 3 * 2 ^ 32 + 184),
      call_state_size = (\<lambda>_. 0), read_claim = (\<lambda>_. 4), run_install = (\<lambda>_. Some),
      run_cleanup = (\<lambda>_ _. Some)\<rparr>"

definition demo_start :: "alist_corm xy_state" where
  "demo_start =
     \<lparr>st_corm = \<lparr>ac_next = 0, ac_single = (\<lambda>_. False), ac_rows = (\<lambda>_. [])\<rparr>,
      regions = (\<lambda>_. None), mods = (\<lambda>_. None), ctxs = (\<lambda>_. None), adapters = (\<lambda>_. None),
      paths = (\<lambda>_. None), slot_arrays = (\<lambda>_. None), bufs = (\<lambda>_. None), next_addr = 1,
      xy_rt = \<lparr>mod_hd = 0, mod_by_region_hd = 0, sica_hd = 0, path_intern_hd = 0, region_hd = 0,
               hook_id_hd = 0, xy_hook_id_counter = 0, xy_adapter_by_id = [], xy_inited = False,
               xy_mod_count = 0\<rparr>,
      xy_global = xy_t_zero, xy_err_val = XY_OK, xy_last_ran = 0,
      xy_last_retbuf = replicate XY_MAX_RET_SIZE 0, xy_last_retp = None,
      xy_current_region_id = 0, xy_current_region_entry = None, xy_loading_mod = None,
      xy_pending_ctx = None, xy_reloading = False, dl_refs = (\<lambda>_. 0), tmp_files = []\<rparr>"

lemma demo_env_ok: "env_ok demo_env"
  by (simp add: env_ok_def demo_env_def list_corm_ok)

lemma demo_malloc_ok [simp]: "malloc_ok demo_env s n"
  by (simp add: demo_env_def)

end
