(* ===== verification/Xy_Region_Spec.thy ===== *)
theory Xy_Region_Spec
  imports Xy_Slot_Inv Xy_Instance
begin

text \<open>
  What the region API promises, as a contract on sets of identities, and the proof that the
  tree and the table implement it. The abstract state is the set of existing identities; a
  claim inserts one, and the cover of a point is the greatest identity that contains it. The
  client lemmas are proved once from the contract.
\<close>

section \<open>The contract\<close>

definition region_keys :: "'h xy_state \<Rightarrow> xy_region_key set" where
  "region_keys s = ran (r_key s)"

definition spec_claim ::
  "u64 \<Rightarrow> u8 \<Rightarrow> xy_region_key set \<Rightarrow> int \<times> xy_region_key set" where
  "spec_claim i plen K =
     (if 64 < plen then (XY_ERR_TOOBIG, K)
      else if i AND region_mask plen \<noteq> i then (XY_ERR_INVALID, K)
      else (XY_OK, insert (Region_Key i plen) K))"

lemma spec_claim_ok [simp]:
  "plen \<le> 64 \<Longrightarrow> i AND region_mask plen = i \<Longrightarrow>
   spec_claim i plen K = (XY_OK, insert (Region_Key i plen) K)"
  by (auto simp: spec_claim_def not_less)

text \<open>\<open>k\<close> contains or equals the point \<open>i\<close> seen at width \<open>plen\<close>.\<close>

definition covers :: "xy_region_key \<Rightarrow> u64 \<Rightarrow> u8 \<Rightarrow> bool" where
  "covers k i plen \<longleftrightarrow> rk_plen k \<le> plen \<and> i AND region_mask (rk_plen k) = rk_id k"

definition spec_cover :: "xy_region_key set \<Rightarrow> u64 \<Rightarrow> u8 \<Rightarrow> xy_region_key \<Rightarrow> bool" where
  "spec_cover K i plen k \<longleftrightarrow>
     k \<in> K \<and> covers k i plen \<and> (\<forall>k' \<in> K. covers k' i plen \<longrightarrow> k' \<le> k)"

lemma spec_cover_unique: "spec_cover K i plen k \<Longrightarrow> spec_cover K i plen k' \<Longrightarrow> k = k'"
  unfolding spec_cover_def by (meson order.antisym)

text \<open>A sequence of claims, in order; refused ones change nothing.\<close>

primrec run_claims ::
  "(u64 \<Rightarrow> u8 \<Rightarrow> 's \<Rightarrow> (int \<times> 's) option) \<Rightarrow> (u64 \<times> u8) list \<Rightarrow> 's \<Rightarrow> 's option" where
  "run_claims claim [] s = Some s"
| "run_claims claim (c # cs) s = do { (rc, t) \<leftarrow> claim (fst c) (snd c) s; run_claims claim cs t }"

definition accepted :: "(u64 \<times> u8) list \<Rightarrow> xy_region_key set" where
  "accepted cs = {Region_Key i p | i p. (i, p) \<in> set cs \<and> p \<le> 64 \<and> i AND region_mask p = i}"

locale region_store =
  fixes inv :: "'s \<Rightarrow> bool"
    and keys :: "'s \<Rightarrow> xy_region_key set"
    and claim :: "u64 \<Rightarrow> u8 \<Rightarrow> 's \<Rightarrow> (int \<times> 's) option"
    and cover :: "u64 \<Rightarrow> u8 \<Rightarrow> 's \<Rightarrow> ((u64 \<times> u8) \<times> 's) option"
  assumes claim_spec: "inv s \<Longrightarrow>
      \<exists>rc t. claim i plen s = Some (rc, t) \<and> inv t \<and> (rc, keys t) = spec_claim i plen (keys s)"
    and cover_spec: "inv s \<Longrightarrow> plen \<le> 64 \<Longrightarrow>
      \<exists>j p t. cover i plen s = Some ((j, p), t) \<and> inv t \<and> keys t = keys s \<and>
        spec_cover (keys s) i plen (Region_Key j p)"
begin

lemma claims_keys:
  "inv s \<Longrightarrow> \<exists>t. run_claims claim cs s = Some t \<and> inv t \<and> keys t = keys s \<union> accepted cs"
proof (induction cs arbitrary: s)
  case (Cons c cs)
  obtain i p where c: "c = (i, p)" by fastforce
  obtain rc t where t: "claim i p s = Some (rc, t)" "inv t"
    "(rc, keys t) = spec_claim i p (keys s)" using claim_spec [OF Cons.prems] by blast
  from Cons.IH [OF t(2)] obtain u where "run_claims claim cs t = Some u" "inv u"
    "keys u = keys t \<union> accepted cs" by blast
  with t c show ?case by (auto simp: spec_claim_def accepted_def not_less split: if_splits)
qed (simp add: accepted_def)

lemma cover_of_claimed:
  assumes "inv s" and "claim i plen s = Some (XY_OK, t)"
  shows "\<exists>u. cover i plen t = Some ((i, plen), u) \<and> keys u = keys t"
proof -
  from claim_spec [OF assms(1), of i plen] assms(2)
  have t: "inv t" "plen \<le> 64" "i AND region_mask plen = i" "Region_Key i plen \<in> keys t"
    by (auto simp: spec_claim_def xy_codes not_less split: if_splits)
  obtain j p u where u: "cover i plen t = Some ((j, p), u)" "keys u = keys t"
    "spec_cover (keys t) i plen (Region_Key j p)" using cover_spec [OF t(1,2), of i] by blast
  have "Region_Key i plen \<le> Region_Key j p"
    using u(3) t by (auto simp: spec_cover_def covers_def)
  then have "Region_Key j p = Region_Key i plen"
    using u(3) by (auto simp: spec_cover_def covers_def less_eq_xy_region_key_def key_less_iff)
  with u show ?thesis by simp
qed

end


section \<open>The tree implements it\<close>

lemma region_keys_iff: "k \<in> region_keys s \<longleftrightarrow> (\<exists>p. r_key s p = Some k)"
  by (simp add: region_keys_def ran_def)

lemma region_lookup_keys:
  "table_wf E s \<Longrightarrow> region_lookup E s i plen \<noteq> None \<longleftrightarrow> Region_Key i plen \<in> region_keys s"
  using region_lookup_iff [of E s i plen] by (auto simp: region_keys_iff)

lemma region_keys_set_err [simp]: "region_keys (set_err e s) = region_keys s"
  by (simp add: region_keys_def heap_simps)

lemma region_keys_grow:
  "r_key t = (r_key s)(p \<mapsto> k) \<Longrightarrow> r_key s p = None \<Longrightarrow> region_keys t = insert k (region_keys s)"
  by (simp add: region_keys_def)

lemma next_addr_unused: "tree_wf s \<Longrightarrow> r_key s (next_addr s) = None"
  using tree_key [of s "next_addr s"] by (cases "r_key s (next_addr s)") auto

text \<open>The states of a process whose allocator does not refuse.\<close>

definition store_inv :: "'h env \<times> 'h xy_state \<Rightarrow> bool" where
  "store_inv = (\<lambda>(E, s). env_ok E \<and> ready E s \<and> (\<forall>t n. malloc_ok E t n))"

definition store_claim ::
  "fnptr option \<Rightarrow> addr option \<Rightarrow> u64 \<Rightarrow> u8 \<Rightarrow> 'h env \<times> 'h xy_state \<Rightarrow>
     (int \<times> 'h env \<times> 'h xy_state) option" where
  "store_claim fn ud i plen = (\<lambda>(E, s). map_option (\<lambda>(rc, t). (rc, E, t)) (xy_claim_at E i plen fn ud s))"

definition store_cover ::
  "u64 \<Rightarrow> u8 \<Rightarrow> 'h env \<times> 'h xy_state \<Rightarrow> ((u64 \<times> u8) \<times> 'h env \<times> 'h xy_state) option" where
  "store_cover i plen = (\<lambda>(E, s). map_option (\<lambda>(r, t). (r, E, t)) (xy_region_at E i plen s))"

lemma claim_refines:
  assumes E: "env_ok E" and s: "ready E s" and mem: "malloc_ok E s 1"
  shows "\<exists>rc t. xy_claim_at E i plen fn ud s = Some (rc, t) \<and> ready E t \<and> xy_err_val t = rc \<and>
     (rc, region_keys t) = spec_claim i plen (region_keys s)"
proof -
  consider (bad) "plen > 64 \<or> i AND region_mask plen \<noteq> i"
    | (old) p where "plen \<le> 64" "i AND region_mask plen = i" "r_key s p = Some (Region_Key i plen)"
    | (new) "plen \<le> 64" "i AND region_mask plen = i" "\<And>p. r_key s p \<noteq> Some (Region_Key i plen)"
    by (meson not_le)
  then show ?thesis
  proof cases
    case bad
    with claim_at_rejects [OF s, of plen i fn ud] s show ?thesis
      by (auto simp: fail_with_def spec_claim_def heap_simps)
  next
    case (old p)
    let ?t = "if fn = None then s
      else upd_reg p (\<lambda>r. r\<lparr>re_claim_handler := fn, re_claim_handler_ud := ud\<rparr>) s"
    have "same_shape s ?t" by (simp add: upd_reg_shape shape_keeping_def)
    then have "region_keys (set_current_region i (Some p) ?t) = region_keys s"
      by (simp add: region_keys_def heap_simps same_shape_def del: if_split)
    moreover have "Region_Key i plen \<in> region_keys s" using old(3) by (auto simp: region_keys_iff)
    ultimately show ?thesis
      using claim_at_existing [OF s old, of fn ud] claim_at_existing_ready [OF s old(3), of fn ud] old
      by (auto simp: fail_with_def spec_claim_def heap_simps insert_absorb not_less)
  next
    case new
    obtain t p kp where t: "xy_claim_at E i plen fn ud s = Some (XY_OK, t)" "ready E t"
      "xy_err_val t = XY_OK" "r_key t = (r_key s)(next_addr s \<mapsto> Region_Key i plen)"
      using claim_at_new [OF E s new mem] by blast
    have "region_keys t = insert (Region_Key i plen) (region_keys s)"
      using t(4) next_addr_unused [OF readyD(2) [OF s]] by (rule region_keys_grow)
    with t new show ?thesis by (auto simp: spec_claim_def)
  qed
qed

lemma region_at_cover:
  assumes s: "ready E s" and plen: "plen \<le> 64"
  shows "\<exists>j p. xy_region_at E i plen s = Some ((j, p), set_err XY_OK s) \<and>
     spec_cover (region_keys s) i plen (Region_Key j p)"
proof -
  note wf = readyD [OF s]
  obtain root where root: "region_lookup E s XY_REGION_ROOT 0 = Some root"
    using region_lookup_root [OF wf(1)] by blast
  obtain q k where q: "region_find_cover_rec depth_fuel s i plen root None = Some (Some q)"
    "r_key s q = Some k" "covers k i plen"
    "\<And>q' k'. r_key s q' = Some k' \<Longrightarrow> covers k' i plen \<Longrightarrow> k' \<le> k"
    using region_find_cover_greatest [OF wf(1) root, of i plen] unfolding covers_def by blast
  obtain r where r: "regions s q = Some r" "k = Region_Key (re_id r) (re_plen r)"
    using q(2) by (auto simp: r_key_def key_of_def region_key_def)
  have "xy_region_at E i plen s = Some ((re_id r, re_plen r), set_err XY_OK s)"
    using s plen root q(1) r by (auto simp: xy_region_at_def not_less)
  moreover have "spec_cover (region_keys s) i plen k"
    using q by (auto simp: spec_cover_def region_keys_iff)
  ultimately show ?thesis using r by auto
qed

interpretation rs: region_store store_inv "\<lambda>(E, s). region_keys s" "store_claim fn ud" store_cover
proof unfold_locales
  fix s :: "'h env \<times> 'h xy_state" and i :: u64 and plen :: u8
  obtain E t where s: "s = (E, t)" by fastforce
  show "\<exists>rc u. store_claim fn ud i plen s = Some (rc, u) \<and> store_inv u \<and>
      (rc, (case u of (E, s) \<Rightarrow> region_keys s)) = spec_claim i plen (case s of (E, s) \<Rightarrow> region_keys s)"
    if "store_inv s"
    using claim_refines [of E t i plen fn ud] that s
    by (auto simp: store_inv_def store_claim_def)
  show "\<exists>j p u. store_cover i plen s = Some ((j, p), u) \<and> store_inv u \<and>
      (case u of (E, s) \<Rightarrow> region_keys s) = (case s of (E, s) \<Rightarrow> region_keys s) \<and>
      spec_cover (case s of (E, s) \<Rightarrow> region_keys s) i plen (Region_Key j p)"
    if "store_inv s" "plen \<le> 64"
    using region_at_cover [of E t plen i] that s
    by (auto simp: store_inv_def store_cover_def)
qed

lemma run_claims_store:
  "run_claims (store_claim fn ud) cs (E, s) =
     map_option (Pair E) (run_claims (\<lambda>i p. xy_claim_at E i p fn ud) cs s)"
  by (induction cs arbitrary: s)
     (auto simp: store_claim_def map_option_case split: option.splits Option.bind_splits)

end
