(* ===== verification/Xy_Region_Props.thy ===== *)
theory Xy_Region_Props
  imports Xy_Region_Spec
begin

text \<open>
  The properties of the region component: start-up, claims, covers, scopes, the ancestor walks
  and the free-slot search, each with its application to the demonstration environment.
\<close>

section \<open>Demonstration states\<close>

definition demo_boot :: "alist_corm xy_state" where
  "demo_boot = snd (the (xy_runtime_bootstrap demo_env demo_start))"

definition demo_claim :: "u64 \<Rightarrow> u8 \<Rightarrow> alist_corm xy_state \<Rightarrow> alist_corm xy_state" where
  "demo_claim i plen s = snd (the (xy_claim_at demo_env i plen None None s))"

lemma demo_pristine: "pristine demo_start"
  by (simp add: pristine_def demo_start_def)

lemma demo_start_fns [simp]: "cx_fns (xy_global demo_start) f = None"
  by (simp add: demo_start_def xy_t_zero_def)

lemma demo_boot_ready: "ready demo_env demo_boot" "region_keys demo_boot = {root_key}"
  using bootstrap_ready [OF demo_env_ok demo_pristine]
  by (auto simp: demo_boot_def region_keys_def)

lemma demo_claim_ready:
  assumes "ready demo_env s" "plen \<le> 64" "i AND region_mask plen = i"
  shows "ready demo_env (demo_claim i plen s)"
    "region_keys (demo_claim i plen s) = insert (Region_Key i plen) (region_keys s)"
proof -
  obtain t where "xy_claim_at demo_env i plen None None s = Some (XY_OK, t)" "ready demo_env t"
    "region_keys t = insert (Region_Key i plen) (region_keys s)"
    using claim_refines [OF demo_env_ok assms(1) demo_malloc_ok, of i plen None None] assms(2,3)
    by auto
  then show "ready demo_env (demo_claim i plen s)"
    "region_keys (demo_claim i plen s) = insert (Region_Key i plen) (region_keys s)"
    by (simp_all add: demo_claim_def)
qed


section \<open>Start-up\<close>

text \<open>
  C29. Starting the library in a process where it has not run returns \<^const>\<open>XY_OK\<close> and
  leaves a well-formed region tree whose only region is the root; every field of the host's table
  points to the function of its name, but for \<^verbatim>\<open>last\<close> and \<^verbatim>\<open>shutdown\<close>, which keep what they had.
\<close>

theorem bootstrap_establishes:
  assumes "env_ok E" "pristine s"
  shows "\<exists>s'. xy_runtime_ensure E s = Some (XY_OK, s') \<and> ready E s' \<and>
     region_keys s' = {root_key} \<and>
     cx_fns (xy_global s') =
       (\<lambda>f. if f \<in> {Api_last, Api_shutdown} then cx_fns (xy_global s) f else Some f)"
  using bootstrap_ready [OF assms] assms(2)
  by (auto simp: xy_runtime_ensure_def pristine_def region_keys_def bind_boot_fns)

theorem bootstrap_establishes_witness:
  "\<exists>s'. xy_runtime_ensure demo_env demo_start = Some (XY_OK, s') \<and> ready demo_env s' \<and>
     region_keys s' = {root_key} \<and>
     cx_fns (xy_global s') = (\<lambda>f. if f \<in> {Api_last, Api_shutdown} then None else Some f)"
  using bootstrap_establishes [OF demo_env_ok demo_pristine]
  by (simp cong: if_cong)


section \<open>Claims\<close>

text \<open>
  C2. In a started library, and when the allocator grants the new entry, \<^verbatim>\<open>xy_claim_at\<close>
  refines the insertion of an identity into the set of existing ones: it always returns, keeps the tree and table well-formed, reports its code in the error slot,
  refuses widths above 64 and ids with bits below their width without changing the set, and
  otherwise makes exactly the named region exist.
\<close>

theorem claim_at_refines_insert:
  assumes "env_ok E" "ready E s" "malloc_ok E s 1"
  shows "\<exists>rc s'. xy_claim_at E i plen fn ud s = Some (rc, s') \<and> ready E s' \<and>
     xy_err_val s' = rc \<and> (rc, region_keys s') = spec_claim i plen (region_keys s)"
  using claim_refines [OF assms] .

theorem claim_at_refines_insert_witness:
  "\<exists>rc s'. xy_claim_at demo_env 0 8 None None demo_boot = Some (rc, s') \<and> ready demo_env s' \<and>
     xy_err_val s' = rc \<and> (rc, region_keys s') = (XY_OK, {Region_Key 0 8, root_key})"
  using claim_at_refines_insert [OF demo_env_ok demo_boot_ready(1) demo_malloc_ok,
      of 0 8 None None]
  by (simp add: spec_claim_def demo_boot_ready(2))

text \<open>
  C19. A claim of a new identity creates one region, at a fresh address, whose parent is the
  greatest existing identity that contains it; every other region keeps its identity and its
  parent; the new region becomes the current one.
\<close>

theorem claim_at_new_parent:
  assumes "env_ok E" "ready E s" "plen \<le> 64" "i AND region_mask plen = i"
    and "Region_Key i plen \<notin> region_keys s" "malloc_ok E s 1"
  shows "\<exists>s' p kp. xy_claim_at E i plen fn ud s = Some (XY_OK, s') \<and>
     r_key s p = Some kp \<and> kp < Region_Key i plen \<and>
     (\<forall>k \<in> region_keys s. k < Region_Key i plen \<longrightarrow> k \<le> kp) \<and>
     regions s (next_addr s) = None \<and>
     r_key s' = (r_key s)(next_addr s \<mapsto> Region_Key i plen) \<and>
     r_parent s' = (r_parent s)(next_addr s \<mapsto> Some p) \<and>
     xy_current_region_entry s' = Some (next_addr s) \<and> xy_current_region_id s' = i"
proof -
  have new: "r_key s q \<noteq> Some (Region_Key i plen)" for q
    using assms(5) by (auto simp: region_keys_iff)
  have "regions s (next_addr s) = None"
    using next_addr_unused [OF readyD(2) [OF assms(2)]] by (simp add: r_key_def)
  then show ?thesis
    using claim_at_new [OF assms(1-4) new assms(6), of fn ud]
    unfolding region_keys_def ran_def by (elim exE conjE) (intro exI conjI; blast)
qed

theorem claim_at_new_parent_witness:
  "\<exists>s' p. xy_claim_at demo_env 0 8 None None demo_boot = Some (XY_OK, s') \<and>
     r_key demo_boot p = Some root_key \<and>
     r_parent s' = (r_parent demo_boot)(next_addr demo_boot \<mapsto> Some p)"
proof -
  have "Region_Key 0 8 \<notin> region_keys demo_boot" by (simp add: demo_boot_ready root_key_def)
  moreover have "r_key demo_boot p = Some kp \<Longrightarrow> kp = root_key" for p kp
    using demo_boot_ready(2) by (auto simp: region_keys_def ran_def)
  ultimately show ?thesis
    using claim_at_new_parent [OF demo_env_ok demo_boot_ready(1), of 8 0 None None]
    by (simp del: fun_upd_apply) blast
qed

text \<open>
  When the allocator refuses the entry of a new region, \<^verbatim>\<open>xy_claim_at\<close> reports
  \<^const>\<open>XY_ERR_TOOBIG\<close> and changes nothing but the error slot.
\<close>

theorem claim_at_out_of_memory:
  assumes "ready E s" "plen \<le> 64" "i AND region_mask plen = i"
    and "Region_Key i plen \<notin> region_keys s" "\<not> malloc_ok E s 1"
  shows "xy_claim_at E i plen fn ud s = Some (XY_ERR_TOOBIG, set_err XY_ERR_TOOBIG s)"
  using claim_at_no_memory [OF assms(1-3) _ assms(5), of fn ud] assms(4)
  by (auto simp: region_keys_iff fail_with_def)

theorem claim_at_out_of_memory_witness:
  "xy_claim_at (demo_env\<lparr>malloc_ok := (\<lambda>_ _. False)\<rparr>) 0 8 None None demo_boot =
     Some (XY_ERR_TOOBIG, set_err XY_ERR_TOOBIG demo_boot)"
proof (rule claim_at_out_of_memory)
  show "ready (demo_env\<lparr>malloc_ok := (\<lambda>_ _. False)\<rparr>) demo_boot"
    using demo_boot_ready(1) by (simp add: ready_def region_wf_def table_wf_def tbl_get_def tbl_single_def)
  show "Region_Key 0 8 \<notin> region_keys demo_boot" by (simp add: demo_boot_ready root_key_def)
qed simp_all

text \<open>
  After any sequence of claims the existing regions are the old ones and the accepted ones,
  whatever the order of the claims: the set does not depend on it.
\<close>

theorem claims_any_order:
  assumes "env_ok E" "ready E s" "\<And>t n. malloc_ok E t n" "set cs = set cs'"
  shows "\<exists>t t'. run_claims (\<lambda>i p. xy_claim_at E i p fn ud) cs s = Some t \<and>
     run_claims (\<lambda>i p. xy_claim_at E i p fn ud) cs' s = Some t' \<and> ready E t \<and> ready E t' \<and>
     region_keys t = region_keys s \<union> accepted cs \<and> region_keys t' = region_keys t"
proof -
  have "store_inv (E, s)" using assms by (auto simp: store_inv_def)
  from rs.claims_keys [OF this, of fn ud cs] rs.claims_keys [OF this, of fn ud cs'] assms(4)
  show ?thesis by (auto simp: run_claims_store store_inv_def accepted_def)
qed

theorem claims_any_order_witness:
  "\<exists>t t'. run_claims (\<lambda>i p. xy_claim_at demo_env i p None None) [(0, 8), (0, 16)] demo_boot = Some t \<and>
     run_claims (\<lambda>i p. xy_claim_at demo_env i p None None) [(0, 16), (0, 8)] demo_boot = Some t' \<and>
     region_keys t = {root_key} \<union> accepted [(0, 8), (0, 16)] \<and> region_keys t' = region_keys t"
  using claims_any_order [OF demo_env_ok demo_boot_ready(1) demo_malloc_ok,
      of "[(0, 8), (0, 16)]" "[(0, 16), (0, 8)]" None None]
  by (simp add: demo_boot_ready insert_commute) blast


section \<open>Covers\<close>

text \<open>
  C5. For every width up to 64 \<^verbatim>\<open>xy_region_at\<close> returns the one region of the whole tree that is
  the deepest among those that contain the point, and changes nothing but the error slot.
\<close>

theorem region_at_deepest:
  assumes "ready E s" "plen \<le> 64"
  shows "\<exists>j p. xy_region_at E i plen s = Some ((j, p), set_err XY_OK s) \<and>
     Region_Key j p \<in> region_keys s \<and> covers (Region_Key j p) i plen \<and>
     (\<forall>k \<in> region_keys s. covers k i plen \<longrightarrow> k \<le> Region_Key j p)"
  using region_at_cover [OF assms, of i] by (simp add: spec_cover_def)

theorem region_at_deepest_witness:
  "\<exists>j p. xy_region_at demo_env 5 16 demo_boot = Some ((j, p), set_err XY_OK demo_boot) \<and>
     Region_Key j p = root_key"
  using region_at_deepest [OF demo_boot_ready(1), of 16 5] by (auto simp: demo_boot_ready)

text \<open>
  Round trip: once a claim of \<open>(i, plen)\<close> has succeeded, the cover of that point at that
  width is the claimed region itself.
\<close>

theorem claim_then_region_at:
  assumes "env_ok E" "ready E s" "\<And>t n. malloc_ok E t n"
    and "xy_claim_at E i plen fn ud s = Some (XY_OK, t)"
  shows "\<exists>u. xy_region_at E i plen t = Some ((i, plen), u) \<and> region_keys u = region_keys t"
proof -
  have "store_inv (E, s)" using assms by (auto simp: store_inv_def)
  from rs.cover_of_claimed [OF this, of fn ud i plen "(E, t)"] assms(4) show ?thesis
    by (auto simp: store_claim_def store_cover_def)
qed

theorem claim_then_region_at_witness:
  "\<exists>t u. xy_claim_at demo_env 0 8 None None demo_boot = Some (XY_OK, t) \<and>
     xy_region_at demo_env 0 8 t = Some ((0, 8), u)"
  using claim_refines [OF demo_env_ok demo_boot_ready(1) demo_malloc_ok, of 0 8 None None]
    claim_then_region_at [OF demo_env_ok demo_boot_ready(1) demo_malloc_ok, of 0 8 None None]
  by auto

text \<open>
  \<^verbatim>\<open>xy_region_exists\<close> answers \<^const>\<open>XY_OK\<close> for exactly the existing identities, id and
  width both, and \<^const>\<open>XY_ERR_NOTFOUND\<close> for all others.
\<close>

theorem region_exists_iff:
  assumes "ready E s"
  shows "xy_region_exists E i plen s =
     Some (fail_with (if Region_Key i plen \<in> region_keys s then XY_OK else XY_ERR_NOTFOUND) s)"
  using assms region_lookup_keys [OF readyD(3) [OF assms], of i plen]
  by (auto simp: xy_region_exists_def)

theorem region_exists_iff_witness:
  "xy_region_exists demo_env 0 0 demo_boot = Some (XY_OK, set_err XY_OK demo_boot) \<and>
   xy_region_exists demo_env 0 8 demo_boot = Some (XY_ERR_NOTFOUND, set_err XY_ERR_NOTFOUND demo_boot)"
  using region_exists_iff [OF demo_boot_ready(1), of 0 0]
    region_exists_iff [OF demo_boot_ready(1), of 0 8]
  by (simp add: demo_boot_ready root_key_def XY_REGION_ROOT_def fail_with_def)


section \<open>Scopes\<close>

text \<open>
  \<^verbatim>\<open>xy_with_region\<close> runs the function with the named region current and then puts the
  caller's region back, whatever the function did to it; nothing else of the function's effect
  is undone, and its return value is the result and the error code. A missing function or
  region is refused and nothing runs.
\<close>

theorem with_region_restores:
  assumes "ready E s" "r_key s p = Some (Region_Key i plen)"
    and "run_scope E f ud (set_current_region i (Some p) s) = Some (ret, s1)"
  shows "\<exists>s'. xy_with_region E i plen (Some f) ud s = Some (ret, s') \<and>
     xy_current_region_id s' = xy_current_region_id s \<and>
     xy_current_region_entry s' = xy_current_region_entry s \<and>
     xy_err_val s' = ret \<and> regions s' = regions s1 \<and> mods s' = mods s1 \<and> st_corm s' = st_corm s1 \<and>
     xy_with_region E i plen None ud s = Some (fail_with XY_ERR_INVALID s)"
proof -
  have "region_lookup E s i plen = Some p"
    using assms(2) readyD(3) [OF assms(1)] by (simp add: region_lookup_iff)
  then show ?thesis using assms by (simp add: xy_with_region_def heap_simps)
qed

theorem with_region_restores_witness:
  "\<exists>s'. xy_with_region demo_env 0 0 (Some 5) None demo_boot = Some (XY_OK, s') \<and>
     xy_current_region_id s' = xy_current_region_id demo_boot"
proof -
  obtain p where p: "r_key demo_boot p = Some (Region_Key 0 0)"
    using demo_boot_ready(2) by (auto simp: region_keys_def ran_def root_key_def XY_REGION_ROOT_def)
  have "run_scope demo_env 5 None (set_current_region 0 (Some p) demo_boot) =
      Some (XY_OK, (set_current_region 0 (Some p) demo_boot)\<lparr>xy_current_region_id := 7\<rparr>)"
    by (simp add: demo_env_def)
  from with_region_restores [OF demo_boot_ready(1) p this] show ?thesis by auto
qed


section \<open>Ancestor walks\<close>

text \<open>
  With room for 65 entries \<^verbatim>\<open>region_ancestor_chain\<close> returns the whole path from the root to
  the region, root first: no ancestor is cut off, since a path has at most 65 regions. Each
  entry is the parent of the next, and identities only grow along the path.
\<close>

theorem ancestor_chain_complete:
  assumes "region_wf E s" "r_key s p = Some k"
  shows "\<exists>es. region_ancestor_chain s p 65 = Some es \<and> es \<noteq> [] \<and> length es \<le> 65 \<and>
     r_key s (hd es) = Some root_key \<and> last es = p \<and>
     chain (r_parent s) (Some p) (rev es) \<and>
     (\<forall>q \<in> set es. \<exists>k'. r_key s q = Some k' \<and> k' \<le> k)"
proof -
  have wf: "tree_wf s" using assms(1) by (simp add: region_wf_def)
  note anc = ancestors_chain [OF wf assms(2)] ancestors_last [OF wf assms(2)]
  have "hd (ancestors s p) = p" using anc(1) by (auto simp: chain_Some)
  with anc region_ancestor_chain_eq [OF wf assms(2), of 65] ancestors_contain [OF wf assms(2)]
  show ?thesis by (auto simp: hd_rev last_rev)
qed

theorem ancestor_chain_complete_witness:
  "\<exists>p es. r_key demo_boot p = Some root_key \<and> region_ancestor_chain demo_boot p 65 = Some es \<and>
     last es = p"
proof -
  obtain p where p: "r_key demo_boot p = Some root_key"
    using demo_boot_ready(2) by (auto simp: region_keys_def ran_def)
  with ancestor_chain_complete [OF readyD(1) [OF demo_boot_ready(1)] p] show ?thesis by blast
qed

text \<open>
  \<^verbatim>\<open>region_mark_subtree_dirty\<close> returns, marks the region and its ancestors dirty and gives
  each of them a new, non-zero dispatch generation (1 after the largest), and touches no other
  region: every cached vector that contains the region is invalidated and no other.
\<close>

theorem mark_subtree_dirty_exact:
  assumes "region_wf E s" "r_key s p = Some k"
  shows "\<exists>s'. region_mark_subtree_dirty (Some p) s = Some s' \<and> region_wf E s' \<and>
     (\<forall>q r. regions s q = Some r \<longrightarrow>
        (if q \<in> set (ancestors s p)
         then regions s' q = Some (r\<lparr>re_subtree_mods_dirty := True,
                re_dispatch_gen := (if re_dispatch_gen r = - 1 then 1 else re_dispatch_gen r + 1)\<rparr>) \<and>
              re_dispatch_gen (the (regions s' q)) \<noteq> re_dispatch_gen r
         else regions s' q = Some r))"
proof -
  have wf: "tree_wf s" using assms(1) by (simp add: region_wf_def)
  have bump: "mark_dirty (bump_gen r) = r\<lparr>re_subtree_mods_dirty := True,
      re_dispatch_gen := (if re_dispatch_gen r = - 1 then 1 else re_dispatch_gen r + 1)\<rparr>" for r
    by (auto simp: mark_dirty_def bump_gen_def Let_def eq_neg_iff_add_eq_0)
  show ?thesis
    using region_mark_subtree_dirty_eq [OF wf assms(2)] region_wf_mark [OF assms(1)]
    by (auto simp: heap_simps bump)
qed

theorem mark_subtree_dirty_exact_witness:
  "\<exists>p s'. r_key demo_boot p = Some root_key \<and>
     region_mark_subtree_dirty (Some p) demo_boot = Some s' \<and> region_wf demo_env s'"
proof -
  obtain p where p: "r_key demo_boot p = Some root_key"
    using demo_boot_ready(2) by (auto simp: region_keys_def ran_def)
  with mark_subtree_dirty_exact [OF readyD(1) [OF demo_boot_ready(1)] p] show ?thesis by blast
qed


section \<open>Free slots\<close>

text \<open>
  C15. Below width 64 \<^verbatim>\<open>region_alloc_slot\<close> returns the leftmost free slot of the parent, which is
  a well-formed identity strictly inside the parent that no region has; it returns the failure
  sentinel exactly when all \<open>2 ^ bits\<close> slots are taken.
\<close>

theorem alloc_slot_leftmost:
  assumes "canonical (key_of parent)" "0 < bits" "unat (re_plen parent) + unat bits < 64"
  shows "(region_alloc_slot E s parent bits = XY_REGION_INVALID \<longleftrightarrow>
       (\<forall>j < 2 ^ unat bits. taken E s parent bits j)) \<and>
     (\<forall>i. region_alloc_slot E s parent bits = i \<and> i \<noteq> XY_REGION_INVALID \<longrightarrow>
       (\<exists>j < 2 ^ unat bits. i = slot_id parent bits j \<and> \<not> taken E s parent bits j \<and>
          (\<forall>j' < j. taken E s parent bits j')) \<and>
       key_of parent < Region_Key i (re_plen parent + bits) \<and>
       canonical (Region_Key i (re_plen parent + bits)))"
  using alloc_slot_cases [OF assms, of E s]
proof (elim disjE exE conjE)
  fix j assume "j < 2 ^ unat bits" "\<not> taken E s parent bits j" "\<forall>i < j. taken E s parent bits i"
    "region_alloc_slot E s parent bits = slot_id parent bits j" "slot_id parent bits j \<noteq> XY_REGION_INVALID"
    "key_of parent < Region_Key (slot_id parent bits j) (re_plen parent + bits)"
    "canonical (Region_Key (slot_id parent bits j) (re_plen parent + bits))"
  then show ?thesis by auto
qed simp

theorem alloc_slot_leftmost_witness:
  "region_alloc_slot demo_env demo_start region_zero 4 \<noteq> XY_REGION_INVALID"
proof -
  have "canonical (key_of region_zero)"
    by (simp add: canonical_def key_of_def region_key_def region_zero_def)
  moreover have "\<not> taken demo_env demo_start region_zero 4 0"
    by (simp add: taken_def region_lookup_def tbl_get_def demo_env_def demo_start_def list_corm_def)
  moreover have "unat (re_plen region_zero) + unat (4 :: u8) < 64" by (simp add: region_zero_def)
  ultimately show ?thesis
    using alloc_slot_leftmost [of region_zero 4 demo_env demo_start] by fastforce
qed

text \<open>
  C34. At width 64 the slot count is stored as 0, so the search does not stop after the
  parent's last slot: when all \<open>2 ^ bits\<close> slots of the parent are taken it goes on and returns
  an id that is \<^emph>\<open>not\<close> inside the parent, instead of the failure sentinel.
\<close>

theorem alloc_slot_escapes_parent:
  assumes "canonical (key_of parent)" "unat (re_plen parent) + unat bits = 64"
    and "\<And>j. j < 2 ^ unat bits \<Longrightarrow> taken E s parent bits j"
    and "m < 2 ^ 64" "\<not> taken E s parent bits m"
  shows "\<exists>i. region_alloc_slot E s parent bits = i \<and> region_lookup E s i 64 = None \<and>
     \<not> key_of parent < Region_Key i 64"
proof -
  obtain j where j: "j \<le> m" "\<not> taken E s parent bits j" "\<And>i. i < j \<Longrightarrow> taken E s parent bits i"
    using first_free [OF assms(5)] by blast
  have hit: "region_alloc_slot E s parent bits = slot_id parent bits j"
    using assms(2,4) j by (intro alloc_slot_hit) auto
  have w: "re_plen parent + bits = 64"
    unfolding word_unat_eq_iff [of "re_plen parent + bits"] using plen_add assms(2) by simp
  have "\<not> key_of parent < Region_Key (slot_id parent bits j) 64"
  proof
    assume "key_of parent < Region_Key (slot_id parent bits j) 64"
    then obtain j' where "j' < 2 ^ unat bits" "slot_id parent bits j = slot_id parent bits j'"
      using inside_is_slot [OF assms(1,2)] w by metis
    with assms(3) [of j'] j(2) show False by (simp add: taken_def)
  qed
  with hit j(2) w show ?thesis by (auto simp: taken_def)
qed

definition demo_full :: "alist_corm xy_state" where
  "demo_full = demo_claim 1 64 (demo_claim 0 64 (demo_claim 0 63 demo_boot))"

lemma demo_full_ready:
  "ready demo_env demo_full"
  "region_keys demo_full = {Region_Key 1 64, Region_Key 0 64, Region_Key 0 63, root_key}"
  by (simp_all add: demo_full_def demo_claim_ready demo_boot_ready)

theorem alloc_slot_escapes_parent_witness:
  "\<exists>i. region_alloc_slot demo_env demo_full (region_zero\<lparr>re_plen := 63\<rparr>) 1 = i \<and>
     region_lookup demo_env demo_full i 64 = None \<and> \<not> Region_Key 0 63 < Region_Key i 64"
proof -
  let ?p = "region_zero\<lparr>re_plen := 63\<rparr>"
  have taken: "taken demo_env demo_full ?p 1 j \<longleftrightarrow>
      Region_Key (slot_id ?p 1 j) 64 \<in> region_keys demo_full" for j
    using region_lookup_keys [OF readyD(3) [OF demo_full_ready(1)]] by (simp add: taken_def)
  have slot: "slot_id ?p 1 j = word_of_nat j" for j
    by (simp add: slot_id_def region_zero_def)
  have key: "key_of ?p = Region_Key 0 63"
    by (simp add: key_of_def region_key_def region_zero_def)
  have "taken demo_env demo_full ?p 1 j" if "j < 2 ^ unat (1 :: u8)" for j
    using that by (auto simp: taken slot demo_full_ready less_2_cases_iff)
  moreover have "\<not> taken demo_env demo_full ?p 1 2"
    by (simp add: taken slot demo_full_ready root_key_def XY_REGION_ROOT_def)
  ultimately show ?thesis
    using alloc_slot_escapes_parent [of ?p 1 demo_env demo_full 2] unfolding key
    by (simp add: canonical_def region_zero_def)
qed

end
