(* ===== verification/Xy_Modlist.thy ===== *)
theory Xy_Modlist
  imports Xy_Claim_Inv
begin

text \<open>
  The module list of a region, from \<^verbatim>\<open>src/libxylem.c\<close>: a doubly linked list with head and tail
  in the region entry, threaded through \<^verbatim>\<open>region_next\<close> / \<^verbatim>\<open>region_prev\<close> of the module entries.
  The lemmas show that detaching, inserting and appending refine the list operations, leave
  the lists of other regions alone, and mark the region's ancestors dirty.
\<close>

section \<open>The operations\<close>

text \<open>A store through a pointer: the cell must be allocated.\<close>

definition wr_mod :: "mptr \<Rightarrow> (xy_mod_entry \<Rightarrow> xy_mod_entry) \<Rightarrow> 'h xy_state \<Rightarrow> 'h xy_state option" where
  "wr_mod m f s = (if mods s m = None then None else Some (upd_mod m f s))"

definition wr_reg :: "rptr \<Rightarrow> (xy_region_entry \<Rightarrow> xy_region_entry) \<Rightarrow> 'h xy_state \<Rightarrow> 'h xy_state option" where
  "wr_reg p f s = (if regions s p = None then None else Some (upd_reg p f s))"

definition module_region_detach :: "mptr option \<Rightarrow> 'h xy_state \<Rightarrow> 'h xy_state option" where
  "module_region_detach entry s =
     (case entry of
        None \<Rightarrow> Some s
      | Some m \<Rightarrow>
          do { e \<leftarrow> mods s m;
               case me_region_entry e of
                 None \<Rightarrow> Some s
               | Some re \<Rightarrow>
                   do { s1 \<leftarrow> (case me_region_prev e of
                          Some p \<Rightarrow> wr_mod p (\<lambda>x. x\<lparr>me_region_next := me_region_next e\<rparr>) s
                        | None \<Rightarrow> wr_reg re (\<lambda>r. r\<lparr>re_mods_head := me_region_next e\<rparr>) s);
                        s2 \<leftarrow> (case me_region_next e of
                          Some n \<Rightarrow> wr_mod n (\<lambda>x. x\<lparr>me_region_prev := me_region_prev e\<rparr>) s1
                        | None \<Rightarrow> wr_reg re (\<lambda>r. r\<lparr>re_mods_tail := me_region_prev e\<rparr>) s1);
                        s3 \<leftarrow> wr_mod m (\<lambda>x. x\<lparr>me_region_prev := None, me_region_next := None\<rparr>) s2;
                        region_mark_subtree_dirty (Some re) s3 } })"

definition module_region_insert_after ::
  "rptr option \<Rightarrow> mptr option \<Rightarrow> mptr option \<Rightarrow> 'h xy_state \<Rightarrow> 'h xy_state option" where
  "module_region_insert_after re entry after s =
     (case (re, entry) of
        (Some p, Some m) \<Rightarrow>
          do { s1 \<leftarrow> wr_mod m (\<lambda>x. x\<lparr>me_region_entry := Some p\<rparr>) s;
               s4 \<leftarrow> (case after of
                 None \<Rightarrow>
                   do { r \<leftarrow> regions s1 p;
                        s2 \<leftarrow> wr_mod m (\<lambda>x. x\<lparr>me_region_prev := None,
                                 me_region_next := re_mods_head r\<rparr>) s1;
                        s3 \<leftarrow> (case re_mods_head r of
                          Some h \<Rightarrow> wr_mod h (\<lambda>x. x\<lparr>me_region_prev := Some m\<rparr>) s2
                        | None \<Rightarrow> wr_reg p (\<lambda>r. r\<lparr>re_mods_tail := Some m\<rparr>) s2);
                        wr_reg p (\<lambda>r. r\<lparr>re_mods_head := Some m\<rparr>) s3 }
               | Some a \<Rightarrow>
                   do { ea \<leftarrow> mods s1 a;
                        s2 \<leftarrow> wr_mod m (\<lambda>x. x\<lparr>me_region_prev := Some a,
                                 me_region_next := me_region_next ea\<rparr>) s1;
                        s3 \<leftarrow> (case me_region_next ea of
                          Some n \<Rightarrow> wr_mod n (\<lambda>x. x\<lparr>me_region_prev := Some m\<rparr>) s2
                        | None \<Rightarrow> wr_reg p (\<lambda>r. r\<lparr>re_mods_tail := Some m\<rparr>) s2);
                        wr_mod a (\<lambda>x. x\<lparr>me_region_next := Some m\<rparr>) s3 });
               region_mark_subtree_dirty (Some p) s4 }
      | _ \<Rightarrow> Some s)"

definition module_region_append :: "rptr option \<Rightarrow> mptr option \<Rightarrow> 'h xy_state \<Rightarrow> 'h xy_state option" where
  "module_region_append re entry s =
     do { tail \<leftarrow> (case re of None \<Rightarrow> Some None
                  | Some p \<Rightarrow> do { r \<leftarrow> regions s p; Some (re_mods_tail r) });
          module_region_insert_after re entry tail s }"


section \<open>The list a region holds\<close>

definition mod_prev :: "'h xy_state \<Rightarrow> mptr \<Rightarrow> mptr option option" where
  "mod_prev s m = map_option me_region_prev (mods s m)"

definition mod_region :: "'h xy_state \<Rightarrow> mptr \<Rightarrow> rptr option option" where
  "mod_region s m = map_option me_region_entry (mods s m)"

text \<open>Forwards from the head and backwards from the tail the links spell the same list.\<close>

definition mods_of :: "'h xy_state \<Rightarrow> rptr \<Rightarrow> mptr list \<Rightarrow> bool" where
  "mods_of s p ms \<longleftrightarrow>
     (\<exists>r. regions s p = Some r \<and>
        chain (mod_next s) (re_mods_head r) ms \<and> chain (mod_prev s) (re_mods_tail r) (rev ms)) \<and>
     (\<forall>m \<in> set ms. mod_region s m = Some (Some p))"

lemma mods_of_unique: "mods_of s p ms \<Longrightarrow> mods_of s p ms' \<Longrightarrow> ms = ms'"
  by (auto simp: mods_of_def dest: chain_unique)

lemma mods_of_distinct: "mods_of s p ms \<Longrightarrow> distinct ms"
  by (auto simp: mods_of_def dest: chain_distinct)

lemma mods_of_disjoint: "mods_of s p ms \<Longrightarrow> mods_of s q ns \<Longrightarrow> p \<noteq> q \<Longrightarrow> set ms \<inter> set ns = {}"
  by (auto simp: mods_of_def)

text \<open>The region part of the state only changes in the head and tail fields.\<close>

lemma wr_mod_Some [simp]: "mods s m \<noteq> None \<Longrightarrow> wr_mod m f s = Some (upd_mod m f s)"
  by (simp add: wr_mod_def)

lemma wr_reg_Some [simp]: "regions s p \<noteq> None \<Longrightarrow> wr_reg p f s = Some (upd_reg p f s)"
  by (simp add: wr_reg_def)

text \<open>What detaching does before the dirty marks, as one update of both heaps.\<close>

definition unlinked :: "rptr \<Rightarrow> mptr \<Rightarrow> mptr list \<Rightarrow> mptr list \<Rightarrow> 'h xy_state \<Rightarrow> 'h xy_state" where
  "unlinked p m xs ys s = s\<lparr>
     mods := (\<lambda>q. map_option (\<lambda>x.
       if q = m then x\<lparr>me_region_prev := None, me_region_next := None\<rparr>
       else x\<lparr>me_region_next := (if xs \<noteq> [] \<and> q = last xs then first ys else me_region_next x),
              me_region_prev := (if ys \<noteq> [] \<and> q = hd ys then first (rev xs) else me_region_prev x)\<rparr>)
       (mods s q)),
     regions := (regions s)(p := map_option (\<lambda>r. r\<lparr>
       re_mods_head := (if xs = [] then first ys else re_mods_head r),
       re_mods_tail := (if ys = [] then first (rev xs) else re_mods_tail r)\<rparr>)
       (regions s p))\<rparr>"

lemmas detach_defs = module_region_detach_def wr_reg_def wr_mod_def
lemmas unlinked_defs = unlinked_def upd_mod_def upd_reg_def fun_eq_iff map_option_case

lemma mods_of_at:
  assumes "mods_of s p (xs @ m # ys)"
  obtains r e where "regions s p = Some r" "mods s m = Some e" "me_region_entry e = Some p"
    "me_region_next e = first ys" "me_region_prev e = first (rev xs)"
    "re_mods_head r = first (xs @ [m])" "re_mods_tail r = first (rev (m # ys))"
proof -
  from assms obtain r where r: "regions s p = Some r"
    "chain (mod_next s) (re_mods_head r) (xs @ m # ys)"
    "chain (mod_prev s) (re_mods_tail r) (rev ys @ m # rev xs)"
    "mod_region s m = Some (Some p)" by (auto simp: mods_of_def)
  with chain_at [OF r(2)] chain_at [OF r(3)] chain_first [OF r(2)] chain_first [OF r(3)] that
  show thesis by (auto simp: mod_next_def mod_prev_def mod_region_def split: if_splits)
qed

lemma mods_of_mem: "mods_of s p ms \<Longrightarrow> m \<in> set ms \<Longrightarrow> mods s m \<noteq> None"
  by (auto simp: mods_of_def mod_region_def)

lemma detach_unlinked:
  assumes "mods_of s p (xs @ m # ys)"
  shows "module_region_detach (Some m) s = region_mark_subtree_dirty (Some p) (unlinked p m xs ys s)"
proof -
  obtain r e where f: "regions s p = Some r" "mods s m = Some e" "me_region_entry e = Some p"
    "me_region_next e = first ys" "me_region_prev e = first (rev xs)"
    using mods_of_at [OF assms] by blast
  have d: "distinct (xs @ m # ys)" using assms by (rule mods_of_distinct)
  have alloc: "\<And>x. x \<in> set (xs @ m # ys) \<Longrightarrow> mods s x \<noteq> None"
    using mods_of_mem [OF assms] by blast
  note eqI = arg_cong [of _ _ "region_mark_subtree_dirty (Some p)"]
  show ?thesis
  proof (cases xs rule: rev_cases; cases ys)
    show ?thesis if "xs = []" "ys = []"
      using that f by (simp add: detach_defs heap_simps) (auto simp: unlinked_defs intro!: eqI xy_state.equality split: option.splits)
    show ?thesis if "xs = []" "ys = y # ys'" for y ys'
      using that f d alloc [of y]
      by (simp add: detach_defs heap_simps) (auto simp: unlinked_defs intro!: eqI xy_state.equality split: option.splits)
    show ?thesis if "xs = xs' @ [x]" "ys = []" for x xs'
      using that f d alloc [of x]
      by (simp add: detach_defs heap_simps) (auto simp: unlinked_defs intro!: eqI xy_state.equality split: option.splits)
    show ?thesis if "xs = xs' @ [x]" "ys = y # ys'" for x xs' y ys'
      using that f d alloc [of x] alloc [of y]
      by (simp add: detach_defs heap_simps) (auto simp: unlinked_defs intro!: eqI xy_state.equality split: option.splits)
  qed
qed

text \<open>The links after the update.\<close>

lemma unlinked_links:
  assumes "q \<noteq> m"
  shows "mod_next (unlinked p m xs ys s) q =
      (if xs \<noteq> [] \<and> q = last xs \<and> mods s q \<noteq> None then Some (first ys) else mod_next s q)"
    "mod_prev (unlinked p m xs ys s) q =
      (if ys \<noteq> [] \<and> q = hd ys \<and> mods s q \<noteq> None then Some (first (rev xs)) else mod_prev s q)"
  using assms by (cases "mods s q"; simp add: mod_next_def mod_prev_def unlinked_def)+

lemma mod_region_unlinked: "mod_region (unlinked p m xs ys s) = mod_region s"
  by (auto simp: fun_eq_iff mod_region_def unlinked_def map_option_case split: option.splits)

lemma mods_of_unlinked:
  assumes "mods_of s p (xs @ m # ys)"
  shows "mods_of (unlinked p m xs ys s) p (xs @ ys)"
proof -
  let ?t = "unlinked p m xs ys s"
  obtain r e where f: "regions s p = Some r" "mods s m = Some e"
    using mods_of_at [OF assms] by blast
  have alloc: "\<And>x. x \<in> set (xs @ m # ys) \<Longrightarrow> mods s x \<noteq> None"
    using mods_of_mem [OF assms] by blast
  from assms f have c: "chain (mod_next s) (re_mods_head r) (xs @ m # ys)"
    "chain (mod_prev s) (re_mods_tail r) (rev ys @ m # rev xs)" by (auto simp: mods_of_def)
  have "chain (mod_next ?t) (if xs = [] then first ys else re_mods_head r) (xs @ ys)"
    using alloc unfolding chain_seg
    by (intro chain_unlink [OF c(1) chain_at [OF c(1)], unfolded chain_seg])
       (auto simp: unlinked_links)
  moreover have "chain (mod_prev ?t) (if rev ys = [] then first (rev xs) else re_mods_tail r)
      (rev ys @ rev xs)"
    using alloc unfolding chain_seg
    by (intro chain_unlink [OF c(2) chain_at [OF c(2)], unfolded chain_seg])
       (auto simp: unlinked_links last_rev)
  moreover have "regions ?t p = Some (r\<lparr>
      re_mods_head := (if xs = [] then first ys else re_mods_head r),
      re_mods_tail := (if ys = [] then first (rev xs) else re_mods_tail r)\<rparr>)"
    using f by (simp add: unlinked_def)
  ultimately show ?thesis
    using assms by (auto simp: mods_of_def mod_region_unlinked)
qed

lemma mods_of_unlinked_other:
  assumes "mods_of s p (xs @ m # ys)" "mods_of s q ns" "q \<noteq> p"
  shows "mods_of (unlinked p m xs ys s) q ns"
proof -
  have dis: "set (xs @ m # ys) \<inter> set ns = {}" using mods_of_disjoint [OF assms(1,2)] assms(3) by blast
  have same: "mod_next (unlinked p m xs ys s) x = mod_next s x"
      "mod_prev (unlinked p m xs ys s) x = mod_prev s x" if x: "x \<in> set ns" for x
  proof -
    have "x \<noteq> m" "xs \<noteq> [] \<Longrightarrow> x \<noteq> last xs" "ys \<noteq> [] \<Longrightarrow> x \<noteq> hd ys"
      using dis x by (auto dest: last_in_set hd_in_set)
    then show "mod_next (unlinked p m xs ys s) x = mod_next s x"
      "mod_prev (unlinked p m xs ys s) x = mod_prev s x" by (auto simp: unlinked_links)
  qed
  have "regions (unlinked p m xs ys s) q = regions s q" using assms(3) by (simp add: unlinked_def)
  with assms(2) show ?thesis
    unfolding mods_of_def mod_region_unlinked
    using chain_cong [of "mod_next s" _ ns, OF _ same(1)]
      chain_cong [of "mod_prev s" _ "rev ns", OF _ same(2)] by auto
qed


section \<open>Insertion\<close>

definition linked_in :: "rptr \<Rightarrow> mptr \<Rightarrow> mptr list \<Rightarrow> mptr list \<Rightarrow> 'h xy_state \<Rightarrow> 'h xy_state" where
  "linked_in p m xs ys s = s\<lparr>
     mods := (\<lambda>q. map_option (\<lambda>x.
       if q = m then x\<lparr>me_region_entry := Some p, me_region_prev := first (rev xs),
                       me_region_next := first ys\<rparr>
       else x\<lparr>me_region_next := (if xs \<noteq> [] \<and> q = last xs then Some m else me_region_next x),
              me_region_prev := (if ys \<noteq> [] \<and> q = hd ys then Some m else me_region_prev x)\<rparr>)
       (mods s q)),
     regions := (regions s)(p := map_option (\<lambda>r. r\<lparr>
       re_mods_head := (if xs = [] then Some m else re_mods_head r),
       re_mods_tail := (if ys = [] then Some m else re_mods_tail r)\<rparr>)
       (regions s p))\<rparr>"

lemmas insert_defs = module_region_insert_after_def wr_reg_def wr_mod_def
lemmas linked_in_defs = linked_in_def upd_mod_def upd_reg_def fun_eq_iff map_option_case

lemma insert_linked_in:
  assumes of: "mods_of s p (xs @ ys)" and m: "m \<notin> set (xs @ ys)" "mods s m \<noteq> None"
  shows "module_region_insert_after (Some p) (Some m) (first (rev xs)) s =
     region_mark_subtree_dirty (Some p) (linked_in p m xs ys s)"
proof -
  obtain r where r: "regions s p = Some r" "re_mods_head r = first (xs @ ys)"
    "chain (mod_next s) (re_mods_head r) (xs @ ys)" "re_mods_tail r = first (rev (xs @ ys))"
    using of unfolding mods_of_def by (metis chain_first)
  have d: "distinct (xs @ ys)" using of by (rule mods_of_distinct)
  have alloc: "\<And>x. x \<in> set (xs @ ys) \<Longrightarrow> mods s x \<noteq> None"
    using mods_of_mem [OF of] by blast
  note eqI = arg_cong [of _ _ "region_mark_subtree_dirty (Some p)"]
  show ?thesis
  proof (cases xs rule: rev_cases; cases ys)
    show ?thesis if "xs = []" "ys = []"
      using that r m by (simp add: insert_defs heap_simps)
        (auto simp: linked_in_defs intro!: eqI xy_state.equality split: option.splits)
    show ?thesis if "xs = []" "ys = y # ys'" for y ys'
      using that r m d alloc [of y] by (simp add: insert_defs heap_simps)
        (auto simp: linked_in_defs intro!: eqI xy_state.equality split: option.splits)
    show ?thesis if "xs = xs' @ [x]" "ys = []" for x xs'
    proof -
      have "mod_next s x = Some None" using chain_at [of _ _ xs' x "[]"] r(3) that by fastforce
      then obtain e where "mods s x = Some e" "me_region_next e = None" by (auto simp: mod_next_def)
      with that r m d show ?thesis by (simp add: insert_defs heap_simps)
        (auto simp: linked_in_defs intro!: eqI xy_state.equality split: option.splits)
    qed
    show ?thesis if "xs = xs' @ [x]" "ys = y # ys'" for x xs' y ys'
    proof -
      have "mod_next s x = Some (Some y)" using chain_at [of _ _ xs' x ys] r(3) that by fastforce
      then obtain e where "mods s x = Some e" "me_region_next e = Some y" by (auto simp: mod_next_def)
      with that r m d alloc [of y] show ?thesis by (simp add: insert_defs heap_simps)
        (auto simp: linked_in_defs intro!: eqI xy_state.equality split: option.splits)
    qed
  qed
qed

lemma linked_in_links:
  assumes "q \<noteq> m"
  shows "mod_next (linked_in p m xs ys s) q =
      (if xs \<noteq> [] \<and> q = last xs \<and> mods s q \<noteq> None then Some (Some m) else mod_next s q)"
    "mod_prev (linked_in p m xs ys s) q =
      (if ys \<noteq> [] \<and> q = hd ys \<and> mods s q \<noteq> None then Some (Some m) else mod_prev s q)"
    "mod_region (linked_in p m xs ys s) q = mod_region s q"
  using assms by (cases "mods s q"; simp add: mod_next_def mod_prev_def mod_region_def linked_in_def)+

lemma linked_in_self:
  assumes "mods s m \<noteq> None"
  shows "mod_next (linked_in p m xs ys s) m = Some (first ys)"
    "mod_prev (linked_in p m xs ys s) m = Some (first (rev xs))"
    "mod_region (linked_in p m xs ys s) m = Some (Some p)"
  using assms by (auto simp: mod_next_def mod_prev_def mod_region_def linked_in_def)

lemma mods_of_linked_in:
  assumes of: "mods_of s p (xs @ ys)" and m: "m \<notin> set (xs @ ys)" "mods s m \<noteq> None"
  shows "mods_of (linked_in p m xs ys s) p (xs @ m # ys)"
proof -
  let ?t = "linked_in p m xs ys s"
  obtain r where r: "regions s p = Some r" "chain (mod_next s) (re_mods_head r) (xs @ ys)"
    "chain (mod_prev s) (re_mods_tail r) (rev ys @ rev xs)"
    using of by (auto simp: mods_of_def)
  have alloc: "\<And>x. x \<in> set (xs @ ys) \<Longrightarrow> mods s x \<noteq> None"
    using mods_of_mem [OF of] by blast
  have "chain (mod_next ?t) (if xs = [] then Some m else re_mods_head r) (xs @ m # ys)"
    using alloc m(1) linked_in_self(1) [OF m(2)]
    by (intro chain_link [OF r(2)]) (auto simp: linked_in_links)
  moreover have "chain (mod_prev ?t) (if rev ys = [] then Some m else re_mods_tail r)
      (rev ys @ m # rev xs)"
    using alloc m(1) linked_in_self(2) [OF m(2)]
    by (intro chain_link [OF r(3)]) (auto simp: linked_in_links last_rev)
  moreover have "regions ?t p = Some (r\<lparr>
      re_mods_head := (if xs = [] then Some m else re_mods_head r),
      re_mods_tail := (if ys = [] then Some m else re_mods_tail r)\<rparr>)"
    using r by (simp add: linked_in_def)
  moreover have "mod_region ?t x = Some (Some p)" if x: "x \<in> set (xs @ m # ys)" for x
    using of x linked_in_self(3) [OF m(2)]
    by (cases "x = m") (auto simp: mods_of_def linked_in_links)
  ultimately show ?thesis by (auto simp: mods_of_def)
qed

lemma mods_of_linked_in_other:
  assumes of: "mods_of s p (xs @ ys)" "mods_of s q ns" "q \<noteq> p" "m \<notin> set ns"
  shows "mods_of (linked_in p m xs ys s) q ns"
proof -
  have dis: "set (xs @ ys) \<inter> set ns = {}" using mods_of_disjoint [OF of(1,2)] of(3) by blast
  have same: "mod_next (linked_in p m xs ys s) x = mod_next s x"
      "mod_prev (linked_in p m xs ys s) x = mod_prev s x"
      "mod_region (linked_in p m xs ys s) x = mod_region s x" if x: "x \<in> set ns" for x
  proof -
    have "x \<noteq> m" "xs \<noteq> [] \<Longrightarrow> x \<noteq> last xs" "ys \<noteq> [] \<Longrightarrow> x \<noteq> hd ys"
      using dis x of(4) by (auto dest: last_in_set hd_in_set)
    then show "mod_next (linked_in p m xs ys s) x = mod_next s x"
      "mod_prev (linked_in p m xs ys s) x = mod_prev s x"
      "mod_region (linked_in p m xs ys s) x = mod_region s x" by (auto simp: linked_in_links)
  qed
  have "regions (linked_in p m xs ys s) q = regions s q" using of(3) by (simp add: linked_in_def)
  with of(2) same(3) show ?thesis
    unfolding mods_of_def
    using chain_cong [of "mod_next s" _ ns, OF _ same(1)]
      chain_cong [of "mod_prev s" _ "rev ns", OF _ same(2)] by auto
qed


section \<open>The operations on lists\<close>

lemma mods_of_upd_regs:
  assumes "\<And>r. re_mods_head (f r) = re_mods_head r" "\<And>r. re_mods_tail (f r) = re_mods_tail r"
  shows "mods_of (upd_regs A f s) q ns = mods_of s q ns"
proof -
  have "mod_next (upd_regs A f s) = mod_next s" "mod_prev (upd_regs A f s) = mod_prev s"
    "mod_region (upd_regs A f s) = mod_region s"
    by (auto simp: fun_eq_iff mod_next_def mod_prev_def mod_region_def heap_simps)
  then show ?thesis using assms by (auto simp: mods_of_def heap_simps)
qed

text \<open>The dirty marks that end both operations, after a change of the module links only.\<close>

lemma mark_after_relink:
  assumes wf: "region_wf E s" and k: "r_key s p = Some k"
    and t: "same_shape s t" "st_corm t = st_corm s" "xy_rt t = xy_rt s" "r_gen t = r_gen s"
  shows "\<exists>s'. region_mark_subtree_dirty (Some p) t = Some s' \<and> region_wf E s' \<and>
     same_shape s s' \<and> mods s' = mods t \<and> (\<forall>q ns. mods_of s' q ns = mods_of t q ns) \<and>
     (\<forall>q \<in> set (ancestors s p). \<exists>r. regions s' q = Some r \<and> re_subtree_mods_dirty r)"
proof -
  have tw: "tree_wf t" using t(1) wf by (auto simp: region_wf_def intro: tree_wf_shape)
  have kt: "r_key t p = Some k" using t(1) k by (simp add: same_shape_def)
  have wft: "region_wf E t"
    using wf t tw table_wf_frame [of t s E] by (auto simp: region_wf_def same_shape_def)
  let ?s' = "upd_regs (set (ancestors t p)) (\<lambda>r. mark_dirty (bump_gen r)) t"
  have anc: "ancestors t p = ancestors s p"
    using ancestors_chain(1) [OF tw kt] ancestors_chain(1) [of s p k] wf k t(1)
    by (auto simp: region_wf_def same_shape_def intro: chain_unique)
  have "\<exists>r. regions ?s' q = Some r \<and> re_subtree_mods_dirty r" if "q \<in> set (ancestors s p)" for q
    using ancestors_contain [OF tw kt, of q] that anc
    by (auto simp: r_key_def heap_simps mark_dirty_def)
  moreover have "mods_of ?s' q ns = mods_of t q ns" for q ns
    by (rule mods_of_upd_regs) (simp_all add: mark_dirty_def bump_gen_def Let_def)
  ultimately show ?thesis
    using region_mark_subtree_dirty_eq [OF tw kt] region_wf_mark [OF wft]
      same_shape_trans [OF t(1) upd_regs_shape [OF shape_keeping_mark_bump]]
    by (auto simp: heap_simps)
qed

lemma relink_shape:
  "same_shape s (unlinked p m xs ys s)" "st_corm (unlinked p m xs ys s) = st_corm s"
  "xy_rt (unlinked p m xs ys s) = xy_rt s" "r_gen (unlinked p m xs ys s) = r_gen s"
  "same_shape s (linked_in p m xs ys s)" "st_corm (linked_in p m xs ys s) = st_corm s"
  "xy_rt (linked_in p m xs ys s) = xy_rt s" "r_gen (linked_in p m xs ys s) = r_gen s"
  by (auto simp: unlinked_def linked_in_def same_shape_def fun_eq_iff r_key_def r_depth_def
      r_parent_def r_head_def sib_next_def r_gen_def key_of_def [abs_def] option.map_comp comp_def)

lemma mods_of_key: "mods_of s p ms \<Longrightarrow> \<exists>k. r_key s p = Some k"
  by (auto simp: mods_of_def r_key_def)

lemma detach_refines:
  assumes wf: "region_wf E s" and of: "mods_of s p (xs @ m # ys)"
  shows "\<exists>s'. module_region_detach (Some m) s = Some s' \<and> region_wf E s' \<and>
     same_shape s s' \<and> mods_of s' p (xs @ ys) \<and>
     mod_next s' m = Some None \<and> mod_prev s' m = Some None \<and>
     (\<forall>q ns. q \<noteq> p \<longrightarrow> mods_of s q ns \<longrightarrow> mods_of s' q ns) \<and>
     (\<forall>q \<in> set (ancestors s p). \<exists>r. regions s' q = Some r \<and> re_subtree_mods_dirty r)"
proof -
  let ?t = "unlinked p m xs ys s"
  obtain k where k: "r_key s p = Some k" using mods_of_key [OF of] by blast
  obtain s' where s': "region_mark_subtree_dirty (Some p) ?t = Some s'" "region_wf E s'"
    "same_shape s s'" "mods s' = mods ?t" "\<forall>q ns. mods_of s' q ns = mods_of ?t q ns"
    "\<forall>q \<in> set (ancestors s p). \<exists>r. regions s' q = Some r \<and> re_subtree_mods_dirty r"
    using mark_after_relink [OF wf k relink_shape(1-4)] by blast
  have "mod_next ?t m = Some None" "mod_prev ?t m = Some None"
    using mods_of_mem [OF of, of m] by (auto simp: mod_next_def mod_prev_def unlinked_def)
  then have "mod_next s' m = Some None" "mod_prev s' m = Some None"
    using s'(4) by (simp_all add: mod_next_def mod_prev_def)
  then show ?thesis
    using s' detach_unlinked [OF of] mods_of_unlinked [OF of] mods_of_unlinked_other [OF of]
    by (intro exI [of _ s']) auto
qed

lemma insert_refines:
  assumes wf: "region_wf E s" and of: "mods_of s p (xs @ ys)"
    and m: "m \<notin> set (xs @ ys)" "mods s m \<noteq> None"
  shows "\<exists>s'. module_region_insert_after (Some p) (Some m) (first (rev xs)) s = Some s' \<and>
     region_wf E s' \<and> same_shape s s' \<and> mods_of s' p (xs @ m # ys) \<and>
     (\<forall>q ns. q \<noteq> p \<longrightarrow> m \<notin> set ns \<longrightarrow> mods_of s q ns \<longrightarrow> mods_of s' q ns) \<and>
     (\<forall>q \<in> set (ancestors s p). \<exists>r. regions s' q = Some r \<and> re_subtree_mods_dirty r)"
proof -
  obtain k where k: "r_key s p = Some k" using mods_of_key [OF of] by blast
  let ?t = "linked_in p m xs ys s"
  obtain s' where s': "region_mark_subtree_dirty (Some p) ?t = Some s'" "region_wf E s'"
    "same_shape s s'" "\<forall>q ns. mods_of s' q ns = mods_of ?t q ns"
    "\<forall>q \<in> set (ancestors s p). \<exists>r. regions s' q = Some r \<and> re_subtree_mods_dirty r"
    using mark_after_relink [OF wf k relink_shape(5-8)] by blast
  then show ?thesis
    using insert_linked_in [OF of m] mods_of_linked_in [OF of m] mods_of_linked_in_other [OF of]
    by (intro exI [of _ s']) auto
qed

lemma append_refines:
  assumes wf: "region_wf E s" and of: "mods_of s p ms" and m: "m \<notin> set ms" "mods s m \<noteq> None"
  shows "\<exists>s'. module_region_append (Some p) (Some m) s = Some s' \<and>
     region_wf E s' \<and> same_shape s s' \<and> mods_of s' p (ms @ [m]) \<and>
     (\<forall>q ns. q \<noteq> p \<longrightarrow> m \<notin> set ns \<longrightarrow> mods_of s q ns \<longrightarrow> mods_of s' q ns) \<and>
     (\<forall>q \<in> set (ancestors s p). \<exists>r. regions s' q = Some r \<and> re_subtree_mods_dirty r)"
proof -
  obtain r where "regions s p = Some r" "re_mods_tail r = first (rev ms)"
    using of unfolding mods_of_def by (metis chain_first)
  then have "module_region_append (Some p) (Some m) s =
      module_region_insert_after (Some p) (Some m) (first (rev ms)) s"
    by (simp add: module_region_append_def)
  with insert_refines [OF wf, of p ms "[]" m] of m show ?thesis by simp
qed

end
