(* ===== verification/Xy_Subtree.thy ===== *)
theory Xy_Subtree
  imports Xy_Modlist
begin

text \<open>
  The cached module vector of a region: \<^verbatim>\<open>region_rebuild_subtree_mods\<close> walks the subtree in
  preorder and collects its modules. On a well-formed tree with well-formed module lists the
  walk returns, and the vector holds every module of the subtree exactly once, the region's
  own modules first and in load order.
\<close>

section \<open>The state the walk relies on\<close>

definition mods_wf :: "'h xy_state \<Rightarrow> bool" where
  "mods_wf s \<longleftrightarrow>
     (\<forall>p. regions s p \<noteq> None \<longrightarrow> (\<exists>ms. mods_of s p ms)) \<and>
     (\<forall>m. mods s m \<noteq> None \<longrightarrow> m < next_addr s)"

definition mods_in :: "'h xy_state \<Rightarrow> rptr set \<Rightarrow> mptr set" where
  "mods_in s A = {m. \<exists>q \<in> A. \<exists>ms. mods_of s q ms \<and> m \<in> set ms}"

lemma mods_in_UN: "mods_in s (\<Union>c \<in> A. f c) = (\<Union>c \<in> A. mods_in s (f c))"
  by (auto simp: mods_in_def)

lemma mods_in_insert:
  "mods_of s p ms \<Longrightarrow> mods_in s (insert p A) = set ms \<union> mods_in s A"
  by (auto simp: mods_in_def dest: mods_of_unique)

lemma mods_in_disjoint: "A \<inter> B = {} \<Longrightarrow> mods_in s A \<inter> mods_in s B = {}"
  using mods_of_disjoint by (fastforce simp: mods_in_def)

lemma region_mods_wf:
  assumes "mods_wf s" "mods_of s p ms" "regions s p = Some r"
  shows "region_mods s r = Some ms"
proof -
  have c: "chain (mod_next s) (re_mods_head r) ms" using assms(2,3) by (simp add: mods_of_def)
  have "m < next_addr s" if "m \<in> set ms" for m
    using assms(1) mods_of_mem [OF assms(2) that] by (simp add: mods_wf_def)
  with c have "length ms \<le> next_addr s" by (intro chain_length_bound)
  with c show ?thesis by (auto simp: region_mods_def link_fuel_def intro!: chain_follow)
qed

text \<open>Two cells of a chain with the same successor are the same.\<close>

lemma chain_inj:
  assumes "chain nxt x ps" "c \<in> set ps" "c' \<in> set ps" "nxt c = Some (Some p)" "nxt c' = Some (Some p)"
  shows "c = c'"
proof -
  obtain us vs us' vs' where ps: "ps = us @ c # vs" "ps = us' @ c' # vs'"
    using assms(2,3) by (metis split_list)
  then have "first vs = Some p" "first vs' = Some p"
    using chain_at [of nxt x us c vs] chain_at [of nxt x us' c' vs'] assms(1,4,5) by auto
  then obtain ws ws' where "vs = p # ws" "vs' = p # ws'" by (cases vs; cases vs') auto
  then have eq: "(us @ [c]) @ p # ws = (us' @ [c']) @ p # ws'" using ps by simp
  have np: "p \<notin> set (us @ [c])" "p \<notin> set ws"
    using chain_distinct [OF assms(1)] ps(1) \<open>vs = p # ws\<close> by auto
  then show ?thesis using iffD1 [OF append_Cons_eq_iff [OF np] eq] by simp
qed

lemma kids_subtrees_disjoint:
  assumes wf: "tree_wf s" and "c \<in> kids s p" "c' \<in> kids s p" "c \<noteq> c'"
  shows "subtree s c \<inter> subtree s c' = {}"
proof -
  have False if q: "r_key s q = Some k" "c \<in> set (ancestors s q)" "c' \<in> set (ancestors s q)" for q k
    using chain_inj [OF ancestors_chain(1) [OF wf q(1)] q(2,3), of p] assms by (auto simp: kids_def)
  then show ?thesis by (fastforce simp: subtree_def)
qed

lemma own_not_below:
  assumes wf: "tree_wf s" and "r_key s p = Some k" "c \<in> kids s p"
  shows "p \<notin> subtree s c"
proof
  assume "p \<in> subtree s c"
  moreover obtain k' where k': "r_key s c = Some k'" "k < k'" using kid_key [OF wf assms(3,2)] by blast
  ultimately show False
    using subtree_contained [OF wf k'(1)] assms(2) by fastforce
qed



section \<open>The order of the walk\<close>

text \<open>
  The list a preorder walk of the subtree at a region collects: the region's own modules in
  load order, then what the walks below its children collect, child after child in the order of
  the child list.
\<close>

inductive preorder :: "'h xy_state \<Rightarrow> rptr \<Rightarrow> mptr list \<Rightarrow> bool" for s where
  "mods_of s p own \<Longrightarrow> r_head s p = Some h \<Longrightarrow> chain (sib_next s) h cs \<Longrightarrow>
     list_all2 (preorder s) cs Ls \<Longrightarrow> preorder s p (own @ concat Ls)"

inductive_cases preorderE: "preorder s p L"

lemma preorder_own: "preorder s p L \<Longrightarrow> \<exists>own below. mods_of s p own \<and> L = own @ below"
  by (auto elim: preorderE)

lemma preorder_leaf: "mods_of s p own \<Longrightarrow> r_head s p = Some None \<Longrightarrow> preorder s p own"
  using preorder.intros [of s p own None "[]" "[]"] by simp

lemma preorder_mono:
  assumes "preorder s p L" "mods_of t = mods_of s" "r_head t = r_head s" "sib_next t = sib_next s"
  shows "preorder t p L"
  using assms(1)
proof induction
  case (1 p own h cs Ls)
  have "list_all2 (preorder t) cs Ls" using 1(4) by (rule list_all2_mono) simp
  with 1(1-3) assms(2-4) show ?case by (auto intro: preorder.intros)
qed

lemma preorder_cong:
  assumes "mods_of t = mods_of s" "r_head t = r_head s" "sib_next t = sib_next s"
  shows "preorder t = preorder s"
  using preorder_mono [of s _ _ t] preorder_mono [of t _ _ s] assms by (intro ext) auto

text \<open>There is one such list.\<close>

lemma preorder_unique: "preorder s p L \<Longrightarrow> preorder s p M \<Longrightarrow> M = L"
proof (induction arbitrary: M rule: preorder.induct)
  case (1 p own h cs Ls)
  from 1(5) obtain own' h' cs' Ms where M: "M = own' @ concat Ms" "mods_of s p own'" "r_head s p = Some h'"
    "chain (sib_next s) h' cs'" "list_all2 (preorder s) cs' Ms" by (auto elim: preorderE)
  then have eq: "own' = own" "cs' = cs" using mods_of_unique [OF M(2) 1(1)] chain_unique 1(2,3) by auto
  have "list_all2 (\<lambda>c L. \<forall>M. preorder s c M \<longrightarrow> M = L) cs Ls" using 1(4) by (rule list_all2_mono) blast
  then have "Ms = Ls"
    using M(5) eq(2) by (auto simp: list_all2_conv_all_nth intro: nth_equalityI)
  with M(1) eq(1) show ?case by simp
qed



section \<open>The walk only extends the vector\<close>

definition vec_ext :: "rptr \<Rightarrow> mptr list \<Rightarrow> 'h xy_state \<Rightarrow> 'h xy_state \<Rightarrow> bool" where
  "vec_ext root L s t \<longleftrightarrow>
     (\<exists>cap. t = upd_reg root (\<lambda>r. r\<lparr>re_subtree_mods_cap := cap,
        re_subtree_mods := re_subtree_mods r @ L\<rparr>) s)"

lemma vec_ext_trans: "vec_ext root L s t \<Longrightarrow> vec_ext root M t u \<Longrightarrow> vec_ext root (L @ M) s u"
  by (auto simp: vec_ext_def upd_reg_def option.map_comp comp_def)

lemma vec_ext_frame:
  assumes "vec_ext root L s t"
  shows "same_shape s t" "mods t = mods s" "mods_of t = mods_of s" "next_addr t = next_addr s"
    "regions t p = None \<longleftrightarrow> regions s p = None"
proof -
  obtain cap where t: "t = upd_regs {root} (\<lambda>r. r\<lparr>re_subtree_mods_cap := cap,
      re_subtree_mods := re_subtree_mods r @ L\<rparr>) s" using assms by (auto simp: vec_ext_def upd_reg_as_set)
  show "same_shape s t" unfolding t by (rule upd_regs_shape) (simp add: shape_keeping_def)
  show "mods_of t = mods_of s" unfolding t by (intro ext mods_of_upd_regs) simp_all
  show "mods t = mods s" "next_addr t = next_addr s" "regions t p = None \<longleftrightarrow> regions s p = None"
    by (simp_all add: t heap_simps)
qed

lemma ancestors_shape:
  assumes "same_shape s t" "tree_wf s" "r_key s q = Some k"
  shows "ancestors t q = ancestors s q"
proof (rule chain_unique)
  have "r_key t q = Some k" "tree_wf t" using assms tree_wf_shape by (auto simp: same_shape_def)
  then show "chain (r_parent t) (Some q) (ancestors t q)" by (rule ancestors_chain(1) [rotated])
  show "chain (r_parent t) (Some q) (ancestors s q)"
    using ancestors_chain(1) [OF assms(2,3)] assms(1) by (simp add: same_shape_def)
qed

lemma subtree_shape: "same_shape s t \<Longrightarrow> tree_wf s \<Longrightarrow> subtree t p = subtree s p"
proof -
  assume sh: "same_shape s t" and wf: "tree_wf s"
  have "r_key t = r_key s" using sh by (simp add: same_shape_def)
  moreover have "ancestors t q = ancestors s q" if "r_key s q \<noteq> None" for q
    using ancestors_shape [OF sh wf] that by blast
  ultimately show ?thesis unfolding subtree_def by (metis (lifting))
qed

lemma vec_ext_wf:
  assumes "vec_ext root L s t" "tree_wf s" "mods_wf s"
  shows "tree_wf t" "mods_wf t" "subtree t p = subtree s p" "mods_in t A = mods_in s A"
proof -
  note fr = vec_ext_frame [OF assms(1)]
  show "tree_wf t" using fr(1) assms(2) by (rule tree_wf_shape)
  show "mods_wf t" using assms(3) fr(2-5) by (simp add: mods_wf_def)
  show "subtree t p = subtree s p" using fr(1) assms(2) by (rule subtree_shape)
  show "mods_in t A = mods_in s A" using fr(3) by (simp add: mods_in_def)
qed

definition never_oom :: "'h env \<Rightarrow> bool" where
  "never_oom E \<longleftrightarrow> (\<forall>s n. malloc_ok E s n)"

lemma vec_ext_refl: "regions s root \<noteq> None \<Longrightarrow> vec_ext root [] s s"
  unfolding vec_ext_def
  by (intro exI [of _ "re_subtree_mods_cap (the (regions s root))"])
     (auto simp: upd_reg_def intro!: xy_state.equality)

lemma push_one_ext:
  assumes "never_oom E" "regions s root \<noteq> None"
  shows "\<exists>t. region_subtree_mods_push E root m s = Some (0, t) \<and> vec_ext root [m] s t"
proof -
  obtain r where r: "regions s root = Some r" using assms(2) by blast
  let ?cap = "if length (re_subtree_mods r) \<ge> re_subtree_mods_cap r
      then (if re_subtree_mods_cap r \<noteq> 0 then re_subtree_mods_cap r * 2 else 8)
      else re_subtree_mods_cap r"
  have "region_subtree_mods_push E root m s = Some (0, upd_reg root (\<lambda>r. r\<lparr>
      re_subtree_mods_cap := ?cap, re_subtree_mods := re_subtree_mods r @ [m]\<rparr>) s)"
    using r assms(1) by (simp add: region_subtree_mods_push_def never_oom_def Let_def)
  then show ?thesis unfolding vec_ext_def by blast
qed

lemma push_mods_ext:
  assumes "never_oom E" "regions s root \<noteq> None"
  shows "\<exists>t. push_mods E root ms s = Some (0, t) \<and> vec_ext root ms s t"
  using assms(2)
proof (induction ms arbitrary: s)
  case Nil
  with vec_ext_refl [of s root] show ?case by auto
next
  case (Cons m ms)
  obtain t where t: "region_subtree_mods_push E root m s = Some (0, t)" "vec_ext root [m] s t"
    using push_one_ext [OF assms(1) Cons.prems] by blast
  obtain u where u: "push_mods E root ms t = Some (0, u)" "vec_ext root ms t u"
    using Cons.IH [of t] vec_ext_frame(5) [OF t(2)] Cons.prems by auto
  with t vec_ext_trans [OF t(2) u(2)] show ?case by auto
qed

text \<open>The children loop, given what one child's walk does.\<close>

lemma collect_children_ext:
  assumes node: "\<And>c s. c \<in> set cs \<Longrightarrow> P s \<Longrightarrow>
      \<exists>L t. region_collect_subtree_mods E d root c s = Some (0, t) \<and> vec_ext root L s t \<and>
        set L = M c \<and> distinct L \<and> Q c L"
    and keep: "\<And>L s t. P s \<Longrightarrow> vec_ext root L s t \<Longrightarrow> P t"
    and "P s" and "distinct cs"
    and disj: "\<And>c c'. c \<in> set cs \<Longrightarrow> c' \<in> set cs \<Longrightarrow> c \<noteq> c' \<Longrightarrow> M c \<inter> M c' = {}"
    and refl: "\<And>s. P s \<Longrightarrow> vec_ext root [] s s"
  shows "\<exists>Ls t. collect_children E d root cs s = Some (0, t) \<and> vec_ext root (concat Ls) s t \<and>
     set (concat Ls) = (\<Union>c \<in> set cs. M c) \<and> distinct (concat Ls) \<and> list_all2 Q cs Ls"
  using assms
proof (induction cs arbitrary: s)
  case Nil
  then show ?case by (intro exI [of _ "[]"] exI [of _ s]) simp
next
  case (Cons c cs)
  obtain L t where t: "region_collect_subtree_mods E d root c s = Some (0, t)" "vec_ext root L s t"
    "set L = M c" "distinct L" "Q c L" using Cons.prems(1) [OF _ Cons.prems(3), of c] by auto
  have "\<exists>Ls t'. collect_children E d root cs t = Some (0, t') \<and> vec_ext root (concat Ls) t t' \<and>
      set (concat Ls) = (\<Union>c \<in> set cs. M c) \<and> distinct (concat Ls) \<and> list_all2 Q cs Ls"
    using Cons.prems t(2) by (intro Cons.IH) auto
  then obtain Ls u where u: "collect_children E d root cs t = Some (0, u)" "vec_ext root (concat Ls) t u"
    "set (concat Ls) = (\<Union>c \<in> set cs. M c)" "distinct (concat Ls)" "list_all2 Q cs Ls" by blast
  have "set L \<inter> set (concat Ls) = {}"
    using Cons.prems(4,5) t(3) u(3) by fastforce
  then have "set (concat (L # Ls)) = (\<Union>c \<in> set (c # cs). M c)" "distinct (concat (L # Ls))"
      "vec_ext root (concat (L # Ls)) s u" "list_all2 Q (c # cs) (L # Ls)"
    using t u vec_ext_trans [OF t(2) u(2)] by (simp_all del: set_concat)
  with t(1) u(1) show ?case by (intro exI [of _ "L # Ls"] exI [of _ u]) simp
qed

lemma collect_ext:
  assumes mem: "never_oom E"
    and "tree_wf s" "mods_wf s" "regions s root \<noteq> None"
    and "r_key s node = Some k" "65 < d + unat (rk_plen k)"
  shows "\<exists>L t. region_collect_subtree_mods E d root node s = Some (0, t) \<and> vec_ext root L s t \<and>
     set L = mods_in s (subtree s node) \<and> distinct L \<and> preorder s node L"
  using assms(2-)
proof (induction d arbitrary: node k s)
  case 0
  then have "unat (rk_plen k) \<le> 64"
    using tree_key [OF 0(1,4)] by (simp add: canonical_def unat_le_64)
  with 0 show ?case by simp
next
  case (Suc d)
  note wf = Suc.prems(1)
  obtain r where r: "regions s node = Some r" using Suc.prems(4) by (auto simp: r_key_def)
  obtain ms where ms: "mods_of s node ms" using Suc.prems(2) r by (auto simp: mods_wf_def)
  obtain t where t: "push_mods E root ms s = Some (0, t)" "vec_ext root ms s t"
    using push_mods_ext [OF mem Suc.prems(3)] by blast
  note fr = vec_ext_frame [OF t(2)] and twf = vec_ext_wf [OF t(2) wf Suc.prems(2)]
  obtain cs where cs: "region_children s r = Some cs" "set cs = kids s node" "distinct cs"
    using region_children_wf [OF wf r] by blast
  have cst: "region_children t r = Some cs"
    using cs(1) fr(1,4) by (simp add: region_children_def link_fuel_def same_shape_def)
  define P where "P = (\<lambda>u. \<exists>L. vec_ext root L s u)"
  have P: "tree_wf u \<and> mods_wf u \<and> regions u root \<noteq> None \<and> r_key u = r_key s \<and>
      mods_in u (subtree u c) = mods_in s (subtree s c) \<and> preorder u = preorder s" if u: "P u" for u c
  proof -
    obtain L where L: "vec_ext root L s u" using u by (auto simp: P_def)
    have "preorder u = preorder s"
      using vec_ext_frame(1,3) [OF L] by (intro preorder_cong) (simp_all add: same_shape_def)
    with vec_ext_wf [OF L wf Suc.prems(2)] vec_ext_frame [OF L] Suc.prems(3) show ?thesis
      by (simp add: same_shape_def)
  qed
  have "\<exists>Ls u. collect_children E d root cs t = Some (0, u) \<and> vec_ext root (concat Ls) t u \<and>
      set (concat Ls) = (\<Union>c \<in> set cs. mods_in s (subtree s c)) \<and> distinct (concat Ls) \<and>
      list_all2 (preorder s) cs Ls"
  proof (rule collect_children_ext [where P = P])
    fix c u assume c: "c \<in> set cs" and u: "P u"
    obtain kc where kc: "r_key s c = Some kc" "k < kc"
      using kid_key [OF wf _ Suc.prems(4), of c] c cs(2) by auto
    then have "unat (rk_plen k) < unat (rk_plen kc)"
      using key_less_plen word_less_nat_alt by blast
    with Suc.prems(5) have "65 < d + unat (rk_plen kc)" by simp
    with Suc.IH [of u c kc] P [OF u, of c] kc(1)
    show "\<exists>L t. region_collect_subtree_mods E d root c u = Some (0, t) \<and> vec_ext root L u t \<and>
        set L = mods_in s (subtree s c) \<and> distinct L \<and> preorder s c L" by auto
  next
    show "mods_in s (subtree s c) \<inter> mods_in s (subtree s c') = {}"
      if "c \<in> set cs" "c' \<in> set cs" "c \<noteq> c'" for c c'
      using kids_subtrees_disjoint [OF wf] that cs(2) by (intro mods_in_disjoint) auto
  next
    show "P u" if "P v" "vec_ext root L v u" for L u v
      using that vec_ext_trans unfolding P_def by blast
    show "P t" using t(2) by (auto simp: P_def)
    show "distinct cs" by (rule cs(3))
    show "vec_ext root [] u u" if "P u" for u using P [OF that] by (intro vec_ext_refl) blast
  qed
  then obtain Ls u where u: "collect_children E d root cs t = Some (0, u)" "vec_ext root (concat Ls) t u"
    "set (concat Ls) = mods_in s (\<Union>c \<in> kids s node. subtree s c)" "distinct (concat Ls)"
    "list_all2 (preorder s) cs Ls"
    using cs(2) by (auto simp: mods_in_UN simp del: set_concat)
  let ?L = "concat Ls"
  have "chain (sib_next s) (re_children_head r) cs" "r_head s node = Some (re_children_head r)"
    using follow_chain cs(1) r by (auto simp: region_children_def r_head_def)
  then have pre: "preorder s node (ms @ ?L)" using ms u(5) by (auto intro: preorder.intros)
  have all: "mods_in s (subtree s node) = set ms \<union> set ?L"
    using subtree_unfold [OF wf Suc.prems(4)] mods_in_insert [OF ms] u(3) by simp
  have "set ms \<inter> set ?L = {}"
    using mods_in_disjoint [of "{node}" "\<Union>c \<in> kids s node. subtree s c" s]
      own_not_below [OF wf Suc.prems(4)] mods_in_insert [OF ms, of "{}"] u(3)
    by (auto simp: mods_in_def)
  then have "distinct (ms @ ?L)" using mods_of_distinct [OF ms] u(4) by simp
  moreover have "region_collect_subtree_mods E (Suc d) root node s = Some (0, u)"
    using r region_mods_wf [OF Suc.prems(2) ms r] t(1) cst u(1) by simp
  ultimately show ?case
    using vec_ext_trans [OF t(2) u(2)] all pre by (intro exI [of _ "ms @ ?L"] exI [of _ u]) (simp del: set_concat)
qed



section \<open>The rebuilt vector\<close>

lemma rebuild_subtree_mods:
  assumes mem: "never_oom E" and wf: "tree_wf s" "mods_wf s" and k: "r_key s p = Some k"
  shows "\<exists>L s' r'. region_rebuild_subtree_mods E (Some p) s = Some (0, s') \<and>
     regions s' p = Some r' \<and> re_subtree_mods r' = L \<and> \<not> re_subtree_mods_dirty r' \<and>
     set L = mods_in s (subtree s p) \<and> distinct L \<and> preorder s p L \<and>
     same_shape s s' \<and> mods s' = mods s \<and> mods_of s' = mods_of s \<and>
     (\<forall>q. q \<noteq> p \<longrightarrow> regions s' q = regions s q) \<and>
     (\<exists>cap. s' = upd_reg p (\<lambda>r. r\<lparr>re_subtree_mods := L, re_subtree_mods_cap := cap,
        re_subtree_mods_dirty := False\<rparr>) s)"
proof -
  obtain r where r: "regions s p = Some r" using k by (auto simp: r_key_def)
  define f :: "xy_region_entry \<Rightarrow> xy_region_entry" where "f = (\<lambda>r. r\<lparr>re_subtree_mods := []\<rparr>)"
  define g :: "xy_region_entry \<Rightarrow> xy_region_entry" where "g = (\<lambda>r. r\<lparr>re_subtree_mods_dirty := False\<rparr>)"
  let ?s1 = "upd_reg p f s"
  have sh1: "same_shape s ?s1" by (rule upd_reg_shape) (simp add: f_def shape_keeping_def)
  have of1: "mods_of ?s1 = mods_of s"
    unfolding upd_reg_as_set by (intro ext mods_of_upd_regs) (simp_all add: f_def)
  have wf1: "tree_wf ?s1" "mods_wf ?s1" "r_key ?s1 p = Some k" "regions ?s1 p \<noteq> None"
    using tree_wf_shape [OF sh1 wf(1)] wf(2) of1 sh1 k r
    by (auto simp: mods_wf_def heap_simps same_shape_def)
  have sub1: "subtree ?s1 p = subtree s p" using sh1 wf(1) by (rule subtree_shape)
  obtain L t where t: "region_collect_subtree_mods E depth_fuel p p ?s1 = Some (0, t)"
    "vec_ext p L ?s1 t" "set L = mods_in s (subtree s p)" "distinct L"
    "preorder s p L"
    using collect_ext [OF mem wf1(1,2,4,3), of depth_fuel] sub1 of1 preorder_cong [OF of1] sh1
    by (auto simp: depth_fuel_def mods_in_def same_shape_def)
  let ?s' = "upd_reg p g t"
  obtain cap where cap: "t = upd_reg p (\<lambda>r. r\<lparr>re_subtree_mods_cap := cap,
      re_subtree_mods := re_subtree_mods r @ L\<rparr>) ?s1" using t(2) by (auto simp: vec_ext_def)
  have "region_rebuild_subtree_mods E (Some p) s = Some (0, ?s')"
    using r t(1) by (simp add: region_rebuild_subtree_mods_def f_def g_def)
  moreover have "regions ?s' p = Some (r\<lparr>re_subtree_mods := L, re_subtree_mods_cap := cap,
      re_subtree_mods_dirty := False\<rparr>)"
    using r cap by (simp add: heap_simps f_def g_def)
  moreover have "same_shape t ?s'" by (rule upd_reg_shape) (simp add: g_def shape_keeping_def)
  then have "same_shape s ?s'"
    using sh1 vec_ext_frame(1) [OF t(2)] by (blast intro: same_shape_trans)
  moreover have "mods_of ?s' = mods_of s"
  proof -
    have "mods_of ?s' = mods_of t"
      unfolding upd_reg_as_set by (intro ext mods_of_upd_regs) (simp_all add: g_def)
    then show ?thesis using vec_ext_frame(3) [OF t(2)] of1 by simp
  qed
  moreover have "mods ?s' = mods s" "\<forall>q. q \<noteq> p \<longrightarrow> regions ?s' q = regions s q"
    using cap by (simp_all add: heap_simps)
  moreover have "\<exists>cap. ?s' = upd_reg p (\<lambda>r. r\<lparr>re_subtree_mods := L, re_subtree_mods_cap := cap,
      re_subtree_mods_dirty := False\<rparr>) s"
    using r cap by (intro exI [of _ cap]) (auto simp: upd_reg_def f_def g_def fun_eq_iff intro!: xy_state.equality)
  ultimately show ?thesis using t(3-5) by (intro exI [of _ L] exI [of _ ?s']) simp
qed

end
