(* ===== verification/Xy_Path.thy ===== *)
theory Xy_Path
  imports Xy_Instance
begin

text \<open>
  Module identity, from \<^verbatim>\<open>src/libxylem.c\<close>: the key of a module in a region (\<^verbatim>\<open>mod_key\<close> and its
  length), the resolution of a module name to a file (\<^verbatim>\<open>module_load_path\<close>,
  \<^verbatim>\<open>module_search_path_list\<close>) and the interning of resolved paths. The lemmas characterise when
  two keys are equal, relate the directory search to the list of directories it scans, and
  show that interned pointers are equal exactly when the paths are.
\<close>

section \<open>Keys\<close>

definition NUL :: char where "NUL = CHR 0x00"

text \<open>\<^verbatim>\<open>strlen\<close> of a buffer: the bytes before the first NUL.\<close>

definition strlen :: "string \<Rightarrow> nat" where
  "strlen s = length (takeWhile (\<lambda>c. c \<noteq> NUL) s)"

definition hex_digit :: "nat \<Rightarrow> char" where
  "hex_digit d = ''0123456789abcdef'' ! d"

text \<open>\<^verbatim>\<open>%0nx\<close> of a number below \<open>16 ^ n\<close>: its \<open>n\<close> hexadecimal digits.\<close>

fun hex :: "nat \<Rightarrow> nat \<Rightarrow> string" where
  "hex 0 x = []"
| "hex (Suc n) x = hex n (x div 16) @ [hex_digit (x mod 16)]"

text \<open>
  \<^verbatim>\<open>snprintf(buf, buf_len, \<dots>)\<close>: at most \<^verbatim>\<open>buf_len - 1\<close> bytes of the output and a
  terminating NUL; the result is what the buffer holds.
\<close>

definition snprintf :: "nat \<Rightarrow> string \<Rightarrow> string" where
  "snprintf buf_len out = (if buf_len = 0 then [] else take (buf_len - 1) out @ [NUL])"

definition mod_key :: "nat \<Rightarrow> string \<Rightarrow> u64 \<Rightarrow> u8 \<Rightarrow> string" where
  "mod_key buf_len path region_id plen =
     snprintf buf_len (path @ [NUL] @ hex 16 (unat region_id) @ hex 2 (unat plen))"

definition MOD_KEY_SUFFIX_LEN :: nat where "MOD_KEY_SUFFIX_LEN = 19"

definition mod_key_len :: "string \<Rightarrow> nat" where
  "mod_key_len path = strlen path + MOD_KEY_SUFFIX_LEN"

definition mod_key_measure :: "string \<Rightarrow> nat" where
  "mod_key_measure data = strlen data + MOD_KEY_SUFFIX_LEN"


section \<open>Resolving a name\<close>

lemma dropWhile_shorter: "length (dropWhile P cs) - Suc 0 < Suc (length cs)"
  by (meson diff_le_self le_imp_less_Suc length_dropWhile_le order_trans)

text \<open>
  The search loop over a colon-separated list; \<open>leaf\<close> carries the suffix already. A refused
  allocation ends the search with a null result.
\<close>

function module_search_path_list :: "'h env \<Rightarrow> 'h xy_state \<Rightarrow> string \<Rightarrow> string \<Rightarrow> string option" where
  "module_search_path_list E s [] leaf = None"
| "module_search_path_list E s (c # cs) leaf =
     (let p = c # cs;
          dir = takeWhile (\<lambda>c. c \<noteq> CHR '':'') p;
          p' = tl (dropWhile (\<lambda>c. c \<noteq> CHR '':'') p)
      in if dir \<noteq> []
         then if \<not> malloc_ok E s (length dir + 1 + length leaf + 1) then None
              else case stl_realpath E (dir @ ''/'' @ leaf) of
                     Some resolved \<Rightarrow> Some resolved
                   | None \<Rightarrow> module_search_path_list E s p' leaf
         else module_search_path_list E s p' leaf)"
  by pat_completeness auto
termination
  by (relation "measure (\<lambda>(E, s, p, leaf). length p)") (auto intro: dropWhile_shorter)

declare module_search_path_list.simps(2) [simp del]

definition ld_vars :: "string list" where
  "ld_vars = [''LD_LIBRARY_PATH'', ''DYLD_LIBRARY_PATH'']"

definition ld_defaults :: "string list" where
  "ld_defaults = [''/lib'', ''/usr/lib'', ''/usr/local/lib'']"

text \<open>The first hit of a list of searches.\<close>

fun first_some :: "('a \<Rightarrow> 'b option) \<Rightarrow> 'a list \<Rightarrow> 'b option" where
  "first_some f [] = None"
| "first_some f (x # xs) = (case f x of Some y \<Rightarrow> Some y | None \<Rightarrow> first_some f xs)"

definition module_load_path :: "'h env \<Rightarrow> 'h xy_state \<Rightarrow> string \<Rightarrow> string option" where
  "module_load_path E s fname =
     (let buf = fname @ ''.so''
      in if \<not> malloc_ok E s (length buf + 1) then None
         else case stl_realpath E buf of
           Some resolved \<Rightarrow> Some resolved
         | None \<Rightarrow>
             if CHR ''/'' \<notin> set buf
             then (case first_some (\<lambda>v. case getenv E v of
                       None \<Rightarrow> None
                     | Some ld \<Rightarrow> if ld = [] then None else module_search_path_list E s ld buf) ld_vars of
                     Some resolved \<Rightarrow> Some resolved
                   | None \<Rightarrow>
                       (case first_some (\<lambda>d. module_search_path_list E s d buf) ld_defaults of
                          Some resolved \<Rightarrow> Some resolved
                        | None \<Rightarrow> Some buf))
             else Some buf)"


section \<open>Interning\<close>

text \<open>
  \<^verbatim>\<open>module_path_intern\<close> takes over a heap string. A path seen before gives the pointer stored
  then (the argument is freed); otherwise the argument itself, here at a fresh address, is
  entered in the table and returned.
\<close>

definition module_path_intern ::
  "'h env \<Rightarrow> string option \<Rightarrow> 'h xy_state \<Rightarrow> sptr option \<times> 'h xy_state" where
  "module_path_intern E path s =
     (case path of
        None \<Rightarrow> (None, s)
      | Some str \<Rightarrow>
          (let s1 = (if path_intern_hd (xy_rt s) = 0
                     then (let (d, s') = tbl_open E False s in upd_rt (\<lambda>r. r\<lparr>path_intern_hd := d\<rparr>) s')
                     else s);
               d = path_intern_hd (xy_rt s1)
           in if d = 0 then (None, s1)
              else case tbl_get E s1 d (KStr str) of
                Some v \<Rightarrow> (corm_ptr (Some v), s1)
              | None \<Rightarrow>
                  (let p = next_addr s1;
                       s2 = s1\<lparr>paths := (paths s1)(p \<mapsto> str), next_addr := Suc p\<rparr>
                   in (Some p, tbl_put E d (KStr str) (VPtr p) s2))))"

definition path_intern_free_all :: "'h env \<Rightarrow> 'h xy_state \<Rightarrow> 'h xy_state" where
  "path_intern_free_all E s =
     (if path_intern_hd (xy_rt s) = 0 then s
      else upd_rt (\<lambda>r. r\<lparr>path_intern_hd := 0\<rparr>)
             (s\<lparr>st_corm := corm_close (env_corm E) (st_corm s) (path_intern_hd (xy_rt s))\<rparr>))"



section \<open>When two keys are equal\<close>

lemma length_hex [simp]: "length (hex n x) = n"
  by (induction n x rule: hex.induct) auto

lemma hex_digit_inj: "a < 16 \<Longrightarrow> b < 16 \<Longrightarrow> hex_digit a = hex_digit b \<Longrightarrow> a = b"
proof -
  have "distinct ''0123456789abcdef''" by simp
  moreover have "length ''0123456789abcdef'' = 16" by simp
  ultimately show "a < 16 \<Longrightarrow> b < 16 \<Longrightarrow> hex_digit a = hex_digit b \<Longrightarrow> a = b"
    unfolding hex_digit_def by (metis nth_eq_iff_index_eq)
qed

lemma hex_inj: "x < 16 ^ n \<Longrightarrow> y < 16 ^ n \<Longrightarrow> hex n x = hex n y \<Longrightarrow> x = y"
proof (induction n arbitrary: x y)
  case (Suc n)
  have "x div 16 = y div 16" using Suc by (intro Suc.IH) (auto simp: less_mult_imp_div_less mult.commute)
  moreover have "x mod 16 = y mod 16" using Suc.prems(3) by (auto intro: hex_digit_inj)
  ultimately show ?case by (metis div_mult_mod_eq)
qed simp

lemma strlen_plain: "NUL \<notin> set p \<Longrightarrow> strlen p = length p"
proof -
  assume "NUL \<notin> set p"
  then have "takeWhile (\<lambda>c. c \<noteq> NUL) p = p" by (auto simp: takeWhile_eq_all_conv)
  then show ?thesis unfolding strlen_def by (rule arg_cong)
qed

text \<open>
  The buffer that \<^verbatim>\<open>mod_key_len\<close> sizes is one byte too short for the formatted key: the last
  digit of the width is cut off by the terminating NUL.
\<close>

lemma mod_key_bytes:
  assumes "NUL \<notin> set path"
  shows "mod_key (mod_key_len path) path i plen =
     path @ [NUL] @ hex 16 (unat i) @ [hex_digit (unat plen div 16), NUL]"
proof -
  have "unat plen div 16 < 16" using u8_less_bound [of plen] by simp
  then have "hex 2 (unat plen) = [hex_digit (unat plen div 16), hex_digit (unat plen mod 16)]"
    by (simp add: numeral_2_eq_2)
  then show ?thesis
    using assms by (simp add: mod_key_def snprintf_def mod_key_len_def strlen_plain
        MOD_KEY_SUFFIX_LEN_def)
qed

lemma nul_split:
  "NUL \<notin> set p \<Longrightarrow> NUL \<notin> set q \<Longrightarrow> p @ NUL # xs = q @ NUL # ys \<longleftrightarrow> p = q \<and> xs = ys"
proof (induction p arbitrary: q)
  case Nil
  then show ?case by (cases q) auto
next
  case (Cons a p)
  then show ?case by (cases q) auto
qed

lemma mod_key_eq_iff:
  assumes "NUL \<notin> set p" "NUL \<notin> set q"
  shows "mod_key (mod_key_len p) p i a = mod_key (mod_key_len q) q j b \<longleftrightarrow>
     p = q \<and> i = j \<and> unat a div 16 = unat b div 16"
proof -
  have "unat a div 16 < 16" "unat b div 16 < 16"
    using u8_less_bound [of a] u8_less_bound [of b] by auto
  then have d: "hex_digit (unat a div 16) = hex_digit (unat b div 16) \<longleftrightarrow> unat a div 16 = unat b div 16"
    using hex_digit_inj [of "unat a div 16" "unat b div 16"] by auto
  have "unat k < 16 ^ 16" for k :: u64
    using unsigned_less [of k, where ?'a = nat] by simp
  then have h: "hex 16 (unat i) = hex 16 (unat j) \<longleftrightarrow> i = j"
    using hex_inj [of "unat i" 16 "unat j"] word_unat_eq_iff [of i j] by blast
  show ?thesis
    unfolding mod_key_bytes [OF assms(1)] mod_key_bytes [OF assms(2)]
    using nul_split [OF assms] d h by (simp add: append_eq_append_conv)
qed

lemma mod_key_measure_eq:
  "NUL \<notin> set p \<Longrightarrow> mod_key_measure (mod_key (mod_key_len p) p i a) = length (mod_key (mod_key_len p) p i a)"
  by (simp add: mod_key_bytes mod_key_measure_def strlen_def MOD_KEY_SUFFIX_LEN_def takeWhile_append)



section \<open>The directories a search scans\<close>

fun split_colon :: "string \<Rightarrow> string list" where
  "split_colon [] = [[]]"
| "split_colon (c # cs) =
     (if c = CHR '':'' then [] # split_colon cs
      else (c # hd (split_colon cs)) # tl (split_colon cs))"

definition path_dirs :: "string \<Rightarrow> string list" where
  "path_dirs p = filter (\<lambda>d. d \<noteq> []) (split_colon p)"

lemma split_colon_unfold:
  "split_colon p = takeWhile (\<lambda>c. c \<noteq> CHR '':'') p #
     (case dropWhile (\<lambda>c. c \<noteq> CHR '':'') p of [] \<Rightarrow> [] | _ # q \<Rightarrow> split_colon q)"
  by (induction p) auto

lemma path_dirs_unfold:
  "path_dirs (c # cs) =
     (if c = CHR '':'' then path_dirs cs
      else (c # takeWhile (\<lambda>c. c \<noteq> CHR '':'') cs) #
           path_dirs (tl (dropWhile (\<lambda>c. c \<noteq> CHR '':'') cs)))"
proof (cases "dropWhile (\<lambda>c. c \<noteq> CHR '':'') cs")
  case Nil
  show ?thesis unfolding path_dirs_def split_colon.simps(2) split_colon_unfold [of cs] Nil by simp
next
  case (Cons a q)
  show ?thesis unfolding path_dirs_def split_colon.simps(2) split_colon_unfold [of cs] Cons by simp
qed

lemma path_dirs_Nil [simp]: "path_dirs [] = []"
  by (simp add: path_dirs_def)

lemma search_path_list_eq:
  assumes "\<And>n. malloc_ok E s n"
  shows "module_search_path_list E s p leaf =
     first_some (\<lambda>d. stl_realpath E (d @ ''/'' @ leaf)) (path_dirs p)"
  using assms
proof (induction E s p leaf rule: module_search_path_list.induct)
  case (2 E s c cs leaf)
  then show ?case
    by (subst module_search_path_list.simps(2))
       (auto simp: Let_def path_dirs_unfold split: option.splits)
qed simp


lemma load_path_returns:
  assumes "\<And>n. malloc_ok E s n"
  shows "\<exists>path. module_load_path E s fname = Some path"
  using assms by (auto simp: module_load_path_def Let_def split: option.split)


section \<open>Interned pointers\<close>

text \<open>The intern table and the strings it points to agree.\<close>

definition intern_wf :: "'h env \<Rightarrow> 'h xy_state \<Rightarrow> bool" where
  "intern_wf E s \<longleftrightarrow>
     path_intern_hd (xy_rt s) \<noteq> 0 \<and> tbl_single E s (path_intern_hd (xy_rt s)) \<and>
     (\<forall>str v. tbl_get E s (path_intern_hd (xy_rt s)) (KStr str) = Some v \<longrightarrow>
        (\<exists>p. v = VPtr p \<and> paths s p = Some str)) \<and>
     (\<forall>p. paths s p \<noteq> None \<longrightarrow> p < next_addr s)"

lemma intern_result:
  assumes E: "env_ok E" and wf: "intern_wf E s"
  shows "\<exists>p s'. module_path_intern E (Some str) s = (Some p, s') \<and> intern_wf E s' \<and>
     paths s' p = Some str \<and>
     tbl_get E s' (path_intern_hd (xy_rt s')) (KStr str) = Some (VPtr p) \<and>
     (\<forall>q x. paths s q = Some x \<longrightarrow> paths s' q = Some x) \<and>
     (\<forall>x v. tbl_get E s (path_intern_hd (xy_rt s)) (KStr x) = Some v \<longrightarrow>
        tbl_get E s' (path_intern_hd (xy_rt s')) (KStr x) = Some v) \<and>
     regions s' = regions s \<and> mods s' = mods s \<and> xy_rt s' = xy_rt s \<and>
     next_addr s \<le> next_addr s' \<and> xy_current_region_entry s' = xy_current_region_entry s \<and>
     xy_current_region_id s' = xy_current_region_id s \<and> tbl_single E s' = tbl_single E s \<and>
     (\<forall>d. d \<noteq> path_intern_hd (xy_rt s) \<longrightarrow> tbl_single E s d \<longrightarrow> tbl_get E s' d = tbl_get E s d)"
proof (cases "tbl_get E s (path_intern_hd (xy_rt s)) (KStr str)")
  case (Some v)
  with wf obtain p where "v = VPtr p" "paths s p = Some str" by (auto simp: intern_wf_def)
  with Some wf show ?thesis by (auto simp: module_path_intern_def intern_wf_def)
next
  case None
  define d where "d = path_intern_hd (xy_rt s)"
  define p where "p = next_addr s"
  define s2 where "s2 = s\<lparr>paths := (paths s)(p \<mapsto> str), next_addr := Suc p\<rparr>"
  define s' where "s' = tbl_put E d (KStr str) (VPtr p) s2"
  have d: "d \<noteq> 0" "tbl_single E s d" using wf by (simp_all add: intern_wf_def d_def)
  have same: "tbl_get E s2 = tbl_get E s" "tbl_single E s2 = tbl_single E s"
    by (auto simp: s2_def intro!: tbl_get_cong tbl_single_cong)
  have res: "module_path_intern E (Some str) s = (Some p, s')"
    using None d by (simp add: module_path_intern_def s'_def s2_def p_def d_def Let_def)
  have fresh: "paths s p = None" using wf by (auto simp: intern_wf_def p_def)
  have flds: "xy_rt s' = xy_rt s" "paths s' = (paths s)(p \<mapsto> str)" "next_addr s' = Suc p"
    "regions s' = regions s" "mods s' = mods s"
    "xy_current_region_entry s' = xy_current_region_entry s"
    "xy_current_region_id s' = xy_current_region_id s"
    by (simp_all add: s'_def s2_def heap_simps)
  have tabs: "tbl_single E s' = tbl_single E s"
    "\<And>d'. d' \<noteq> d \<Longrightarrow> tbl_single E s d' \<Longrightarrow> tbl_get E s' d' = tbl_get E s d'"
    using E by (auto simp: s'_def tbl_single_put tbl_get_put same fun_eq_iff)
  have get: "tbl_get E s' d k = (if k = KStr str then Some (VPtr p) else tbl_get E s d k)" for k
    using E d by (simp add: s'_def tbl_get_put same)
  have "\<exists>q. v = VPtr q \<and> paths s' q = Some x" if v: "tbl_get E s' d (KStr x) = Some v" for x v
  proof (cases "x = str")
    case True
    with v get flds show ?thesis by auto
  next
    case False
    with v get have "tbl_get E s d (KStr x) = Some v" by simp
    then obtain q where "v = VPtr q" "paths s q = Some x"
      using wf unfolding intern_wf_def d_def by blast
    with fresh flds show ?thesis by auto
  qed
  moreover have "tbl_single E s' d" using d E by (simp add: s'_def tbl_single_put same)
  moreover have "q < next_addr s'" if "paths s' q \<noteq> None" for q
    using that wf flds by (auto simp: intern_wf_def p_def less_Suc_eq split: if_splits)
  ultimately have "intern_wf E s'"
    using d(1) unfolding intern_wf_def flds(1) d_def [symmetric] by blast
  with res get fresh flds None tabs show ?thesis by (auto simp: d_def [symmetric] p_def)
qed



section \<open>Properties\<close>

text \<open>
  C35. Two modules get the same key in the module table exactly when they have the same resolved
  path, the same region id and widths that agree in their \<^emph>\<open>high\<close> hexadecimal digit: the key
  buffer is one byte short and the low digit of the width is lost, so the same file in the
  regions \<open>(0, 16)\<close> and \<open>(0, 17)\<close> has one key, not two.
\<close>

theorem mod_key_equal_iff:
  assumes "NUL \<notin> set p" "NUL \<notin> set q"
  shows "mod_key (mod_key_len p) p i a = mod_key (mod_key_len q) q j b \<longleftrightarrow>
     p = q \<and> i = j \<and> unat a div 16 = unat b div 16"
  using mod_key_eq_iff [OF assms] .

theorem mod_key_equal_iff_witness:
  "mod_key (mod_key_len ''/m.so'') ''/m.so'' 0 16 = mod_key (mod_key_len ''/m.so'') ''/m.so'' 0 17 \<and>
   mod_key (mod_key_len ''/m.so'') ''/m.so'' 0 16 \<noteq> mod_key (mod_key_len ''/m.so'') ''/m.so'' 0 32"
  using mod_key_equal_iff [of "''/m.so''" "''/m.so''" 0 16 0 17]
    mod_key_equal_iff [of "''/m.so''" "''/m.so''" 0 16 0 32] by (simp add: NUL_def)

text \<open>
  The name \<open>fname\<close> resolves to the canonical path of \<open>fname.so\<close> when there is one; a bare
  name is then looked for in the non-empty directories of \<^verbatim>\<open>LD_LIBRARY_PATH\<close>,
  \<^verbatim>\<open>DYLD_LIBRARY_PATH\<close> and the three system directories, in that order, and the first canonical
  path found is returned; otherwise the name with its suffix is. The search always returns.
\<close>

theorem load_path_order:
  assumes "\<And>n. malloc_ok E s n"
  shows "module_load_path E s fname =
     Some (case stl_realpath E (fname @ ''.so'') of
        Some r \<Rightarrow> r
      | None \<Rightarrow>
          (if CHR ''/'' \<in> set fname then fname @ ''.so''
           else case first_some (\<lambda>d. stl_realpath E (d @ ''/'' @ fname @ ''.so''))
                  (concat (map (\<lambda>v. case getenv E v of None \<Rightarrow> [] | Some ld \<Rightarrow> path_dirs ld)
                     [''LD_LIBRARY_PATH'', ''DYLD_LIBRARY_PATH'']) @
                   [''/lib'', ''/usr/lib'', ''/usr/local/lib'']) of
                  Some r \<Rightarrow> r | None \<Rightarrow> fname @ ''.so''))"
proof -
  have app: "first_some f (xs @ ys) = (case first_some f xs of Some y \<Rightarrow> Some y | None \<Rightarrow> first_some f ys)"
    for f :: "string \<Rightarrow> string option" and xs ys
    by (induction xs) (auto split: option.splits)
  have env: "(case getenv E v of None \<Rightarrow> None
        | Some ld \<Rightarrow> if ld = [] then None else module_search_path_list E s ld leaf) =
      first_some (\<lambda>d. stl_realpath E (d @ ''/'' @ leaf))
        (case getenv E v of None \<Rightarrow> [] | Some ld \<Rightarrow> path_dirs ld)" for v leaf
    by (auto simp: search_path_list_eq [OF assms] split: option.splits)
  have dir: "path_dirs ''/lib'' = [''/lib'']" "path_dirs ''/usr/lib'' = [''/usr/lib'']"
    "path_dirs ''/usr/local/lib'' = [''/usr/local/lib'']"
    by (simp_all add: path_dirs_def)
  show ?thesis
    using assms
    by (simp add: module_load_path_def Let_def ld_vars_def ld_defaults_def env app dir
        search_path_list_eq [OF assms] split: option.split)
qed

theorem load_path_order_witness:
  "module_load_path demo_env demo_start ''mods/a'' = Some ''mods/a.so''"
  using load_path_order [of demo_env demo_start "''mods/a''"] by (simp add: demo_env_def)

text \<open>
  Interning gives pointer identity the meaning of path identity: after interning one path
  and then another, the two pointers are equal exactly when the paths are, each pointer
  still points to its path, and no earlier pointer has changed.
\<close>

theorem intern_pointer_identity:
  assumes "env_ok E" "intern_wf E s"
    and "module_path_intern E (Some a) s = (pa, s1)" "module_path_intern E (Some b) s1 = (pb, s2)"
  shows "intern_wf E s2 \<and> (\<exists>p q. pa = Some p \<and> pb = Some q \<and> (p = q \<longleftrightarrow> a = b) \<and>
     paths s2 p = Some a \<and> paths s2 q = Some b) \<and>
     (\<forall>p x. paths s p = Some x \<longrightarrow> paths s2 p = Some x)"
proof -
  obtain p where p: "pa = Some p" "intern_wf E s1" "paths s1 p = Some a"
    "tbl_get E s1 (path_intern_hd (xy_rt s1)) (KStr a) = Some (VPtr p)"
    "\<forall>q x. paths s q = Some x \<longrightarrow> paths s1 q = Some x"
    using intern_result [OF assms(1,2), of a] assms(3) by auto
  obtain q where q: "pb = Some q" "intern_wf E s2" "paths s2 q = Some b"
    "tbl_get E s2 (path_intern_hd (xy_rt s2)) (KStr b) = Some (VPtr q)"
    "\<forall>q x. paths s1 q = Some x \<longrightarrow> paths s2 q = Some x"
    "\<forall>x v. tbl_get E s1 (path_intern_hd (xy_rt s1)) (KStr x) = Some v \<longrightarrow>
        tbl_get E s2 (path_intern_hd (xy_rt s2)) (KStr x) = Some v"
    using intern_result [OF assms(1) p(2), of b] assms(4) by auto
  have "p = q \<longleftrightarrow> a = b" using p(3,4) q(3-6) by fastforce
  with p q show ?thesis by auto
qed

definition demo_interned :: "alist_corm xy_state" where
  "demo_interned = (let (d, s) = tbl_open demo_env False demo_start
     in upd_rt (\<lambda>r. r\<lparr>path_intern_hd := d\<rparr>) s)"

lemma demo_intern_wf: "intern_wf demo_env demo_interned"
  by (simp add: intern_wf_def demo_interned_def tbl_open_def upd_rt_def tbl_single_def tbl_get_def
      demo_env_def list_corm_def demo_start_def)

theorem intern_pointer_identity_witness:
  "\<exists>p s1 q s2. module_path_intern demo_env (Some ''/a.so'') demo_interned = (Some p, s1) \<and>
     module_path_intern demo_env (Some ''/b.so'') s1 = (Some q, s2) \<and> p \<noteq> q"
proof -
  obtain pa s1 where 1: "module_path_intern demo_env (Some ''/a.so'') demo_interned = (pa, s1)"
    by fastforce
  obtain pb s2 where 2: "module_path_intern demo_env (Some ''/b.so'') s1 = (pb, s2)"
    by fastforce
  from intern_pointer_identity [OF demo_env_ok demo_intern_wf 1 2] 1 2 show ?thesis by auto
qed

end
