(* ===== verification/Xy_Hooks.thy ===== *)
theory Xy_Hooks
  imports Xy_Subtree Xy_Path
begin

text \<open>
  Which hooks a module implements, from \<^verbatim>\<open>src/libxylem.c\<close>, \<^verbatim>\<open>src/libxylem-internal.h\<close> and
  \<^verbatim>\<open>src/libxylem-dispatch.c\<close>: the per-module bit set of implemented hooks, the per-module cache
  of resolved symbols, the test that a symbol is defined by the module itself, and the lazy and
  eager resolution. The lemmas show that the bit set is a set, that resolution returns exactly
  the module's own symbol, and that it keeps cache and bit set in agreement.
\<close>

section \<open>The bit set\<close>

definition module_has_hook_implemented :: "xy_mod_entry \<Rightarrow> int \<Rightarrow> bool" where
  "module_has_hook_implemented e hook_id =
     (if hook_id < 0 then False
      else let word = nat (hook_id div 64)
           in if word \<ge> length (me_hook_impl_bits e) then False
              else me_hook_impl_bits e ! word AND push_bit (nat (hook_id mod 64)) 1 \<noteq> 0)"

definition module_ensure_hook_impl_words ::
  "'h env \<Rightarrow> mptr option \<Rightarrow> int \<Rightarrow> 'h xy_state \<Rightarrow> (int \<times> 'h xy_state) option" where
  "module_ensure_hook_impl_words E me hook_id s =
     (case me of
        None \<Rightarrow> Some (-1, s)
      | Some m \<Rightarrow>
          if hook_id < 0 then Some (-1, s)
          else do { e \<leftarrow> mods s m;
                    let needed_words = nat (hook_id div 64) + 1;
                    if needed_words \<le> length (me_hook_impl_bits e) then Some (0, s)
                    else if \<not> malloc_ok E s (needed_words * 8) then Some (-1, s)
                    else Some (0, upd_mod m (\<lambda>e. e\<lparr>me_hook_impl_bits := me_hook_impl_bits e @
                           replicate (needed_words - length (me_hook_impl_bits e)) 0\<rparr>) s) })"

definition module_mark_hook_implemented ::
  "'h env \<Rightarrow> mptr option \<Rightarrow> int \<Rightarrow> 'h xy_state \<Rightarrow> 'h xy_state option" where
  "module_mark_hook_implemented E me hook_id s =
     (case me of
        None \<Rightarrow> Some s
      | Some m \<Rightarrow>
          if hook_id < 0 then Some s
          else do { (rc, s1) \<leftarrow> module_ensure_hook_impl_words E (Some m) hook_id s;
                    if rc < 0 then Some s1
                    else Some (upd_mod m (\<lambda>e.
                      let w = nat (hook_id div 64)
                      in e\<lparr>me_hook_impl_bits := (me_hook_impl_bits e)
                           [w := me_hook_impl_bits e ! w OR push_bit (nat (hook_id mod 64)) 1]\<rparr>) s1) })"


section \<open>The symbol cache\<close>

definition module_ensure_fn_cache_cap ::
  "'h env \<Rightarrow> mptr option \<Rightarrow> int \<Rightarrow> 'h xy_state \<Rightarrow> (int \<times> 'h xy_state) option" where
  "module_ensure_fn_cache_cap E me needed s =
     (case me of
        None \<Rightarrow> Some (0, s)
      | Some m \<Rightarrow>
          do { e \<leftarrow> mods s m;
               if needed \<le> int (length (me_fn_cache e)) then Some (0, s)
               else if \<not> malloc_ok E s (nat needed * 8) then Some (-1, s)
               else Some (0, upd_mod m (\<lambda>e. e\<lparr>me_fn_cache := me_fn_cache e @
                      replicate (nat needed - length (me_fn_cache e)) FN_NULL\<rparr>) s) })"

text \<open>\<^verbatim>\<open>module_lookup_symbol_raw(me->handle, name)\<close>; a null handle is 0.\<close>

definition module_lookup_symbol_raw :: "'h env \<Rightarrow> dlhandle option \<Rightarrow> string \<Rightarrow> fnptr option" where
  "module_lookup_symbol_raw E handle symbol = stl_dlsym E (case handle of None \<Rightarrow> 0 | Some h \<Rightarrow> h) symbol"

text \<open>
  \<^verbatim>\<open>module_symbol_is_local\<close>, the \<^verbatim>\<open>dlinfo\<close> branch: the object that holds the address is the one
  the module's handle stands for. A failed query is never taken for a yes.
\<close>

definition module_symbol_is_local :: "'h env \<Rightarrow> xy_mod_entry \<Rightarrow> fnptr option \<Rightarrow> bool" where
  "module_symbol_is_local E e symb =
     (case (me_handle e, symb) of
        (Some h, Some f) \<Rightarrow>
          (case dlinfo_base E h of
             None \<Rightarrow> False
           | Some base \<Rightarrow>
               (case dladdr_base E f of None \<Rightarrow> False | Some fbase \<Rightarrow> fbase = base))
      | _ \<Rightarrow> False)"

text \<open>The result of \<^verbatim>\<open>fn_cache_resolve\<close>: a callback, null, or \<^verbatim>\<open>XY_FN_RESOLVE_OOM\<close>.\<close>

datatype resolved = Resolved fnptr | Unresolved | Resolve_OOM

definition fn_cache_resolve ::
  "'h env \<Rightarrow> mptr \<Rightarrow> int \<Rightarrow> string \<Rightarrow> 'h xy_state \<Rightarrow> (resolved \<times> 'h xy_state) option" where
  "fn_cache_resolve E m hook_id name s =
     do { e \<leftarrow> mods s m;
          if 0 \<le> hook_id \<and> hook_id < int (length (me_fn_cache e)) \<and> me_fn_cache e ! nat hook_id \<noteq> FN_NULL
          then Some (case me_fn_cache e ! nat hook_id of Fn f \<Rightarrow> Resolved f | _ \<Rightarrow> Unresolved, s)
          else do {
            (rc, s1) \<leftarrow> (if 0 \<le> hook_id \<and> \<not> hook_id < int (length (me_fn_cache e))
                        then module_ensure_fn_cache_cap E (Some m) (hook_id + 16) s else Some (0, s));
            if rc < 0 then Some (Resolve_OOM, s1)
            else do {
              let symb = module_lookup_symbol_raw E (me_handle e) name;
              let cb = (if symb \<noteq> None \<and> \<not> module_symbol_is_local E e symb then None else symb);
              let s2 = (if 0 \<le> hook_id
                        then upd_mod m (\<lambda>e. e\<lparr>me_fn_cache := (me_fn_cache e)
                               [nat hook_id := (case cb of Some f \<Rightarrow> Fn f | None \<Rightarrow> XY_FN_NOT_FOUND)]\<rparr>) s1
                        else s1);
              s3 \<leftarrow> (if cb \<noteq> None \<and> 0 \<le> hook_id
                     then module_mark_hook_implemented E (Some m) hook_id s2 else Some s2);
              Some (case cb of Some f \<Rightarrow> Resolved f | None \<Rightarrow> Unresolved, s3) } } }"

text \<open>The loop of \<^verbatim>\<open>fn_cache_prewarm\<close> over the table of hook names.\<close>

fun prewarm_loop ::
  "'h env \<Rightarrow> mptr \<Rightarrow> (corm_key \<times> corm_val) list \<Rightarrow> 'h xy_state \<Rightarrow> 'h xy_state option" where
  "prewarm_loop E m [] s = Some s"
| "prewarm_loop E m ((KStr name, VInt hook_id) # kvs) s =
     do { e \<leftarrow> mods s m;
          if hook_id < 0 \<or> hook_id \<ge> int (length (me_fn_cache e)) then prewarm_loop E m kvs s
          else if me_fn_cache e ! nat hook_id \<noteq> FN_NULL then prewarm_loop E m kvs s
          else do {
            let symb = module_lookup_symbol_raw E (me_handle e) name;
            let cb = (if symb \<noteq> None \<and> \<not> module_symbol_is_local E e symb then None else symb);
            let s1 = upd_mod m (\<lambda>e. e\<lparr>me_fn_cache := (me_fn_cache e)
                       [nat hook_id := (case cb of Some f \<Rightarrow> Fn f | None \<Rightarrow> XY_FN_NOT_FOUND)]\<rparr>) s;
            s2 \<leftarrow> (if cb \<noteq> None then module_mark_hook_implemented E (Some m) hook_id s1 else Some s1);
            prewarm_loop E m kvs s2 } }"
| "prewarm_loop E m (_ # kvs) s = None"

definition fn_cache_prewarm ::
  "'h env \<Rightarrow> mptr option \<Rightarrow> 'h xy_state \<Rightarrow> (int \<times> 'h xy_state) option" where
  "fn_cache_prewarm E me s =
     (case me of
        None \<Rightarrow> Some (0, s)
      | Some m \<Rightarrow>
          do { e \<leftarrow> mods s m;
               if me_handle e = None then Some (0, s)
               else let needed = xy_hook_id_counter (xy_rt s)
                    in if needed \<le> 0 then Some (0, s)
                       else do { (rc, s1) \<leftarrow> module_ensure_fn_cache_cap E (Some m) (needed + 16) s;
                                 if rc < 0 then Some (-1, s1)
                                 else do { s2 \<leftarrow> prewarm_loop E m (tbl_iter E s1 (hook_id_hd (xy_rt s1))) s1;
                                           Some (0, s2) } } })"


section \<open>The bit set is a set\<close>

lemma has_hook_iff:
  "module_has_hook_implemented e h \<longleftrightarrow>
     0 \<le> h \<and> nat (h div 64) < length (me_hook_impl_bits e) \<and>
     bit (me_hook_impl_bits e ! nat (h div 64)) (nat (h mod 64))"
  by (auto simp: module_has_hook_implemented_def Let_def and_exp_eq_0_iff_not_bit not_le not_less)

text \<open>The entry after marking, when the allocator does not refuse.\<close>

definition marked :: "int \<Rightarrow> xy_mod_entry \<Rightarrow> xy_mod_entry" where
  "marked h e =
     (let w = nat (h div 64);
          bs = me_hook_impl_bits e @ replicate (w + 1 - length (me_hook_impl_bits e)) 0
      in e\<lparr>me_hook_impl_bits := bs[w := bs ! w OR push_bit (nat (h mod 64)) 1]\<rparr>)"

lemma mark_eq:
  assumes "never_oom E" "0 \<le> h" "mods s m = Some e"
  shows "module_mark_hook_implemented E (Some m) h s = Some (upd_mod m (marked h) s)"
proof -
  have "upd_mod m f s = upd_mod m (marked h) s" if "f e = marked h e" for f
    using that assms(3) by (auto simp: upd_mod_def intro!: xy_state.equality)
  then show ?thesis
    using assms
    by (auto simp: module_mark_hook_implemented_def module_ensure_hook_impl_words_def never_oom_def
        Let_def marked_def upd_mod_def)
qed

lemma nth_pad:
  "i < length xs + n \<Longrightarrow> (xs @ replicate n a) ! i = (if i < length xs then xs ! i else a)"
  by (auto simp: nth_append)

lemma has_hook_marked:
  assumes "0 \<le> h" "0 \<le> k"
  shows "module_has_hook_implemented (marked h e) k \<longleftrightarrow> k = h \<or> module_has_hook_implemented e k"
proof -
  let ?w = "nat (h div 64)" and ?bs = "me_hook_impl_bits e"
  have eq: "k = h \<longleftrightarrow> nat (k div 64) = ?w \<and> nat (k mod 64) = nat (h mod 64)"
    using assms by (metis eq_nat_nat_iff mult_div_mod_eq pos_imp_zdiv_nonneg_iff pos_mod_sign zero_less_numeral)
  have lt: "nat (k mod 64) < 64" "nat (h mod 64) < 64" by (simp_all add: nat_less_iff)
  show ?thesis
  proof (cases "nat (k div 64) = ?w")
    case True
    then have "k = h \<longleftrightarrow> nat (k mod 64) = nat (h mod 64)" using eq by simp
    moreover have "bit (2 ^ nat (h mod 64) :: u64) (nat (k mod 64)) \<longleftrightarrow> nat (k mod 64) = nat (h mod 64)"
      using lt by (auto simp: bit_exp_iff)
    ultimately show ?thesis
      unfolding has_hook_iff using True assms
      by (cases "?w < length ?bs") (auto simp: marked_def Let_def nth_pad bit_or_iff)
  next
    case False
    then have "k \<noteq> h" by auto
    with False assms show ?thesis
      by (auto simp: has_hook_iff marked_def Let_def nth_pad split: if_splits)
  qed
qed



section \<open>Resolution\<close>

text \<open>
  The function with which the module itself implements a hook, if it does, in terms of the linker
  alone: the module has a handle, the name is found through it, and the linker places the address
  in the very object the handle stands for.
\<close>

definition hook_fn :: "'h env \<Rightarrow> xy_mod_entry \<Rightarrow> string \<Rightarrow> fnptr option" where
  "hook_fn E e name =
     do { h \<leftarrow> me_handle e;
          f \<leftarrow> stl_dlsym E h name;
          own \<leftarrow> dlinfo_base E h;
          if dladdr_base E f = Some own then Some f else None }"

lemma hook_fn_local:
  "hook_fn E e name =
     (let symb = module_lookup_symbol_raw E (me_handle e) name
      in if module_symbol_is_local E e symb then symb else None)"
  by (auto simp: hook_fn_def Let_def module_symbol_is_local_def module_lookup_symbol_raw_def split: option.splits)

lemma cb_eq:
  "(if module_lookup_symbol_raw E (me_handle e) name \<noteq> None \<and>
       \<not> module_symbol_is_local E e (module_lookup_symbol_raw E (me_handle e) name)
    then None else module_lookup_symbol_raw E (me_handle e) name) = hook_fn E e name"
  by (auto simp: hook_fn_local Let_def module_symbol_is_local_def split: option.splits)

text \<open>Cache slot and bit of one hook agree with each other and with the module.\<close>

definition cache_ok :: "'h env \<Rightarrow> xy_mod_entry \<Rightarrow> int \<Rightarrow> string \<Rightarrow> bool" where
  "cache_ok E e h name \<longleftrightarrow>
     (if h < int (length (me_fn_cache e))
      then (case me_fn_cache e ! nat h of
              FN_NULL \<Rightarrow> \<not> module_has_hook_implemented e h
            | XY_FN_NOT_FOUND \<Rightarrow> hook_fn E e name = None \<and> \<not> module_has_hook_implemented e h
            | Fn f \<Rightarrow> hook_fn E e name = Some f \<and> module_has_hook_implemented e h)
      else \<not> module_has_hook_implemented e h)"

definition slot_of :: "fnptr option \<Rightarrow> fn_slot" where
  "slot_of f = (case f of Some f \<Rightarrow> Fn f | None \<Rightarrow> XY_FN_NOT_FOUND)"

text \<open>The entry after an answer has been stored, in a cache grown to \<open>n\<close> slots.\<close>

definition answered :: "int \<Rightarrow> nat \<Rightarrow> fnptr option \<Rightarrow> xy_mod_entry \<Rightarrow> xy_mod_entry" where
  "answered h n f e =
     (let e1 = e\<lparr>me_fn_cache := (me_fn_cache e @ replicate (n - length (me_fn_cache e)) FN_NULL)
                  [nat h := slot_of f]\<rparr>
      in if f = None then e1 else marked h e1)"

lemma marked_fields [simp]:
  "me_fn_cache (marked h e) = me_fn_cache e" "me_handle (marked h e) = me_handle e"
  by (simp_all add: marked_def Let_def)

lemma answered_fields:
  "me_fn_cache (answered h n f e) =
     (me_fn_cache e @ replicate (n - length (me_fn_cache e)) FN_NULL)[nat h := slot_of f]"
  "me_handle (answered h n f e) = me_handle e"
  by (simp_all add: answered_def Let_def)

lemma hook_fn_handle: "me_handle e' = me_handle e \<Longrightarrow> hook_fn E e' name = hook_fn E e name"
  by (simp add: hook_fn_def)

lemma hook_fn_answered [simp]: "hook_fn E (answered h n f e) name = hook_fn E e name"
  by (rule hook_fn_handle) (simp add: answered_fields)

lemma has_hook_answered:
  assumes "0 \<le> h" "0 \<le> k"
  shows "module_has_hook_implemented (answered h n f e) k \<longleftrightarrow>
     (k = h \<and> f \<noteq> None) \<or> module_has_hook_implemented e k"
proof -
  have "module_has_hook_implemented (e\<lparr>me_fn_cache := c\<rparr>) k = module_has_hook_implemented e k" for c
    by (simp add: has_hook_iff)
  then show ?thesis using has_hook_marked [OF assms] by (auto simp: answered_def Let_def)
qed

lemma cache_ok_answered:
  assumes h: "0 \<le> h" "nat h < n" and no: "\<not> module_has_hook_implemented e h"
  shows "cache_ok E (answered h n (hook_fn E e name) e) h name"
    "0 \<le> k \<Longrightarrow> k \<noteq> h \<Longrightarrow> cache_ok E e k other \<Longrightarrow>
     cache_ok E (answered h n (hook_fn E e name) e) k other"
proof -
  let ?e = "answered h n (hook_fn E e name) e"
  have len: "nat h < length (me_fn_cache ?e)" using h by (simp add: answered_fields)
  have "me_fn_cache ?e ! nat h = slot_of (hook_fn E e name)" using len by (simp add: answered_fields)
  then show "cache_ok E ?e h name"
    using len h no by (auto simp: cache_ok_def has_hook_answered slot_of_def split: option.splits)
  assume k: "0 \<le> k" "k \<noteq> h" "cache_ok E e k other"
  have has: "module_has_hook_implemented ?e k = module_has_hook_implemented e k"
    using h k by (simp add: has_hook_answered)
  have ne: "nat k \<noteq> nat h" using h k by auto
  have nth: "me_fn_cache ?e ! nat k = (if nat k < length (me_fn_cache e) then me_fn_cache e ! nat k else FN_NULL)"
    if "nat k < length (me_fn_cache ?e)" using that ne by (simp add: answered_fields nth_pad)
  show "cache_ok E ?e k other"
  proof (cases "nat k < length (me_fn_cache ?e)")
    case True
    with nth k(1,3) has show ?thesis
      by (auto simp: cache_ok_def split: fn_slot.splits if_splits)
  next
    case False
    then have "\<not> nat k < length (me_fn_cache e)" by (simp add: answered_fields)
    with False k(1,3) has show ?thesis by (auto simp: cache_ok_def)
  qed
qed

lemma upd_mod_cong: "mods s m = Some e \<Longrightarrow> f e = g e \<Longrightarrow> upd_mod m f s = upd_mod m g s"
  by (auto simp: upd_mod_def intro!: xy_state.equality)

lemma answered_grown:
  "nat h < length (me_fn_cache e) \<Longrightarrow>
   answered h (length (me_fn_cache e)) f e =
     (let e1 = e\<lparr>me_fn_cache := (me_fn_cache e)[nat h := slot_of f]\<rparr>
      in if f = None then e1 else marked h e1)"
  by (simp add: answered_def)

lemma fn_cache_resolve_eq:
  assumes mem: "never_oom E" and h: "0 \<le> h" and e: "mods s m = Some e"
  shows "fn_cache_resolve E m h name s =
     (if nat h < length (me_fn_cache e) \<and> me_fn_cache e ! nat h \<noteq> FN_NULL
      then Some (case me_fn_cache e ! nat h of Fn f \<Rightarrow> Resolved f | _ \<Rightarrow> Unresolved, s)
      else Some (case hook_fn E e name of Some f \<Rightarrow> Resolved f | None \<Rightarrow> Unresolved,
             upd_mod m (answered h (if nat h < length (me_fn_cache e) then length (me_fn_cache e)
                                    else nat (h + 16)) (hook_fn E e name)) s))"
proof (cases "nat h < length (me_fn_cache e) \<and> me_fn_cache e ! nat h \<noteq> FN_NULL")
  case True
  with h e show ?thesis by (auto simp: fn_cache_resolve_def)
next
  case False
  let ?n = "if nat h < length (me_fn_cache e) then length (me_fn_cache e) else nat (h + 16)"
  let ?f = "hook_fn E e name"
  define g :: "xy_mod_entry \<Rightarrow> xy_mod_entry" where "g = (\<lambda>e. e\<lparr>me_fn_cache := me_fn_cache e @ replicate (?n - length (me_fn_cache e)) FN_NULL\<rparr>)"
  have grow: "(if 0 \<le> h \<and> \<not> h < int (length (me_fn_cache e))
      then module_ensure_fn_cache_cap E (Some m) (h + 16) s else Some (0, s)) = Some (0, upd_mod m g s)"
  proof (cases "nat h < length (me_fn_cache e)")
    case True
    then have "upd_mod m g s = s" using e by (auto simp: upd_mod_def g_def intro!: xy_state.equality)
    with True h show ?thesis by auto
  next
    case False
    with h e mem show ?thesis
      by (auto simp: module_ensure_fn_cache_cap_def never_oom_def g_def)
  qed
  let ?s2 = "upd_mod m (\<lambda>e. e\<lparr>me_fn_cache := (me_fn_cache e)[nat h := slot_of ?f]\<rparr>) (upd_mod m g s)"
  have s2: "?s2 = upd_mod m (\<lambda>e. e\<lparr>me_fn_cache := (me_fn_cache (g e))[nat h := slot_of ?f]\<rparr>) s"
    using e by (auto simp: upd_mod_def g_def intro!: xy_state.equality)
  have fin: "(if ?f \<noteq> None \<and> 0 \<le> h then module_mark_hook_implemented E (Some m) h ?s2 else Some ?s2) =
      Some (upd_mod m (answered h ?n ?f) s)"
  proof (cases ?f)
    case None
    with s2 e show ?thesis
      by (auto simp: answered_def g_def intro!: upd_mod_cong [OF e])
  next
    case (Some fp)
    have "mods ?s2 m = Some (e\<lparr>me_fn_cache := (me_fn_cache (g e))[nat h := slot_of ?f]\<rparr>)"
      using e by (simp add: s2 heap_simps)
    from mark_eq [OF mem h this] Some h e s2 show ?thesis
      by (auto simp: answered_def g_def upd_mod_def intro!: xy_state.equality)
  qed
  from False h have cond: "\<not> (0 \<le> h \<and> h < int (length (me_fn_cache e)) \<and> me_fn_cache e ! nat h \<noteq> FN_NULL)"
    by auto
  show ?thesis
    by (simp only: fn_cache_resolve_def e Option.bind_lunit if_not_P [OF cond] if_not_P [OF False]
        grow Let_def cb_eq slot_of_def [symmetric] prod.case less_irrefl if_False if_P [OF h] fin)
qed

lemma resolve_ok:
  assumes mem: "never_oom E" and h: "0 \<le> h" and e: "mods s m = Some e" and ok: "cache_ok E e h name"
  shows "\<exists>e'. fn_cache_resolve E m h name s =
       Some (case hook_fn E e name of Some f \<Rightarrow> Resolved f | None \<Rightarrow> Unresolved, upd_mod m (\<lambda>_. e') s) \<and>
     cache_ok E e' h name \<and> (module_has_hook_implemented e' h \<longleftrightarrow> hook_fn E e name \<noteq> None) \<and>
     nat h < length (me_fn_cache e') \<and> me_fn_cache e' ! nat h = slot_of (hook_fn E e name) \<and>
     (\<forall>k other. 0 \<le> k \<longrightarrow> k \<noteq> h \<longrightarrow> cache_ok E e k other \<longrightarrow> cache_ok E e' k other) \<and>
     (\<exists>c b. e' = e\<lparr>me_fn_cache := c, me_hook_impl_bits := b\<rparr>)"
proof (cases "nat h < length (me_fn_cache e) \<and> me_fn_cache e ! nat h \<noteq> FN_NULL")
  case True
  have same: "upd_mod m (\<lambda>_. e) s = s" using e by (auto simp: upd_mod_def intro!: xy_state.equality)
  have lt: "h < int (length (me_fn_cache e))" using True nat_less_iff [OF h] by blast
  have "\<exists>c b. e = e\<lparr>me_fn_cache := c, me_hook_impl_bits := b\<rparr>"
    by (intro exI [of _ "me_fn_cache e"] exI [of _ "me_hook_impl_bits e"]) simp
  with True ok lt same fn_cache_resolve_eq [OF mem h e, of name] show ?thesis
    by (cases "me_fn_cache e ! nat h")
       (auto simp: cache_ok_def slot_of_def intro!: exI [of _ e])
next
  case False
  let ?n = "if nat h < length (me_fn_cache e) then length (me_fn_cache e) else nat (h + 16)"
  let ?e = "answered h ?n (hook_fn E e name) e"
  have n: "nat h < ?n" using h by auto
  have no: "\<not> module_has_hook_implemented e h"
    using ok False h by (auto simp: cache_ok_def split: if_splits)
  have "upd_mod m (answered h ?n (hook_fn E e name)) s = upd_mod m (\<lambda>_. ?e) s"
    using e by (rule upd_mod_cong) simp
  moreover have "nat h < length (me_fn_cache ?e)" using n by (simp add: answered_fields)
  moreover have "me_fn_cache ?e ! nat h = slot_of (hook_fn E e name)" using n by (simp add: answered_fields)
  moreover have "\<exists>c b. ?e = e\<lparr>me_fn_cache := c, me_hook_impl_bits := b\<rparr>"
    by (intro exI [of _ "me_fn_cache ?e"] exI [of _ "me_hook_impl_bits ?e"])
       (simp add: answered_def marked_def Let_def)
  ultimately show ?thesis
    using fn_cache_resolve_eq [OF mem h e, of name] False h no
      cache_ok_answered [OF h n no, where E = E and name = name]
    by (intro exI [of _ ?e]) (simp add: has_hook_answered)
qed


section \<open>Properties\<close>

text \<open>
  The bit set of implemented hooks is a set of hook ids: marking a hook makes exactly that
  one present, whatever words the bit vector has to grow by.
\<close>

theorem mark_hook_inserts:
  assumes "never_oom E" "0 \<le> h" "mods s m = Some e"
  shows "\<exists>s' e'. module_mark_hook_implemented E (Some m) h s = Some s' \<and> mods s' m = Some e' \<and>
     (\<forall>k. module_has_hook_implemented e' k \<longleftrightarrow> k = h \<or> module_has_hook_implemented e k) \<and>
     (\<forall>m'. m' \<noteq> m \<longrightarrow> mods s' m' = mods s m')"
proof -
  have "module_has_hook_implemented (marked h e) k \<longleftrightarrow> k = h \<or> module_has_hook_implemented e k" for k
    using has_hook_marked [OF assms(2), of k e] assms(2)
    by (cases "0 \<le> k") (auto simp: has_hook_iff)
  with mark_eq [OF assms] assms(3) show ?thesis by (auto simp: heap_simps)
qed

definition demo_module :: "alist_corm xy_state" where
  "demo_module = demo_start\<lparr>mods := [1 \<mapsto> mod_zero\<lparr>me_handle := Some 5\<rparr>], next_addr := 2\<rparr>"

lemma demo_never_oom: "never_oom demo_env"
  by (simp add: never_oom_def)

lemma demo_module_mods: "mods demo_module 1 = Some (mod_zero\<lparr>me_handle := Some 5\<rparr>)"
  by (simp add: demo_module_def)

theorem mark_hook_inserts_witness:
  "\<exists>s' e'. module_mark_hook_implemented demo_env (Some 1) 70 demo_module = Some s' \<and>
     mods s' 1 = Some e' \<and> module_has_hook_implemented e' 70 \<and> \<not> module_has_hook_implemented e' 6"
proof -
  have none: "\<not> module_has_hook_implemented (mod_zero\<lparr>me_handle := Some 5\<rparr>) k" for k
    by (simp add: has_hook_iff mod_zero_def)
  obtain s' e' where "module_mark_hook_implemented demo_env (Some 1) 70 demo_module = Some s'"
    "mods s' 1 = Some e'" "\<And>k. module_has_hook_implemented e' k \<longleftrightarrow> k = 70"
    using mark_hook_inserts [OF demo_never_oom _ demo_module_mods, of 70] none by auto
  then show ?thesis by auto
qed

text \<open>
  C25. Resolving a hook in a module returns the symbol the module itself defines for it, as the
  linker places it (\<^const>\<open>hook_fn\<close>, stated without the code's own test), and nothing when the name
  is only visible through a dependency or the linker does not answer; the answer is cached, so that a
  second resolution returns it without changing anything; the hook's bit is set exactly when
  there is such a symbol; and the cached answers for other hooks stay right.
\<close>

theorem resolve_own_symbol:
  assumes "never_oom E" "0 \<le> h" "mods s m = Some e" "cache_ok E e h name"
  shows "\<exists>res s' e'. res = (case hook_fn E e name of Some f \<Rightarrow> Resolved f | None \<Rightarrow> Unresolved) \<and>
     fn_cache_resolve E m h name s = Some (res, s') \<and>
     fn_cache_resolve E m h name s' = Some (res, s') \<and>
     mods s' m = Some e' \<and> cache_ok E e' h name \<and>
     (module_has_hook_implemented e' h \<longleftrightarrow> hook_fn E e name \<noteq> None) \<and>
     (\<forall>k other. 0 \<le> k \<longrightarrow> k \<noteq> h \<longrightarrow> cache_ok E e k other \<longrightarrow> cache_ok E e' k other)"
proof -
  obtain e' where e': "fn_cache_resolve E m h name s =
      Some (case hook_fn E e name of Some f \<Rightarrow> Resolved f | None \<Rightarrow> Unresolved, upd_mod m (\<lambda>_. e') s)"
    "cache_ok E e' h name" "module_has_hook_implemented e' h \<longleftrightarrow> hook_fn E e name \<noteq> None"
    "nat h < length (me_fn_cache e')" "me_fn_cache e' ! nat h = slot_of (hook_fn E e name)"
    "\<forall>k other. 0 \<le> k \<longrightarrow> k \<noteq> h \<longrightarrow> cache_ok E e k other \<longrightarrow> cache_ok E e' k other"
    using resolve_ok [OF assms] by blast
  let ?s' = "upd_mod m (\<lambda>_. e') s"
  have m': "mods ?s' m = Some e'" using assms(3) by (simp add: heap_simps)
  have "fn_cache_resolve E m h name ?s' =
      Some (case hook_fn E e name of Some f \<Rightarrow> Resolved f | None \<Rightarrow> Unresolved, ?s')"
    using fn_cache_resolve_eq [OF assms(1,2) m', of name] e'(4,5)
    by (simp add: slot_of_def split: option.splits)
  with e' m' show ?thesis by blast
qed

theorem resolve_own_symbol_witness:
  "\<exists>s'. fn_cache_resolve demo_env 1 3 ''on_tick'' demo_module = Some (Resolved 1005, s')"
proof -
  let ?e = "mod_zero\<lparr>me_handle := Some 5\<rparr>"
  have "hook_fn demo_env ?e ''on_tick'' = Some 1005"
    by (simp add: hook_fn_def demo_env_def)
  moreover have "cache_ok demo_env ?e 3 ''on_tick''"
    by (simp add: cache_ok_def mod_zero_def has_hook_iff)
  ultimately show ?thesis
    using resolve_own_symbol [OF demo_never_oom _ demo_module_mods, of 3 "''on_tick''"] by auto
qed

end
