(* ===== verification/Xy_Module_Props.thy ===== *)
theory Xy_Module_Props
  imports Xy_Region_Props Xy_Hooks
begin

text \<open>
  The properties of the module lists and of the cached subtree vector, with their applications
  to a process that has one module entry.
\<close>

section \<open>A process with one module\<close>

lemma demo_boot_regions:
  "regions demo_boot = [1 \<mapsto> region_zero\<lparr>re_id := XY_REGION_ROOT, re_dispatch_gen := 1\<rparr>]"
  by (simp add: demo_boot_def xy_runtime_bootstrap_def demo_start_def open_table_def tbl_open_def
      region_ensure_root_def region_lookup_def demo_env_def list_corm_def upd_rt_def tbl_get_def
      new_region_def tbl_put_def set_current_region_def region_current_plen_def region_zero_def)

definition demo_one :: "alist_corm xy_state" where
  "demo_one = demo_boot\<lparr>mods := [0 \<mapsto> mod_zero]\<rparr>"

lemma demo_one_wf:
  "region_wf demo_env demo_one" "tree_wf demo_one" "mods_wf demo_one" "mods_of demo_one 1 []"
  "r_key demo_one 1 = Some root_key"
proof -
  show wf: "region_wf demo_env demo_one"
    using readyD(1) [OF demo_boot_ready(1)]
    by (subst region_wf_cong [of _ demo_boot]) (simp_all add: demo_one_def)
  then show "tree_wf demo_one" by (simp add: region_wf_def)
  show of1: "mods_of demo_one 1 []"
    by (simp add: mods_of_def demo_one_def demo_boot_regions region_zero_def)
  show key: "r_key demo_one 1 = Some root_key"
    by (simp add: r_key_def demo_one_def demo_boot_regions region_zero_def key_of_def region_key_def
        root_key_def)
  have "1 < next_addr demo_one" using tree_key [OF \<open>tree_wf demo_one\<close> key] by simp
  then show "mods_wf demo_one"
    using of1 by (auto simp: mods_wf_def demo_one_def demo_boot_regions split: if_splits)
qed


section \<open>Properties\<close>

text \<open>
  C30. Appending a module to a region appends it to the region's list, in both directions of
  the links; the lists of all other regions, the region tree and its table are unchanged, and
  the cached vectors of the region and all its ancestors are marked stale.
\<close>

theorem region_append_refines:
  assumes "region_wf E s" "mods_of s p ms" "m \<notin> set ms" "mods s m \<noteq> None"
  shows "\<exists>s'. module_region_append (Some p) (Some m) s = Some s' \<and>
     region_wf E s' \<and> region_keys s' = region_keys s \<and> mods_of s' p (ms @ [m]) \<and>
     (\<forall>q ns. q \<noteq> p \<longrightarrow> m \<notin> set ns \<longrightarrow> mods_of s q ns \<longrightarrow> mods_of s' q ns) \<and>
     (\<forall>q \<in> set (ancestors s p). \<exists>r. regions s' q = Some r \<and> re_subtree_mods_dirty r)"
  using append_refines [OF assms] by (auto simp: region_keys_def same_shape_def)

theorem region_append_refines_witness:
  "\<exists>s'. module_region_append (Some 1) (Some 0) demo_one = Some s' \<and> mods_of s' 1 [0]"
proof -
  have "mods demo_one 0 \<noteq> None" by (simp add: demo_one_def)
  from region_append_refines [OF demo_one_wf(1,4) _ this] show ?thesis by auto
qed

text \<open>
  C31. Detaching a module removes exactly that module from its region's list and clears its
  links; all other lists, the tree and its table are unchanged, and the cached vectors of the
  region and all its ancestors are marked stale.
\<close>

theorem region_detach_refines:
  assumes "region_wf E s" "mods_of s p (xs @ m # ys)"
  shows "\<exists>s'. module_region_detach (Some m) s = Some s' \<and>
     region_wf E s' \<and> region_keys s' = region_keys s \<and> mods_of s' p (xs @ ys) \<and>
     mod_next s' m = Some None \<and> mod_prev s' m = Some None \<and>
     (\<forall>q ns. q \<noteq> p \<longrightarrow> mods_of s q ns \<longrightarrow> mods_of s' q ns) \<and>
     (\<forall>q \<in> set (ancestors s p). \<exists>r. regions s' q = Some r \<and> re_subtree_mods_dirty r)"
  using detach_refines [OF assms] by (auto simp: region_keys_def same_shape_def)

theorem region_detach_refines_witness:
  "\<exists>s s'. module_region_append (Some 1) (Some 0) demo_one = Some s \<and>
     module_region_detach (Some 0) s = Some s' \<and> mods_of s' 1 []"
proof -
  have "mods demo_one 0 \<noteq> None" by (simp add: demo_one_def)
  from append_refines [OF demo_one_wf(1,4) _ this] obtain s where
    s: "module_region_append (Some 1) (Some 0) demo_one = Some s" "region_wf demo_env s"
      "mods_of s 1 ([] @ 0 # [])" by auto
  with region_detach_refines [OF s(2,3)] show ?thesis by auto
qed

text \<open>
  C16. Rebuilding the subtree vector of a region returns 0 and leaves a clean vector that holds
  every module of the region and of all regions below it exactly once, the region's own
  modules first and in load order, then those of the regions below it, child after child
  (\<^const>\<open>preorder\<close>); module lists and the rest of the tree are unchanged.
\<close>

theorem rebuild_collects_subtree:
  assumes "never_oom E" "tree_wf s" "mods_wf s" "r_key s p = Some k"
  shows "\<exists>s' r'. region_rebuild_subtree_mods E (Some p) s = Some (0, s') \<and>
     regions s' p = Some r' \<and> \<not> re_subtree_mods_dirty r' \<and> distinct (re_subtree_mods r') \<and>
     set (re_subtree_mods r') = {m. \<exists>q ms. q \<in> subtree s p \<and> mods_of s q ms \<and> m \<in> set ms} \<and>
     (\<exists>own below. mods_of s p own \<and> re_subtree_mods r' = own @ below) \<and> preorder s p (re_subtree_mods r') \<and>
     (\<forall>q ms. mods_of s' q ms \<longleftrightarrow> mods_of s q ms) \<and> region_keys s' = region_keys s"
  using rebuild_subtree_mods [OF assms] preorder_own [of s p] unfolding mods_in_def region_keys_def same_shape_def
  by fastforce

theorem rebuild_collects_subtree_witness:
  "\<exists>s' r'. region_rebuild_subtree_mods demo_env (Some 1) demo_one = Some (0, s') \<and>
     regions s' 1 = Some r' \<and> \<not> re_subtree_mods_dirty r'"
  using rebuild_collects_subtree [OF demo_never_oom demo_one_wf(2,3,5)] by blast

end
