(* ===== verification/Xy_Deny.thy ===== *)
theory Xy_Deny
  imports Xy_Module_Props
begin

text \<open>
  Denied hooks and modules, from \<^verbatim>\<open>src/libxylem.c\<close>: \<^verbatim>\<open>xy_deny\<close> adds a name to the current
  region's list and hash set, \<^verbatim>\<open>module_is_denied\<close> asks for a path, \<^verbatim>\<open>module_remove_denies\<close> takes
  a path out again. The lemmas show that list and hash set agree and that the operations are
  set insertion, membership and removal.
\<close>

section \<open>The operations\<close>

text \<open>\<^verbatim>\<open>module_is_denied\<close>: the hash set first, then the list.\<close>

definition module_is_denied :: "'h env \<Rightarrow> 'h xy_state \<Rightarrow> rptr option \<Rightarrow> sptr option \<Rightarrow> bool option" where
  "module_is_denied E s re path =
     (case (re, path) of
        (Some p, Some x) \<Rightarrow>
          do { r \<leftarrow> regions s p;
               if re_denied_modules_set r \<noteq> 0 \<and>
                  tbl_get E s (re_denied_modules_set r) (KPath x) \<noteq> None
               then Some True
               else Some (x \<in> set (re_denied_modules r)) }
      | _ \<Rightarrow> Some False)"

text \<open>
  The unlinking loop of \<^verbatim>\<open>module_remove_denies\<close>: the list that remains, and one \<^verbatim>\<open>corm_del\<close> per
  removed node.
\<close>

fun remove_loop :: "'h env \<Rightarrow> hd \<Rightarrow> sptr \<Rightarrow> sptr list \<Rightarrow> 'h xy_state \<Rightarrow> sptr list \<times> 'h xy_state" where
  "remove_loop E d x [] s = ([], s)"
| "remove_loop E d x (v # vs) s =
     (if v = x then remove_loop E d x vs (if d \<noteq> 0 then tbl_del E d (KPath v) s else s)
      else let (rest, s') = remove_loop E d x vs s in (v # rest, s'))"

definition module_remove_denies ::
  "'h env \<Rightarrow> rptr option \<Rightarrow> sptr option \<Rightarrow> 'h xy_state \<Rightarrow> 'h xy_state option" where
  "module_remove_denies E re path s =
     (case (re, path) of
        (Some p, Some x) \<Rightarrow>
          do { r \<leftarrow> regions s p;
               let (rest, s1) = remove_loop E (re_denied_modules_set r) x (re_denied_modules r) s;
               Some (upd_reg p (\<lambda>r. r\<lparr>re_denied_modules := rest\<rparr>) s1) }
      | _ \<Rightarrow> Some s)"

text \<open>Opening a region's hash set on first use.\<close>

definition ensure_set ::
  "'h env \<Rightarrow> hd \<Rightarrow> (hd \<Rightarrow> xy_region_entry \<Rightarrow> xy_region_entry) \<Rightarrow> rptr \<Rightarrow> 'h xy_state \<Rightarrow> hd \<times> 'h xy_state" where
  "ensure_set E d store p s =
     (if d = 0 then (let (d', s') = tbl_open E False s in (d', upd_reg p (store d') s')) else (d, s))"

text \<open>
  \<^verbatim>\<open>xy_deny\<close>. The node and, for a hook, the copy of its name are allocated without a check: a
  refused allocation is a null dereference. The set stores \<^verbatim>\<open>(void *)1\<close> for a member.
\<close>

definition xy_deny ::
  "'h env \<Rightarrow> string \<Rightarrow> xy_deny_type \<Rightarrow> 'h xy_state \<Rightarrow> (int \<times> 'h xy_state) option" where
  "xy_deny E what type s =
     do { (enter_ret, s) \<leftarrow> xy_runtime_ensure E s;
          if enter_ret \<noteq> XY_OK then Some (fail_with enter_ret s)
          else case region_lookup_current s of
            None \<Rightarrow> Some (fail_with XY_ERR_NOTFOUND s)
          | Some reg \<Rightarrow>
              do { r \<leftarrow> regions s reg;
                   _ \<leftarrow> (if malloc_ok E s 16 then Some () else None);
                   case type of
                     XY_DENY_HOOK \<Rightarrow>
                       do { _ \<leftarrow> (if malloc_ok E s (length what + 1) then Some () else None);
                            let s1 = upd_reg reg (\<lambda>r. r\<lparr>re_denied_hooks := what # re_denied_hooks r\<rparr>) s;
                            let (d, s2) = ensure_set E (re_denied_hooks_set r)
                                            (\<lambda>d r. r\<lparr>re_denied_hooks_set := d\<rparr>) reg s1;
                            let s3 = tbl_put E d (KStr what) (VPtr 1) s2;
                            s4 \<leftarrow> region_propagate_deny (Some reg) s3;
                            s5 \<leftarrow> region_dispatch_gen_bump (Some reg) s4;
                            Some (fail_with XY_OK s5) }
                   | XY_DENY_MODULE \<Rightarrow>
                       (case module_load_path E s what of
                          None \<Rightarrow> Some (fail_with XY_ERR_INVALID s)
                        | Some path \<Rightarrow>
                            (let (interned, s1) = module_path_intern E (Some path) s
                             in case interned of
                                  None \<Rightarrow> Some (fail_with XY_ERR_INVALID s1)
                                | Some x \<Rightarrow>
                                    do { let s2 = upd_reg reg
                                           (\<lambda>r. r\<lparr>re_denied_modules := x # re_denied_modules r\<rparr>) s1;
                                         let (d, s3) = ensure_set E (re_denied_modules_set r)
                                           (\<lambda>d r. r\<lparr>re_denied_modules_set := d\<rparr>) reg s2;
                                         let s4 = tbl_put E d (KPath x) (VPtr 1) s3;
                                         s5 \<leftarrow> region_propagate_deny (Some reg) s4;
                                         s6 \<leftarrow> region_dispatch_gen_bump (Some reg) s5;
                                         Some (fail_with XY_OK s6) })) } }"


section \<open>List and set agree\<close>

text \<open>A hash set with handle \<open>d\<close> (0 is no set yet) holds the keys of the list.\<close>

definition set_agrees :: "'h env \<Rightarrow> 'h xy_state \<Rightarrow> hd \<Rightarrow> corm_key set \<Rightarrow> bool" where
  "set_agrees E s d K \<longleftrightarrow>
     (if d = 0 then K = {} else tbl_single E s d \<and> dom (tbl_get E s d) = K)"

text \<open>Handle and members of the two sets of a region: modules (\<^const>\<open>True\<close>) and hooks.\<close>

definition deny_set :: "bool \<Rightarrow> xy_region_entry \<Rightarrow> hd \<times> corm_key set" where
  "deny_set b r =
     (if b then (re_denied_modules_set r, KPath ` set (re_denied_modules r))
      else (re_denied_hooks_set r, KStr ` set (re_denied_hooks r)))"

definition dset :: "'h xy_state \<Rightarrow> rptr \<Rightarrow> bool \<Rightarrow> (hd \<times> corm_key set) option" where
  "dset s p b = map_option (deny_set b) (regions s p)"

definition rt_list :: "'h xy_state \<Rightarrow> hd list" where
  "rt_list s =
     (let rt = xy_rt s in [region_hd rt, path_intern_hd rt, mod_hd rt, hook_id_hd rt, sica_hd rt])"

definition rt_handles :: "'h xy_state \<Rightarrow> hd set" where
  "rt_handles s = set (rt_list s)"

text \<open>
  Every set agrees with its list, no two sets share a table, none uses a table of the runtime,
  and the runtime's tables are single-valued and distinct.
\<close>

definition deny_inv :: "'h env \<Rightarrow> 'h xy_state \<Rightarrow> bool" where
  "deny_inv E s \<longleftrightarrow>
     (\<forall>p b d K. dset s p b = Some (d, K) \<longrightarrow> set_agrees E s d K) \<and>
     (\<forall>p b d K p' b' K'. dset s p b = Some (d, K) \<longrightarrow> dset s p' b' = Some (d, K') \<longrightarrow> d \<noteq> 0 \<longrightarrow>
        p = p' \<and> b = b') \<and>
     (\<forall>p b d K. dset s p b = Some (d, K) \<longrightarrow> d \<noteq> 0 \<longrightarrow> d \<notin> rt_handles s) \<and>
     (\<forall>d \<in> rt_handles s. tbl_single E s d) \<and> distinct (rt_list s)"

text \<open>The denied paths and hooks of a region.\<close>

definition denied_mods :: "'h xy_state \<Rightarrow> rptr \<Rightarrow> sptr set" where
  "denied_mods s p = (case regions s p of None \<Rightarrow> {} | Some r \<Rightarrow> set (re_denied_modules r))"

definition denied_hook_names :: "'h xy_state \<Rightarrow> rptr \<Rightarrow> string set" where
  "denied_hook_names s p = (case regions s p of None \<Rightarrow> {} | Some r \<Rightarrow> set (re_denied_hooks r))"

lemma module_is_denied_iff:
  assumes "deny_inv E s" "regions s p = Some r"
  shows "module_is_denied E s (Some p) (Some x) = Some (x \<in> denied_mods s p)"
proof -
  have "dset s p True = Some (re_denied_modules_set r, KPath ` set (re_denied_modules r))"
    using assms(2) by (simp add: dset_def deny_set_def)
  then have "set_agrees E s (re_denied_modules_set r) (KPath ` set (re_denied_modules r))"
    using assms(1) unfolding deny_inv_def by blast
  with assms(2) show ?thesis
    by (auto simp: module_is_denied_def set_agrees_def denied_mods_def split: if_splits)
qed

lemma denied_mods_dset:
  "denied_mods s p = {x. \<exists>d K. dset s p True = Some (d, K) \<and> KPath x \<in> K}"
  "denied_hook_names s p = {x. \<exists>d K. dset s p False = Some (d, K) \<and> KStr x \<in> K}"
  by (auto simp: denied_mods_def denied_hook_names_def dset_def deny_set_def split: option.splits)

lemma remove_loop_list: "fst (remove_loop E d x vs s) = filter (\<lambda>v. v \<noteq> x) vs"
  by (induction E d x vs s rule: remove_loop.induct) (auto split: prod.splits)

lemma remove_loop_frame: "\<exists>h. snd (remove_loop E d x vs s) = s\<lparr>st_corm := h\<rparr>"
proof (induction E d x vs s rule: remove_loop.induct)
  case (1 E d x s)
  show ?case by (intro exI [of _ "st_corm s"]) simp
next
  case (2 E d x v vs s)
  show ?case
  proof (cases "v = x")
    case True
    with 2(1) [OF True] show ?thesis by (cases "d = 0") (auto simp: tbl_del_def)
  next
    case False
    with 2(2) [OF False] show ?thesis by (auto split: prod.splits)
  qed
qed

lemma remove_loop_table:
  assumes "env_ok E" "d \<noteq> 0" "tbl_single E s d'"
  shows "tbl_single E (snd (remove_loop E d x vs s)) d' \<and>
     tbl_get E (snd (remove_loop E d x vs s)) d' k =
       (if d' = d \<and> k = KPath x \<and> x \<in> set vs then None else tbl_get E s d' k)"
  using assms
proof (induction E d x vs s rule: remove_loop.induct)
  case (2 E d x v vs s)
  show ?case
  proof (cases "v = x")
    case True
    let ?s = "tbl_del E d (KPath v) s"
    have "tbl_single E ?s d'" using 2(3,5) by (simp add: tbl_single_del)
    with 2 True show ?thesis by (auto simp: tbl_get_del)
  next
    case False
    with 2 show ?thesis by (auto split: prod.splits)
  qed
qed simp

lemma remove_loop_others:
  assumes E: "env_ok E" and d: "d' \<noteq> d \<or> d = 0" and single: "tbl_single E s d'"
  shows "tbl_single E (snd (remove_loop E d x vs s)) d'"
    "tbl_get E (snd (remove_loop E d x vs s)) d' = tbl_get E s d'"
proof -
  have zero: "snd (remove_loop E 0 x vs s) = s"
    by (induction vs) (auto split: prod.splits)
  show "tbl_single E (snd (remove_loop E d x vs s)) d'"
    "tbl_get E (snd (remove_loop E d x vs s)) d' = tbl_get E s d'"
    using zero single remove_loop_table [OF E, of d s d' x vs] d
    by (cases "d = 0"; auto simp: fun_eq_iff)+
qed

lemma set_agrees_remove:
  assumes E: "env_ok E" and ok: "set_agrees E s d (KPath ` set vs)"
  shows "set_agrees E (snd (remove_loop E d x vs s)) d (KPath ` set (filter (\<lambda>v. v \<noteq> x) vs))"
proof (cases "d = 0")
  case True
  with ok show ?thesis by (simp add: set_agrees_def)
next
  case False
  with ok have d: "tbl_single E s d" "dom (tbl_get E s d) = KPath ` set vs"
    by (simp_all add: set_agrees_def)
  note tab = remove_loop_table [OF E False d(1), of x vs]
  have "tbl_get E (snd (remove_loop E d x vs s)) d =
      (if x \<in> set vs then (tbl_get E s d)(KPath x := None) else tbl_get E s d)"
    using tab by (auto simp: fun_eq_iff)
  then have "dom (tbl_get E (snd (remove_loop E d x vs s)) d) = KPath ` set vs - {KPath x}"
    using d(2) by auto
  also have "\<dots> = KPath ` set (filter (\<lambda>v. v \<noteq> x) vs)" by auto
  finally show ?thesis using tab False by (simp add: set_agrees_def)
qed



section \<open>Insertion keeps the agreement\<close>

lemma deny_inv_frame:
  assumes "dset t = dset s" "xy_rt t = xy_rt s" "deny_inv E s"
    and "\<And>d. tbl_single E t d = tbl_single E s d"
    and "\<And>d. d \<notin> rt_handles s \<Longrightarrow> tbl_single E s d \<Longrightarrow> tbl_get E t d = tbl_get E s d"
  shows "deny_inv E t"
proof -
  have rt: "rt_handles t = rt_handles s" "rt_list t = rt_list s"
    using assms(2) by (simp_all add: rt_handles_def rt_list_def)
  have "set_agrees E t d K" if ds: "dset s p b = Some (d, K)" for p b d K
  proof -
    have "set_agrees E s d K" "d \<noteq> 0 \<Longrightarrow> d \<notin> rt_handles s"
      using assms(3) ds unfolding deny_inv_def by blast+
    then show ?thesis using assms(4,5) by (simp add: set_agrees_def)
  qed
  with assms(3,4) show ?thesis unfolding deny_inv_def assms(1) rt by blast
qed

text \<open>What inserting \<open>k\<close> into the set \<open>b\<close> of region \<open>p\<close> does to the state.\<close>

definition deny_added ::
  "'h env \<Rightarrow> rptr \<Rightarrow> bool \<Rightarrow> corm_key \<Rightarrow> 'h xy_state \<Rightarrow> 'h xy_state \<Rightarrow> bool" where
  "deny_added E p b k s t \<longleftrightarrow>
     (\<exists>r r' d d0 K. regions s p = Some r \<and> deny_set b r = (d0, K) \<and>
        regions t = (regions s)(p \<mapsto> r') \<and> deny_set b r' = (d, insert k K) \<and>
        deny_set (\<not> b) r' = deny_set (\<not> b) r \<and>
        d \<noteq> 0 \<and> (d = d0 \<or> d0 = 0 \<and> \<not> tbl_single E s d) \<and> xy_rt t = xy_rt s \<and>
        tbl_single E t d \<and> dom (tbl_get E t d) = insert k K \<and>
        (\<forall>d'. d' \<noteq> d \<longrightarrow> tbl_single E t d' = tbl_single E s d' \<and>
           (tbl_single E s d' \<longrightarrow> tbl_get E t d' = tbl_get E s d')))"

lemma deny_addedI:
  assumes "regions s p = Some r" "regions t = (regions s)(p \<mapsto> r')" "xy_rt t = xy_rt s"
    "deny_set b r' = (d, insert k (snd (deny_set b r)))" "deny_set (\<not> b) r' = deny_set (\<not> b) r"
    "d \<noteq> 0" "d = fst (deny_set b r) \<or> fst (deny_set b r) = 0 \<and> \<not> tbl_single E s d"
    "tbl_single E t d" "dom (tbl_get E t d) = insert k (snd (deny_set b r))"
    "\<And>d'. d' \<noteq> d \<Longrightarrow> tbl_single E t d' = tbl_single E s d'"
    "\<And>d'. d' \<noteq> d \<Longrightarrow> tbl_single E s d' \<Longrightarrow> tbl_get E t d' = tbl_get E s d'"
  shows "deny_added E p b k s t"
  unfolding deny_added_def using assms by (metis prod.collapse)

lemma deny_inv_added:
  assumes inv: "deny_inv E s" and add: "deny_added E p b k s t"
  shows "deny_inv E t" "\<exists>d K. dset s p b = Some (d, K) \<and> (\<exists>d'. dset t p b = Some (d', insert k K))"
    "(q, b') \<noteq> (p, b) \<Longrightarrow> dset t q b' = dset s q b'"
    "d' \<in> rt_handles s \<Longrightarrow> tbl_get E t d' = tbl_get E s d' \<and> tbl_single E t d' = tbl_single E s d'"
proof -
  obtain r r' d d0 K where a: "regions s p = Some r" "deny_set b r = (d0, K)"
    "regions t = (regions s)(p \<mapsto> r')" "deny_set b r' = (d, insert k K)"
    "deny_set (\<not> b) r' = deny_set (\<not> b) r" "d \<noteq> 0" "d = d0 \<or> d0 = 0 \<and> \<not> tbl_single E s d"
    "xy_rt t = xy_rt s" "tbl_single E t d" "dom (tbl_get E t d) = insert k K"
    and tab: "\<And>d'. d' \<noteq> d \<Longrightarrow> tbl_single E t d' = tbl_single E s d'"
      "\<And>d'. d' \<noteq> d \<Longrightarrow> tbl_single E s d' \<Longrightarrow> tbl_get E t d' = tbl_get E s d'"
    using add unfolding deny_added_def by blast
  note agree = inv [unfolded deny_inv_def, THEN conjunct1, rule_format]
    and inj = inv [unfolded deny_inv_def, THEN conjunct2, THEN conjunct1, rule_format]
    and apart = inv [unfolded deny_inv_def, THEN conjunct2, THEN conjunct2, THEN conjunct1, rule_format]
    and rts = inv [unfolded deny_inv_def, THEN conjunct2, THEN conjunct2, THEN conjunct2, THEN conjunct1, rule_format]
    and dist = inv [unfolded deny_inv_def, THEN conjunct2, THEN conjunct2, THEN conjunct2, THEN conjunct2]
  have ds: "dset s p b = Some (d0, K)" "dset t p b = Some (d, insert k K)"
    using a by (simp_all add: dset_def)
  have other: "dset t q b' = dset s q b'" if "(q, b') \<noteq> (p, b)" for q b'
  proof (cases "q = p")
    case True
    with that have "b' = (\<not> b)" by auto
    with True a(1,3,5) show ?thesis by (simp add: dset_def)
  qed (simp add: dset_def a(3))
  have ne_rt: "d' \<noteq> d" if "d' \<in> rt_handles s" for d'
    using that a(6,7) apart [OF ds(1)] rts by blast
  have ne: "d' \<noteq> d" if "dset s q b' = Some (d', K')" "(q, b') \<noteq> (p, b)" for q b' d' K'
    using that a(6,7) inj [OF that(1), of p b K] agree [OF that(1)] ds(1)
    by (auto simp: set_agrees_def)
  show "\<exists>d K. dset s p b = Some (d, K) \<and> (\<exists>d'. dset t p b = Some (d', insert k K))"
    using ds by blast
  show "(q, b') \<noteq> (p, b) \<Longrightarrow> dset t q b' = dset s q b'" by (rule other)
  show "d' \<in> rt_handles s \<Longrightarrow> tbl_get E t d' = tbl_get E s d' \<and> tbl_single E t d' = tbl_single E s d'"
    using ne_rt rts tab by blast
  have rt: "rt_handles t = rt_handles s" "rt_list t = rt_list s"
    using a(8) by (simp_all add: rt_handles_def rt_list_def)
  have known: "(q, b') = (p, b) \<and> d' = d \<and> K' = insert k K \<or>
      (q, b') \<noteq> (p, b) \<and> dset s q b' = Some (d', K') \<and> d' \<noteq> d"
    if "dset t q b' = Some (d', K')" for q b' d' K'
    using that ds(2) other [of q b'] ne [of q b' d' K'] by (cases "(q, b') = (p, b)") auto
  show "deny_inv E t"
    unfolding deny_inv_def rt
  proof (intro conjI allI impI ballI)
    fix q b' d' K' assume q: "dset t q b' = Some (d', K')"
    from known [OF q] show "set_agrees E t d' K'"
      using a(6,9,10) agree [of q b' d' K'] tab [of d'] by (auto simp: set_agrees_def split: if_splits)
    show "d' \<notin> rt_handles s" if "d' \<noteq> 0"
      using known [OF q] ne_rt apart [of q b' d' K'] that by blast
    fix q2 b2 K2 assume q2: "dset t q2 b2 = Some (d', K2)" and nz: "d' \<noteq> 0"
    show "q = q2" "b' = b2"
      using known [OF q] known [OF q2] inj [of q b' d' K' q2 b2 K2] nz by auto
  next
    fix d' assume "d' \<in> rt_handles s"
    with ne_rt rts tab show "tbl_single E t d'" by blast
  qed (rule dist)
qed

text \<open>The statements of \<^verbatim>\<open>xy_deny\<close> that add a node and enter it in the set.\<close>

lemma ensure_put_added:
  assumes E: "env_ok E" and ok: "set_agrees E s (fst (deny_set b r)) (snd (deny_set b r))"
    and r: "regions s p = Some r"
    and f: "deny_set b (f r) = (fst (deny_set b r), insert k (snd (deny_set b r)))"
      "deny_set (\<not> b) (f r) = deny_set (\<not> b) r"
    and g: "\<And>d r. deny_set b (g d r) = (d, snd (deny_set b r))"
      "\<And>d r. deny_set (\<not> b) (g d r) = deny_set (\<not> b) r"
    and d: "ensure_set E (fst (deny_set b r)) g p (upd_reg p f s) = (d, s2)"
  shows "deny_added E p b k s (tbl_put E d k (VPtr 1) s2)"
proof -
  let ?d0 = "fst (deny_set b r)" and ?K = "snd (deny_set b r)" and ?s1 = "upd_reg p f s"
  let ?t = "tbl_put E d k (VPtr 1) s2"
  have r1: "regions ?s1 = (regions s)(p \<mapsto> f r)" using r by (auto simp: fun_eq_iff heap_simps)
  have s1: "tbl_get E ?s1 = tbl_get E s" "tbl_single E ?s1 = tbl_single E s" by (simp_all add: heap_simps)
  show ?thesis
  proof (cases "?d0 = 0")
    case False
    then have "d = ?d0" "s2 = ?s1" using d by (simp_all add: ensure_set_def)
    moreover have "dom (tbl_get E ?t d) = insert k ?K"
    proof -
      have "tbl_get E ?t d = (tbl_get E s d)(k \<mapsto> VPtr 1)"
        using tbl_get_put [OF E, of ?s1 d] ok False s1 calculation
        by (auto simp: fun_eq_iff set_agrees_def)
      then show ?thesis using ok False calculation by (simp add: set_agrees_def)
    qed
    ultimately show ?thesis
      using False ok r r1 f E s1
      by (intro deny_addedI [where r' = "f r" and r = r and d = d])
         (auto simp: heap_simps set_agrees_def tbl_get_put tbl_single_put fun_eq_iff)
  next
    case True
    obtain u where u: "tbl_open E False ?s1 = (d, u)" "s2 = upd_reg p (g d) u"
      using d True by (auto simp: ensure_set_def split: prod.splits)
    note laws = tbl_open_laws [OF E u(1)]
    obtain h where h: "u = ?s1\<lparr>st_corm := h\<rparr>" using laws(7) by blast
    have regs: "regions ?t = (regions s)(p \<mapsto> g d (f r))"
      using r1 by (auto simp: u(2) heap_simps h)
    have tt: "tbl_get E s2 = tbl_get E u" "tbl_single E s2 = tbl_single E u"
      by (simp_all add: u(2) heap_simps)
    have rt: "xy_rt ?t = xy_rt s" by (simp add: u(2) h heap_simps)
    have K: "?K = {}" using ok True by (simp add: set_agrees_def)
    have sd: "tbl_single E s2 d" using laws(3) tt by simp
    have "dom (tbl_get E ?t d) = {k}"
      using tbl_get_put [OF E sd, of d k "VPtr 1"] laws(4) tt by (auto simp: dom_def split: if_splits)
    moreover have "tbl_single E ?t d" using sd E by (simp add: tbl_single_put)
    moreover have "tbl_single E ?t d' = tbl_single E s d'" if "d' \<noteq> d" for d'
      using laws(5) [OF that] tt s1 E by (simp add: tbl_single_put)
    moreover have "tbl_get E ?t d' = tbl_get E s d'" if d': "d' \<noteq> d" "tbl_single E s d'" for d'
    proof
      have "tbl_single E s2 d'" using laws(5) [OF d'(1)] d'(2) tt s1 by simp
      then show "tbl_get E ?t d' k' = tbl_get E s d' k'" for k'
        using tbl_get_put [OF E, of s2 d'] laws(6) [OF d'(1)] d'(1) tt s1 by simp
    qed
    moreover have "deny_set b (g d (f r)) = (d, insert k ?K)" using f(1) g(1) by simp
    moreover have "deny_set (\<not> b) (g d (f r)) = deny_set (\<not> b) r" using f(2) g(2) by simp
    moreover have "\<not> tbl_single E s d" using laws(2) s1 by simp
    ultimately show ?thesis
      using True r regs laws(1) rt K
      by (intro deny_addedI [where r' = "g d (f r)" and r = r and d = d]) auto
  qed
qed



section \<open>The rest of the state\<close>

lemma region_wf_more_addresses:
  assumes wf: "region_wf E s" and "regions t = regions s" "next_addr s \<le> next_addr t"
    and "xy_rt t = xy_rt s" "tbl_single E t = tbl_single E s"
    and "tbl_get E t (region_hd (xy_rt s)) = tbl_get E s (region_hd (xy_rt s))"
  shows "region_wf E t"
proof -
  have eq: "r_key t = r_key s" "r_gen t = r_gen s" "r_parent t = r_parent s" "r_depth t = r_depth s"
    "r_head t = r_head s" "sib_next t = sib_next s"
    using assms(2) by (auto simp: fun_eq_iff r_key_def r_gen_def r_parent_def r_depth_def r_head_def sib_next_def)
  have "tree_wf t"
    using wf assms(3) unfolding region_wf_def tree_wf_def eq by (meson less_le_trans)
  then show ?thesis using wf assms(4-6) eq by (simp add: region_wf_def table_wf_def)
qed

lemma region_wf_other_tables:
  assumes wf: "region_wf E s" and sh: "same_shape s t" "r_gen t = r_gen s" "xy_rt t = xy_rt s"
    and tab: "tbl_get E t (region_hd (xy_rt s)) = tbl_get E s (region_hd (xy_rt s))"
      "tbl_single E t (region_hd (xy_rt s)) = tbl_single E s (region_hd (xy_rt s))"
  shows "region_wf E t"
  using wf tree_wf_shape [OF sh(1)] sh tab
  by (simp add: region_wf_def table_wf_def same_shape_def)

lemma ensure_put_shape:
  assumes keep: "shape_keeping f" "\<And>d. shape_keeping (g d)"
      "\<And>r. re_dispatch_gen (f r) = re_dispatch_gen r" "\<And>d r. re_dispatch_gen (g d r) = re_dispatch_gen r"
    and d: "ensure_set E d0 g p (upd_reg p f s) = (d, s2)"
  shows "same_shape s (tbl_put E d k v s2)" "r_gen (tbl_put E d k v s2) = r_gen s"
    "paths (tbl_put E d k v s2) = paths s" "mods (tbl_put E d k v s2) = mods s"
    "next_addr (tbl_put E d k v s2) = next_addr s"
    "xy_current_region_entry (tbl_put E d k v s2) = xy_current_region_entry s"
    "xy_current_region_id (tbl_put E d k v s2) = xy_current_region_id s"
proof -
  obtain h where "s2 = (upd_reg p f s)\<lparr>st_corm := h\<rparr> \<or>
      (\<exists>d'. s2 = upd_reg p (g d') ((upd_reg p f s)\<lparr>st_corm := h\<rparr>))"
  proof (cases "d0 = 0")
    case True
    with d that show thesis by (auto simp: ensure_set_def tbl_open_def split: prod.splits)
  next
    case False
    with d have "s2 = (upd_reg p f s)\<lparr>st_corm := st_corm (upd_reg p f s)\<rparr>"
      by (simp add: ensure_set_def)
    with that show thesis by blast
  qed
  then obtain e where e: "shape_keeping e" "\<And>r. re_dispatch_gen (e r) = re_dispatch_gen r"
    "regions s2 = regions (upd_reg p e s)" "next_addr s2 = next_addr s"
    "paths s2 = paths s" "mods s2 = mods s"
    "xy_current_region_entry s2 = xy_current_region_entry s"
    "xy_current_region_id s2 = xy_current_region_id s"
  proof
    assume s2: "s2 = (upd_reg p f s)\<lparr>st_corm := h\<rparr>"
    show thesis by (rule that [of f]) (use keep s2 in \<open>simp_all add: heap_simps\<close>)
  next
    assume "\<exists>d'. s2 = upd_reg p (g d') ((upd_reg p f s)\<lparr>st_corm := h\<rparr>)"
    then obtain d' where s2: "s2 = upd_reg p (g d') ((upd_reg p f s)\<lparr>st_corm := h\<rparr>)" by blast
    have "shape_keeping (\<lambda>r. g d' (f r))" using keep(1,2) by (simp add: shape_keeping_def)
    moreover have "regions s2 = regions (upd_reg p (\<lambda>r. g d' (f r)) s)"
      by (auto simp: s2 fun_eq_iff heap_simps option.map_comp comp_def)
    ultimately show thesis
      by (intro that [of "\<lambda>r. g d' (f r)"]) (use keep s2 in \<open>simp_all add: heap_simps\<close>)
  qed
  let ?t = "tbl_put E d k v s2"
  have "same_shape (upd_reg p e s) ?t"
    using e by (intro same_shape_regions) (simp_all add: heap_simps)
  then show "same_shape s ?t" using upd_reg_shape [OF e(1)] by (blast intro: same_shape_trans)
  show "r_gen ?t = r_gen s"
    using e(2,3) by (auto simp: fun_eq_iff r_gen_def heap_simps option.map_comp comp_def)
  show "paths ?t = paths s" "mods ?t = mods s" "next_addr ?t = next_addr s"
    "xy_current_region_entry ?t = xy_current_region_entry s"
    "xy_current_region_id ?t = xy_current_region_id s"
    using e by (simp_all add: heap_simps)
qed

lemma upd_regs_comp: "upd_regs A f (upd_regs A g s) = upd_regs A (\<lambda>r. f (g r)) s"
  by (auto simp: upd_regs_def fun_eq_iff option.map_comp comp_def intro!: xy_state.equality)

text \<open>The two walks that end \<^verbatim>\<open>xy_deny\<close>.\<close>

definition deny_marked :: "xy_region_entry \<Rightarrow> xy_region_entry" where
  "deny_marked r = bump_gen (mark_has_deny r)"

lemma deny_set_marked: "deny_set b (deny_marked r) = deny_set b r"
  by (simp add: deny_set_def deny_marked_def mark_has_deny_def bump_gen_def Let_def)

lemma deny_walks:
  assumes wf: "region_wf E t" and k: "r_key t p = Some k"
  defines "u \<equiv> upd_regs (set (ancestors t p)) deny_marked t"
  shows "\<exists>t1. region_propagate_deny (Some p) t = Some t1 \<and> region_dispatch_gen_bump (Some p) t1 = Some u"
    "region_wf E u" "same_shape t u" "dset u = dset t"
proof -
  let ?A = "set (ancestors t p)"
  let ?t1 = "upd_regs ?A mark_has_deny t"
  have tw: "tree_wf t" using wf by (simp add: region_wf_def)
  have sh1: "same_shape t ?t1" by (simp add: upd_regs_shape)
  then have tw1: "tree_wf ?t1" and k1: "r_key ?t1 p = Some k"
    using tree_wf_shape [OF _ tw] k by (auto simp: same_shape_def)
  have "ancestors ?t1 p = ancestors t p" using sh1 tw k by (rule ancestors_shape)
  then have "region_dispatch_gen_bump (Some p) ?t1 = Some u"
    using region_dispatch_gen_bump_eq [OF tw1 k1]
    by (simp add: u_def upd_regs_comp deny_marked_def [abs_def])
  then show "\<exists>t1. region_propagate_deny (Some p) t = Some t1 \<and> region_dispatch_gen_bump (Some p) t1 = Some u"
    using region_propagate_deny_eq [OF tw k] by blast
  have keep: "shape_keeping deny_marked"
    by (simp add: shape_keeping_def deny_marked_def mark_has_deny_def bump_gen_def Let_def)
  then show sh: "same_shape t u" unfolding u_def by (rule upd_regs_shape)
  have "r_gen u q \<noteq> Some 0" for q
    using wf by (auto simp: region_wf_def r_gen_def u_def heap_simps deny_marked_def bump_gen_nonzero)
  then show "region_wf E u"
    using wf sh tree_wf_shape [OF sh tw] table_wf_frame [of u t E]
    by (auto simp: region_wf_def same_shape_def u_def heap_simps)
  show "dset u = dset t"
    by (auto simp: fun_eq_iff dset_def u_def heap_simps deny_set_marked option.map_comp comp_def)
qed



section \<open>The whole call\<close>

text \<open>
  What both kinds of deny do from a state \<open>s1\<close> in which the name is known: add the key, then
  mark the ancestors.
\<close>

lemma deny_tail:
  assumes E: "env_ok E" and inv: "deny_inv E s1" and wf: "region_wf E s1" and r: "regions s1 p = Some r"
    and f: "deny_set b (f r) = (fst (deny_set b r), insert k (snd (deny_set b r)))"
      "deny_set (\<not> b) (f r) = deny_set (\<not> b) r"
    and g: "\<And>d r. deny_set b (g d r) = (d, snd (deny_set b r))"
      "\<And>d r. deny_set (\<not> b) (g d r) = deny_set (\<not> b) r"
    and keep: "shape_keeping f" "\<And>d. shape_keeping (g d)"
      "\<And>r. re_dispatch_gen (f r) = re_dispatch_gen r" "\<And>d r. re_dispatch_gen (g d r) = re_dispatch_gen r"
    and d: "ensure_set E (fst (deny_set b r)) g p (upd_reg p f s1) = (d, s2)"
  defines "t \<equiv> tbl_put E d k (VPtr 1) s2"
  shows "\<exists>t1 u. region_propagate_deny (Some p) t = Some t1 \<and> region_dispatch_gen_bump (Some p) t1 = Some u \<and>
     region_wf E u \<and> deny_inv E u \<and> same_shape s1 u \<and> xy_rt u = xy_rt s1 \<and>
     (\<exists>d K d'. dset s1 p b = Some (d, K) \<and> dset u p b = Some (d', insert k K)) \<and>
     (\<forall>q b'. (q, b') \<noteq> (p, b) \<longrightarrow> dset u q b' = dset s1 q b') \<and>
     paths u = paths s1 \<and> mods u = mods s1 \<and> next_addr u = next_addr s1 \<and>
     xy_current_region_entry u = xy_current_region_entry s1 \<and>
     xy_current_region_id u = xy_current_region_id s1 \<and>
     (\<forall>d' \<in> rt_handles s1. tbl_get E u d' = tbl_get E s1 d' \<and> tbl_single E u d' = tbl_single E s1 d') \<and>
     (\<forall>q. r_gen u q = (if q \<in> set (ancestors s1 p)
        then map_option (\<lambda>r. re_dispatch_gen (bump_gen r)) (regions s1 q) else r_gen s1 q)) \<and>
     (\<forall>q \<in> set (ancestors s1 p). \<exists>r. regions u q = Some r \<and> re_subtree_flags r AND XY_SUBTREE_HAS_DENY \<noteq> 0)"
proof -
  have ok: "set_agrees E s1 (fst (deny_set b r)) (snd (deny_set b r))"
    using inv r unfolding deny_inv_def dset_def by (metis option.simps(9) prod.collapse)
  have add: "deny_added E p b k s1 t"
    unfolding t_def using E ok r f g d by (rule ensure_put_added)
  note inv_t = deny_inv_added [OF inv add] and sh = ensure_put_shape [OF keep d, of k "VPtr 1", folded t_def]
  have rt: "xy_rt t = xy_rt s1" using add by (auto simp: deny_added_def)
  have "region_hd (xy_rt s1) \<in> rt_handles s1" by (simp add: rt_handles_def rt_list_def Let_def)
  then have wf_t: "region_wf E t"
    using inv_t(4) by (intro region_wf_other_tables [OF wf sh(1,2) rt]) blast+
  obtain k' where k': "r_key s1 p = Some k'" using r by (simp add: r_key_def)
  then have kt: "r_key t p = Some k'" using sh(1) by (simp add: same_shape_def)
  define u where "u = upd_regs (set (ancestors t p)) deny_marked t"
  note walks = deny_walks [OF wf_t kt, folded u_def]
  have anc: "ancestors t p = ancestors s1 p"
    using ancestors_shape [OF sh(1) _ k'] wf by (simp add: region_wf_def)
  have tabs: "tbl_get E u = tbl_get E t" "tbl_single E u = tbl_single E t"
    by (auto simp: u_def heap_simps intro!: tbl_get_cong tbl_single_cong)
  have "deny_inv E u"
    using walks(4) inv_t(1) tabs by (intro deny_inv_frame [of u t]) (auto simp: u_def heap_simps)
  moreover have gen: "r_gen u q = (if q \<in> set (ancestors s1 p)
      then map_option (\<lambda>r. re_dispatch_gen (bump_gen r)) (regions s1 q) else r_gen s1 q)" for q
  proof -
    have "re_dispatch_gen (deny_marked x) = re_dispatch_gen (bump_gen y)"
      if "re_dispatch_gen x = re_dispatch_gen y" for x y
      using that by (simp add: deny_marked_def mark_has_deny_def bump_gen_def Let_def)
    moreover have "map_option re_dispatch_gen (regions t q) = map_option re_dispatch_gen (regions s1 q)"
      using sh(2) by (metis r_gen_def)
    ultimately show ?thesis
      by (cases "regions t q"; cases "regions s1 q") (auto simp: r_gen_def u_def heap_simps anc)
  qed
  moreover have "\<exists>r. regions u q = Some r \<and> re_subtree_flags r AND XY_SUBTREE_HAS_DENY \<noteq> 0"
    if q: "q \<in> set (ancestors s1 p)" for q
  proof -
    obtain r' where "regions t q = Some r'"
      using ancestors_contain [of t p k' q] wf_t kt q anc by (auto simp: region_wf_def r_key_def)
    moreover have "(w OR 1) AND 1 \<noteq> (0 :: u8)" for w :: u8
      by (metis bit.conj_disj_distrib2 and.idem or_eq_0_iff zero_neq_one)
    ultimately show ?thesis using q
      by (auto simp: u_def heap_simps anc deny_marked_def mark_has_deny_def bump_gen_def Let_def
          XY_SUBTREE_HAS_DENY_def)
  qed
  ultimately show ?thesis
    using walks inv_t(2,3,4) sh rt same_shape_trans [OF sh(1) walks(3)] tabs
    by (auto simp: u_def heap_simps)
qed


lemma ancestors_regions: "regions t = regions s \<Longrightarrow> ancestors t p = ancestors s p"
proof -
  assume eq: "regions t = regions s"
  have "ancestor_loop t n x = ancestor_loop s n x" for n x
  proof (induction n arbitrary: x)
    case 0
    then show ?case by (cases x) auto
  next
    case (Suc n)
    then show ?case by (cases x) (auto simp: eq)
  qed
  then show ?thesis by (simp add: ancestors_def)
qed

lemma deny_frame_err [simp]:
  "deny_inv E (set_err e s) = deny_inv E s" "intern_wf E (set_err e s) = intern_wf E s"
  "denied_mods (set_err e s) = denied_mods s" "denied_hook_names (set_err e s) = denied_hook_names s"
  "r_gen (set_err e s) = r_gen s"
proof -
  have "dset (set_err e s) = dset s" "rt_list (set_err e s) = rt_list s"
    by (simp_all add: fun_eq_iff dset_def rt_list_def heap_simps)
  then show "deny_inv E (set_err e s) = deny_inv E s"
    by (simp add: deny_inv_def set_agrees_def rt_handles_def heap_simps)
qed (simp_all add: fun_eq_iff intern_wf_def denied_mods_def denied_hook_names_def r_gen_def heap_simps)

lemma deny_module_ok:
  assumes E: "env_ok E" and mem: "never_oom E" and s: "ready E s" and inv: "deny_inv E s"
    and iw: "intern_wf E s" and cur: "xy_current_region_entry s = Some p"
    and path: "module_load_path E s what = Some path"
  shows "\<exists>s' x. xy_deny E what XY_DENY_MODULE s = Some (XY_OK, s') \<and> ready E s' \<and> deny_inv E s' \<and>
     intern_wf E s' \<and> paths s' x = Some path \<and>
     denied_mods s' p = insert x (denied_mods s p) \<and> (\<forall>q. q \<noteq> p \<longrightarrow> denied_mods s' q = denied_mods s q) \<and>
     (\<forall>q. denied_hook_names s' q = denied_hook_names s q) \<and>
     (\<forall>q \<in> set (ancestors s p). \<exists>r. regions s' q = Some r \<and> re_subtree_flags r AND XY_SUBTREE_HAS_DENY \<noteq> 0) \<and>
     (\<forall>q. r_gen s' q = (if q \<in> set (ancestors s p)
        then map_option (\<lambda>r. re_dispatch_gen (bump_gen r)) (regions s q) else r_gen s q)) \<and>
     (\<forall>d \<in> rt_handles s. d \<noteq> path_intern_hd (xy_rt s) \<longrightarrow> tbl_get E s' d = tbl_get E s d) \<and>
     fst (module_path_intern E (Some path) s) = Some x"
proof -
  obtain x s1 where i: "module_path_intern E (Some path) s = (Some x, s1)" "intern_wf E s1"
    "paths s1 x = Some path" "regions s1 = regions s" "xy_rt s1 = xy_rt s" "next_addr s \<le> next_addr s1"
    "xy_current_region_entry s1 = xy_current_region_entry s"
    "xy_current_region_id s1 = xy_current_region_id s" "tbl_single E s1 = tbl_single E s"
    and tab: "\<And>d. d \<noteq> path_intern_hd (xy_rt s) \<Longrightarrow> tbl_single E s d \<Longrightarrow> tbl_get E s1 d = tbl_get E s d"
    using intern_result [OF E iw, of path] by blast
  note wf = readyD [OF s]
  have hds: "region_hd (xy_rt s) \<in> rt_handles s" "path_intern_hd (xy_rt s) \<in> rt_handles s"
    by (simp_all add: rt_handles_def rt_list_def Let_def)
  have ne: "region_hd (xy_rt s) \<noteq> path_intern_hd (xy_rt s)"
    using inv by (simp add: deny_inv_def rt_list_def Let_def)
  have single: "tbl_single E s (region_hd (xy_rt s))" using inv hds unfolding deny_inv_def by blast
  have wf1: "region_wf E s1"
    using wf(1) i(4,6,5,9) tab [OF ne single] by (rule region_wf_more_addresses)
  have ds: "dset s1 = dset s" using i(4) by (simp add: fun_eq_iff dset_def)
  have inv1: "deny_inv E s1"
  proof (rule deny_inv_frame [OF ds i(5) inv])
    show "tbl_get E s1 d = tbl_get E s d" if d: "d \<notin> rt_handles s" "tbl_single E s d" for d
      using d hds(2) by (intro tab) auto
  qed (simp add: i(9))
  obtain r where r: "regions s1 p = Some r" using wf(5) cur i(4) by (auto simp: current_wf_def r_key_def)
  define f :: "xy_region_entry \<Rightarrow> xy_region_entry" where "f = (\<lambda>r. r\<lparr>re_denied_modules := x # re_denied_modules r\<rparr>)"
  define g :: "hd \<Rightarrow> xy_region_entry \<Rightarrow> xy_region_entry" where "g = (\<lambda>d r. r\<lparr>re_denied_modules_set := d\<rparr>)"
  obtain d s2 where d: "ensure_set E (fst (deny_set True r)) g p (upd_reg p f s1) = (d, s2)" by fastforce
  obtain t1 u where u: "region_propagate_deny (Some p) (tbl_put E d (KPath x) (VPtr 1) s2) = Some t1"
    "region_dispatch_gen_bump (Some p) t1 = Some u" "region_wf E u" "deny_inv E u" "same_shape s1 u"
    "xy_rt u = xy_rt s1" "paths u = paths s1" "next_addr u = next_addr s1"
    "xy_current_region_entry u = xy_current_region_entry s1"
    "xy_current_region_id u = xy_current_region_id s1"
    "\<exists>d K d'. dset s1 p True = Some (d, K) \<and> dset u p True = Some (d', insert (KPath x) K)"
    "\<forall>q b'. (q, b') \<noteq> (p, True) \<longrightarrow> dset u q b' = dset s1 q b'"
    "\<forall>d' \<in> rt_handles s1. tbl_get E u d' = tbl_get E s1 d' \<and> tbl_single E u d' = tbl_single E s1 d'"
    "\<forall>q. r_gen u q = (if q \<in> set (ancestors s1 p)
        then map_option (\<lambda>r. re_dispatch_gen (bump_gen r)) (regions s1 q) else r_gen s1 q)"
    "\<forall>q \<in> set (ancestors s1 p). \<exists>r. regions u q = Some r \<and> re_subtree_flags r AND XY_SUBTREE_HAS_DENY \<noteq> 0"
    using deny_tail [OF E inv1 wf1 r _ _ _ _ _ _ _ _ d, of "KPath x"]
    by (simp add: f_def g_def deny_set_def shape_keeping_def) blast
  have "xy_deny E what XY_DENY_MODULE s = Some (XY_OK, set_err XY_OK u)"
    using s cur r i(1,4) path mem d u(1,2)
    by (simp add: xy_deny_def region_lookup_current_def never_oom_def f_def g_def deny_set_def fail_with_def)
  moreover have "ready E u"
    using u(3,5,6,9,10) i wf(4,5) by (auto simp: ready_def current_wf_def same_shape_def r_key_def)
  moreover have "intern_wf E u"
  proof -
    have "path_intern_hd (xy_rt u) \<in> rt_handles s1" by (simp add: u(6) rt_handles_def rt_list_def Let_def)
    with i(2) u(6,7,8,13) show ?thesis by (simp add: intern_wf_def)
  qed
  moreover have "denied_mods u p = insert x (denied_mods s p)"
    "q \<noteq> p \<Longrightarrow> denied_mods u q = denied_mods s q" "denied_hook_names u q = denied_hook_names s q" for q
    using u(11,12) by (auto simp: denied_mods_dset ds)
  moreover have "ancestors s1 p = ancestors s p" "r_gen s1 = r_gen s"
    using i(4) by (auto simp: fun_eq_iff r_gen_def intro!: ancestors_regions)
  moreover have "tbl_get E u d = tbl_get E s d" if d: "d \<in> rt_handles s" "d \<noteq> path_intern_hd (xy_rt s)" for d
  proof -
    have "tbl_single E s d" "d \<in> rt_handles s1"
      using inv d(1) unfolding deny_inv_def by blast (use d(1) in \<open>simp add: rt_handles_def rt_list_def i(5)\<close>)
    with u(13) tab [OF d(2)] show ?thesis by simp
  qed
  ultimately show ?thesis
    using u(4,7,14,15) i(1,3,4)
    by (intro exI [of _ "set_err XY_OK u"] exI [of _ x])
       (simp add: deny_frame_err heap_simps r_gen_def [symmetric])
qed

lemma deny_inv_removed:
  assumes E: "env_ok E" and inv: "deny_inv E s" and r: "regions s p = Some r"
    and s1: "remove_loop E (re_denied_modules_set r) x (re_denied_modules r) s = (rest, s1)"
  shows "deny_inv E (upd_reg p (\<lambda>r. r\<lparr>re_denied_modules := rest\<rparr>) s1)" (is "deny_inv E ?t")
proof -
  let ?d = "re_denied_modules_set r" and ?vs = "re_denied_modules r"
  note agree = inv [unfolded deny_inv_def, THEN conjunct1, rule_format]
    and inj = inv [unfolded deny_inv_def, THEN conjunct2, THEN conjunct1, rule_format]
    and apart = inv [unfolded deny_inv_def, THEN conjunct2, THEN conjunct2, THEN conjunct1, rule_format]
    and rts = inv [unfolded deny_inv_def, THEN conjunct2, THEN conjunct2, THEN conjunct2, THEN conjunct1, rule_format]
    and dist = inv [unfolded deny_inv_def, THEN conjunct2, THEN conjunct2, THEN conjunct2, THEN conjunct2]
  have rest: "rest = filter (\<lambda>v. v \<noteq> x) ?vs" "s1 = snd (remove_loop E ?d x ?vs s)"
    using remove_loop_list [of E ?d x ?vs s] s1 by simp_all
  obtain h where h: "s1 = s\<lparr>st_corm := h\<rparr>" using remove_loop_frame [of E ?d x ?vs s] s1 by auto
  have tabs: "tbl_get E ?t = tbl_get E s1" "tbl_single E ?t = tbl_single E s1" by (simp_all add: heap_simps)
  have own: "dset s p True = Some (?d, KPath ` set ?vs)" using r by (simp add: dset_def deny_set_def)
  have ds: "dset ?t q b = (if q = p \<and> b then Some (?d, KPath ` set rest) else dset s q b)" for q b
    using r by (auto simp: dset_def deny_set_def heap_simps h)
  have rt: "rt_handles ?t = rt_handles s" "rt_list ?t = rt_list s"
    by (simp_all add: rt_handles_def rt_list_def h heap_simps)
  have other: "tbl_single E s1 d'" "tbl_get E s1 d' = tbl_get E s d'"
    if "tbl_single E s d'" "d' \<noteq> ?d \<or> ?d = 0" for d'
    using remove_loop_others [OF E that(2,1)] by (simp_all add: rest(2))
  show ?thesis
    unfolding deny_inv_def rt
  proof (intro conjI allI impI ballI)
    fix q b d' K' assume q: "dset ?t q b = Some (d', K')"
    show "set_agrees E ?t d' K'"
    proof (cases "q = p \<and> b")
      case True
      with q ds [of q b] have eqs: "d' = ?d" "K' = KPath ` set rest" by simp_all
      have "set_agrees E s1 ?d (KPath ` set rest)"
        using set_agrees_remove [OF E agree [OF own], of x] by (simp only: rest)
      then show ?thesis by (simp only: set_agrees_def tabs eqs)
    next
      case False
      with q ds have q': "dset s q b = Some (d', K')" by simp
      with False inj [OF own, of q b K'] have "d' \<noteq> 0 \<Longrightarrow> d' \<noteq> ?d \<or> ?d = 0" by auto
      with agree [OF q'] other [of d'] show ?thesis by (auto simp: set_agrees_def tabs)
    qed
    show "d' \<notin> rt_handles s" if "d' \<noteq> 0"
      using q ds [of q b] apart [OF own] apart [of q b d' K'] that by (auto split: if_splits)
    fix q2 b2 K2 assume q2: "dset ?t q2 b2 = Some (d', K2)" and nz: "d' \<noteq> 0"
    obtain K1 K3 where "dset s q b = Some (d', K1)" "dset s q2 b2 = Some (d', K3)"
      using q q2 ds [of q b] ds [of q2 b2] own by (auto split: if_splits)
    from inj [OF this nz] show "q = q2" "b = b2" by auto
  next
    fix d' assume d': "d' \<in> rt_handles s"
    then have "d' \<noteq> ?d \<or> ?d = 0" using apart [OF own] by auto
    with other [OF rts [OF d']] show "tbl_single E ?t d'" by (simp add: tabs)
  qed (rule dist)
qed

lemma remove_denies_ok:
  assumes E: "env_ok E" and inv: "deny_inv E s" and r: "regions s p = Some r"
  shows "\<exists>s'. module_remove_denies E (Some p) (Some x) s = Some s' \<and> deny_inv E s' \<and>
     denied_mods s' p = denied_mods s p - {x} \<and> regions s' p \<noteq> None \<and>
     (\<forall>q. q \<noteq> p \<longrightarrow> denied_mods s' q = denied_mods s q)"
proof -
  let ?d = "re_denied_modules_set r" and ?vs = "re_denied_modules r"
  let ?rest = "filter (\<lambda>v. v \<noteq> x) ?vs"
  obtain s1 where s1: "remove_loop E ?d x ?vs s = (?rest, s1)"
    using remove_loop_list [of E ?d x ?vs s] by (metis prod.collapse)
  obtain h where h: "s1 = s\<lparr>st_corm := h\<rparr>" using remove_loop_frame [of E ?d x ?vs s] s1 by auto
  let ?s' = "upd_reg p (\<lambda>r. r\<lparr>re_denied_modules := ?rest\<rparr>) s1"
  have "module_remove_denies E (Some p) (Some x) s = Some ?s'"
    using r s1 by (simp add: module_remove_denies_def)
  moreover have regs: "regions ?s' = (regions s)(p \<mapsto> r\<lparr>re_denied_modules := ?rest\<rparr>)"
    using r h by (auto simp: heap_simps fun_eq_iff)
  moreover have "deny_inv E ?s'" using E inv r s1 by (rule deny_inv_removed)
  ultimately show ?thesis using r by (auto simp: denied_mods_def)
qed


section \<open>Properties\<close>

text \<open>
  C26. \<^verbatim>\<open>xy_deny\<close> of a module returns \<^const>\<open>XY_OK\<close> and adds the interned pointer of the module's
  resolved path to the current region's denied modules, in list and hash set alike, and to no
  other region's; it sets the deny flag of the region and all its ancestors, and gives exactly
  these regions a new dispatch generation. Regions \<^emph>\<open>below\<close> keep theirs.
\<close>

theorem deny_module_inserts:
  assumes "env_ok E" "never_oom E" "ready E s" "deny_inv E s" "intern_wf E s"
    and "xy_current_region_entry s = Some p" "module_load_path E s what = Some path"
  shows "\<exists>s' x. xy_deny E what XY_DENY_MODULE s = Some (XY_OK, s') \<and> ready E s' \<and> deny_inv E s' \<and>
     intern_wf E s' \<and> paths s' x = Some path \<and>
     denied_mods s' p = insert x (denied_mods s p) \<and> (\<forall>q. q \<noteq> p \<longrightarrow> denied_mods s' q = denied_mods s q) \<and>
     (\<forall>q. denied_hook_names s' q = denied_hook_names s q) \<and>
     (\<forall>q \<in> set (ancestors s p). \<exists>r. regions s' q = Some r \<and> re_subtree_flags r AND XY_SUBTREE_HAS_DENY \<noteq> 0) \<and>
     (\<forall>q. r_gen s' q = (if q \<in> set (ancestors s p)
        then map_option (\<lambda>r. re_dispatch_gen (bump_gen r)) (regions s q) else r_gen s q))"
  using deny_module_ok [OF assms] by blast

lemma demo_boot_corm:
  "st_corm demo_boot =
     \<lparr>ac_next = 6, ac_single = (\<lambda>_. False)(1 := True, 2 := True, 3 := True, 4 := True, 5 := False, 6 := True),
      ac_rows = (\<lambda>_. [])(1 := [], 2 := [], 3 := [], 4 := [], 5 := [],
        6 := [(KRegion root_key, VPtr 1)])\<rparr>"
  "xy_rt demo_boot =
     \<lparr>mod_hd = 4, mod_by_region_hd = 5, sica_hd = 1, path_intern_hd = 3, region_hd = 6,
      hook_id_hd = 2, xy_hook_id_counter = 0, xy_adapter_by_id = [], xy_inited = True, xy_mod_count = 0\<rparr>"
  "xy_current_region_entry demo_boot = Some 1" "xy_current_region_id demo_boot = 0"
  "paths demo_boot = (\<lambda>_. None)" "mods demo_boot = (\<lambda>_. None)" "next_addr demo_boot = 2"
  by (simp_all add: demo_boot_def xy_runtime_bootstrap_def demo_start_def open_table_def tbl_open_def
      region_ensure_root_def region_lookup_def demo_env_def list_corm_def upd_rt_def tbl_get_def
      new_region_def tbl_put_def set_current_region_def region_current_plen_def region_zero_def
      region_key_def root_key_def XY_REGION_ROOT_def numeral_eq_Suc)

lemma demo_boot_deny: "deny_inv demo_env demo_boot" "intern_wf demo_env demo_boot"
proof -
  have "dset demo_boot p b = (if p = 1 then Some (0, {}) else None)" for p b
    by (simp add: dset_def demo_boot_regions deny_set_def region_zero_def)
  then show "deny_inv demo_env demo_boot"
    by (auto simp: deny_inv_def set_agrees_def rt_handles_def rt_list_def demo_boot_corm tbl_single_def
        demo_env_def list_corm_def Let_def split: if_splits)
  show "intern_wf demo_env demo_boot"
    by (simp add: intern_wf_def demo_boot_corm tbl_single_def tbl_get_def demo_env_def list_corm_def)
qed

theorem deny_module_inserts_witness:
  "\<exists>s' x. xy_deny demo_env ''mods/a'' XY_DENY_MODULE demo_boot = Some (XY_OK, s') \<and>
     paths s' x = Some ''mods/a.so'' \<and> denied_mods s' 1 = insert x (denied_mods demo_boot 1)"
proof -
  have "module_load_path demo_env demo_boot ''mods/a'' = Some ''mods/a.so''"
    by (simp add: module_load_path_def demo_env_def Let_def)
  from deny_module_inserts [OF demo_env_ok demo_never_oom demo_boot_ready(1) demo_boot_deny
      demo_boot_corm(3) this] show ?thesis by blast
qed

text \<open>
  \<^verbatim>\<open>module_is_denied\<close> answers membership in the region's denied modules, and
  \<^verbatim>\<open>module_remove_denies\<close> removes exactly the given path from the region, however often it was
  denied, and keeps list and hash set in agreement.
\<close>

theorem remove_denies_exact:
  assumes "env_ok E" "deny_inv E s" "regions s p = Some r"
  shows "module_is_denied E s (Some p) (Some y) = Some (y \<in> denied_mods s p) \<and>
     (\<exists>s'. module_remove_denies E (Some p) (Some x) s = Some s' \<and> deny_inv E s' \<and>
        denied_mods s' p = denied_mods s p - {x} \<and>
        (\<forall>q. q \<noteq> p \<longrightarrow> denied_mods s' q = denied_mods s q) \<and>
        module_is_denied E s' (Some p) (Some y) = Some (y \<in> denied_mods s p \<and> y \<noteq> x))"
proof -
  obtain s' where s': "module_remove_denies E (Some p) (Some x) s = Some s'" "deny_inv E s'"
    "denied_mods s' p = denied_mods s p - {x}" "regions s' p \<noteq> None"
    "\<forall>q. q \<noteq> p \<longrightarrow> denied_mods s' q = denied_mods s q"
    using remove_denies_ok [OF assms, of x] by blast
  moreover have "module_is_denied E s' (Some p) (Some y) = Some (y \<in> denied_mods s p \<and> y \<noteq> x)"
    using module_is_denied_iff [OF s'(2), of p _ y] s'(3,4) by auto
  ultimately show ?thesis using module_is_denied_iff [OF assms(2,3), of y] by auto
qed

theorem remove_denies_exact_witness:
  "\<exists>s'. module_remove_denies demo_env (Some 1) (Some 7) demo_boot = Some s' \<and> denied_mods s' 1 = {}"
proof -
  obtain r where r: "regions demo_boot 1 = Some r" by (simp add: demo_boot_regions)
  have "denied_mods demo_boot 1 = {}" by (simp add: denied_mods_def demo_boot_regions region_zero_def)
  with remove_denies_exact [OF demo_env_ok demo_boot_deny(1) r, of 3 7] show ?thesis by auto
qed

end
