(* ===== verification/Xy_Dispatch.thy ===== *)
theory Xy_Dispatch
  imports Xy_Deny
begin

text \<open>
  Dispatch, from \<^verbatim>\<open>src/libxylem-dispatch.c\<close>: the return-value bookkeeping behind \<^verbatim>\<open>xy_last\<close>, the
  per-hook vector of listeners a region caches, the dispatch core \<^verbatim>\<open>xy_dispatch\<close> with its two
  scopes, and the registration of adapters.

  \<^verbatim>\<open>reg->call(retp, cb, arg)\<close> runs module code, which may call back into the library: it is
  the environment's \<^const>\<open>run_hook\<close>, from a state to a state. Arrays of dispatch slots live in
  their own heap; a growing \<^verbatim>\<open>realloc\<close> always moves the array, so that a pointer kept across a
  regrowth is dangling.
\<close>

section \<open>Return values\<close>

text \<open>\<^verbatim>\<open>memcpy\<close> out of and \<^verbatim>\<open>memset(.., 0, ..)\<close> into a caller's buffer, within its bounds.\<close>

definition buf_read :: "'h xy_state \<Rightarrow> addr \<Rightarrow> nat \<Rightarrow> u8 list option" where
  "buf_read s a n =
     do { b \<leftarrow> bufs s a; if n \<le> length b then Some (take n b) else None }"

definition buf_write :: "addr \<Rightarrow> u8 list \<Rightarrow> 'h xy_state \<Rightarrow> 'h xy_state option" where
  "buf_write a bs s =
     do { b \<leftarrow> bufs s a;
          if length bs \<le> length b
          then Some (s\<lparr>bufs := (bufs s)(a \<mapsto> bs @ drop (length bs) b)\<rparr>) else None }"

definition xy_zero_ret :: "addr option \<Rightarrow> aptr option \<Rightarrow> 'h xy_state \<Rightarrow> 'h xy_state option" where
  "xy_zero_ret retp reg s =
     (case (retp, reg) of
        (Some a, Some r) \<Rightarrow> do { ad \<leftarrow> adapters s r; buf_write a (replicate (ad_ret_size ad) 0) s }
      | _ \<Rightarrow> Some s)"

text \<open>
  \<^verbatim>\<open>xy_set_last_ret\<close>: keep a copy of the returned bytes, padded with zeros to eight when they
  are fewer, and point \<^verbatim>\<open>xy_last_retp\<close> at it.
\<close>

definition xy_set_last_ret :: "addr option \<Rightarrow> nat \<Rightarrow> 'h xy_state \<Rightarrow> 'h xy_state option" where
  "xy_set_last_ret retp ret_size s =
     (case retp of
        None \<Rightarrow> Some (s\<lparr>xy_last_retp := None\<rparr>)
      | Some a \<Rightarrow>
          if 0 < ret_size
          then do { bs \<leftarrow> buf_read s a ret_size;
                    let v = (if ret_size \<le> 8 then bs @ replicate (8 - ret_size) 0 else bs);
                    if length v \<le> length (xy_last_retbuf s)
                    then Some (s\<lparr>xy_last_retbuf := v @ drop (length v) (xy_last_retbuf s),
                                 xy_last_retp := Some Last_Retbuf\<rparr>)
                    else None }
          else Some (s\<lparr>xy_last_retp := None\<rparr>))"

definition set_adapter :: "aptr option \<Rightarrow> 'h xy_state \<Rightarrow> 'h xy_state" where
  "set_adapter reg s = s\<lparr>xy_global := (xy_global s)\<lparr>cx_adapter := reg\<rparr>\<rparr>"

definition xy_last_publish :: "nat \<Rightarrow> addr option \<Rightarrow> aptr \<Rightarrow> 'h xy_state \<Rightarrow> 'h xy_state" where
  "xy_last_publish n retp reg s =
     (set_adapter (Some reg) s)\<lparr>xy_last_ran := n, xy_last_retp := map_option Caller_Buf retp\<rparr>"

definition read_last :: "'h xy_state \<Rightarrow> ret_ref \<Rightarrow> nat \<Rightarrow> u8 list option" where
  "read_last s p n =
     (case p of
        Caller_Buf a \<Rightarrow> buf_read s a n
      | Last_Retbuf \<Rightarrow> if n \<le> length (xy_last_retbuf s) then Some (take n (xy_last_retbuf s)) else None)"

definition xy_last :: "'h env \<Rightarrow> addr option \<Rightarrow> 'h xy_state \<Rightarrow> (int \<times> 'h xy_state) option" where
  "xy_last E ret s =
     do { (retc, s) \<leftarrow> xy_runtime_ensure E s;
          if retc \<noteq> XY_OK then Some (fail_with retc s)
          else case cx_adapter (xy_global s) of
            None \<Rightarrow> Some (fail_with XY_ERR_INVALID s)
          | Some reg \<Rightarrow>
              if xy_last_ran s = 0 then Some (fail_with XY_ERR_NOTFOUND s)
              else case (ret, xy_last_retp s) of
                (Some a, Some p) \<Rightarrow>
                  do { ad \<leftarrow> adapters s reg;
                       bs \<leftarrow> read_last s p (ad_ret_size ad);
                       s1 \<leftarrow> buf_write a bs s;
                       Some (fail_with XY_OK s1) }
              | _ \<Rightarrow> Some (fail_with XY_OK s) }"


section \<open>The cached vector of listeners\<close>

definition cache_zero :: xy_hook_dispatch_cache where
  "cache_zero = \<lparr>hc_slots = None, hc_count = 0, hc_cap = 0, hc_region_gen = 0\<rparr>"

definition slot_zero :: xy_dispatch_slot where
  "slot_zero = \<lparr>sl_me = None, sl_cb = FN_NULL\<rparr>"

definition region_ensure_hook_dispatch_cap ::
  "'h env \<Rightarrow> rptr option \<Rightarrow> int \<Rightarrow> 'h xy_state \<Rightarrow> (int \<times> 'h xy_state) option" where
  "region_ensure_hook_dispatch_cap E re hook_id s =
     (case re of
        None \<Rightarrow> Some (XY_ERR_INVALID, s)
      | Some p \<Rightarrow>
          if hook_id < 0 then Some (XY_ERR_INVALID, s)
          else do { r \<leftarrow> regions s p;
                    if hook_id < int (length (re_hook_dispatch r)) then Some (XY_OK, s)
                    else if \<not> malloc_ok E s (nat (hook_id + 16) * 24) then Some (XY_ERR_INVALID, s)
                    else Some (XY_OK, upd_reg p (\<lambda>r. r\<lparr>re_hook_dispatch := re_hook_dispatch r @
                           replicate (nat (hook_id + 16) - length (re_hook_dispatch r)) cache_zero\<rparr>) s) })"

text \<open>The cache cell of one hook, and an assignment through \<^verbatim>\<open>cache-><field>\<close>.\<close>

definition hook_cache :: "'h xy_state \<Rightarrow> rptr \<Rightarrow> int \<Rightarrow> xy_hook_dispatch_cache option" where
  "hook_cache s p h =
     do { r \<leftarrow> regions s p;
          if 0 \<le> h \<and> h < int (length (re_hook_dispatch r)) then Some (re_hook_dispatch r ! nat h) else None }"

definition upd_cache ::
  "rptr \<Rightarrow> int \<Rightarrow> (xy_hook_dispatch_cache \<Rightarrow> xy_hook_dispatch_cache) \<Rightarrow> 'h xy_state \<Rightarrow> 'h xy_state" where
  "upd_cache p h f s =
     upd_reg p (\<lambda>r. r\<lparr>re_hook_dispatch := (re_hook_dispatch r)[nat h := f (re_hook_dispatch r ! nat h)]\<rparr>) s"

text \<open>
  The end of the loop body of \<^verbatim>\<open>region_rebuild_hook_dispatch\<close>: grow the array when it is full,
  then store module and callback behind the last slot. \<open>-2\<close> when the allocator refuses.
\<close>

definition slots_grow :: "'h env \<Rightarrow> rptr \<Rightarrow> int \<Rightarrow> 'h xy_state \<Rightarrow> (int \<times> 'h xy_state) option" where
  "slots_grow E p h s =
     do { c \<leftarrow> hook_cache s p h;
          if hc_count c < hc_cap c then Some (XY_OK, s)
          else let new_cap = (if hc_cap c \<noteq> 0 then hc_cap c * 2 else 8)
               in if \<not> malloc_ok E s (new_cap * 16) then Some (XY_ERR_INVALID, s)
                  else do { old \<leftarrow> (case hc_slots c of None \<Rightarrow> Some [] | Some a \<Rightarrow> slot_arrays s a);
                            let heap = (case hc_slots c of None \<Rightarrow> slot_arrays s
                                                     | Some a \<Rightarrow> (slot_arrays s)(a := None));
                            let new = next_addr s;
                            let s1 = s\<lparr>slot_arrays := heap(new \<mapsto>
                                         old @ replicate (new_cap - length old) slot_zero),
                                       next_addr := Suc new\<rparr>;
                            Some (XY_OK, upd_cache p h
                              (\<lambda>c. c\<lparr>hc_slots := Some new, hc_cap := new_cap\<rparr>) s1) } }"

definition slots_push :: "'h env \<Rightarrow> rptr \<Rightarrow> int \<Rightarrow> mptr \<Rightarrow> 'h xy_state \<Rightarrow> (int \<times> 'h xy_state) option" where
  "slots_push E p h m s =
     do { (rc, s1) \<leftarrow> slots_grow E p h s;
          if rc \<noteq> XY_OK then Some (rc, s1)
          else do { c \<leftarrow> hook_cache s1 p h;
                    a \<leftarrow> hc_slots c;
                    arr \<leftarrow> slot_arrays s1 a;
                    e \<leftarrow> mods s1 m;
                    if hc_count c < length arr \<and> 0 \<le> h \<and> h < int (length (me_fn_cache e))
                    then Some (XY_OK, upd_cache p h (\<lambda>c. c\<lparr>hc_count := hc_count c + 1\<rparr>)
                           (s1\<lparr>slot_arrays := (slot_arrays s1)(a \<mapsto> arr[hc_count c :=
                                 \<lparr>sl_me = Some m, sl_cb = me_fn_cache e ! nat h\<rparr>])\<rparr>))
                    else None } }"

text \<open>The walk over an array of ancestors, stopping at the first that denies the path.\<close>

fun denied_in :: "'h env \<Rightarrow> 'h xy_state \<Rightarrow> sptr \<Rightarrow> rptr list \<Rightarrow> bool option" where
  "denied_in E s path [] = Some False"
| "denied_in E s path (p # ps) =
     do { d \<leftarrow> module_is_denied E s (Some p) (Some path); if d then Some True else denied_in E s path ps }"

definition module_denied_by_ancestors ::
  "'h env \<Rightarrow> 'h xy_state \<Rightarrow> rptr list \<Rightarrow> xy_mod_entry \<Rightarrow> bool option" where
  "module_denied_by_ancestors E s anc e =
     (if anc = [] then Some False
      else case me_load_path e of None \<Rightarrow> Some False | Some path \<Rightarrow> denied_in E s path anc)"

text \<open>
  Does the module listen to the hook? Its bit says so, or resolving the symbol does; an
  out-of-memory resolution is an error.
\<close>

definition module_listens ::
  "'h env \<Rightarrow> mptr \<Rightarrow> int \<Rightarrow> string \<Rightarrow> 'h xy_state \<Rightarrow> ((int + bool) \<times> 'h xy_state) option" where
  "module_listens E m hook_id name s =
     do { e \<leftarrow> mods s m;
          if module_has_hook_implemented e hook_id then Some (Inr True, s)
          else do { (cb, s1) \<leftarrow> fn_cache_resolve E m hook_id name s;
                    case cb of
                      Resolve_OOM \<Rightarrow> Some (Inl XY_ERR_INVALID, s1)
                    | Unresolved \<Rightarrow> Some (Inr False, s1)
                    | Resolved _ \<Rightarrow>
                        do { e1 \<leftarrow> mods s1 m;
                             Some (Inr (module_has_hook_implemented e1 hook_id), s1) } } }"

fun rebuild_loop ::
  "'h env \<Rightarrow> rptr \<Rightarrow> int \<Rightarrow> string \<Rightarrow> rptr list \<Rightarrow> mptr list \<Rightarrow> 'h xy_state \<Rightarrow> (int \<times> 'h xy_state) option" where
  "rebuild_loop E p h name anc [] s = Some (XY_OK, s)"
| "rebuild_loop E p h name anc (m # ms) s =
     do { e \<leftarrow> mods s m;
          if me_ctx e = None then rebuild_loop E p h name anc ms s
          else do { den \<leftarrow> module_denied_by_ancestors E s anc e;
                    if den then rebuild_loop E p h name anc ms s
                    else do { (l, s1) \<leftarrow> module_listens E m h name s;
                              case l of
                                Inl err \<Rightarrow> Some (err, s1)
                              | Inr False \<Rightarrow> rebuild_loop E p h name anc ms s1
                              | Inr True \<Rightarrow>
                                  do { (rc, s2) \<leftarrow> slots_push E p h m s1;
                                       if rc \<noteq> XY_OK then Some (rc, s2)
                                       else rebuild_loop E p h name anc ms s2 } } } }"

definition region_rebuild_hook_dispatch ::
  "'h env \<Rightarrow> rptr option \<Rightarrow> int \<Rightarrow> string \<Rightarrow> rptr list \<Rightarrow> 'h xy_state \<Rightarrow> (int \<times> 'h xy_state) option" where
  "region_rebuild_hook_dispatch E re hook_id hook_name anc s =
     (case re of
        None \<Rightarrow> Some (XY_ERR_INVALID, s)
      | Some p \<Rightarrow>
          if hook_id < 0 then Some (XY_ERR_INVALID, s)
          else do {
            r \<leftarrow> regions s p;
            (rc, s1) \<leftarrow> (if re_subtree_mods_dirty r then region_rebuild_subtree_mods E (Some p) s
                        else Some (0, s));
            if rc < 0 then Some (XY_ERR_INVALID, s1)
            else do {
              (rc, s2) \<leftarrow> region_ensure_hook_dispatch_cap E (Some p) hook_id s1;
              if rc \<noteq> XY_OK then Some (XY_ERR_INVALID, s2)
              else do {
                c \<leftarrow> hook_cache s2 p hook_id;
                r2 \<leftarrow> regions s2 p;
                if hc_region_gen c = re_dispatch_gen r2 then Some (XY_OK, s2)
                else do {
                  (rc, s3) \<leftarrow> rebuild_loop E p hook_id hook_name anc (re_subtree_mods r2)
                                (upd_cache p hook_id (\<lambda>c. c\<lparr>hc_count := 0\<rparr>) s2);
                  if rc \<noteq> XY_OK then Some (XY_ERR_INVALID, s3)
                  else do {
                    r3 \<leftarrow> regions s3 p;
                    Some (XY_OK, upd_cache p hook_id
                           (\<lambda>c. c\<lparr>hc_region_gen := re_dispatch_gen r3\<rparr>) s3) } } } } })"


section \<open>Preparing a dispatch\<close>

text \<open>
  The adapter's hook id, looked up by name when it has none yet, and the function that calls
  the callbacks, taken from the registered adapter of that id when the given one has none.
  \<^const>\<open>Inl\<close> is the error of a \<^verbatim>\<open>goto fail\<close>.
\<close>

definition canonical_adapter :: "'h xy_state \<Rightarrow> int \<Rightarrow> aptr option" where
  "canonical_adapter s h =
     (if 0 \<le> h \<and> h < int (length (xy_adapter_by_id (xy_rt s)))
      then xy_adapter_by_id (xy_rt s) ! nat h else None)"

definition adopt_hook_id ::
  "'h env \<Rightarrow> aptr \<Rightarrow> 'h xy_state \<Rightarrow> ((int + int) \<times> 'h xy_state) option" where
  "adopt_hook_id E reg s =
     do { a \<leftarrow> adapters s reg;
          if \<not> ad_hook_id a < 0 then Some (Inr (ad_hook_id a), s)
          else case tbl_get E s (hook_id_hd (xy_rt s)) (KStr (ad_name a)) of
            None \<Rightarrow> Some (Inl XY_ERR_NOTFOUND, s)
          | Some (VPtr _) \<Rightarrow> None
          | Some (VInt h) \<Rightarrow>
              (let s1 = upd_adapter reg (\<lambda>a. a\<lparr>ad_hook_id := h\<rparr>) s
               in case canonical_adapter s1 h of
                    None \<Rightarrow> Some (Inr h, s1)
                  | Some ca \<Rightarrow>
                      if ad_call a \<noteq> None then Some (Inr h, s1)
                      else do { c \<leftarrow> adapters s1 ca;
                                Some (Inr h, upd_adapter reg (\<lambda>a. a\<lparr>ad_call := ad_call c,
                                  ad_ret_size := ad_ret_size c, ad_arg_size := ad_arg_size c\<rparr>) s1) }) }"

definition dispatch_hook ::
  "'h env \<Rightarrow> aptr \<Rightarrow> 'h xy_state \<Rightarrow> ((int + int \<times> fnptr) \<times> 'h xy_state) option" where
  "dispatch_hook E reg s =
     do { (l, s1) \<leftarrow> adopt_hook_id E reg s;
          case l of
            Inl err \<Rightarrow> Some (Inl err, s1)
          | Inr hook_id \<Rightarrow>
              do { a \<leftarrow> adapters s1 reg;
                   if ad_ret_size a > XY_MAX_RET_SIZE then Some (Inl XY_ERR_TOOBIG, s1)
                   else do {
                     call \<leftarrow> (case ad_call a of
                               Some f \<Rightarrow> Some (Some f)
                             | None \<Rightarrow> (case canonical_adapter s1 hook_id of
                                  None \<Rightarrow> Some None
                                | Some ca \<Rightarrow> do { c \<leftarrow> adapters s1 ca; Some (ad_call c) }));
                     case call of
                       None \<Rightarrow> Some (Inl XY_ERR_NOTFOUND, s1)
                     | Some f \<Rightarrow> Some (Inr (hook_id, f), s1) } } }"

text \<open>Is the hook denied by one of the given regions?\<close>

fun hook_denied_in :: "'h env \<Rightarrow> 'h xy_state \<Rightarrow> string \<Rightarrow> rptr list \<Rightarrow> bool option" where
  "hook_denied_in E s name [] = Some False"
| "hook_denied_in E s name (p # ps) =
     do { r \<leftarrow> regions s p;
          if re_denied_hooks_set r \<noteq> 0 \<and> tbl_get E s (re_denied_hooks_set r) (KStr name) \<noteq> None
          then Some True else hook_denied_in E s name ps }"

text \<open>
  The deny gate: consulted when the root of the chain carries the deny flag, and then for the
  ancestors only, never for the caller's own region (the last of the chain).
\<close>

definition deny_gate :: "'h env \<Rightarrow> 'h xy_state \<Rightarrow> string \<Rightarrow> rptr list \<Rightarrow> bool option" where
  "deny_gate E s name anc =
     do { sflags \<leftarrow> (case anc of [] \<Rightarrow> Some 0 | p # _ \<Rightarrow> map_option re_subtree_flags (regions s p));
          if sflags AND XY_SUBTREE_SECURITY_MASK \<noteq> 0 then hook_denied_in E s name (butlast anc)
          else Some False }"



section \<open>Running the listeners\<close>

text \<open>The locals of \<^verbatim>\<open>xy_dispatch\<close> that its loops read.\<close>

record dispatch_frame =
  df_retp :: "addr option"
  df_reg :: aptr
  df_arg :: "addr option"
  df_call :: fnptr
  df_hook_id :: int
  df_region_id :: u64
  df_caller :: rptr
  df_anc :: "rptr list"

text \<open>\<^verbatim>\<open>ctx->adapter = reg; ctx->region_state = me->region_state;\<close>\<close>

definition enter_ctx :: "dispatch_frame \<Rightarrow> xy_mod_entry \<Rightarrow> cptr \<Rightarrow> 'h xy_state \<Rightarrow> 'h xy_state" where
  "enter_ctx F e c s =
     upd_ctx c (\<lambda>x. x\<lparr>cx_adapter := Some (df_reg F), cx_region_state := me_region_state e\<rparr>) s"

text \<open>
  Exact-region scope: the region's own modules along \<^verbatim>\<open>region_next\<close>. The link is read after the
  callback has returned, so a module that keeps loading modules behind itself keeps the loop
  going; not coming back is \<^const>\<open>None\<close>.
\<close>

partial_function (option) self_loop ::
  "'h env \<Rightarrow> dispatch_frame \<Rightarrow> nat \<Rightarrow> mptr option \<Rightarrow> 'h xy_state \<Rightarrow> ((int + nat) \<times> 'h xy_state) option" where
  "self_loop E F n me s =
     (case me of
        None \<Rightarrow> Some (Inr n, s)
      | Some m \<Rightarrow>
          Option.bind (mods s m) (\<lambda>e.
            case me_ctx e of
              None \<Rightarrow> self_loop E F n (me_region_next e) s
            | Some c \<Rightarrow>
                Option.bind (module_denied_by_ancestors E s (df_anc F) e) (\<lambda>den.
                  if den then self_loop E F n (me_region_next e) s
                  else Option.bind (adapters s (df_reg F)) (\<lambda>a.
                    Option.bind (module_listens E m (df_hook_id F) (ad_name a) s) (\<lambda>ls.
                      case fst ls of
                        Inl err \<Rightarrow> Some (Inl err, snd ls)
                      | Inr go \<Rightarrow>
                          Option.bind (mods (snd ls) m) (\<lambda>e1.
                            if \<not> go then self_loop E F n (me_region_next e1) (snd ls)
                            else if ctxs (snd ls) c = None \<or> \<not> nat (df_hook_id F) < length (me_fn_cache e1)
                            then None
                            else Option.bind (run_hook E (df_call F) (df_retp F)
                                     (me_fn_cache e1 ! nat (df_hook_id F)) (df_arg F)
                                     (enter_ctx F e1 c (snd ls))) (\<lambda>s1.
                              let s2 = xy_last_publish (Suc n) (df_retp F) (df_reg F) s1
                              in Option.bind (mods s2 m) (\<lambda>e2.
                                   self_loop E F (Suc n) (me_region_next e2) s2))))))))"

text \<open>
  One slot of the cached vector: skipped when it has no module, context or callback; otherwise
  the callback runs in its module's region, and the caller's region is put back. The two
  places of \<^verbatim>\<open>xy_dispatch\<close> that run a slot (a vector of one, and the loop) do the same.
\<close>

definition run_slot ::
  "'h env \<Rightarrow> dispatch_frame \<Rightarrow> xy_dispatch_slot \<Rightarrow> 'h xy_state \<Rightarrow> (bool \<times> 'h xy_state) option" where
  "run_slot E F sl s =
     (case sl_me sl of
        None \<Rightarrow> Some (False, s)
      | Some m \<Rightarrow>
          do { e \<leftarrow> mods s m;
               case me_ctx e of
                 None \<Rightarrow> Some (False, s)
               | Some c \<Rightarrow>
                   if sl_cb sl = FN_NULL then Some (False, s)
                   else do {
                     x \<leftarrow> ctxs s c;
                     let s1 = enter_ctx F e c s;
                     let prev_rentry = xy_current_region_entry s1;
                     if me_region_entry e \<noteq> Some (df_caller F)
                     then do { s2 \<leftarrow> run_hook E (df_call F) (df_retp F) (sl_cb sl) (df_arg F)
                                 (set_current_region (cx_region_id x) (me_region_entry e) s1);
                               Some (True, set_current_region (df_region_id F) prev_rentry s2) }
                     else do { s2 \<leftarrow> run_hook E (df_call F) (df_retp F) (sl_cb sl) (df_arg F) s1;
                               Some (True, s2) } } })"

text \<open>
  The slot loop: \<open>k\<close> slots are left, the next is \<open>mi\<close>; the array is read afresh for each. A
  vector of one goes through the same body with \<^verbatim>\<open>ran = 1\<close>.
\<close>

fun slots_loop ::
  "'h env \<Rightarrow> dispatch_frame \<Rightarrow> addr option \<Rightarrow> nat \<Rightarrow> nat \<Rightarrow> nat \<Rightarrow> 'h xy_state \<Rightarrow> (nat \<times> 'h xy_state) option" where
  "slots_loop E F slots 0 mi n s = Some (n, s)"
| "slots_loop E F slots (Suc k) mi n s =
     do { a \<leftarrow> slots;
          arr \<leftarrow> slot_arrays s a;
          if \<not> mi < length arr then None
          else do { (did, s1) \<leftarrow> run_slot E F (arr ! mi) s;
                    if did
                    then slots_loop E F slots k (Suc mi) (Suc n)
                           (xy_last_publish (Suc n) (df_retp F) (df_reg F) s1)
                    else slots_loop E F slots k (Suc mi) n s1 } }"

text \<open>Subtree scope: bring vector and cache up to date, then run the cached slots.\<close>

definition subtree_scope ::
  "'h env \<Rightarrow> dispatch_frame \<Rightarrow> 'h xy_state \<Rightarrow> ((int + nat) \<times> 'h xy_state) option" where
  "subtree_scope E F s =
     (let p = df_caller F; h = df_hook_id F
      in do {
        r \<leftarrow> regions s p;
        (rc, s1) \<leftarrow> (if re_subtree_mods_dirty r then region_rebuild_subtree_mods E (Some p) s
                    else Some (0, s));
        if rc < 0 then Some (Inl XY_ERR_INVALID, s1)
        else do {
          r1 \<leftarrow> regions s1 p;
          (rc, s2) \<leftarrow> (if h \<ge> int (length (re_hook_dispatch r1))
                      then region_ensure_hook_dispatch_cap E (Some p) h s1 else Some (XY_OK, s1));
          if rc \<noteq> XY_OK then Some (Inl XY_ERR_INVALID, s2)
          else do {
            c \<leftarrow> hook_cache s2 p h;
            r2 \<leftarrow> regions s2 p;
            a \<leftarrow> adapters s2 (df_reg F);
            (rc, s3) \<leftarrow> (if hc_region_gen c \<noteq> re_dispatch_gen r2
                        then region_rebuild_hook_dispatch E (Some p) h (ad_name a) (df_anc F) s2
                        else Some (XY_OK, s2));
            if rc \<noteq> XY_OK then Some (Inl XY_ERR_INVALID, s3)
            else do {
              c3 \<leftarrow> hook_cache s3 p h;
              (n, s4) \<leftarrow> slots_loop E F (hc_slots c3) (hc_count c3) 0 0 s3;
              Some (Inr n, s4) } } } })"

definition self_scope ::
  "'h env \<Rightarrow> dispatch_frame \<Rightarrow> 'h xy_state \<Rightarrow> ((int + nat) \<times> 'h xy_state) option" where
  "self_scope E F s =
     do { r \<leftarrow> regions s (df_caller F); self_loop E F 0 (re_mods_head r) s }"


section \<open>The dispatch core\<close>

text \<open>\<^verbatim>\<open>fail:\<close>\<close>

definition dispatch_fail ::
  "int \<Rightarrow> addr option \<Rightarrow> aptr \<Rightarrow> 'h xy_state \<Rightarrow> (int \<times> 'h xy_state) option" where
  "dispatch_fail ret retp reg s =
     do { s1 \<leftarrow> xy_set_last_ret None 0 (s\<lparr>xy_last_ran := 0\<rparr>);
          s2 \<leftarrow> xy_zero_ret retp (Some reg) s1;
          Some (fail_with ret (set_adapter (Some reg) s2)) }"

text \<open>The regular end: nothing ran, or the return value is kept for \<^verbatim>\<open>xy_last\<close>.\<close>

definition dispatch_finish ::
  "nat \<Rightarrow> addr option \<Rightarrow> aptr \<Rightarrow> 'h xy_state \<Rightarrow> (int \<times> 'h xy_state) option" where
  "dispatch_finish n retp reg s =
     do { a \<leftarrow> adapters s reg;
          let s1 = s\<lparr>xy_last_ran := n\<rparr>;
          if n = 0
          then do { s2 \<leftarrow> xy_set_last_ret None (ad_ret_size a) s1;
                    s3 \<leftarrow> xy_zero_ret retp (Some reg) s2;
                    Some (fail_with XY_ERR_NOTFOUND s3) }
          else do { s2 \<leftarrow> xy_set_last_ret retp (ad_ret_size a) s1;
                    Some (fail_with XY_OK s2) } }"

definition xy_dispatch ::
  "'h env \<Rightarrow> addr option \<Rightarrow> aptr option \<Rightarrow> addr option \<Rightarrow> bool \<Rightarrow> 'h xy_state \<Rightarrow> (int \<times> 'h xy_state) option" where
  "xy_dispatch E retp reg arg self_only s =
     do { (ret, s) \<leftarrow> (if xy_inited (xy_rt s) then Some (XY_OK, s) else xy_runtime_ensure E s);
          if ret \<noteq> XY_OK then do { s1 \<leftarrow> xy_zero_ret retp reg s; Some (fail_with ret s1) }
          else case reg of
            None \<Rightarrow> Some (fail_with XY_ERR_NOTFOUND s)
          | Some reg \<Rightarrow>
              do { let region_id = xy_current_region_id s;
                   region_plen \<leftarrow> region_current_plen s;
                   let entry = xy_current_region_entry s;
                   (l, s1) \<leftarrow> dispatch_hook E reg s;
                   case l of
                     Inl err \<Rightarrow> dispatch_fail err retp reg s1
                   | Inr (hook_id, call) \<Rightarrow>
                       do { let caller = (case entry of Some p \<Rightarrow> Some p
                                                      | None \<Rightarrow> region_lookup E s1 region_id region_plen);
                            anc \<leftarrow> (case caller of None \<Rightarrow> Some []
                                                | Some p \<Rightarrow> region_ancestor_chain s1 p 65);
                            a \<leftarrow> adapters s1 reg;
                            denied \<leftarrow> deny_gate E s1 (ad_name a) anc;
                            if denied then dispatch_fail XY_ERR_EPERM retp reg s1
                            else do {
                              let s2 = xy_last_publish 0 retp reg s1;
                              (l, s3) \<leftarrow> (case caller of
                                          None \<Rightarrow> Some (Inr 0, s2)
                                        | Some p \<Rightarrow>
                                            (let F = \<lparr>df_retp = retp, df_reg = reg, df_arg = arg, df_call = call,
                                                      df_hook_id = hook_id, df_region_id = region_id,
                                                      df_caller = p, df_anc = anc\<rparr>
                                             in if self_only then self_scope E F s2 else subtree_scope E F s2));
                              case l of
                                Inl err \<Rightarrow> dispatch_fail err retp reg s3
                              | Inr n \<Rightarrow> dispatch_finish n retp reg s3 } } } }"

definition xy_call ::
  "'h env \<Rightarrow> addr option \<Rightarrow> aptr option \<Rightarrow> addr option \<Rightarrow> 'h xy_state \<Rightarrow> (int \<times> 'h xy_state) option" where
  "xy_call E retp reg arg s = xy_dispatch E retp reg arg False s"

definition xy_call_self ::
  "'h env \<Rightarrow> addr option \<Rightarrow> aptr option \<Rightarrow> addr option \<Rightarrow> 'h xy_state \<Rightarrow> (int \<times> 'h xy_state) option" where
  "xy_call_self E retp reg arg s = xy_dispatch E retp reg arg True s"


section \<open>Registering adapters\<close>

text \<open>The loop that warms the symbol caches of all loaded modules.\<close>

fun prewarm_all :: "'h env \<Rightarrow> (corm_key \<times> corm_val) list \<Rightarrow> 'h xy_state \<Rightarrow> 'h xy_state option" where
  "prewarm_all E [] s = Some s"
| "prewarm_all E ((k, v) # kvs) s =
     (case corm_ptr (Some v) of
        None \<Rightarrow> prewarm_all E kvs s
      | Some m \<Rightarrow> do { (rc, s1) \<leftarrow> fn_cache_prewarm E (Some m) s; prewarm_all E kvs s1 })"

text \<open>
  \<^verbatim>\<open>xy_areg\<close>. For a name that is registered already the C code reads the stored adapter pointer
  as an \<^verbatim>\<open>unsigned\<close>: the result is the pointer's low 32 bits.
\<close>

definition xy_areg ::
  "'h env \<Rightarrow> string \<Rightarrow> aptr \<Rightarrow> 'h xy_state \<Rightarrow> (u32 \<times> 'h xy_state) option" where
  "xy_areg E name adapter s =
     do { (enter_ret, s) \<leftarrow> xy_runtime_ensure E s;
          if enter_ret \<noteq> XY_OK then Some (XY_INVALID, set_err enter_ret s)
          else do {
            a \<leftarrow> adapters s adapter;
            if ad_ret_size a > XY_MAX_RET_SIZE then Some (XY_INVALID, set_err XY_ERR_TOOBIG s)
            else case tbl_get E s (sica_hd (xy_rt s)) (KStr name) of
              Some (VPtr p) \<Rightarrow> Some (of_nat p, s)
            | Some (VInt i) \<Rightarrow> Some (of_int i, s)
            | None \<Rightarrow>
                do { let s1 = tbl_put E (sica_hd (xy_rt s)) (KStr name) (VPtr adapter) s;
                     let hook_id = xy_hook_id_counter (xy_rt s1);
                     let s2 = upd_rt (\<lambda>r. r\<lparr>xy_hook_id_counter := hook_id + 1\<rparr>) s1;
                     let s3 = tbl_put E (hook_id_hd (xy_rt s2)) (KStr name) (VInt hook_id) s2;
                     let s4 = upd_adapter adapter (\<lambda>a. a\<lparr>ad_hook_id := hook_id\<rparr>) s3;
                     let cap = int (length (xy_adapter_by_id (xy_rt s4)));
                     if hook_id \<ge> cap \<and> \<not> malloc_ok E s4 (nat (hook_id + 16) * 8)
                     then Some (of_int XY_ERR_INVALID, set_err XY_ERR_INVALID s4)
                     else do {
                       let s5 = (if hook_id \<ge> cap
                                 then upd_rt (\<lambda>r. r\<lparr>xy_adapter_by_id := xy_adapter_by_id r @
                                        replicate (nat (hook_id + 16 - cap)) None\<rparr>) s4
                                 else s4);
                       s6 \<leftarrow> (if 0 \<le> hook_id
                              then Some (upd_rt (\<lambda>r. r\<lparr>xy_adapter_by_id :=
                                     (xy_adapter_by_id r)[nat hook_id := Some adapter]\<rparr>) s5)
                              else None);
                       s7 \<leftarrow> (if mod_hd (xy_rt s6) \<noteq> 0
                              then prewarm_all E (tbl_iter E s6 (mod_hd (xy_rt s6))) s6 else Some s6);
                       Some (0, set_err XY_OK s7) } } } }"

end
