(* ===== verification/Xy_Slots.thy ===== *)
theory Xy_Slots
  imports Xy_Dispatch
begin

text \<open>
  The cached vectors of listeners: how the cache cells and the slot arrays behind them are laid
  out, and what growing, appending to and rebuilding a vector does. The main lemma shows that a
  rebuilt vector holds exactly the modules of the subtree that have a context, are denied by no
  region of the chain and define the hook, in the order of the subtree vector.
\<close>

section \<open>Cells and arrays\<close>

definition cell_ok :: "'h xy_state \<Rightarrow> xy_hook_dispatch_cache \<Rightarrow> bool" where
  "cell_ok s c \<longleftrightarrow>
     hc_count c \<le> hc_cap c \<and>
     (case hc_slots c of
        None \<Rightarrow> hc_cap c = 0
      | Some a \<Rightarrow> a < next_addr s \<and> (\<exists>arr. slot_arrays s a = Some arr \<and> length arr = hc_cap c))"

text \<open>Every cell has its array, and no two cells share one.\<close>

definition slots_wf :: "'h xy_state \<Rightarrow> bool" where
  "slots_wf s \<longleftrightarrow>
     (\<forall>q h c. hook_cache s q h = Some c \<longrightarrow> cell_ok s c) \<and>
     (\<forall>q h c q' h' c' a. hook_cache s q h = Some c \<longrightarrow> hook_cache s q' h' = Some c' \<longrightarrow>
        hc_slots c = Some a \<longrightarrow> hc_slots c' = Some a \<longrightarrow> q = q' \<and> h = h')"

text \<open>The slots in use.\<close>

definition slots_of :: "'h xy_state \<Rightarrow> xy_hook_dispatch_cache \<Rightarrow> xy_dispatch_slot list" where
  "slots_of s c =
     (case hc_slots c of None \<Rightarrow> [] | Some a \<Rightarrow> take (hc_count c) (the (slot_arrays s a)))"

definition cached :: "'h xy_state \<Rightarrow> rptr \<Rightarrow> int \<Rightarrow> xy_dispatch_slot list" where
  "cached s p h = (case hook_cache s p h of None \<Rightarrow> [] | Some c \<Rightarrow> slots_of s c)"

lemma hook_cache_upd:
  "0 \<le> h \<Longrightarrow> hook_cache (upd_cache p h f s) q k =
     (if q = p \<and> k = h then map_option f (hook_cache s q k) else hook_cache s q k)"
  by (cases "regions s p")
     (auto simp: hook_cache_def upd_cache_def heap_simps nat_eq_iff2 nth_list_update)

lemma upd_cache_frame [heap_simps]:
  "mods (upd_cache p h f s) = mods s" "slot_arrays (upd_cache p h f s) = slot_arrays s"
  "next_addr (upd_cache p h f s) = next_addr s" "st_corm (upd_cache p h f s) = st_corm s"
  "adapters (upd_cache p h f s) = adapters s" "ctxs (upd_cache p h f s) = ctxs s"
  by (simp_all add: upd_cache_def heap_simps)

lemma slots_wfD:
  assumes "slots_wf s" "hook_cache s q h = Some c"
  shows "hc_count c \<le> hc_cap c" "hc_slots c = None \<Longrightarrow> hc_cap c = 0"
    "hc_slots c = Some a \<Longrightarrow> a < next_addr s \<and> (\<exists>arr. slot_arrays s a = Some arr \<and> length arr = hc_cap c)"
    "hook_cache s q' h' = Some c' \<Longrightarrow> hc_slots c = Some a \<Longrightarrow> hc_slots c' = Some a \<Longrightarrow> q = q' \<and> h = h'"
  using assms unfolding slots_wf_def cell_ok_def by (fastforce split: option.splits)+

text \<open>
  What building a vector changes: the cache cells of one region, arrays, and the symbol caches
  and bit sets of modules.
\<close>

definition same_mod :: "xy_mod_entry \<Rightarrow> xy_mod_entry \<Rightarrow> bool" where
  "same_mod e e' \<longleftrightarrow> (\<exists>c b. e' = e\<lparr>me_fn_cache := c, me_hook_impl_bits := b\<rparr>)"

definition disp_frame :: "rptr \<Rightarrow> 'h xy_state \<Rightarrow> 'h xy_state \<Rightarrow> bool" where
  "disp_frame p s t \<longleftrightarrow>
     t = s\<lparr>regions := regions t, mods := mods t, slot_arrays := slot_arrays t, next_addr := next_addr t\<rparr> \<and>
     next_addr s \<le> next_addr t \<and> (\<forall>q. q \<noteq> p \<longrightarrow> regions t q = regions s q) \<and>
     (\<exists>d. regions t p = map_option (\<lambda>r. r\<lparr>re_hook_dispatch := d\<rparr>) (regions s p)) \<and>
     (\<forall>m. rel_option same_mod (mods s m) (mods t m))"

lemma same_mod_refl [simp]: "same_mod e e"
  unfolding same_mod_def
  by (intro exI [of _ "me_fn_cache e"] exI [of _ "me_hook_impl_bits e"]) simp

lemma same_modI: "e' = e\<lparr>me_fn_cache := c, me_hook_impl_bits := b\<rparr> \<Longrightarrow> same_mod e e'"
  unfolding same_mod_def by blast

lemma same_mod_trans: "same_mod x y \<Longrightarrow> same_mod y z \<Longrightarrow> same_mod x z"
  unfolding same_mod_def by force

lemma same_modD:
  "same_mod e e' \<Longrightarrow> me_ctx e' = me_ctx e \<and> me_load_path e' = me_load_path e \<and>
     me_handle e' = me_handle e \<and> me_region_entry e' = me_region_entry e \<and>
     me_region_next e' = me_region_next e \<and> me_region_prev e' = me_region_prev e \<and>
     me_region_state e' = me_region_state e"
  by (auto simp: same_mod_def)

lemma disp_frameI:
  assumes "t = s\<lparr>regions := R, mods := M, slot_arrays := A, next_addr := n\<rparr>" "next_addr s \<le> n"
    "\<And>q. q \<noteq> p \<Longrightarrow> R q = regions s q" "R p = map_option (\<lambda>r. r\<lparr>re_hook_dispatch := d r\<rparr>) (regions s p)"
    "\<And>m. rel_option same_mod (mods s m) (M m)"
  shows "disp_frame p s t"
proof -
  have "\<exists>d. regions t p = map_option (\<lambda>r. r\<lparr>re_hook_dispatch := d\<rparr>) (regions s p)"
    using assms(1,4) by (cases "regions s p") auto
  with assms show ?thesis by (simp add: disp_frame_def)
qed

lemma rel_option_same_refl [simp]: "rel_option same_mod x x"
  by (cases x) auto

lemma disp_frame_refl [simp]: "disp_frame p s s"
  by (rule disp_frameI [where R = "regions s" and M = "mods s" and A = "slot_arrays s"
        and n = "next_addr s" and d = re_hook_dispatch])
     (auto simp: option.map_ident)

lemma disp_frame_trans: "disp_frame p s t \<Longrightarrow> disp_frame p t u \<Longrightarrow> disp_frame p s u"
proof -
  assume a: "disp_frame p s t" and b: "disp_frame p t u"
  obtain d where d: "regions t p = map_option (\<lambda>r. r\<lparr>re_hook_dispatch := d\<rparr>) (regions s p)"
    using a by (auto simp: disp_frame_def)
  obtain d' where d': "regions u p = map_option (\<lambda>r. r\<lparr>re_hook_dispatch := d'\<rparr>) (regions t p)"
    using b by (auto simp: disp_frame_def)
  have mods: "rel_option same_mod (mods s m) (mods u m)" for m
  proof -
    have "rel_option same_mod (mods s m) (mods t m)" "rel_option same_mod (mods t m) (mods u m)"
      using a b by (simp_all add: disp_frame_def)
    then show ?thesis by (auto elim!: option.rel_cases intro: same_mod_trans)
  qed
  have t: "t = s\<lparr>regions := regions t, mods := mods t, slot_arrays := slot_arrays t, next_addr := next_addr t\<rparr>"
    using a by (simp add: disp_frame_def)
  have u: "u = t\<lparr>regions := regions u, mods := mods u, slot_arrays := slot_arrays u, next_addr := next_addr u\<rparr>"
    using b by (simp add: disp_frame_def)
  show ?thesis
  proof (rule disp_frameI)
    show "u = s\<lparr>regions := regions u, mods := mods u, slot_arrays := slot_arrays u, next_addr := next_addr u\<rparr>"
      by (subst u, subst t) simp
    show "regions u p = map_option (\<lambda>r. r\<lparr>re_hook_dispatch := d'\<rparr>) (regions s p)"
      using d d' by (simp add: option.map_comp comp_def)
  qed (use a b mods in \<open>auto simp: disp_frame_def\<close>)
qed

lemma disp_frame_cell:
  assumes "next_addr s \<le> n"
  shows "disp_frame p s (upd_cache p h f (s\<lparr>slot_arrays := A, next_addr := n\<rparr>))"
proof (rule disp_frameI)
  show "upd_cache p h f (s\<lparr>slot_arrays := A, next_addr := n\<rparr>) =
      s\<lparr>regions := regions (upd_cache p h f s), mods := mods s, slot_arrays := A, next_addr := n\<rparr>"
    by (rule xy_state.equality) (simp_all add: upd_cache_def upd_reg_def)
  show "regions (upd_cache p h f s) p = map_option (\<lambda>r. r\<lparr>re_hook_dispatch :=
      (re_hook_dispatch r)[nat h := f (re_hook_dispatch r ! nat h)]\<rparr>) (regions s p)"
    by (simp add: upd_cache_def heap_simps)
qed (simp_all add: assms upd_cache_def heap_simps)

text \<open>One cell was replaced, and its array is its own.\<close>

lemma slots_wf_replace:
  assumes wf: "slots_wf s" and h: "0 \<le> h" and c: "hook_cache s p h = Some c"
    and t: "\<And>q k. hook_cache t q k = (if q = p \<and> k = h then Some c' else hook_cache s q k)"
    and n: "next_addr s \<le> next_addr t"
    and keep: "\<And>b. b < next_addr s \<Longrightarrow> hc_slots c \<noteq> Some b \<Longrightarrow> slot_arrays t b = slot_arrays s b"
    and a: "hc_slots c' = Some a" "hc_slots c = Some a \<or> next_addr s \<le> a"
      "a < next_addr t" "slot_arrays t a = Some arr" "length arr = hc_cap c'" "hc_count c' \<le> hc_cap c'"
  shows "slots_wf t" "q \<noteq> p \<or> k \<noteq> h \<Longrightarrow> cached t q k = cached s q k"
proof -
  have other: "slot_arrays t b = slot_arrays s b \<and> b < next_addr t \<and> b \<noteq> a"
    if "hook_cache s q k = Some d" "hc_slots d = Some b" "q \<noteq> p \<or> k \<noteq> h" for q k d b
  proof -
    have b: "b < next_addr s" using slots_wfD(3) [OF wf that(1,2)] by simp
    moreover have "hc_slots c \<noteq> Some b" using slots_wfD(4) [OF wf that(1) c that(2)] that(3) by auto
    ultimately show ?thesis using keep [of b] n a(2) by auto
  qed
  show "slots_wf t"
    unfolding slots_wf_def
  proof (intro conjI allI impI)
    fix q k d assume d: "hook_cache t q k = Some d"
    show "cell_ok t d"
    proof (cases "q = p \<and> k = h")
      case True
      with d t a show ?thesis by (simp add: cell_ok_def)
    next
      case False
      then have d': "hook_cache s q k = Some d" using d t by auto
      show ?thesis
        using slots_wfD(1-3) [OF wf d'] other [OF d'] False
        by (auto simp: cell_ok_def split: option.splits)
    qed
  next
    fix q k d q' k' d' b
    assume d: "hook_cache t q k = Some d" "hook_cache t q' k' = Some d'"
      and b: "hc_slots d = Some b" "hc_slots d' = Some b"
    have "(q = p \<and> k = h) = (q' = p \<and> k' = h)"
      using d b t [of q k] t [of q' k'] a(1) other [of q k d b] other [of q' k' d' b]
      by (auto split: if_splits)
    then show "q = q'" "k = k'"
      using d b t [of q k] t [of q' k'] slots_wfD(4) [OF wf, of q k d q' k' d' b]
      by (auto split: if_splits)
  qed
  assume ne: "q \<noteq> p \<or> k \<noteq> h"
  then have "hook_cache t q k = hook_cache s q k" using t by auto
  then show "cached t q k = cached s q k"
    using ne other [of q k] by (auto simp: cached_def slots_of_def split: option.splits)
qed

lemma slots_grow_ok:
  assumes mem: "never_oom E" and wf: "slots_wf s" and h: "0 \<le> h" and c: "hook_cache s p h = Some c"
  shows "\<exists>t c' a arr. slots_grow E p h s = Some (XY_OK, t) \<and> disp_frame p s t \<and> slots_wf t \<and>
     hook_cache t p h = Some c' \<and> hc_region_gen c' = hc_region_gen c \<and> hc_count c' = hc_count c \<and> hc_count c < hc_cap c' \<and>
     hc_slots c' = Some a \<and> slot_arrays t a = Some arr \<and> length arr = hc_cap c' \<and>
     slots_of t c' = slots_of s c \<and> mods t = mods s \<and>
     (\<forall>q k. (q \<noteq> p \<or> k \<noteq> h) \<longrightarrow> hook_cache t q k = hook_cache s q k \<and> cached t q k = cached s q k)"
proof (cases "hc_count c < hc_cap c")
  case True
  then obtain a arr where "hc_slots c = Some a" "slot_arrays s a = Some arr" "length arr = hc_cap c"
    using slots_wfD [OF wf c] by (cases "hc_slots c") auto
  then show ?thesis
    using True c wf by (simp add: slots_grow_def)
next
  case False
  define n where "n = (if hc_cap c \<noteq> 0 then hc_cap c * 2 else 8)"
  define old where "old = (case hc_slots c of None \<Rightarrow> [] | Some a \<Rightarrow> the (slot_arrays s a))"
  define A where "A = (case hc_slots c of None \<Rightarrow> slot_arrays s | Some a \<Rightarrow> (slot_arrays s)(a := None))
      (next_addr s \<mapsto> old @ replicate (n - length old) slot_zero)"
  define g :: "xy_hook_dispatch_cache \<Rightarrow> xy_hook_dispatch_cache"
    where "g = (\<lambda>c. c\<lparr>hc_slots := Some (next_addr s), hc_cap := n\<rparr>)"
  define t where "t = upd_cache p h g (s\<lparr>slot_arrays := A, next_addr := Suc (next_addr s)\<rparr>)"
  have old: "length old = hc_cap c"
      "(case hc_slots c of None \<Rightarrow> Some [] | Some a \<Rightarrow> slot_arrays s a) = Some old"
    using slots_wfD(2,3) [OF wf c] by (auto simp: old_def split: option.splits)
  have n: "hc_cap c < n" "hc_count c = hc_cap c"
    using False slots_wfD(1) [OF wf c] by (auto simp: n_def)
  have run: "slots_grow E p h s = Some (XY_OK, t)"
    using mem c False old(2)
    by (auto simp: slots_grow_def never_oom_def n_def t_def A_def g_def Let_def cong: option.case_cong
        split: option.splits)
  have frame: "hook_cache (s\<lparr>slot_arrays := A, next_addr := Suc (next_addr s)\<rparr>) = hook_cache s"
    by (simp add: fun_eq_iff hook_cache_def)
  have t: "hook_cache t q k = (if q = p \<and> k = h then Some (g c) else hook_cache s q k)" for q k
    using c by (auto simp: t_def hook_cache_upd [OF h] frame)
  have cell: "disp_frame p s t"
    using disp_frame_cell [where s = s and n = "Suc (next_addr s)" and p = p and h = h and f = g and A = A]
    by (simp add: t_def)
  have arr: "slot_arrays t = A" "next_addr t = Suc (next_addr s)" "mods t = mods s"
    by (simp_all add: t_def heap_simps)
  have new: "slot_arrays t (next_addr s) = Some (old @ replicate (n - length old) slot_zero)"
    by (simp add: arr A_def)
  have keep: "slot_arrays t b = slot_arrays s b" if "b < next_addr s" "hc_slots c \<noteq> Some b" for b
    using that by (auto simp: arr A_def split: option.splits)
  have "slots_wf t" and "\<And>q k. q \<noteq> p \<or> k \<noteq> h \<Longrightarrow> cached t q k = cached s q k"
    using slots_wf_replace [OF wf h c t _ keep, where a = "next_addr s"] new old n
    by (simp_all add: arr g_def)
  moreover have "slots_of t (g c) = slots_of s c"
    using new old n by (auto simp: slots_of_def g_def old_def split: option.splits)
  ultimately show ?thesis
    using run t cell new old n arr by (auto simp: g_def)
qed

text \<open>The slot of a module.\<close>

definition slot_for :: "mptr \<Rightarrow> fn_slot \<Rightarrow> xy_dispatch_slot" where
  "slot_for m f = \<lparr>sl_me = Some m, sl_cb = f\<rparr>"

lemma slots_push_ok:
  assumes mem: "never_oom E" and wf: "slots_wf s" and h: "0 \<le> h" and c: "hook_cache s p h = Some c"
    and e: "mods s m = Some e" "nat h < length (me_fn_cache e)"
  shows "\<exists>t c'. slots_push E p h m s = Some (XY_OK, t) \<and> disp_frame p s t \<and> slots_wf t \<and> mods t = mods s \<and>
     hook_cache t p h = Some c' \<and> hc_region_gen c' = hc_region_gen c \<and>
     slots_of t c' = slots_of s c @ [slot_for m (me_fn_cache e ! nat h)] \<and>
     (\<forall>q k. (q \<noteq> p \<or> k \<noteq> h) \<longrightarrow> hook_cache t q k = hook_cache s q k \<and> cached t q k = cached s q k)"
proof -
  obtain s1 c1 a arr where g: "slots_grow E p h s = Some (XY_OK, s1)" "disp_frame p s s1" "slots_wf s1"
    "hook_cache s1 p h = Some c1" "hc_region_gen c1 = hc_region_gen c" "hc_count c1 = hc_count c"
    "hc_count c < hc_cap c1" "hc_slots c1 = Some a" "slot_arrays s1 a = Some arr" "length arr = hc_cap c1"
    "slots_of s1 c1 = slots_of s c" "mods s1 = mods s"
    "\<And>q k. q \<noteq> p \<or> k \<noteq> h \<Longrightarrow> hook_cache s1 q k = hook_cache s q k \<and> cached s1 q k = cached s q k"
    using slots_grow_ok [OF mem wf h c] by blast
  define arr' where "arr' = arr[hc_count c := slot_for m (me_fn_cache e ! nat h)]"
  define f :: "xy_hook_dispatch_cache \<Rightarrow> xy_hook_dispatch_cache"
    where "f = (\<lambda>c. c\<lparr>hc_count := hc_count c + 1\<rparr>)"
  define t where "t = upd_cache p h f (s1\<lparr>slot_arrays := (slot_arrays s1)(a \<mapsto> arr')\<rparr>)"
  have lt: "h < int (length (me_fn_cache e))" using e(2) h by linarith
  have run: "slots_push E p h m s = Some (XY_OK, t)"
    using g e lt h by (simp add: slots_push_def t_def f_def arr'_def slot_for_def)
  have frame: "hook_cache (s1\<lparr>slot_arrays := B\<rparr>) = hook_cache s1" for B
    by (simp add: fun_eq_iff hook_cache_def)
  have t: "hook_cache t q k = (if q = p \<and> k = h then Some (f c1) else hook_cache s1 q k)" for q k
    using g(4) by (auto simp: t_def hook_cache_upd [OF h] frame)
  have arr: "slot_arrays t = (slot_arrays s1)(a \<mapsto> arr')" "next_addr t = next_addr s1" "mods t = mods s1"
    by (simp_all add: t_def heap_simps)
  have cell: "disp_frame p s1 t"
    using disp_frame_cell [where s = s1 and n = "next_addr s1" and p = p and h = h and f = f
      and A = "(slot_arrays s1)(a \<mapsto> arr')"]
    by (simp add: t_def)
  have a: "a < next_addr s1" using slots_wfD(3) [OF g(3,4,8)] by simp
  have "slots_wf t" and "\<And>q k. q \<noteq> p \<or> k \<noteq> h \<Longrightarrow> cached t q k = cached s1 q k"
    using slots_wf_replace [OF g(3) h g(4) t, where a = a and arr = arr'] g(6-10) a
    by (simp_all add: arr f_def arr'_def)
  moreover have "slots_of t (f c1) = slots_of s1 c1 @ [slot_for m (me_fn_cache e ! nat h)]"
    using g(6-10) by (simp add: slots_of_def f_def arr arr'_def take_Suc_conv_app_nth)
  ultimately show ?thesis
    using run t disp_frame_trans [OF g(2) cell] g arr by (auto simp: f_def)
qed


section \<open>Who listens\<close>

text \<open>The registry of hook names: ids are in range and belong to one name.\<close>

definition hook_reg :: "'h env \<Rightarrow> 'h xy_state \<Rightarrow> string \<Rightarrow> int \<Rightarrow> bool" where
  "hook_reg E s name k \<longleftrightarrow> tbl_get E s (hook_id_hd (xy_rt s)) (KStr name) = Some (VInt k)"

definition hooks_wf :: "'h env \<Rightarrow> 'h xy_state \<Rightarrow> bool" where
  "hooks_wf E s \<longleftrightarrow>
     (\<forall>name k. hook_reg E s name k \<longrightarrow> 0 \<le> k \<and> k < xy_hook_id_counter (xy_rt s)) \<and>
     (\<forall>name name' k. hook_reg E s name k \<longrightarrow> hook_reg E s name' k \<longrightarrow> name = name')"

text \<open>Every module's symbol cache is right for every registered hook.\<close>

definition caches_ok :: "'h env \<Rightarrow> 'h xy_state \<Rightarrow> bool" where
  "caches_ok E s \<longleftrightarrow>
     (\<forall>m e name k. mods s m = Some e \<longrightarrow> hook_reg E s name k \<longrightarrow> cache_ok E e k name)"

definition denied_anc :: "'h xy_state \<Rightarrow> rptr list \<Rightarrow> xy_mod_entry \<Rightarrow> bool" where
  "denied_anc s anc e \<longleftrightarrow> (\<exists>x. me_load_path e = Some x \<and> (\<exists>q \<in> set anc. x \<in> denied_mods s q))"

text \<open>
  A module hears a hook: it has a context, no region of the chain denies its path, and it
  defines the hook itself.
\<close>

definition hears :: "'h env \<Rightarrow> 'h xy_state \<Rightarrow> rptr list \<Rightarrow> string \<Rightarrow> mptr \<Rightarrow> bool" where
  "hears E s anc name m \<longleftrightarrow>
     (\<exists>e. mods s m = Some e \<and> me_ctx e \<noteq> None \<and> \<not> denied_anc s anc e \<and> hook_fn E e name \<noteq> None)"

definition hook_slot :: "'h env \<Rightarrow> 'h xy_state \<Rightarrow> string \<Rightarrow> mptr \<Rightarrow> xy_dispatch_slot" where
  "hook_slot E s name m = slot_for m (slot_of (hook_fn E (the (mods s m)) name))"

lemma same_mod_hook_fn: "same_mod e e' \<Longrightarrow> hook_fn E e' name = hook_fn E e name"
  by (rule hook_fn_handle) (auto dest: same_modD)

lemma disp_frame_mods:
  assumes "disp_frame p s t"
  shows "mods s m = None \<longleftrightarrow> mods t m = None"
    "mods s m = Some e \<Longrightarrow> \<exists>e'. mods t m = Some e' \<and> same_mod e e'"
    "mods t m = Some e' \<Longrightarrow> \<exists>e. mods s m = Some e \<and> same_mod e e'"
proof -
  have "rel_option same_mod (mods s m) (mods t m)" using assms by (simp add: disp_frame_def)
  then show "mods s m = None \<longleftrightarrow> mods t m = None"
    "mods s m = Some e \<Longrightarrow> \<exists>e'. mods t m = Some e' \<and> same_mod e e'"
    "mods t m = Some e' \<Longrightarrow> \<exists>e. mods s m = Some e \<and> same_mod e e'"
    by (auto elim!: option.rel_cases)
qed

lemma disp_frame_same:
  assumes "disp_frame p s t"
  shows "st_corm t = st_corm s" "xy_rt t = xy_rt s" "ctxs t = ctxs s" "adapters t = adapters s"
    "bufs t = bufs s" "xy_current_region_entry t = xy_current_region_entry s"
    "xy_current_region_id t = xy_current_region_id s" "xy_global t = xy_global s"
    "xy_last_ran t = xy_last_ran s" "xy_last_retp t = xy_last_retp s" "xy_last_retbuf t = xy_last_retbuf s"
proof -
  have "t = s\<lparr>regions := regions t, mods := mods t, slot_arrays := slot_arrays t, next_addr := next_addr t\<rparr>"
    using assms by (simp add: disp_frame_def)
  from arg_cong [OF this, of st_corm] arg_cong [OF this, of xy_rt] arg_cong [OF this, of ctxs]
    arg_cong [OF this, of adapters] arg_cong [OF this, of bufs]
    arg_cong [OF this, of xy_current_region_entry] arg_cong [OF this, of xy_current_region_id]
    arg_cong [OF this, of xy_global] arg_cong [OF this, of xy_last_ran] arg_cong [OF this, of xy_last_retp]
    arg_cong [OF this, of xy_last_retbuf]
  show "st_corm t = st_corm s" "xy_rt t = xy_rt s" "ctxs t = ctxs s" "adapters t = adapters s"
    "bufs t = bufs s" "xy_current_region_entry t = xy_current_region_entry s"
    "xy_current_region_id t = xy_current_region_id s" "xy_global t = xy_global s"
    "xy_last_ran t = xy_last_ran s" "xy_last_retp t = xy_last_retp s" "xy_last_retbuf t = xy_last_retbuf s"
    by simp_all
qed

lemma disp_frame_reg:
  assumes "disp_frame p s t"
  shows "\<exists>f. regions t q = map_option (\<lambda>r. r\<lparr>re_hook_dispatch := f r\<rparr>) (regions s q)"
proof (cases "q = p")
  case True
  then show ?thesis using assms by (auto simp: disp_frame_def)
next
  case False
  then have "regions t q = map_option (\<lambda>r. r\<lparr>re_hook_dispatch := re_hook_dispatch r\<rparr>) (regions s q)"
    using assms by (simp add: disp_frame_def option.map_ident)
  then show ?thesis by blast
qed

lemma disp_frame_reads:
  assumes fr: "disp_frame p s t"
  shows "tbl_get E t = tbl_get E s" "tbl_single E t = tbl_single E s" "hook_reg E t = hook_reg E s"
    "dset t = dset s" "denied_mods t = denied_mods s" "denied_anc t = denied_anc s"
    "hears E t anc name m = hears E s anc name m" "hook_slot E t name m = hook_slot E s name m"
    "regions t q = None \<longleftrightarrow> regions s q = None"
proof -
  note same = disp_frame_same [OF fr]
  show tabs: "tbl_get E t = tbl_get E s" "tbl_single E t = tbl_single E s"
    using tbl_get_cong [OF same(1)] tbl_single_cong [OF same(1)] by simp_all
  then show "hook_reg E t = hook_reg E s" by (simp add: fun_eq_iff hook_reg_def same)
  show "dset t = dset s"
  proof (intro ext)
    fix q b
    obtain f where "regions t q = map_option (\<lambda>r. r\<lparr>re_hook_dispatch := f r\<rparr>) (regions s q)"
      using disp_frame_reg [OF fr] by blast
    then show "dset t q b = dset s q b" by (cases "regions s q") (simp_all add: dset_def deny_set_def)
  qed
  show dm: "denied_mods t = denied_mods s"
  proof
    fix q
    obtain f where "regions t q = map_option (\<lambda>r. r\<lparr>re_hook_dispatch := f r\<rparr>) (regions s q)"
      using disp_frame_reg [OF fr] by blast
    then show "denied_mods t q = denied_mods s q" by (simp add: denied_mods_def split: option.splits)
  qed
  then show da: "denied_anc t = denied_anc s" by (simp add: fun_eq_iff denied_anc_def)
  have den: "denied_anc s anc e' = denied_anc s anc e" if "same_mod e e'" for e e'
    using same_modD [OF that] by (simp add: denied_anc_def)
  show "hears E t anc name m = hears E s anc name m"
    using disp_frame_mods [OF fr, where m = m] da den
    by (auto simp: hears_def same_mod_hook_fn dest!: same_modD)
  show "hook_slot E t name m = hook_slot E s name m"
    using disp_frame_mods [OF fr, where m = m]
    by (cases "mods s m"; cases "mods t m") (auto simp: hook_slot_def same_mod_hook_fn)
  show "regions t q = None \<longleftrightarrow> regions s q = None"
    using disp_frame_reg [OF fr, of q] by auto
qed

lemma disp_frame_deny: "disp_frame p s t \<Longrightarrow> deny_inv E s \<Longrightarrow> deny_inv E t"
  by (rule deny_inv_frame) (simp_all add: disp_frame_reads disp_frame_same)

lemma denied_in_iff:
  assumes inv: "deny_inv E s" and "\<And>q. q \<in> set anc \<Longrightarrow> regions s q \<noteq> None"
  shows "denied_in E s x anc = Some (\<exists>q \<in> set anc. x \<in> denied_mods s q)"
  using assms(2)
proof (induction anc)
  case (Cons q qs)
  obtain r where "regions s q = Some r" using Cons.prems by fastforce
  from module_is_denied_iff [OF inv this, of x] Cons show ?case by auto
qed simp

lemma denied_by_ancestors_iff:
  assumes "deny_inv E s" "\<And>q. q \<in> set anc \<Longrightarrow> regions s q \<noteq> None"
  shows "module_denied_by_ancestors E s anc e = Some (denied_anc s anc e)"
  using denied_in_iff [OF assms]
  by (auto simp: module_denied_by_ancestors_def denied_anc_def split: option.splits)

lemma listens_ok:
  assumes mem: "never_oom E" and h: "0 \<le> h" and e: "mods s m = Some e" and ok: "cache_ok E e h name"
  shows "\<exists>e'. module_listens E m h name s = Some (Inr (hook_fn E e name \<noteq> None), upd_mod m (\<lambda>_. e') s) \<and>
     same_mod e e' \<and> cache_ok E e' h name \<and>
     (hook_fn E e name \<noteq> None \<longrightarrow>
        nat h < length (me_fn_cache e') \<and> me_fn_cache e' ! nat h = slot_of (hook_fn E e name)) \<and>
     (\<forall>k other. 0 \<le> k \<longrightarrow> k \<noteq> h \<longrightarrow> cache_ok E e k other \<longrightarrow> cache_ok E e' k other)"
proof (cases "module_has_hook_implemented e h")
  case True
  then have "nat h < length (me_fn_cache e)" "hook_fn E e name \<noteq> None"
      "me_fn_cache e ! nat h = slot_of (hook_fn E e name)"
    using ok h by (auto simp: cache_ok_def slot_of_def split: if_splits fn_slot.splits)
  moreover have "upd_mod m (\<lambda>_. e) s = s" using e by (auto simp: upd_mod_def intro!: xy_state.equality)
  ultimately show ?thesis using True e ok by (auto simp: module_listens_def intro!: exI [of _ e])
next
  case False
  obtain e' where e': "fn_cache_resolve E m h name s =
      Some (case hook_fn E e name of Some f \<Rightarrow> Resolved f | None \<Rightarrow> Unresolved, upd_mod m (\<lambda>_. e') s)"
    "cache_ok E e' h name" "module_has_hook_implemented e' h \<longleftrightarrow> hook_fn E e name \<noteq> None"
    "nat h < length (me_fn_cache e')" "me_fn_cache e' ! nat h = slot_of (hook_fn E e name)"
    "\<forall>k other. 0 \<le> k \<longrightarrow> k \<noteq> h \<longrightarrow> cache_ok E e k other \<longrightarrow> cache_ok E e' k other"
    "\<exists>c b. e' = e\<lparr>me_fn_cache := c, me_hook_impl_bits := b\<rparr>"
    using resolve_ok [OF mem h e ok] by blast
  have "module_listens E m h name s = Some (Inr (hook_fn E e name \<noteq> None), upd_mod m (\<lambda>_. e') s)"
    using False e e'(1,3) by (cases "hook_fn E e name") (simp_all add: module_listens_def heap_simps)
  with e' show ?thesis unfolding same_mod_def by blast
qed

lemma disp_frame_mod:
  assumes "mods s m = Some e" "same_mod e e'"
  shows "disp_frame p s (upd_mod m (\<lambda>_. e') s)"
  by (rule disp_frameI [where R = "regions s" and M = "(mods s)(m \<mapsto> e')" and A = "slot_arrays s"
        and n = "next_addr s" and d = re_hook_dispatch])
     (use assms in \<open>auto simp: upd_mod_def option.map_ident\<close>)

lemma slots_wf_cong:
  assumes "regions t = regions s" "slot_arrays t = slot_arrays s" "next_addr t = next_addr s"
  shows "slots_wf t = slots_wf s" "hook_cache t = hook_cache s" "cached t = cached s" "slots_of t = slots_of s"
proof -
  show hc: "hook_cache t = hook_cache s" using assms(1) by (simp add: fun_eq_iff hook_cache_def)
  show so: "slots_of t = slots_of s" by (intro ext) (auto simp: slots_of_def assms(2) split: option.splits)
  have "cell_ok t = cell_ok s" by (intro ext) (auto simp: cell_ok_def assms split: option.splits)
  then show "slots_wf t = slots_wf s" using hc by (simp add: slots_wf_def)
  show "cached t = cached s" by (intro ext) (auto simp: cached_def hc so split: option.splits)
qed

lemma caches_ok_listen:
  assumes ok: "caches_ok E s" "hooks_wf E s" and m: "mods s m = Some e" "same_mod e e'"
    and reg: "hook_reg E s name h" "cache_ok E e' h name"
    and other: "\<forall>k other. 0 \<le> k \<longrightarrow> k \<noteq> h \<longrightarrow> cache_ok E e k other \<longrightarrow> cache_ok E e' k other"
  shows "caches_ok E (upd_mod m (\<lambda>_. e') s)"
  unfolding caches_ok_def
proof (intro allI impI)
  note fr = disp_frame_reads(3) [OF disp_frame_mod [OF m, of 0], of E]
  fix m' e1 nm k
  assume e1: "mods (upd_mod m (\<lambda>_. e') s) m' = Some e1" and k: "hook_reg E (upd_mod m (\<lambda>_. e') s) nm k"
  from k have k: "hook_reg E s nm k" by (simp add: fr)
  show "cache_ok E e1 k nm"
  proof (cases "m' = m")
    case True
    then have "e1 = e'" using e1 m by (simp add: heap_simps)
    moreover have "k = h \<Longrightarrow> nm = name" using ok(2) k reg(1) unfolding hooks_wf_def by blast
    moreover have "0 \<le> k" "cache_ok E e k nm"
      using ok m(1) k unfolding hooks_wf_def caches_ok_def by blast+
    ultimately show ?thesis using reg(2) other by (cases "k = h") auto
  next
    case False
    with e1 k ok(1) show ?thesis by (auto simp: heap_simps caches_ok_def)
  qed
qed

text \<open>What the vector-building loop needs of the state, and keeps.\<close>

definition disp_inv :: "'h env \<Rightarrow> 'h xy_state \<Rightarrow> bool" where
  "disp_inv E s \<longleftrightarrow> slots_wf s \<and> deny_inv E s \<and> caches_ok E s \<and> hooks_wf E s"

lemma hooks_wf_frame: "disp_frame p s t \<Longrightarrow> hooks_wf E t = hooks_wf E s"
  by (simp add: hooks_wf_def disp_frame_reads(3) disp_frame_same(2))

lemma rebuild_loop_ok:
  assumes mem: "never_oom E" and inv: "disp_inv E s" and reg: "hook_reg E s name h"
    and c: "hook_cache s p h = Some c"
    and anc: "\<And>q. q \<in> set anc \<Longrightarrow> regions s q \<noteq> None" and ms: "\<And>m. m \<in> set ms \<Longrightarrow> mods s m \<noteq> None"
  shows "\<exists>t c'. rebuild_loop E p h name anc ms s = Some (XY_OK, t) \<and> disp_frame p s t \<and> disp_inv E t \<and>
     hook_cache t p h = Some c' \<and> hc_region_gen c' = hc_region_gen c \<and>
     slots_of t c' = slots_of s c @ map (hook_slot E s name) (filter (hears E s anc name) ms) \<and>
     (\<forall>q k. (q \<noteq> p \<or> k \<noteq> h) \<longrightarrow> hook_cache t q k = hook_cache s q k \<and> cached t q k = cached s q k)"
  using assms(2-)
proof (induction ms arbitrary: s c)
  case Nil
  then show ?case by simp
next
  case (Cons m ms)
  note inv = Cons.prems(1) [unfolded disp_inv_def]
  have h: "0 \<le> h" using inv Cons.prems(2) unfolding hooks_wf_def by blast
  obtain e where e: "mods s m = Some e" using Cons.prems(5) [of m] by auto
  have ok: "cache_ok E e h name" using inv e Cons.prems(2) unfolding caches_ok_def by blast
  have den: "module_denied_by_ancestors E s anc e = Some (denied_anc s anc e)"
    using inv Cons.prems(4) by (intro denied_by_ancestors_iff) auto
  have skip: "?case" if "\<not> hears E s anc name m" "rebuild_loop E p h name anc (m # ms) s = rebuild_loop E p h name anc ms s"
    using Cons.IH [OF Cons.prems(1-4)] Cons.prems(5) that by simp
  show ?case
  proof (cases "me_ctx e = None \<or> denied_anc s anc e")
    case True
    with e den show ?thesis by (intro skip) (auto simp: hears_def)
  next
    case False
    obtain e' where l: "module_listens E m h name s =
        Some (Inr (hook_fn E e name \<noteq> None), upd_mod m (\<lambda>_. e') s)"
      "same_mod e e'" "cache_ok E e' h name"
      "hook_fn E e name \<noteq> None \<longrightarrow>
        nat h < length (me_fn_cache e') \<and> me_fn_cache e' ! nat h = slot_of (hook_fn E e name)"
      "\<forall>k other. 0 \<le> k \<longrightarrow> k \<noteq> h \<longrightarrow> cache_ok E e k other \<longrightarrow> cache_ok E e' k other"
      using listens_ok [OF mem h e ok] by blast
    let ?s1 = "upd_mod m (\<lambda>_. e') s"
    have fr1: "disp_frame p s ?s1" using e l(2) by (rule disp_frame_mod)
    note rd1 = disp_frame_reads [OF fr1]
    have eq1: "slots_wf ?s1 = slots_wf s" "hook_cache ?s1 = hook_cache s" "cached ?s1 = cached s"
      "slots_of ?s1 = slots_of s" by (rule slots_wf_cong; simp add: heap_simps)+
    have inv1: "disp_inv E ?s1"
      using inv fr1 caches_ok_listen [OF _ _ e l(2) Cons.prems(2) l(3,5)]
      by (simp add: disp_inv_def eq1 hooks_wf_frame [OF fr1] disp_frame_deny [OF fr1])
    have m1: "mods ?s1 m = Some e'" using e by (simp add: heap_simps)
    have ms1: "\<And>x. x \<in> set ms \<Longrightarrow> mods ?s1 x \<noteq> None"
      using Cons.prems(5) by (auto simp: heap_simps)
    show ?thesis
    proof (cases "hook_fn E e name")
      case None
      have "rebuild_loop E p h name anc (m # ms) s = rebuild_loop E p h name anc ms ?s1"
        using e False den l(1) None by auto
      moreover have "\<not> hears E s anc name m" using e None by (simp add: hears_def)
      ultimately show ?thesis
        using Cons.IH [OF inv1, of c] Cons.prems(2-4) ms1 fr1 rd1 eq1
        by (auto simp: heap_simps dest: disp_frame_trans [OF fr1])
    next
      case (Some f)
      obtain t c1 where p: "slots_push E p h m ?s1 = Some (XY_OK, t)" "disp_frame p ?s1 t" "slots_wf t"
        "mods t = mods ?s1" "hook_cache t p h = Some c1" "hc_region_gen c1 = hc_region_gen c"
        "slots_of t c1 = slots_of s c @ [slot_for m (me_fn_cache e' ! nat h)]"
        "\<forall>q k. (q \<noteq> p \<or> k \<noteq> h) \<longrightarrow> hook_cache t q k = hook_cache s q k \<and> cached t q k = cached s q k"
        using slots_push_ok [OF mem _ h _ m1, of p c] inv1 Cons.prems(3) l(4) Some
        by (auto simp: disp_inv_def eq1)
      note fr2 = disp_frame_trans [OF fr1 p(2)] and rd2 = disp_frame_reads [OF p(2)]
      have inv2: "disp_inv E t"
        using inv1 p(3,4) disp_frame_deny [OF p(2)] hooks_wf_frame [OF p(2)] rd2(3)
        by (simp add: disp_inv_def caches_ok_def)
      have run: "rebuild_loop E p h name anc (m # ms) s = rebuild_loop E p h name anc ms t"
        using e False den l(1) Some p(1) by auto
      have hs: "hears E s anc name m" using e False Some by (auto simp: hears_def)
      have "slot_for m (me_fn_cache e' ! nat h) = hook_slot E s name m"
        using e l(4) Some by (simp add: hook_slot_def)
      note slot = this and rd = disp_frame_reads [OF fr2]
      have "hook_reg E t name h" "\<And>q. q \<in> set anc \<Longrightarrow> regions t q \<noteq> None"
          "\<And>x. x \<in> set ms \<Longrightarrow> mods t x \<noteq> None"
        using Cons.prems(2,4) ms1 p(4) rd(3,9) by simp_all
      from Cons.IH [OF inv2 this(1) p(5) this(2,3)] obtain u c' where
        u: "rebuild_loop E p h name anc ms t = Some (XY_OK, u)" "disp_frame p t u" "disp_inv E u"
          "hook_cache u p h = Some c'" "hc_region_gen c' = hc_region_gen c1"
          "slots_of u c' = slots_of t c1 @ map (hook_slot E t name) (filter (hears E t anc name) ms)"
          "\<forall>q k. (q \<noteq> p \<or> k \<noteq> h) \<longrightarrow> hook_cache u q k = hook_cache t q k \<and> cached u q k = cached t q k"
        by auto
      have maps: "map (hook_slot E t name) = map (hook_slot E s name)" "hears E t anc name = hears E s anc name"
        using rd(7,8) by (auto simp: fun_eq_iff)
      show ?thesis
        using run u p(6-8) hs slot disp_frame_trans [OF fr2 u(2)] by (intro exI [of _ u] exI [of _ c']) (simp add: maps)
    qed
  qed
qed

end
