(* ===== verification/Xy_Run.thy ===== *)
theory Xy_Run
  imports Xy_Slots
begin

text \<open>
  What a dispatch does: the cache of the caller's region is brought up to date, and then every
  module that hears the hook is called once, in order, in its own region.
\<close>

section \<open>Bringing the vector up to date\<close>

text \<open>The list of the modules of a region's subtree, each once, in the order of the tree walk.\<close>

definition vec_for :: "'h xy_state \<Rightarrow> rptr \<Rightarrow> mptr list \<Rightarrow> bool" where
  "vec_for s p L \<longleftrightarrow>
     set L = mods_in s (subtree s p) \<and> distinct L \<and> preorder s p L"

lemma vec_for_unique: "vec_for s p L \<Longrightarrow> vec_for s p M \<Longrightarrow> M = L"
  using preorder_unique by (auto simp: vec_for_def)

text \<open>A vector that is not marked stale is right.\<close>

definition vec_ok :: "'h xy_state \<Rightarrow> bool" where
  "vec_ok s \<longleftrightarrow>
     (\<forall>p r. regions s p = Some r \<longrightarrow> \<not> re_subtree_mods_dirty r \<longrightarrow> vec_for s p (re_subtree_mods r))"

definition vec_set :: "mptr list \<Rightarrow> nat \<Rightarrow> xy_region_entry \<Rightarrow> xy_region_entry" where
  "vec_set L cap r =
     r\<lparr>re_subtree_mods := L, re_subtree_mods_cap := cap, re_subtree_mods_dirty := False\<rparr>"

lemma vec_set_fields [simp]:
  "re_hook_dispatch (vec_set L cap r) = re_hook_dispatch r" "re_subtree_mods (vec_set L cap r) = L"
  "\<not> re_subtree_mods_dirty (vec_set L cap r)" "re_dispatch_gen (vec_set L cap r) = re_dispatch_gen r"
  "re_mods_head (vec_set L cap r) = re_mods_head r" "re_mods_tail (vec_set L cap r) = re_mods_tail r"
  "deny_set b (vec_set L cap r) = deny_set b r" "re_denied_modules (vec_set L cap r) = re_denied_modules r"
  by (simp_all add: vec_set_def deny_set_def)

lemma upd_reg_ident: "regions s p = Some r \<Longrightarrow> f r = r \<Longrightarrow> upd_reg p f s = s"
  by (auto simp: upd_reg_def intro!: xy_state.equality)

lemma refresh_ok:
  assumes "never_oom E" "tree_wf s" "mods_wf s" "vec_ok s" "r_key s p = Some k" "regions s p = Some r"
  shows "\<exists>L cap. (if re_subtree_mods_dirty r then region_rebuild_subtree_mods E (Some p) s else Some (0, s)) =
       Some (0, upd_reg p (vec_set L cap) s) \<and> vec_for s p L \<and>
     (\<not> re_subtree_mods_dirty r \<longrightarrow> L = re_subtree_mods r)"
proof (cases "re_subtree_mods_dirty r")
  case True
  from rebuild_subtree_mods [OF assms(1,2,3,5)] True show ?thesis
    unfolding vec_for_def vec_set_def by fastforce
next
  case False
  have "vec_set (re_subtree_mods r) (re_subtree_mods_cap r) r = r"
    using False by (simp add: vec_set_def)
  from upd_reg_ident [OF assms(6), of "vec_set (re_subtree_mods r) (re_subtree_mods_cap r)", OF this]
  have "Some (0 :: int, s) = Some (0, upd_reg p (vec_set (re_subtree_mods r) (re_subtree_mods_cap r)) s)"
    by simp
  moreover have "vec_for s p (re_subtree_mods r)" using assms(4,6) False by (simp add: vec_ok_def)
  ultimately show ?thesis
    using False by (intro exI [of _ "re_subtree_mods r"] exI [of _ "re_subtree_mods_cap r"]) simp
qed

lemma slots_of_arrays: "slot_arrays t = slot_arrays s \<Longrightarrow> slots_of t = slots_of s"
  by (intro ext) (auto simp: slots_of_def split: option.splits)

text \<open>Cells may be created empty and lose slots.\<close>

lemma slots_wf_cells:
  assumes wf: "slots_wf s" and arr: "slot_arrays t = slot_arrays s" "next_addr t = next_addr s"
    and cells: "\<And>q k d. hook_cache t q k = Some d \<Longrightarrow> d = cache_zero \<or>
      (\<exists>d0. hook_cache s q k = Some d0 \<and> hc_slots d = hc_slots d0 \<and> hc_cap d = hc_cap d0 \<and>
         hc_count d \<le> hc_count d0)"
  shows "slots_wf t"
  unfolding slots_wf_def
proof (intro conjI allI impI)
  have zero: "hc_slots cache_zero = None" "hc_cap cache_zero = 0" "hc_count cache_zero = 0"
    by (simp_all add: cache_zero_def)
  fix q k d assume d: "hook_cache t q k = Some d"
  show "cell_ok t d"
    using cells [OF d] slots_wfD(1-3) [OF wf, of q k]
    by (fastforce simp: cell_ok_def arr zero split: option.splits)
  fix q' k' d' a
  assume d': "hook_cache t q' k' = Some d'" and a: "hc_slots d = Some a" "hc_slots d' = Some a"
  have "\<exists>d0. hook_cache s q k = Some d0 \<and> hc_slots d0 = Some a"
    "\<exists>d0. hook_cache s q' k' = Some d0 \<and> hc_slots d0 = Some a"
    using cells [OF d] cells [OF d'] a zero(1) by auto
  then show "q = q'" "k = k'" using slots_wfD(4) [OF wf] by blast+
qed

lemma slots_wf_cell:
  assumes "slots_wf s" "0 \<le> h"
    and f: "\<And>c. hc_slots (f c) = hc_slots c \<and> hc_cap (f c) = hc_cap c \<and> hc_count (f c) \<le> hc_count c"
  shows "slots_wf (upd_cache p h f s)"
  by (rule slots_wf_cells [OF assms(1)])
     (use f in \<open>auto simp: heap_simps hook_cache_upd [OF assms(2)] split: if_splits\<close>)

text \<open>Updates of a region's entry that leave its deny lists and cache cells alone.\<close>

lemma upd_reg_disp:
  assumes "\<And>r. re_hook_dispatch (f r) = re_hook_dispatch r" "\<And>b r. deny_set b (f r) = deny_set b r"
    "\<And>r. re_denied_modules (f r) = re_denied_modules r"
  shows "hook_cache (upd_reg p f s) = hook_cache s" "slots_of (upd_reg p f s) = slots_of s"
    "cached (upd_reg p f s) = cached s" "disp_inv E (upd_reg p f s) = disp_inv E s"
    "hears E (upd_reg p f s) = hears E s" "hook_slot E (upd_reg p f s) = hook_slot E s"
    "hook_reg E (upd_reg p f s) = hook_reg E s"
proof -
  let ?t = "upd_reg p f s"
  show hc: "hook_cache ?t = hook_cache s"
  proof (intro ext)
    fix q h
    show "hook_cache ?t q h = hook_cache s q h"
      by (cases "regions s q") (auto simp: hook_cache_def heap_simps assms)
  qed
  show so: "slots_of ?t = slots_of s" by (rule slots_of_arrays) (simp add: heap_simps)
  show "cached ?t = cached s" by (intro ext) (auto simp: cached_def hc so split: option.splits)
  have "cell_ok ?t = cell_ok s"
    by (intro ext) (auto simp: cell_ok_def heap_simps split: option.splits)
  then have wf: "slots_wf ?t = slots_wf s" by (simp add: slots_wf_def hc)
  have ds: "dset ?t = dset s"
  proof (intro ext)
    fix q b
    show "dset ?t q b = dset s q b" by (cases "regions s q") (auto simp: dset_def heap_simps assms)
  qed
  have "rt_handles ?t = rt_handles s" "rt_list ?t = rt_list s"
    by (simp_all add: rt_handles_def rt_list_def heap_simps)
  then have di: "deny_inv E ?t = deny_inv E s"
    by (simp add: deny_inv_def ds set_agrees_def heap_simps)
  show hr: "hook_reg E ?t = hook_reg E s" by (simp add: fun_eq_iff hook_reg_def heap_simps)
  show "disp_inv E ?t = disp_inv E s"
    by (simp add: disp_inv_def wf di caches_ok_def hooks_wf_def hr heap_simps)
  have "denied_mods ?t = denied_mods s"
  proof
    fix q show "denied_mods ?t q = denied_mods s q"
      by (cases "regions s q") (auto simp: denied_mods_def heap_simps assms)
  qed
  then show "hears E ?t = hears E s" by (simp add: fun_eq_iff hears_def denied_anc_def heap_simps)
  show "hook_slot E ?t = hook_slot E s" by (simp add: fun_eq_iff hook_slot_def heap_simps)
qed

lemma disp_inv_frame:
  "disp_frame p s t \<Longrightarrow> slots_wf t \<Longrightarrow> mods t = mods s \<Longrightarrow> disp_inv E s \<Longrightarrow> disp_inv E t"
  using disp_frame_deny hooks_wf_frame disp_frame_reads(3)
  by (fastforce simp: disp_inv_def caches_ok_def)

lemma ensure_cap_ok:
  assumes mem: "never_oom E" and h: "0 \<le> h" and r: "regions s p = Some r" and inv: "disp_inv E s"
  shows "\<exists>t c. region_ensure_hook_dispatch_cap E (Some p) h s = Some (XY_OK, t) \<and> disp_frame p s t \<and>
     disp_inv E t \<and> mods t = mods s \<and> (h < int (length (re_hook_dispatch r)) \<longrightarrow> t = s) \<and>
     hook_cache t p h = Some c \<and>
     (if h < int (length (re_hook_dispatch r)) then hook_cache s p h = Some c else c = cache_zero) \<and>
     cached t = cached s"
proof (cases "h < int (length (re_hook_dispatch r))")
  case True
  with h r inv show ?thesis by (auto simp: region_ensure_hook_dispatch_cap_def hook_cache_def)
next
  case False
  let ?n = "nat (h + 16) - length (re_hook_dispatch r)"
  define f :: "xy_region_entry \<Rightarrow> xy_region_entry" where "f = (\<lambda>r. r\<lparr>re_hook_dispatch := re_hook_dispatch r @
      replicate (nat (h + 16) - length (re_hook_dispatch r)) cache_zero\<rparr>)"
  let ?t = "upd_reg p f s"
  have fr: "disp_frame p s ?t"
  proof (rule disp_frameI)
    show "?t = s\<lparr>regions := regions ?t, mods := mods s, slot_arrays := slot_arrays s, next_addr := next_addr s\<rparr>"
      by (rule xy_state.equality) (simp_all add: upd_reg_def)
    show "regions ?t p = map_option (\<lambda>r. r\<lparr>re_hook_dispatch := re_hook_dispatch r @
        replicate (nat (h + 16) - length (re_hook_dispatch r)) cache_zero\<rparr>) (regions s p)"
      by (simp add: heap_simps f_def)
  qed (simp_all add: heap_simps)
  have hc: "hook_cache ?t q k = hook_cache s q k \<or> hook_cache s q k = None \<and> hook_cache ?t q k = Some cache_zero"
    for q k
    using r by (auto simp: hook_cache_def heap_simps f_def nth_append split: if_splits)
  have zero: "slots_of s cache_zero = []" by (simp add: cache_zero_def slots_of_def)
  have wf: "slots_wf s" using inv by (simp add: disp_inv_def)
  have "slots_wf ?t"
  proof (rule slots_wf_cells [OF wf])
    fix q k d assume "hook_cache ?t q k = Some d"
    with hc [of q k] show "d = cache_zero \<or> (\<exists>d0. hook_cache s q k = Some d0 \<and> hc_slots d = hc_slots d0 \<and>
        hc_cap d = hc_cap d0 \<and> hc_count d \<le> hc_count d0)"
      by (metis option.inject order_refl)
  qed (simp_all add: heap_simps)
  then have "disp_inv E ?t" using disp_inv_frame [OF fr _ _ inv] by (simp add: heap_simps)
  moreover have "region_ensure_hook_dispatch_cap E (Some p) h s = Some (XY_OK, ?t)"
    using False h r mem by (simp add: region_ensure_hook_dispatch_cap_def never_oom_def f_def)
  moreover have "hook_cache ?t p h = Some cache_zero"
    using r h False by (auto simp: hook_cache_def heap_simps f_def nth_append)
  moreover have "cached ?t = cached s"
  proof (intro ext)
    fix q k
    have "slots_of ?t = slots_of s" by (rule slots_of_arrays) (simp add: heap_simps)
    then show "cached ?t q k = cached s q k"
      using hc [of q k] zero by (cases "hook_cache s q k") (auto simp: cached_def)
  qed
  ultimately show ?thesis using False fr by (auto simp: heap_simps)
qed

text \<open>The expected slots of a hook.\<close>

definition hook_vec :: "'h env \<Rightarrow> 'h xy_state \<Rightarrow> rptr list \<Rightarrow> string \<Rightarrow> mptr list \<Rightarrow> xy_dispatch_slot list" where
  "hook_vec E s anc name L = map (hook_slot E s name) (filter (hears E s anc name) L)"

lemma hook_vec_frame: "disp_frame p s t \<Longrightarrow> hook_vec E t anc name L = hook_vec E s anc name L"
  by (simp add: hook_vec_def disp_frame_reads(7,8) cong: map_cong filter_cong)

lemma rebuild_hook_ok:
  assumes mem: "never_oom E" and inv: "disp_inv E s" and reg: "hook_reg E s name h"
    and r: "regions s p = Some r" "\<not> re_subtree_mods_dirty r"
    and c: "hook_cache s p h = Some c" "hc_region_gen c \<noteq> re_dispatch_gen r"
    and anc: "\<And>q. q \<in> set anc \<Longrightarrow> regions s q \<noteq> None"
    and L: "\<And>m. m \<in> set (re_subtree_mods r) \<Longrightarrow> mods s m \<noteq> None"
  shows "\<exists>t c'. region_rebuild_hook_dispatch E (Some p) h name anc s = Some (XY_OK, t) \<and>
     disp_frame p s t \<and> disp_inv E t \<and> hook_cache t p h = Some c' \<and> hc_region_gen c' = re_dispatch_gen r \<and>
     slots_of t c' = hook_vec E s anc name (re_subtree_mods r) \<and>
     (\<forall>q k. (q \<noteq> p \<or> k \<noteq> h) \<longrightarrow> hook_cache t q k = hook_cache s q k \<and> cached t q k = cached s q k)"
proof -
  have h: "0 \<le> h" using inv reg unfolding disp_inv_def hooks_wf_def by blast
  have len: "h < int (length (re_hook_dispatch r))"
    using c(1) r(1) by (auto simp: hook_cache_def split: if_splits)
  have ens: "region_ensure_hook_dispatch_cap E (Some p) h s = Some (XY_OK, s)"
    using len h r by (simp add: region_ensure_hook_dispatch_cap_def)
  define f :: "xy_hook_dispatch_cache \<Rightarrow> xy_hook_dispatch_cache" where "f = (\<lambda>c. c\<lparr>hc_count := 0\<rparr>)"
  let ?s1 = "upd_cache p h f s"
  have fr1: "disp_frame p s ?s1"
    using disp_frame_cell [of s "next_addr s" p h f "slot_arrays s"] by simp
  have hc1: "hook_cache ?s1 q k = (if q = p \<and> k = h then Some (f c) else hook_cache s q k)" for q k
    using c(1) by (auto simp: hook_cache_upd [OF h])
  have same1: "mods ?s1 = mods s" "slot_arrays ?s1 = slot_arrays s" "next_addr ?s1 = next_addr s"
    by (simp_all add: heap_simps)
  have wf: "slots_wf s" using inv by (simp add: disp_inv_def)
  then have "slots_wf ?s1" using h by (rule slots_wf_cell) (simp add: f_def)
  then have inv1: "disp_inv E ?s1" using disp_inv_frame [OF fr1 _ _ inv] same1 by simp
  note rd1 = disp_frame_reads [OF fr1]
  have pre: "hook_reg E ?s1 name h" "hook_cache ?s1 p h = Some (f c)"
      "\<And>q. q \<in> set anc \<Longrightarrow> regions ?s1 q \<noteq> None"
      "\<And>m. m \<in> set (re_subtree_mods r) \<Longrightarrow> mods ?s1 m \<noteq> None"
    using reg hc1 anc L rd1(3,9) same1 by simp_all
  obtain u c1 where u: "rebuild_loop E p h name anc (re_subtree_mods r) ?s1 = Some (XY_OK, u)"
    "disp_frame p ?s1 u" "disp_inv E u" "hook_cache u p h = Some c1"
    "slots_of u c1 = slots_of ?s1 (f c) @ map (hook_slot E ?s1 name) (filter (hears E ?s1 anc name) (re_subtree_mods r))"
    "\<forall>q k. (q \<noteq> p \<or> k \<noteq> h) \<longrightarrow> hook_cache u q k = hook_cache ?s1 q k \<and> cached u q k = cached ?s1 q k"
    using rebuild_loop_ok [OF mem inv1 pre] by blast
  note fr2 = disp_frame_trans [OF fr1 u(2)]
  obtain ru where ru: "regions u p = Some ru" "re_dispatch_gen ru = re_dispatch_gen r"
    using disp_frame_reg [OF fr2, of p] r(1) by auto
  define g :: "xy_hook_dispatch_cache \<Rightarrow> xy_hook_dispatch_cache"
    where "g = (\<lambda>c. c\<lparr>hc_region_gen := re_dispatch_gen ru\<rparr>)"
  let ?t = "upd_cache p h g u"
  have fr3: "disp_frame p u ?t"
    using disp_frame_cell [of u "next_addr u" p h g "slot_arrays u"] by simp
  have hc3: "hook_cache ?t q k = (if q = p \<and> k = h then Some (g c1) else hook_cache u q k)" for q k
    using u(4) by (auto simp: hook_cache_upd [OF h])
  have gs: "hc_slots (g d) = hc_slots d" "hc_count (g d) = hc_count d" "hc_cap (g d) = hc_cap d" for d
    by (simp_all add: g_def)
  have so: "slots_of ?t = slots_of u" "slots_of u (g c1) = slots_of u c1"
    by (rule slots_of_arrays, simp add: heap_simps) (auto simp: slots_of_def gs split: option.splits)
  have wfu: "slots_wf u" using u(3) by (simp add: disp_inv_def)
  then have "slots_wf ?t" using h by (rule slots_wf_cell) (simp add: gs)
  then have inv3: "disp_inv E ?t" using disp_inv_frame [OF fr3 _ _ u(3)] by (simp add: heap_simps)
  have "region_rebuild_hook_dispatch E (Some p) h name anc s = Some (XY_OK, ?t)"
    using h r ens c u(1) ru by (simp add: region_rebuild_hook_dispatch_def f_def g_def)
  moreover have "slots_of ?s1 (f c) = []"
    by (simp add: slots_of_def f_def split: option.splits)
  then have "slots_of ?t (g c1) = hook_vec E s anc name (re_subtree_mods r)"
    using u(5) by (simp add: so hook_vec_def rd1(7,8) cong: map_cong filter_cong)
  moreover have "cached ?t q k = cached s q k" if "q \<noteq> p \<or> k \<noteq> h" for q k
  proof -
    have "slots_of ?s1 = slots_of s" using same1(2) by (rule slots_of_arrays)
    then show ?thesis
      using that u(6) [rule_format, OF that] hc1 [of q k] hc3 [of q k] so(1)
      by (cases "hook_cache s q k") (auto simp: cached_def)
  qed
  ultimately show ?thesis
    using disp_frame_trans [OF fr2 fr3] inv3 hc3 hc1 u(6) ru(2) by (auto simp: g_def)
qed


section \<open>Running the slots\<close>

text \<open>
  Module code that only writes its caller's buffers, and within their bounds: a call is then a
  function of the buffers, and what a dispatch computes is their composition.
\<close>

type_synonym bufs = "addr \<Rightarrow> u8 list option"

definition quiet :: "'h env \<Rightarrow> (fnptr \<Rightarrow> addr option \<Rightarrow> fn_slot \<Rightarrow> addr option \<Rightarrow> bufs \<Rightarrow> bufs) \<Rightarrow> bool" where
  "quiet E eff \<longleftrightarrow>
     (\<forall>f retp cb arg s. run_hook E f retp cb arg s = Some (s\<lparr>bufs := eff f retp cb arg (bufs s)\<rparr>)) \<and>
     (\<forall>f retp cb arg b x. map_option length (eff f retp cb arg b x) = map_option length (b x))"

text \<open>What running quiet callbacks changes besides the buffers.\<close>

definition run_frame :: "'h xy_state \<Rightarrow> 'h xy_state \<Rightarrow> bool" where
  "run_frame s t \<longleftrightarrow>
     t = s\<lparr>ctxs := ctxs t, bufs := bufs t, xy_global := xy_global t, xy_last_ran := xy_last_ran t,
           xy_last_retp := xy_last_retp t\<rparr> \<and> dom (ctxs t) = dom (ctxs s)"

lemma run_frame_refl [simp]: "run_frame s s"
  by (simp add: run_frame_def)

lemma run_frame_trans: "run_frame s t \<Longrightarrow> run_frame t u \<Longrightarrow> run_frame s u"
  unfolding run_frame_def
proof (elim conjE, intro conjI)
  assume t: "t = s\<lparr>ctxs := ctxs t, bufs := bufs t, xy_global := xy_global t, xy_last_ran := xy_last_ran t,
      xy_last_retp := xy_last_retp t\<rparr>"
    and u: "u = t\<lparr>ctxs := ctxs u, bufs := bufs u, xy_global := xy_global u, xy_last_ran := xy_last_ran u,
      xy_last_retp := xy_last_retp u\<rparr>"
  show "u = s\<lparr>ctxs := ctxs u, bufs := bufs u, xy_global := xy_global u, xy_last_ran := xy_last_ran u,
      xy_last_retp := xy_last_retp u\<rparr>" by (subst u, subst t) simp
qed simp

lemma run_frame_same:
  assumes "run_frame s t"
  shows "mods t = mods s" "regions t = regions s" "slot_arrays t = slot_arrays s" "next_addr t = next_addr s"
    "adapters t = adapters s" "st_corm t = st_corm s" "xy_rt t = xy_rt s"
    "xy_current_region_id t = xy_current_region_id s"
    "xy_current_region_entry t = xy_current_region_entry s" "dom (ctxs t) = dom (ctxs s)"
    "xy_last_retbuf t = xy_last_retbuf s"
proof -
  have t: "t = s\<lparr>ctxs := ctxs t, bufs := bufs t, xy_global := xy_global t, xy_last_ran := xy_last_ran t,
      xy_last_retp := xy_last_retp t\<rparr>" using assms by (simp add: run_frame_def)
  show "mods t = mods s" "regions t = regions s" "slot_arrays t = slot_arrays s" "next_addr t = next_addr s"
    "adapters t = adapters s" "st_corm t = st_corm s" "xy_rt t = xy_rt s"
    "xy_current_region_id t = xy_current_region_id s"
    "xy_current_region_entry t = xy_current_region_entry s" "xy_last_retbuf t = xy_last_retbuf s"
    by (subst t, simp)+
  show "dom (ctxs t) = dom (ctxs s)" using assms by (simp add: run_frame_def)
qed

text \<open>A slot whose module is there, has a live context and a callback.\<close>

definition live_slot :: "'h xy_state \<Rightarrow> xy_dispatch_slot \<Rightarrow> bool" where
  "live_slot s sl \<longleftrightarrow>
     (\<exists>m e c. sl_me sl = Some m \<and> mods s m = Some e \<and> me_ctx e = Some c \<and> c \<in> dom (ctxs s) \<and>
        sl_cb sl \<noteq> FN_NULL)"

definition slot_eff ::
  "(fnptr \<Rightarrow> addr option \<Rightarrow> fn_slot \<Rightarrow> addr option \<Rightarrow> bufs \<Rightarrow> bufs) \<Rightarrow> dispatch_frame \<Rightarrow>
     xy_dispatch_slot \<Rightarrow> bufs \<Rightarrow> bufs" where
  "slot_eff eff F sl = eff (df_call F) (df_retp F) (sl_cb sl) (df_arg F)"

lemma run_slot_quiet:
  assumes q: "quiet E eff" and live: "live_slot s sl" and cur: "xy_current_region_id s = df_region_id F"
  shows "\<exists>t. run_slot E F sl s = Some (True, t) \<and> run_frame s t \<and>
     bufs t = slot_eff eff F sl (bufs s)"
proof -
  obtain m e c x where l: "sl_me sl = Some m" "mods s m = Some e" "me_ctx e = Some c" "ctxs s c = Some x"
    "sl_cb sl \<noteq> FN_NULL" using live by (auto simp: live_slot_def)
  define s1 where "s1 = enter_ctx F e c s"
  define b where "b = slot_eff eff F sl (bufs s)"
  have s1: "s1 = s\<lparr>ctxs := ctxs s1\<rparr>" "dom (ctxs s1) = dom (ctxs s)" "bufs s1 = bufs s"
    using l(4) by (auto simp: s1_def enter_ctx_def upd_ctx_def)
  have hook: "run_hook E (df_call F) (df_retp F) (sl_cb sl) (df_arg F) u = Some (u\<lparr>bufs := b\<rparr>)"
    if "bufs u = bufs s" for u using q that by (simp add: quiet_def b_def slot_eff_def)
  have restored: "set_current_region (df_region_id F) (xy_current_region_entry s1)
      ((set_current_region i p s1)\<lparr>bufs := b\<rparr>) = s1\<lparr>bufs := b\<rparr>" for i p
    using cur by (simp add: set_current_region_def s1_def enter_ctx_def upd_ctx_def)
  have "run_slot E F sl s = Some (True, s1\<lparr>bufs := b\<rparr>)"
    using l hook [of s1] hook [of "set_current_region (cx_region_id x) (me_region_entry e) s1"] restored s1(3)
    by (simp add: run_slot_def s1_def [symmetric] set_current_region_def)
  moreover have "xy_global s1 = xy_global s" "xy_last_ran s1 = xy_last_ran s" "xy_last_retp s1 = xy_last_retp s"
    by (simp_all add: s1_def enter_ctx_def upd_ctx_def)
  then have "run_frame s (s1\<lparr>bufs := b\<rparr>)"
    unfolding run_frame_def using s1(2) by (subst s1(1)) simp
  ultimately show ?thesis by (auto simp: b_def)
qed

lemma publish_frame:
  "run_frame s (xy_last_publish n retp reg s)" "bufs (xy_last_publish n retp reg s) = bufs s"
  "ctxs (xy_last_publish n retp reg s) = ctxs s"
  by (simp_all add: run_frame_def xy_last_publish_def set_adapter_def)

lemma live_slot_frame: "run_frame s t \<Longrightarrow> live_slot t sl = live_slot s sl"
  by (simp add: live_slot_def run_frame_same(1,10) [of s t])

lemma slots_loop_quiet:
  assumes q: "quiet E eff" and "slot_arrays s a = Some arr" "mi + k \<le> length arr"
    and "xy_current_region_id s = df_region_id F"
    and "\<And>sl. sl \<in> set (take k (drop mi arr)) \<Longrightarrow> live_slot s sl"
  shows "\<exists>t. slots_loop E F (Some a) k mi n s = Some (n + k, t) \<and> run_frame s t \<and>
     bufs t = fold (slot_eff eff F) (take k (drop mi arr)) (bufs s)"
  using assms(2-)
proof (induction k arbitrary: mi n s)
  case 0
  then show ?case by simp
next
  case (Suc k)
  have d: "take (Suc k) (drop mi arr) = arr ! mi # take k (drop (Suc mi) arr)"
    using Suc.prems(2) by (simp add: Cons_nth_drop_Suc [symmetric])
  obtain u where u: "run_slot E F (arr ! mi) s = Some (True, u)" "run_frame s u"
    "bufs u = slot_eff eff F (arr ! mi) (bufs s)"
    using run_slot_quiet [OF q Suc.prems(4) [of "arr ! mi"] Suc.prems(3)] d by auto
  let ?v = "xy_last_publish (Suc n) (df_retp F) (df_reg F) u"
  have v: "run_frame s ?v" "bufs ?v = bufs u"
    using run_frame_trans [OF u(2) publish_frame(1)] publish_frame(2) by blast+
  have "slot_arrays ?v a = Some arr" "Suc mi + k \<le> length arr" "xy_current_region_id ?v = df_region_id F"
      "\<And>sl. sl \<in> set (take k (drop (Suc mi) arr)) \<Longrightarrow> live_slot ?v sl"
    using Suc.prems run_frame_same(3,8) [OF v(1)] live_slot_frame [OF v(1)] d by auto
  from Suc.IH [OF this, of "Suc n"] obtain t where t: "run_frame ?v t"
    "slots_loop E F (Some a) k (Suc mi) (Suc n) ?v = Some (Suc n + k, t)"
    "bufs t = fold (slot_eff eff F) (take k (drop (Suc mi) arr)) (bufs ?v)" by auto
  with Suc.prems(1,2) u v d run_frame_trans [OF v(1) t(1)] show ?case by auto
qed


text \<open>Adapter and progress are what the last callback's publication says.\<close>

definition published :: "nat \<Rightarrow> addr option \<Rightarrow> aptr \<Rightarrow> 'h xy_state \<Rightarrow> bool" where
  "published n retp reg s \<longleftrightarrow>
     xy_last_ran s = n \<and> xy_last_retp s = map_option Caller_Buf retp \<and> cx_adapter (xy_global s) = Some reg"

lemma published_publish [simp]: "published n retp reg (xy_last_publish n retp reg s)"
  by (simp add: published_def xy_last_publish_def set_adapter_def)

lemma run_slot_skipped: "run_slot E F sl s = Some (False, t) \<Longrightarrow> t = s"
  by (auto simp: run_slot_def Let_def split: option.splits if_splits bind_splits)

lemma slots_loop_published:
  assumes "slots_loop E F slots k mi n s = Some (n', t)" "published n (df_retp F) (df_reg F) s"
  shows "published n' (df_retp F) (df_reg F) t"
  using assms
proof (induction k arbitrary: mi n s)
  case (Suc k)
  then obtain a arr did s1 where r: "slots = Some a" "slot_arrays s a = Some arr"
    "run_slot E F (arr ! mi) s = Some (did, s1)"
    "(if did then slots_loop E F slots k (Suc mi) (Suc n) (xy_last_publish (Suc n) (df_retp F) (df_reg F) s1)
      else slots_loop E F slots k (Suc mi) n s1) = Some (n', t)"
    by (auto split: if_splits bind_splits)
  show ?case
  proof (cases did)
    case True
    with r(4) show ?thesis using Suc.IH published_publish by (metis (full_types))
  next
    case False
    with r(3,4) run_slot_skipped Suc.prems(2) show ?thesis using Suc.IH by (metis (full_types))
  qed
qed simp


section \<open>Subtree scope\<close>

text \<open>Contexts of modules are live objects.\<close>

definition ctx_live :: "'h xy_state \<Rightarrow> bool" where
  "ctx_live s \<longleftrightarrow> (\<forall>m e c. mods s m = Some e \<longrightarrow> me_ctx e = Some c \<longrightarrow> c \<in> dom (ctxs s))"

text \<open>A cache cell of the current generation holds the expected slots.\<close>

definition cache_fresh :: "'h env \<Rightarrow> 'h xy_state \<Rightarrow> rptr \<Rightarrow> int \<Rightarrow> string \<Rightarrow> rptr list \<Rightarrow> bool" where
  "cache_fresh E s p h name anc \<longleftrightarrow>
     (\<forall>r c. regions s p = Some r \<longrightarrow> hook_cache s p h = Some c \<longrightarrow> hc_region_gen c = re_dispatch_gen r \<longrightarrow>
        \<not> re_subtree_mods_dirty r \<and> slots_of s c = hook_vec E s anc name (re_subtree_mods r))"

lemma hook_vec_live:
  assumes "ctx_live s" "sl \<in> set (hook_vec E s anc name L)"
  shows "live_slot s sl"
proof -
  obtain m e where "sl = hook_slot E s name m" "mods s m = Some e" "me_ctx e \<noteq> None" "hook_fn E e name \<noteq> None"
    using assms(2) by (auto simp: hook_vec_def hears_def)
  then show ?thesis
    using assms(1) by (fastforce simp: live_slot_def hook_slot_def slot_for_def slot_of_def ctx_live_def)
qed

lemma disp_frame_live: "disp_frame p s t \<Longrightarrow> live_slot s sl \<Longrightarrow> live_slot t sl"
  using disp_frame_mods(2) [of p s t] disp_frame_same(3) [of p s t]
  by (fastforce simp: live_slot_def dest: same_modD)

lemma slots_loop_cell:
  assumes q: "quiet E eff" and wf: "slots_wf s" and c: "hook_cache s p h = Some c"
    and cur: "xy_current_region_id s = df_region_id F"
    and live: "\<And>sl. sl \<in> set (slots_of s c) \<Longrightarrow> live_slot s sl"
  shows "\<exists>t. slots_loop E F (hc_slots c) (hc_count c) 0 0 s = Some (length (slots_of s c), t) \<and>
     run_frame s t \<and> bufs t = fold (slot_eff eff F) (slots_of s c) (bufs s)"
proof (cases "hc_slots c")
  case None
  with slots_wfD(1,2) [OF wf c] show ?thesis by (simp add: slots_of_def)
next
  case (Some a)
  obtain arr where arr: "slot_arrays s a = Some arr" "length arr = hc_cap c"
    using slots_wfD(3) [OF wf c Some] by blast
  have so: "slots_of s c = take (hc_count c) arr" using Some arr(1) by (simp add: slots_of_def)
  with slots_loop_quiet [OF q arr(1), of 0 "hc_count c" F 0] slots_wfD(1) [OF wf c] arr(2) cur live Some
  show ?thesis by simp
qed

lemma vec_for_mods: "vec_for s p L \<Longrightarrow> m \<in> set L \<Longrightarrow> mods s m \<noteq> None"
  using mods_of_mem by (fastforce simp: vec_for_def mods_in_def)

lemma subtree_scope_ok:
  assumes mem: "never_oom E" and q: "quiet E eff" and wf: "tree_wf s" "mods_wf s" "vec_ok s"
    and inv: "disp_inv E s" and ctx: "ctx_live s"
    and p: "df_caller F = p" "r_key s p = Some k" "r_gen s p \<noteq> Some 0"
    and reg: "adapters s (df_reg F) = Some a" "hook_reg E s (ad_name a) (df_hook_id F)"
    and anc: "\<And>q. q \<in> set (df_anc F) \<Longrightarrow> regions s q \<noteq> None"
    and fresh: "cache_fresh E s p (df_hook_id F) (ad_name a) (df_anc F)"
    and cur: "xy_current_region_id s = df_region_id F"
  shows "\<exists>L cap s1 t c. vec_for s p L \<and>
     subtree_scope E F s = Some (Inr (length (hook_vec E s (df_anc F) (ad_name a) L)), t) \<and>
     bufs t = fold (slot_eff eff F) (hook_vec E s (df_anc F) (ad_name a) L) (bufs s) \<and>
     disp_frame p (upd_reg p (vec_set L cap) s) s1 \<and> run_frame s1 t \<and> disp_inv E s1 \<and>
     hook_cache s1 p (df_hook_id F) = Some c \<and> slots_of s1 c = hook_vec E s (df_anc F) (ad_name a) L \<and>
     (published 0 (df_retp F) (df_reg F) s \<longrightarrow>
        published (length (hook_vec E s (df_anc F) (ad_name a) L)) (df_retp F) (df_reg F) t)"
proof -
  let ?h = "df_hook_id F" and ?n = "ad_name a" and ?anc = "df_anc F"
  obtain r where r: "regions s p = Some r" using p(2) by (auto simp: r_key_def)
  have h: "0 \<le> ?h" using inv reg(2) unfolding disp_inv_def hooks_wf_def by blast
  obtain L cap where L: "(if re_subtree_mods_dirty r then region_rebuild_subtree_mods E (Some p) s else Some (0, s)) =
      Some (0, upd_reg p (vec_set L cap) s)" "vec_for s p L" "\<not> re_subtree_mods_dirty r \<Longrightarrow> L = re_subtree_mods r"
    using refresh_ok [OF mem wf p(2) r] by blast
  let ?s1 = "upd_reg p (vec_set L cap) s"
  note u1 = upd_reg_disp [where f = "vec_set L cap" and p = p and s = s, OF vec_set_fields(1,7,8)]
  have r1: "regions ?s1 p = Some (vec_set L cap r)" using r by (simp add: heap_simps)
  obtain s2 c where s2: "region_ensure_hook_dispatch_cap E (Some p) ?h ?s1 = Some (XY_OK, s2)"
    "disp_frame p ?s1 s2" "disp_inv E s2" "mods s2 = mods ?s1"
    "?h < int (length (re_hook_dispatch r)) \<longrightarrow> s2 = ?s1" "hook_cache s2 p ?h = Some c"
    "if ?h < int (length (re_hook_dispatch r)) then hook_cache ?s1 p ?h = Some c else c = cache_zero"
    using ensure_cap_ok [OF mem h r1] inv by (auto simp: u1)
  have ens: "(if ?h \<ge> int (length (re_hook_dispatch (vec_set L cap r)))
      then region_ensure_hook_dispatch_cap E (Some p) ?h ?s1 else Some (XY_OK, ?s1)) = Some (XY_OK, s2)"
    using s2(1,5) by (auto simp: not_less)
  obtain r2 where r2: "regions s2 p = Some r2" "re_dispatch_gen r2 = re_dispatch_gen r"
      "\<not> re_subtree_mods_dirty r2" "re_subtree_mods r2 = L"
    using disp_frame_reg [OF s2(2), of p] r1 by auto
  have gen: "re_dispatch_gen r \<noteq> 0" using p(3) r by (simp add: r_gen_def)
  have vec: "hook_vec E s2 ?anc ?n L = hook_vec E s ?anc ?n L"
    using hook_vec_frame [OF s2(2)] by (simp add: hook_vec_def u1)
  have ad2: "adapters s2 = adapters s" using disp_frame_same(4) [OF s2(2)] by (simp add: heap_simps)
  have "\<exists>s3 c3. (if hc_region_gen c \<noteq> re_dispatch_gen r2
        then region_rebuild_hook_dispatch E (Some p) ?h ?n ?anc s2 else Some (XY_OK, s2)) = Some (XY_OK, s3) \<and>
      disp_frame p s2 s3 \<and> disp_inv E s3 \<and> hook_cache s3 p ?h = Some c3 \<and>
      slots_of s3 c3 = hook_vec E s ?anc ?n L"
  proof (cases "hc_region_gen c = re_dispatch_gen r2")
    case True
    then have "c \<noteq> cache_zero" using gen r2(2) by (auto simp: cache_zero_def)
    then have lt: "?h < int (length (re_hook_dispatch r))" using s2(7) by (auto split: if_splits)
    then have c: "hook_cache s p ?h = Some c" "s2 = ?s1" using s2(5,7) by (simp_all add: u1)
    with fresh r True r2(2) have "\<not> re_subtree_mods_dirty r" "slots_of s c = hook_vec E s ?anc ?n (re_subtree_mods r)"
      by (simp_all add: cache_fresh_def)
    then have "slots_of s2 c = hook_vec E s ?anc ?n L" using L(3) c(2) u1(2) by simp
    with s2(3,6) True show ?thesis by auto
  next
    case False
    have rg: "hook_reg E s2 ?n ?h" using reg(2) disp_frame_reads(3) [OF s2(2)] by (simp add: u1)
    have an: "\<And>q. q \<in> set ?anc \<Longrightarrow> regions s2 q \<noteq> None"
      using anc disp_frame_reads(9) [OF s2(2)] by (auto simp: heap_simps)
    have ml: "\<And>m. m \<in> set (re_subtree_mods r2) \<Longrightarrow> mods s2 m \<noteq> None"
      using vec_for_mods [OF L(2)] s2(4) r2(4) by (simp add: heap_simps)
    from rebuild_hook_ok [where anc = "df_anc F", OF mem s2(3) rg r2(1,3) s2(6) False an ml] show ?thesis
      using False vec unfolding r2(4) by auto
  qed
  then obtain s3 c3 where s3: "(if hc_region_gen c \<noteq> re_dispatch_gen r2
        then region_rebuild_hook_dispatch E (Some p) ?h ?n ?anc s2 else Some (XY_OK, s2)) = Some (XY_OK, s3)"
      "disp_frame p s2 s3" "disp_inv E s3" "hook_cache s3 p ?h = Some c3"
      "slots_of s3 c3 = hook_vec E s ?anc ?n L" by blast
  note fr = disp_frame_trans [OF s2(2) s3(2)]
  have "live_slot ?s1 sl = live_slot s sl" for sl by (simp add: live_slot_def heap_simps)
  then have live: "\<And>sl. sl \<in> set (slots_of s3 c3) \<Longrightarrow> live_slot s3 sl"
    using hook_vec_live [OF ctx] disp_frame_live [OF fr] s3(5) by auto
  have "xy_current_region_id s3 = df_region_id F" "slots_wf s3"
    using disp_frame_same(7) [OF fr] cur s3(3) by (simp_all add: heap_simps disp_inv_def)
  from slots_loop_cell [OF q this(2) s3(4) this(1) live] s3(5) obtain t where
    t: "slots_loop E F (hc_slots c3) (hc_count c3) 0 0 s3 = Some (length (hook_vec E s ?anc ?n L), t)"
      "run_frame s3 t" "bufs t = fold (slot_eff eff F) (hook_vec E s ?anc ?n L) (bufs s3)" by auto
  have "subtree_scope E F s = Some (Inr (length (hook_vec E s ?anc ?n L)), t)"
    using r L(1) r1 ens s2(6) r2(1) s3 t(1) reg(1) ad2
    by (simp add: subtree_scope_def p(1) Let_def)
  moreover have "bufs s3 = bufs s" using disp_frame_same(5) [OF fr] by (simp add: heap_simps)
  moreover have "published 0 (df_retp F) (df_reg F) s3" if "published 0 (df_retp F) (df_reg F) s"
    using that disp_frame_same(8-10) [OF fr] by (simp add: published_def upd_reg_def)
  then have "published 0 (df_retp F) (df_reg F) s \<longrightarrow>
      published (length (hook_vec E s ?anc ?n L)) (df_retp F) (df_reg F) t"
    using slots_loop_published [OF t(1)] by blast
  ultimately show ?thesis using L(2) t(2,3) fr s3(3-5) by metis
qed

end
