(* ===== verification/Xy_Call.thy ===== *)
theory Xy_Call
  imports Xy_Run
begin

text \<open>
  The dispatch core end to end: the exact-region walk, the deny gate, and what \<^verbatim>\<open>xy_call\<close>,
  \<^verbatim>\<open>xy_call_self\<close> and \<^verbatim>\<open>xy_last\<close> return.
\<close>

section \<open>Exact-region scope\<close>

text \<open>What resolving and running quiet callbacks changes.\<close>

definition call_frame :: "'h xy_state \<Rightarrow> 'h xy_state \<Rightarrow> bool" where
  "call_frame s t \<longleftrightarrow> disp_frame 0 s (s\<lparr>mods := mods t\<rparr>) \<and> run_frame (s\<lparr>mods := mods t\<rparr>) t"

lemma call_frame_refl [simp]: "call_frame s s"
  by (simp add: call_frame_def)

lemma call_frame_mods:
  "disp_frame 0 s (s\<lparr>mods := M\<rparr>) \<longleftrightarrow> (\<forall>m. rel_option same_mod (mods s m) (M m))"
proof
  assume "\<forall>m. rel_option same_mod (mods s m) (M m)"
  then show "disp_frame 0 s (s\<lparr>mods := M\<rparr>)"
    by (intro disp_frameI [where R = "regions s" and M = M and A = "slot_arrays s" and n = "next_addr s"
          and d = re_hook_dispatch]) (auto simp: option.map_ident)
qed (simp add: disp_frame_def)

lemma same_mod_rel_trans:
  "rel_option same_mod x y \<Longrightarrow> rel_option same_mod y z \<Longrightarrow> rel_option same_mod x z"
  by (auto elim!: option.rel_cases intro: same_mod_trans)

lemma call_frame_trans: "call_frame s t \<Longrightarrow> call_frame t u \<Longrightarrow> call_frame s u"
proof -
  assume a: "call_frame s t" and b: "call_frame t u"
  have m: "rel_option same_mod (mods s m) (mods u m)" for m
    using a b same_mod_rel_trans unfolding call_frame_def call_frame_mods by blast
  have t: "t = s\<lparr>mods := mods t, ctxs := ctxs t, bufs := bufs t, xy_global := xy_global t,
      xy_last_ran := xy_last_ran t, xy_last_retp := xy_last_retp t\<rparr>" and dt: "dom (ctxs t) = dom (ctxs s)"
    using a by (simp_all add: call_frame_def run_frame_def)
  have u: "u = t\<lparr>mods := mods u, ctxs := ctxs u, bufs := bufs u, xy_global := xy_global u,
      xy_last_ran := xy_last_ran u, xy_last_retp := xy_last_retp u\<rparr>" and du: "dom (ctxs u) = dom (ctxs t)"
    using b by (simp_all add: call_frame_def run_frame_def)
  have "u = s\<lparr>mods := mods u, ctxs := ctxs u, bufs := bufs u, xy_global := xy_global u,
      xy_last_ran := xy_last_ran u, xy_last_retp := xy_last_retp u\<rparr>"
    by (subst u, subst t) simp
  then show ?thesis using m dt du by (simp add: call_frame_def run_frame_def call_frame_mods)
qed


lemma call_frame_run: "run_frame s t \<Longrightarrow> call_frame s t"
  using run_frame_same(1) [of s t] by (simp add: call_frame_def call_frame_mods)

lemma call_frame_mod: "mods s m = Some e \<Longrightarrow> same_mod e e' \<Longrightarrow> call_frame s (upd_mod m (\<lambda>_. e') s)"
  by (auto simp: call_frame_def call_frame_mods upd_mod_def)

lemma call_frame_reads:
  assumes fr: "call_frame s t"
  shows "regions t = regions s" "adapters t = adapters s" "next_addr t = next_addr s"
    "slot_arrays t = slot_arrays s" "st_corm t = st_corm s" "xy_rt t = xy_rt s" "dom (ctxs t) = dom (ctxs s)"
    "xy_current_region_id t = xy_current_region_id s"
    "xy_current_region_entry t = xy_current_region_entry s" "xy_last_retbuf t = xy_last_retbuf s"
    "hook_reg E t = hook_reg E s" "denied_anc t = denied_anc s" "hears E t anc name m = hears E s anc name m"
    "hook_slot E t name m = hook_slot E s name m" "mod_next t = mod_next s"
    "mods s m = Some e \<Longrightarrow> \<exists>e'. mods t m = Some e' \<and> same_mod e e'"
proof -
  let ?u = "s\<lparr>mods := mods t\<rparr>"
  have d: "disp_frame 0 s ?u" and r: "run_frame ?u t" using fr by (simp_all add: call_frame_def)
  note same = run_frame_same [OF r] and rd = disp_frame_reads [OF d]
  show regs: "regions t = regions s" "adapters t = adapters s" "next_addr t = next_addr s"
    "slot_arrays t = slot_arrays s" "st_corm t = st_corm s" "xy_rt t = xy_rt s" "dom (ctxs t) = dom (ctxs s)"
    "xy_current_region_id t = xy_current_region_id s"
    "xy_current_region_entry t = xy_current_region_entry s" "xy_last_retbuf t = xy_last_retbuf s"
    using same by simp_all
  show "hook_reg E t = hook_reg E s"
    using tbl_get_cong [OF regs(5)] by (simp add: fun_eq_iff hook_reg_def regs)
  have "denied_mods t = denied_mods s" by (simp add: fun_eq_iff denied_mods_def regs)
  then show da: "denied_anc t = denied_anc s" by (simp add: fun_eq_iff denied_anc_def)
  show "hears E t anc name m = hears E s anc name m" "hook_slot E t name m = hook_slot E s name m"
    using rd(6-8) da by (simp_all add: hears_def hook_slot_def)
  have rel: "rel_option same_mod (mods s m) (mods t m)" for m
    using d by (simp add: call_frame_mods)
  show "mod_next t = mod_next s"
  proof
    fix m show "mod_next t m = mod_next s m"
      using rel [of m] by (auto simp: mod_next_def elim!: option.rel_cases dest: same_modD)
  qed
  show "mods s m = Some e \<Longrightarrow> \<exists>e'. mods t m = Some e' \<and> same_mod e e'"
    using rel [of m] by (auto elim: option.rel_cases)
qed

text \<open>What the walk needs of the state.\<close>

definition walk_inv :: "'h env \<Rightarrow> 'h xy_state \<Rightarrow> bool" where
  "walk_inv E s \<longleftrightarrow> deny_inv E s \<and> caches_ok E s \<and> hooks_wf E s \<and> ctx_live s"

lemma walk_inv_frame:
  assumes fr: "call_frame s t" and inv: "walk_inv E s" and ok: "caches_ok E t"
  shows "walk_inv E t"
proof -
  note rd = call_frame_reads [OF fr]
  have "dset t = dset s" by (simp add: fun_eq_iff dset_def rd)
  then have "deny_inv E t"
    using inv tbl_get_cong [OF rd(5)] tbl_single_cong [OF rd(5)] rd(6)
    by (intro deny_inv_frame [of t s]) (simp_all add: walk_inv_def)
  moreover have "hooks_wf E t" using inv by (simp add: walk_inv_def hooks_wf_def rd)
  moreover have "ctx_live t"
    unfolding ctx_live_def
  proof (intro allI impI)
    fix m e c assume e: "mods t m = Some e" "me_ctx e = Some c"
    have "disp_frame 0 s (s\<lparr>mods := mods t\<rparr>)" using fr by (simp add: call_frame_def)
    from disp_frame_mods(3) [OF this, of m e] e obtain e0 where "mods s m = Some e0" "same_mod e0 e" by auto
    with e inv rd(7) show "c \<in> dom (ctxs t)" using same_modD by (fastforce simp: walk_inv_def ctx_live_def)
  qed
  ultimately show ?thesis using ok by (simp add: walk_inv_def)
qed

lemma self_loop_quiet:
  assumes mem: "never_oom E" and q: "quiet E eff" and reg: "hook_reg E s name (df_hook_id F)"
    and a: "adapters s (df_reg F) = Some a" "ad_name a = name"
    and anc: "\<And>q. q \<in> set (df_anc F) \<Longrightarrow> regions s q \<noteq> None"
    and inv: "walk_inv E s" and ch: "chain (mod_next s) me ms"
  shows "\<exists>t. self_loop E F n me s = Some (Inr (n + length (hook_vec E s (df_anc F) name ms)), t) \<and>
     call_frame s t \<and> walk_inv E t \<and>
     bufs t = fold (slot_eff eff F) (hook_vec E s (df_anc F) name ms) (bufs s) \<and>
     (published n (df_retp F) (df_reg F) s \<longrightarrow>
        published (n + length (hook_vec E s (df_anc F) name ms)) (df_retp F) (df_reg F) t)"
  using reg a(1) anc inv ch
proof (induction ms arbitrary: s me n)
  case Nil
  then have "me = None" by simp
  then show ?case using Nil by (subst self_loop.simps) (simp add: hook_vec_def)
next
  case (Cons m ms)
  let ?h = "df_hook_id F"
  note inv = Cons.prems(4) [unfolded walk_inv_def]
  obtain e where e: "me = Some m" "mods s m = Some e" "chain (mod_next s) (me_region_next e) ms"
    using Cons.prems(5) by (auto simp: mod_next_def [of s m])
  have h: "0 \<le> ?h" using inv Cons.prems(1) unfolding hooks_wf_def by blast
  have ok: "cache_ok E e ?h name" using inv e(2) Cons.prems(1) unfolding caches_ok_def by blast
  have den: "module_denied_by_ancestors E s (df_anc F) e = Some (denied_anc s (df_anc F) e)"
    using inv Cons.prems(3) by (intro denied_by_ancestors_iff) auto
  show ?case
  proof (cases "me_ctx e = None \<or> denied_anc s (df_anc F) e")
    case True
    then have "self_loop E F n me s = self_loop E F n (me_region_next e) s"
      using e(1,2) den by (subst self_loop.simps) (auto split: option.splits)
    moreover have "\<not> hears E s (df_anc F) name m" using True e(2) by (auto simp: hears_def)
    ultimately show ?thesis using Cons.IH [OF Cons.prems(1-4) e(3), of n] by (simp add: hook_vec_def)
  next
    case False
    then obtain c where c: "me_ctx e = Some c" by auto
    obtain e' where l: "module_listens E m ?h name s =
        Some (Inr (hook_fn E e name \<noteq> None), upd_mod m (\<lambda>_. e') s)"
      "same_mod e e'" "cache_ok E e' ?h name"
      "hook_fn E e name \<noteq> None \<longrightarrow>
        nat ?h < length (me_fn_cache e') \<and> me_fn_cache e' ! nat ?h = slot_of (hook_fn E e name)"
      "\<forall>k other. 0 \<le> k \<longrightarrow> k \<noteq> ?h \<longrightarrow> cache_ok E e k other \<longrightarrow> cache_ok E e' k other"
      using listens_ok [OF mem h e(2) ok] by blast
    let ?s1 = "upd_mod m (\<lambda>_. e') s"
    have fr1: "call_frame s ?s1" using e(2) l(2) by (rule call_frame_mod)
    have m1: "mods ?s1 m = Some e'" using e(2) by (simp add: heap_simps)
    have inv1: "walk_inv E ?s1"
      using walk_inv_frame [OF fr1 Cons.prems(4)] caches_ok_listen [OF _ _ e(2) l(2) Cons.prems(1) l(3,5)] inv
      by blast
    note rd1 = call_frame_reads [OF fr1]
    have nx: "me_region_next e' = me_region_next e" using same_modD [OF l(2)] by simp
    have vec: "hook_vec E t (df_anc F) name ms = hook_vec E s (df_anc F) name ms" if "call_frame s t" for t
      using call_frame_reads(13,14) [OF that] by (simp add: hook_vec_def cong: map_cong filter_cong)
    show ?thesis
    proof (cases "hook_fn E e name")
      case None
      then have "self_loop E F n me s = self_loop E F n (me_region_next e) ?s1"
        using e(1,2) den False c l(1) Cons.prems(2) a(2) m1 nx
        by (subst self_loop.simps) simp
      moreover have "\<not> hears E s (df_anc F) name m" using e(2) None by (simp add: hears_def)
      moreover have "chain (mod_next ?s1) (me_region_next e) ms" using e(3) rd1(15) by simp
      then obtain t where "self_loop E F n (me_region_next e) ?s1 =
          Some (Inr (n + length (hook_vec E s (df_anc F) name ms)), t)" "call_frame ?s1 t" "walk_inv E t"
          "bufs t = fold (slot_eff eff F) (hook_vec E s (df_anc F) name ms) (bufs ?s1)"
          "published n (df_retp F) (df_reg F) ?s1 \<longrightarrow>
             published (n + length (hook_vec E s (df_anc F) name ms)) (df_retp F) (df_reg F) t"
        using Cons.IH [of ?s1 "me_region_next e" n] Cons.prems(1-3) inv1 rd1 vec [OF fr1] by auto
      moreover have "published n (df_retp F) (df_reg F) ?s1 = published n (df_retp F) (df_reg F) s"
        by (simp add: published_def upd_mod_def)
      ultimately show ?thesis
        using call_frame_trans [OF fr1] by (auto simp: hook_vec_def heap_simps)
    next
      case (Some f)
      let ?cb = "me_fn_cache e' ! nat ?h"
      have cb: "?cb = Fn f" "nat ?h < length (me_fn_cache e')" using l(4) Some by (simp_all add: slot_of_def)
      have live: "c \<in> dom (ctxs ?s1)" using inv e(2) c by (auto simp: ctx_live_def heap_simps)
      let ?s2 = "(enter_ctx F e' c ?s1)\<lparr>bufs := eff (df_call F) (df_retp F) ?cb (df_arg F) (bufs s)\<rparr>"
      let ?s3 = "xy_last_publish (Suc n) (df_retp F) (df_reg F) ?s2"
      have run: "run_hook E (df_call F) (df_retp F) ?cb (df_arg F) (enter_ctx F e' c ?s1) = Some ?s2"
        using q by (simp add: quiet_def enter_ctx_def upd_ctx_def upd_mod_def)
      have "run_frame ?s1 ?s2"
        using live by (auto simp: run_frame_def enter_ctx_def upd_ctx_def)
      then have fr3: "call_frame s ?s3"
        using fr1 call_frame_run call_frame_trans publish_frame(1) run_frame_trans by blast
      have m3: "mods ?s3 = mods ?s1"
        by (simp add: xy_last_publish_def set_adapter_def enter_ctx_def upd_ctx_def)
      have inv3: "walk_inv E ?s3"
        using walk_inv_frame [OF fr3 Cons.prems(4)] inv1 m3 call_frame_reads(11) [OF fr3] rd1(11)
        by (simp add: walk_inv_def caches_ok_def)
      have step: "self_loop E F n me s = self_loop E F (Suc n) (me_region_next e) ?s3"
        using e(1,2) den False c l(1) Cons.prems(2) a(2) m1 m3 nx cb(2) live run Some
        by (subst self_loop.simps) (auto simp: Let_def dom_def)
      note rd3 = call_frame_reads [OF fr3]
      have "chain (mod_next ?s3) (me_region_next e) ms" using e(3) rd3(15) by simp
      then obtain t where t: "self_loop E F (Suc n) (me_region_next e) ?s3 =
          Some (Inr (Suc n + length (hook_vec E s (df_anc F) name ms)), t)" "call_frame ?s3 t" "walk_inv E t"
          "bufs t = fold (slot_eff eff F) (hook_vec E s (df_anc F) name ms) (bufs ?s3)"
          "published (Suc n + length (hook_vec E s (df_anc F) name ms)) (df_retp F) (df_reg F) t"
        using Cons.IH [of ?s3 "me_region_next e" "Suc n"] Cons.prems(1-3) inv3 rd3 vec [OF fr3] by auto
      have "hook_vec E s (df_anc F) name (m # ms) = slot_for m ?cb # hook_vec E s (df_anc F) name ms"
        using e(2) c False Some cb(1) by (auto simp: hook_vec_def hears_def hook_slot_def slot_of_def)
      moreover have "bufs ?s3 = slot_eff eff F (slot_for m ?cb) (bufs s)"
        by (simp add: publish_frame slot_eff_def slot_for_def)
      ultimately show ?thesis using step t call_frame_trans [OF fr3 t(2)] by auto
    qed
  qed
qed


section \<open>What the bookkeeping leaves alone\<close>

lemma data_inv:
  assumes same: "regions t = regions s" "mods t = mods s" "slot_arrays t = slot_arrays s" "next_addr t = next_addr s"
    "st_corm t = st_corm s" "xy_rt t = xy_rt s" "dom (ctxs t) = dom (ctxs s)"
  shows "tree_wf t = tree_wf s" "mods_wf t = mods_wf s" "mods_of t = mods_of s" "vec_for t = vec_for s"
    "vec_ok t = vec_ok s" "disp_inv E t = disp_inv E s" "ctx_live t = ctx_live s" "r_key t = r_key s"
    "r_gen t = r_gen s" "hook_reg E t = hook_reg E s" "hook_vec E t = hook_vec E s"
    "cache_fresh E t = cache_fresh E s" "walk_inv E t = walk_inv E s" "hook_cache t = hook_cache s"
    "slots_of t = slots_of s" "ancestors t q = ancestors s q"
proof -
  have "same_shape s t" "same_shape t s" using same by (auto intro!: same_shape_regions)
  then show tw: "tree_wf t = tree_wf s" using tree_wf_shape by blast
  show mo: "mods_of t = mods_of s"
    by (simp add: fun_eq_iff mods_of_def mod_next_def [abs_def] mod_prev_def [abs_def] mod_region_def same)
  then show "mods_wf t = mods_wf s" by (simp add: mods_wf_def same)
  show k: "r_key t = r_key s" "r_gen t = r_gen s" by (simp_all add: fun_eq_iff r_key_def r_gen_def same)
  show an: "ancestors t q = ancestors s q" for q using same(1) by (rule ancestors_regions)
  have "subtree t = subtree s" by (simp add: fun_eq_iff subtree_def k an)
  then show vf: "vec_for t = vec_for s" 
    using preorder_cong [OF mo] by (simp add: fun_eq_iff vec_for_def mods_in_def mo r_head_def [abs_def] sib_next_def [abs_def] same)
  then show "vec_ok t = vec_ok s" by (simp add: vec_ok_def same)
  show hr: "hook_reg E t = hook_reg E s"
    using tbl_get_cong [OF same(5)] by (simp add: fun_eq_iff hook_reg_def same)
  have sl: "slots_wf t = slots_wf s" "hook_cache t = hook_cache s" "slots_of t = slots_of s"
    using slots_wf_cong [of t s] same by simp_all
  then show "hook_cache t = hook_cache s" "slots_of t = slots_of s" by simp_all
  have "dset t = dset s" by (simp add: fun_eq_iff dset_def same)
  moreover have "rt_handles t = rt_handles s" "rt_list t = rt_list s" by (simp_all add: rt_handles_def rt_list_def same)
  ultimately have di: "deny_inv E t = deny_inv E s"
    using tbl_get_cong [OF same(5)] tbl_single_cong [OF same(5)] by (simp add: deny_inv_def set_agrees_def)
  have co: "caches_ok E t = caches_ok E s" "hooks_wf E t = hooks_wf E s"
    by (simp_all add: caches_ok_def hooks_wf_def hr same)
  show "disp_inv E t = disp_inv E s" by (simp add: disp_inv_def di co sl)
  show cl: "ctx_live t = ctx_live s" by (simp add: ctx_live_def same)
  show "walk_inv E t = walk_inv E s" by (simp add: walk_inv_def di co cl)
  have "denied_mods t = denied_mods s" by (simp add: fun_eq_iff denied_mods_def same)
  then have "hears E t = hears E s" "hook_slot E t = hook_slot E s"
    by (simp_all add: fun_eq_iff hears_def denied_anc_def hook_slot_def same)
  then show hv: "hook_vec E t = hook_vec E s" by (intro ext) (simp add: hook_vec_def)
  show "cache_fresh E t = cache_fresh E s" by (simp add: fun_eq_iff cache_fresh_def same sl hv)
qed

lemma run_frame_inv:
  assumes "run_frame s t"
  shows "tree_wf t = tree_wf s" "mods_wf t = mods_wf s" "mods_of t = mods_of s" "vec_for t = vec_for s"
    "vec_ok t = vec_ok s" "disp_inv E t = disp_inv E s" "ctx_live t = ctx_live s" "r_key t = r_key s"
    "r_gen t = r_gen s" "hook_reg E t = hook_reg E s" "hook_vec E t = hook_vec E s"
    "cache_fresh E t = cache_fresh E s" "walk_inv E t = walk_inv E s" "hook_cache t = hook_cache s"
    "slots_of t = slots_of s" "ancestors t q = ancestors s q"
  using data_inv [OF run_frame_same(2,1,3,4,6,7,10) [OF assms]] by blast+


section \<open>The deny gate\<close>

text \<open>The root carries the deny flag when any region denies something.\<close>

definition flags_ok :: "'h xy_state \<Rightarrow> bool" where
  "flags_ok s \<longleftrightarrow>
     (\<forall>q p r. denied_hook_names s q \<noteq> {} \<longrightarrow> regions s p = Some r \<longrightarrow> re_parent r = None \<longrightarrow>
        re_subtree_flags r AND XY_SUBTREE_HAS_DENY \<noteq> 0)"

lemma hook_denied_in_iff:
  assumes inv: "deny_inv E s" and "\<And>q. q \<in> set ps \<Longrightarrow> regions s q \<noteq> None"
  shows "hook_denied_in E s name ps = Some (\<exists>q \<in> set ps. name \<in> denied_hook_names s q)"
  using assms(2)
proof (induction ps)
  case (Cons q qs)
  obtain r where r: "regions s q = Some r" using Cons.prems by fastforce
  have "dset s q False = Some (re_denied_hooks_set r, KStr ` set (re_denied_hooks r))"
    using r by (simp add: dset_def deny_set_def)
  from inv [unfolded deny_inv_def, THEN conjunct1, rule_format, OF this]
  have "(re_denied_hooks_set r \<noteq> 0 \<and> KStr name \<in> dom (tbl_get E s (re_denied_hooks_set r))) \<longleftrightarrow>
      name \<in> set (re_denied_hooks r)"
    by (cases "re_denied_hooks_set r = 0") (simp_all add: set_agrees_def image_iff)
  then have "hook_denied_in E s name (q # qs) =
      (if name \<in> set (re_denied_hooks r) then Some True else hook_denied_in E s name qs)"
    using r by (simp add: domIff)
  with Cons r show ?case by (simp add: denied_hook_names_def)
qed simp

lemma deny_gate_iff:
  assumes wf: "tree_wf s" and k: "r_key s p = Some k" and inv: "deny_inv E s" and fl: "flags_ok s"
  shows "deny_gate E s name (rev (ancestors s p)) =
     Some (\<exists>q \<in> set (ancestors s p) - {p}. name \<in> denied_hook_names s q)"
proof -
  obtain x where "r_parent s p = Some x" using k by (auto simp: r_key_def r_parent_def)
  from ancestors_unfold [OF wf this] obtain es where es: "ancestors s p = p # es" by blast
  have strict: "set (ancestors s p) - {p} = set es" using ancestors_distinct [OF wf k] es by auto
  have ex: "regions s q \<noteq> None" if "q \<in> set (ancestors s p)" for q
    using ancestors_contain [OF wf k that] by (auto simp: r_key_def)
  let ?root = "last (ancestors s p)"
  obtain r where r: "regions s ?root = Some r" "re_parent r = None"
    using ancestors_last [OF wf k] by (auto simp: r_parent_def)
  obtain rest where rest: "rev (ancestors s p) = ?root # rest"
    using es by (metis append_butlast_last_id list.distinct(1) rev.simps(2) rev_eq_Cons_iff rev_swap)
  have bl: "butlast (rev (ancestors s p)) = rev es" using es by simp
  have den: "hook_denied_in E s name (rev es) = Some (\<exists>q \<in> set es. name \<in> denied_hook_names s q)"
    using hook_denied_in_iff [OF inv, of "rev es" name] ex es by simp
  have "deny_gate E s name (rev (ancestors s p)) =
      (if re_subtree_flags r AND XY_SUBTREE_SECURITY_MASK \<noteq> 0 then hook_denied_in E s name (rev es) else Some False)"
    using r(1) bl by (simp add: deny_gate_def rest)
  moreover have "\<not> (\<exists>q \<in> set es. name \<in> denied_hook_names s q)" if "re_subtree_flags r AND XY_SUBTREE_HAS_DENY = 0"
    using fl r that by (fastforce simp: flags_ok_def)
  ultimately show ?thesis using den strict by (auto simp: XY_SUBTREE_SECURITY_MASK_def)
qed


section \<open>The whole dispatch\<close>

text \<open>The state a dispatch expects.\<close>

definition disp_ready :: "'h env \<Rightarrow> 'h xy_state \<Rightarrow> bool" where
  "disp_ready E s \<longleftrightarrow>
     ready E s \<and> mods_wf s \<and> vec_ok s \<and> disp_inv E s \<and> ctx_live s \<and> flags_ok s \<and>
     length (xy_last_retbuf s) = XY_MAX_RET_SIZE"

text \<open>A registered adapter with its calling function, and a return buffer large enough for it.\<close>

definition adapter_ok :: "'h env \<Rightarrow> 'h xy_state \<Rightarrow> aptr \<Rightarrow> xy_adapter \<Rightarrow> fnptr \<Rightarrow> addr option \<Rightarrow> bool" where
  "adapter_ok E s reg a f retp \<longleftrightarrow>
     adapters s reg = Some a \<and> hook_reg E s (ad_name a) (ad_hook_id a) \<and> ad_call a = Some f \<and>
     ad_ret_size a \<le> XY_MAX_RET_SIZE \<and>
     (\<forall>x. retp = Some x \<longrightarrow> (\<exists>b. bufs s x = Some b \<and> ad_ret_size a \<le> length b))"

definition zeroed :: "addr option \<Rightarrow> nat \<Rightarrow> bufs \<Rightarrow> bufs" where
  "zeroed retp n b =
     (case retp of None \<Rightarrow> b | Some x \<Rightarrow> b(x := map_option (\<lambda>v. replicate n 0 @ drop n v) (b x)))"

definition frame_for ::
  "addr option \<Rightarrow> aptr \<Rightarrow> addr option \<Rightarrow> fnptr \<Rightarrow> xy_adapter \<Rightarrow> 'h xy_state \<Rightarrow> rptr \<Rightarrow> dispatch_frame" where
  "frame_for retp reg arg f a s p =
     \<lparr>df_retp = retp, df_reg = reg, df_arg = arg, df_call = f, df_hook_id = ad_hook_id a,
      df_region_id = xy_current_region_id s, df_caller = p, df_anc = rev (ancestors s p)\<rparr>"

lemma dispatch_unfold:
  assumes rd: "disp_ready E s" and cur: "xy_current_region_entry s = Some p" and a: "adapter_ok E s reg a f buf"
  shows "xy_dispatch E retp (Some reg) arg self s =
     (if \<exists>q \<in> set (ancestors s p) - {p}. ad_name a \<in> denied_hook_names s q
      then dispatch_fail XY_ERR_EPERM retp reg s
      else do { (l, s3) \<leftarrow> (if self then self_scope E (frame_for retp reg arg f a s p) (xy_last_publish 0 retp reg s)
                            else subtree_scope E (frame_for retp reg arg f a s p) (xy_last_publish 0 retp reg s));
                case l of Inl err \<Rightarrow> dispatch_fail err retp reg s3 | Inr n \<Rightarrow> dispatch_finish n retp reg s3 })"
proof -
  have wf: "tree_wf s" "xy_inited (xy_rt s)" "current_wf s" and di: "deny_inv E s" "flags_ok s" "hooks_wf E s"
    using rd readyD [of E s] by (auto simp: disp_ready_def disp_inv_def)
  obtain k where k: "r_key s p = Some k" using wf(3) cur by (auto simp: current_wf_def)
  have "0 \<le> ad_hook_id a" using a di(3) unfolding adapter_ok_def hooks_wf_def by blast
  then have hook: "dispatch_hook E reg s = Some (Inr (ad_hook_id a, f), s)"
    using a by (simp add: dispatch_hook_def adopt_hook_id_def adapter_ok_def)
  have "region_ancestor_chain s p 65 = Some (rev (ancestors s p))"
    using region_ancestor_chain_eq [OF wf(1) k, of 65] ancestors_chain(2) [OF wf(1) k] by simp
  moreover obtain pl where "region_current_plen s = Some pl"
    using k cur by (auto simp: region_current_plen_def r_key_def)
  moreover have "adapters s reg = Some a" using a by (simp add: adapter_ok_def)
  moreover note deny_gate_iff [OF wf(1) k di(1,2), of "ad_name a"]
  ultimately show ?thesis
    using wf(2) cur hook by (auto simp: xy_dispatch_def frame_for_def)
qed


lemma finish_ok:
  fixes n :: nat
  assumes a: "adapters s reg = Some a" "ad_ret_size a \<le> XY_MAX_RET_SIZE"
    and buf: "length (xy_last_retbuf s) = XY_MAX_RET_SIZE"
      "\<And>x. retp = Some x \<Longrightarrow> \<exists>b. bufs s x = Some b \<and> ad_ret_size a \<le> length b"
  defines "rc \<equiv> (if n = 0 then XY_ERR_NOTFOUND else XY_OK)"
  shows "\<exists>t. dispatch_finish n retp reg s = Some (rc, t) \<and> xy_err_val t = rc \<and> xy_last_ran t = n \<and>
     bufs t = (if n = 0 then zeroed retp (ad_ret_size a) (bufs s) else bufs s) \<and>
     xy_current_region_entry t = xy_current_region_entry s \<and> xy_current_region_id t = xy_current_region_id s \<and>
     regions t = regions s \<and> mods t = mods s \<and> xy_global t = xy_global s \<and> xy_rt t = xy_rt s \<and>
     adapters t = adapters s \<and> length (xy_last_retbuf t) = XY_MAX_RET_SIZE \<and>
     (\<forall>x. n \<noteq> 0 \<longrightarrow> retp = Some x \<longrightarrow> 0 < ad_ret_size a \<longrightarrow> xy_last_retp t = Some Last_Retbuf \<and>
        take (ad_ret_size a) (xy_last_retbuf t) = take (ad_ret_size a) (the (bufs s x)))"
proof (cases retp)
  case None
  with a(1) buf(1) show ?thesis
    by (auto simp: dispatch_finish_def xy_set_last_ret_def xy_zero_ret_def fail_with_def set_err_def zeroed_def rc_def)
next
  case (Some x)
  then obtain b where b: "bufs s x = Some b" "ad_ret_size a \<le> length b" using buf(2) by blast
  show ?thesis
  proof (cases "n = 0")
    case True
    with Some a(1) buf(1) b show ?thesis
      by (auto simp: dispatch_finish_def xy_set_last_ret_def xy_zero_ret_def fail_with_def set_err_def
          zeroed_def rc_def buf_write_def)
  next
    case False
    let ?n = "ad_ret_size a"
    have "8 \<le> XY_MAX_RET_SIZE" by (simp add: XY_MAX_RET_SIZE_def)
    with False Some a buf(1) b show ?thesis
      by (cases "0 < ?n"; cases "?n \<le> 8")
         (auto simp: dispatch_finish_def xy_set_last_ret_def fail_with_def set_err_def rc_def buf_read_def Let_def)
  qed
qed

lemma eff_shape:
  assumes "quiet E eff"
  shows "map_option length (fold (slot_eff eff F) sls b x) = map_option length (b x)"
proof (induction sls arbitrary: b)
  case (Cons sl sls)
  then show ?case using assms by (simp add: quiet_def slot_eff_def)
qed simp

end
