(* ===== verification/Xy_Repeat.thy ===== *)
theory Xy_Repeat
  imports Xy_Call
begin

text \<open>
  What a dispatch leaves behind: the state after a call is again one a dispatch may start from,
  the vector it stocked for its hook is the right one, and a second call finds it.
\<close>

section \<open>What a dispatch may change\<close>

text \<open>In a region's entry: the stocked vectors and the module vector.\<close>

definition same_reg :: "xy_region_entry \<Rightarrow> xy_region_entry \<Rightarrow> bool" where
  "same_reg r r' \<longleftrightarrow>
     (\<exists>d v c b. r' = r\<lparr>re_hook_dispatch := d, re_subtree_mods := v, re_subtree_mods_cap := c,
        re_subtree_mods_dirty := b\<rparr>)"

lemma same_regD:
  "same_reg r r' \<Longrightarrow> key_of r' = key_of r \<and> re_parent r' = re_parent r \<and> re_depth r' = re_depth r \<and>
     re_children_head r' = re_children_head r \<and> re_sibling_next r' = re_sibling_next r \<and>
     re_dispatch_gen r' = re_dispatch_gen r \<and> re_mods_head r' = re_mods_head r \<and>
     re_mods_tail r' = re_mods_tail r \<and> deny_set b r' = deny_set b r \<and>
     re_denied_modules r' = re_denied_modules r \<and> re_denied_hooks r' = re_denied_hooks r \<and>
     re_subtree_flags r' = re_subtree_flags r"
  by (auto simp: same_reg_def key_of_def deny_set_def)

lemma same_regI:
  "r' = r\<lparr>re_hook_dispatch := d, re_subtree_mods := v, re_subtree_mods_cap := c, re_subtree_mods_dirty := b\<rparr> \<Longrightarrow>
     same_reg r r'"
  unfolding same_reg_def by blast

lemma same_reg_refl [simp]: "same_reg r r"
  by (rule same_regI [where d = "re_hook_dispatch r" and v = "re_subtree_mods r" and c = "re_subtree_mods_cap r" and b = "re_subtree_mods_dirty r"])
     simp

lemma same_reg_trans: "same_reg x y \<Longrightarrow> same_reg y z \<Longrightarrow> same_reg x z"
  by (force simp: same_reg_def)

text \<open>In the state: besides those, the modules' caches and what one call reports to its caller.\<close>

definition call_kept :: "'h xy_state \<Rightarrow> 'h xy_state \<Rightarrow> bool" where
  "call_kept s t \<longleftrightarrow>
     (\<forall>q. rel_option same_reg (regions s q) (regions t q)) \<and> (\<forall>m. rel_option same_mod (mods s m) (mods t m)) \<and>
     st_corm t = st_corm s \<and> xy_rt t = xy_rt s \<and> adapters t = adapters s \<and> dom (ctxs t) = dom (ctxs s) \<and>
     xy_current_region_entry t = xy_current_region_entry s \<and> xy_current_region_id t = xy_current_region_id s \<and>
     next_addr s \<le> next_addr t \<and> length (xy_last_retbuf t) = length (xy_last_retbuf s)"

lemma rel_option_refl_reg [simp]: "rel_option same_reg x x"
  by (cases x) auto

lemma call_kept_trans: "call_kept s t \<Longrightarrow> call_kept t u \<Longrightarrow> call_kept s u"
proof -
  have "rel_option same_reg x z" if "rel_option same_reg x y" "rel_option same_reg y z" for x y z
    using that same_reg_trans by (auto elim!: option.rel_cases)
  then show "call_kept s t \<Longrightarrow> call_kept t u \<Longrightarrow> call_kept s u"
    using same_mod_rel_trans unfolding call_kept_def by (smt (verit) le_trans)
qed

lemma call_kept_run: "run_frame s t \<Longrightarrow> call_kept s t"
  using run_frame_same [of s t] by (simp add: call_kept_def)

lemma call_kept_disp: "disp_frame p s t \<Longrightarrow> call_kept s t"
proof -
  assume fr: "disp_frame p s t"
  have "rel_option same_reg (regions s q) (regions t q)" for q
  proof -
    obtain f where f: "regions t q = map_option (\<lambda>r. r\<lparr>re_hook_dispatch := f r\<rparr>) (regions s q)"
      using disp_frame_reg [OF fr] by blast
    have "same_reg r (r\<lparr>re_hook_dispatch := d\<rparr>)" for r d
      by (rule same_regI [where d = d and v = "re_subtree_mods r" and c = "re_subtree_mods_cap r" and b = "re_subtree_mods_dirty r"]) simp
    with f show ?thesis by (cases "regions s q") simp_all
  qed
  with fr disp_frame_same [OF fr] show ?thesis by (simp add: call_kept_def disp_frame_def)
qed

lemma call_kept_vec: "call_kept s (upd_reg p (vec_set L cap) s)"
proof -
  have "same_reg r (vec_set L cap r)" for r
    by (rule same_regI [where d = "re_hook_dispatch r" and v = L and c = cap and b = False]) (simp add: vec_set_def)
  then have "rel_option same_reg (regions s q) (regions (upd_reg p (vec_set L cap) s) q)" for q
    by (cases "q = p"; cases "regions s q") (simp_all add: heap_simps)
  then show ?thesis by (simp add: call_kept_def heap_simps) (simp add: upd_reg_def)
qed


section \<open>What it leaves alone\<close>

lemma call_kept_reg:
  assumes "call_kept s t"
  shows "regions t q = None \<longleftrightarrow> regions s q = None" "regions t q = Some r' \<Longrightarrow> \<exists>r. regions s q = Some r \<and> same_reg r r'"
    "(\<And>r r'. same_reg r r' \<Longrightarrow> f r' = f r) \<Longrightarrow> map_option f (regions t q) = map_option f (regions s q)"
proof -
  have "rel_option same_reg (regions s q) (regions t q)" using assms by (simp add: call_kept_def)
  then show "regions t q = None \<longleftrightarrow> regions s q = None" "regions t q = Some r' \<Longrightarrow> \<exists>r. regions s q = Some r \<and> same_reg r r'"
    "(\<And>r r'. same_reg r r' \<Longrightarrow> f r' = f r) \<Longrightarrow> map_option f (regions t q) = map_option f (regions s q)"
    by (auto elim!: option.rel_cases)
qed

lemma call_kept_mod:
  assumes "call_kept s t"
  shows "mods t m = None \<longleftrightarrow> mods s m = None" "mods t m = Some e' \<Longrightarrow> \<exists>e. mods s m = Some e \<and> same_mod e e'"
    "(\<And>e e'. same_mod e e' \<Longrightarrow> g e' = g e) \<Longrightarrow> map_option g (mods t m) = map_option g (mods s m)"
proof -
  have "rel_option same_mod (mods s m) (mods t m)" using assms by (simp add: call_kept_def)
  then show "mods t m = None \<longleftrightarrow> mods s m = None" "mods t m = Some e' \<Longrightarrow> \<exists>e. mods s m = Some e \<and> same_mod e e'"
    "(\<And>e e'. same_mod e e' \<Longrightarrow> g e' = g e) \<Longrightarrow> map_option g (mods t m) = map_option g (mods s m)"
    by (auto elim!: option.rel_cases)
qed

lemma call_kept_same:
  assumes "call_kept s t"
  shows "st_corm t = st_corm s" "xy_rt t = xy_rt s" "adapters t = adapters s" "dom (ctxs t) = dom (ctxs s)"
    "xy_current_region_entry t = xy_current_region_entry s" "xy_current_region_id t = xy_current_region_id s"
    "next_addr s \<le> next_addr t" "length (xy_last_retbuf t) = length (xy_last_retbuf s)"
  using assms by (simp_all add: call_kept_def)

lemma call_kept_views:
  assumes k: "call_kept s t"
  shows "r_key t = r_key s" "r_parent t = r_parent s" "r_depth t = r_depth s" "r_head t = r_head s"
    "sib_next t = sib_next s" "r_gen t = r_gen s" "ancestors t = ancestors s" "subtree t = subtree s"
    "mods_of t = mods_of s" "vec_for t = vec_for s" "denied_hook_names t = denied_hook_names s"
    "denied_mods t = denied_mods s" "dset t = dset s"
proof -
  note map = call_kept_reg(3) [OF k] and mmap = call_kept_mod(3) [OF k]
  show v: "r_key t = r_key s" "r_parent t = r_parent s" "r_depth t = r_depth s" "r_head t = r_head s"
    "sib_next t = sib_next s" "r_gen t = r_gen s"
    unfolding fun_eq_iff r_key_def r_parent_def r_depth_def r_head_def sib_next_def r_gen_def
    by (intro allI map; simp add: same_regD)+
  have "ancestor_loop t n x = ancestor_loop s n x" for n x
  proof (induction n arbitrary: x)
    case 0
    then show ?case by (cases x) auto
  next
    case (Suc n)
    show ?case
    proof (cases x)
      case (Some q)
      have "map_option re_parent (regions t q) = map_option re_parent (regions s q)"
        by (rule map) (simp add: same_regD)
      with Some Suc show ?thesis by (cases "regions s q"; cases "regions t q") auto
    qed simp
  qed
  then show an: "ancestors t = ancestors s" by (simp add: fun_eq_iff ancestors_def)
  show sub: "subtree t = subtree s" by (simp add: fun_eq_iff subtree_def v an)
  have nx: "mod_next t = mod_next s" "mod_prev t = mod_prev s" "mod_region t = mod_region s"
    unfolding fun_eq_iff mod_next_def mod_prev_def mod_region_def by (intro allI mmap; simp add: same_modD)+
  have "(\<exists>r. regions t q = Some r \<and> P (re_mods_head r) (re_mods_tail r)) \<longleftrightarrow>
      (\<exists>r. regions s q = Some r \<and> P (re_mods_head r) (re_mods_tail r))" for q P
  proof -
    have "map_option (\<lambda>r. (re_mods_head r, re_mods_tail r)) (regions t q) =
        map_option (\<lambda>r. (re_mods_head r, re_mods_tail r)) (regions s q)"
      by (rule map) (simp add: same_regD)
    then show ?thesis by (cases "regions s q"; cases "regions t q") auto
  qed
  from this [of _ "\<lambda>h tl. chain (mod_next s) h ms \<and> chain (mod_prev s) tl (rev ms)" for ms]
  show mo: "mods_of t = mods_of s" by (simp add: fun_eq_iff mods_of_def nx)
  show "vec_for t = vec_for s"
    using preorder_cong [OF mo v(4,5)] by (simp add: fun_eq_iff vec_for_def mods_in_def mo sub)
  show "denied_hook_names t = denied_hook_names s" "denied_mods t = denied_mods s"
  proof -
    have "map_option (\<lambda>r. (re_denied_hooks r, re_denied_modules r)) (regions t q) =
        map_option (\<lambda>r. (re_denied_hooks r, re_denied_modules r)) (regions s q)" for q
      by (rule map) (simp add: same_regD)
    note m = this
    have "denied_hook_names t q = denied_hook_names s q \<and> denied_mods t q = denied_mods s q" for q
      using m [of q] by (cases "regions s q"; cases "regions t q") (auto simp: denied_hook_names_def denied_mods_def)
    then show "denied_hook_names t = denied_hook_names s" "denied_mods t = denied_mods s" by auto
  qed
  show "dset t = dset s"
  proof (intro ext)
    fix q b
    have "map_option (deny_set b) (regions t q) = map_option (deny_set b) (regions s q)"
      by (rule map) (simp add: same_regD)
    then show "dset t q b = dset s q b" by (simp add: dset_def)
  qed
qed

lemma call_kept_hook_vec:
  assumes k: "call_kept s t"
  shows "hook_reg E t = hook_reg E s" "hook_vec E t = hook_vec E s"
proof -
  note same = call_kept_same [OF k]
  show "hook_reg E t = hook_reg E s"
    using tbl_get_cong [OF same(1)] by (simp add: fun_eq_iff hook_reg_def same)
  have "map_option (\<lambda>e. (me_ctx e, me_load_path e, me_handle e, me_region_entry e)) (mods t m) =
      map_option (\<lambda>e. (me_ctx e, me_load_path e, me_handle e, me_region_entry e)) (mods s m)" for m
    by (rule call_kept_mod(3) [OF k]) (simp add: same_modD)
  note map = this
  have "hears E t anc name m = hears E s anc name m \<and> hook_slot E t name m = hook_slot E s name m" for anc name m
    using map [of m]
    by (cases "mods s m"; cases "mods t m")
       (auto simp: hears_def hook_slot_def denied_anc_def hook_fn_def call_kept_views [OF k])
  then show "hook_vec E t = hook_vec E s"
    by (intro ext) (simp add: hook_vec_def cong: map_cong filter_cong)
qed

text \<open>The invariants that do not concern the caches.\<close>

lemma call_kept_ready:
  assumes k: "call_kept s t" and rd: "disp_ready E s" and t: "disp_inv E t" "vec_ok t"
  shows "disp_ready E t"
proof -
  note same = call_kept_same [OF k] and views = call_kept_views [OF k]
  note tab = tbl_get_cong [OF same(1)] tbl_single_cong [OF same(1)]
  have S: "tree_wf s" "mods_wf s" "ctx_live s" "flags_ok s" "length (xy_last_retbuf s) = XY_MAX_RET_SIZE"
      "xy_inited (xy_rt s)" "table_wf E s" "current_wf s" "\<And>p. r_gen s p \<noteq> Some 0"
    using rd by (simp_all add: disp_ready_def ready_def region_wf_def)
  have "tree_wf t" using S(1) same(7) unfolding tree_wf_def views by (meson order_less_le_trans)
  moreover have "table_wf E t" using S(7) by (simp add: table_wf_def tab same views)
  moreover have "current_wf t" using S(8) by (simp add: current_wf_def same views)
  ultimately have "ready E t" using S(6,9) by (simp add: ready_def region_wf_def same views)
  moreover have "mods_wf t"
    unfolding mods_wf_def views
  proof (intro conjI allI impI)
    fix p assume "regions t p \<noteq> None"
    then show "\<exists>ms. mods_of s p ms" using S(2) call_kept_reg(1) [OF k] by (simp add: mods_wf_def)
  next
    fix m assume "mods t m \<noteq> None"
    then have "m < next_addr s" using S(2) call_kept_mod(1) [OF k] by (simp add: mods_wf_def)
    then show "m < next_addr t" using same(7) by simp
  qed
  moreover have "ctx_live t"
    unfolding ctx_live_def
  proof (intro allI impI)
    fix m e' c assume "mods t m = Some e'" "me_ctx e' = Some c"
    with call_kept_mod(2) [OF k] same_modD obtain e where "mods s m = Some e" "me_ctx e = Some c" by metis
    then show "c \<in> dom (ctxs t)" using S(3) same(4) by (auto simp: ctx_live_def)
  qed
  moreover have "flags_ok t"
    unfolding flags_ok_def views
  proof (intro allI impI)
    fix q p r' assume q: "denied_hook_names s q \<noteq> {}" and r': "regions t p = Some r'" "re_parent r' = None"
    from call_kept_reg(2) [OF k r'(1)] obtain r where r: "regions s p = Some r" "same_reg r r'" by blast
    note eq = same_regD [OF r(2)]
    then have "re_parent r = None" using r'(2) by simp
    with q r(1) S(4) have "re_subtree_flags r AND XY_SUBTREE_HAS_DENY \<noteq> 0" unfolding flags_ok_def by blast
    with eq show "re_subtree_flags r' AND XY_SUBTREE_HAS_DENY \<noteq> 0" by simp
  qed
  ultimately show ?thesis using t S(5) same(8) by (simp add: disp_ready_def)
qed


section \<open>After the slots have run\<close>

text \<open>
  The scope has rebuilt the vector, stocked the hook and run the slots: the next call of this
  hook starts from a ready state, and the cell it finds holds the right slots.
\<close>

lemma scope_keeps:
  assumes rd: "disp_ready E s" and L: "vec_for s p L" and fr: "disp_frame p (upd_reg p (vec_set L cap) s) s1"
    and inv: "disp_inv E s1" and run: "run_frame s1 t"
    and c: "hook_cache s1 p h = Some c" "slots_of s1 c = hook_vec E s anc name L"
  shows "call_kept s t" "disp_ready E t" "cache_fresh E t p h name anc"
proof -
  let ?u = "upd_reg p (vec_set L cap) s"
  note k1 = call_kept_trans [OF call_kept_vec call_kept_disp [OF fr]] and eq = run_frame_inv [OF run]
  show k: "call_kept s t" using call_kept_trans [OF k1 call_kept_run [OF run]] .
  have reg: "(if q = p then re_subtree_mods r = L \<and> \<not> re_subtree_mods_dirty r
      else \<exists>r0. regions s q = Some r0 \<and> re_subtree_mods r = re_subtree_mods r0 \<and>
        re_subtree_mods_dirty r = re_subtree_mods_dirty r0)" if "regions s1 q = Some r" for q r
  proof -
    obtain f where "regions s1 q = map_option (\<lambda>r. r\<lparr>re_hook_dispatch := f r\<rparr>) (regions ?u q)"
      using disp_frame_reg [OF fr] by blast
    with that show ?thesis by (auto simp: heap_simps split: if_splits)
  qed
  have "vec_ok s1"
    unfolding vec_ok_def
  proof (intro allI impI)
    fix q r assume "regions s1 q = Some r" "\<not> re_subtree_mods_dirty r"
    with reg [of q r] L rd show "vec_for s1 q (re_subtree_mods r)"
      unfolding call_kept_views(10) [OF k1] by (auto simp: disp_ready_def vec_ok_def split: if_splits)
  qed
  with inv k rd show "disp_ready E t" by (intro call_kept_ready [OF k]) (simp_all add: eq)
  show "cache_fresh E t p h name anc"
    using c reg [of p] call_kept_hook_vec(2) [OF k1] unfolding eq by (auto simp: cache_fresh_def)
qed

lemma finish_data:
  assumes "dispatch_finish n retp reg s = Some (rc, t)"
  shows "t = s\<lparr>bufs := bufs t, xy_last_ran := xy_last_ran t, xy_last_retp := xy_last_retp t,
     xy_last_retbuf := xy_last_retbuf t, xy_err_val := xy_err_val t\<rparr>"
  using assms
  by (auto simp: dispatch_finish_def xy_set_last_ret_def xy_zero_ret_def fail_with_def set_err_def buf_write_def Let_def
      split: if_splits bind_splits option.splits)

lemma finish_keeps:
  assumes "dispatch_finish n retp reg s = Some (rc, t)" "disp_ready E s" "cache_fresh E s p h name anc"
    and "length (xy_last_retbuf t) = XY_MAX_RET_SIZE"
  shows "call_kept s t" "disp_ready E t" "cache_fresh E t p h name anc"
proof -
  have d: "regions t = regions s" "mods t = mods s" "slot_arrays t = slot_arrays s" "next_addr t = next_addr s"
    "st_corm t = st_corm s" "xy_rt t = xy_rt s" "ctxs t = ctxs s" "adapters t = adapters s"
    "xy_current_region_entry t = xy_current_region_entry s" "xy_current_region_id t = xy_current_region_id s"
    by (subst finish_data [OF assms(1)], simp)+
  then have "dom (ctxs t) = dom (ctxs s)" by simp
  note eq = data_inv [OF d(1-6) this]
  have "length (xy_last_retbuf s) = XY_MAX_RET_SIZE" using assms(2) by (simp add: disp_ready_def)
  with assms(4) d show k: "call_kept s t" by (simp add: call_kept_def)
  show "disp_ready E t" using call_kept_ready [OF k assms(2)] assms(2) by (simp add: eq disp_ready_def)
  show "cache_fresh E t p h name anc" using assms(3) by (simp add: eq)
qed

end
