(* ===== verification/Xy_Dispatch_Props.thy ===== *)
theory Xy_Dispatch_Props
  imports Xy_Repeat
begin

text \<open>
  The properties of dispatch, with their applications to a process that has one module
  listening to one hook.
\<close>

section \<open>Both scopes\<close>

lemma disp_readyD:
  assumes "disp_ready E s" "xy_current_region_entry s = Some p"
  shows "tree_wf s" "mods_wf s" "vec_ok s" "disp_inv E s" "ctx_live s" "walk_inv E s"
    "\<exists>k. r_key s p = Some k" "r_gen s p \<noteq> Some 0" "q \<in> set (ancestors s p) \<Longrightarrow> regions s q \<noteq> None"
    "length (xy_last_retbuf s) = XY_MAX_RET_SIZE"
proof -
  show wf: "tree_wf s" "mods_wf s" "vec_ok s" "disp_inv E s" "ctx_live s"
      "length (xy_last_retbuf s) = XY_MAX_RET_SIZE"
    using assms(1) readyD by (auto simp: disp_ready_def)
  then show "walk_inv E s" by (simp add: walk_inv_def disp_inv_def)
  have "ready E s" using assms(1) by (simp add: disp_ready_def)
  from readyD(1,5) [OF this] show k: "\<exists>k. r_key s p = Some k" "r_gen s p \<noteq> Some 0"
    using assms(2) by (auto simp: current_wf_def region_wf_def)
  show "q \<in> set (ancestors s p) \<Longrightarrow> regions s q \<noteq> None"
    using k(1) ancestors_contain [OF wf(1)] by (fastforce simp: r_key_def)
qed

text \<open>The effect of the callbacks of a list of slots, one after the other.\<close>

definition run_all ::
  "(fnptr \<Rightarrow> addr option \<Rightarrow> fn_slot \<Rightarrow> addr option \<Rightarrow> bufs \<Rightarrow> bufs) \<Rightarrow> fnptr \<Rightarrow> addr option \<Rightarrow> addr option \<Rightarrow>
     xy_dispatch_slot list \<Rightarrow> bufs \<Rightarrow> bufs" where
  "run_all eff f retp arg sls b = fold (\<lambda>sl. eff f retp (sl_cb sl) arg) sls b"

lemma run_all_frame: "fold (slot_eff eff (frame_for retp reg arg f a s p)) sls b = run_all eff f retp arg sls b"
  by (simp add: run_all_def slot_eff_def [abs_def] frame_for_def)

text \<open>How a dispatch ends, when its scope has run the slots of a vector.\<close>

definition disp_outcome ::
  "addr option \<Rightarrow> nat \<Rightarrow> xy_dispatch_slot list \<Rightarrow> bufs \<Rightarrow> 'h xy_state \<Rightarrow> int \<Rightarrow> 'h xy_state \<Rightarrow> bool" where
  "disp_outcome retp n vec b s rc t \<longleftrightarrow>
     rc = (if vec = [] then XY_ERR_NOTFOUND else XY_OK) \<and> xy_err_val t = rc \<and>
     xy_last_ran t = length vec \<and>
     bufs t = (if vec = [] then zeroed retp n (bufs s) else b) \<and>
     xy_current_region_entry t = xy_current_region_entry s \<and>
     xy_current_region_id t = xy_current_region_id s"

lemma finish_outcome:
  assumes q: "quiet E eff" and a: "adapter_ok E s reg a f retp"
    and u: "adapters u = adapters s" "bufs u = run_all eff f retp arg vec (bufs s)"
      "length (xy_last_retbuf u) = XY_MAX_RET_SIZE" "xy_current_region_entry u = xy_current_region_entry s"
      "xy_current_region_id u = xy_current_region_id s"
  shows "\<exists>rc t. dispatch_finish (length vec) retp reg u = Some (rc, t) \<and>
     disp_outcome retp (ad_ret_size a) vec (run_all eff f retp arg vec (bufs s)) s rc t \<and> xy_global t = xy_global u \<and>
     adapters t = adapters u \<and> xy_rt t = xy_rt u \<and>
     (\<forall>x. vec \<noteq> [] \<longrightarrow> retp = Some x \<longrightarrow> 0 < ad_ret_size a \<longrightarrow> xy_last_retp t = Some Last_Retbuf \<and>
        take (ad_ret_size a) (xy_last_retbuf t) = take (ad_ret_size a) (the (bufs t x))) \<and>
     length (xy_last_retbuf t) = XY_MAX_RET_SIZE"
proof -
  have ad: "adapters u reg = Some a" "ad_ret_size a \<le> XY_MAX_RET_SIZE" using a u(1) by (simp_all add: adapter_ok_def)
  have "\<exists>b. bufs u x = Some b \<and> ad_ret_size a \<le> length b" if x: "retp = Some x" for x
  proof -
    obtain b where b: "bufs s x = Some b" "ad_ret_size a \<le> length b" using a x by (auto simp: adapter_ok_def)
    have "map_option length (bufs u x) = map_option length (bufs s x)"
      using eff_shape [OF q, of "frame_for retp reg arg f a s 0" vec "bufs s" x] u(2) by (simp add: run_all_frame)
    with b show ?thesis by (cases "bufs u x") auto
  qed
  from finish_ok [OF ad u(3) this, where n = "length vec"] obtain rc t where
    t: "dispatch_finish (length vec) retp reg u = Some (rc, t)"
      "rc = (if length vec = 0 then XY_ERR_NOTFOUND else XY_OK)" "xy_err_val t = rc" "xy_last_ran t = length vec"
      "bufs t = (if length vec = 0 then zeroed retp (ad_ret_size a) (bufs u) else bufs u)"
      "xy_current_region_entry t = xy_current_region_entry u" "xy_current_region_id t = xy_current_region_id u"
      "xy_global t = xy_global u" "xy_rt t = xy_rt u" "adapters t = adapters u"
      "length (xy_last_retbuf t) = XY_MAX_RET_SIZE"
      "\<And>x. length vec \<noteq> 0 \<Longrightarrow> retp = Some x \<Longrightarrow> 0 < ad_ret_size a \<Longrightarrow> xy_last_retp t = Some Last_Retbuf \<and>
        take (ad_ret_size a) (xy_last_retbuf t) = take (ad_ret_size a) (the (bufs u x))"
    by blast
  moreover have "vec = [] \<Longrightarrow> bufs u = bufs s" using u(2) by (simp add: run_all_def)
  ultimately show ?thesis using u by (auto simp: disp_outcome_def)
qed

lemma call_scope:
  assumes mem: "never_oom E" and q: "quiet E eff" and rd: "disp_ready E s"
    and cur: "xy_current_region_entry s = Some p" and a: "adapter_ok E s reg a f buf"
    and nd: "\<And>q. q \<in> set (ancestors s p) - {p} \<Longrightarrow> ad_name a \<notin> denied_hook_names s q"
    and fresh: "cache_fresh E s p (ad_hook_id a) (ad_name a) (rev (ancestors s p))"
  defines "vec L \<equiv> hook_vec E s (rev (ancestors s p)) (ad_name a) L"
  shows "\<exists>L t. vec_for s p L \<and> xy_call E retp (Some reg) arg s = dispatch_finish (length (vec L)) retp reg t \<and>
     adapters t = adapters s \<and> bufs t = run_all eff f retp arg (vec L) (bufs s) \<and>
     length (xy_last_retbuf t) = XY_MAX_RET_SIZE \<and> xy_current_region_entry t = xy_current_region_entry s \<and>
     xy_current_region_id t = xy_current_region_id s \<and> cx_adapter (xy_global t) = Some reg \<and> xy_rt t = xy_rt s \<and>
     call_kept s t \<and> disp_ready E t \<and> cache_fresh E t p (ad_hook_id a) (ad_name a) (rev (ancestors s p))"
proof -
  let ?F = "frame_for retp reg arg f a s p" and ?s2 = "xy_last_publish 0 retp reg s"
  note D = disp_readyD [OF rd cur] and inv2 = run_frame_inv [OF publish_frame(1) [of s 0 retp reg]]
    and same2 = run_frame_same [OF publish_frame(1) [of s 0 retp reg]]
  obtain k where k: "r_key s p = Some k" using D(7) by blast
  have F: "df_caller ?F = p" "df_reg ?F = reg" "df_hook_id ?F = ad_hook_id a" "df_retp ?F = retp"
    "df_anc ?F = rev (ancestors s p)" "df_region_id ?F = xy_current_region_id s" by (simp_all add: frame_for_def)
  have ad: "adapters s reg = Some a" "hook_reg E s (ad_name a) (ad_hook_id a)" using a by (simp_all add: adapter_ok_def)
  have pre: "tree_wf ?s2" "mods_wf ?s2" "vec_ok ?s2" "disp_inv E ?s2" "ctx_live ?s2" "r_key ?s2 p = Some k"
      "r_gen ?s2 p \<noteq> Some 0" "adapters ?s2 (df_reg ?F) = Some a" "hook_reg E ?s2 (ad_name a) (df_hook_id ?F)"
      "cache_fresh E ?s2 p (df_hook_id ?F) (ad_name a) (df_anc ?F)" "xy_current_region_id ?s2 = df_region_id ?F"
      "\<And>q. q \<in> set (df_anc ?F) \<Longrightarrow> regions ?s2 q \<noteq> None"
    using D k ad fresh by (simp_all add: inv2 same2 F)
  obtain L cap s1 t c where t: "vec_for ?s2 p L"
    "subtree_scope E ?F ?s2 = Some (Inr (length (hook_vec E ?s2 (df_anc ?F) (ad_name a) L)), t)"
    "bufs t = fold (slot_eff eff ?F) (hook_vec E ?s2 (df_anc ?F) (ad_name a) L) (bufs ?s2)"
    "disp_frame p (upd_reg p (vec_set L cap) ?s2) s1" "run_frame s1 t"
    "disp_inv E s1" "hook_cache s1 p (df_hook_id ?F) = Some c"
    "slots_of s1 c = hook_vec E ?s2 (df_anc ?F) (ad_name a) L"
    "published (length (hook_vec E ?s2 (df_anc ?F) (ad_name a) L)) retp reg t"
    using subtree_scope_ok [OF mem q pre(1-5) F(1) pre(6-9,12,10,11)] by (auto simp: F)
  have pub: "cx_adapter (xy_global t) = Some reg" using t(9) by (simp add: published_def)
  have k2: "call_kept s ?s2" by (rule call_kept_run) (rule publish_frame)
  have "disp_ready E ?s2"
    using rd D pre(1-5) by (intro call_kept_ready [OF k2 rd]) simp_all
  from scope_keeps [OF this t(1,4,6,5,7,8)]
  have keep: "call_kept s t" "disp_ready E t" "cache_fresh E t p (ad_hook_id a) (ad_name a) (rev (ancestors s p))"
    using call_kept_trans [OF k2] by (simp_all add: F)
  have vec: "hook_vec E ?s2 (df_anc ?F) (ad_name a) L = vec L" by (simp add: inv2 F vec_def)
  note fr = disp_frame_same [OF t(4)] and same = run_frame_same [OF t(5)]
  have u: "adapters t = adapters s" "bufs t = run_all eff f retp arg (vec L) (bufs s)"
      "xy_current_region_entry t = xy_current_region_entry s" "xy_current_region_id t = xy_current_region_id s"
      "xy_rt t = xy_rt s"
    using fr same same2 t(3) vec by (simp_all add: heap_simps run_all_frame publish_frame)
  have rb: "length (xy_last_retbuf t) = XY_MAX_RET_SIZE"
    using D(10) fr(11) same(11) same2(11) by (simp add: upd_reg_def)
  have "xy_call E retp (Some reg) arg s = dispatch_finish (length (vec L)) retp reg t"
    using nd t(2) vec by (auto simp: xy_call_def dispatch_unfold [OF rd cur a])
  with t(1) u rb pub keep show ?thesis by (auto simp: inv2)
qed

lemma call_ok:
  assumes mem: "never_oom E" and q: "quiet E eff" and rd: "disp_ready E s"
    and cur: "xy_current_region_entry s = Some p" and a: "adapter_ok E s reg a f retp"
    and nd: "\<And>q. q \<in> set (ancestors s p) - {p} \<Longrightarrow> ad_name a \<notin> denied_hook_names s q"
    and fresh: "cache_fresh E s p (ad_hook_id a) (ad_name a) (rev (ancestors s p))"
  defines "vec L \<equiv> hook_vec E s (rev (ancestors s p)) (ad_name a) L"
  shows "\<exists>L rc t. vec_for s p L \<and> xy_call E retp (Some reg) arg s = Some (rc, t) \<and>
     disp_outcome retp (ad_ret_size a) (vec L) (run_all eff f retp arg (vec L) (bufs s)) s rc t \<and>
     (\<forall>x. vec L \<noteq> [] \<longrightarrow> retp = Some x \<longrightarrow> 0 < ad_ret_size a \<longrightarrow> xy_last_retp t = Some Last_Retbuf \<and>
        take (ad_ret_size a) (xy_last_retbuf t) = take (ad_ret_size a) (the (bufs t x))) \<and>
     cx_adapter (xy_global t) = Some reg \<and> adapters t = adapters s \<and> xy_rt t = xy_rt s \<and>
     length (xy_last_retbuf t) = XY_MAX_RET_SIZE \<and>
     call_kept s t \<and> disp_ready E t \<and> cache_fresh E t p (ad_hook_id a) (ad_name a) (rev (ancestors s p))"
proof -
  from call_scope [OF mem q rd cur a nd fresh, of retp arg] obtain L t where
    t: "vec_for s p L" "xy_call E retp (Some reg) arg s = dispatch_finish (length (vec L)) retp reg t"
      "adapters t = adapters s" "bufs t = run_all eff f retp arg (vec L) (bufs s)"
      "length (xy_last_retbuf t) = XY_MAX_RET_SIZE" "xy_current_region_entry t = xy_current_region_entry s"
      "xy_current_region_id t = xy_current_region_id s" "cx_adapter (xy_global t) = Some reg" "xy_rt t = xy_rt s"
      "call_kept s t" "disp_ready E t" "cache_fresh E t p (ad_hook_id a) (ad_name a) (rev (ancestors s p))"
    unfolding vec_def by blast
  from finish_outcome [OF q a t(3-7)] obtain rc u where
    u: "dispatch_finish (length (vec L)) retp reg t = Some (rc, u)"
      "disp_outcome retp (ad_ret_size a) (vec L) (run_all eff f retp arg (vec L) (bufs s)) s rc u"
      "xy_global u = xy_global t" "adapters u = adapters t" "xy_rt u = xy_rt t"
      "\<forall>x. vec L \<noteq> [] \<longrightarrow> retp = Some x \<longrightarrow> 0 < ad_ret_size a \<longrightarrow> xy_last_retp u = Some Last_Retbuf \<and>
        take (ad_ret_size a) (xy_last_retbuf u) = take (ad_ret_size a) (the (bufs u x))"
      "length (xy_last_retbuf u) = XY_MAX_RET_SIZE" by blast
  from finish_keeps [OF u(1) t(11,12) u(7)] call_kept_trans [OF t(10)]
  have "call_kept s u" "disp_ready E u" "cache_fresh E u p (ad_hook_id a) (ad_name a) (rev (ancestors s p))" by blast+
  with t(1-3,8,9) u show ?thesis by (intro exI [of _ L] exI [of _ rc] exI [of _ u]) simp
qed

text \<open>A host that calls one hook again and again, with one argument after the other.\<close>

fun call_each ::
  "'h env \<Rightarrow> addr option \<Rightarrow> aptr \<Rightarrow> addr option list \<Rightarrow> 'h xy_state \<Rightarrow> (int list \<times> 'h xy_state) option" where
  "call_each E retp reg [] s = Some ([], s)"
| "call_each E retp reg (arg # args) s =
     do { (rc, t) \<leftarrow> xy_call E retp (Some reg) arg s;
          (rcs, u) \<leftarrow> call_each E retp reg args t;
          Some (rc # rcs, u) }"

text \<open>What one call with no listeners or with those of the vector does to the buffers.\<close>

definition call_bufs ::
  "(fnptr \<Rightarrow> addr option \<Rightarrow> fn_slot \<Rightarrow> addr option \<Rightarrow> bufs \<Rightarrow> bufs) \<Rightarrow> fnptr \<Rightarrow> addr option \<Rightarrow> nat \<Rightarrow>
     xy_dispatch_slot list \<Rightarrow> addr option \<Rightarrow> bufs \<Rightarrow> bufs" where
  "call_bufs eff f retp n vec arg b =
     (if vec = [] then zeroed retp n b else fold (\<lambda>sl. eff f retp (sl_cb sl) arg) vec b)"

lemma outcome_adapter:
  assumes q: "quiet E eff" and a: "adapter_ok E s reg a f retp" and k: "call_kept s t"
    and o: "disp_outcome retp (ad_ret_size a) vec (run_all eff f retp arg vec (bufs s)) s rc t"
  shows "adapter_ok E t reg a f retp"
proof -
  have "\<exists>b. bufs t x = Some b \<and> ad_ret_size a \<le> length b" if x: "retp = Some x" for x
  proof -
    obtain b where b: "bufs s x = Some b" "ad_ret_size a \<le> length b" using a x by (auto simp: adapter_ok_def)
    have "map_option length (bufs t x) = map_option length (bufs s x)"
      using eff_shape [OF q, of "frame_for retp reg arg f a s 0" vec "bufs s" x] o b x
      by (cases "vec = []") (simp_all add: disp_outcome_def run_all_frame zeroed_def)
    with b show ?thesis by (cases "bufs t x") auto
  qed
  with a call_kept_same(3) [OF k] call_kept_hook_vec(1) [OF k] show ?thesis by (simp add: adapter_ok_def)
qed

lemma last_map_const: "xs \<noteq> [] \<Longrightarrow> last (map (\<lambda>_. c) xs) = c"
  by (simp add: last_map)

text \<open>The calls all run the one vector.\<close>

lemma call_each_ok:
  assumes mem: "never_oom E" and q: "quiet E eff"
    and "disp_ready E s" "xy_current_region_entry s = Some p" "adapter_ok E s reg a f retp"
    and "\<And>q. q \<in> set (ancestors s p) - {p} \<Longrightarrow> ad_name a \<notin> denied_hook_names s q"
    and "cache_fresh E s p (ad_hook_id a) (ad_name a) (rev (ancestors s p))"
    and "vec_for s p L" "vec = hook_vec E s (rev (ancestors s p)) (ad_name a) L"
  shows "\<exists>t. call_each E retp reg args s =
       Some (map (\<lambda>_. if vec = [] then XY_ERR_NOTFOUND else XY_OK) args, t) \<and>
     (args \<noteq> [] \<longrightarrow> xy_err_val t = (if vec = [] then XY_ERR_NOTFOUND else XY_OK) \<and> xy_last_ran t = length vec) \<and>
     bufs t = fold (call_bufs eff f retp (ad_ret_size a) vec) args (bufs s) \<and> call_kept s t"
  using assms(3-)
proof (induction args arbitrary: s)
  case Nil
  then show ?case using call_kept_run [OF run_frame_refl] by simp
next
  case (Cons arg args)
  obtain M rc t where M: "vec_for s p M" and t: "xy_call E retp (Some reg) arg s = Some (rc, t)"
      "disp_outcome retp (ad_ret_size a) (hook_vec E s (rev (ancestors s p)) (ad_name a) M)
         (run_all eff f retp arg (hook_vec E s (rev (ancestors s p)) (ad_name a) M) (bufs s)) s rc t"
      "call_kept s t" "disp_ready E t" "cache_fresh E t p (ad_hook_id a) (ad_name a) (rev (ancestors s p))"
    using call_ok [OF mem q Cons.prems(1-5), of arg] by blast
  have "M = L" using vec_for_unique [OF Cons.prems(6) M] .
  then have out: "disp_outcome retp (ad_ret_size a) vec (run_all eff f retp arg vec (bufs s)) s rc t"
    using t(2) Cons.prems(7) by simp
  note views = call_kept_views [OF t(3)] and vec = call_kept_hook_vec(2) [OF t(3)]
  have "xy_current_region_entry t = Some p" using call_kept_same(5) [OF t(3)] Cons.prems(2) by simp
  from Cons.IH [OF t(4) this outcome_adapter [OF q Cons.prems(3) t(3) out]] Cons.prems(4,6,7) t(5)
  obtain u where u: "call_each E retp reg args t =
       Some (map (\<lambda>_. if vec = [] then XY_ERR_NOTFOUND else XY_OK) args, u)"
     "args \<noteq> [] \<longrightarrow> xy_err_val u = (if vec = [] then XY_ERR_NOTFOUND else XY_OK) \<and> xy_last_ran u = length vec"
     "bufs u = fold (call_bufs eff f retp (ad_ret_size a) vec) args (bufs t)" "call_kept t u"
    by (auto simp: views vec)
  have "bufs t = call_bufs eff f retp (ad_ret_size a) vec arg (bufs s)" "rc = (if vec = [] then XY_ERR_NOTFOUND else XY_OK)"
    using out by (simp_all add: disp_outcome_def call_bufs_def run_all_def)
  moreover have "xy_err_val u = rc \<and> xy_last_ran u = length vec"
  proof (cases args)
    case Nil
    with u(1) out show ?thesis by (simp add: disp_outcome_def)
  qed (use u(2) calculation in simp)
  ultimately show ?case using t(1) u(1,3) call_kept_trans [OF t(3) u(4)] by simp
qed

lemma call_self_ok:
  assumes mem: "never_oom E" and q: "quiet E eff" and rd: "disp_ready E s"
    and cur: "xy_current_region_entry s = Some p" and a: "adapter_ok E s reg a f retp"
    and nd: "\<And>q. q \<in> set (ancestors s p) - {p} \<Longrightarrow> ad_name a \<notin> denied_hook_names s q"
    and own: "mods_of s p own"
  defines "vec \<equiv> hook_vec E s (rev (ancestors s p)) (ad_name a) own"
  shows "\<exists>rc t. xy_call_self E retp (Some reg) arg s = Some (rc, t) \<and>
     disp_outcome retp (ad_ret_size a) vec (run_all eff f retp arg vec (bufs s)) s rc t"
proof -
  let ?F = "frame_for retp reg arg f a s p" and ?s2 = "xy_last_publish 0 retp reg s"
  note D = disp_readyD [OF rd cur] and inv2 = run_frame_inv [OF publish_frame(1) [of s 0 retp reg]]
    and same2 = run_frame_same [OF publish_frame(1) [of s 0 retp reg]]
  have F: "df_caller ?F = p" "df_reg ?F = reg" "df_hook_id ?F = ad_hook_id a" "df_retp ?F = retp"
    "df_anc ?F = rev (ancestors s p)" by (simp_all add: frame_for_def)
  have ad: "adapters s reg = Some a" "hook_reg E s (ad_name a) (ad_hook_id a)" using a by (simp_all add: adapter_ok_def)
  obtain r where r: "regions s p = Some r" "chain (mod_next s) (re_mods_head r) own"
    using own by (auto simp: mods_of_def)
  have nx: "mod_next ?s2 = mod_next s" by (simp add: fun_eq_iff mod_next_def same2)
  have pre: "hook_reg E ?s2 (ad_name a) (df_hook_id ?F)" "adapters ?s2 (df_reg ?F) = Some a"
      "\<And>q. q \<in> set (df_anc ?F) \<Longrightarrow> regions ?s2 q \<noteq> None" "walk_inv E ?s2"
      "chain (mod_next ?s2) (re_mods_head r) own"
    using ad D r nx by (simp_all add: inv2 same2 F)
  obtain t where t: "self_loop E ?F 0 (re_mods_head r) ?s2 =
      Some (Inr (length (hook_vec E ?s2 (df_anc ?F) (ad_name a) own)), t)" "call_frame ?s2 t"
    "bufs t = fold (slot_eff eff ?F) (hook_vec E ?s2 (df_anc ?F) (ad_name a) own) (bufs ?s2)"
    using self_loop_quiet [OF mem q pre(1,2) refl pre(3-5), of 0] by auto
  have vec: "hook_vec E ?s2 (df_anc ?F) (ad_name a) own = vec" by (simp add: inv2 F vec_def)
  note fr = call_frame_reads [OF t(2)]
  have u: "adapters t = adapters s" "bufs t = run_all eff f retp arg vec (bufs s)"
      "length (xy_last_retbuf t) = XY_MAX_RET_SIZE"
      "xy_current_region_entry t = xy_current_region_entry s" "xy_current_region_id t = xy_current_region_id s"
    using fr same2 t(3) vec D(10) by (simp_all add: run_all_frame publish_frame)
  obtain rc t' where fin: "dispatch_finish (length vec) retp reg t = Some (rc, t')"
     "disp_outcome retp (ad_ret_size a) vec (run_all eff f retp arg vec (bufs s)) s rc t'"
    using finish_outcome [OF q a u] by blast
  have "self_scope E ?F ?s2 = Some (Inr (length vec), t)"
    using t(1) r(1) vec by (simp add: self_scope_def F same2)
  then have "xy_call_self E retp (Some reg) arg s = Some (rc, t')"
    using nd fin(1) by (auto simp: xy_call_self_def dispatch_unfold [OF rd cur a])
  with fin(2) show ?thesis by blast
qed

lemma last_reads:
  assumes "ready E t" "cx_adapter (xy_global t) = Some reg" "adapters t reg = Some a" "xy_last_ran t \<noteq> 0"
    and "xy_last_retp t = Some Last_Retbuf" "ad_ret_size a \<le> length (xy_last_retbuf t)"
    and "bufs t d = Some b" "ad_ret_size a \<le> length b"
  shows "xy_last E (Some d) t = Some (XY_OK, set_err XY_OK (t\<lparr>bufs := (bufs t)(d \<mapsto>
     take (ad_ret_size a) (xy_last_retbuf t) @ drop (ad_ret_size a) b)\<rparr>))"
  using assms by (simp add: xy_last_def read_last_def buf_write_def fail_with_def)


section \<open>A process with one listener\<close>

definition demo_listener :: xy_mod_entry where
  "demo_listener = mod_zero\<lparr>me_ctx := Some 20, me_handle := Some 5, me_region_entry := Some 1\<rparr>"

definition demo_root :: xy_region_entry where
  "demo_root = region_zero\<lparr>re_id := XY_REGION_ROOT, re_dispatch_gen := 1, re_mods_head := Some 10,
     re_mods_tail := Some 10, re_subtree_mods_dirty := True\<rparr>"

definition demo_adapter :: xy_adapter where
  "demo_adapter = \<lparr>ad_name = ''on_tick'', ad_arg_size = 0, ad_ret_size = 1, ad_call = Some 99, ad_hook_id = 0\<rparr>"

text \<open>One whose return type is too large, and one that was never registered.\<close>

definition demo_wide :: xy_adapter where
  "demo_wide = demo_adapter\<lparr>ad_ret_size := 5000\<rparr>"

definition demo_unknown :: xy_adapter where
  "demo_unknown = demo_adapter\<lparr>ad_name := ''on_start'', ad_hook_id := -1\<rparr>"

text \<open>The host called \<^verbatim>\<open>xy_areg\<close> for the hook, and one module of the root region exports it.\<close>

definition demo_disp :: "alist_corm xy_state" where
  "demo_disp = demo_boot\<lparr>regions := [1 \<mapsto> demo_root], mods := [10 \<mapsto> demo_listener],
     ctxs := [20 \<mapsto> xy_t_zero], adapters := [30 \<mapsto> demo_adapter, 31 \<mapsto> demo_wide, 32 \<mapsto> demo_unknown], bufs := [40 \<mapsto> [7], 41 \<mapsto> [0]], next_addr := 50,
     st_corm := (st_corm demo_boot)\<lparr>ac_rows := (ac_rows (st_corm demo_boot))(2 := [(KStr ''on_tick'', VInt 0)])\<rparr>,
     xy_rt := (xy_rt demo_boot)\<lparr>xy_hook_id_counter := 1\<rparr>\<rparr>"

text \<open>Its hook body counts up the byte of the return buffer.\<close>

definition demo_eff :: "fnptr \<Rightarrow> addr option \<Rightarrow> fn_slot \<Rightarrow> addr option \<Rightarrow> bufs \<Rightarrow> bufs" where
  "demo_eff f retp cb arg b =
     (case retp of None \<Rightarrow> b | Some x \<Rightarrow> b(x := map_option (map (\<lambda>v. v + 1)) (b x)))"

definition demo_tick :: "alist_corm env" where
  "demo_tick = demo_env\<lparr>run_hook := (\<lambda>f retp cb arg s. Some (s\<lparr>bufs := demo_eff f retp cb arg (bufs s)\<rparr>))\<rparr>"

lemma demo_tick_quiet: "quiet demo_tick demo_eff" "never_oom demo_tick" "env_ok demo_tick"
  using demo_env_ok
  by (auto simp: quiet_def demo_tick_def demo_eff_def never_oom_def env_ok_def option.map_comp comp_def
      split: option.splits)


lemma demo_boot_fields:
  "xy_current_region_entry demo_boot = Some 1" "xy_current_region_id demo_boot = 0"
  "length (xy_last_retbuf demo_boot) = XY_MAX_RET_SIZE"
  by (simp_all add: demo_boot_def xy_runtime_bootstrap_def demo_start_def open_table_def tbl_open_def
      region_ensure_root_def region_lookup_def demo_env_def list_corm_def upd_rt_def tbl_get_def
      new_region_def tbl_put_def set_current_region_def region_current_plen_def region_zero_def
      XY_REGION_ROOT_def)

lemma demo_disp_key: "r_key demo_disp = [1 \<mapsto> root_key]"
  by (auto simp: fun_eq_iff r_key_def demo_disp_def demo_root_def region_zero_def key_of_def region_key_def root_key_def)

lemma demo_disp_fields:
  "regions demo_disp = [1 \<mapsto> demo_root]" "next_addr demo_disp = 50" "mods demo_disp = [10 \<mapsto> demo_listener]"
  "ctxs demo_disp = [20 \<mapsto> xy_t_zero]" "adapters demo_disp = [30 \<mapsto> demo_adapter, 31 \<mapsto> demo_wide, 32 \<mapsto> demo_unknown]"
  "bufs demo_disp = [40 \<mapsto> [7], 41 \<mapsto> [0]]" "xy_hook_id_counter (xy_rt demo_disp) = 1"
  by (simp_all add: demo_disp_def)

lemma demo_disp_corm: "env_corm demo_tick = list_corm"
  by (simp add: demo_tick_def demo_env_def)

lemma demo_disp_ready: "ready demo_tick demo_disp"
proof -
  have par: "r_parent demo_disp p = (if p = 1 then Some None else None)" for p
    by (simp add: r_parent_def demo_disp_def demo_root_def region_zero_def)
  have "tree_wf demo_disp"
    unfolding tree_wf_def demo_disp_key
    by (auto simp: par r_head_def r_depth_def demo_disp_fields demo_root_def region_zero_def canonical_def
        root_key_def XY_REGION_ROOT_def split: if_splits intro!: exI [of _ "[]"])
  moreover have "table_wf demo_tick demo_disp"
    unfolding table_wf_def demo_disp_key
    by (auto simp: tbl_single_def tbl_get_def demo_disp_corm demo_disp_def demo_boot_corm list_corm_def root_key_def)
  moreover have "r_gen demo_disp p \<noteq> Some 0" for p
    by (simp add: r_gen_def demo_disp_def demo_root_def)
  moreover have "current_wf demo_disp"
    unfolding current_wf_def demo_disp_key
    by (simp add: demo_disp_def demo_boot_fields root_key_def XY_REGION_ROOT_def)
  ultimately show ?thesis by (simp add: ready_def region_wf_def demo_disp_def demo_boot_corm)
qed

lemma demo_disp_mods: "mods_of demo_disp 1 [10]"
  by (simp add: mods_of_def demo_disp_def demo_root_def demo_listener_def mod_zero_def mod_next_def mod_prev_def
      mod_region_def chain_Some)

lemma demo_hook_reg: "hook_reg demo_tick demo_disp name k \<longleftrightarrow> name = ''on_tick'' \<and> k = 0"
  by (auto simp: hook_reg_def tbl_get_def demo_disp_corm demo_disp_def demo_boot_corm list_corm_def)

lemma demo_disp_inv: "disp_inv demo_tick demo_disp"
proof -
  have hc: "hook_cache demo_disp q h = None" for q h
    by (simp add: hook_cache_def demo_disp_def demo_root_def region_zero_def)
  have "dset demo_disp p b = (if p = 1 then Some (0, {}) else None)" for p b
    by (simp add: dset_def demo_disp_def demo_root_def deny_set_def region_zero_def)
  then have "deny_inv demo_tick demo_disp"
    by (auto simp: deny_inv_def set_agrees_def rt_handles_def rt_list_def demo_disp_def demo_boot_corm
        tbl_single_def demo_disp_corm list_corm_def Let_def split: if_splits)
  moreover have "caches_ok demo_tick demo_disp"
    by (auto simp: caches_ok_def demo_hook_reg cache_ok_def demo_disp_fields demo_listener_def mod_zero_def has_hook_iff
        split: if_splits)
  moreover have "hooks_wf demo_tick demo_disp"
    by (auto simp: hooks_wf_def demo_hook_reg demo_disp_fields)
  ultimately show ?thesis by (simp add: disp_inv_def slots_wf_def hc)
qed

lemma demo_disp_ok: "disp_ready demo_tick demo_disp"
proof -
  have "mods_wf demo_disp"
    using demo_disp_mods by (auto simp: mods_wf_def demo_disp_def split: if_splits)
  moreover have "vec_ok demo_disp" by (simp add: vec_ok_def demo_disp_def demo_root_def)
  moreover have "ctx_live demo_disp" by (simp add: ctx_live_def demo_disp_def demo_listener_def mod_zero_def)
  moreover have "flags_ok demo_disp"
    by (simp add: flags_ok_def denied_hook_names_def demo_disp_def demo_root_def region_zero_def)
  ultimately show ?thesis
    using demo_disp_ready demo_disp_inv by (simp add: disp_ready_def demo_disp_def demo_boot_fields)
qed

lemma demo_disp_adapter: "adapter_ok demo_tick demo_disp 30 demo_adapter 99 (Some 40)"
  by (simp add: adapter_ok_def demo_hook_reg demo_adapter_def demo_disp_fields XY_MAX_RET_SIZE_def)

lemma demo_disp_current: "xy_current_region_entry demo_disp = Some 1"
  by (simp add: demo_disp_def demo_boot_fields)

lemma demo_disp_ancestors: "ancestors demo_disp 1 = [1]"
proof -
  have "r_parent demo_disp 1 = Some None" by (simp add: r_parent_def demo_disp_def demo_root_def region_zero_def)
  from ancestors_unfold [OF _ this] demo_disp_ready show ?thesis by (simp add: readyD)
qed

lemma demo_disp_vec:
  "hook_vec demo_tick demo_disp anc ''on_tick'' [10] = [slot_for 10 (Fn 1005)]"
  by (simp add: hook_vec_def hears_def hook_slot_def demo_disp_def demo_listener_def mod_zero_def denied_anc_def
      hook_fn_def demo_tick_def demo_env_def slot_of_def)


lemma demo_fresh:
  "cache_fresh demo_tick demo_disp 1 (ad_hook_id demo_adapter) (ad_name demo_adapter) (rev (ancestors demo_disp 1))"
  by (auto simp: cache_fresh_def hook_cache_def demo_disp_fields demo_root_def region_zero_def)

lemma demo_not_denied:
  "\<forall>q \<in> set (ancestors demo_disp 1) - {1}. ad_name demo_adapter \<notin> denied_hook_names demo_disp q"
  by (simp add: demo_disp_ancestors del: One_nat_def)

lemma demo_hook_vec:
  assumes "vec_for demo_disp 1 L"
  shows "hook_vec demo_tick demo_disp (rev (ancestors demo_disp 1)) (ad_name demo_adapter) L = [slot_for 10 (Fn 1005)]"
proof -
  have "subtree demo_disp 1 = {1}"
    by (auto simp: subtree_def demo_disp_key demo_disp_ancestors simp del: One_nat_def split: if_splits)
  then have "mods_in demo_disp (subtree demo_disp 1) = {10}"
    using mods_in_insert [OF demo_disp_mods, of "{}"] by (simp add: mods_in_def [of _ "{}"])
  then have "set L = {10}" "distinct L" using assms by (auto simp: vec_for_def)
  then have "L = [10]" by (cases L; cases "tl L") auto
  then show ?thesis using demo_disp_vec by (simp add: demo_adapter_def)
qed

lemma demo_call:
  "\<exists>t. xy_call demo_tick (Some 40) (Some 30) None demo_disp = Some (XY_OK, t) \<and>
     bufs t 40 = Some [8] \<and> bufs t 41 = Some [0]"
  using call_ok [OF demo_tick_quiet(2,1) demo_disp_ok demo_disp_current demo_disp_adapter
      demo_not_denied [rule_format] demo_fresh, of None]
  by (auto simp: demo_hook_vec disp_outcome_def run_all_def demo_eff_def demo_disp_fields simp del: One_nat_def)


text \<open>The same process with a region (0, 16) below the root, which is current, and a root that denies the hook.\<close>

definition demo_child_key :: xy_region_key where
  "demo_child_key = Region_Key 0 16"

definition demo_barred :: "alist_corm xy_state" where
  "demo_barred = demo_disp\<lparr>
     regions := [1 \<mapsto> demo_root\<lparr>re_denied_hooks := [''on_tick''], re_denied_hooks_set := 7,
                   re_subtree_flags := XY_SUBTREE_HAS_DENY, re_children_head := Some 2\<rparr>,
                 2 \<mapsto> region_zero\<lparr>re_id := 0, re_plen := 16, re_depth := 1, re_dispatch_gen := 1,
                   re_parent := Some 1, re_subtree_mods_dirty := True\<rparr>],
     xy_current_region_entry := Some 2,
     st_corm := (st_corm demo_disp)\<lparr>ac_next := 7,
       ac_single := (ac_single (st_corm demo_disp))(7 := True),
       ac_rows := (ac_rows (st_corm demo_disp))(7 := [(KStr ''on_tick'', VPtr 1)],
         6 := [(KRegion demo_child_key, VPtr 2), (KRegion root_key, VPtr 1)])\<rparr>\<rparr>"

lemma demo_barred_tables:
  "tbl_single demo_tick demo_barred d \<longleftrightarrow> d \<in> {1, 2, 3, 4, 6, 7}"
  "tbl_get demo_tick demo_barred d k =
     (if d = 2 \<and> k = KStr ''on_tick'' then Some (VInt 0)
      else if d = 7 \<and> k = KStr ''on_tick'' then Some (VPtr 1)
      else if d = 6 \<and> k = KRegion demo_child_key then Some (VPtr 2)
      else if d = 6 \<and> k = KRegion root_key then Some (VPtr 1) else None)"
  by (auto simp: tbl_single_def tbl_get_def demo_disp_corm demo_barred_def demo_disp_def demo_boot_corm list_corm_def
      demo_child_key_def root_key_def)

lemma demo_barred_fields:
  "r_key demo_barred p = (if p = 1 then Some root_key else if p = 2 then Some demo_child_key else None)"
  "r_parent demo_barred p = (if p = 1 then Some None else if p = 2 then Some (Some 1) else None)"
  "r_depth demo_barred p = (if p = 1 then Some 0 else if p = 2 then Some 1 else None)"
  "r_head demo_barred p = (if p = 1 then Some (Some 2) else if p = 2 then Some None else None)"
  "sib_next demo_barred p = (if p = 1 \<or> p = 2 then Some None else None)" "next_addr demo_barred = 50"
  "denied_hook_names demo_barred p = (if p = 1 then {''on_tick''} else {})"
  "hook_cache demo_barred p h = None"
  "region_hd (xy_rt demo_barred) = 6" "rt_list demo_barred = [6, 3, 4, 2, 1]"
  "xy_current_region_entry demo_barred = Some 2" "xy_current_region_id demo_barred = 0"
  "adapters demo_barred = adapters demo_disp" "bufs demo_barred = bufs demo_disp"
  "mods demo_barred = mods demo_disp" "ctxs demo_barred = ctxs demo_disp"
  by (auto simp: r_key_def r_parent_def r_depth_def r_head_def sib_next_def demo_barred_def demo_disp_fields
      demo_root_def region_zero_def key_of_def region_key_def root_key_def demo_child_key_def
      XY_REGION_ROOT_def denied_hook_names_def hook_cache_def demo_disp_def demo_boot_corm rt_list_def Let_def)

lemma demo_child_below: "root_key < demo_child_key" "canonical demo_child_key" "canonical root_key"
  by (simp_all add: demo_child_key_def root_key_def less_xy_region_key_def canonical_def region_mask_def XY_REGION_ROOT_def)

lemma demo_barred_ready: "ready demo_tick demo_barred"
proof -
  have "tree_wf demo_barred"
    unfolding tree_wf_def
  proof (intro conjI allI impI)
    fix p h assume "r_head demo_barred p = Some h"
    then have "p = 1 \<and> h = Some 2 \<or> p = 2 \<and> h = None" by (auto simp: demo_barred_fields split: if_splits)
    then show "\<exists>cs. chain (sib_next demo_barred) h cs \<and> set cs = {c. r_parent demo_barred c = Some (Some p)}"
    proof (elim disjE conjE)
      assume "p = 1" "h = Some 2"
      then show ?thesis by (intro exI [of _ "[2]"]) (auto simp: demo_barred_fields chain_Some)
    next
      assume "p = 2" "h = None"
      then show ?thesis by (intro exI [of _ "[]"]) (auto simp: demo_barred_fields)
    qed
  qed (auto simp: demo_barred_fields demo_child_below split: if_splits)
  moreover have "table_wf demo_tick demo_barred"
    unfolding table_wf_def demo_barred_tables demo_barred_fields
    by (auto simp: demo_child_key_def root_key_def intro: exI [of _ "Suc 0"])
  moreover have "r_gen demo_barred p \<noteq> Some 0" for p
    by (simp add: r_gen_def demo_barred_def demo_root_def region_zero_def)
  moreover have "current_wf demo_barred"
    by (simp add: current_wf_def demo_barred_fields demo_child_key_def)
  ultimately show ?thesis by (simp add: ready_def region_wf_def) (simp add: demo_barred_def demo_disp_def demo_boot_corm)
qed

lemma demo_barred_ok: "disp_ready demo_tick demo_barred"
proof -
  have reg: "hook_reg demo_tick demo_barred name k \<longleftrightarrow> name = ''on_tick'' \<and> k = 0" for name k
  proof -
    have "hook_id_hd (xy_rt demo_barred) = 2" by (simp add: demo_barred_def demo_disp_def demo_boot_corm)
    then show ?thesis by (simp add: hook_reg_def demo_barred_tables)
  qed
  have "mods_of demo_barred 1 [10]" "mods_of demo_barred 2 []"
    by (simp_all add: mods_of_def demo_barred_def demo_disp_def demo_root_def demo_listener_def mod_zero_def mod_next_def
        mod_prev_def mod_region_def region_zero_def chain_Some)
  then have "mods_wf demo_barred"
    by (auto simp: mods_wf_def demo_barred_def demo_disp_def split: if_splits)
  moreover have "vec_ok demo_barred"
    by (simp add: vec_ok_def demo_barred_def demo_root_def region_zero_def)
  moreover have "ctx_live demo_barred"
    by (simp add: ctx_live_def demo_barred_fields demo_disp_def demo_listener_def mod_zero_def)
  moreover have "flags_ok demo_barred"
    by (auto simp: flags_ok_def demo_barred_def demo_root_def region_zero_def XY_SUBTREE_HAS_DENY_def split: if_splits)
  moreover have "deny_inv demo_tick demo_barred"
  proof -
    have d: "dset demo_barred p b = (if p = 1 then Some (if b then (0, {}) else (7, {KStr ''on_tick''}))
       else if p = 2 then Some (0, {}) else None)" for p b
      by (simp add: dset_def demo_barred_def demo_root_def deny_set_def region_zero_def)
    have "dom (tbl_get demo_tick demo_barred 7) = {KStr ''on_tick''}"
      by (auto simp: dom_def demo_barred_tables split: if_splits)
    then show ?thesis
      by (auto simp: deny_inv_def d set_agrees_def rt_handles_def demo_barred_fields demo_barred_tables split: if_splits)
  qed
  moreover have "caches_ok demo_tick demo_barred"
    by (auto simp: caches_ok_def reg cache_ok_def demo_barred_fields demo_disp_fields demo_listener_def mod_zero_def
        has_hook_iff split: if_splits)
  moreover have "hooks_wf demo_tick demo_barred"
    unfolding hooks_wf_def reg by (simp add: demo_barred_def demo_disp_fields)
  ultimately show ?thesis
    using demo_barred_ready
    by (simp add: disp_ready_def disp_inv_def slots_wf_def demo_barred_fields)
       (simp add: demo_barred_def demo_disp_def demo_boot_fields)
qed


section \<open>Properties\<close>

text \<open>
  C1. Calling a hook runs its listeners, as often as it is called. In a region that has no stocked
  vector of the hook for its current generation, which is how every change of the module lists
  leaves it (the counter wrapping round apart), any number of \<^verbatim>\<open>xy_call\<close>s come back. The first builds and stocks the vector, the others
  find it, and each of them runs, once each, exactly the modules of the caller's region and of all
  regions below it that have a context, export the hook and are denied by no region from the root
  down to the caller's, in the order of the tree: a region's own modules in load order, then those
  below it, child after child. What the return buffer and all other data hold in the end is what
  these callbacks leave one after the other, call after call. Each result is \<^const>\<open>XY_OK\<close>, or \<^const>\<open>XY_ERR_NOTFOUND\<close> with a
  zeroed return buffer when nobody listens, and the current region is the caller's again. (What a
  deny does to a vector that is in stock is another matter: a call after it still runs the old one.)
\<close>

theorem call_runs_listeners:
  assumes "never_oom E" "quiet E eff" "disp_ready E s" "xy_current_region_entry s = Some p"
    and "adapter_ok E s reg a f retp"
    and "\<forall>q \<in> set (ancestors s p) - {p}. ad_name a \<notin> denied_hook_names s q"
    and "\<forall>c. hook_cache s p (ad_hook_id a) = Some c \<longrightarrow> r_gen s p \<noteq> Some (hc_region_gen c)"
  shows "\<exists>L vec. set L = mods_in s (subtree s p) \<and> distinct L \<and> preorder s p L \<and>
     vec = map (hook_slot E s (ad_name a)) (filter (hears E s (rev (ancestors s p)) (ad_name a)) L) \<and>
     (\<forall>args. \<exists>rcs t. call_each E retp reg args s = Some (rcs, t) \<and>
        rcs = map (\<lambda>_. if vec = [] then XY_ERR_NOTFOUND else XY_OK) args \<and>
        (args \<noteq> [] \<longrightarrow> xy_err_val t = last rcs \<and> xy_last_ran t = length vec) \<and>
        bufs t = fold (\<lambda>arg b. if vec = [] then zeroed retp (ad_ret_size a) b
                               else fold (\<lambda>sl. eff f retp (sl_cb sl) arg) vec b) args (bufs s) \<and>
        xy_current_region_entry t = xy_current_region_entry s \<and>
        xy_current_region_id t = xy_current_region_id s)"
proof -
  have fresh: "cache_fresh E s p (ad_hook_id a) (ad_name a) (rev (ancestors s p))"
    using assms(7) by (auto simp: cache_fresh_def r_gen_def)
  from call_ok [OF assms(1-5) assms(6) [rule_format] fresh, of None] obtain L where L: "vec_for s p L" by blast
  define vec where "vec = hook_vec E s (rev (ancestors s p)) (ad_name a) L"
  have "\<exists>rcs t. call_each E retp reg args s = Some (rcs, t) \<and>
        rcs = map (\<lambda>_. if vec = [] then XY_ERR_NOTFOUND else XY_OK) args \<and>
        (args \<noteq> [] \<longrightarrow> xy_err_val t = last rcs \<and> xy_last_ran t = length vec) \<and>
        bufs t = fold (\<lambda>arg b. if vec = [] then zeroed retp (ad_ret_size a) b
                               else fold (\<lambda>sl. eff f retp (sl_cb sl) arg) vec b) args (bufs s) \<and>
        xy_current_region_entry t = xy_current_region_entry s \<and>
        xy_current_region_id t = xy_current_region_id s" for args
  proof -
    obtain t where t: "call_each E retp reg args s =
         Some (map (\<lambda>_. if vec = [] then XY_ERR_NOTFOUND else XY_OK) args, t)"
       "args \<noteq> [] \<longrightarrow> xy_err_val t = (if vec = [] then XY_ERR_NOTFOUND else XY_OK) \<and> xy_last_ran t = length vec"
       "bufs t = fold (call_bufs eff f retp (ad_ret_size a) vec) args (bufs s)" "call_kept s t"
      using call_each_ok [OF assms(1-5) assms(6) [rule_format] fresh L vec_def, of args] by blast
    have l: "args \<noteq> [] \<longrightarrow> xy_err_val t = last (map (\<lambda>_. if vec = [] then XY_ERR_NOTFOUND else XY_OK) args) \<and>
        xy_last_ran t = length vec"
    proof
      assume ne: "args \<noteq> []"
      then show "xy_err_val t = last (map (\<lambda>_. if vec = [] then XY_ERR_NOTFOUND else XY_OK) args) \<and>
          xy_last_ran t = length vec" using mp [OF t(2) ne] by (simp only: last_map_const simp_thms)
    qed
    show ?thesis
      by (rule exI, rule exI, intro conjI, rule t(1), rule refl, rule l)
         (use t(3) call_kept_same(5,6) [OF t(4)] in \<open>simp_all only: call_bufs_def [abs_def]\<close>)
  qed
  with L show ?thesis unfolding vec_for_def vec_def hook_vec_def by blast
qed

theorem call_runs_listeners_witness:
  "\<exists>t. call_each demo_tick (Some 40) 30 [None, None] demo_disp = Some ([XY_OK, XY_OK], t) \<and> xy_last_ran t = 1 \<and>
     bufs t 40 = Some [9]"
proof -
  have cold: "\<forall>c. hook_cache demo_disp 1 (ad_hook_id demo_adapter) = Some c \<longrightarrow> r_gen demo_disp 1 \<noteq> Some (hc_region_gen c)"
    by (auto simp: hook_cache_def demo_disp_fields demo_root_def region_zero_def)
  obtain L vec where L: "vec_for demo_disp 1 L"
      "vec = hook_vec demo_tick demo_disp (rev (ancestors demo_disp 1)) (ad_name demo_adapter) L"
    and all: "\<forall>args. \<exists>rcs t. call_each demo_tick (Some 40) 30 args demo_disp = Some (rcs, t) \<and>
        rcs = map (\<lambda>_. if vec = [] then XY_ERR_NOTFOUND else XY_OK) args \<and>
        (args \<noteq> [] \<longrightarrow> xy_err_val t = last rcs \<and> xy_last_ran t = length vec) \<and>
        bufs t = fold (\<lambda>arg b. if vec = [] then zeroed (Some 40) (ad_ret_size demo_adapter) b
            else fold (\<lambda>sl. demo_eff 99 (Some 40) (sl_cb sl) arg) vec b) args (bufs demo_disp) \<and>
        xy_current_region_entry t = xy_current_region_entry demo_disp \<and>
        xy_current_region_id t = xy_current_region_id demo_disp"
    using call_runs_listeners [OF demo_tick_quiet(2,1) demo_disp_ok demo_disp_current demo_disp_adapter
        demo_not_denied cold] by (elim exE conjE, simp only: vec_for_def hook_vec_def simp_thms)
  from L have vec: "vec = [slot_for 10 (Fn 1005)]" by (simp only: demo_hook_vec)
  from all [THEN spec, of "[None, None]"] obtain t where
    "call_each demo_tick (Some 40) 30 [None, None] demo_disp = Some ([XY_OK, XY_OK], t)" "xy_last_ran t = 1"
    "bufs t = fold (\<lambda>arg b. if vec = [] then zeroed (Some 40) (ad_ret_size demo_adapter) b
       else fold (\<lambda>sl. demo_eff 99 (Some 40) (sl_cb sl) arg) vec b) [None, None] (bufs demo_disp)"
    unfolding vec by auto
  moreover from this(3) have "bufs t 40 = Some [9]" by (simp add: vec demo_eff_def demo_disp_fields)
  ultimately show ?thesis by blast
qed

text \<open>
  C22. \<^verbatim>\<open>xy_call_self\<close> comes back and runs, once each and in load order, exactly the modules of the
  caller's own region that hear the hook; no module of another region runs.
\<close>

theorem call_self_runs_own:
  assumes "never_oom E" "quiet E eff" "disp_ready E s" "xy_current_region_entry s = Some p"
    and "adapter_ok E s reg a f retp"
    and "\<forall>q \<in> set (ancestors s p) - {p}. ad_name a \<notin> denied_hook_names s q"
    and "mods_of s p own"
  shows "\<exists>vec rc t. vec = hook_vec E s (rev (ancestors s p)) (ad_name a) own \<and>
     xy_call_self E retp (Some reg) arg s = Some (rc, t) \<and>
     rc = (if vec = [] then XY_ERR_NOTFOUND else XY_OK) \<and> xy_last_ran t = length vec \<and>
     bufs t = (if vec = [] then zeroed retp (ad_ret_size a) (bufs s)
               else fold (\<lambda>sl. eff f retp (sl_cb sl) arg) vec (bufs s))"
  using call_self_ok [OF assms(1-5) assms(6) [rule_format] assms(7), of arg]
  unfolding disp_outcome_def run_all_def by blast

theorem call_self_runs_own_witness:
  "\<exists>t. xy_call_self demo_tick (Some 40) (Some 30) None demo_disp = Some (XY_OK, t) \<and> bufs t 40 = Some [8]"
proof -
  have "ad_name demo_adapter = ''on_tick''" by (simp add: demo_adapter_def)
  then show ?thesis
    using call_self_runs_own [OF demo_tick_quiet(2,1) demo_disp_ok demo_disp_current demo_disp_adapter
        demo_not_denied demo_disp_mods, of None]
    by (auto simp: demo_disp_vec demo_eff_def demo_disp_fields)
qed

text \<open>
  C10. A hook that some region above the caller's denies is not dispatched in either scope: the
  call returns \<^const>\<open>XY_ERR_EPERM\<close>, zeroes the return buffer, leaves no value for \<^verbatim>\<open>xy_last\<close>, and
  runs nothing: whatever module code would do, modules, contexts and all other buffers are as
  before. A deny in the caller's own region does not stop it.
\<close>

theorem denied_hook_refused:
  assumes "disp_ready E s" "xy_current_region_entry s = Some p" "adapter_ok E s reg a f retp"
    and "q \<in> set (ancestors s p)" "q \<noteq> p" "ad_name a \<in> denied_hook_names s q"
  shows "\<exists>t. xy_call E retp (Some reg) arg s = Some (XY_ERR_EPERM, t) \<and>
     xy_call_self E retp (Some reg) arg s = Some (XY_ERR_EPERM, t) \<and> xy_err_val t = XY_ERR_EPERM \<and>
     bufs t = zeroed retp (ad_ret_size a) (bufs s) \<and> xy_last_ran t = 0 \<and> xy_last_retp t = None \<and>
     mods t = mods s \<and> ctxs t = ctxs s \<and> regions t = regions s"
proof -
  have "dispatch_fail XY_ERR_EPERM retp reg s = Some (XY_ERR_EPERM, (set_adapter (Some reg)
      (s\<lparr>xy_last_ran := 0, xy_last_retp := None, bufs := zeroed retp (ad_ret_size a) (bufs s)\<rparr>))
      \<lparr>xy_err_val := XY_ERR_EPERM\<rparr>)"
    using assms(3)
    by (cases retp) (auto simp: dispatch_fail_def xy_set_last_ret_def xy_zero_ret_def adapter_ok_def buf_write_def
        zeroed_def fail_with_def set_err_def set_adapter_def)
  moreover have "\<exists>q \<in> set (ancestors s p) - {p}. ad_name a \<in> denied_hook_names s q" using assms(4-6) by blast
  ultimately show ?thesis
    by (simp add: xy_call_def xy_call_self_def dispatch_unfold [OF assms(1-3)] set_adapter_def)
qed

theorem denied_hook_refused_witness:
  "\<exists>t. xy_call demo_tick (Some 40) (Some 30) None demo_barred = Some (XY_ERR_EPERM, t) \<and> bufs t 40 = Some [0]"
proof -
  have wf: "tree_wf demo_barred" using demo_barred_ready by (simp add: readyD)
  have p: "r_parent demo_barred 1 = Some None" "r_parent demo_barred 2 = Some (Some 1)"
    by (simp_all add: demo_barred_fields)
  have "1 \<in> set (ancestors demo_barred 2)"
    using ancestors_unfold [OF wf p(1)] ancestors_unfold [OF wf p(2)] by simp
  moreover have "ad_name demo_adapter \<in> denied_hook_names demo_barred 1"
    by (simp add: demo_barred_fields demo_adapter_def)
  moreover have "hook_id_hd (xy_rt demo_barred) = 2" by (simp add: demo_barred_def demo_disp_def demo_boot_corm)
  then have "adapter_ok demo_tick demo_barred 30 demo_adapter 99 (Some 40)"
    by (simp add: adapter_ok_def hook_reg_def demo_barred_fields demo_barred_tables demo_adapter_def demo_disp_fields
        XY_MAX_RET_SIZE_def)
  ultimately show ?thesis
    using denied_hook_refused [OF demo_barred_ok, of 2 30 demo_adapter 99 "Some 40" 1 None]
    by (auto simp: demo_barred_fields demo_disp_fields zeroed_def demo_adapter_def)
qed

text \<open>
  Dispatching an adapter that cannot be dispatched is reported and runs nothing: no adapter
  and an unregistered name give \<^const>\<open>XY_ERR_NOTFOUND\<close>, a return type over the limit gives
  \<^const>\<open>XY_ERR_TOOBIG\<close>.
\<close>

theorem dispatch_bad_adapter:
  assumes "ready E s"
  shows "xy_dispatch E retp None arg self s = Some (XY_ERR_NOTFOUND, set_err XY_ERR_NOTFOUND s) \<and>
     (\<forall>reg a. adapters s reg = Some a \<longrightarrow>
        (ad_hook_id a < 0 \<and> tbl_get E s (hook_id_hd (xy_rt s)) (KStr (ad_name a)) = None \<longrightarrow>
          (\<exists>t. xy_dispatch E None (Some reg) arg self s = Some (XY_ERR_NOTFOUND, t) \<and> xy_err_val t = XY_ERR_NOTFOUND \<and>
             bufs t = bufs s \<and> mods t = mods s)) \<and>
        (0 \<le> ad_hook_id a \<and> XY_MAX_RET_SIZE < ad_ret_size a \<longrightarrow>
          (\<exists>t. xy_dispatch E None (Some reg) arg self s = Some (XY_ERR_TOOBIG, t) \<and> xy_err_val t = XY_ERR_TOOBIG \<and>
             bufs t = bufs s \<and> mods t = mods s)))"
proof -
  have cur: "xy_inited (xy_rt s)" "\<exists>pl. region_current_plen s = Some pl"
    using readyD(4,5) [OF assms] by (auto simp: current_wf_def region_current_plen_def r_key_def)
  have "xy_dispatch E None (Some reg) arg self s = dispatch_fail err None reg s"
    if "dispatch_hook E reg s = Some (Inl err, s)" for reg err
    using cur that by (auto simp: xy_dispatch_def)
  moreover have "dispatch_fail err None reg s = Some (err, (set_adapter (Some reg)
      (s\<lparr>xy_last_ran := 0, xy_last_retp := None\<rparr>))\<lparr>xy_err_val := err\<rparr>)" for reg err
    by (simp add: dispatch_fail_def xy_set_last_ret_def xy_zero_ret_def fail_with_def set_err_def)
  moreover have "xy_dispatch E retp None arg self s = Some (XY_ERR_NOTFOUND, set_err XY_ERR_NOTFOUND s)"
    using cur by (simp add: xy_dispatch_def fail_with_def)
  ultimately show ?thesis by (auto simp: dispatch_hook_def adopt_hook_id_def set_adapter_def)
qed

theorem dispatch_bad_adapter_witness:
  "(\<exists>t. xy_dispatch demo_tick None (Some 31) None False demo_disp = Some (XY_ERR_TOOBIG, t)) \<and>
   (\<exists>t. xy_dispatch demo_tick None (Some 32) None True demo_disp = Some (XY_ERR_NOTFOUND, t))"
proof -
  have a: "adapters demo_disp 31 = Some demo_wide" "adapters demo_disp 32 = Some demo_unknown"
    by (simp_all add: demo_disp_fields)
  have "0 \<le> ad_hook_id demo_wide \<and> XY_MAX_RET_SIZE < ad_ret_size demo_wide" "ad_hook_id demo_unknown < 0"
      "tbl_get demo_tick demo_disp (hook_id_hd (xy_rt demo_disp)) (KStr (ad_name demo_unknown)) = None"
    by (simp_all add: demo_wide_def demo_unknown_def demo_adapter_def XY_MAX_RET_SIZE_def tbl_get_def demo_disp_corm
        demo_disp_def demo_boot_corm list_corm_def)
  with dispatch_bad_adapter [OF demo_disp_ready, of None None] a show ?thesis by blast
qed

text \<open>
  C23. Round trip of the return value: after a successful \<^verbatim>\<open>xy_call\<close> with a return buffer, \<^verbatim>\<open>xy_last\<close>
  copies exactly the bytes the dispatch left in that buffer.
\<close>

theorem last_after_call:
  assumes "never_oom E" "quiet E eff" "disp_ready E s" "xy_current_region_entry s = Some p"
    and "adapter_ok E s reg a f (Some x)" "0 < ad_ret_size a"
    and "\<forall>q \<in> set (ancestors s p) - {p}. ad_name a \<notin> denied_hook_names s q"
    and "cache_fresh E s p (ad_hook_id a) (ad_name a) (rev (ancestors s p))"
    and "xy_call E (Some x) (Some reg) arg s = Some (XY_OK, t)"
    and "bufs t d = Some b" "ad_ret_size a \<le> length b"
  shows "\<exists>u v. xy_last E (Some d) t = Some (XY_OK, u) \<and> bufs t x = Some v \<and>
     map_option (take (ad_ret_size a)) (bufs u d) = Some (take (ad_ret_size a) v)"
proof -
  define w where "w L = hook_vec E s (rev (ancestors s p)) (ad_name a) L" for L
  obtain L rc t0 where c: "xy_call E (Some x) (Some reg) arg s = Some (rc, t0)"
     "disp_outcome (Some x) (ad_ret_size a) (w L) (run_all eff f (Some x) arg (w L) (bufs s)) s rc t0"
     "\<forall>y. w L \<noteq> [] \<longrightarrow> Some x = Some y \<longrightarrow> 0 < ad_ret_size a \<longrightarrow> xy_last_retp t0 = Some Last_Retbuf \<and>
        take (ad_ret_size a) (xy_last_retbuf t0) = take (ad_ret_size a) (the (bufs t0 y))"
     "cx_adapter (xy_global t0) = Some reg" "adapters t0 = adapters s" "xy_rt t0 = xy_rt s"
     "length (xy_last_retbuf t0) = XY_MAX_RET_SIZE"
    using call_ok [OF assms(1-5) assms(7) [rule_format] assms(8), of arg] unfolding w_def by blast
  have t0: "t0 = t" "rc = XY_OK" using c(1) assms(9) by simp_all
  then have ne: "w L \<noteq> []" using c(2) by (auto simp: disp_outcome_def err_simps)
  have a: "adapters t reg = Some a" "ad_ret_size a \<le> XY_MAX_RET_SIZE"
    using assms(5) c(5) t0 by (simp_all add: adapter_ok_def)
  have ran: "xy_last_ran t \<noteq> 0" using c(2) ne t0 by (simp add: disp_outcome_def)
  obtain b0 where "bufs s x = Some b0" "ad_ret_size a \<le> length b0" using assms(5) by (auto simp: adapter_ok_def)
  then obtain v where v: "bufs t x = Some v" "ad_ret_size a \<le> length v"
    using c(2) ne t0 eff_shape [OF assms(2), of "frame_for (Some x) reg arg f a s p" "w L" "bufs s" x]
    by (auto simp: disp_outcome_def run_all_frame)
  have rb: "xy_last_retp t = Some Last_Retbuf"
      "take (ad_ret_size a) (xy_last_retbuf t) = take (ad_ret_size a) v"
    using c(3) ne assms(6) t0 v by auto
  have inited: "xy_runtime_ensure E t = Some (XY_OK, t)"
    using c(6) t0 assms(3) by (auto simp: xy_runtime_ensure_def disp_ready_def ready_def)
  have "xy_last E (Some d) t = Some (XY_OK, set_err XY_OK (t\<lparr>bufs := (bufs t)(d \<mapsto>
      take (ad_ret_size a) v @ drop (ad_ret_size a) b)\<rparr>))"
    using inited a ran rb c(4,7) t0 assms(10,11) v(2)
    by (simp add: xy_last_def read_last_def buf_write_def fail_with_def)
  then show ?thesis
    using v by (simp add: heap_simps)
qed


theorem last_after_call_witness:
  "\<exists>t u. xy_call demo_tick (Some 40) (Some 30) None demo_disp = Some (XY_OK, t) \<and>
     xy_last demo_tick (Some 41) t = Some (XY_OK, u) \<and> map_option (take 1) (bufs u 41) = Some [8]"
proof -
  obtain t where t: "xy_call demo_tick (Some 40) (Some 30) None demo_disp = Some (XY_OK, t)"
    "bufs t 40 = Some [8]" "bufs t 41 = Some [0]" using demo_call by blast
  have "0 < ad_ret_size demo_adapter" "ad_ret_size demo_adapter \<le> length [0::u8]"
    by (simp_all add: demo_adapter_def)
  from last_after_call [OF demo_tick_quiet(2,1) demo_disp_ok demo_disp_current demo_disp_adapter this(1)
      demo_not_denied demo_fresh t(1,3) this(2)] t(1,2)
  show ?thesis by (auto simp: demo_adapter_def)
qed

end
