(* ===== verification/Xy_Areg.thy ===== *)
theory Xy_Areg
  imports Xy_Dispatch_Props
begin

text \<open>
  Registering a hook, from \<^verbatim>\<open>src/libxylem-dispatch.c\<close>: the new name gets the next free id, and the
  symbol caches of all loaded modules are filled in for it.
\<close>

section \<open>Filling a symbol cache\<close>

text \<open>Inside the cache's capacity the eager loop does what a lazy resolution does.\<close>

lemma prewarm_step:
  assumes "mods s m = Some e" "0 \<le> k" "k < int (length (me_fn_cache e))"
  shows "prewarm_loop E m ((KStr name, VInt k) # kvs) s =
     do { (res, s') \<leftarrow> fn_cache_resolve E m k name s; prewarm_loop E m kvs s' }"
  using assms by (auto simp: fn_cache_resolve_def Let_def split: bind_splits)

lemma cache_ok_grow:
  assumes "cache_ok E e k name" "0 \<le> k"
  shows "cache_ok E (e\<lparr>me_fn_cache := me_fn_cache e @ replicate n FN_NULL\<rparr>) k name"
proof -
  let ?e = "e\<lparr>me_fn_cache := me_fn_cache e @ replicate n FN_NULL\<rparr>"
  have "module_has_hook_implemented ?e k = module_has_hook_implemented e k" by (simp add: has_hook_iff)
  moreover have "hook_fn E ?e name = hook_fn E e name" by (rule hook_fn_handle) simp
  ultimately show ?thesis
    using assms by (auto simp: cache_ok_def nth_append nat_less_iff split: if_splits fn_slot.splits)
qed

text \<open>An answer that is in the cache stays, and the cache does not shrink.\<close>

definition keeps_answers :: "xy_mod_entry \<Rightarrow> xy_mod_entry \<Rightarrow> bool" where
  "keeps_answers e e' \<longleftrightarrow>
     length (me_fn_cache e) \<le> length (me_fn_cache e') \<and>
     (\<forall>j < length (me_fn_cache e). me_fn_cache e ! j \<noteq> FN_NULL \<longrightarrow> me_fn_cache e' ! j = me_fn_cache e ! j)"

lemma keeps_answers_trans: "keeps_answers a b \<Longrightarrow> keeps_answers b c \<Longrightarrow> keeps_answers a c"
  unfolding keeps_answers_def by (metis order_less_le_trans order_trans)

lemma resolve_keeps:
  assumes mem: "never_oom E" and h: "0 \<le> h" and e: "mods s m = Some e" "nat h < length (me_fn_cache e)"
    and r: "fn_cache_resolve E m h name s = Some (res, upd_mod m (\<lambda>_. e') s)"
  shows "keeps_answers e e' \<and> length (me_fn_cache e') = length (me_fn_cache e)"
proof -
  have m': "mods (upd_mod m (\<lambda>_. e') s) m = Some e'" using e(1) by (simp add: heap_simps)
  show ?thesis
  proof (cases "me_fn_cache e ! nat h \<noteq> FN_NULL")
    case True
    then have "upd_mod m (\<lambda>_. e') s = s" using r fn_cache_resolve_eq [OF mem h e(1), of name] e(2) by simp
    with m' e(1) show ?thesis by (simp add: keeps_answers_def)
  next
    case False
    let ?a = "answered h (length (me_fn_cache e)) (hook_fn E e name) e"
    have "mods (upd_mod m (\<lambda>_. e') s) m = mods (upd_mod m (\<lambda>_. ?a) s) m"
      using r fn_cache_resolve_eq [OF mem h e(1), of name] e False
      by (simp add: upd_mod_cong [OF e(1), of "answered h (length (me_fn_cache e)) (hook_fn E e name)" "\<lambda>_. ?a"])
    then have "e' = ?a" using e(1) by (simp add: heap_simps)
    with False e(2) show ?thesis by (auto simp: keeps_answers_def answered_fields nth_list_update)
  qed
qed

text \<open>An id that is not given out yet has no answer that could be wrong, whatever its name will be.\<close>

definition unused_ok :: "'h env \<Rightarrow> 'h xy_state \<Rightarrow> bool" where
  "unused_ok E s \<longleftrightarrow>
     (\<forall>m e k name. mods s m = Some e \<longrightarrow> 0 \<le> k \<longrightarrow> (\<forall>nm. \<not> hook_reg E s nm k) \<longrightarrow> cache_ok E e k name)"

lemma unused_ok_listen:
  assumes ok: "unused_ok E s" and m: "mods s m = Some e" "same_mod e e'" and reg: "hook_reg E s name h"
    and other: "\<forall>k other. 0 \<le> k \<longrightarrow> k \<noteq> h \<longrightarrow> cache_ok E e k other \<longrightarrow> cache_ok E e' k other"
  shows "unused_ok E (upd_mod m (\<lambda>_. e') s)"
  unfolding unused_ok_def
proof (intro allI impI)
  note fr = disp_frame_reads(3) [OF disp_frame_mod [OF m, of 0], of E]
  fix m' e1 k nm
  assume e1: "mods (upd_mod m (\<lambda>_. e') s) m' = Some e1" and k: "0 \<le> k"
    and no: "\<forall>nm. \<not> hook_reg E (upd_mod m (\<lambda>_. e') s) nm k"
  have no: "\<forall>nm. \<not> hook_reg E s nm k" using no by (simp add: fr)
  have all: "cache_ok E e0 k nm" if "mods s m0 = Some e0" for m0 e0
    using ok that k no unfolding unused_ok_def by blast
  have "k \<noteq> h" using no reg by blast
  with all [OF m(1)] other k have "cache_ok E e' k nm" by blast
  with e1 all [of m' e1] m(1) show "cache_ok E e1 k nm" by (auto simp: heap_simps split: if_splits)
qed

lemma prewarm_loop_ok:
  assumes mem: "never_oom E"
    and "caches_ok E s" "hooks_wf E s" "unused_ok E s" "mods s m = Some e"
    and "\<And>k v. (k, v) \<in> set kvs \<Longrightarrow> \<exists>name i. k = KStr name \<and> v = VInt i \<and> hook_reg E s name i \<and>
        i < int (length (me_fn_cache e))"
  shows "\<exists>e'. prewarm_loop E m kvs s = Some (upd_mod m (\<lambda>_. e') s) \<and> same_mod e e' \<and>
     keeps_answers e e' \<and> caches_ok E (upd_mod m (\<lambda>_. e') s) \<and> unused_ok E (upd_mod m (\<lambda>_. e') s) \<and>
     (\<forall>name i. (KStr name, VInt i) \<in> set kvs \<longrightarrow> me_fn_cache e' ! nat i = slot_of (hook_fn E e name))"
  using assms(2-)
proof (induction kvs arbitrary: s e)
  case Nil
  moreover from this have "upd_mod m (\<lambda>_. e) s = s" by (auto simp: upd_mod_def intro!: xy_state.equality)
  ultimately show ?case by (auto intro!: exI [of _ e] simp: keeps_answers_def)
next
  case (Cons kv kvs)
  obtain name i where kv: "kv = (KStr name, VInt i)" "hook_reg E s name i" "i < int (length (me_fn_cache e))"
    using Cons.prems(5) [of "fst kv" "snd kv"] by (cases kv) auto
  have i: "0 \<le> i" using Cons.prems(2) kv(2) unfolding hooks_wf_def by blast
  have ok: "cache_ok E e i name" using Cons.prems(1,4) kv(2) unfolding caches_ok_def by blast
  have len: "nat i < length (me_fn_cache e)" using kv(3) i by linarith
  obtain e1 where e1: "fn_cache_resolve E m i name s =
      Some (case hook_fn E e name of Some f \<Rightarrow> Resolved f | None \<Rightarrow> Unresolved, upd_mod m (\<lambda>_. e1) s)"
    "cache_ok E e1 i name" "nat i < length (me_fn_cache e1)" "me_fn_cache e1 ! nat i = slot_of (hook_fn E e name)"
    "\<forall>k other. 0 \<le> k \<longrightarrow> k \<noteq> i \<longrightarrow> cache_ok E e k other \<longrightarrow> cache_ok E e1 k other"
    "same_mod e e1"
    using resolve_ok [OF mem i Cons.prems(4) ok] by (auto simp: same_mod_def)
  have len1: "keeps_answers e e1" "length (me_fn_cache e1) = length (me_fn_cache e)"
    using resolve_keeps [OF mem i Cons.prems(4) len e1(1)] by blast+
  let ?s1 = "upd_mod m (\<lambda>_. e1) s"
  note fr = disp_frame_mod [OF Cons.prems(4) e1(6), of 0]
  have ok1: "caches_ok E ?s1"
    using caches_ok_listen [OF Cons.prems(1,2,4) e1(6) kv(2) e1(2,5)] .
  have wf1: "hooks_wf E ?s1" using hooks_wf_frame [OF fr] Cons.prems(2) by simp
  have un1: "unused_ok E ?s1" using unused_ok_listen [OF Cons.prems(3,4) e1(6) kv(2) e1(5)] .
  have m1: "mods ?s1 m = Some e1" using Cons.prems(4) by (simp add: heap_simps)
  have "\<exists>name i. k = KStr name \<and> v = VInt i \<and> hook_reg E ?s1 name i \<and> i < int (length (me_fn_cache e1))"
    if "(k, v) \<in> set kvs" for k v
    using Cons.prems(5) [of k v] that len1 disp_frame_reads(3) [OF fr] by auto
  from Cons.IH [OF ok1 wf1 un1 m1 this] obtain e' where e': "prewarm_loop E m kvs ?s1 = Some (upd_mod m (\<lambda>_. e') ?s1)"
    "same_mod e1 e'" "keeps_answers e1 e'" "caches_ok E (upd_mod m (\<lambda>_. e') ?s1)"
    "unused_ok E (upd_mod m (\<lambda>_. e') ?s1)"
    "\<forall>name i. (KStr name, VInt i) \<in> set kvs \<longrightarrow> me_fn_cache e' ! nat i = slot_of (hook_fn E e1 name)" by auto
  have two: "upd_mod m (\<lambda>_. e') ?s1 = upd_mod m (\<lambda>_. e') s"
    using Cons.prems(4) by (auto simp: upd_mod_def intro!: xy_state.equality)
  have "slot_of (hook_fn E e name) \<noteq> FN_NULL" by (simp add: slot_of_def split: option.splits)
  then have "me_fn_cache e' ! nat i = slot_of (hook_fn E e name)"
    using e'(3) e1(3,4) by (simp add: keeps_answers_def)
  with e' e1 two keeps_answers_trans [OF len1(1) e'(3)] kv prewarm_step [OF Cons.prems(4) i kv(3)] same_mod_trans [OF e1(6) e'(2)]
  show ?case by (auto simp: same_mod_hook_fn [OF e1(6)])
qed


section \<open>Warming a module, and all of them\<close>

text \<open>The table of hook names holds names and ids, and nothing else.\<close>

definition hook_tab :: "'h env \<Rightarrow> 'h xy_state \<Rightarrow> bool" where
  "hook_tab E s \<longleftrightarrow>
     tbl_single E s (hook_id_hd (xy_rt s)) \<and>
     (\<forall>k v. tbl_get E s (hook_id_hd (xy_rt s)) k = Some v \<longrightarrow> (\<exists>name i. k = KStr name \<and> v = VInt i))"

definition warmed :: "'h env \<Rightarrow> 'h xy_state \<Rightarrow> xy_mod_entry \<Rightarrow> bool" where
  "warmed E s e \<longleftrightarrow>
     (\<forall>name i. hook_reg E s name i \<longrightarrow>
        nat i < length (me_fn_cache e) \<and> me_fn_cache e ! nat i = slot_of (hook_fn E e name))"

lemma prewarm_ok:
  assumes E: "env_ok E" and mem: "never_oom E" and ok: "caches_ok E s" "hooks_wf E s" "hook_tab E s" "unused_ok E s"
    and e: "mods s m = Some e"
  shows "\<exists>e'. fn_cache_prewarm E (Some m) s = Some (0, upd_mod m (\<lambda>_. e') s) \<and> same_mod e e' \<and>
     keeps_answers e e' \<and> caches_ok E (upd_mod m (\<lambda>_. e') s) \<and> unused_ok E (upd_mod m (\<lambda>_. e') s) \<and>
     (me_handle e \<noteq> None \<longrightarrow> warmed E s e')"
proof -
  have id: "upd_mod m (\<lambda>_. e) s = s" using e by (auto simp: upd_mod_def intro!: xy_state.equality)
  let ?n = "xy_hook_id_counter (xy_rt s)"
  consider "me_handle e = None" | "me_handle e \<noteq> None" "?n \<le> 0" | "me_handle e \<noteq> None" "0 < ?n" by linarith
  then show ?thesis
  proof cases
    case 1
    with e id ok show ?thesis by (auto simp: fn_cache_prewarm_def keeps_answers_def intro!: exI [of _ e])
  next
    case 2
    have "\<not> hook_reg E s name i" for name i
      using ok(2) 2(2) unfolding hooks_wf_def by (metis leD order_less_le_trans)
    with 2 e id ok show ?thesis
      by (auto simp: fn_cache_prewarm_def keeps_answers_def warmed_def intro!: exI [of _ e])
  next
    case 3
    define g :: "xy_mod_entry \<Rightarrow> xy_mod_entry" where "g = (\<lambda>e. e\<lparr>me_fn_cache := me_fn_cache e @
        replicate (nat (?n + 16) - length (me_fn_cache e)) FN_NULL\<rparr>)"
    have same: "same_mod e (g e)"
      by (rule same_modI [where b = "me_hook_impl_bits e"]) (simp add: g_def)
    let ?s1 = "upd_mod m (\<lambda>_. g e) s"
    have grow: "module_ensure_fn_cache_cap E (Some m) (?n + 16) s = Some (0, ?s1)"
    proof (cases "?n + 16 \<le> int (length (me_fn_cache e))")
      case True
      then have "g e = e" by (simp add: g_def nat_le_iff)
      with True e id show ?thesis by (simp add: module_ensure_fn_cache_cap_def)
    next
      case False
      have "upd_mod m g s = ?s1" using e by (rule upd_mod_cong) simp
      with False e mem show ?thesis
        by (simp add: module_ensure_fn_cache_cap_def never_oom_def g_def)
    qed
    note fr = disp_frame_mod [OF e same, of 0]
    note rd = disp_frame_reads(1-3) [OF fr] disp_frame_same(2) [OF fr]
    have m1: "mods ?s1 m = Some (g e)" using e by (simp add: heap_simps)
    have ok1: "caches_ok E ?s1"
      unfolding caches_ok_def rd
    proof (intro allI impI)
      fix m' e' nm k assume "mods ?s1 m' = Some e'" and k: "hook_reg E s nm k"
      then have "e' = g e \<and> m' = m \<or> mods s m' = Some e'" using e by (auto simp: heap_simps split: if_splits)
      moreover have "0 \<le> k" using ok(2) k unfolding hooks_wf_def by blast
      moreover have "cache_ok E e k nm" using ok(1) e k unfolding caches_ok_def by blast
      ultimately show "cache_ok E e' k nm"
        using ok(1) [unfolded caches_ok_def, rule_format, of m' e' nm k] k
          cache_ok_grow [of E e k nm "nat (?n + 16) - length (me_fn_cache e)"]
        by (elim disjE) (simp_all add: g_def)
    qed
    have un1: "unused_ok E ?s1"
      unfolding unused_ok_def rd
    proof (intro allI impI)
      fix m' e' k nm assume "mods ?s1 m' = Some e'" and k: "0 \<le> k" "\<forall>nm. \<not> hook_reg E s nm k"
      then have "e' = g e \<and> m' = m \<or> mods s m' = Some e'" using e by (auto simp: heap_simps split: if_splits)
      moreover have "cache_ok E e0 k nm" if "mods s m0 = Some e0" for m0 e0
        using ok(4) that k unfolding unused_ok_def by blast
      moreover have "cache_ok E (g e) k nm"
        using cache_ok_grow [OF calculation(2) [OF e] k(1), of "nat (?n + 16) - length (me_fn_cache e)"]
        by (simp add: g_def)
      ultimately show "cache_ok E e' k nm" by blast
    qed
    have wf1: "hooks_wf E ?s1" using hooks_wf_frame [OF fr] ok(2) by simp
    let ?kvs = "tbl_iter E ?s1 (hook_id_hd (xy_rt ?s1))"
    have mem_iff: "(k, v) \<in> set ?kvs \<longleftrightarrow> tbl_get E s (hook_id_hd (xy_rt s)) k = Some v" for k v
      using tbl_iter_iff [OF E, of ?s1 "hook_id_hd (xy_rt s)" k v] ok(3) rd by (simp add: hook_tab_def)
    have len: "nat ?n < length (me_fn_cache (g e))" using 3 by (simp add: g_def nat_less_iff)
    have kvs: "\<exists>name i. k = KStr name \<and> v = VInt i \<and> hook_reg E ?s1 name i \<and> i < int (length (me_fn_cache (g e)))"
      if "(k, v) \<in> set ?kvs" for k v
    proof -
      have "tbl_get E s (hook_id_hd (xy_rt s)) k = Some v" using that mem_iff [of k v] by simp
      from ok(3) [unfolded hook_tab_def, THEN conjunct2, rule_format, OF this]
      obtain name i where ki: "k = KStr name" "v = VInt i" by blast
      have reg: "hook_reg E s name i" using that mem_iff [of k v] ki by (simp add: hook_reg_def)
      then have "i < ?n" "0 \<le> i" using ok(2) unfolding hooks_wf_def by blast+
      with len reg ki rd(3) show ?thesis by auto
    qed
    obtain e' where e': "prewarm_loop E m ?kvs ?s1 = Some (upd_mod m (\<lambda>_. e') ?s1)" "same_mod (g e) e'"
      "keeps_answers (g e) e'" "caches_ok E (upd_mod m (\<lambda>_. e') ?s1)"
      "unused_ok E (upd_mod m (\<lambda>_. e') ?s1)"
      "\<forall>name i. (KStr name, VInt i) \<in> set ?kvs \<longrightarrow> me_fn_cache e' ! nat i = slot_of (hook_fn E (g e) name)"
      using prewarm_loop_ok [OF mem ok1 wf1 un1 m1 kvs] by blast
    have two: "upd_mod m (\<lambda>_. e') ?s1 = upd_mod m (\<lambda>_. e') s"
      using e by (auto simp: upd_mod_def intro!: xy_state.equality)
    have "keeps_answers e (g e)" by (auto simp: keeps_answers_def g_def nth_append)
    moreover have "warmed E s e'"
      unfolding warmed_def
    proof (intro allI impI)
      fix name i assume reg: "hook_reg E s name i"
      then have "i < ?n" "0 \<le> i" using ok(2) unfolding hooks_wf_def by blast+
      moreover have "(KStr name, VInt i) \<in> set ?kvs" using reg by (simp add: mem_iff hook_reg_def)
      ultimately show "nat i < length (me_fn_cache e') \<and> me_fn_cache e' ! nat i = slot_of (hook_fn E e' name)"
        using e'(2,3,6) len same_mod_hook_fn [OF e'(2), of E name] by (auto simp: keeps_answers_def)
    qed
    moreover have "fn_cache_prewarm E (Some m) s = Some (0, upd_mod m (\<lambda>_. e') s)"
      using 3 e grow e'(1) two by (auto simp: fn_cache_prewarm_def)
    ultimately show ?thesis
      using e' two same_mod_trans [OF same e'(2)] keeps_answers_trans by auto
  qed
qed


text \<open>What warming changes: symbol caches and bit sets.\<close>

definition warm_frame :: "'h xy_state \<Rightarrow> 'h xy_state \<Rightarrow> bool" where
  "warm_frame s t \<longleftrightarrow>
     t = s\<lparr>mods := mods t\<rparr> \<and>
     (\<forall>m. rel_option (\<lambda>e e'. same_mod e e' \<and> keeps_answers e e') (mods s m) (mods t m))"

lemma keeps_answers_refl [simp]: "keeps_answers e e"
  by (simp add: keeps_answers_def)

lemma warm_frame_refl [simp]: "warm_frame s s"
proof -
  have "rel_option (\<lambda>e e'. same_mod e e' \<and> keeps_answers e e') x x" for x by (cases x) auto
  then show ?thesis by (simp add: warm_frame_def)
qed

lemma warm_frame_step:
  assumes "mods s m = Some e" "same_mod e e'" "keeps_answers e e'"
  shows "warm_frame s (upd_mod m (\<lambda>_. e') s)"
proof -
  have "rel_option (\<lambda>e e'. same_mod e e' \<and> keeps_answers e e') x x" for x by (cases x) auto
  with assms show ?thesis by (auto simp: warm_frame_def upd_mod_def)
qed

lemma warm_frame_trans: "warm_frame s t \<Longrightarrow> warm_frame t u \<Longrightarrow> warm_frame s u"
proof -
  assume a: "warm_frame s t" and b: "warm_frame t u"
  have t: "t = s\<lparr>mods := mods t\<rparr>" and u: "u = t\<lparr>mods := mods u\<rparr>" using a b by (simp_all add: warm_frame_def)
  have "u = s\<lparr>mods := mods u\<rparr>" by (subst u, subst t) simp
  moreover have "rel_option (\<lambda>e e'. same_mod e e' \<and> keeps_answers e e') (mods s m) (mods u m)" for m
  proof -
    have "rel_option (\<lambda>e e'. same_mod e e' \<and> keeps_answers e e') (mods s m) (mods t m)"
      "rel_option (\<lambda>e e'. same_mod e e' \<and> keeps_answers e e') (mods t m) (mods u m)"
      using a b by (simp_all add: warm_frame_def)
    then show ?thesis by (auto elim!: option.rel_cases intro: same_mod_trans keeps_answers_trans)
  qed
  ultimately show ?thesis by (simp add: warm_frame_def)
qed

lemma warm_frame_reads:
  assumes "warm_frame s t"
  shows "st_corm t = st_corm s" "xy_rt t = xy_rt s" "adapters t = adapters s" "regions t = regions s"
    "hook_reg E t = hook_reg E s" "hook_tab E t = hook_tab E s" "hooks_wf E t = hooks_wf E s"
    "tbl_get E t = tbl_get E s" "tbl_single E t = tbl_single E s"
    "warmed E t e = warmed E s e" "mods s m = Some e0 \<Longrightarrow> \<exists>e'. mods t m = Some e' \<and> same_mod e0 e' \<and> keeps_answers e0 e'"
proof -
  have t: "t = s\<lparr>mods := mods t\<rparr>" using assms by (simp add: warm_frame_def)
  show fr: "st_corm t = st_corm s" "xy_rt t = xy_rt s" "adapters t = adapters s" "regions t = regions s"
    by (subst t, simp)+
  show tab: "tbl_get E t = tbl_get E s" "tbl_single E t = tbl_single E s"
    using tbl_get_cong [OF fr(1)] tbl_single_cong [OF fr(1)] by simp_all
  show hr: "hook_reg E t = hook_reg E s" by (simp add: fun_eq_iff hook_reg_def fr tab)
  show "hook_tab E t = hook_tab E s" "hooks_wf E t = hooks_wf E s" "warmed E t e = warmed E s e"
    by (simp_all add: hook_tab_def hooks_wf_def warmed_def hr fr tab)
  have "rel_option (\<lambda>e e'. same_mod e e' \<and> keeps_answers e e') (mods s m) (mods t m)"
    using assms by (simp add: warm_frame_def)
  then show "mods s m = Some e0 \<Longrightarrow> \<exists>e'. mods t m = Some e' \<and> same_mod e0 e' \<and> keeps_answers e0 e'"
    by (auto elim: option.rel_cases)
qed

lemma warmed_keeps:
  assumes w: "warmed E s e" and k: "same_mod e e'" "keeps_answers e e'"
  shows "warmed E s e'"
  unfolding warmed_def
proof (intro allI impI)
  fix name i assume "hook_reg E s name i"
  with w have "nat i < length (me_fn_cache e)" "me_fn_cache e ! nat i = slot_of (hook_fn E e name)"
    unfolding warmed_def by blast+
  moreover have "slot_of (hook_fn E e name) \<noteq> FN_NULL" by (simp add: slot_of_def split: option.splits)
  ultimately show "nat i < length (me_fn_cache e') \<and> me_fn_cache e' ! nat i = slot_of (hook_fn E e' name)"
    using k same_mod_hook_fn [OF k(1), of E name] by (simp add: keeps_answers_def)
qed

text \<open>The modules a table lists.\<close>

definition listed :: "(corm_key \<times> corm_val) list \<Rightarrow> mptr \<Rightarrow> bool" where
  "listed kvs m \<longleftrightarrow> (\<exists>kv \<in> set kvs. corm_ptr (Some (snd kv)) = Some m)"

lemma listed_Cons: "listed ((k, v) # kvs) m \<longleftrightarrow> corm_ptr (Some v) = Some m \<or> listed kvs m"
  by (simp add: listed_def)

lemma prewarm_all_ok:
  assumes E: "env_ok E" and mem: "never_oom E"
    and "caches_ok E s" "hooks_wf E s" "hook_tab E s" "unused_ok E s" "\<And>m. listed kvs m \<Longrightarrow> mods s m \<noteq> None"
  shows "\<exists>t. prewarm_all E kvs s = Some t \<and> warm_frame s t \<and> caches_ok E t \<and> unused_ok E t \<and>
     (\<forall>m e. listed kvs m \<longrightarrow> mods t m = Some e \<longrightarrow> me_handle e \<noteq> None \<longrightarrow> warmed E s e)"
  using assms(3-)
proof (induction kvs arbitrary: s)
  case Nil
  then show ?case by (simp add: listed_def)
next
  case (Cons kv kvs)
  obtain k v where kv: "kv = (k, v)" by (cases kv)
  show ?case
  proof (cases "corm_ptr (Some v)")
    case None
    then have "listed (kv # kvs) = listed kvs" by (simp add: fun_eq_iff kv listed_Cons)
    with Cons.IH [OF Cons.prems(1-4)] Cons.prems(5) kv None show ?thesis by simp
  next
    case (Some m)
    have ls: "listed (kv # kvs) m' \<longleftrightarrow> m' = m \<or> listed kvs m'" for m' using Some by (auto simp: kv listed_Cons)
    obtain e where e: "mods s m = Some e" using Cons.prems(5) [of m] ls by auto
    obtain e1 where e1: "fn_cache_prewarm E (Some m) s = Some (0, upd_mod m (\<lambda>_. e1) s)" "same_mod e e1"
      "keeps_answers e e1" "caches_ok E (upd_mod m (\<lambda>_. e1) s)" "unused_ok E (upd_mod m (\<lambda>_. e1) s)" "me_handle e \<noteq> None \<longrightarrow> warmed E s e1"
      using prewarm_ok [OF E mem Cons.prems(1-4) e] by blast
    let ?s1 = "upd_mod m (\<lambda>_. e1) s"
    have fr: "warm_frame s ?s1" using warm_frame_step [OF e e1(2,3)] .
    note rd = warm_frame_reads [OF fr]
    have pres: "mods ?s1 m' \<noteq> None" if "listed kvs m'" for m'
      using Cons.prems(5) [of m'] that ls by (auto simp: heap_simps)
    have wf1: "hooks_wf E ?s1" "hook_tab E ?s1" using Cons.prems(2,3) rd by simp_all
    obtain t where t: "prewarm_all E kvs ?s1 = Some t" "warm_frame ?s1 t" "caches_ok E t" "unused_ok E t"
      "\<forall>m e. listed kvs m \<longrightarrow> mods t m = Some e \<longrightarrow> me_handle e \<noteq> None \<longrightarrow> warmed E ?s1 e"
      using Cons.IH [OF e1(4) wf1 e1(5) pres] by blast
    have own: "warmed E s e2" if e2: "mods t m = Some e2" "me_handle e2 \<noteq> None" for e2
    proof -
      have "mods ?s1 m = Some e1" using e by (simp add: heap_simps)
      from warm_frame_reads(11) [OF t(2) this] e2(1) have k: "same_mod e1 e2" "keeps_answers e1 e2" by auto
      have "me_handle e \<noteq> None" using e2(2) same_modD [OF k(1)] same_modD [OF e1(2)] by simp
      with e1(6) have "warmed E s e1" by blast
      then show ?thesis using k by (rule warmed_keeps)
    qed
    have "prewarm_all E (kv # kvs) s = Some t" using kv Some e1(1) t(1) by simp
    with t(3-5) own warm_frame_trans [OF fr t(2)] show ?thesis
      unfolding ls rd by blast
  qed
qed


section \<open>The registry\<close>

text \<open>
  What registration keeps: the two tables know the same names, ids count up from 0, no cache
  has a wrong answer for a registered hook or for an id that is not given out yet, and every
  loaded module has an entry.
\<close>

definition areg_wf :: "'h env \<Rightarrow> 'h xy_state \<Rightarrow> bool" where
  "areg_wf E s \<longleftrightarrow>
     distinct [sica_hd (xy_rt s), hook_id_hd (xy_rt s), mod_hd (xy_rt s)] \<and>
     tbl_single E s (sica_hd (xy_rt s)) \<and> tbl_single E s (mod_hd (xy_rt s)) \<and>
     hook_tab E s \<and> hooks_wf E s \<and> caches_ok E s \<and> unused_ok E s \<and> 0 \<le> xy_hook_id_counter (xy_rt s) \<and>
     (\<forall>name. tbl_get E s (sica_hd (xy_rt s)) (KStr name) \<noteq> None \<longleftrightarrow> (\<exists>k. hook_reg E s name k)) \<and>
     (\<forall>k v m. tbl_get E s (mod_hd (xy_rt s)) k = Some v \<longrightarrow> corm_ptr (Some v) = Some m \<longrightarrow> mods s m \<noteq> None)"

text \<open>The state in which the modules are warmed: tables, counter and array are up to date.\<close>

definition areg_entered :: "'h env \<Rightarrow> string \<Rightarrow> aptr \<Rightarrow> 'h xy_state \<Rightarrow> 'h xy_state" where
  "areg_entered E name ad s =
     (let c = xy_hook_id_counter (xy_rt s);
          s1 = tbl_put E (hook_id_hd (xy_rt s)) (KStr name) (VInt c)
                 (tbl_put E (sica_hd (xy_rt s)) (KStr name) (VPtr ad) s);
          bs = xy_adapter_by_id (xy_rt s);
          bs' = (if c \<ge> int (length bs) then bs @ replicate (nat (c + 16 - int (length bs))) None else bs)
      in upd_adapter ad (\<lambda>a. a\<lparr>ad_hook_id := c\<rparr>)
           (s1\<lparr>xy_rt := (xy_rt s)\<lparr>xy_hook_id_counter := c + 1, xy_adapter_by_id := bs'[nat c := Some ad]\<rparr>\<rparr>))"

lemma areg_eq:
  assumes mem: "never_oom E" and rd: "ready E s" and a: "adapters s ad = Some a"
    and "\<not> XY_MAX_RET_SIZE < ad_ret_size a" "tbl_get E s (sica_hd (xy_rt s)) (KStr name) = None"
    and c: "0 \<le> xy_hook_id_counter (xy_rt s)"
  shows "xy_areg E name ad s =
     (let t = areg_entered E name ad s
      in do { u \<leftarrow> (if mod_hd (xy_rt t) \<noteq> 0 then prewarm_all E (tbl_iter E t (mod_hd (xy_rt t))) t else Some t);
              Some (0, set_err XY_OK u) })"
proof -
  define c where "c = xy_hook_id_counter (xy_rt s)"
  define s1 where "s1 = tbl_put E (sica_hd (xy_rt s)) (KStr name) (VPtr ad) s"
  define s3 where "s3 = tbl_put E (hook_id_hd (xy_rt s)) (KStr name) (VInt c)
      (upd_rt (\<lambda>r. r\<lparr>xy_hook_id_counter := c + 1\<rparr>) s1)"
  define s4 where "s4 = upd_adapter ad (\<lambda>a. a\<lparr>ad_hook_id := c\<rparr>) s3"
  define s5 where "s5 = (if c \<ge> int (length (xy_adapter_by_id (xy_rt s4)))
      then upd_rt (\<lambda>r. r\<lparr>xy_adapter_by_id := xy_adapter_by_id r @
        replicate (nat (c + 16 - int (length (xy_adapter_by_id (xy_rt s4))))) None\<rparr>) s4 else s4)"
  define s6 where "s6 = upd_rt (\<lambda>r. r\<lparr>xy_adapter_by_id := (xy_adapter_by_id r)[nat c := Some ad]\<rparr>) s5"
  have "areg_entered E name ad s = s6"
    by (auto simp: areg_entered_def s6_def s5_def s4_def s3_def s1_def c_def Let_def upd_rt_def upd_adapter_def
        tbl_put_def intro!: xy_state.equality)
  moreover have "xy_areg E name ad s =
      do { u \<leftarrow> (if mod_hd (xy_rt s6) \<noteq> 0 then prewarm_all E (tbl_iter E s6 (mod_hd (xy_rt s6))) s6 else Some s6);
           Some (0, set_err XY_OK u) }"
    using assms
    by (simp add: xy_areg_def ensure_ready [OF rd] never_oom_def Let_def s1_def [symmetric] c_def [symmetric])
       (simp add: s6_def s5_def s4_def s3_def s1_def upd_rt_def tbl_put_def c_def upd_adapter_def)
  ultimately show ?thesis by (simp add: Let_def)
qed


lemma entered_reads:
  fixes name :: string and ad :: aptr and s :: "'h xy_state"
  assumes E: "env_ok E" and wf: "areg_wf E s"
  defines "t \<equiv> areg_entered E name ad s" and "c \<equiv> xy_hook_id_counter (xy_rt s)"
  shows "mods t = mods s" "regions t = regions s" "next_addr t = next_addr s"
    "xy_hook_id_counter (xy_rt t) = c + 1" "mod_hd (xy_rt t) = mod_hd (xy_rt s)"
    "hook_id_hd (xy_rt t) = hook_id_hd (xy_rt s)" "sica_hd (xy_rt t) = sica_hd (xy_rt s)"
    "adapters t = (adapters s)(ad := map_option (\<lambda>a. a\<lparr>ad_hook_id := c\<rparr>) (adapters s ad))"
    "hook_reg E t n k \<longleftrightarrow> (if n = name then k = c else hook_reg E s n k)"
    "tbl_get E t (mod_hd (xy_rt s)) = tbl_get E s (mod_hd (xy_rt s))"
    "tbl_get E t (sica_hd (xy_rt s)) (KStr n) =
       (if n = name then Some (VPtr ad) else tbl_get E s (sica_hd (xy_rt s)) (KStr n))"
    "tbl_single E t = tbl_single E s" "hook_tab E t" "canonical_adapter t c = Some ad"
    "st_corm (areg_entered E name ad s) = st_corm (tbl_put E (hook_id_hd (xy_rt s)) (KStr name) (VInt c)
       (tbl_put E (sica_hd (xy_rt s)) (KStr name) (VPtr ad) s))"
proof -
  let ?s1 = "tbl_put E (sica_hd (xy_rt s)) (KStr name) (VPtr ad) s"
  let ?s2 = "tbl_put E (hook_id_hd (xy_rt s)) (KStr name) (VInt c) ?s1"
  note w = wf [unfolded areg_wf_def]
  have c: "0 \<le> c" using w by (simp add: c_def)
  show fr: "mods t = mods s" "regions t = regions s" "next_addr t = next_addr s"
    "xy_hook_id_counter (xy_rt t) = c + 1" "mod_hd (xy_rt t) = mod_hd (xy_rt s)"
    "hook_id_hd (xy_rt t) = hook_id_hd (xy_rt s)" "sica_hd (xy_rt t) = sica_hd (xy_rt s)"
    "adapters t = (adapters s)(ad := map_option (\<lambda>a. a\<lparr>ad_hook_id := c\<rparr>) (adapters s ad))"
    by (simp_all add: t_def areg_entered_def Let_def upd_adapter_def tbl_put_def c_def)
  show st: "st_corm (areg_entered E name ad s) = st_corm ?s2"
    by (simp add: areg_entered_def Let_def upd_adapter_def c_def tbl_put_def)
  have sg: "tbl_single E t = tbl_single E ?s2" "tbl_get E t = tbl_get E ?s2"
    using st unfolding t_def by (rule tbl_single_cong, intro tbl_get_cong)
  have single: "tbl_single E ?s2 = tbl_single E s" by (simp add: fun_eq_iff tbl_single_put [OF E])
  then show "tbl_single E t = tbl_single E s" using sg by simp
  have hd: "tbl_single E s (hook_id_hd (xy_rt s))" "tbl_single E s (sica_hd (xy_rt s))" "tbl_single E s (mod_hd (xy_rt s))"
    "hook_id_hd (xy_rt s) \<noteq> sica_hd (xy_rt s)" "hook_id_hd (xy_rt s) \<noteq> mod_hd (xy_rt s)"
    "sica_hd (xy_rt s) \<noteq> mod_hd (xy_rt s)"
    using w by (auto simp: hook_tab_def)
  have get: "tbl_get E t d k = (if d = hook_id_hd (xy_rt s) \<and> k = KStr name then Some (VInt c)
      else if d = sica_hd (xy_rt s) \<and> k = KStr name then Some (VPtr ad) else tbl_get E s d k)"
    if "tbl_single E s d" for d k
    using that hd(1-4) by (simp add: sg tbl_get_put [OF E] tbl_single_put [OF E])
  show "hook_reg E t n k \<longleftrightarrow> (if n = name then k = c else hook_reg E s n k)"
    using get [OF hd(1)] by (auto simp: hook_reg_def fr)
  show "tbl_get E t (mod_hd (xy_rt s)) = tbl_get E s (mod_hd (xy_rt s))"
    using get [OF hd(3)] hd by (simp add: fun_eq_iff)
  show "tbl_get E t (sica_hd (xy_rt s)) (KStr n) =
       (if n = name then Some (VPtr ad) else tbl_get E s (sica_hd (xy_rt s)) (KStr n))"
    using get [OF hd(2)] hd(4) by simp
  show "hook_tab E t"
    unfolding hook_tab_def fr
  proof (intro conjI allI impI)
    show "tbl_single E t (hook_id_hd (xy_rt s))" using hd(1) sg(1) single by simp
    fix k v assume "tbl_get E t (hook_id_hd (xy_rt s)) k = Some v"
    then have "k = KStr name \<and> v = VInt c \<or> tbl_get E s (hook_id_hd (xy_rt s)) k = Some v"
      using get [OF hd(1), of k] by (auto split: if_splits)
    with w show "\<exists>name i. k = KStr name \<and> v = VInt i" unfolding hook_tab_def by blast
  qed
  show "canonical_adapter t c = Some ad"
    using c by (auto simp: canonical_adapter_def t_def areg_entered_def Let_def upd_adapter_def c_def)
qed

lemma areg_entered_wf:
  assumes E: "env_ok E" and wf: "areg_wf E s" and new: "tbl_get E s (sica_hd (xy_rt s)) (KStr name) = None"
  shows "areg_wf E (areg_entered E name ad s)"
proof -
  let ?t = "areg_entered E name ad s" and ?c = "xy_hook_id_counter (xy_rt s)"
  note rd = entered_reads [OF E wf, of name ad] and w = wf [unfolded areg_wf_def]
  have none: "\<not> hook_reg E s name k" for k using w new by metis
  have lt: "hook_reg E s n k \<Longrightarrow> 0 \<le> k \<and> k < ?c" for n k using w unfolding hooks_wf_def by blast
  have c_none: "\<not> hook_reg E s n ?c" for n using lt [of n ?c] by auto
  have hw: "hooks_wf E ?t"
    unfolding hooks_wf_def rd(4,9)
  proof (intro conjI allI impI)
    fix n k assume "if n = name then k = ?c else hook_reg E s n k"
    then show "0 \<le> k" "k < ?c + 1" using lt [of n k] w by (auto split: if_splits)
  next
    fix n n' k
    assume "if n = name then k = ?c else hook_reg E s n k" "if n' = name then k = ?c else hook_reg E s n' k"
    then show "n = n'" using w c_none unfolding hooks_wf_def by (auto split: if_splits)
  qed
  have co: "caches_ok E ?t"
    unfolding caches_ok_def rd(1,9)
  proof (intro allI impI)
    fix m e n k assume e: "mods s m = Some e" and k: "if n = name then k = ?c else hook_reg E s n k"
    show "cache_ok E e k n"
    proof (cases "n = name")
      case True
      with k e w c_none show ?thesis unfolding unused_ok_def by (metis (full_types))
    next
      case False
      with k e w show ?thesis unfolding caches_ok_def by auto
    qed
  qed
  have un: "unused_ok E ?t"
    unfolding unused_ok_def rd(1,9)
  proof (intro allI impI)
    fix m e k n assume e: "mods s m = Some e" "0 \<le> k" and no: "\<forall>nm. \<not> (if nm = name then k = ?c else hook_reg E s nm k)"
    have "\<not> hook_reg E s nm k" for nm using no [rule_format, of nm] none [of k] by (cases "nm = name") auto
    with e w show "cache_ok E e k n" unfolding unused_ok_def by blast
  qed
  have names: "tbl_get E ?t (sica_hd (xy_rt s)) (KStr n) \<noteq> None \<longleftrightarrow> (\<exists>k. hook_reg E ?t n k)" for n
    unfolding rd(9,11) using w by (cases "n = name") auto
  show ?thesis
    unfolding areg_wf_def rd(4,5,6,7,10,12) using w hw co un names rd(1,13) by simp
qed

lemma areg_wf_frame:
  assumes "warm_frame s t" "areg_wf E s" "caches_ok E t" "unused_ok E t"
  shows "areg_wf E t"
proof -
  note rd = warm_frame_reads [OF assms(1)]
  have "mods t m \<noteq> None" if "mods s m \<noteq> None" for m using rd(11) that by blast
  then show ?thesis using assms(2-) unfolding areg_wf_def rd(1-9) by blast
qed

lemma err_reads:
  shows "tbl_get E (set_err e s) = tbl_get E s" "tbl_single E (set_err e s) = tbl_single E s"
    "hook_reg E (set_err e s) = hook_reg E s" "canonical_adapter (set_err e s) k = canonical_adapter s k"
    "warmed E (set_err e s) = warmed E s" "areg_wf E (set_err e s) = areg_wf E s"
proof -
  show tab: "tbl_get E (set_err e s) = tbl_get E s" "tbl_single E (set_err e s) = tbl_single E s"
    by (rule tbl_get_cong, simp add: set_err_frame) (rule tbl_single_cong, simp add: set_err_frame)
  show hr: "hook_reg E (set_err e s) = hook_reg E s" by (simp add: fun_eq_iff hook_reg_def tab set_err_frame)
  show "canonical_adapter (set_err e s) k = canonical_adapter s k" by (simp add: canonical_adapter_def set_err_frame)
  show w: "warmed E (set_err e s) = warmed E s" by (simp add: fun_eq_iff warmed_def hr)
  show "areg_wf E (set_err e s) = areg_wf E s"
    by (simp add: areg_wf_def hook_tab_def hooks_wf_def caches_ok_def unused_ok_def tab hr set_err_frame)
qed

lemma areg_new_ok:
  assumes E: "env_ok E" and mem: "never_oom E" and rd: "ready E s" and wf: "areg_wf E s" and a: "adapters s ad = Some a"
    and size: "ad_ret_size a \<le> XY_MAX_RET_SIZE" and new: "tbl_get E s (sica_hd (xy_rt s)) (KStr name) = None"
    and hd: "mod_hd (xy_rt s) \<noteq> 0"
  shows "\<exists>t. xy_areg E name ad s = Some (0, t) \<and> xy_err_val t = XY_OK \<and> areg_wf E t \<and>
     (\<forall>n k. hook_reg E t n k \<longleftrightarrow> (if n = name then k = xy_hook_id_counter (xy_rt s) else hook_reg E s n k)) \<and>
     xy_hook_id_counter (xy_rt t) = xy_hook_id_counter (xy_rt s) + 1 \<and>
     adapters t ad = Some (a\<lparr>ad_hook_id := xy_hook_id_counter (xy_rt s)\<rparr>) \<and>
     canonical_adapter t (xy_hook_id_counter (xy_rt s)) = Some ad \<and>
     (\<forall>k v m e. tbl_get E t (mod_hd (xy_rt t)) k = Some v \<longrightarrow> corm_ptr (Some v) = Some m \<longrightarrow>
        mods t m = Some e \<longrightarrow> me_handle e \<noteq> None \<longrightarrow> warmed E t e)"
proof -
  let ?c = "xy_hook_id_counter (xy_rt s)" and ?t = "areg_entered E name ad s"
  let ?kvs = "tbl_iter E ?t (mod_hd (xy_rt ?t))"
  note en = entered_reads [OF E wf, of name ad]
  have c: "0 \<le> ?c" using wf by (simp add: areg_wf_def)
  have wt: "areg_wf E ?t" using areg_entered_wf [OF E wf new] .
  have "tbl_single E ?t (mod_hd (xy_rt ?t))" using wt by (simp add: areg_wf_def)
  then have in_kvs: "(k, v) \<in> set ?kvs \<longleftrightarrow> tbl_get E ?t (mod_hd (xy_rt ?t)) k = Some v" for k v
    by (rule tbl_iter_iff [OF E])
  have pres: "mods ?t m \<noteq> None" if l: "listed ?kvs m" for m
  proof -
    obtain k v where "(k, v) \<in> set ?kvs" "corm_ptr (Some v) = Some m" using l unfolding listed_def by fastforce
    with wt show ?thesis unfolding in_kvs areg_wf_def by blast
  qed
  obtain u where u: "prewarm_all E ?kvs ?t = Some u" "warm_frame ?t u" "caches_ok E u" "unused_ok E u"
    "\<forall>m e. listed ?kvs m \<longrightarrow> mods u m = Some e \<longrightarrow> me_handle e \<noteq> None \<longrightarrow> warmed E ?t e"
    using prewarm_all_ok [OF E mem, of ?t ?kvs] wt pres unfolding areg_wf_def by blast
  note fr = warm_frame_reads [OF u(2)]
  have eq: "xy_areg E name ad s = Some (0, set_err XY_OK u)"
    using areg_eq [OF mem rd a _ new c] size hd u(1) en(5) by (simp add: Let_def)
  have w: "warmed E u e" if "tbl_get E u (mod_hd (xy_rt u)) k = Some v" "corm_ptr (Some v) = Some m"
    "mods u m = Some e" "me_handle e \<noteq> None" for k v m e
  proof -
    have "listed ?kvs m" using that(1,2) in_kvs [of k v] fr(2,8) unfolding listed_def by force
    with u(5) that(3,4) show ?thesis unfolding fr by blast
  qed
  have cn: "canonical_adapter u ?c = canonical_adapter ?t ?c" by (simp add: canonical_adapter_def fr)
  show ?thesis
    using eq areg_wf_frame [OF u(2) wt u(3,4)] en(4,8,9,14) w cn a
    by (intro exI [of _ "set_err XY_OK u"]) (simp add: err_reads fr set_err_frame)
qed


section \<open>Properties\<close>

text \<open>The same process before the host registered the hook, with its module in the table of modules.\<close>

definition demo_reg :: "alist_corm xy_state" where
  "demo_reg = demo_disp\<lparr>
     st_corm := (st_corm demo_boot)\<lparr>ac_rows := (ac_rows (st_corm demo_boot))(4 := [(KStr ''mods/a.so'', VPtr 10)])\<rparr>,
     xy_rt := xy_rt demo_boot\<rparr>"

lemma demo_reg_tables:
  "tbl_single demo_tick demo_reg d \<longleftrightarrow> d \<in> {1, 2, 3, 4, 6}"
  "tbl_get demo_tick demo_reg d k =
     (if d = 4 \<and> k = KStr ''mods/a.so'' then Some (VPtr 10)
      else if d = 6 \<and> k = KRegion root_key then Some (VPtr 1) else None)"
  by (auto simp: tbl_single_def tbl_get_def demo_disp_corm demo_reg_def demo_boot_corm list_corm_def)

lemma demo_reg_key: "r_key demo_reg = [1 \<mapsto> root_key]" "r_parent demo_reg = r_parent demo_disp"
    "r_head demo_reg = r_head demo_disp" "r_gen demo_reg = r_gen demo_disp" "r_depth demo_reg = r_depth demo_disp"
  using demo_disp_key
  by (simp_all add: fun_eq_iff r_key_def r_parent_def r_head_def r_gen_def r_depth_def demo_reg_def)

lemma tree_wf_cong:
  assumes "regions t = regions s" "next_addr t = next_addr s"
  shows "tree_wf t = tree_wf s"
proof -
  have "r_key t = r_key s" "r_parent t = r_parent s" "r_depth t = r_depth s" "r_head t = r_head s" "sib_next t = sib_next s"
    by (simp_all add: fun_eq_iff r_key_def r_parent_def r_depth_def r_head_def sib_next_def assms(1))
  then show ?thesis by (simp add: tree_wf_def assms(2))
qed

lemma demo_reg_tree: "tree_wf demo_reg \<longleftrightarrow> tree_wf demo_disp"
  by (rule tree_wf_cong) (simp_all add: demo_reg_def)

lemma demo_reg_ready: "ready demo_tick demo_reg"
proof -
  have "tree_wf demo_reg" "r_gen demo_reg p \<noteq> Some 0" for p
    using demo_disp_ready demo_reg_tree by (simp_all add: demo_reg_key ready_def region_wf_def)
  moreover have "table_wf demo_tick demo_reg"
    unfolding table_wf_def demo_reg_key demo_reg_tables by (auto simp: demo_reg_def demo_boot_corm)
  moreover have "current_wf demo_reg"
    unfolding current_wf_def demo_reg_key
    by (simp add: demo_reg_def demo_disp_def demo_boot_fields root_key_def XY_REGION_ROOT_def)
  ultimately show ?thesis by (simp add: ready_def region_wf_def demo_reg_def demo_boot_corm)
qed

lemma demo_reg_wf: "areg_wf demo_tick demo_reg"
proof -
  have rt: "sica_hd (xy_rt demo_reg) = 1" "hook_id_hd (xy_rt demo_reg) = 2" "mod_hd (xy_rt demo_reg) = 4"
    "xy_hook_id_counter (xy_rt demo_reg) = 0" "mods demo_reg = [10 \<mapsto> demo_listener]"
    by (simp_all add: demo_reg_def demo_boot_corm demo_disp_fields)
  have no: "\<not> hook_reg demo_tick demo_reg name k" for name k
    unfolding hook_reg_def demo_reg_tables rt by simp
  have "0 \<le> k \<Longrightarrow> cache_ok demo_tick demo_listener k name" for k name
    by (simp add: cache_ok_def demo_listener_def mod_zero_def has_hook_iff)
  then have "unused_ok demo_tick demo_reg" by (auto simp: unused_ok_def rt split: if_splits)
  moreover have "caches_ok demo_tick demo_reg" "hooks_wf demo_tick demo_reg"
    by (simp_all add: caches_ok_def hooks_wf_def no)
  ultimately show ?thesis
    unfolding areg_wf_def hook_tab_def demo_reg_tables rt by (simp add: no)
qed

text \<open>
  C17. \<^verbatim>\<open>xy_areg\<close> of a new name returns 0 with \<^const>\<open>XY_OK\<close>, gives the hook the next unused id, stores
  it in the adapter and in the table of names and makes the adapter the canonical one of the id;
  no other name changes its id, and the registry invariant is kept: ids count up from 0, both
  tables know the same names and no symbol cache holds a wrong answer. On return every loaded
  module that is in the module table has, for every registered hook, the address of its own
  function or the mark that it has none in its cache, so that no dispatch has to look a symbol up.
\<close>

theorem areg_new_hook:
  assumes "env_ok E" "never_oom E" "ready E s" "areg_wf E s" "adapters s ad = Some a"
    and "ad_ret_size a \<le> XY_MAX_RET_SIZE" "tbl_get E s (sica_hd (xy_rt s)) (KStr name) = None"
    and "mod_hd (xy_rt s) \<noteq> 0"
  shows "\<exists>t. xy_areg E name ad s = Some (0, t) \<and> xy_err_val t = XY_OK \<and> areg_wf E t \<and>
     (\<forall>n k. hook_reg E t n k \<longleftrightarrow> (if n = name then k = xy_hook_id_counter (xy_rt s) else hook_reg E s n k)) \<and>
     xy_hook_id_counter (xy_rt t) = xy_hook_id_counter (xy_rt s) + 1 \<and>
     adapters t ad = Some (a\<lparr>ad_hook_id := xy_hook_id_counter (xy_rt s)\<rparr>) \<and>
     canonical_adapter t (xy_hook_id_counter (xy_rt s)) = Some ad \<and>
     (\<forall>k v m e. tbl_get E t (mod_hd (xy_rt t)) k = Some v \<longrightarrow> corm_ptr (Some v) = Some m \<longrightarrow>
        mods t m = Some e \<longrightarrow> me_handle e \<noteq> None \<longrightarrow> warmed E t e)"
  by (rule areg_new_ok [OF assms])

theorem areg_new_hook_witness:
  "\<exists>t. xy_areg demo_tick ''on_tick'' 30 demo_reg = Some (0, t) \<and> hook_reg demo_tick t ''on_tick'' 0 \<and>
     adapters t 30 = Some (demo_adapter\<lparr>ad_hook_id := 0\<rparr>) \<and> xy_hook_id_counter (xy_rt t) = 1"
proof -
  have "sica_hd (xy_rt demo_reg) = 1" by (simp add: demo_reg_def demo_boot_corm)
  then have rt: "adapters demo_reg 30 = Some demo_adapter" "xy_hook_id_counter (xy_rt demo_reg) = 0"
    "mod_hd (xy_rt demo_reg) \<noteq> 0" "tbl_get demo_tick demo_reg (sica_hd (xy_rt demo_reg)) (KStr ''on_tick'') = None"
    "ad_ret_size demo_adapter \<le> XY_MAX_RET_SIZE"
    unfolding demo_reg_tables
    by (simp_all add: demo_reg_def demo_boot_corm demo_disp_fields demo_adapter_def XY_MAX_RET_SIZE_def)
  show ?thesis
    using areg_new_hook [OF demo_tick_quiet(3,2) demo_reg_ready demo_reg_wf rt(1,5,4,3)] rt(2) by auto
qed

text \<open>
  Registering a name a second time mints no id and changes nothing at all; but the value
  that comes back is not an id: it is what is stored under the name, the first adapter's
  address, cut to 32 bits.
\<close>

theorem areg_again:
  assumes "ready E s" "adapters s ad = Some a" "ad_ret_size a \<le> XY_MAX_RET_SIZE"
    and "tbl_get E s (sica_hd (xy_rt s)) (KStr name) = Some (VPtr old)"
  shows "xy_areg E name ad s = Some (of_nat old, s)"
  using assms by (simp add: xy_areg_def ensure_ready)

theorem areg_again_witness:
  "\<exists>t. xy_areg demo_tick ''on_tick'' 30 t = Some (77, t)"
proof -
  define t where "t = demo_reg\<lparr>xy_rt := (xy_rt demo_reg)\<lparr>sica_hd := 7\<rparr>,
    st_corm := (st_corm demo_reg)\<lparr>ac_rows := (ac_rows (st_corm demo_reg))(7 := [(KStr ''on_tick'', VPtr 77)])\<rparr>\<rparr>"
  have "ready demo_tick t"
  proof -
    have "tree_wf t \<longleftrightarrow> tree_wf demo_reg" by (rule tree_wf_cong) (simp_all add: t_def)
    moreover have k: "r_key t = r_key demo_reg" "r_gen t = r_gen demo_reg" by (simp_all add: fun_eq_iff r_key_def r_gen_def t_def)
    moreover have "table_wf demo_tick t"
      unfolding table_wf_def k demo_reg_key
      by (auto simp: t_def demo_reg_def demo_boot_corm tbl_single_def tbl_get_def demo_disp_corm list_corm_def)
    moreover have "current_wf t" unfolding current_wf_def k demo_reg_key
      by (simp add: t_def demo_reg_def demo_disp_def demo_boot_fields root_key_def XY_REGION_ROOT_def)
    ultimately show ?thesis
      using demo_reg_ready by (simp add: ready_def region_wf_def) (simp add: t_def)
  qed
  moreover have "adapters t 30 = Some demo_adapter" by (simp add: t_def demo_reg_def demo_disp_fields)
  moreover have "ad_ret_size demo_adapter \<le> XY_MAX_RET_SIZE" by (simp add: demo_adapter_def XY_MAX_RET_SIZE_def)
  moreover have "tbl_get demo_tick t (sica_hd (xy_rt t)) (KStr ''on_tick'') = Some (VPtr 77)"
    by (simp add: t_def tbl_get_def demo_disp_corm list_corm_def)
  ultimately have "xy_areg demo_tick ''on_tick'' 30 t = Some (of_nat 77, t)" by (rule areg_again)
  then show ?thesis by auto
qed

end
