(* ===== verification/Xy_Loader.thy ===== *)
theory Xy_Loader
  imports Xy_Areg
begin

text \<open>
  What the loader works with, from \<^verbatim>\<open>src/libxylem.c\<close>: the lookup of a file in a region, the
  linker and the temporary copies of a reload, and the re-keying of a module that claims a region.

  \<^verbatim>\<open>dlopen\<close> runs the constructors of the module and may change the state; the library's own
  reference on the object is counted in \<^const>\<open>dl_refs\<close>. Temporary copies that exist are listed in
  \<^const>\<open>tmp_files\<close>.
\<close>

section \<open>Linker, files and tables\<close>

definition dl_open ::
  "'h env \<Rightarrow> string option \<Rightarrow> 'h xy_state \<Rightarrow> (dlhandle option \<times> 'h xy_state) option" where
  "dl_open E path s =
     do { (h, s1) \<leftarrow> stl_dlopen E path s;
          case h of
            None \<Rightarrow> Some (None, s1)
          | Some d \<Rightarrow> Some (Some d, s1\<lparr>dl_refs := (dl_refs s1)(d := dl_refs s1 d + 1)\<rparr>) }"

definition dl_close :: "dlhandle option \<Rightarrow> 'h xy_state \<Rightarrow> 'h xy_state" where
  "dl_close h s =
     (case h of None \<Rightarrow> s | Some d \<Rightarrow> s\<lparr>dl_refs := (dl_refs s)(d := dl_refs s d - 1)\<rparr>)"

definition unlink_file :: "string option \<Rightarrow> 'h xy_state \<Rightarrow> 'h xy_state" where
  "unlink_file path s =
     (case path of None \<Rightarrow> s | Some p \<Rightarrow> s\<lparr>tmp_files := filter (\<lambda>f. f \<noteq> p) (tmp_files s)\<rparr>)"

definition tbl_del_all :: "'h env \<Rightarrow> hd \<Rightarrow> corm_key \<Rightarrow> 'h xy_state \<Rightarrow> 'h xy_state" where
  "tbl_del_all E d k s = s\<lparr>st_corm := corm_del_all (env_corm E) (st_corm s) d k\<rparr>"

definition tbl_iter_key :: "'h env \<Rightarrow> 'h xy_state \<Rightarrow> hd \<Rightarrow> corm_key \<Rightarrow> (corm_key \<times> corm_val) list" where
  "tbl_iter_key E s d k = corm_iter (env_corm E) (st_corm s) d (Some k)"

text \<open>\<^verbatim>\<open>module_lookup_symbol_fn\<close>: the address, when there is one.\<close>

definition module_lookup_symbol_fn :: "'h env \<Rightarrow> dlhandle option \<Rightarrow> string \<Rightarrow> fnptr option" where
  "module_lookup_symbol_fn E handle symbol = module_lookup_symbol_raw E handle symbol"

text \<open>\<^verbatim>\<open>calloc\<close> of a module entry, and \<^verbatim>\<open>free\<close>.\<close>

definition new_mod :: "xy_mod_entry \<Rightarrow> 'h xy_state \<Rightarrow> mptr \<times> 'h xy_state" where
  "new_mod e s =
     (next_addr s, s\<lparr>mods := (mods s)(next_addr s \<mapsto> e), next_addr := Suc (next_addr s)\<rparr>)"

definition free_mod :: "mptr \<Rightarrow> 'h xy_state \<Rightarrow> 'h xy_state option" where
  "free_mod m s = (if mods s m = None then None else Some (s\<lparr>mods := (mods s)(m := None)\<rparr>))"

definition new_buf :: "nat \<Rightarrow> 'h xy_state \<Rightarrow> addr \<times> 'h xy_state" where
  "new_buf n s =
     (next_addr s, s\<lparr>bufs := (bufs s)(next_addr s \<mapsto> replicate n 0), next_addr := Suc (next_addr s)\<rparr>)"


section \<open>Finding a module\<close>

text \<open>
  \<^verbatim>\<open>xy_lookup_result_t\<close>. The strings are the result's own; freeing them leaves nothing the
  program reads.
\<close>

record xy_lookup_result =
  lr_entry :: "mptr option"
  lr_key :: "string option"
  lr_load_path :: "string option"
  lr_err :: int

definition lookup_zero :: xy_lookup_result where
  "lookup_zero = \<lparr>lr_entry = None, lr_key = None, lr_load_path = None, lr_err = 0\<rparr>"

definition module_lookup_result_free :: "xy_lookup_result \<Rightarrow> xy_lookup_result" where
  "module_lookup_result_free l = l\<lparr>lr_key := None, lr_load_path := None\<rparr>"

definition module_lookup_from_fname ::
  "'h env \<Rightarrow> string \<Rightarrow> u64 \<Rightarrow> u8 \<Rightarrow> 'h xy_state \<Rightarrow> xy_lookup_result" where
  "module_lookup_from_fname E fname region_id plen s =
     (case module_load_path E s fname of
        None \<Rightarrow> lookup_zero\<lparr>lr_err := XY_ERR_INVALID\<rparr>
      | Some path \<Rightarrow>
          (let key_len = mod_key_len path
           in if \<not> malloc_ok E s key_len then lookup_zero\<lparr>lr_err := XY_ERR_INVALID\<rparr>
              else let key = mod_key key_len path region_id plen
                   in \<lparr>lr_entry = corm_ptr (tbl_get E s (mod_hd (xy_rt s)) (KStr key)),
                       lr_key = Some key, lr_load_path = Some path, lr_err = XY_OK\<rparr>))"


section \<open>Moving a loaded module to another region\<close>

text \<open>
  The index by region: all entries of the parent's identity but the module's are put back,
  at most 512 of them, and the module goes under the child's identity.
\<close>

definition module_rekey_region_index ::
  "'h env \<Rightarrow> mptr \<Rightarrow> u64 \<Rightarrow> u8 \<Rightarrow> u64 \<Rightarrow> u8 \<Rightarrow> 'h xy_state \<Rightarrow> 'h xy_state" where
  "module_rekey_region_index E m parent_id parent_plen child_id child_plen s =
     (let d = mod_by_region_hd (xy_rt s);
          pk = KRegion (region_key parent_id parent_plen);
          ck = KRegion (region_key child_id child_plen);
          es = List.map_filter (\<lambda>kv. corm_ptr (Some (snd kv))) (tbl_iter_key E s d pk);
          others = take 512 (filter (\<lambda>e. e \<noteq> m) es);
          s1 = fold (\<lambda>e. tbl_put E d pk (VPtr e)) others (tbl_del_all E d pk s)
      in tbl_put E d ck (VPtr m) s1)"

text \<open>
  \<^verbatim>\<open>memcpy(me->mod_key, new_key, new_key_len)\<close> goes into the buffer of the old key, which has
  the same length: both keys are of the same path.
\<close>

definition module_rekey_loaded_entry ::
  "'h env \<Rightarrow> mptr option \<Rightarrow> string option \<Rightarrow> string option \<Rightarrow> u64 \<Rightarrow> u8 \<Rightarrow> u64 \<Rightarrow> u8 \<Rightarrow>
     'h xy_state \<Rightarrow> 'h xy_state option" where
  "module_rekey_loaded_entry E me old_key load_path parent_id parent_plen child_id child_plen s =
     (case (me, old_key, load_path) of
        (Some m, Some old, Some path) \<Rightarrow>
          (let new_key_len = mod_key_len path
           in if \<not> malloc_ok E s new_key_len then Some s
              else let new_key = mod_key new_key_len path child_id child_plen
                   in do { s1 \<leftarrow> wr_mod m (\<lambda>e. e\<lparr>me_region_id := child_id, me_region_plen := child_plen\<rparr>) s;
                           let s2 = tbl_put E (mod_hd (xy_rt s1)) (KStr new_key) (VPtr m) s1;
                           let s3 = tbl_del E (mod_hd (xy_rt s2)) (KStr old) s2;
                           s4 \<leftarrow> wr_mod m (\<lambda>e. e\<lparr>me_mod_key := new_key @ drop new_key_len (me_mod_key e)\<rparr>) s3;
                           let s5 = module_rekey_region_index E m parent_id parent_plen child_id child_plen s4;
                           e \<leftarrow> mods s5 m;
                           case me_ctx e of
                             None \<Rightarrow> Some s5
                           | Some c \<Rightarrow>
                               if ctxs s5 c = None then None
                               else Some (upd_ctx c (\<lambda>x. x\<lparr>cx_region_id := child_id\<rparr>) s5) })
      | _ \<Rightarrow> Some s)"

definition module_rekey_for_claim ::
  "'h env \<Rightarrow> string \<Rightarrow> u64 \<Rightarrow> u8 \<Rightarrow> u64 \<Rightarrow> u8 \<Rightarrow> 'h xy_state \<Rightarrow> 'h xy_state option" where
  "module_rekey_for_claim E caller parent_id parent_plen child_id child_plen s =
     (let lookup = module_lookup_from_fname E caller parent_id parent_plen s
      in if lr_load_path lookup = None then Some s
         else case lr_entry lookup of
           None \<Rightarrow> Some s
         | Some m \<Rightarrow> module_rekey_loaded_entry E (Some m) (lr_key lookup) (lr_load_path lookup)
                       parent_id parent_plen child_id child_plen s)"


section \<open>Temporary copies\<close>

definition last_slash :: "string \<Rightarrow> nat option" where
  "last_slash p =
     (if CHR ''/'' \<in> set p then Some (length p - 1 - length (takeWhile (\<lambda>c. c \<noteq> CHR ''/'') (rev p))) else None)"

text \<open>
  \<^verbatim>\<open>copy_one\<close>: 0 with the name of a complete copy, or -1 with no file left behind. Opening,
  reading, writing, \<^verbatim>\<open>fchmod\<close> and \<^verbatim>\<open>fsync\<close> succeed or fail together (\<^const>\<open>copy_bytes\<close>). The
  name that is passed on is a \<^verbatim>\<open>strdup\<close> whose result is not checked.
\<close>

definition copy_one ::
  "'h env \<Rightarrow> string \<Rightarrow> string \<Rightarrow> 'h xy_state \<Rightarrow> (int \<times> string option) \<times> 'h xy_state" where
  "copy_one E src tmpl_in s =
     (if length tmpl_in \<ge> 512 then ((-1, None), s)
      else case stl_mkstemps E tmpl_in s of
        None \<Rightarrow> ((-1, None), s)
      | Some tmpl \<Rightarrow>
          (let s1 = s\<lparr>tmp_files := tmpl # tmp_files s\<rparr>
           in if copy_bytes E src tmpl s1
              then ((0, if malloc_ok E s1 (length tmpl + 1) then Some tmpl else None), s1)
              else ((-1, None), unlink_file (Some tmpl) s1)))"

definition copy_to_tmp :: "'h env \<Rightarrow> string \<Rightarrow> 'h xy_state \<Rightarrow> (int \<times> string option) \<times> 'h xy_state" where
  "copy_to_tmp E src s =
     (let ((rc, tmp), s1) =
        (case last_slash src of
           Some dir_len \<Rightarrow>
             if dir_len + 32 < 512 then copy_one E src (take dir_len src @ ''/.xylem-XXXXXX.so'') s
             else ((-1, None), s)
         | None \<Rightarrow> ((-1, None), s))
      in if rc = 0 then ((0, tmp), s1)
         else let ((rc, tmp), s2) = copy_one E src ''/tmp/xylem-XXXXXX.so'' s1
              in if rc = 0 then ((0, tmp), s2)
                 else let ((rc, tmp), s3) = copy_one E src ''./tmp/xylem-XXXXXX.so'' s2
                      in if rc = 0 then ((0, tmp), s3) else ((-1, None), s3))"



section \<open>Frames\<close>

lemma tbl_get_del_all:
  "env_ok E \<Longrightarrow> tbl_single E s d' \<Longrightarrow>
   tbl_get E (tbl_del_all E d k s) d' k' = (if d' = d \<and> k' = k then None else tbl_get E s d' k')"
  by (simp add: env_ok_def corm_ok_def tbl_get_def tbl_del_all_def tbl_single_def)

lemma tbl_single_del_all: "env_ok E \<Longrightarrow> tbl_single E (tbl_del_all E d k s) d' = tbl_single E s d'"
  by (simp add: env_ok_def corm_ok_def tbl_del_all_def tbl_single_def)

text \<open>Table operations leave everything but the tables alone.\<close>

lemma tbl_put_eq: "tbl_put E d k v s = s\<lparr>st_corm := st_corm (tbl_put E d k v s)\<rparr>"
  by (simp add: tbl_put_def)

lemma fold_tbl_put:
  assumes E: "env_ok E" and sg: "tbl_single E s d'" "d' \<noteq> d"
  shows "fold (\<lambda>e. tbl_put E d k (VPtr e)) es s = s\<lparr>st_corm := st_corm (fold (\<lambda>e. tbl_put E d k (VPtr e)) es s)\<rparr> \<and>
     tbl_get E (fold (\<lambda>e. tbl_put E d k (VPtr e)) es s) d' = tbl_get E s d' \<and>
     tbl_single E (fold (\<lambda>e. tbl_put E d k (VPtr e)) es s) = tbl_single E s"
  using sg(1)
proof (induction es arbitrary: s)
  case (Cons e es)
  let ?s1 = "tbl_put E d k (VPtr e) s"
  have sg1: "tbl_single E ?s1 = tbl_single E s" by (simp add: fun_eq_iff tbl_single_put [OF E])
  have "tbl_get E ?s1 d' = tbl_get E s d'"
    using Cons.prems sg(2) by (simp add: fun_eq_iff tbl_get_put [OF E])
  moreover have "?s1 = s\<lparr>st_corm := st_corm ?s1\<rparr>" by (rule tbl_put_eq)
  moreover obtain c where "fold (\<lambda>e. tbl_put E d k (VPtr e)) es ?s1 = ?s1\<lparr>st_corm := c\<rparr>"
    using Cons.IH [of ?s1] Cons.prems sg1 by metis
  ultimately have "\<exists>c. fold (\<lambda>e. tbl_put E d k (VPtr e)) (e # es) s = s\<lparr>st_corm := c\<rparr>"
    by (auto simp: tbl_put_def)
  then show ?case
    using Cons.IH [of ?s1] Cons.prems sg1 \<open>tbl_get E ?s1 d' = tbl_get E s d'\<close> by auto
qed simp

end
