(* ===== verification/Xy_Txn.thy ===== *)
theory Xy_Txn
  imports Xy_Loader
begin

text \<open>
  The load transaction, from \<^verbatim>\<open>src/libxylem.c\<close> and \<^verbatim>\<open>src/libxylem-module.c\<close>: its steps, each from
  a transaction and a state to a code, a transaction and a state, and the claim of a region on
  behalf of a module. Their sequence \<^verbatim>\<open>_mod_load\<close> and the way back are in \<open>Xy_Load\<close>.
\<close>

section \<open>The transaction\<close>

record xy_load_txn =
  tx_lookup :: xy_lookup_result
  tx_handle :: "dlhandle option"
  tx_stable_fname :: "string option"
  tx_stable_key :: "string option"
  tx_interned_load_path :: "sptr option"
  tx_tmp_load_path :: "string option"
  tx_mod_entry :: "mptr option"
  tx_inherited_reg :: "rptr option"
  tx_inherited_region_id :: u64
  tx_inherited_region_plen :: u8
  tx_prev_region_id :: u64
  tx_prev_region_entry :: "rptr option"
  tx_published_entry :: bool
  tx_context_active :: bool

definition txn_start :: "u64 \<Rightarrow> u8 \<Rightarrow> xy_load_txn" where
  "txn_start region_id plen =
     \<lparr>tx_lookup = lookup_zero, tx_handle = None, tx_stable_fname = None, tx_stable_key = None,
      tx_interned_load_path = None, tx_tmp_load_path = None, tx_mod_entry = None, tx_inherited_reg = None,
      tx_inherited_region_id = region_id, tx_inherited_region_plen = plen, tx_prev_region_id = 0,
      tx_prev_region_entry = None, tx_published_entry = False, tx_context_active = False\<rparr>"


section \<open>Opening the object\<close>

text \<open>While a reload is under way the object is opened from a fresh temporary copy, if one can be made.\<close>

definition mod_load_open_handle ::
  "'h env \<Rightarrow> xy_load_txn \<Rightarrow> string \<Rightarrow> 'h xy_state \<Rightarrow> (int \<times> xy_load_txn \<times> 'h xy_state) option" where
  "mod_load_open_handle E tx fname s =
     (let lookup = module_lookup_from_fname E fname (tx_inherited_region_id tx) (tx_inherited_region_plen tx) s;
          tx1 = tx\<lparr>tx_lookup := lookup\<rparr>
      in if lr_err lookup \<noteq> XY_OK then Some (lr_err lookup, tx1, s)
         else case lr_load_path lookup of
           None \<Rightarrow> Some (XY_ERR_INVALID, tx1, s)
         | Some path \<Rightarrow>
             (let ((rc, tmp), s1) = (if xy_reloading s then copy_to_tmp E path s else ((-1, None), s));
                  copied = (xy_reloading s \<and> rc = 0)
              in do { (h, s2) \<leftarrow> dl_open E (if copied then tmp else Some path) s1;
                      case h of
                        None \<Rightarrow>
                          Some (XY_ERR_NOTFOUND, tx1\<lparr>tx_handle := None, tx_lookup := module_lookup_result_free lookup\<rparr>,
                                if copied then unlink_file tmp s2 else s2)
                      | Some d \<Rightarrow>
                          Some (XY_OK, tx1\<lparr>tx_handle := Some d,
                                tx_tmp_load_path := (if copied then tmp else tx_tmp_load_path tx1)\<rparr>, s2) }))"

text \<open>The same file in the same region again: one more reference, and nothing else is kept.\<close>

definition mod_load_try_reuse_existing ::
  "xy_load_txn \<Rightarrow> 'h xy_state \<Rightarrow> (bool \<times> xy_load_txn \<times> 'h xy_state) option" where
  "mod_load_try_reuse_existing tx s =
     (case lr_entry (tx_lookup tx) of
        None \<Rightarrow> Some (False, tx, s)
      | Some existing \<Rightarrow>
          do { s1 \<leftarrow> wr_mod existing (\<lambda>e. e\<lparr>me_refcount := me_refcount e + 1\<rparr>) s;
               Some (True, tx\<lparr>tx_handle := None, tx_tmp_load_path := None,
                       tx_lookup := module_lookup_result_free (tx_lookup tx)\<rparr>,
                     unlink_file (tx_tmp_load_path tx) (dl_close (tx_handle tx) s1)) })"

definition mod_load_alloc_entry ::
  "'h env \<Rightarrow> xy_load_txn \<Rightarrow> string \<Rightarrow> 'h xy_state \<Rightarrow> int \<times> xy_load_txn \<times> 'h xy_state" where
  "mod_load_alloc_entry E tx fname s =
     (let stable = (if malloc_ok E s (length fname + 1) then Some fname else None);
          tx1 = tx\<lparr>tx_stable_fname := stable\<rparr>
      in if stable = None \<or> lr_key (tx_lookup tx) = None then (XY_ERR_INVALID, tx1, s)
         else let lk = tx_lookup tx;
                  tx2 = tx1\<lparr>tx_stable_key := lr_key lk, tx_lookup := lk\<lparr>lr_key := None\<rparr>\<rparr>;
                  (path, s1) = module_path_intern E (lr_load_path lk) s;
                  tx3 = tx2\<lparr>tx_interned_load_path := path, tx_lookup := lk\<lparr>lr_key := None, lr_load_path := None\<rparr>\<rparr>
              in if path = None then (XY_ERR_INVALID, tx3, s1)
                 else if \<not> malloc_ok E s1 1 then (XY_ERR_INVALID, tx3, s1)
                 else let (m, s2) = new_mod (mod_zero\<lparr>me_handle := tx_handle tx3,
                            me_region_id := tx_inherited_region_id tx3,
                            me_region_plen := tx_inherited_region_plen tx3, me_refcount := 1,
                            me_parent_entry := xy_loading_mod s1,
                            me_mod_key := the (tx_stable_key tx3), me_load_path := path,
                            me_tmp_load_path := tx_tmp_load_path tx3\<rparr>) s1
                      in (XY_OK, tx3\<lparr>tx_mod_entry := Some m, tx_tmp_load_path := None\<rparr>, s2))"

definition mod_load_publish_entry ::
  "'h env \<Rightarrow> xy_load_txn \<Rightarrow> 'h xy_state \<Rightarrow> (int \<times> xy_load_txn \<times> 'h xy_state) option" where
  "mod_load_publish_entry E tx s =
     do { m \<leftarrow> tx_mod_entry tx;
          key \<leftarrow> tx_stable_key tx;
          let s1 = tbl_put E (mod_hd (xy_rt s)) (KStr key) (VPtr m) s;
          e \<leftarrow> mods s1 m;
          let s2 = tbl_put E (mod_by_region_hd (xy_rt s1))
                     (KRegion (region_key (me_region_id e) (me_region_plen e))) (VPtr m) s1;
          Some (XY_OK, tx\<lparr>tx_published_entry := True\<rparr>, s2) }"


section \<open>Binding the context\<close>

text \<open>\<^verbatim>\<open>XY_CTX_ABI_DESC\<close> of a 64-bit host: generation 3, context size 184.\<close>

definition XY_CTX_ABI_VER :: u64 where "XY_CTX_ABI_VER = 3"
definition XY_CTX_SIZE :: u64 where "XY_CTX_SIZE = 184"

definition XY_CTX_ABI_DESC :: u64 where
  "XY_CTX_ABI_DESC = push_bit 32 XY_CTX_ABI_VER OR XY_CTX_SIZE"

definition mod_load_check_ctx_abi :: "'h env \<Rightarrow> xy_load_txn \<Rightarrow> 'h xy_state \<Rightarrow> int \<times> 'h xy_state" where
  "mod_load_check_ctx_abi E tx s =
     (case module_lookup_symbol_fn E (tx_handle tx) ''xy_ctx_abi'' of
        None \<Rightarrow> fail_with XY_ERR_ABI s
      | Some abi_fn \<Rightarrow>
          if call_abi E abi_fn \<noteq> XY_CTX_ABI_DESC then fail_with XY_ERR_ABI s else (XY_OK, s))"

text \<open>
  The assignments of \<^verbatim>\<open>_xy_init\<close>, in their order: the field and the function it is made to point
  to. Every field but \<^verbatim>\<open>err\<close> and \<^verbatim>\<open>strerror\<close> is assigned.
\<close>

definition init_fns :: "(xy_api \<times> xy_api) list" where
  "init_fns =
     [(Api_call, Api_call), (Api_areg, Api_areg), (Api_load, Api_load), (Api_last, Api_last),
      (Api_shutdown, Api_shutdown), (Api_deny, Api_deny), (Api_require_claim, Api_require_claim),
      (Api_region_each, Api_region_each), (Api_current_region_plen, Api_current_region_plen),
      (Api_region_exists, Api_region_exists), (Api_claim_at, Api_claim_at), (Api_region_at, Api_region_at),
      (Api_call_self, Api_call_self), (Api_with_region, Api_with_region),
      (Api_current_region, Api_current_region), (Api_unload, Api_unload), (Api_reload, Api_reload)]"

lemma bind_init_fns:
  "bind_fns init_fns c = c\<lparr>cx_fns := (\<lambda>f. if f \<in> {Api_err, Api_strerror} then cx_fns c f else Some f)\<rparr>"
proof -
  have "((if f \<in> {Api_err, Api_strerror} then cx_fns c f else Some f) = cx_fns (bind_fns init_fns c) f)" for f
    by (cases f) (simp_all add: bind_fns_def init_fns_def)
  then show ?thesis
    by (intro xy_t.equality) (simp_all add: fun_eq_iff, simp_all add: bind_fns_def init_fns_def)
qed

definition xy_init_ctx :: "cptr \<Rightarrow> string option \<Rightarrow> u64 \<Rightarrow> 'h xy_state \<Rightarrow> 'h xy_state option" where
  "xy_init_ctx c fname region_id s =
     (if ctxs s c = None then None
      else Some (upd_ctx c (\<lambda>x. (bind_fns init_fns x)
             \<lparr>cx_module_path := fname, cx_region_id := region_id\<rparr>) s))"

text \<open>\<^verbatim>\<open>xy_self_init_ctx\<close>, called by a module's constructor.\<close>

definition xy_self_init_ctx :: "cptr option \<Rightarrow> 'h xy_state \<Rightarrow> 'h xy_state" where
  "xy_self_init_ctx c s = s\<lparr>xy_pending_ctx := c\<rparr>"

definition mod_load_bind_xy ::
  "'h env \<Rightarrow> xy_load_txn \<Rightarrow> 'h xy_state \<Rightarrow> (int \<times> xy_load_txn \<times> 'h xy_state) option" where
  "mod_load_bind_xy E tx s =
     (let got = (case module_lookup_symbol_fn E (tx_handle tx) ''get_xy_ptr'' of
                   None \<Rightarrow> None | Some get_xy \<Rightarrow> call_get_xy E get_xy);
          ctx = (if got = None then xy_pending_ctx s else got);
          s1 = s\<lparr>xy_pending_ctx := None\<rparr>
      in case ctx of
           None \<Rightarrow> Some (XY_OK, tx, s1)
         | Some c \<Rightarrow>
             (let (ret, s2) = mod_load_check_ctx_abi E tx s1
              in if ret \<noteq> XY_OK then Some (ret, tx, s2)
                 else do { s3 \<leftarrow> xy_init_ctx c (tx_stable_fname tx) (tx_inherited_region_id tx) s2;
                           m \<leftarrow> tx_mod_entry tx;
                           s4 \<leftarrow> wr_mod m (\<lambda>e. e\<lparr>me_ctx := Some c\<rparr>) s3;
                           Some (XY_OK, tx, s4) }))"


section \<open>Claiming a region for the module\<close>

definition mod_load_enter_context ::
  "'h env \<Rightarrow> xy_load_txn \<Rightarrow> 'h xy_state \<Rightarrow> int \<times> xy_load_txn \<times> 'h xy_state" where
  "mod_load_enter_context E tx s =
     (let reg = region_lookup E s (tx_inherited_region_id tx) (tx_inherited_region_plen tx)
      in (XY_OK,
          tx\<lparr>tx_inherited_reg := reg, tx_prev_region_id := xy_current_region_id s,
             tx_prev_region_entry := xy_current_region_entry s, tx_context_active := True\<rparr>,
          set_current_region (tx_inherited_region_id tx) reg s))"

text \<open>The claim handler is the host's; the \<^verbatim>\<open>calloc\<close> of the child is not checked.\<close>

definition xy_claim_for_load ::
  "'h env \<Rightarrow> string option \<Rightarrow> u64 \<Rightarrow> u8 \<Rightarrow> u8 \<Rightarrow> 'h xy_state \<Rightarrow> (int \<times> 'h xy_state) option" where
  "xy_claim_for_load E caller parent_id parent_plen bits s =
     (if bits = 0 \<or> bits > 64 then Some (fail_with XY_ERR_INVALID s)
      else case region_lookup E s parent_id parent_plen of
        None \<Rightarrow> Some (fail_with XY_ERR_NOTFOUND s)
      | Some parent \<Rightarrow>
          do { rp \<leftarrow> regions s parent;
               case re_claim_handler rp of
                 None \<Rightarrow> Some (fail_with XY_ERR_EPERM s)
               | Some handler \<Rightarrow>
                   do { (hret, granted, s1) \<leftarrow>
                          run_claim E handler (case caller of None \<Rightarrow> [] | Some c \<Rightarrow> c) bits (re_claim_handler_ud rp) s;
                        if hret \<noteq> XY_OK then Some (fail_with XY_ERR_EPERM s1)
                        else if granted = 0 \<or> granted > 64 then Some (fail_with XY_ERR_EPERM s1)
                        else do {
                          rp1 \<leftarrow> regions s1 parent;
                          let child_id = region_alloc_slot E s1 rp1 granted;
                          if child_id = XY_REGION_INVALID then Some (fail_with XY_ERR_TOOBIG s1)
                          else if \<not> malloc_ok E s1 1 then None
                          else do {
                            let child_plen = re_plen rp1 + granted;
                            (c, s2) \<leftarrow> attach_region E parent
                              (region_zero\<lparr>re_id := child_id, re_plen := child_plen,
                                 re_depth := re_depth rp1 + 1, re_child_bits := granted,
                                 re_owner_path := caller, re_dispatch_gen := 1, re_parent := Some parent\<rparr>) s1;
                            let s3 = set_current_region child_id (Some c) s2;
                            s4 \<leftarrow> (case caller of
                                    None \<Rightarrow> Some s3
                                  | Some path \<Rightarrow> module_rekey_for_claim E path parent_id parent_plen child_id child_plen s3);
                            Some (fail_with XY_OK s4) } } } })"

definition mod_load_claim_if_needed ::
  "'h env \<Rightarrow> xy_load_txn \<Rightarrow> 'h xy_state \<Rightarrow> (int \<times> 'h xy_state) option" where
  "mod_load_claim_if_needed E tx s =
     (let claim_sym = module_lookup_symbol_raw E (tx_handle tx) ''xy_claim''
      in case tx_inherited_reg tx of
           None \<Rightarrow> Some (XY_OK, s)
         | Some p \<Rightarrow>
             do { r \<leftarrow> regions s p;
                  if re_require_claim r \<and> claim_sym = None then Some (XY_ERR_EPERM, s)
                  else case claim_sym of
                    None \<Rightarrow> Some (XY_OK, s)
                  | Some claim_at \<Rightarrow>
                      if re_claim_handler r = None \<and> \<not> re_require_claim r then Some (XY_OK, s)
                      else xy_claim_for_load E (tx_stable_fname tx) (tx_inherited_region_id tx)
                             (tx_inherited_region_plen tx) (read_claim E claim_at) s })"


section \<open>Running the module\<close>

definition mod_run :: "'h env \<Rightarrow> dlhandle option \<Rightarrow> string \<Rightarrow> 'h xy_state \<Rightarrow> (int \<times> 'h xy_state) option" where
  "mod_run E sl symbol s =
     (case module_lookup_symbol_fn E sl symbol of
        None \<Rightarrow> Some (XY_ERR_NOTFOUND, s)
      | Some cb \<Rightarrow> do { s1 \<leftarrow> run_install E cb s; Some (XY_OK, s1) })"

definition mod_load_run_install ::
  "'h env \<Rightarrow> xy_load_txn \<Rightarrow> 'h xy_state \<Rightarrow> (int \<times> 'h xy_state) option" where
  "mod_load_run_install E tx s =
     (let prev = xy_loading_mod s
      in do { (ret, s1) \<leftarrow> mod_run E (tx_handle tx) ''xy_install'' (s\<lparr>xy_loading_mod := tx_mod_entry tx\<rparr>);
              Some (ret, s1\<lparr>xy_loading_mod := prev\<rparr>) })"

text \<open>
  The per-region state: \<^verbatim>\<open>xy_region_state_size()\<close> zeroed bytes, or null when there are none to
  have or none to get.
\<close>

definition alloc_region_state :: "'h env \<Rightarrow> xy_load_txn \<Rightarrow> 'h xy_state \<Rightarrow> 'h xy_state option" where
  "alloc_region_state E tx s =
     (case module_lookup_symbol_fn E (tx_handle tx) ''xy_region_state_size'' of
        None \<Rightarrow> Some s
      | Some sz_fn \<Rightarrow>
          (let sz = call_state_size E sz_fn
           in if sz = 0 then Some s
              else do { m \<leftarrow> tx_mod_entry tx;
                        if malloc_ok E s sz
                        then let (b, s1) = new_buf sz s in wr_mod m (\<lambda>e. e\<lparr>me_region_state := Some b\<rparr>) s1
                        else wr_mod m (\<lambda>e. e\<lparr>me_region_state := None\<rparr>) s }))"

text \<open>The module joins the list of the region its entry names.\<close>

definition join_region :: "'h env \<Rightarrow> xy_load_txn \<Rightarrow> 'h xy_state \<Rightarrow> 'h xy_state option" where
  "join_region E tx s =
     do { m \<leftarrow> tx_mod_entry tx;
          e \<leftarrow> mods s m;
          case region_lookup E s (me_region_id e) (me_region_plen e) of
            None \<Rightarrow> Some s
          | Some p \<Rightarrow> module_region_append (Some p) (Some m) s }"

definition mod_load_restore_context :: "xy_load_txn \<Rightarrow> 'h xy_state \<Rightarrow> xy_load_txn \<times> 'h xy_state" where
  "mod_load_restore_context tx s =
     (if tx_context_active tx
      then (tx\<lparr>tx_context_active := False\<rparr>,
            set_current_region (tx_prev_region_id tx) (tx_prev_region_entry tx) s)
      else (tx, s))"

end
