(* ===== verification/Xy_Load.thy ===== *)
theory Xy_Load
  imports Xy_Txn
begin

text \<open>
  The life of a module, from \<^verbatim>\<open>src/libxylem.c\<close>, \<^verbatim>\<open>src/libxylem-module.c\<close> and
  \<^verbatim>\<open>src/libxylem-runtime.c\<close>: load, unload with its cascade, reload, and the teardown of the runtime.
\<close>

section \<open>Freeing\<close>

text \<open>
  The state of a module is passed to its \<^verbatim>\<open>xy_region_cleanup\<close>, when it has one, and then
  freed. The entry is read again after the module's code.
\<close>

definition module_cleanup_region_state :: "'h env \<Rightarrow> mptr option \<Rightarrow> 'h xy_state \<Rightarrow> 'h xy_state option" where
  "module_cleanup_region_state E entry s =
     (case entry of
        None \<Rightarrow> Some s
      | Some m \<Rightarrow>
          do { e \<leftarrow> mods s m;
               case me_region_state e of
                 None \<Rightarrow> Some s
               | Some st \<Rightarrow>
                   do { s1 \<leftarrow> (case module_lookup_symbol_fn E (me_handle e) ''xy_region_cleanup'' of
                                None \<Rightarrow> Some s
                              | Some cleanup_fn \<Rightarrow> run_cleanup E cleanup_fn st s);
                        e1 \<leftarrow> mods s1 m;
                        let s2 = (case me_region_state e1 of
                                    None \<Rightarrow> s1 | Some b \<Rightarrow> s1\<lparr>bufs := (bufs s1)(b := None)\<rparr>);
                        wr_mod m (\<lambda>e. e\<lparr>me_region_state := None\<rparr>) s2 } })"

definition module_free_entry :: "'h env \<Rightarrow> mptr option \<Rightarrow> bool \<Rightarrow> 'h xy_state \<Rightarrow> 'h xy_state option" where
  "module_free_entry E entry close_handle s =
     (case entry of
        None \<Rightarrow> Some s
      | Some m \<Rightarrow>
          do { e \<leftarrow> mods s m;
               s1 \<leftarrow> module_cleanup_region_state E (Some m) s;
               s2 \<leftarrow> free_mod m s1;
               Some (unlink_file (me_tmp_load_path e) (if close_handle then dl_close (me_handle e) s2 else s2)) })"


section \<open>Taking a failed load back\<close>

text \<open>The unlinking that \<^verbatim>\<open>mod_load_abort\<close> does itself, without clearing the entry's own links.\<close>

definition abort_unlink :: "mptr \<Rightarrow> 'h xy_state \<Rightarrow> 'h xy_state option" where
  "abort_unlink m s =
     do { e \<leftarrow> mods s m;
          case me_region_entry e of
            None \<Rightarrow> Some s
          | Some re \<Rightarrow>
              do { s1 \<leftarrow> (case me_region_prev e of
                     Some p \<Rightarrow> wr_mod p (\<lambda>x. x\<lparr>me_region_next := me_region_next e\<rparr>) s
                   | None \<Rightarrow> wr_reg re (\<lambda>r. r\<lparr>re_mods_head := me_region_next e\<rparr>) s);
                   s2 \<leftarrow> (case me_region_next e of
                     Some n \<Rightarrow> wr_mod n (\<lambda>x. x\<lparr>me_region_prev := me_region_prev e\<rparr>) s1
                   | None \<Rightarrow> wr_reg re (\<lambda>r. r\<lparr>re_mods_tail := me_region_prev e\<rparr>) s1);
                   s3 \<leftarrow> region_mark_subtree_dirty (Some re) s2;
                   wr_mod m (\<lambda>x. x\<lparr>me_region_entry := None\<rparr>) s3 } }"

text \<open>The rows of the two tables.\<close>

definition unpublish :: "'h env \<Rightarrow> mptr \<Rightarrow> 'h xy_state \<Rightarrow> 'h xy_state option" where
  "unpublish E m s =
     do { e \<leftarrow> mods s m;
          Some (tbl_del E (mod_hd (xy_rt s)) (KStr (me_mod_key e))
                 (tbl_del E (mod_by_region_hd (xy_rt s))
                    (KRegion (region_key (me_region_id e) (me_region_plen e))) s)) }"

definition mod_load_abort :: "'h env \<Rightarrow> xy_load_txn \<Rightarrow> int \<Rightarrow> 'h xy_state \<Rightarrow> (int \<times> 'h xy_state) option" where
  "mod_load_abort E tx err s =
     (let (tx, s1) = mod_load_restore_context tx s
      in do { s4 \<leftarrow> (case tx_mod_entry tx of
                       None \<Rightarrow> Some s1
                     | Some m \<Rightarrow>
                         do { s2 \<leftarrow> module_cleanup_region_state E (Some m) s1;
                              s3 \<leftarrow> abort_unlink m s2;
                              if tx_published_entry tx then unpublish E m s3 else Some s3 });
              s5 \<leftarrow> (case tx_mod_entry tx of
                       None \<Rightarrow> Some s4
                     | Some m \<Rightarrow>
                         do { e \<leftarrow> mods s4 m;
                              s' \<leftarrow> free_mod m s4;
                              Some (unlink_file (me_tmp_load_path e) s') });
              Some (err, dl_close (tx_handle tx) (unlink_file (tx_tmp_load_path tx) s5)) })"


section \<open>Loading\<close>

text \<open>
  What follows the claim: count the module, give it its state, enter it in its region's list,
  fill its symbol cache and run \<^verbatim>\<open>xy_install\<close>.
\<close>

definition mod_load_enter :: "'h env \<Rightarrow> xy_load_txn \<Rightarrow> 'h xy_state \<Rightarrow> (int \<times> 'h xy_state) option" where
  "mod_load_enter E tx s =
     do { let s1 = upd_rt (\<lambda>r. r\<lparr>xy_mod_count := xy_mod_count r + 1\<rparr>) s;
          s2 \<leftarrow> alloc_region_state E tx s1;
          s3 \<leftarrow> join_region E tx s2;
          (_, s4) \<leftarrow> fn_cache_prewarm E (tx_mod_entry tx) s3;
          mod_load_run_install E tx s4 }"

text \<open>The steps after the object is open and known to be new; a code other than \<^const>\<open>XY_OK\<close> is \<^verbatim>\<open>goto fail\<close>.\<close>

definition mod_load_steps ::
  "'h env \<Rightarrow> xy_load_txn \<Rightarrow> string \<Rightarrow> 'h xy_state \<Rightarrow> (int \<times> xy_load_txn \<times> 'h xy_state) option" where
  "mod_load_steps E tx fname s =
     (let (ret, tx1, s1) = mod_load_alloc_entry E tx fname s
      in if ret \<noteq> XY_OK then Some (ret, tx1, s1)
         else do {
           (ret, tx2, s2) \<leftarrow> mod_load_publish_entry E tx1 s1;
           (ret, tx3, s3) \<leftarrow> mod_load_bind_xy E tx2 s2;
           if ret \<noteq> XY_OK then Some (ret, tx3, s3)
           else let (ret, tx4, s4) = mod_load_enter_context E tx3 s3
                in do { (ret, s5) \<leftarrow> mod_load_claim_if_needed E tx4 s4;
                        if ret \<noteq> XY_OK then Some (ret, tx4, s5)
                        else do { (ret, s6) \<leftarrow> mod_load_enter E tx4 s5; Some (ret, tx4, s6) } } })"

definition mod_load :: "'h env \<Rightarrow> string \<Rightarrow> 'h xy_state \<Rightarrow> (int \<times> 'h xy_state) option" where
  "mod_load E fname s =
     do { plen \<leftarrow> region_current_plen s;
          (ret, tx, s1) \<leftarrow> mod_load_open_handle E (txn_start (xy_current_region_id s) plen) fname s;
          if ret \<noteq> XY_OK then Some (fail_with ret s1)
          else do {
            (reused, tx, s2) \<leftarrow> mod_load_try_reuse_existing tx s1;
            if reused then Some (XY_OK, s2)
            else do {
              (ret, tx, s3) \<leftarrow> mod_load_steps E tx fname s2;
              if ret \<noteq> XY_OK then mod_load_abort E tx ret s3
              else Some (XY_OK, snd (mod_load_restore_context tx s3)) } } }"

definition xy_load :: "'h env \<Rightarrow> string \<Rightarrow> 'h xy_state \<Rightarrow> (int \<times> 'h xy_state) option" where
  "xy_load E fname s =
     do { (enter_ret, s) \<leftarrow> xy_runtime_ensure E s;
          if enter_ret \<noteq> XY_OK then Some (fail_with enter_ret s)
          else do { (ret, s1) \<leftarrow> mod_load E fname s; Some (fail_with ret s1) } }"


section \<open>Unloading\<close>

definition module_base_from_symbol :: "'h env \<Rightarrow> fnptr option \<Rightarrow> addr option" where
  "module_base_from_symbol E f = (case f of None \<Rightarrow> None | Some f \<Rightarrow> dladdr_base E f)"

definition module_handle_base :: "'h env \<Rightarrow> dlhandle option \<Rightarrow> addr option" where
  "module_handle_base E handle =
     (let any_sym = module_lookup_symbol_raw E handle ''xy_install'';
          any_sym = (if any_sym = None then module_lookup_symbol_raw E handle ''get_xy_ptr'' else any_sym)
      in module_base_from_symbol E any_sym)"

text \<open>The body of the loop over a symbol cache: pointers into the object are forgotten.\<close>

definition forget_base :: "'h env \<Rightarrow> addr \<Rightarrow> fn_slot \<Rightarrow> fn_slot" where
  "forget_base E base fp =
     (case fp of Fn f \<Rightarrow> if module_base_from_symbol E (Some f) = Some base then FN_NULL else fp | _ \<Rightarrow> fp)"

fun clear_loop :: "'h env \<Rightarrow> mptr \<Rightarrow> addr \<Rightarrow> (corm_key \<times> corm_val) list \<Rightarrow> 'h xy_state \<Rightarrow> 'h xy_state option" where
  "clear_loop E entry base [] s = Some s"
| "clear_loop E entry base ((k, v) # kvs) s =
     (case corm_ptr (Some v) of
        None \<Rightarrow> clear_loop E entry base kvs s
      | Some m \<Rightarrow>
          if m = entry then clear_loop E entry base kvs s
          else do { s1 \<leftarrow> wr_mod m (\<lambda>e. e\<lparr>me_fn_cache := map (forget_base E base) (me_fn_cache e)\<rparr>) s;
                    clear_loop E entry base kvs s1 })"

definition module_clear_fn_cache_for_handle :: "'h env \<Rightarrow> mptr option \<Rightarrow> 'h xy_state \<Rightarrow> 'h xy_state option" where
  "module_clear_fn_cache_for_handle E entry s =
     (case entry of
        None \<Rightarrow> Some s
      | Some m \<Rightarrow>
          do { e \<leftarrow> mods s m;
               if me_handle e = None then Some s
               else case module_handle_base E (me_handle e) of
                 None \<Rightarrow> Some s
               | Some base \<Rightarrow> clear_loop E m base (tbl_iter E s (mod_hd (xy_rt s))) s })"

definition module_remove_path_owned_entries ::
  "'h env \<Rightarrow> rptr option \<Rightarrow> sptr option \<Rightarrow> 'h xy_state \<Rightarrow> 'h xy_state option" where
  "module_remove_path_owned_entries E re path s =
     (if re = None \<or> path = None then Some s else module_remove_denies E re path s)"

text \<open>The modules a module has loaded, in the order the table lists them.\<close>

fun children_of :: "'h xy_state \<Rightarrow> mptr \<Rightarrow> (corm_key \<times> corm_val) list \<Rightarrow> mptr list option" where
  "children_of s entry [] = Some []"
| "children_of s entry ((k, v) # kvs) =
     (case corm_ptr (Some v) of
        None \<Rightarrow> children_of s entry kvs
      | Some m \<Rightarrow>
          if m = entry then children_of s entry kvs
          else do { e \<leftarrow> mods s m;
                    ms \<leftarrow> children_of s entry kvs;
                    Some (if me_parent_entry e = Some entry then m # ms else ms) })"

text \<open>\<^verbatim>\<open>for (i = 0; i < nchildren; i++)\<close>: \<open>unl\<close> unloads a name in a region.\<close>

fun unload_children ::
  "(string \<Rightarrow> u64 \<Rightarrow> u8 \<Rightarrow> 'h xy_state \<Rightarrow> (int \<times> 'h xy_state) option) \<Rightarrow> mptr list \<Rightarrow> 'h xy_state \<Rightarrow>
     'h xy_state option" where
  "unload_children unl [] s = Some s"
| "unload_children unl (m # ms) s =
     do { e \<leftarrow> mods s m;
          child_path \<leftarrow> (case me_ctx e of
             None \<Rightarrow> Some None | Some c \<Rightarrow> do { x \<leftarrow> ctxs s c; Some (cx_module_path x) });
          case child_path of
            None \<Rightarrow> unload_children unl ms s
          | Some path \<Rightarrow>
              do { (_, s1) \<leftarrow> unl path (me_region_id e) (me_region_plen e) s; unload_children unl ms s1 } }"

text \<open>The removal itself, after the cascade.\<close>

definition mod_remove :: "'h env \<Rightarrow> mptr \<Rightarrow> 'h xy_state \<Rightarrow> 'h xy_state option" where
  "mod_remove E m s =
     do { s1 \<leftarrow> module_clear_fn_cache_for_handle E (Some m) s;
          e \<leftarrow> mods s1 m;
          s2 \<leftarrow> (if me_region_entry e \<noteq> None \<and> me_load_path e \<noteq> None
                 then module_remove_path_owned_entries E (me_region_entry e) (me_load_path e) s1 else Some s1);
          s3 \<leftarrow> module_region_detach (Some m) s2;
          s4 \<leftarrow> unpublish E m s3;
          module_free_entry E (Some m) True (upd_rt (\<lambda>r. r\<lparr>xy_mod_count := xy_mod_count r - 1\<rparr>) s4) }"

text \<open>
  \<^verbatim>\<open>_mod_unload\<close>. The fuel bounds the depth of the cascade; \<^const>\<open>None\<close> when it runs out. A
  module's \<^verbatim>\<open>parent_entry\<close> is an entry that was allocated earlier, so that the number of
  addresses handed out bounds the cascade (proved in \<open>Xy_Cascade\<close>).
\<close>

fun mod_unload ::
  "nat \<Rightarrow> 'h env \<Rightarrow> string \<Rightarrow> u64 \<Rightarrow> u8 \<Rightarrow> 'h xy_state \<Rightarrow> (int \<times> 'h xy_state) option" where
  "mod_unload 0 E fname region_id plen s = None"
| "mod_unload (Suc n) E fname region_id plen s =
     (let lookup = module_lookup_from_fname E fname region_id plen s
      in if lr_err lookup \<noteq> XY_OK then Some (fail_with (lr_err lookup) s)
         else case lr_entry lookup of
           None \<Rightarrow> Some (fail_with XY_ERR_NOTFOUND s)
         | Some m \<Rightarrow>
             do { s1 \<leftarrow> wr_mod m (\<lambda>e. e\<lparr>me_refcount := me_refcount e - 1\<rparr>) s;
                  e \<leftarrow> mods s1 m;
                  if me_refcount e > 0 then Some (XY_OK, s1)
                  else do {
                    children \<leftarrow> children_of s1 m (tbl_iter E s1 (mod_hd (xy_rt s1)));
                    s2 \<leftarrow> unload_children (mod_unload n E) children s1;
                    s3 \<leftarrow> mod_remove E m s2;
                    Some (XY_OK, s3) } })"

definition xy_unload :: "'h env \<Rightarrow> string \<Rightarrow> 'h xy_state \<Rightarrow> (int \<times> 'h xy_state) option" where
  "xy_unload E fname s =
     do { (enter_ret, s) \<leftarrow> xy_runtime_ensure E s;
          if enter_ret \<noteq> XY_OK then Some (fail_with enter_ret s)
          else do { plen \<leftarrow> region_current_plen s;
                    (ret, s1) \<leftarrow> mod_unload (link_fuel s) E fname (xy_current_region_id s) plen s;
                    Some (fail_with ret s1) } }"


section \<open>Reloading\<close>

definition xy_reload :: "'h env \<Rightarrow> string \<Rightarrow> 'h xy_state \<Rightarrow> (int \<times> 'h xy_state) option" where
  "xy_reload E fname s =
     do { (enter_ret, s) \<leftarrow> xy_runtime_ensure E s;
          if enter_ret \<noteq> XY_OK then Some (fail_with enter_ret s)
          else do {
            let region_id = xy_current_region_id s;
            plen \<leftarrow> region_current_plen s;
            let lookup = module_lookup_from_fname E fname region_id plen s;
            if lr_err lookup \<noteq> XY_OK then Some (fail_with (lr_err lookup) s)
            else case lr_entry lookup of
              None \<Rightarrow> Some (fail_with XY_ERR_NOTFOUND s)
            | Some existing \<Rightarrow>
                do { e \<leftarrow> mods s existing;
                     let insert_after = me_region_prev e;
                     let re = me_region_entry e;
                     (uret, s1) \<leftarrow> mod_unload (link_fuel s) E fname region_id plen s;
                     if uret \<noteq> XY_OK then Some (fail_with uret s1)
                     else do {
                       (lret, s2) \<leftarrow> mod_load E fname (s1\<lparr>xy_reloading := True\<rparr>);
                       let s3 = s2\<lparr>xy_reloading := False\<rparr>;
                       if lret \<noteq> XY_OK then Some (fail_with lret s3)
                       else do {
                         let lookup = module_lookup_from_fname E fname region_id plen s3;
                         if lr_err lookup \<noteq> XY_OK then Some (fail_with (lr_err lookup) s3)
                         else if lr_entry lookup = None \<or> re = None then Some (fail_with XY_OK s3)
                         else do { s4 \<leftarrow> module_region_detach (lr_entry lookup) s3;
                                   s5 \<leftarrow> module_region_insert_after re (lr_entry lookup) insert_after s4;
                                   Some (fail_with XY_OK s5) } } } } } }"


section \<open>Teardown\<close>

definition tbl_close :: "'h env \<Rightarrow> hd \<Rightarrow> 'h xy_state \<Rightarrow> 'h xy_state" where
  "tbl_close E d s = s\<lparr>st_corm := corm_close (env_corm E) (st_corm s) d\<rparr>"

text \<open>
  \<^verbatim>\<open>region_entry_free\<close>: the deny lists with their sets, the cached vectors with their arrays, and
  the entry.
\<close>

definition region_entry_free :: "'h env \<Rightarrow> rptr option \<Rightarrow> 'h xy_state \<Rightarrow> 'h xy_state option" where
  "region_entry_free E e s =
     (case e of
        None \<Rightarrow> Some s
      | Some p \<Rightarrow>
          do { r \<leftarrow> regions s p;
               let s1 = (if re_denied_hooks_set r \<noteq> 0 then tbl_close E (re_denied_hooks_set r) s else s);
               let s2 = (if re_denied_modules_set r \<noteq> 0 then tbl_close E (re_denied_modules_set r) s1 else s1);
               let arrays = List.map_filter hc_slots (re_hook_dispatch r);
               Some (s2\<lparr>slot_arrays := (\<lambda>a. if a \<in> set arrays then None else slot_arrays s2 a),
                        regions := (regions s2)(p := None)\<rparr>) })"

fun each_entry ::
  "(nat option \<Rightarrow> 'h xy_state \<Rightarrow> 'h xy_state option) \<Rightarrow> (corm_key \<times> corm_val) list \<Rightarrow> 'h xy_state \<Rightarrow> 'h xy_state option" where
  "each_entry f [] s = Some s"
| "each_entry f ((k, v) # kvs) s = do { s1 \<leftarrow> f (corm_ptr (Some v)) s; each_entry f kvs s1 }"

definition xy_runtime_teardown :: "'h env \<Rightarrow> 'h xy_state \<Rightarrow> 'h xy_state option" where
  "xy_runtime_teardown E s =
     do { let s = upd_rt (\<lambda>r. r\<lparr>xy_inited := False\<rparr>) s;
          s1 \<leftarrow> (if mod_hd (xy_rt s) = 0 then Some s
                 else do { u \<leftarrow> each_entry (\<lambda>m. module_free_entry E m True) (tbl_iter E s (mod_hd (xy_rt s))) s;
                           Some (upd_rt (\<lambda>r. r\<lparr>mod_hd := 0\<rparr>) (tbl_close E (mod_hd (xy_rt u)) u)) });
          let s2 = (if mod_by_region_hd (xy_rt s1) = 0 then s1
                    else upd_rt (\<lambda>r. r\<lparr>mod_by_region_hd := 0\<rparr>) (tbl_close E (mod_by_region_hd (xy_rt s1)) s1));
          s3 \<leftarrow> (if region_hd (xy_rt s2) = 0 then Some s2
                 else do { u \<leftarrow> each_entry (region_entry_free E) (tbl_iter E s2 (region_hd (xy_rt s2))) s2;
                           Some (upd_rt (\<lambda>r. r\<lparr>region_hd := 0\<rparr>) (tbl_close E (region_hd (xy_rt u)) u)) });
          let s4 = path_intern_free_all E s3;
          let s5 = upd_rt (\<lambda>r. r\<lparr>xy_mod_count := 0\<rparr>) s4;
          let s6 = set_current_region XY_REGION_ROOT None s5;
          Some (s6\<lparr>xy_last_ran := 0, xy_last_retp := None, xy_global := xy_t_zero\<rparr>) }"

definition xy_shutdown :: "'h env \<Rightarrow> 'h xy_state \<Rightarrow> 'h xy_state option" where
  "xy_shutdown E s =
     (if \<not> xy_inited (xy_rt s) then Some (set_err XY_OK s)
      else do { s1 \<leftarrow> xy_runtime_teardown E s; Some (set_err XY_OK s1) })"


section \<open>Errors\<close>

definition xy_errno :: "'h xy_state \<Rightarrow> int" where
  "xy_errno s = xy_err_val s"

definition xy_strerror :: "int \<Rightarrow> string" where
  "xy_strerror err =
     (if err = XY_OK then ''success''
      else if err = XY_ERR_NOTFOUND then ''not found''
      else if err = XY_ERR_INVALID then ''invalid argument''
      else if err = XY_ERR_TOOBIG then ''return type too large''
      else if err = XY_ERR_INIT then ''initialization failed''
      else if err = XY_ERR_EPERM then ''operation not permitted''
      else if err = XY_ERR_ABI then ''module context ABI mismatch (rebuild module)''
      else ''unknown error'')"

end
