(* ===== verification/Xy_Load_Safety.thy ===== *)
theory Xy_Load_Safety
  imports Xy_Load
begin

text \<open>
  Properties of the loader that hold whatever module code does: the gate in front of a
  module's context, loading a module that is there already, and what a claim and an unload do
  to the identity and to the symbol cache of other modules.
\<close>

section \<open>The context gate\<close>

text \<open>The module proved the layout of its context: it exports the descriptor of this host.\<close>

definition abi_matches :: "'h env \<Rightarrow> dlhandle option \<Rightarrow> bool" where
  "abi_matches E handle \<longleftrightarrow>
     (\<exists>abi. module_lookup_symbol_fn E handle ''xy_ctx_abi'' = Some abi \<and> call_abi E abi = 3 * 2 ^ 32 + 184)"

lemma desc_value: "XY_CTX_ABI_DESC = 3 * 2 ^ 32 + 184"
  by (simp add: XY_CTX_ABI_DESC_def XY_CTX_ABI_VER_def XY_CTX_SIZE_def)

lemma check_abi:
  "mod_load_check_ctx_abi E tx s = (if abi_matches E (tx_handle tx) then (XY_OK, s) else fail_with XY_ERR_ABI s)"
  by (simp add: mod_load_check_ctx_abi_def abi_matches_def desc_value split: option.splits)

text \<open>The context of the module: \<^verbatim>\<open>get_xy_ptr()\<close>, else what its constructor announced.\<close>

definition module_ctx :: "'h env \<Rightarrow> dlhandle option \<Rightarrow> 'h xy_state \<Rightarrow> cptr option" where
  "module_ctx E handle s =
     (case module_lookup_symbol_fn E handle ''get_xy_ptr'' of
        None \<Rightarrow> xy_pending_ctx s
      | Some f \<Rightarrow> (case call_get_xy E f of None \<Rightarrow> xy_pending_ctx s | Some c \<Rightarrow> Some c))"

lemma bind_xy_cases:
  "mod_load_bind_xy E tx s =
     (case module_ctx E (tx_handle tx) s of
        None \<Rightarrow> Some (XY_OK, tx, s\<lparr>xy_pending_ctx := None\<rparr>)
      | Some c \<Rightarrow>
          if \<not> abi_matches E (tx_handle tx)
          then Some (XY_ERR_ABI, tx, set_err XY_ERR_ABI (s\<lparr>xy_pending_ctx := None\<rparr>))
          else do { s3 \<leftarrow> xy_init_ctx c (tx_stable_fname tx) (tx_inherited_region_id tx) (s\<lparr>xy_pending_ctx := None\<rparr>);
                    m \<leftarrow> tx_mod_entry tx;
                    s4 \<leftarrow> wr_mod m (\<lambda>e. e\<lparr>me_ctx := Some c\<rparr>) s3;
                    Some (XY_OK, tx, s4) })"
  by (auto simp: mod_load_bind_xy_def module_ctx_def check_abi fail_with_def Let_def err_simps split: option.splits)

text \<open>
  C12. The loader never writes into the context of a module that does not prove its layout: when
  a load changes any context, the module exports \<^verbatim>\<open>xy_ctx_abi\<close> and its descriptor is the host's
  (generation 3, 184 bytes), the one context written is the module's own, and it holds the
  module's path and region and every function of the host's table except \<^verbatim>\<open>err\<close> and \<^verbatim>\<open>strerror\<close>,
  which keep what they had. A module with a context and another descriptor is refused with
  \<^const>\<open>XY_ERR_ABI\<close>. A context announced by a constructor is used at most once.
\<close>

theorem abi_gate:
  assumes "mod_load_bind_xy E tx s = Some (ret, tx', s')"
  shows "(ctxs s' = ctxs s \<or>
      (\<exists>c x. ret = XY_OK \<and> abi_matches E (tx_handle tx) \<and> module_ctx E (tx_handle tx) s = Some c \<and>
         ctxs s c = Some x \<and>
         ctxs s' = (ctxs s)(c \<mapsto> x\<lparr>cx_fns := (\<lambda>f. if f \<in> {Api_err, Api_strerror} then cx_fns x f else Some f),
           cx_module_path := tx_stable_fname tx, cx_region_id := tx_inherited_region_id tx\<rparr>))) \<and>
     (module_ctx E (tx_handle tx) s \<noteq> None \<and> \<not> abi_matches E (tx_handle tx) \<longrightarrow>
        ret = XY_ERR_ABI \<and> xy_err_val s' = XY_ERR_ABI \<and> ctxs s' = ctxs s \<and> mods s' = mods s) \<and>
     xy_pending_ctx s' = None"
proof (cases "module_ctx E (tx_handle tx) s")
  case None
  with assms show ?thesis by (auto simp: bind_xy_cases)
next
  case (Some c)
  show ?thesis
  proof (cases "abi_matches E (tx_handle tx)")
    case False
    with assms Some show ?thesis by (auto simp: bind_xy_cases set_err_def)
  next
    case True
    with assms Some obtain x where x: "ctxs s c = Some x" and ret: "ret = XY_OK"
        and s': "\<exists>m. s' = upd_mod m (\<lambda>e. e\<lparr>me_ctx := Some c\<rparr>) (upd_ctx c (\<lambda>x. (bind_fns init_fns x)
             \<lparr>cx_module_path := tx_stable_fname tx, cx_region_id := tx_inherited_region_id tx\<rparr>) (s\<lparr>xy_pending_ctx := None\<rparr>))"
        by (auto simp: bind_xy_cases xy_init_ctx_def wr_mod_def split: if_splits bind_splits)
    have "ctxs s' = (ctxs s)(c \<mapsto> x\<lparr>cx_fns := (\<lambda>f. if f \<in> {Api_err, Api_strerror} then cx_fns x f else Some f),
           cx_module_path := tx_stable_fname tx, cx_region_id := tx_inherited_region_id tx\<rparr>)"
      using s' x by (auto simp: upd_mod_def upd_ctx_def bind_init_fns)
    moreover have "xy_pending_ctx s' = None" using s' by (auto simp: upd_mod_def upd_ctx_def)
    ultimately show ?thesis using True Some x ret by blast
  qed
qed

theorem abi_gate_witness:
  "\<exists>tx' s'. mod_load_bind_xy (demo_env\<lparr>stl_dlsym := (\<lambda>h n. if n = ''get_xy_ptr'' then Some 20 else None)\<rparr>)
        (txn_start 0 0) demo_disp = Some (XY_ERR_ABI, tx', s') \<and> ctxs s' = ctxs demo_disp"
proof -
  let ?E = "demo_env\<lparr>stl_dlsym := (\<lambda>h n. if n = ''get_xy_ptr'' then Some 20 else None)\<rparr>"
  have c: "module_ctx ?E (tx_handle (txn_start 0 0)) demo_disp = Some 20" "\<not> abi_matches ?E (tx_handle (txn_start 0 0))"
    by (simp_all add: module_ctx_def abi_matches_def module_lookup_symbol_fn_def module_lookup_symbol_raw_def demo_env_def)
  then obtain tx' s' where r: "mod_load_bind_xy ?E (txn_start 0 0) demo_disp = Some (XY_ERR_ABI, tx', s')"
    by (simp add: bind_xy_cases)
  from abi_gate [OF r] c r show ?thesis by auto
qed


section \<open>Loading what is there\<close>

lemma lookup_found:
  assumes "never_oom E" "module_load_path E s fname = Some path"
  shows "module_lookup_from_fname E fname i plen s =
     \<lparr>lr_entry = corm_ptr (tbl_get E s (mod_hd (xy_rt s)) (KStr (mod_key (mod_key_len path) path i plen))),
      lr_key = Some (mod_key (mod_key_len path) path i plen), lr_load_path = Some path, lr_err = XY_OK\<rparr>"
  using assms by (simp add: module_lookup_from_fname_def never_oom_def Let_def)

text \<open>With memory, resolving a path does not depend on the state.\<close>

lemma load_path_same:
  assumes "never_oom E"
  shows "module_load_path E s fname = module_load_path E t fname"
proof -
  have "module_search_path_list E s = module_search_path_list E t"
    using assms by (simp add: fun_eq_iff search_path_list_eq never_oom_def)
  moreover have "malloc_ok E s n = malloc_ok E t n" for n using assms by (simp add: never_oom_def)
  ultimately show ?thesis by (simp only: module_load_path_def Let_def)
qed

lemma dl_balance: "dl_close (Some h) (s\<lparr>dl_refs := (dl_refs s)(h := dl_refs s h + 1)\<rparr>) = s"
  by (simp add: dl_close_def)

text \<open>
  Loading a file that is loaded in the current region already only counts: the entry's
  reference count goes up by one and the call returns \<^const>\<open>XY_OK\<close>; the object's own reference
  count, the tables, the module lists, the contexts and everything else are as the linker left
  them, and neither the context is bound again nor \<^verbatim>\<open>xy_install\<close> run.
\<close>

theorem load_again_counts:
  assumes "never_oom E" "ready E s" "\<not> xy_reloading s"
    and "module_load_path E s fname = Some path" "region_current_plen s = Some plen"
    and "tbl_get E s (mod_hd (xy_rt s)) (KStr (mod_key (mod_key_len path) path (xy_current_region_id s) plen)) = Some (VPtr m)"
    and "stl_dlopen E (Some path) s = Some (Some h, t)" "mods t m = Some e"
  shows "xy_load E fname s =
     Some (XY_OK, set_err XY_OK (t\<lparr>mods := (mods t)(m \<mapsto> e\<lparr>me_refcount := me_refcount e + 1\<rparr>)\<rparr>))"
proof -
  let ?l = "module_lookup_from_fname E fname (xy_current_region_id s) plen s"
  note l = lookup_found [OF assms(1,4), of "xy_current_region_id s" plen]
  have "mod_load E fname s = Some (XY_OK, t\<lparr>mods := (mods t)(m \<mapsto> e\<lparr>me_refcount := me_refcount e + 1\<rparr>)\<rparr>)"
    using assms(3,5,6,7,8)
    by (simp add: mod_load_def mod_load_open_handle_def txn_start_def l Let_def dl_open_def err_simps
        mod_load_try_reuse_existing_def wr_mod_def upd_mod_def dl_close_def unlink_file_def)
  then show ?thesis by (simp add: xy_load_def ensure_ready [OF assms(2)] fail_with_def)
qed

text \<open>The demo process with the module of \<^const>\<open>demo_listener\<close> under its key.\<close>

definition demo_loaded :: "alist_corm xy_state" where
  "demo_loaded = demo_reg\<lparr>
     st_corm := (st_corm demo_boot)\<lparr>ac_rows := (ac_rows (st_corm demo_boot))
       (4 := [(KStr (mod_key (mod_key_len ''mods/a.so'') ''mods/a.so'' 0 0), VPtr 10)])\<rparr>\<rparr>"

lemma demo_loaded_same:
  "regions demo_loaded = regions demo_reg" "next_addr demo_loaded = next_addr demo_reg" "xy_rt demo_loaded = xy_rt demo_boot"
  "mods demo_loaded = [10 \<mapsto> demo_listener]" "xy_current_region_id demo_loaded = 0"
  "xy_current_region_entry demo_loaded = Some 1" "ctxs demo_loaded = [20 \<mapsto> xy_t_zero]"
  by (simp_all add: demo_loaded_def demo_reg_def demo_disp_def demo_boot_fields)

lemma demo_loaded_tables:
  "tbl_single demo_tick demo_loaded d \<longleftrightarrow> d \<in> {1, 2, 3, 4, 6}"
  "tbl_get demo_tick demo_loaded d k =
     (if d = 4 \<and> k = KStr (mod_key (mod_key_len ''mods/a.so'') ''mods/a.so'' 0 0) then Some (VPtr 10)
      else if d = 6 \<and> k = KRegion root_key then Some (VPtr 1) else None)"
  by (auto simp: tbl_single_def tbl_get_def demo_disp_corm demo_loaded_def demo_boot_corm list_corm_def)

lemma demo_loaded_ready: "ready demo_tick demo_loaded"
proof -
  have k: "r_key demo_loaded = r_key demo_reg" "r_gen demo_loaded = r_gen demo_reg"
    by (simp_all add: fun_eq_iff r_key_def r_gen_def demo_loaded_same)
  have "tree_wf demo_loaded \<longleftrightarrow> tree_wf demo_reg" by (rule tree_wf_cong) (simp_all add: demo_loaded_same)
  moreover have "table_wf demo_tick demo_loaded"
    unfolding table_wf_def k demo_reg_key demo_loaded_tables demo_loaded_same by (auto simp: demo_boot_corm)
  moreover have "current_wf demo_loaded" unfolding current_wf_def k demo_reg_key demo_loaded_same
    by (simp add: root_key_def XY_REGION_ROOT_def)
  ultimately show ?thesis
    using demo_reg_ready unfolding ready_def region_wf_def k demo_loaded_same by (simp add: demo_boot_corm)
qed

lemma demo_loaded_path: "module_load_path demo_tick demo_loaded ''mods/a'' = Some ''mods/a.so''"
  by (simp add: module_load_path_def demo_tick_def demo_env_def Let_def)

lemma demo_loaded_plen: "region_current_plen demo_loaded = Some 0"
  by (simp add: region_current_plen_def demo_loaded_same demo_reg_def demo_disp_def demo_root_def region_zero_def)

theorem load_again_counts_witness:
  "\<exists>t e. xy_load demo_tick ''mods/a'' demo_loaded = Some (XY_OK, t) \<and> mods t 10 = Some e \<and>
     me_refcount e = me_refcount demo_listener + 1"
proof -
  have a: "\<not> xy_reloading demo_loaded"
    by (simp add: demo_loaded_def demo_reg_def demo_disp_def demo_boot_def xy_runtime_bootstrap_def demo_start_def
        open_table_def tbl_open_def region_ensure_root_def region_lookup_def demo_env_def list_corm_def upd_rt_def
        tbl_get_def new_region_def tbl_put_def set_current_region_def region_current_plen_def region_zero_def)
  have b: "tbl_get demo_tick demo_loaded (mod_hd (xy_rt demo_loaded))
      (KStr (mod_key (mod_key_len ''mods/a.so'') ''mods/a.so'' (xy_current_region_id demo_loaded) 0)) = Some (VPtr 10)"
    unfolding demo_loaded_tables demo_loaded_same by (simp add: demo_boot_corm)
  have c: "stl_dlopen demo_tick (Some ''mods/a.so'') demo_loaded = Some (Some 9, demo_loaded)"
    by (simp add: demo_tick_def demo_env_def)
  have d: "mods demo_loaded 10 = Some demo_listener" by (simp add: demo_loaded_same)
  show ?thesis
    using load_again_counts [OF demo_tick_quiet(2) demo_loaded_ready a demo_loaded_path demo_loaded_plen b c d]
    by (auto simp: heap_simps)
qed


section \<open>What a claim does to the identity of the module\<close>

lemma rekey_index_frame:
  assumes E: "env_ok E" and sg: "tbl_single E s d" "d \<noteq> mod_by_region_hd (xy_rt s)"
  shows "\<exists>c. module_rekey_region_index E m pid ppl cid cpl s = s\<lparr>st_corm := c\<rparr> \<and>
     tbl_get E (module_rekey_region_index E m pid ppl cid cpl s) d = tbl_get E s d \<and>
     tbl_single E (module_rekey_region_index E m pid ppl cid cpl s) = tbl_single E s"
proof -
  let ?d = "mod_by_region_hd (xy_rt s)" and ?pk = "KRegion (region_key pid ppl)"
  let ?s0 = "tbl_del_all E ?d ?pk s"
  define os where "os = take 512 (filter (\<lambda>e. e \<noteq> m)
     (List.map_filter (\<lambda>kv. corm_ptr (Some (snd kv))) (tbl_iter_key E s ?d ?pk)))"
  let ?s1 = "fold (\<lambda>e. tbl_put E ?d ?pk (VPtr e)) os ?s0"
  have s0: "tbl_single E ?s0 = tbl_single E s" "tbl_get E ?s0 d = tbl_get E s d"
    using sg by (simp_all add: fun_eq_iff tbl_single_del_all [OF E] tbl_get_del_all [OF E])
  have f: "?s1 = ?s0\<lparr>st_corm := st_corm ?s1\<rparr>" "tbl_get E ?s1 d = tbl_get E ?s0 d" "tbl_single E ?s1 = tbl_single E ?s0"
    using fold_tbl_put [OF E, of ?s0 d ?d ?pk os] sg s0 by simp_all
  have eq: "module_rekey_region_index E m pid ppl cid cpl s = tbl_put E ?d (KRegion (region_key cid cpl)) (VPtr m) ?s1"
    by (simp add: module_rekey_region_index_def Let_def os_def)
  have "tbl_get E (tbl_put E ?d (KRegion (region_key cid cpl)) (VPtr m) ?s1) d = tbl_get E s d"
    using f(2,3) s0 sg by (simp add: fun_eq_iff tbl_get_put [OF E])
  moreover have "\<exists>c. tbl_put E ?d (KRegion (region_key cid cpl)) (VPtr m) ?s1 = s\<lparr>st_corm := c\<rparr>"
    by (subst f(1)) (auto simp: tbl_put_def tbl_del_all_def)
  moreover have "tbl_single E (tbl_put E ?d (KRegion (region_key cid cpl)) (VPtr m) ?s1) = tbl_single E s"
    using f(3) s0 by (simp add: fun_eq_iff tbl_single_put [OF E])
  ultimately show ?thesis unfolding eq by blast
qed

text \<open>The entry, its row and its context after the renaming; every other table is as it was.\<close>

definition moved_ctx :: "u64 \<Rightarrow> cptr option \<Rightarrow> (cptr \<Rightarrow> xy_t option) \<Rightarrow> cptr \<Rightarrow> xy_t option" where
  "moved_ctx i c cs = (case c of None \<Rightarrow> cs | Some x \<Rightarrow> cs(x := map_option (\<lambda>x. x\<lparr>cx_region_id := i\<rparr>) (cs x)))"

lemma rekey_effects:
  assumes E: "env_ok E" and mem: "never_oom E" and path: "module_load_path E s caller = Some path"
    and sg: "tbl_single E s (mod_hd (xy_rt s))" "mod_hd (xy_rt s) \<noteq> mod_by_region_hd (xy_rt s)"
    and old: "old = mod_key (mod_key_len path) path pid ppl" and new: "new = mod_key (mod_key_len path) path cid cpl"
    and row: "tbl_get E s (mod_hd (xy_rt s)) (KStr old) = Some (VPtr m)"
    and e: "mods s m = Some e" "\<And>c. me_ctx e = Some c \<Longrightarrow> ctxs s c \<noteq> None"
  shows "\<exists>t. module_rekey_for_claim E caller pid ppl cid cpl s = Some t \<and>
     t = s\<lparr>st_corm := st_corm t, ctxs := moved_ctx cid (me_ctx e) (ctxs s), mods := (mods s)(m \<mapsto> e\<lparr>me_region_id := cid,
            me_region_plen := cpl, me_mod_key := new @ drop (mod_key_len path) (me_mod_key e)\<rparr>)\<rparr> \<and>
     tbl_get E t (mod_hd (xy_rt s)) = (tbl_get E s (mod_hd (xy_rt s)))(KStr new \<mapsto> VPtr m, KStr old := None) \<and>
     tbl_single E t = tbl_single E s \<and>
     (\<forall>d. tbl_single E s d \<longrightarrow> d \<noteq> mod_hd (xy_rt s) \<longrightarrow> d \<noteq> mod_by_region_hd (xy_rt s) \<longrightarrow> tbl_get E t d = tbl_get E s d)"
proof -
  let ?L = "mod_key_len path" and ?d = "mod_hd (xy_rt s)"
  define s1 where "s1 = upd_mod m (\<lambda>e. e\<lparr>me_region_id := cid, me_region_plen := cpl\<rparr>) s"
  define s3 where "s3 = tbl_del E ?d (KStr old) (tbl_put E ?d (KStr new) (VPtr m) s1)"
  define s4 where "s4 = upd_mod m (\<lambda>e. e\<lparr>me_mod_key := new @ drop ?L (me_mod_key e)\<rparr>) s3"
  define s5 where "s5 = module_rekey_region_index E m pid ppl cid cpl s4"
  have rt: "xy_rt s1 = xy_rt s" "xy_rt s3 = xy_rt s" "xy_rt s4 = xy_rt s"
    by (simp_all add: s1_def s3_def s4_def tbl_del_def heap_simps)
  have g1: "tbl_get E s1 = tbl_get E s" "tbl_single E s1 = tbl_single E s" by (simp_all add: s1_def heap_simps)
  have g3: "tbl_single E s3 = tbl_single E s"
    by (simp add: s3_def fun_eq_iff tbl_single_del [OF E] tbl_single_put [OF E] g1)
  have get3: "tbl_get E s3 d k = (if d = ?d \<and> k = KStr old then None else if d = ?d \<and> k = KStr new then Some (VPtr m)
      else tbl_get E s d k)" if "tbl_single E s d" for d k
    using that sg(1) by (auto simp: s3_def tbl_get_del [OF E] tbl_get_put [OF E] tbl_single_put [OF E] g1)
  have g4: "tbl_get E s4 = tbl_get E s3" "tbl_single E s4 = tbl_single E s3" by (simp_all add: s4_def heap_simps)
  have ix: "\<exists>c. s5 = s4\<lparr>st_corm := c\<rparr> \<and> tbl_get E s5 d = tbl_get E s4 d \<and> tbl_single E s5 = tbl_single E s4"
    if "tbl_single E s d" "d \<noteq> mod_by_region_hd (xy_rt s)" for d
    using rekey_index_frame [OF E, of s4 d m pid ppl cid cpl] that g3 g4 rt unfolding s5_def by simp
  obtain u where u: "s5 = s4\<lparr>st_corm := u\<rparr>" "tbl_single E s5 = tbl_single E s4" using ix [OF sg] by blast
  let ?e = "e\<lparr>me_region_id := cid, me_region_plen := cpl, me_mod_key := new @ drop ?L (me_mod_key e)\<rparr>"
  have m5: "mods s5 = (mods s)(m \<mapsto> ?e)"
    using e(1) by (simp add: fun_eq_iff u(1) s4_def s3_def s1_def heap_simps tbl_del_def)
  have c5: "ctxs s5 = ctxs s" by (simp add: u(1) s4_def s3_def s1_def heap_simps tbl_del_def)
  have alive: "mods s1 m \<noteq> None" "mods s3 m \<noteq> None" using e(1) by (simp_all add: s3_def s1_def heap_simps tbl_del_def)
  let ?t = "s5\<lparr>ctxs := moved_ctx cid (me_ctx e) (ctxs s)\<rparr>"
  have "module_rekey_loaded_entry E (Some m) (Some old) (Some path) pid ppl cid cpl s = Some ?t"
  proof (cases "me_ctx e")
    case None
    then have "?t = s5" by (simp add: moved_ctx_def c5 [symmetric])
    with None mem e(1) alive m5 show ?thesis
      by (simp add: module_rekey_loaded_entry_def never_oom_def Let_def wr_mod_def s1_def [symmetric] rt s3_def [symmetric]
          s4_def [symmetric] s5_def [symmetric] new [symmetric])
         (simp add: tbl_put_def s3_def s4_def s5_def rt)
  next
    case (Some c)
    with mem e alive m5 c5 show ?thesis
      by (simp add: module_rekey_loaded_entry_def never_oom_def Let_def wr_mod_def s1_def [symmetric] rt s3_def [symmetric]
          s4_def [symmetric] s5_def [symmetric] new [symmetric])
         (simp add: tbl_put_def s3_def s4_def s5_def rt upd_ctx_def moved_ctx_def)
  qed
  then have "module_rekey_for_claim E caller pid ppl cid cpl s = Some ?t"
    using row old by (simp add: module_rekey_for_claim_def lookup_found [OF mem path])
  moreover have "?t = s\<lparr>st_corm := st_corm ?t, ctxs := moved_ctx cid (me_ctx e) (ctxs s), mods := (mods s)(m \<mapsto> ?e)\<rparr>"
    using m5 by (simp add: u(1) s4_def s3_def s1_def upd_mod_def tbl_put_def tbl_del_def)
  moreover have tg: "tbl_get E ?t = tbl_get E s5" "tbl_single E ?t = tbl_single E s5" by (rule tbl_get_cong tbl_single_cong, simp)+
  moreover have "tbl_get E s5 ?d = (tbl_get E s ?d)(KStr new \<mapsto> VPtr m, KStr old := None)"
    using ix [OF sg] get3 [OF sg(1)] g4 by (simp add: fun_eq_iff)
  moreover have "tbl_get E s5 d = tbl_get E s d" if "tbl_single E s d" "d \<noteq> ?d" "d \<noteq> mod_by_region_hd (xy_rt s)" for d
    using ix [OF that(1,3)] get3 [OF that(1)] that(2) g4 by (simp add: fun_eq_iff)
  ultimately show ?thesis using u(2) g3 g4 by (intro exI [of _ ?t]) simp
qed

text \<open>
  The claim of a child region on behalf of a module renames the module from its parent's
  identity to the child's: entry and context name the child, the old key is free, all other keys
  are untouched, and the module is found under the child's identity - unless the child has the
  parent's id (which the first slot of a parent has) and the two widths agree in their high hex
  digit. Then both keys are the same string (the low digit is cut off), the deletion of the old
  row removes the new one, and the running module is found under no identity any more: it can
  be neither unloaded nor reloaded.
\<close>

theorem claim_renames_module:
  assumes "env_ok E" "never_oom E" "module_load_path E s caller = Some path" "NUL \<notin> set path"
    and "tbl_single E s (mod_hd (xy_rt s))" "mod_hd (xy_rt s) \<noteq> mod_by_region_hd (xy_rt s)"
    and "tbl_get E s (mod_hd (xy_rt s)) (KStr (mod_key (mod_key_len path) path pid ppl)) = Some (VPtr m)"
    and "mods s m = Some e" "me_ctx e = Some c" "ctxs s c = Some x"
  shows "\<exists>t e'. module_rekey_for_claim E caller pid ppl cid cpl s = Some t \<and>
     mods t m = Some e' \<and> me_region_id e' = cid \<and> me_region_plen e' = cpl \<and>
     ctxs t c = Some (x\<lparr>cx_region_id := cid\<rparr>) \<and>
     lr_entry (module_lookup_from_fname E caller cid cpl t) =
       (if cid = pid \<and> unat cpl div 16 = unat ppl div 16 then None else Some m) \<and>
     lr_entry (module_lookup_from_fname E caller pid ppl t) = None \<and>
     (\<forall>k. k \<noteq> KStr (mod_key (mod_key_len path) path pid ppl) \<longrightarrow> k \<noteq> KStr (mod_key (mod_key_len path) path cid cpl) \<longrightarrow>
        tbl_get E t (mod_hd (xy_rt s)) k = tbl_get E s (mod_hd (xy_rt s)) k)"
proof -
  let ?old = "mod_key (mod_key_len path) path pid ppl" and ?new = "mod_key (mod_key_len path) path cid cpl"
  have same: "?new = ?old \<longleftrightarrow> cid = pid \<and> unat cpl div 16 = unat ppl div 16"
    using mod_key_eq_iff [OF assms(4,4)] by simp
  from rekey_effects [OF assms(1-3,5,6) refl refl assms(7,8), where cid = cid and cpl = cpl] assms(9,10) obtain t where
    t: "module_rekey_for_claim E caller pid ppl cid cpl s = Some t"
      "t = s\<lparr>st_corm := st_corm t, ctxs := moved_ctx cid (me_ctx e) (ctxs s), mods := (mods s)(m \<mapsto> e\<lparr>me_region_id := cid,
            me_region_plen := cpl, me_mod_key := ?new @ drop (mod_key_len path) (me_mod_key e)\<rparr>)\<rparr>"
      "tbl_get E t (mod_hd (xy_rt s)) = (tbl_get E s (mod_hd (xy_rt s)))(KStr ?new \<mapsto> VPtr m, KStr ?old := None)" by auto
  have f: "xy_rt t = xy_rt s" "ctxs t = moved_ctx cid (me_ctx e) (ctxs s)"
    "mods t m = Some (e\<lparr>me_region_id := cid, me_region_plen := cpl, me_mod_key := ?new @ drop (mod_key_len path) (me_mod_key e)\<rparr>)"
    by (subst t(2), simp)+
  have "module_load_path E t caller = Some path" using assms(3) load_path_same [OF assms(2)] by metis
  then have "lr_entry (module_lookup_from_fname E caller cid cpl t) =
       (if cid = pid \<and> unat cpl div 16 = unat ppl div 16 then None else Some m)"
      "lr_entry (module_lookup_from_fname E caller pid ppl t) = None"
    using lookup_found [OF assms(2)] same by (simp_all add: f t(3))
  then show ?thesis
    using t(1,3) f assms(9,10) by (intro exI [of _ t] exI conjI) (auto simp: moved_ctx_def)
qed

theorem claim_renames_module_witness:
  "\<exists>t. module_rekey_for_claim demo_tick ''mods/a'' 0 0 0 4 demo_loaded = Some t \<and>
     lr_entry (module_lookup_from_fname demo_tick ''mods/a'' 0 4 t) = None \<and>
     lr_entry (module_lookup_from_fname demo_tick ''mods/a'' 0 0 t) = None"
proof -
  have a: "NUL \<notin> set ''mods/a.so''" by (simp add: NUL_def)
  have b: "tbl_single demo_tick demo_loaded (mod_hd (xy_rt demo_loaded))"
    "mod_hd (xy_rt demo_loaded) \<noteq> mod_by_region_hd (xy_rt demo_loaded)"
    "tbl_get demo_tick demo_loaded (mod_hd (xy_rt demo_loaded)) (KStr (mod_key (mod_key_len ''mods/a.so'') ''mods/a.so'' 0 0))
       = Some (VPtr 10)"
    unfolding demo_loaded_tables demo_loaded_same by (simp_all add: demo_boot_corm)
  have c: "mods demo_loaded 10 = Some demo_listener" "me_ctx demo_listener = Some 20" "ctxs demo_loaded 20 = Some xy_t_zero"
    by (simp_all add: demo_loaded_same demo_listener_def)
  show ?thesis
    using claim_renames_module [OF demo_tick_quiet(3,2) demo_loaded_path a b c, of 0 4] by auto
qed


section \<open>What an unload does to the symbol caches of other modules\<close>

lemma clear_loop_ok:
  assumes "\<And>m. listed kvs m \<Longrightarrow> mods s m \<noteq> None"
  shows "\<exists>t. clear_loop E x base kvs s = Some t \<and> t = s\<lparr>mods := mods t\<rparr> \<and>
     (\<forall>m. mods t m = (if listed kvs m \<and> m \<noteq> x
        then map_option (\<lambda>e. e\<lparr>me_fn_cache := map (forget_base E base) (me_fn_cache e)\<rparr>) (mods s m) else mods s m))"
  using assms
proof (induction kvs arbitrary: s)
  case Nil
  then show ?case by (simp add: listed_def)
next
  case (Cons kv kvs)
  obtain k v where kv: "kv = (k, v)" by (cases kv)
  let ?g = "\<lambda>e. e\<lparr>me_fn_cache := map (forget_base E base) (me_fn_cache e)\<rparr>"
  have idem: "map_option ?g (map_option ?g o') = map_option ?g o'" for o' :: "xy_mod_entry option"
  proof -
    have "forget_base E base (forget_base E base f) = forget_base E base f" for f
      by (simp add: forget_base_def split: fn_slot.splits)
    then show ?thesis by (cases o') simp_all
  qed
  show ?case
  proof (cases "corm_ptr (Some v) = None \<or> corm_ptr (Some v) = Some x")
    case True
    then have "listed (kv # kvs) m \<and> m \<noteq> x \<longleftrightarrow> listed kvs m \<and> m \<noteq> x" for m by (auto simp: kv listed_Cons)
    moreover have "clear_loop E x base (kv # kvs) s = clear_loop E x base kvs s" using True kv by auto
    ultimately show ?thesis using Cons.IH [of s] Cons.prems by (simp add: kv listed_Cons)
  next
    case False
    then obtain m where m: "corm_ptr (Some v) = Some m" "m \<noteq> x" by auto
    let ?s1 = "upd_mod m ?g s"
    have "mods ?s1 q \<noteq> None" if "listed kvs q" for q
      using Cons.prems [of q] that by (auto simp: kv listed_Cons heap_simps)
    from Cons.IH [OF this] obtain t where t: "clear_loop E x base kvs ?s1 = Some t" "t = ?s1\<lparr>mods := mods t\<rparr>"
      "\<forall>q. mods t q = (if listed kvs q \<and> q \<noteq> x then map_option ?g (mods ?s1 q) else mods ?s1 q)" by blast
    have "mods s m \<noteq> None" using Cons.prems [of m] m by (simp add: kv listed_Cons)
    then have "clear_loop E x base (kv # kvs) s = Some t" using t(1) m kv by (simp add: wr_mod_def)
    moreover have "t = s\<lparr>mods := mods t\<rparr>" by (subst t(2)) (simp add: upd_mod_def)
    moreover have "mods t q = (if listed (kv # kvs) q \<and> q \<noteq> x then map_option ?g (mods s q) else mods s q)" for q
      using t(3) m idem [of "mods s q"] by (auto simp: kv listed_Cons heap_simps)
    ultimately show ?thesis by blast
  qed
qed

end
