(* ===== verification/Xy_Load_Ok.thy ===== *)
theory Xy_Load_Ok
  imports Xy_Load_Safety
begin

text \<open>
  What a load does, on every way through it: the module is registered and entered, or it is
  refused and taken back. The module's constructors may map its static contexts and announce
  one of them; its installer is quiet.
\<close>

section \<open>The states of a load\<close>

definition load_ready :: "'h env \<Rightarrow> 'h xy_state \<Rightarrow> bool" where
  "load_ready E s \<longleftrightarrow>
     ready E s \<and> mods_wf s \<and> intern_wf E s \<and> caches_ok E s \<and> hooks_wf E s \<and> hook_tab E s \<and> unused_ok E s \<and>
     tbl_single E s (mod_hd (xy_rt s)) \<and> mod_hd (xy_rt s) \<noteq> 0 \<and> \<not> tbl_single E s (mod_by_region_hd (xy_rt s)) \<and>
     distinct [mod_hd (xy_rt s), path_intern_hd (xy_rt s), region_hd (xy_rt s), hook_id_hd (xy_rt s)]"

text \<open>A file that is not loaded in the current region, and what opening it does.\<close>

definition opened :: "string list \<Rightarrow> dlhandle \<Rightarrow> (cptr \<Rightarrow> xy_t option) \<Rightarrow> cptr option \<Rightarrow> 'h xy_state \<Rightarrow> 'h xy_state" where
  "opened tf h cs pc s = s\<lparr>ctxs := cs, xy_pending_ctx := pc, dl_refs := (dl_refs s)(h := dl_refs s h + 1),
     tmp_files := tf\<rparr>"

definition fresh_file ::
  "'h env \<Rightarrow> 'h xy_state \<Rightarrow> string \<Rightarrow> string \<Rightarrow> string \<Rightarrow> dlhandle \<Rightarrow> (cptr \<Rightarrow> xy_t option) \<Rightarrow> cptr option \<Rightarrow> bool" where
  "fresh_file E s fname path key h cs pc \<longleftrightarrow>
     \<not> xy_reloading s \<and> module_load_path E s fname = Some path \<and>
     (\<exists>plen. region_current_plen s = Some plen \<and> key = mod_key (mod_key_len path) path (xy_current_region_id s) plen) \<and>
     tbl_get E s (mod_hd (xy_rt s)) (KStr key) = None \<and>
     stl_dlopen E (Some path) s = Some (Some h, s\<lparr>ctxs := cs, xy_pending_ctx := pc\<rparr>)"

text \<open>
  What copying and opening answer during a reload: the name of the copy, or \<^const>\<open>None\<close> when none could be
  made and the file itself is opened; \<open>tf\<close> are the temporary files that exist afterwards.
\<close>

definition reopened ::
  "'h env \<Rightarrow> 'h xy_state \<Rightarrow> string \<Rightarrow> string option \<Rightarrow> string list \<Rightarrow> dlhandle \<Rightarrow> (cptr \<Rightarrow> xy_t option) \<Rightarrow> cptr option \<Rightarrow> bool" where
  "reopened E s path tmp tf h cs pc \<longleftrightarrow>
     (case tmp of
        None \<Rightarrow> \<exists>rc x. copy_to_tmp E path s = ((rc, x), s\<lparr>tmp_files := tf\<rparr>) \<and> rc \<noteq> 0
      | Some f \<Rightarrow> copy_to_tmp E path s = ((0, Some f), s\<lparr>tmp_files := tf\<rparr>)) \<and>
     stl_dlopen E (if tmp = None then Some path else tmp) (s\<lparr>tmp_files := tf\<rparr>) =
       Some (Some h, s\<lparr>ctxs := cs, xy_pending_ctx := pc, tmp_files := tf\<rparr>)"

definition fresh_from ::
  "'h env \<Rightarrow> 'h xy_state \<Rightarrow> string option \<Rightarrow> string list \<Rightarrow> string \<Rightarrow> string \<Rightarrow> string \<Rightarrow> dlhandle \<Rightarrow>
     (cptr \<Rightarrow> xy_t option) \<Rightarrow> cptr option \<Rightarrow> bool" where
  "fresh_from E s tmp tf fname path key h cs pc \<longleftrightarrow>
     module_load_path E s fname = Some path \<and>
     (\<exists>plen. region_current_plen s = Some plen \<and> key = mod_key (mod_key_len path) path (xy_current_region_id s) plen) \<and>
     tbl_get E s (mod_hd (xy_rt s)) (KStr key) = None \<and>
     (if xy_reloading s then reopened E s path tmp tf h cs pc
      else tmp = None \<and> tf = tmp_files s \<and>
           stl_dlopen E (Some path) s = Some (Some h, s\<lparr>ctxs := cs, xy_pending_ctx := pc\<rparr>))"

lemma fresh_file_from:
  "fresh_file E s fname path key h cs pc \<longleftrightarrow>
     fresh_from E s None (tmp_files s) fname path key h cs pc \<and> \<not> xy_reloading s"
  by (auto simp: fresh_file_def fresh_from_def)

text \<open>The new entry, and the state in which it is allocated and in the tables.\<close>

definition entry_for :: "string option \<Rightarrow> dlhandle \<Rightarrow> string \<Rightarrow> sptr \<Rightarrow> u8 \<Rightarrow> 'h xy_state \<Rightarrow> xy_mod_entry" where
  "entry_for tmp h key x plen s = mod_zero\<lparr>me_handle := Some h, me_region_id := xy_current_region_id s,
     me_region_plen := plen, me_refcount := 1, me_parent_entry := xy_loading_mod s, me_mod_key := key,
     me_load_path := Some x, me_tmp_load_path := tmp\<rparr>"

definition registered :: "'h env \<Rightarrow> 'h xy_state \<Rightarrow> mptr \<Rightarrow> xy_mod_entry \<Rightarrow> string \<Rightarrow> 'h xy_state \<Rightarrow> bool" where
  "registered E s m e key t \<longleftrightarrow>
     t = s\<lparr>st_corm := st_corm t, paths := paths t, next_addr := next_addr t, mods := (mods s)(m \<mapsto> e)\<rparr> \<and>
     next_addr s \<le> m \<and> m < next_addr t \<and> tbl_single E t = tbl_single E s \<and>
     (\<forall>d. tbl_single E s d \<longrightarrow> d \<noteq> mod_hd (xy_rt s) \<longrightarrow> d \<noteq> path_intern_hd (xy_rt s) \<longrightarrow> tbl_get E t d = tbl_get E s d) \<and>
     tbl_get E t (mod_hd (xy_rt s)) = (tbl_get E s (mod_hd (xy_rt s)))(KStr key \<mapsto> VPtr m)"

lemma opened_reads:
  "tbl_get E (opened tf h cs pc s) = tbl_get E s" "tbl_single E (opened tf h cs pc s) = tbl_single E s"
  "xy_rt (opened tf h cs pc s) = xy_rt s" "mods (opened tf h cs pc s) = mods s" "regions (opened tf h cs pc s) = regions s"
  "next_addr (opened tf h cs pc s) = next_addr s"
  "intern_wf E (opened tf h cs pc s) = intern_wf E s"
proof -
  show tab: "tbl_get E (opened tf h cs pc s) = tbl_get E s" "tbl_single E (opened tf h cs pc s) = tbl_single E s"
    by (rule tbl_get_cong, simp add: opened_def) (rule tbl_single_cong, simp add: opened_def)
  show fr: "xy_rt (opened tf h cs pc s) = xy_rt s" "mods (opened tf h cs pc s) = mods s" "regions (opened tf h cs pc s) = regions s"
    "next_addr (opened tf h cs pc s) = next_addr s" by (simp_all add: opened_def)
  have "paths (opened tf h cs pc s) = paths s" by (simp add: opened_def)
  then show "intern_wf E (opened tf h cs pc s) = intern_wf E s" by (simp add: intern_wf_def tab fr)
qed

text \<open>Interning only touches its own table, the strings and the allocator.\<close>

lemma intern_frame:
  assumes "path_intern_hd (xy_rt s) \<noteq> 0" "module_path_intern E (Some str) s = (p, s')"
  shows "s' = s\<lparr>st_corm := st_corm s', paths := paths s', next_addr := next_addr s'\<rparr>"
  using assms by (auto simp: module_path_intern_def Let_def tbl_put_def split: option.splits)

lemma open_fresh:
  assumes "never_oom E" "fresh_from E s tmp tf fname path key h cs pc" "region_current_plen s = Some plen"
  shows "\<exists>tx. mod_load_open_handle E (txn_start (xy_current_region_id s) plen) fname s = Some (XY_OK, tx, opened tf h cs pc s) \<and>
     mod_load_try_reuse_existing tx t = Some (False, tx, t) \<and>
     tx = (txn_start (xy_current_region_id s) plen)\<lparr>tx_handle := Some h, tx_tmp_load_path := tmp, tx_lookup := tx_lookup tx\<rparr> \<and>
     lr_key (tx_lookup tx) = Some key \<and> lr_load_path (tx_lookup tx) = Some path"
proof -
  have id: "s\<lparr>tmp_files := tmp_files s\<rparr> = s" by (auto intro!: xy_state.equality)
  show ?thesis
    using assms id
    by (cases tmp; cases "xy_reloading s") (auto simp: fresh_from_def reopened_def mod_load_open_handle_def txn_start_def lookup_found Let_def dl_open_def err_simps
        opened_def mod_load_try_reuse_existing_def)
qed

lemma steps_registered:
  assumes E: "env_ok E" and mem: "never_oom E" and wf: "load_ready E s"
    and tx: "tx = (txn_start (xy_current_region_id s) plen)\<lparr>tx_handle := Some h, tx_tmp_load_path := tmp, tx_lookup := tx_lookup tx\<rparr>"
      "lr_key (tx_lookup tx) = Some key" "lr_load_path (tx_lookup tx) = Some path"
  shows "\<exists>m x tx1 t1 tx2 t2. mod_load_alloc_entry E tx fname (opened tf h cs pc s) = (XY_OK, tx1, t1) \<and>
     mod_load_publish_entry E tx1 t1 = Some (XY_OK, tx2, t2) \<and>
     registered E (opened tf h cs pc s) m (entry_for tmp h key x plen s) key t2 \<and> paths t2 x = Some path \<and> intern_wf E t2 \<and>
     tx_handle tx2 = Some h \<and> tx_stable_fname tx2 = Some fname \<and> tx_mod_entry tx2 = Some m \<and>
     tx_inherited_region_id tx2 = xy_current_region_id s \<and> tx_inherited_region_plen tx2 = plen \<and>
     tx_published_entry tx2 \<and> \<not> tx_context_active tx2 \<and> tx_tmp_load_path tx2 = None"
proof -
  let ?s = "opened tf h cs pc s" and ?ph = "path_intern_hd (xy_rt s)"
  note op = opened_reads [where tf = tf and h = h and cs = cs and pc = pc and s = s]
  note w = wf [unfolded load_ready_def]
  have iw: "intern_wf E ?s" using w op by simp
  from intern_result [OF E iw, of path] obtain x s1 where x: "module_path_intern E (Some path) ?s = (Some x, s1)" "intern_wf E s1"
     "paths s1 x = Some path" "xy_rt s1 = xy_rt ?s" "next_addr ?s \<le> next_addr s1" "tbl_single E s1 = tbl_single E ?s"
     "\<forall>d. d \<noteq> path_intern_hd (xy_rt ?s) \<longrightarrow> tbl_single E ?s d \<longrightarrow> tbl_get E s1 d = tbl_get E ?s d" by blast
  have s1: "s1 = ?s\<lparr>st_corm := st_corm s1, paths := paths s1, next_addr := next_addr s1\<rparr>"
    using intern_frame [OF _ x(1)] w op by (simp add: intern_wf_def)
  define m where "m = next_addr s1"
  define e where "e = entry_for tmp h key x plen s"
  define s2 where "s2 = s1\<lparr>mods := (mods s1)(m \<mapsto> e), next_addr := Suc m\<rparr>"
  define s3 where "s3 = tbl_put E (mod_hd (xy_rt s)) (KStr key) (VPtr m) s2"
  define s4 where "s4 = tbl_put E (mod_by_region_hd (xy_rt s)) (KRegion (region_key (me_region_id e) (me_region_plen e))) (VPtr m) s3"
  have ld: "xy_loading_mod s1 = xy_loading_mod s" by (subst s1) (simp add: opened_def)
  have h2: "tbl_get E s2 = tbl_get E s1" "tbl_single E s2 = tbl_single E s1"
    by (rule tbl_get_cong, simp add: s2_def) (rule tbl_single_cong, simp add: s2_def)
  have sg: "tbl_single E s4 = tbl_single E ?s"
    using h2 x(6) by (simp add: fun_eq_iff s4_def s3_def tbl_single_put [OF E])
  have by_region: "d \<noteq> mod_by_region_hd (xy_rt s)" if "tbl_single E ?s d" for d using that w op by auto
  have get: "tbl_get E s4 d k = (if d = mod_hd (xy_rt s) \<and> k = KStr key then Some (VPtr m) else tbl_get E s1 d k)"
    if "tbl_single E ?s d" for d k
    using that by_region [OF that] h2 x(6) op by (simp add: s4_def s3_def tbl_get_put [OF E] tbl_single_put [OF E])
  have s4: "s4 = ?s\<lparr>st_corm := st_corm s4, paths := paths s4, next_addr := next_addr s4, mods := (mods ?s)(m \<mapsto> e)\<rparr>"
  proof -
    obtain c ps n where e1: "s1 = ?s\<lparr>st_corm := c, paths := ps, next_addr := n\<rparr>" using s1 by blast
    show ?thesis unfolding s4_def s3_def s2_def tbl_put_def e1 by simp
  qed
  have n4: "next_addr s4 = Suc m" "paths s4 = paths s1" "xy_rt s4 = xy_rt s" "mods s4 m = Some e"
    using x(4) op by (simp_all add: s4_def s3_def s2_def tbl_put_def)
  have "registered E ?s m e key s4"
    unfolding registered_def
  proof (intro conjI allI impI)
    show "s4 = ?s\<lparr>st_corm := st_corm s4, paths := paths s4, next_addr := next_addr s4, mods := (mods ?s)(m \<mapsto> e)\<rparr>" by (rule s4)
    show "next_addr ?s \<le> m" using x(5) by (simp add: m_def)
    show "m < next_addr s4" using n4 by simp
    show "tbl_single E s4 = tbl_single E ?s" by (rule sg)
    have md: "tbl_single E ?s (mod_hd (xy_rt s))" "mod_hd (xy_rt s) \<noteq> ?ph" using w op by auto
    from get [OF md(1)] x(7) md show "tbl_get E s4 (mod_hd (xy_rt ?s)) = (tbl_get E ?s (mod_hd (xy_rt ?s)))(KStr key \<mapsto> VPtr m)"
      by (simp add: fun_eq_iff op(3))
  next
    fix d assume d: "tbl_single E ?s d" "d \<noteq> mod_hd (xy_rt ?s)" "d \<noteq> path_intern_hd (xy_rt ?s)"
    with get [OF d(1)] x(7) show "tbl_get E s4 d = tbl_get E ?s d" by (simp add: fun_eq_iff op(3))
  qed
  moreover have "intern_wf E s4"
  proof -
    have ps: "tbl_single E ?s ?ph" "?ph \<noteq> mod_hd (xy_rt s)" using w op by (auto simp: intern_wf_def)
    have "tbl_get E s4 ?ph = tbl_get E s1 ?ph" using get [OF ps(1)] ps(2) by (simp add: fun_eq_iff)
    moreover have "p < next_addr s4" if "paths s1 p \<noteq> None" for p
      using x(2) that n4 unfolding intern_wf_def m_def by fastforce
    ultimately show ?thesis
      using x(2,4) ps sg op unfolding intern_wf_def n4 by auto
  qed
  moreover have "paths s4 x = Some path" using x(3) n4 by simp
  moreover have "\<exists>tx1. mod_load_alloc_entry E tx fname ?s = (XY_OK, tx1, s2) \<and> tx_mod_entry tx1 = Some m \<and>
      tx_stable_key tx1 = Some key \<and> tx_handle tx1 = Some h \<and> tx_stable_fname tx1 = Some fname \<and>
      tx_inherited_region_id tx1 = xy_current_region_id s \<and> tx_inherited_region_plen tx1 = plen \<and>
      \<not> tx_context_active tx1 \<and> tx_tmp_load_path tx1 = None"
  proof -
    obtain lk where lk: "tx = (txn_start (xy_current_region_id s) plen)\<lparr>tx_handle := Some h, tx_tmp_load_path := tmp, tx_lookup := lk\<rparr>"
      using tx(1) by blast
    show ?thesis
      using mem tx(2,3) x(1) ld unfolding lk
      by (simp add: mod_load_alloc_entry_def never_oom_def txn_start_def Let_def new_mod_def m_def s2_def e_def
          entry_for_def mod_zero_def)
  qed
  then obtain tx1 where t1: "mod_load_alloc_entry E tx fname ?s = (XY_OK, tx1, s2)" "tx_mod_entry tx1 = Some m"
      "tx_stable_key tx1 = Some key" "tx_handle tx1 = Some h" "tx_stable_fname tx1 = Some fname"
      "tx_inherited_region_id tx1 = xy_current_region_id s" "tx_inherited_region_plen tx1 = plen"
      "\<not> tx_context_active tx1" "tx_tmp_load_path tx1 = None" by blast
  have "xy_rt s2 = xy_rt s" "mods s3 m = Some e" "xy_rt s3 = xy_rt s" using x(4) op by (simp_all add: s2_def s3_def tbl_put_def)
  then have "mod_load_publish_entry E tx1 s2 = Some (XY_OK, tx1\<lparr>tx_published_entry := True\<rparr>, s4)"
    using t1(2,3) by (simp add: mod_load_publish_entry_def Let_def s3_def [symmetric]) (simp add: s4_def)
  ultimately show ?thesis
    using t1
    by (intro exI [of _ m] exI [of _ x] exI [of _ tx1] exI [of _ s2] exI [of _ "tx1\<lparr>tx_published_entry := True\<rparr>"] exI [of _ s4])
       (simp add: e_def)
qed

end
