(* ===== verification/Xy_Load_Props.thy ===== *)
theory Xy_Load_Props
  imports Xy_Load_Ok
begin

text \<open>
  The two ends of a load: a module whose context does not match the host is taken back without a
  trace in the library's data, and a module that passes every gate is registered, entered at the
  end of its region's list, resolved and installed.
\<close>

section \<open>A refused context\<close>

lemma mod_lookup_fresh: "load_ready E s \<Longrightarrow> next_addr s \<le> m \<Longrightarrow> mods s m = None"
  unfolding load_ready_def mods_wf_def by (metis leD)

lemma module_ctx_cong: "xy_pending_ctx t = xy_pending_ctx u \<Longrightarrow> module_ctx E h t = module_ctx E h u"
  by (simp add: module_ctx_def cong: option.case_cong)

text \<open>What the way back does to a module that is in the tables, but in no region yet.\<close>

lemma abort_registered:
  assumes E: "env_ok E" and reg: "registered E s m e key t" and none: "mods s m = None"
    and e: "me_region_entry e = None" "me_region_state e = None" "me_mod_key e = key" "me_tmp_load_path e = None"
    and tx: "tx_mod_entry tx = Some m" "tx_published_entry tx" "\<not> tx_context_active tx" "tx_tmp_load_path tx = None"
      "tx_handle tx = Some h"
    and hd: "tbl_single E s (mod_hd (xy_rt s))" "mod_by_region_hd (xy_rt s) \<noteq> mod_hd (xy_rt s)"
      "tbl_get E s (mod_hd (xy_rt s)) (KStr key) = None"
  shows "\<exists>c. mod_load_abort E tx err t = Some (err, s\<lparr>st_corm := c, paths := paths t, next_addr := next_addr t,
       dl_refs := (dl_refs s)(h := dl_refs s h - 1)\<rparr>) \<and>
     tbl_get E (s\<lparr>st_corm := c\<rparr>) (mod_hd (xy_rt s)) = tbl_get E s (mod_hd (xy_rt s))"
proof -
  note r = reg [unfolded registered_def]
  obtain c ps n where t: "t = s\<lparr>st_corm := c, paths := ps, next_addr := n, mods := (mods s)(m \<mapsto> e)\<rparr>" using r by blast
  let ?k = "KRegion (region_key (me_region_id e) (me_region_plen e))"
  let ?u1 = "tbl_del E (mod_by_region_hd (xy_rt s)) ?k t"
  let ?u = "tbl_del E (mod_hd (xy_rt s)) (KStr key) ?u1"
  have rt: "xy_rt t = xy_rt s" "mods t m = Some e" by (simp_all add: t)
  have u: "?u = t\<lparr>st_corm := st_corm ?u\<rparr>" "mods ?u m = Some e" by (simp_all add: tbl_del_def rt)
  have "mod_load_abort E tx err t = Some (err, dl_close (Some h) (?u\<lparr>mods := (mods ?u)(m := None)\<rparr>))"
    using tx e rt u(2)
    by (simp add: mod_load_abort_def mod_load_restore_context_def module_cleanup_region_state_def abort_unlink_def
        unpublish_def free_mod_def unlink_file_def)
  moreover have "dl_close (Some h) (?u\<lparr>mods := (mods ?u)(m := None)\<rparr>) =
      s\<lparr>st_corm := st_corm ?u, paths := paths t, next_addr := next_addr t, dl_refs := (dl_refs s)(h := dl_refs s h - 1)\<rparr>"
  proof -
    have "(mods s)(m := None) = mods s" using none by auto
    then show ?thesis by (simp add: dl_close_def tbl_del_def t)
  qed
  moreover have "tbl_get E (s\<lparr>st_corm := st_corm ?u\<rparr>) (mod_hd (xy_rt s)) = tbl_get E s (mod_hd (xy_rt s))"
  proof -
    have sg: "tbl_single E t (mod_hd (xy_rt s))" using r hd by simp
    then have "tbl_get E ?u (mod_hd (xy_rt s)) = (tbl_get E t (mod_hd (xy_rt s)))(KStr key := None)"
      using hd(2) by (simp add: fun_eq_iff tbl_get_del [OF E] tbl_single_del [OF E])
    also have "\<dots> = tbl_get E s (mod_hd (xy_rt s))" using r hd(3) by auto
    finally show ?thesis by (simp add: tbl_get_def fun_eq_iff)
  qed
  ultimately show ?thesis by auto
qed

lemma ready_current_plen: "ready E s \<Longrightarrow> \<exists>plen. region_current_plen s = Some plen"
  by (auto simp: ready_def current_wf_def region_current_plen_def r_key_def)

lemma load_refused:
  assumes E: "env_ok E" and mem: "never_oom E" and wf: "load_ready E s"
    and fr: "fresh_file E s fname path key h cs pc"
    and ctx: "module_ctx E (Some h) (s\<lparr>xy_pending_ctx := pc\<rparr>) = Some c" and bad: "\<not> abi_matches E (Some h)"
  shows "\<exists>co ps n. xy_load E fname s = Some (XY_ERR_ABI,
       s\<lparr>st_corm := co, paths := ps, next_addr := n, ctxs := cs, xy_pending_ctx := None, xy_err_val := XY_ERR_ABI\<rparr>) \<and>
     tbl_get E (s\<lparr>st_corm := co\<rparr>) (mod_hd (xy_rt s)) = tbl_get E s (mod_hd (xy_rt s))"
proof -
  note w = wf [unfolded load_ready_def]
  obtain plen where plen: "region_current_plen s = Some plen" using w ready_current_plen by blast
  let ?S = "opened (tmp_files s) h cs pc s"
  note op = opened_reads [where tf = "tmp_files s" and h = h and cs = cs and pc = pc and s = s]
  obtain tx where tx: "mod_load_open_handle E (txn_start (xy_current_region_id s) plen) fname s = Some (XY_OK, tx, ?S)"
    "mod_load_try_reuse_existing tx ?S = Some (False, tx, ?S)"
    "tx = (txn_start (xy_current_region_id s) plen)\<lparr>tx_handle := Some h, tx_tmp_load_path := None, tx_lookup := tx_lookup tx\<rparr>"
    "lr_key (tx_lookup tx) = Some key" "lr_load_path (tx_lookup tx) = Some path"
    using open_fresh [OF mem fr [unfolded fresh_file_from, THEN conjunct1] plen, of ?S] by blast
  from steps_registered [OF E mem wf tx(3,4,5), where fname = fname and tf = "tmp_files s" and cs = cs and pc = pc]
  obtain m x tx1 t1 tx2 t2 where
    st: "mod_load_alloc_entry E tx fname ?S = (XY_OK, tx1, t1)" "mod_load_publish_entry E tx1 t1 = Some (XY_OK, tx2, t2)"
    and reg: "registered E ?S m (entry_for None h key x plen s) key t2"
    and t2: "tx_handle tx2 = Some h" "tx_mod_entry tx2 = Some m" "tx_published_entry tx2" "\<not> tx_context_active tx2"
      "tx_tmp_load_path tx2 = None" by blast
  let ?t3 = "set_err XY_ERR_ABI (t2\<lparr>xy_pending_ctx := None\<rparr>)"
  let ?S3 = "?S\<lparr>xy_err_val := XY_ERR_ABI, xy_pending_ctx := None\<rparr>"
  have t2eq: "t2 = ?S\<lparr>st_corm := st_corm t2, paths := paths t2, next_addr := next_addr t2, mods := (mods ?S)(m \<mapsto> entry_for None h key x plen s)\<rparr>"
    using reg by (simp add: registered_def)
  have "xy_pending_ctx t2 = pc" by (subst t2eq) (simp add: opened_def)
  then have "module_ctx E (Some h) t2 = Some c" using ctx module_ctx_cong [of t2 "s\<lparr>xy_pending_ctx := pc\<rparr>"] by simp
  then have bind: "mod_load_bind_xy E tx2 t2 = Some (XY_ERR_ABI, tx2, ?t3)" using bad t2(1) by (simp add: bind_xy_cases)
  have steps: "mod_load_steps E tx fname ?S = Some (XY_ERR_ABI, tx2, ?t3)"
    using st bind by (simp add: mod_load_steps_def err_simps)
  have tab3: "tbl_get E ?S3 = tbl_get E ?S" "tbl_single E ?S3 = tbl_single E ?S" "tbl_get E ?t3 = tbl_get E t2" "tbl_single E ?t3 = tbl_single E t2"
    by (rule tbl_get_cong tbl_single_cong, simp add: set_err_def)+
  have reg3: "registered E ?S3 m (entry_for None h key x plen s) key ?t3"
  proof -
    have "?t3 = ?S3\<lparr>st_corm := st_corm ?t3, paths := paths ?t3, next_addr := next_addr ?t3, mods := (mods ?S3)(m \<mapsto> entry_for None h key x plen s)\<rparr>"
      by (subst t2eq) (simp add: set_err_def)
    then show ?thesis using reg unfolding registered_def tab3 by (simp add: set_err_def)
  qed
  have new: "mods ?S3 m = None" using reg op mod_lookup_fresh [OF wf, of m] by (simp add: registered_def)
  have hd: "tbl_single E ?S3 (mod_hd (xy_rt ?S3))" "mod_by_region_hd (xy_rt ?S3) \<noteq> mod_hd (xy_rt ?S3)"
    "tbl_get E ?S3 (mod_hd (xy_rt ?S3)) (KStr key) = None"
    using w op fr plen unfolding tab3 by (auto simp: fresh_file_def)
  from abort_registered [OF E reg3 new _ _ _ _ t2(2,3,4,5,1) hd, of XY_ERR_ABI] obtain co where
    ab: "mod_load_abort E tx2 XY_ERR_ABI ?t3 = Some (XY_ERR_ABI, ?S3\<lparr>st_corm := co, paths := paths ?t3, next_addr := next_addr ?t3,
       dl_refs := (dl_refs ?S3)(h := dl_refs ?S3 h - 1)\<rparr>)"
    "tbl_get E (?S3\<lparr>st_corm := co\<rparr>) (mod_hd (xy_rt ?S3)) = tbl_get E ?S3 (mod_hd (xy_rt ?S3))"
    by (auto simp: entry_for_def mod_zero_def)
  have "mod_load E fname s = Some (XY_ERR_ABI, ?S3\<lparr>st_corm := co, paths := paths ?t3, next_addr := next_addr ?t3,
       dl_refs := (dl_refs ?S3)(h := dl_refs ?S3 h - 1)\<rparr>)"
    using plen tx(1,2) steps ab(1) by (simp add: mod_load_def err_simps)
  moreover have "(dl_refs ?S3)(h := dl_refs ?S3 h - 1) = dl_refs s" by (auto simp: opened_def)
  ultimately have "xy_load E fname s = Some (XY_ERR_ABI,
       s\<lparr>st_corm := co, paths := paths t2, next_addr := next_addr t2, ctxs := cs, xy_pending_ctx := None, xy_err_val := XY_ERR_ABI\<rparr>)"
    using w by (simp add: xy_load_def ensure_ready fail_with_def set_err_def opened_def)
  moreover have "tbl_get E (s\<lparr>st_corm := co\<rparr>) (mod_hd (xy_rt s)) = tbl_get E s (mod_hd (xy_rt s))"
    using ab(2) by (simp add: tbl_get_def opened_def fun_eq_iff)
  ultimately show ?thesis by blast
qed

text \<open>
  C18. A module that is refused at the context gate does not stay: \<^verbatim>\<open>xy_load\<close> reports
  \<^const>\<open>XY_ERR_ABI\<close>, and the module entries, the table of loaded modules, the regions with their
  lists, the runtime's handles and counters, the current region, the references on shared objects
  and the temporary files are what they were; the contexts are those the opened object brought, and
  none is pending. Two things that the attempt touches are not part of the statement: the table of
  interned paths, which keeps the path, and the multi-valued index by region, into which the entry
  is put and out of which its key is deleted again.
\<close>

theorem abi_refused_leaves_nothing:
  assumes "env_ok E" "never_oom E" "load_ready E s" "fresh_file E s fname path key h cs pc"
    and "module_ctx E (Some h) (s\<lparr>xy_pending_ctx := pc\<rparr>) = Some c" "\<not> abi_matches E (Some h)"
  shows "\<exists>t. xy_load E fname s = Some (XY_ERR_ABI, t) \<and> xy_err_val t = XY_ERR_ABI \<and>
    mods t = mods s \<and> tbl_get E t (mod_hd (xy_rt s)) = tbl_get E s (mod_hd (xy_rt s)) \<and>
    regions t = regions s \<and> xy_rt t = xy_rt s \<and> dl_refs t = dl_refs s \<and> tmp_files t = tmp_files s \<and>
    xy_current_region_id t = xy_current_region_id s \<and> xy_current_region_entry t = xy_current_region_entry s \<and>
    ctxs t = cs \<and> xy_pending_ctx t = None"
proof -
  from load_refused [OF assms] obtain co ps n where
    l: "xy_load E fname s = Some (XY_ERR_ABI,
       s\<lparr>st_corm := co, paths := ps, next_addr := n, ctxs := cs, xy_pending_ctx := None, xy_err_val := XY_ERR_ABI\<rparr>)"
    "tbl_get E (s\<lparr>st_corm := co\<rparr>) (mod_hd (xy_rt s)) = tbl_get E s (mod_hd (xy_rt s))" by blast
  then show ?thesis by (simp add: tbl_get_def fun_eq_iff)
qed


section \<open>Examples\<close>

text \<open>
  The linker of the examples: every file is there, has the context 77 and an installer; whether
  it has a descriptor is the parameter.
\<close>

definition demo_linker :: "bool \<Rightarrow> alist_corm env" where
  "demo_linker abi = demo_env\<lparr>
     stl_dlsym := (\<lambda>h name. if name = ''get_xy_ptr'' then Some 77 else if name = ''xy_install'' then Some 78
       else if name = ''xy_ctx_abi'' \<and> abi then Some 79 else None),
     stl_dlopen := (\<lambda>path s. Some (map_option length path, s\<lparr>ctxs := [77 \<mapsto> xy_t_zero]\<rparr>))\<rparr>"

lemma demo_linker_ok: "env_ok (demo_linker abi)" "never_oom (demo_linker abi)"
  by (simp_all add: env_ok_def never_oom_def demo_linker_def demo_env_def list_corm_ok)

lemma demo_linker_tables:
  "tbl_get (demo_linker abi) = tbl_get demo_env" "tbl_single (demo_linker abi) = tbl_single demo_env"
  by (simp_all add: fun_eq_iff tbl_get_def tbl_single_def demo_linker_def)

lemma demo_linker_ready: "load_ready (demo_linker abi) demo_boot"
proof -
  have t: "tbl_single demo_env demo_boot d \<longleftrightarrow> d \<in> {1, 2, 3, 4, 6}" "tbl_get demo_env demo_boot 2 k = None" for d k
    by (auto simp: tbl_single_def tbl_get_def demo_env_def demo_boot_corm list_corm_def)
  have no: "\<not> hook_reg E demo_boot name k" if "E = demo_linker abi" for E name k
    using that by (simp add: hook_reg_def demo_linker_tables demo_boot_corm t)
  have "mods_wf demo_boot"
    by (auto simp: mods_wf_def demo_boot_corm demo_boot_regions mods_of_def region_zero_def intro!: exI [of _ "[]"])
  moreover have "ready (demo_linker abi) demo_boot"
    using demo_boot_ready(1) by (simp add: ready_def region_wf_def table_wf_def demo_linker_tables)
  moreover have "intern_wf (demo_linker abi) demo_boot"
    using demo_boot_deny(2) by (simp add: intern_wf_def demo_linker_tables)
  ultimately show ?thesis
    using no
    by (auto simp: load_ready_def caches_ok_def unused_ok_def hooks_wf_def hook_tab_def demo_linker_tables t demo_boot_corm)
qed

lemma demo_fresh_file:
  "fresh_file (demo_linker abi) demo_boot ''mods/a'' ''mods/a.so'' (mod_key (mod_key_len ''mods/a.so'') ''mods/a.so'' 0 0) 9
     [77 \<mapsto> xy_t_zero] (xy_pending_ctx demo_boot)"
proof -
  have "\<not> xy_reloading demo_boot"
    by (simp add: demo_boot_def xy_runtime_bootstrap_def demo_start_def
        open_table_def tbl_open_def region_ensure_root_def region_lookup_def demo_env_def list_corm_def upd_rt_def
        tbl_get_def new_region_def tbl_put_def set_current_region_def region_current_plen_def region_zero_def)
  moreover have "module_load_path (demo_linker abi) demo_boot ''mods/a'' = Some ''mods/a.so''"
    by (simp add: module_load_path_def demo_linker_def demo_env_def Let_def)
  moreover have "region_current_plen demo_boot = Some 0" "xy_current_region_id demo_boot = 0"
    by (simp_all add: region_current_plen_def demo_boot_corm demo_boot_regions region_zero_def)
  moreover have "tbl_get demo_env demo_boot (mod_hd (xy_rt demo_boot)) k = None" for k
    by (simp add: tbl_get_def demo_env_def demo_boot_corm list_corm_def)
  moreover have "stl_dlopen (demo_linker abi) (Some ''mods/a.so'') demo_boot =
      Some (Some 9, demo_boot\<lparr>ctxs := [77 \<mapsto> xy_t_zero], xy_pending_ctx := xy_pending_ctx demo_boot\<rparr>)"
    by (simp add: demo_linker_def)
  ultimately show ?thesis by (simp add: fresh_file_def demo_linker_tables)
qed

lemma demo_ctx: "module_ctx (demo_linker abi) (Some h) s = Some 77"
  by (simp add: module_ctx_def module_lookup_symbol_fn_def module_lookup_symbol_raw_def demo_linker_def demo_env_def)

lemma demo_abi: "abi_matches (demo_linker abi) (Some h) \<longleftrightarrow> abi"
  by (simp add: abi_matches_def module_lookup_symbol_fn_def module_lookup_symbol_raw_def demo_linker_def demo_env_def)

theorem abi_refused_leaves_nothing_witness:
  "\<exists>t. xy_load (demo_linker False) ''mods/a'' demo_boot = Some (XY_ERR_ABI, t) \<and>
     mods t = (\<lambda>_. None) \<and> dl_refs t = dl_refs demo_boot \<and> regions t = regions demo_boot"
  using abi_refused_leaves_nothing [OF demo_linker_ok demo_linker_ready demo_fresh_file demo_ctx, of False] demo_abi
  by (auto simp: demo_boot_corm)

end
