(* ===== verification/Xy_Load_Enter.thy ===== *)
theory Xy_Load_Enter
  imports Xy_Load_Props
begin

text \<open>
  The load that succeeds: from the tables to the region's list, the symbol cache and the
  installer.
\<close>

section \<open>Appending, exactly\<close>

lemma append_exact:
  assumes tw: "tree_wf s" and ms: "mods_of s p ms" and m: "m \<notin> set ms" "mods s m \<noteq> None"
  shows "module_region_append (Some p) (Some m) s =
     Some (upd_regs (set (ancestors (linked_in p m ms [] s) p)) (\<lambda>r. mark_dirty (bump_gen r)) (linked_in p m ms [] s))"
proof -
  obtain r where "regions s p = Some r" "re_mods_tail r = first (rev ms)"
    using ms unfolding mods_of_def by (metis chain_first)
  then have "module_region_append (Some p) (Some m) s =
      module_region_insert_after (Some p) (Some m) (first (rev ms)) s"
    by (simp add: module_region_append_def)
  moreover have "tree_wf (linked_in p m ms [] s)" by (rule tree_wf_shape [OF relink_shape(5) tw])
  moreover obtain k where "r_key s p = Some k" using mods_of_key [OF ms] by blast
  then have "r_key (linked_in p m ms [] s) p = Some k" using relink_shape(5) [of s p m ms "[]"] by (simp add: same_shape_def)
  ultimately show ?thesis using insert_linked_in [of s p ms "[]" m] ms m by (simp add: region_mark_subtree_dirty_eq)
qed

text \<open>Entries that differ in their links only, and states that differ in regions and links only.\<close>

definition relinked :: "xy_mod_entry \<Rightarrow> xy_mod_entry \<Rightarrow> bool" where
  "relinked e e' \<longleftrightarrow>
     (\<exists>re pr nx. e' = e\<lparr>me_region_entry := re, me_region_prev := pr, me_region_next := nx\<rparr>)"

lemma relinked_fields:
  "relinked e e' \<Longrightarrow> me_fn_cache e' = me_fn_cache e \<and> me_hook_impl_bits e' = me_hook_impl_bits e \<and>
     me_handle e' = me_handle e"
  by (auto simp: relinked_def)

lemma relinked_two: "relinked e (e\<lparr>me_region_next := nx, me_region_prev := pr\<rparr>)"
  unfolding relinked_def by (rule exI [of _ "me_region_entry e"], rule exI [of _ pr], rule exI [of _ nx]) (cases e, simp)

lemma relinked_three: "relinked e (e\<lparr>me_region_entry := re, me_region_prev := pr, me_region_next := nx\<rparr>)"
  unfolding relinked_def by blast

text \<open>Those that stay in their region as well.\<close>

definition relinked_in :: "xy_mod_entry \<Rightarrow> xy_mod_entry \<Rightarrow> bool" where
  "relinked_in e e' \<longleftrightarrow> relinked e e' \<and> me_region_entry e' = me_region_entry e"

lemma linked_in_relinked:
  assumes "mods (linked_in p m ms ns s) q = Some e'"
  shows "\<exists>e. mods s q = Some e \<and> relinked e e'"
proof -
  obtain e where e: "mods s q = Some e"
    "e' = (if q = m then e\<lparr>me_region_entry := Some p, me_region_prev := first (rev ms), me_region_next := first ns\<rparr>
           else e\<lparr>me_region_next := (if ms \<noteq> [] \<and> q = last ms then Some m else me_region_next e),
                  me_region_prev := (if ns \<noteq> [] \<and> q = hd ns then Some m else me_region_prev e)\<rparr>)"
    using assms by (cases "mods s q") (simp_all add: linked_in_def)
  have "relinked e e'" unfolding e(2) by (cases "q = m") (simp_all only: simp_thms if_True if_False relinked_two relinked_three)
  with e(1) show ?thesis by blast
qed

lemma linked_in_relinked_in:
  assumes "mods (linked_in p m ms ns s) q = Some e'" "q \<noteq> m"
  shows "\<exists>e. mods s q = Some e \<and> relinked_in e e'"
proof -
  obtain e where e: "mods s q = Some e" "relinked e e'" using linked_in_relinked [OF assms(1)] by blast
  then have "me_region_entry e' = me_region_entry e" using assms by (auto simp: linked_in_def)
  with e show ?thesis by (auto simp: relinked_in_def)
qed

lemma dset_linked_in: "dset (upd_regs A (\<lambda>r. mark_dirty (bump_gen r)) (linked_in p m ms ns s)) = dset s"
proof -
  have "deny_set b (mark_dirty (bump_gen r)) = deny_set b r" for b r
    by (simp add: deny_set_def mark_dirty_def bump_gen_def Let_def)
  moreover have "deny_set b (r\<lparr>re_mods_head := x, re_mods_tail := y\<rparr>) = deny_set b r" for b r x y by (simp add: deny_set_def)
  ultimately have "dset (upd_regs A (\<lambda>r. mark_dirty (bump_gen r)) (linked_in p m ms ns s)) q b = dset s q b" for q b
    by (cases "regions s q"; cases "q = p"; simp add: dset_def upd_regs_def linked_in_def)
  then show ?thesis by (simp add: fun_eq_iff)
qed

lemma cache_ok_same:
  "me_fn_cache e' = me_fn_cache e \<and> me_hook_impl_bits e' = me_hook_impl_bits e \<and> me_handle e' = me_handle e \<Longrightarrow>
   cache_ok E e' k nm = cache_ok E e k nm"
  using hook_fn_handle [of e' e E nm] by (simp add: cache_ok_def has_hook_iff cong: fn_slot.case_cong)

lemma cache_ok_empty: "me_fn_cache e = [] \<Longrightarrow> me_hook_impl_bits e = [] \<Longrightarrow> 0 \<le> k \<Longrightarrow> cache_ok E e k nm"
  by (simp add: cache_ok_def has_hook_iff)

text \<open>The hook registry and the caches through steps that leave both alone, new entries apart.\<close>

lemma hook_state_frame:
  assumes ok: "caches_ok E s" "hooks_wf E s" "hook_tab E s" "unused_ok E s"
    and tab: "tbl_get E u (hook_id_hd (xy_rt s)) = tbl_get E s (hook_id_hd (xy_rt s))" "tbl_single E u = tbl_single E s"
    and rt: "hook_id_hd (xy_rt u) = hook_id_hd (xy_rt s)" "xy_hook_id_counter (xy_rt u) = xy_hook_id_counter (xy_rt s)"
    and ms: "\<And>m e'. mods u m = Some e' \<Longrightarrow>
       (\<exists>e. mods s m = Some e \<and> me_fn_cache e' = me_fn_cache e \<and> me_hook_impl_bits e' = me_hook_impl_bits e \<and>
          me_handle e' = me_handle e) \<or> (me_fn_cache e' = [] \<and> me_hook_impl_bits e' = [])"
  shows "caches_ok E u" "hooks_wf E u" "hook_tab E u" "unused_ok E u" "\<And>nm k. hook_reg E u nm k = hook_reg E s nm k"
proof -
  show reg: "hook_reg E u nm k = hook_reg E s nm k" for nm k by (simp add: hook_reg_def rt tab)
  show "hooks_wf E u" using ok(2) by (simp add: hooks_wf_def reg rt)
  show "hook_tab E u" using ok(3) by (simp add: hook_tab_def rt tab)
  have each: "cache_ok E e' k nm" if m: "mods u m = Some e'" and k: "0 \<le> k" and all: "\<And>e. mods s m = Some e \<Longrightarrow> cache_ok E e k nm"
    for m e' k nm
    using ms [OF m] all cache_ok_same [of e' _ E k nm] cache_ok_empty [of e' k E nm] k by blast
  show "caches_ok E u"
    unfolding caches_ok_def reg
  proof (intro allI impI)
    fix m e nm k assume m: "mods u m = Some e" and r: "hook_reg E s nm k"
    have "0 \<le> k" using ok(2) r unfolding hooks_wf_def by blast
    then show "cache_ok E e k nm" using ok(1) r unfolding caches_ok_def by (intro each [OF m]) blast+
  qed
  show "unused_ok E u"
    unfolding unused_ok_def reg
  proof (intro allI impI)
    fix m e k nm assume m: "mods u m = Some e" and k: "0 \<le> k" "\<forall>nm. \<not> hook_reg E s nm k"
    then show "cache_ok E e k nm" using ok(4) unfolding unused_ok_def by (intro each [OF m]) blast+
  qed
qed

text \<open>The list of a region through a new entry that is in no list.\<close>

lemma mods_of_new:
  assumes "mods_of s p ms" "regions t p = regions s p" "mods t = (mods s)(m \<mapsto> e)" "mods s m = None"
  shows "mods_of t p ms"
proof -
  have ne: "x \<noteq> m" if "x \<in> set ms" for x using mods_of_mem [OF assms(1) that] assms(4) by auto
  have same: "mod_next t x = mod_next s x" "mod_prev t x = mod_prev s x" "mod_region t x = mod_region s x" if "x \<in> set ms" for x
    using ne [OF that] assms(3) by (simp_all add: mod_next_def mod_prev_def mod_region_def)
  show ?thesis
    using assms(1) same(3) unfolding mods_of_def assms(2)
    using chain_cong [of "mod_next s" _ ms, OF _ same(1)] chain_cong [of "mod_prev s" _ "rev ms", OF _ same(2)] by auto
qed


section \<open>Binding, entering and installing\<close>

text \<open>A module without per-region state, whose installer only writes buffers; one that makes no claim either.\<close>

definition quiet_module :: "'h env \<Rightarrow> dlhandle \<Rightarrow> bool" where
  "quiet_module E h \<longleftrightarrow>
     module_lookup_symbol_fn E (Some h) ''xy_region_state_size'' = None \<and>
     (\<exists>cb f. module_lookup_symbol_fn E (Some h) ''xy_install'' = Some cb \<and>
        (\<forall>v. run_install E cb v = Some (v\<lparr>bufs := f (bufs v)\<rparr>)))"

definition plain_module :: "'h env \<Rightarrow> dlhandle \<Rightarrow> bool" where
  "plain_module E h \<longleftrightarrow> module_lookup_symbol_raw E (Some h) ''xy_claim'' = None \<and> quiet_module E h"

text \<open>Its context, if it has one, is mapped and proves its layout.\<close>

definition good_ctx :: "'h env \<Rightarrow> dlhandle \<Rightarrow> (cptr \<Rightarrow> xy_t option) \<Rightarrow> cptr option \<Rightarrow> bool" where
  "good_ctx E h cs c \<longleftrightarrow> (\<forall>x. c = Some x \<longrightarrow> abi_matches E (Some h) \<and> cs x \<noteq> None)"

text \<open>The context of a module after the host has filled it in.\<close>

definition bound :: "string \<Rightarrow> u64 \<Rightarrow> xy_t \<Rightarrow> xy_t" where
  "bound fname i x = (bind_fns init_fns x)\<lparr>cx_module_path := Some fname, cx_region_id := i\<rparr>"

definition bind_ctx :: "string \<Rightarrow> u64 \<Rightarrow> cptr option \<Rightarrow> (cptr \<Rightarrow> xy_t option) \<Rightarrow> cptr \<Rightarrow> xy_t option" where
  "bind_ctx fname i c cs = (case c of None \<Rightarrow> cs | Some x \<Rightarrow> cs(x := map_option (bound fname i) (cs x)))"

lemma bind_good:
  assumes c: "module_ctx E (Some h) t = c" "good_ctx E h (ctxs t) c"
    and tx: "tx_handle tx = Some h" "tx_stable_fname tx = Some fname" "tx_inherited_region_id tx = i" "tx_mod_entry tx = Some m"
    and m: "mods t m = Some e" "me_ctx e = None"
  shows "mod_load_bind_xy E tx t = Some (XY_OK, tx, t\<lparr>xy_pending_ctx := None, ctxs := bind_ctx fname i c (ctxs t),
     mods := (mods t)(m \<mapsto> e\<lparr>me_ctx := c\<rparr>)\<rparr>)"
proof (cases c)
  case None
  have "(mods t)(m \<mapsto> e\<lparr>me_ctx := None\<rparr>) = mods t" using m by (auto simp: fun_eq_iff)
  with None c tx show ?thesis by (simp add: bind_xy_cases bind_ctx_def)
next
  case (Some x)
  then have "abi_matches E (Some h)" "ctxs t x \<noteq> None" using c(2) by (simp_all add: good_ctx_def)
  with Some c tx m show ?thesis
    by (simp add: bind_xy_cases bind_ctx_def xy_init_ctx_def wr_mod_def upd_ctx_def upd_mod_def bound_def [abs_def])
qed

lemma enter_ok:
  assumes E: "env_ok E" and mem: "never_oom E" and pm: "quiet_module E h"
    and wf: "region_wf E t" and ms: "mods_of t p ms" "m \<notin> set ms" and m: "mods t m = Some e"
    and look: "region_lookup E t (me_region_id e) (me_region_plen e) = Some p"
    and hk: "caches_ok E t" "hooks_wf E t" "hook_tab E t" "unused_ok E t"
    and tx: "tx_handle tx = Some h" "tx_mod_entry tx = Some m" and eh: "me_handle e = Some h"
  shows "\<exists>u e1 e2. mod_load_enter E tx t = Some (XY_OK, u) \<and>
     u = t\<lparr>regions := regions u, mods := mods u, bufs := bufs u, xy_rt := (xy_rt t)\<lparr>xy_mod_count := xy_mod_count (xy_rt t) + 1\<rparr>\<rparr> \<and>
     mods u m = Some e2 \<and> relinked e e1 \<and> same_mod e1 e2 \<and> me_region_entry e2 = Some p \<and> warmed E t e2 \<and>
     mods_of u p (ms @ [m]) \<and> region_wf E u \<and> r_key u = r_key t \<and> r_parent u = r_parent t \<and>
     caches_ok E u \<and> hooks_wf E u \<and> hook_tab E u \<and> unused_ok E u \<and>
     (\<forall>q ns. q \<noteq> p \<longrightarrow> m \<notin> set ns \<longrightarrow> mods_of t q ns \<longrightarrow> mods_of u q ns) \<and>
     (\<forall>q. mods u q = None \<longleftrightarrow> mods t q = None) \<and> dset u = dset t \<and>
     (\<forall>q e'. q \<noteq> m \<longrightarrow> mods u q = Some e' \<longrightarrow> (\<exists>e0. mods t q = Some e0 \<and> relinked_in e0 e'))"
proof -
  obtain cb f where pl: "module_lookup_symbol_fn E (Some h) ''xy_region_state_size'' = None"
    "module_lookup_symbol_fn E (Some h) ''xy_install'' = Some cb" "\<And>v. run_install E cb v = Some (v\<lparr>bufs := f (bufs v)\<rparr>)"
    using pm unfolding quiet_module_def by blast
  define t1 where "t1 = upd_rt (\<lambda>r. r\<lparr>xy_mod_count := xy_mod_count r + 1\<rparr>) t"
  have t1: "regions t1 = regions t" "mods t1 = mods t" "next_addr t1 = next_addr t" "st_corm t1 = st_corm t"
    "xy_rt t1 = (xy_rt t)\<lparr>xy_mod_count := xy_mod_count (xy_rt t) + 1\<rparr>" by (simp_all add: t1_def upd_rt_def)
  have tab1: "tbl_get E t1 = tbl_get E t" "tbl_single E t1 = tbl_single E t"
    by (rule tbl_get_cong [OF t1(4)]) (rule tbl_single_cong [OF t1(4)])
  have sh: "same_shape t t1" by (rule same_shape_regions [OF t1(1,3)])
  have wf1: "region_wf E t1"
    using wf tree_wf_shape [OF sh] sh by (auto simp: region_wf_def table_wf_def same_shape_def tab1 t1 r_gen_def)
  then have tw1: "tree_wf t1" by (simp add: region_wf_def)
  have of1: "mods_of t1 q ns = mods_of t q ns" for q ns
    by (simp add: mods_of_def mod_next_def [abs_def] mod_prev_def [abs_def] mod_region_def [abs_def] t1)
  have ms1: "mods_of t1 p ms" using ms(1) by (simp add: of1)
  have m1: "mods t1 m \<noteq> None" using m t1 by simp
  let ?l = "linked_in p m ms [] t1"
  define A where "A = set (ancestors ?l p)"
  define t2 where "t2 = upd_regs A (\<lambda>r. mark_dirty (bump_gen r)) ?l"
  have app: "module_region_append (Some p) (Some m) t1 = Some t2"
    unfolding t2_def A_def by (rule append_exact [OF tw1 ms1 ms(2) m1])
  have join: "join_region E tx t1 = Some t2"
    using tx(2) m look app by (simp add: join_region_def t1 region_lookup_def tab1)
  have t2: "t2 = t1\<lparr>regions := regions t2, mods := mods ?l\<rparr>" "mods t2 = mods ?l" "st_corm t2 = st_corm t" "xy_rt t2 = xy_rt t1"
    by (simp_all add: t2_def upd_regs_def linked_in_def t1)
  have wf2: "region_wf E t2" "mods_of t2 p (ms @ [m])" "r_key t2 = r_key t" "r_parent t2 = r_parent t"
    "\<forall>q ns. q \<noteq> p \<longrightarrow> m \<notin> set ns \<longrightarrow> mods_of t q ns \<longrightarrow> mods_of t2 q ns"
    using append_refines [OF wf1 ms1 ms(2) m1] app sh by (auto simp: same_shape_def of1)
  have tab2: "tbl_get E t2 = tbl_get E t" "tbl_single E t2 = tbl_single E t"
    by (rule tbl_get_cong [OF t2(3)]) (rule tbl_single_cong [OF t2(3)])
  have links: "\<exists>e0. mods t q = Some e0 \<and> relinked e0 e'" if "mods t2 q = Some e'" for q e'
    using linked_in_relinked [of p m ms "[]" t1 q e'] that t1(2) t2(2) by simp
  have hk2: "caches_ok E t2" "hooks_wf E t2" "hook_tab E t2" "unused_ok E t2" "\<And>nm k. hook_reg E t2 nm k = hook_reg E t nm k"
    by (rule hook_state_frame [OF hk]; use links relinked_fields in \<open>fastforce simp: tab2 t2(4) t1\<close>)+
  obtain e1 where e1: "mods t2 m = Some e1" "relinked e e1" "me_region_entry e1 = Some p"
    using m t1(2) t2(2) relinked_three by (auto simp: linked_in_def)
  from prewarm_ok [OF E mem hk2(1-4) e1(1)] obtain e2 where
    e2: "fn_cache_prewarm E (Some m) t2 = Some (0, upd_mod m (\<lambda>_. e2) t2)" "same_mod e1 e2"
    "caches_ok E (upd_mod m (\<lambda>_. e2) t2)" "unused_ok E (upd_mod m (\<lambda>_. e2) t2)" "me_handle e1 \<noteq> None \<longrightarrow> warmed E t2 e2" by blast
  define t3 where "t3 = upd_mod m (\<lambda>_. e2) t2"
  have t3: "t3 = t2\<lparr>mods := (mods t2)(m \<mapsto> e2)\<rparr>" using e1(1) by (simp add: t3_def upd_mod_def)
  define u where "u = t3\<lparr>bufs := f (bufs t3)\<rparr>"
  have inst: "mod_load_run_install E tx t3 = Some (XY_OK, u)"
    using tx(1) pl(2,3) by (simp add: mod_load_run_install_def mod_run_def u_def)
  have run: "mod_load_enter E tx t = Some (XY_OK, u)"
    using tx pl(1) join e2(1) inst by (simp add: mod_load_enter_def alloc_region_state_def t1_def [symmetric] t3_def [symmetric])
  have "u = t\<lparr>regions := regions u, mods := mods u, bufs := bufs u, xy_rt := (xy_rt t)\<lparr>xy_mod_count := xy_mod_count (xy_rt t) + 1\<rparr>\<rparr>"
    by (simp add: u_def t3 t1_def upd_rt_def t2_def upd_regs_def linked_in_def)
  moreover have "warmed E t e2"
    using e2(5) e1(2) eh relinked_fields hk2(5) by (simp add: warmed_def)
  moreover have "region_wf E u" using wf2(1) region_wf_cong [of u t2 E] by (simp add: u_def t3)
  moreover have "r_key u = r_key t" "r_parent u = r_parent t"
    using wf2(3,4) by (simp_all add: fun_eq_iff r_key_def r_parent_def u_def t3)
  moreover have "caches_ok E u" "unused_ok E u"
    using e2(3,4) unfolding t3_def [symmetric] by (simp_all add: u_def caches_ok_def unused_ok_def hook_reg_def tbl_get_def)
  moreover have "hooks_wf E u" "hook_tab E u"
    using hk2(2,3) by (simp_all add: hooks_wf_def hook_tab_def hook_reg_def tbl_get_def tbl_single_def u_def t3)
  moreover have of: "mods_of u q ns = mods_of t2 q ns" for q ns
  proof -
    have "mod_next u = mod_next t2" "mod_prev u = mod_prev t2" "mod_region u = mod_region t2"
      using e1(1) same_modD [OF e2(2)] by (auto simp: fun_eq_iff mod_next_def mod_prev_def mod_region_def u_def t3)
    then show ?thesis by (simp add: mods_of_def u_def t3)
  qed
  moreover have "(mods u q = None) = (mods t q = None)" for q
    using m by (auto simp: u_def t3 t2(2) linked_in_def t1(2))
  moreover have "dset u = dset t"
  proof -
    have "dset u = dset t2" by (simp add: fun_eq_iff dset_def u_def t3)
    then show ?thesis by (simp add: t2_def dset_linked_in) (simp add: fun_eq_iff dset_def t1(1))
  qed
  moreover have "\<exists>e0. mods t q = Some e0 \<and> relinked_in e0 e'" if "q \<noteq> m" "mods u q = Some e'" for q e'
    using linked_in_relinked_in [of p m ms "[]" t1 q e'] that t1(2) t2(2) by (simp add: u_def t3)
  ultimately show ?thesis using run e1 e2(2) wf2(2,5) same_modD [OF e2(2)] by (intro exI [of _ u] exI [of _ e1] exI [of _ e2]) (simp add: u_def t3)
qed


section \<open>The whole load\<close>

lemma mods_of_set_err: "mods_of (set_err e s) q ns = mods_of s q ns"
  by (simp add: mods_of_def mod_next_def [abs_def] mod_prev_def [abs_def] mod_region_def [abs_def] set_err_def)

lemma current_lookup:
  assumes wf: "ready E s" and p: "xy_current_region_entry s = Some p" and plen: "region_current_plen s = Some plen"
  shows "region_lookup E s (xy_current_region_id s) plen = Some p"
proof -
  obtain k where k: "r_key s p = Some k" "rk_id k = xy_current_region_id s" using wf p by (auto simp: ready_def current_wf_def)
  obtain r where r: "regions s p = Some r" using k(1) by (auto simp: r_key_def)
  then have "re_plen r = plen" using p plen by (simp add: region_current_plen_def)
  then have "k = Region_Key (xy_current_region_id s) plen"
    using k r by (cases k) (auto simp: r_key_def key_of_def region_key_def)
  then show ?thesis using k(1) wf by (simp add: region_lookup_iff ready_def region_wf_def)
qed

text \<open>A module with one reference and without per-region state; with its temporary copy, or without one.\<close>

definition held_with :: "string option \<Rightarrow> xy_mod_entry \<Rightarrow> string \<Rightarrow> sptr \<Rightarrow> dlhandle \<Rightarrow> bool" where
  "held_with tmp e key x h \<longleftrightarrow>
     me_refcount e = 1 \<and> me_mod_key e = key \<and> me_load_path e = Some x \<and> me_region_state e = None \<and>
     me_handle e = Some h \<and> me_tmp_load_path e = tmp"

definition held_once :: "xy_mod_entry \<Rightarrow> string \<Rightarrow> sptr \<Rightarrow> dlhandle \<Rightarrow> bool" where
  "held_once e key x h \<longleftrightarrow>
     me_refcount e = 1 \<and> me_mod_key e = key \<and> me_load_path e = Some x \<and> me_region_state e = None \<and>
     me_handle e = Some h \<and> me_tmp_load_path e = None"

text \<open>States from which a load can start are told by the heap, the tables and the current region alone.\<close>

lemma load_ready_frame:
  assumes w: "load_ready E s" and cur: "current_wf t"
    and eq: "regions t = regions s" "mods t = mods s" "st_corm t = st_corm s" "xy_rt t = xy_rt s" "paths t = paths s"
      "next_addr t = next_addr s"
  shows "load_ready E t"
proof -
  have tab: "tbl_get E t = tbl_get E s" "tbl_single E t = tbl_single E s" by (rule tbl_get_cong tbl_single_cong, rule eq)+
  have "mods_of t = mods_of s"
    by (simp add: fun_eq_iff mods_of_def mod_next_def [abs_def] mod_prev_def [abs_def] mod_region_def [abs_def] eq)
  moreover have "region_wf E t = region_wf E s" by (rule region_wf_cong) (simp_all add: eq)
  moreover have "hook_reg E t = hook_reg E s" by (simp add: fun_eq_iff hook_reg_def tab eq)
  ultimately show ?thesis
    using w cur
    by (simp add: load_ready_def ready_def mods_wf_def intern_wf_def caches_ok_def hooks_wf_def hook_tab_def unused_ok_def tab eq)
qed

lemma load_ready_set_err: "load_ready E (set_err e t) = load_ready E t"
proof
  show "load_ready E t \<Longrightarrow> load_ready E (set_err e t)"
    by (rule load_ready_frame) (simp_all add: load_ready_def ready_def current_wf_def r_key_def [abs_def] set_err_def)
  show "load_ready E (set_err e t) \<Longrightarrow> load_ready E t"
    by (rule load_ready_frame [of E "set_err e t"])
       (simp_all add: load_ready_def ready_def current_wf_def r_key_def [abs_def] set_err_def)
qed

lemma load_ready_current:
  assumes "load_ready E t" "r_key t p = Some k" "rk_id k = i"
  shows "load_ready E (set_current_region i (Some p) t)"
  using assms(2,3)
  by (intro load_ready_frame [OF assms(1)]) (auto simp: set_current_region_def current_wf_def r_key_def)

lemma load_readyI:
  assumes "load_ready E s" "region_wf E t" "current_wf t" "xy_rt t = (xy_rt s)\<lparr>xy_mod_count := n\<rparr>" "tbl_single E t = tbl_single E s"
    "mods_wf t" "intern_wf E t" "caches_ok E t" "hooks_wf E t" "hook_tab E t" "unused_ok E t"
  shows "load_ready E t"
  using assms by (simp add: load_ready_def ready_def)


text \<open>
  The load from the claim on, and the state in which it is reached: the object is open, the entry
  is in the tables and its context bound.
\<close>

definition load_tail :: "'h env \<Rightarrow> xy_load_txn \<Rightarrow> 'h xy_state \<Rightarrow> (int \<times> 'h xy_state) option" where
  "load_tail E tx t =
     do { (ret, t1) \<leftarrow> mod_load_claim_if_needed E tx t;
          if ret \<noteq> XY_OK then mod_load_abort E tx ret t1
          else do { (ret, t2) \<leftarrow> mod_load_enter E tx t1;
                    if ret \<noteq> XY_OK then mod_load_abort E tx ret t2
                    else Some (XY_OK, snd (mod_load_restore_context tx t2)) } }"

definition staged :: "'h xy_state \<Rightarrow> string list \<Rightarrow> dlhandle \<Rightarrow> (cptr \<Rightarrow> xy_t option) \<Rightarrow> mptr \<Rightarrow> xy_mod_entry \<Rightarrow> 'h xy_state \<Rightarrow> bool" where
  "staged s tf h cs m e t \<longleftrightarrow>
     t = s\<lparr>st_corm := st_corm t, paths := paths t, next_addr := next_addr t, mods := (mods s)(m \<mapsto> e), ctxs := cs,
           xy_pending_ctx := None, dl_refs := (dl_refs s)(h := dl_refs s h + 1), tmp_files := tf\<rparr> \<and>
     next_addr s \<le> m \<and> m < next_addr t"

lemma stagedD:
  assumes "staged s tf h cs m e t"
  shows "regions t = regions s" "xy_rt t = xy_rt s" "mods t = (mods s)(m \<mapsto> e)" "ctxs t = cs" "xy_pending_ctx t = None"
    "dl_refs t = (dl_refs s)(h := dl_refs s h + 1)" "tmp_files t = tf" "xy_loading_mod t = xy_loading_mod s"
    "xy_reloading t = xy_reloading s" "xy_current_region_id t = xy_current_region_id s"
    "xy_current_region_entry t = xy_current_region_entry s" "next_addr s \<le> m" "m < next_addr t"
  using assms unfolding staged_def by (elim conjE; elim ssubst; simp)+

lemma load_until_claim:
  assumes E: "env_ok E" "never_oom E" and wf: "load_ready E s"
    and fr: "fresh_from E s tmp tf fname path key h cs pc"
    and c: "module_ctx E (Some h) (s\<lparr>xy_pending_ctx := pc\<rparr>) = c" "good_ctx E h cs c"
    and p: "xy_current_region_entry s = Some p" "region_current_plen s = Some plen"
  shows "\<exists>tx t m x. mod_load E fname s = load_tail E tx t \<and> load_ready E t \<and> paths t x = Some path \<and>
     staged s tf h (bind_ctx fname (xy_current_region_id s) c cs) m ((entry_for tmp h key x plen s)\<lparr>me_ctx := c\<rparr>) t \<and>
     tbl_get E t (mod_hd (xy_rt s)) = (tbl_get E s (mod_hd (xy_rt s)))(KStr key \<mapsto> VPtr m) \<and> tbl_single E t = tbl_single E s \<and>
     (\<forall>d. tbl_single E s d \<longrightarrow> d \<notin> {mod_hd (xy_rt s), path_intern_hd (xy_rt s)} \<longrightarrow> tbl_get E t d = tbl_get E s d) \<and>
     tx_handle tx = Some h \<and> tx_stable_fname tx = Some fname \<and> tx_mod_entry tx = Some m \<and> tx_inherited_reg tx = Some p \<and>
     tx_inherited_region_id tx = xy_current_region_id s \<and> tx_inherited_region_plen tx = plen \<and>
     tx_prev_region_id tx = xy_current_region_id s \<and> tx_prev_region_entry tx = Some p \<and> tx_context_active tx"
proof -
  note w = wf [unfolded load_ready_def]
  let ?S = "opened tf h cs pc s" and ?i = "xy_current_region_id s"
  note op = opened_reads [where tf = tf and h = h and cs = cs and pc = pc and s = s]
  obtain tx where tx: "mod_load_open_handle E (txn_start ?i plen) fname s = Some (XY_OK, tx, ?S)"
    "mod_load_try_reuse_existing tx ?S = Some (False, tx, ?S)"
    "tx = (txn_start ?i plen)\<lparr>tx_handle := Some h, tx_tmp_load_path := tmp, tx_lookup := tx_lookup tx\<rparr>"
    "lr_key (tx_lookup tx) = Some key" "lr_load_path (tx_lookup tx) = Some path"
    using open_fresh [OF E(2) fr p(2), of ?S] by blast
  from steps_registered [OF E wf tx(3,4,5), where fname = fname and tf = tf and cs = cs and pc = pc]
  obtain m x tx1 t1 tx2 t2 where
    st: "mod_load_alloc_entry E tx fname ?S = (XY_OK, tx1, t1)" "mod_load_publish_entry E tx1 t1 = Some (XY_OK, tx2, t2)"
    and reg: "registered E ?S m (entry_for tmp h key x plen s) key t2" "intern_wf E t2" "paths t2 x = Some path"
    and t2: "tx_handle tx2 = Some h" "tx_stable_fname tx2 = Some fname" "tx_mod_entry tx2 = Some m"
      "tx_inherited_region_id tx2 = ?i" "tx_inherited_region_plen tx2 = plen" by blast
  define e where "e = entry_for tmp h key x plen s"
  have e: "me_ctx e = None" "me_fn_cache e = []" "me_hook_impl_bits e = []" by (simp_all add: e_def entry_for_def mod_zero_def)
  note rg = reg(1) [folded e_def, unfolded registered_def]
  have t2eq: "t2 = ?S\<lparr>st_corm := st_corm t2, paths := paths t2, next_addr := next_addr t2, mods := (mods ?S)(m \<mapsto> e)\<rparr>" using rg by simp
  have f2: "xy_pending_ctx t2 = pc" "ctxs t2 = cs" "mods t2 = (mods s)(m \<mapsto> e)" "xy_current_region_id t2 = ?i"
    "xy_current_region_entry t2 = Some p"
    by (subst t2eq, simp add: opened_def p)+
  \<comment> \<open>bind\<close>
  define t3 where "t3 = t2\<lparr>xy_pending_ctx := None, ctxs := bind_ctx fname ?i c cs, mods := (mods t2)(m \<mapsto> e\<lparr>me_ctx := c\<rparr>)\<rparr>"
  have "module_ctx E (Some h) t2 = c" using c(1) module_ctx_cong [of t2 "s\<lparr>xy_pending_ctx := pc\<rparr>"] f2(1) by simp
  then have bind: "mod_load_bind_xy E tx2 t2 = Some (XY_OK, tx2, t3)"
    using bind_good [OF _ _ t2(1,2,4,3), of E t2 c e] c(2) f2(2,3) e(1) by (simp add: t3_def)
  have "staged s tf h (bind_ctx fname ?i c cs) m (e\<lparr>me_ctx := c\<rparr>) t3"
    unfolding staged_def
  proof (intro conjI)
    show "next_addr s \<le> m" "m < next_addr t3" using rg op by (simp_all add: t3_def)
    show "t3 = s\<lparr>st_corm := st_corm t3, paths := paths t3, next_addr := next_addr t3, mods := (mods s)(m \<mapsto> e\<lparr>me_ctx := c\<rparr>),
       ctxs := bind_ctx fname ?i c cs, xy_pending_ctx := None, dl_refs := (dl_refs s)(h := dl_refs s h + 1), tmp_files := tf\<rparr>"
      unfolding t3_def by (subst t2eq) (simp add: opened_def f2)
  qed
  note sd = this stagedD [OF this]
  have tab3: "tbl_get E t3 = tbl_get E t2" "tbl_single E t3 = tbl_single E t2" by (rule tbl_get_cong tbl_single_cong, simp add: t3_def)+
  have sg: "tbl_single E t3 = tbl_single E s" using rg op tab3 by simp
  have keep: "tbl_get E t3 d = tbl_get E s d" if "tbl_single E s d" "d \<noteq> mod_hd (xy_rt s)" "d \<noteq> path_intern_hd (xy_rt s)" for d
    using rg that op tab3 by simp
  have rhd: "tbl_get E t3 (region_hd (xy_rt s)) = tbl_get E s (region_hd (xy_rt s))"
    "tbl_get E t3 (hook_id_hd (xy_rt s)) = tbl_get E s (hook_id_hd (xy_rt s))"
    using w by (auto simp: ready_def region_wf_def table_wf_def hook_tab_def intro!: keep)
  have new: "mods s m = None" using sd(13) mod_lookup_fresh [OF wf] by blast
  have "load_ready E t3"
  proof (rule load_readyI [OF wf _ _ _ sg])
    show "xy_rt t3 = (xy_rt s)\<lparr>xy_mod_count := xy_mod_count (xy_rt s)\<rparr>" using sd(3) by simp
    show "region_wf E t3" using region_wf_more_addresses [of E s t3] w sd(2,3,13,14) sg rhd(1) by (simp add: ready_def)
    show "current_wf t3" using current_wf_frame [of t3 s] w sd(2,11,12) by (simp add: ready_def r_key_def [abs_def])
    have "\<exists>ns. mods_of t3 q ns" if "regions t3 q \<noteq> None" for q
    proof -
      have "regions s q \<noteq> None" using that sd(2) by simp
      then obtain ns where "mods_of s q ns" using w unfolding mods_wf_def by blast
      from mods_of_new [OF this _ sd(4) new] sd(2) show ?thesis by auto
    qed
    moreover have "q < next_addr t3" if "mods t3 q \<noteq> None" for q
    proof (cases "q = m")
      case False
      then have "q < next_addr s" using that w sd(4) unfolding mods_wf_def by auto
      with sd(13,14) show ?thesis by simp
    qed (use sd(14) in simp)
    ultimately show "mods_wf t3" by (simp add: mods_wf_def)
    have "paths t3 = paths t2" "next_addr t3 = next_addr t2" "xy_rt t3 = xy_rt t2" by (simp_all add: t3_def)
    then show "intern_wf E t3" using reg(2) by (simp add: intern_wf_def tab3)
    show "caches_ok E t3" "hooks_wf E t3" "hook_tab E t3" "unused_ok E t3"
      by (rule hook_state_frame [of E s]; use w e sg rhd sd(3,4) in \<open>auto split: if_splits\<close>)+
  qed
  moreover have look: "region_lookup E t3 ?i plen = Some p"
    using current_lookup [OF _ p, of E] w by (simp add: region_lookup_def sd(3) rhd)
  define tx4 where "tx4 = tx2\<lparr>tx_inherited_reg := Some p, tx_prev_region_id := ?i, tx_prev_region_entry := Some p, tx_context_active := True\<rparr>"
  have "set_current_region ?i (Some p) t3 = t3" using sd(11,12) p(1) by (simp add: set_current_region_def)
  then have ent: "mod_load_enter_context E tx2 t3 = (XY_OK, tx4, t3)"
    using t2(4,5) look sd(11,12) p(1) by (simp add: mod_load_enter_context_def tx4_def Let_def)
  have "mod_load E fname s = load_tail E tx4 t3"
    using p(2) tx(1,2) st bind ent
    by (cases "mod_load_claim_if_needed E tx4 t3") (auto simp: mod_load_def mod_load_steps_def load_tail_def split: Option.bind_splits)
  moreover have "tbl_get E t3 (mod_hd (xy_rt s)) = (tbl_get E s (mod_hd (xy_rt s)))(KStr key \<mapsto> VPtr m)" using rg op tab3 by simp
  moreover have "paths t3 x = Some path" using reg(3) by (simp add: t3_def)
  ultimately show ?thesis
    using sd(1) sg keep t2
    by - (rule exI [of _ tx4], rule exI [of _ t3], rule exI [of _ m], rule exI [of _ x], simp add: e_def tx4_def)
qed

text \<open>From the claim on, in the region the entry names by then.\<close>

lemma load_from_claim:
  assumes E: "env_ok E" and mem: "never_oom E" and wf: "load_ready E t" and pm: "quiet_module E h"
    and ms: "mods_of t q ms" and out: "\<forall>q ns. mods_of t q ns \<longrightarrow> m \<notin> set ns" and m: "mods t m = Some e"
    and look: "region_lookup E t (me_region_id e) (me_region_plen e) = Some q"
    and tx: "tx_handle tx = Some h" "tx_mod_entry tx = Some m" and eh: "me_handle e = Some h"
  shows "\<exists>u e1 e2. mod_load_enter E tx t = Some (XY_OK, u) \<and>
     u = t\<lparr>regions := regions u, mods := mods u, bufs := bufs u, xy_rt := (xy_rt t)\<lparr>xy_mod_count := xy_mod_count (xy_rt t) + 1\<rparr>\<rparr> \<and>
     mods u m = Some e2 \<and> relinked e e1 \<and> same_mod e1 e2 \<and> me_region_entry e2 = Some q \<and> warmed E t e2 \<and>
     mods_of u q (ms @ [m]) \<and> load_ready E u \<and> r_key u = r_key t \<and> r_parent u = r_parent t \<and>
     (\<forall>p ns. p \<noteq> q \<longrightarrow> mods_of t p ns \<longrightarrow> mods_of u p ns) \<and>
     (\<forall>q. mods u q = None \<longleftrightarrow> mods t q = None) \<and> dset u = dset t \<and>
     (\<forall>q e'. q \<noteq> m \<longrightarrow> mods u q = Some e' \<longrightarrow> (\<exists>e0. mods t q = Some e0 \<and> relinked_in e0 e'))"
proof -
  note w = wf [unfolded load_ready_def]
  from enter_ok [OF E mem pm _ ms out [rule_format, OF ms] m look _ _ _ _ tx eh] w obtain u e1 e2 where
    u: "mod_load_enter E tx t = Some (XY_OK, u)"
    "u = t\<lparr>regions := regions u, mods := mods u, bufs := bufs u, xy_rt := (xy_rt t)\<lparr>xy_mod_count := xy_mod_count (xy_rt t) + 1\<rparr>\<rparr>"
    and e2: "mods u m = Some e2" "relinked e e1" "same_mod e1 e2" "me_region_entry e2 = Some q" "warmed E t e2"
    and u': "mods_of u q (ms @ [m])" "region_wf E u" "r_key u = r_key t" "r_parent u = r_parent t" "caches_ok E u" "hooks_wf E u" "hook_tab E u"
      "unused_ok E u" "\<forall>p ns. p \<noteq> q \<longrightarrow> m \<notin> set ns \<longrightarrow> mods_of t p ns \<longrightarrow> mods_of u p ns"
      "\<forall>q. mods u q = None \<longleftrightarrow> mods t q = None" "dset u = dset t"
      "\<forall>q e'. q \<noteq> m \<longrightarrow> mods u q = Some e' \<longrightarrow> (\<exists>e0. mods t q = Some e0 \<and> relinked_in e0 e')" by (auto simp: ready_def)
  have f: "xy_current_region_id u = xy_current_region_id t" "xy_current_region_entry u = xy_current_region_entry t"
    "st_corm u = st_corm t" "paths u = paths t" "next_addr u = next_addr t" "path_intern_hd (xy_rt u) = path_intern_hd (xy_rt t)"
    "xy_rt u = (xy_rt t)\<lparr>xy_mod_count := xy_mod_count (xy_rt t) + 1\<rparr>"
    by (subst u(2), simp)+
  have tab: "tbl_get E u = tbl_get E t" "tbl_single E u = tbl_single E t" by (rule tbl_get_cong [OF f(3)]) (rule tbl_single_cong [OF f(3)])
  have lists: "mods_of u p ns" if "p \<noteq> q" "mods_of t p ns" for p ns using u'(9) out that by blast
  have "load_ready E u"
  proof (rule load_readyI [OF wf u'(2) _ f(7) tab(2) _ _ u'(5-8)])
    show "current_wf u" using current_wf_frame [of u t] w u'(3) f(1,2) by (simp add: ready_def)
    have "\<exists>ns. mods_of u p ns" if "regions u p \<noteq> None" for p
    proof -
      have "r_key u p \<noteq> None" using that by (auto simp: r_key_def)
      then have "regions t p \<noteq> None" unfolding u'(3) by (auto simp: r_key_def)
      then obtain ns where "mods_of t p ns" using w unfolding mods_wf_def by blast
      then show ?thesis using u'(1) lists by (cases "p = q") blast+
    qed
    then show "mods_wf u" using w u'(10) by (simp add: mods_wf_def f(5))
    show "intern_wf E u" using w by (simp add: intern_wf_def tab f)
  qed
  with u e2 u'(1,3,4,10-12) lists show ?thesis
    by - (rule exI [of _ u], rule exI [of _ e1], rule exI [of _ e2], simp)
qed

text \<open>Everything a load does, for the properties that follow it.\<close>

lemma mod_load_effects:
  assumes E: "env_ok E" "never_oom E" and wf: "load_ready E s"
    and fr: "fresh_from E s tmp tf fname path key h cs pc" and plain: "plain_module E h"
    and c: "module_ctx E (Some h) (s\<lparr>xy_pending_ctx := pc\<rparr>) = c" "good_ctx E h cs c"
    and p: "xy_current_region_entry s = Some p" "regions s p = Some r" "\<not> re_require_claim r" and ms: "mods_of s p ms"
  shows "\<exists>t m e x. mod_load E fname s = Some (XY_OK, t) \<and>
    mods s m = None \<and> mods t m = Some e \<and> me_refcount e = 1 \<and> me_handle e = Some h \<and> me_ctx e = c \<and>
    me_region_id e = xy_current_region_id s \<and> region_current_plen s = Some (me_region_plen e) \<and>
    me_region_entry e = Some p \<and> me_parent_entry e = xy_loading_mod s \<and> warmed E s e \<and>
    ctxs t = bind_ctx fname (xy_current_region_id s) c cs \<and>
    tbl_get E t (mod_hd (xy_rt s)) = (tbl_get E s (mod_hd (xy_rt s)))(KStr key \<mapsto> VPtr m) \<and>
    mods_of t p (ms @ [m]) \<and> load_ready E t \<and>
    dl_refs t = (dl_refs s)(h := dl_refs s h + 1) \<and>
    xy_rt t = (xy_rt s)\<lparr>xy_mod_count := xy_mod_count (xy_rt s) + 1\<rparr> \<and>
    xy_current_region_id t = xy_current_region_id s \<and> xy_current_region_entry t = Some p \<and>
    xy_loading_mod t = xy_loading_mod s \<and> xy_pending_ctx t = None \<and>
    held_with tmp e key x h \<and> paths t x = Some path \<and> r_key t = r_key s \<and> tmp_files t = tf \<and>
    xy_reloading t = xy_reloading s \<and> dset t = dset s \<and>
    tbl_single E t = tbl_single E s \<and>
    (\<forall>d. tbl_single E s d \<longrightarrow> d \<notin> {mod_hd (xy_rt s), path_intern_hd (xy_rt s)} \<longrightarrow> tbl_get E t d = tbl_get E s d) \<and>
    (\<forall>q ns. q \<noteq> p \<longrightarrow> mods_of s q ns \<longrightarrow> mods_of t q ns) \<and> next_addr s \<le> m \<and>
    (\<forall>q. q \<noteq> m \<longrightarrow> (mods t q = None \<longleftrightarrow> mods s q = None)) \<and>
    (\<forall>q e'. q \<noteq> m \<longrightarrow> mods t q = Some e' \<longrightarrow> (\<exists>e0. mods s q = Some e0 \<and> relinked_in e0 e'))"
proof -
  note w = wf [unfolded load_ready_def]
  let ?i = "xy_current_region_id s"
  obtain plen where plen: "region_current_plen s = Some plen" using w ready_current_plen by blast
  from load_until_claim [OF E wf fr c p(1) plen] obtain tx t m x where
    t: "mod_load E fname s = load_tail E tx t" "load_ready E t" "paths t x = Some path"
      "staged s tf h (bind_ctx fname ?i c cs) m ((entry_for tmp h key x plen s)\<lparr>me_ctx := c\<rparr>) t"
      "tbl_get E t (mod_hd (xy_rt s)) = (tbl_get E s (mod_hd (xy_rt s)))(KStr key \<mapsto> VPtr m)" "tbl_single E t = tbl_single E s"
      "\<forall>d. tbl_single E s d \<longrightarrow> d \<notin> {mod_hd (xy_rt s), path_intern_hd (xy_rt s)} \<longrightarrow> tbl_get E t d = tbl_get E s d"
    and tx: "tx_handle tx = Some h" "tx_mod_entry tx = Some m" "tx_inherited_reg tx = Some p" "tx_prev_region_id tx = ?i"
      "tx_prev_region_entry tx = Some p" "tx_context_active tx" by blast
  define e where "e = (entry_for tmp h key x plen s)\<lparr>me_ctx := c\<rparr>"
  have e: "me_ctx e = c" "me_region_id e = ?i" "me_region_plen e = plen" "me_handle e = Some h" "me_refcount e = 1"
    "me_parent_entry e = xy_loading_mod s" "held_with tmp e key x h"
    by (simp_all add: e_def entry_for_def held_with_def mod_zero_def)
  note sd = stagedD [OF t(4) [folded e_def]]
  have new: "mods s m = None" using sd(12) mod_lookup_fresh [OF wf] by blast
  have rhd: "tbl_get E t (region_hd (xy_rt s)) = tbl_get E s (region_hd (xy_rt s))"
    "tbl_get E t (hook_id_hd (xy_rt s)) = tbl_get E s (hook_id_hd (xy_rt s))"
    using w t(7) by (auto simp: ready_def region_wf_def table_wf_def hook_tab_def)
  have look: "region_lookup E t (me_region_id e) (me_region_plen e) = Some p"
    using current_lookup [OF _ p(1) plen, of E] w by (simp add: region_lookup_def sd(2) rhd e)
  have lists: "mods_of t q ns" if "mods_of s q ns" for q ns by (rule mods_of_new [OF that _ sd(3) new]) (simp add: sd(1))
  have out: "\<forall>q ns. mods_of t q ns \<longrightarrow> m \<notin> set ns"
  proof (intro allI impI notI)
    fix q ns assume q: "mods_of t q ns" and "m \<in> set ns"
    then have "me_region_entry e = Some q" using q sd(3) unfolding mods_of_def mod_region_def by auto
    then show False by (simp add: e_def entry_for_def mod_zero_def)
  qed
  have pm: "quiet_module E h" and mt: "mods t m = Some e" using plain sd(3) by (simp_all add: plain_module_def)
  from load_from_claim [OF E t(2) pm lists [OF ms] out mt look tx(1,2) e(4)] obtain u e1 e2 where
    u: "mod_load_enter E tx t = Some (XY_OK, u)"
    "u = t\<lparr>regions := regions u, mods := mods u, bufs := bufs u, xy_rt := (xy_rt t)\<lparr>xy_mod_count := xy_mod_count (xy_rt t) + 1\<rparr>\<rparr>"
    "mods u m = Some e2" "relinked e e1" "same_mod e1 e2" "me_region_entry e2 = Some p" "warmed E t e2"
    "mods_of u p (ms @ [m])" "load_ready E u" "r_key u = r_key t" "r_parent u = r_parent t" "\<forall>q ns. q \<noteq> p \<longrightarrow> mods_of t q ns \<longrightarrow> mods_of u q ns"
    "\<forall>q. mods u q = None \<longleftrightarrow> mods t q = None" "dset u = dset t"
    "\<forall>q e'. q \<noteq> m \<longrightarrow> mods u q = Some e' \<longrightarrow> (\<exists>e0. mods t q = Some e0 \<and> relinked_in e0 e')"
    by (elim exE conjE) (rule that)
  have f: "xy_current_region_id u = ?i" "xy_current_region_entry u = Some p" "st_corm u = st_corm t" "ctxs u = bind_ctx fname ?i c cs"
    "dl_refs u = (dl_refs s)(h := dl_refs s h + 1)" "xy_rt u = (xy_rt s)\<lparr>xy_mod_count := xy_mod_count (xy_rt s) + 1\<rparr>"
    "xy_loading_mod u = xy_loading_mod s" "xy_pending_ctx u = None" "tmp_files u = tf" "xy_reloading u = xy_reloading s" "paths u = paths t"
    by (subst u(2), simp add: sd p)+
  have "mod_load_claim_if_needed E tx t = Some (XY_OK, t)"
    using plain p(2,3) tx(1,3) sd(1) by (simp add: mod_load_claim_if_needed_def plain_module_def)
  moreover have "set_current_region ?i (Some p) u = u" using f(1,2) by (simp add: set_current_region_def)
  ultimately have load: "mod_load E fname s = Some (XY_OK, u)"
    using t(1) u(1) tx(4-6) by (simp add: load_tail_def mod_load_restore_context_def)
  have tab: "tbl_get E u = tbl_get E t" "tbl_single E u = tbl_single E t" by (rule tbl_get_cong [OF f(3)]) (rule tbl_single_cong [OF f(3)])
  have "hook_reg E t = hook_reg E s" by (simp add: fun_eq_iff hook_reg_def sd(2) rhd)
  then have "warmed E s e2" using u(7) by (simp add: warmed_def)
  moreover have "me_refcount e2 = 1 \<and> me_handle e2 = Some h \<and> me_ctx e2 = c \<and> me_region_id e2 = ?i \<and> me_region_plen e2 = plen \<and>
      me_parent_entry e2 = xy_loading_mod s \<and> held_with tmp e2 key x h"
    using u(4,5) e by (auto simp: relinked_def same_mod_def held_with_def)
  moreover have "r_key u = r_key s" "dset u = dset s" using u(10,14) by (simp_all add: fun_eq_iff r_key_def dset_def sd(1))
  moreover have "mods_of u q ns" if "q \<noteq> p" "mods_of s q ns" for q ns using u(12) that lists by blast
  moreover have "q \<noteq> m \<longrightarrow> (mods u q = None \<longleftrightarrow> mods s q = None)" for q using u(13) sd(3) by simp
  moreover have "\<exists>e0. mods s q = Some e0 \<and> relinked_in e0 e'" if "q \<noteq> m" "mods u q = Some e'" for q e'
    using u(15) that sd(3) by simp
  ultimately show ?thesis
    using load new u(3,6,8,9) f plen t(3,5-7) tab sd(12)
    by - (rule exI [of _ u], rule exI [of _ m], rule exI [of _ e2], rule exI [of _ x], simp)
qed

lemma load_effects:
  assumes E: "env_ok E" "never_oom E" and wf: "load_ready E s"
    and fr: "fresh_file E s fname path key h cs pc" and plain: "plain_module E h"
    and c: "module_ctx E (Some h) (s\<lparr>xy_pending_ctx := pc\<rparr>) = c" "good_ctx E h cs c"
    and p: "xy_current_region_entry s = Some p" "regions s p = Some r" "\<not> re_require_claim r" and ms: "mods_of s p ms"
  shows "\<exists>t m e x. xy_load E fname s = Some (XY_OK, t) \<and> xy_err_val t = XY_OK \<and>
    mods s m = None \<and> mods t m = Some e \<and> me_refcount e = 1 \<and> me_handle e = Some h \<and> me_ctx e = c \<and>
    me_region_id e = xy_current_region_id s \<and> region_current_plen s = Some (me_region_plen e) \<and>
    me_region_entry e = Some p \<and> me_parent_entry e = xy_loading_mod s \<and> warmed E s e \<and>
    ctxs t = bind_ctx fname (xy_current_region_id s) c cs \<and>
    tbl_get E t (mod_hd (xy_rt s)) = (tbl_get E s (mod_hd (xy_rt s)))(KStr key \<mapsto> VPtr m) \<and>
    mods_of t p (ms @ [m]) \<and> load_ready E t \<and>
    dl_refs t = (dl_refs s)(h := dl_refs s h + 1) \<and>
    xy_rt t = (xy_rt s)\<lparr>xy_mod_count := xy_mod_count (xy_rt s) + 1\<rparr> \<and>
    xy_current_region_id t = xy_current_region_id s \<and> xy_current_region_entry t = Some p \<and>
    xy_loading_mod t = xy_loading_mod s \<and> xy_pending_ctx t = None \<and>
    held_once e key x h \<and> paths t x = Some path \<and> r_key t = r_key s \<and> tmp_files t = tmp_files s \<and> dset t = dset s \<and>
    tbl_single E t = tbl_single E s \<and>
    (\<forall>d. tbl_single E s d \<longrightarrow> d \<notin> {mod_hd (xy_rt s), path_intern_hd (xy_rt s)} \<longrightarrow> tbl_get E t d = tbl_get E s d) \<and>
    (\<forall>q ns. q \<noteq> p \<longrightarrow> mods_of s q ns \<longrightarrow> mods_of t q ns) \<and> next_addr s \<le> m \<and>
    (\<forall>q. q \<noteq> m \<longrightarrow> (mods t q = None \<longleftrightarrow> mods s q = None)) \<and>
    (\<forall>q e'. q \<noteq> m \<longrightarrow> mods t q = Some e' \<longrightarrow> (\<exists>e0. mods s q = Some e0 \<and> relinked_in e0 e'))"
proof -
  from mod_load_effects [OF E wf fr [unfolded fresh_file_from, THEN conjunct1] plain c p ms] obtain t m e x where
    t: "mod_load E fname s = Some (XY_OK, t)"
    "mods s m = None" "mods t m = Some e" "me_refcount e = 1" "me_handle e = Some h" "me_ctx e = c"
    "me_region_id e = xy_current_region_id s" "region_current_plen s = Some (me_region_plen e)"
    "me_region_entry e = Some p" "me_parent_entry e = xy_loading_mod s" "warmed E s e"
    "ctxs t = bind_ctx fname (xy_current_region_id s) c cs"
    "tbl_get E t (mod_hd (xy_rt s)) = (tbl_get E s (mod_hd (xy_rt s)))(KStr key \<mapsto> VPtr m)"
    "mods_of t p (ms @ [m])" "load_ready E t"
    "dl_refs t = (dl_refs s)(h := dl_refs s h + 1)"
    "xy_rt t = (xy_rt s)\<lparr>xy_mod_count := xy_mod_count (xy_rt s) + 1\<rparr>"
    "xy_current_region_id t = xy_current_region_id s" "xy_current_region_entry t = Some p"
    "xy_loading_mod t = xy_loading_mod s" "xy_pending_ctx t = None"
    "held_with None e key x h" "paths t x = Some path" "r_key t = r_key s" "tmp_files t = tmp_files s" "dset t = dset s"
    "tbl_single E t = tbl_single E s"
    "\<forall>d. tbl_single E s d \<longrightarrow> d \<notin> {mod_hd (xy_rt s), path_intern_hd (xy_rt s)} \<longrightarrow> tbl_get E t d = tbl_get E s d"
    "\<forall>q ns. q \<noteq> p \<longrightarrow> mods_of s q ns \<longrightarrow> mods_of t q ns" "next_addr s \<le> m"
    "\<forall>q. q \<noteq> m \<longrightarrow> (mods t q = None \<longleftrightarrow> mods s q = None)"
    "\<forall>q e'. q \<noteq> m \<longrightarrow> mods t q = Some e' \<longrightarrow> (\<exists>e0. mods s q = Some e0 \<and> relinked_in e0 e')"
    by (elim exE conjE) (rule that)
  have load: "xy_load E fname s = Some (XY_OK, set_err XY_OK t)"
    using wf t(1) by (simp add: xy_load_def fail_with_def load_ready_def ensure_ready)
  have tab: "tbl_get E (set_err XY_OK t) = tbl_get E t" "tbl_single E (set_err XY_OK t) = tbl_single E t"
    by (rule tbl_get_cong tbl_single_cong, simp add: set_err_def)+
  have "dset (set_err XY_OK t) = dset t" "r_key (set_err XY_OK t) = r_key t"
    by (simp_all add: fun_eq_iff dset_def r_key_def set_err_def)
  moreover have "held_once e key x h" using t(22) by (simp add: held_once_def held_with_def)
  ultimately show ?thesis
    using load t load_ready_set_err [of E XY_OK t]
    by - (rule exI [of _ "set_err XY_OK t"], rule exI [of _ m], rule exI [of _ e], rule exI [of _ x],
        simp add: mods_of_set_err tab, simp add: set_err_def)
qed

text \<open>
  C3. A file that is not loaded in the current region, with a plain module whose context, if any,
  proves its layout, is loaded: \<^verbatim>\<open>xy_load\<close> returns \<^const>\<open>XY_OK\<close>; there is one new entry, with one
  reference, the region and width of the caller, the module that was loading as its parent, its
  context bound, and every registered hook resolved; the table of modules has it under its key
  and nothing else new; it is the last of the region's list; the library holds one more
  reference on the object, counts one more module, and the caller's region is still current. The state is again one from
  which any file can be loaded.
\<close>

theorem load_registers:
  assumes E: "env_ok E" "never_oom E" and wf: "load_ready E s"
    and fr: "fresh_file E s fname path key h cs pc" and plain: "plain_module E h"
    and c: "module_ctx E (Some h) (s\<lparr>xy_pending_ctx := pc\<rparr>) = c" "good_ctx E h cs c"
    and p: "xy_current_region_entry s = Some p" "regions s p = Some r" "\<not> re_require_claim r" and ms: "mods_of s p ms"
  shows "\<exists>t m e. xy_load E fname s = Some (XY_OK, t) \<and> xy_err_val t = XY_OK \<and>
    mods s m = None \<and> mods t m = Some e \<and> me_refcount e = 1 \<and> me_handle e = Some h \<and> me_ctx e = c \<and>
    me_region_id e = xy_current_region_id s \<and> region_current_plen s = Some (me_region_plen e) \<and>
    me_region_entry e = Some p \<and> me_parent_entry e = xy_loading_mod s \<and> warmed E s e \<and>
    ctxs t = bind_ctx fname (xy_current_region_id s) c cs \<and>
    tbl_get E t (mod_hd (xy_rt s)) = (tbl_get E s (mod_hd (xy_rt s)))(KStr key \<mapsto> VPtr m) \<and>
    mods_of t p (ms @ [m]) \<and> load_ready E t \<and>
    dl_refs t = (dl_refs s)(h := dl_refs s h + 1) \<and>
    xy_rt t = (xy_rt s)\<lparr>xy_mod_count := xy_mod_count (xy_rt s) + 1\<rparr> \<and>
    xy_current_region_id t = xy_current_region_id s \<and> xy_current_region_entry t = Some p \<and>
    xy_loading_mod t = xy_loading_mod s \<and> xy_pending_ctx t = None"
proof -
  show ?thesis using load_effects [OF assms]
    apply (elim exE conjE)
    apply (intro exI conjI)
    apply assumption+
    done
qed

lemma demo_plain: "plain_module (demo_linker True) 9"
  by (auto simp: plain_module_def quiet_module_def module_lookup_symbol_fn_def module_lookup_symbol_raw_def demo_linker_def demo_env_def
      intro!: exI [of _ id])

lemma demo_good_ctx: "good_ctx (demo_linker True) 9 [77 \<mapsto> xy_t_zero] (Some 77)" by (simp add: good_ctx_def demo_abi)

lemma demo_boot_current:
  "xy_current_region_entry demo_boot = Some 1"
  "regions demo_boot 1 = Some (region_zero\<lparr>re_id := XY_REGION_ROOT, re_dispatch_gen := 1\<rparr>)"
  "\<not> re_require_claim (region_zero\<lparr>re_id := XY_REGION_ROOT, re_dispatch_gen := 1\<rparr>)" "mods_of demo_boot 1 []"
  by (simp_all add: demo_boot_corm demo_boot_regions region_zero_def mods_of_def)

theorem load_registers_witness:
  "\<exists>t m e. xy_load (demo_linker True) ''mods/a'' demo_boot = Some (XY_OK, t) \<and> mods t m = Some e \<and>
     me_handle e = Some 9 \<and> me_ctx e = Some 77 \<and> mods_of t 1 [m] \<and> xy_mod_count (xy_rt t) = 1"
proof -
  from load_registers [OF demo_linker_ok demo_linker_ready demo_fresh_file demo_plain demo_ctx demo_good_ctx demo_boot_current] obtain t m e where
    "xy_load (demo_linker True) ''mods/a'' demo_boot = Some (XY_OK, t)" "mods t m = Some e" "me_handle e = Some 9"
    "me_ctx e = Some 77" "mods_of t 1 ([] @ [m])"
    "xy_rt t = (xy_rt demo_boot)\<lparr>xy_mod_count := xy_mod_count (xy_rt demo_boot) + 1\<rparr>" by blast
  then show ?thesis by (intro exI [of _ t] exI [of _ m] exI [of _ e]) (simp add: demo_boot_corm)
qed

end
