(* ===== verification/Xy_Unload.thy ===== *)
theory Xy_Unload
  imports Xy_Load_Enter
begin

text \<open>
  Unloading a module that no other module depends on: one reference less, or the way out of every
  structure a load puts it in.
\<close>

section \<open>Detaching, exactly\<close>

lemma detach_exact:
  assumes tw: "tree_wf s" and ms: "mods_of s p (xs @ m # ys)"
  shows "module_region_detach (Some m) s =
     Some (upd_regs (set (ancestors (unlinked p m xs ys s) p)) (\<lambda>r. mark_dirty (bump_gen r)) (unlinked p m xs ys s))"
proof -
  have "tree_wf (unlinked p m xs ys s)" by (rule tree_wf_shape [OF relink_shape(1) tw])
  moreover obtain k where "r_key s p = Some k" using mods_of_key [OF ms] by blast
  then have "r_key (unlinked p m xs ys s) p = Some k" using relink_shape(1) [of s p m xs ys] by (simp add: same_shape_def)
  ultimately show ?thesis using detach_unlinked [OF ms] by (simp add: region_mark_subtree_dirty_eq)
qed

lemma unlinked_fields:
  "mods (unlinked p m xs ys s) q = None \<longleftrightarrow> mods s q = None"
  "mods s m = Some e \<Longrightarrow> mods (unlinked p m xs ys s) m = Some (e\<lparr>me_region_prev := None, me_region_next := None\<rparr>)"
  by (simp_all add: unlinked_def)

lemma unlinked_frame:
  "unlinked p m xs ys s = s\<lparr>mods := mods (unlinked p m xs ys s), regions := regions (unlinked p m xs ys s)\<rparr>"
  by (simp add: unlinked_def)

section \<open>The caches and the denies\<close>

text \<open>Every module the table lists is allocated.\<close>

definition listed_alive :: "'h env \<Rightarrow> 'h xy_state \<Rightarrow> bool" where
  "listed_alive E s \<longleftrightarrow>
     (\<forall>k v q. tbl_get E s (mod_hd (xy_rt s)) k = Some v \<longrightarrow> corm_ptr (Some v) = Some q \<longrightarrow> mods s q \<noteq> None)"

lemma listed_alive_iter:
  assumes "env_ok E" "tbl_single E s (mod_hd (xy_rt s))" "listed_alive E s" "listed (tbl_iter E s (mod_hd (xy_rt s))) q"
  shows "mods s q \<noteq> None"
  using assms(4) assms(3) tbl_iter_iff [OF assms(1,2)] unfolding listed_def listed_alive_def by fastforce

text \<open>
  What an unload should make of the cache of another module, in terms of the linker alone: the
  object of a handle is where its installer lies, or else its context function, and the functions
  of that object are emptied out of the cache.
\<close>

definition object_base :: "'h env \<Rightarrow> dlhandle \<Rightarrow> addr option" where
  "object_base E h =
     (case stl_dlsym E h ''xy_install'' of
        Some f \<Rightarrow> dladdr_base E f
      | None \<Rightarrow> Option.bind (stl_dlsym E h ''get_xy_ptr'') (dladdr_base E))"

definition forgotten :: "'h env \<Rightarrow> dlhandle option \<Rightarrow> fn_slot list \<Rightarrow> fn_slot list" where
  "forgotten E h c =
     (case Option.bind h (object_base E) of
        None \<Rightarrow> c
      | Some base \<Rightarrow>
          map (\<lambda>x. case x of Fn f \<Rightarrow> if dladdr_base E f = Some base then FN_NULL else x | _ \<Rightarrow> x) c)"

lemma object_base_code: "module_handle_base E (Some h) = object_base E h"
  by (auto simp: object_base_def module_handle_base_def module_base_from_symbol_def module_lookup_symbol_raw_def Let_def
      split: option.splits)

lemma forgotten_code:
  "forgotten E h c =
     (if h = None then c
      else case module_handle_base E h of None \<Rightarrow> c | Some base \<Rightarrow> map (forget_base E base) c)"
  by (auto simp: forgotten_def object_base_code forget_base_def module_base_from_symbol_def split: option.splits fn_slot.splits)

definition in_table :: "'h env \<Rightarrow> 'h xy_state \<Rightarrow> mptr \<Rightarrow> bool" where
  "in_table E s q \<longleftrightarrow> (\<exists>k. tbl_get E s (mod_hd (xy_rt s)) k = Some (VPtr q))"

definition swept :: "'h env \<Rightarrow> 'h xy_state \<Rightarrow> dlhandle option \<Rightarrow> mptr \<Rightarrow> xy_mod_entry \<Rightarrow> fn_slot list" where
  "swept E s h q e = (if in_table E s q then forgotten E h (me_fn_cache e) else me_fn_cache e)"

lemma in_table_iter:
  assumes "env_ok E" "tbl_single E s (mod_hd (xy_rt s))"
  shows "listed (tbl_iter E s (mod_hd (xy_rt s))) q \<longleftrightarrow> in_table E s q"
proof -
  have "corm_ptr (Some v) = Some q \<longleftrightarrow> v = VPtr q" for v by (cases v) simp_all
  then show ?thesis using tbl_iter_iff [OF assms] by (force simp: listed_def in_table_def)
qed

lemma clear_caches_ok:
  assumes E: "env_ok E" and sg: "tbl_single E s (mod_hd (xy_rt s))" and al: "listed_alive E s" and m: "mods s m = Some e"
  shows "\<exists>t. module_clear_fn_cache_for_handle E (Some m) s = Some t \<and> t = s\<lparr>mods := mods t\<rparr> \<and> mods t m = Some e \<and>
     (\<forall>q e'. mods t q = Some e' \<longrightarrow> (\<exists>e0 c. mods s q = Some e0 \<and> e' = e0\<lparr>me_fn_cache := c\<rparr>)) \<and>
     (\<forall>q. mods t q = None \<longleftrightarrow> mods s q = None) \<and>
     (\<forall>q e0. q \<noteq> m \<longrightarrow> mods s q = Some e0 \<longrightarrow> mods t q = Some (e0\<lparr>me_fn_cache := swept E s (me_handle e) q e0\<rparr>))"
proof -
  have same: "\<exists>c. e' = e'\<lparr>me_fn_cache := c\<rparr>" for e' :: xy_mod_entry by (rule exI [of _ "me_fn_cache e'"]) simp
  have keep: "swept E s (me_handle e) q e0 = me_fn_cache e0"
    if "me_handle e = None \<or> module_handle_base E (me_handle e) = None" for q e0
    using that by (auto simp: swept_def forgotten_code)
  show ?thesis
  proof (cases "me_handle e = None \<or> module_handle_base E (me_handle e) = None")
    case True
    then have "module_clear_fn_cache_for_handle E (Some m) s = Some s"
      using m by (auto simp: module_clear_fn_cache_for_handle_def split: option.split)
    with m same show ?thesis by (intro exI [of _ s]) (auto simp: keep [OF True])
  next
    case False
    then obtain base where base: "module_handle_base E (me_handle e) = Some base" "me_handle e \<noteq> None" by auto
    let ?kvs = "tbl_iter E s (mod_hd (xy_rt s))"
    obtain t where t: "clear_loop E m base ?kvs s = Some t" "t = s\<lparr>mods := mods t\<rparr>"
      "\<forall>q. mods t q = (if listed ?kvs q \<and> q \<noteq> m
         then map_option (\<lambda>e. e\<lparr>me_fn_cache := map (forget_base E base) (me_fn_cache e)\<rparr>) (mods s q) else mods s q)"
      using clear_loop_ok [of ?kvs s E m base] listed_alive_iter [OF E sg al] by blast
    have "module_clear_fn_cache_for_handle E (Some m) s = Some t"
      using m base t(1) by (auto simp: module_clear_fn_cache_for_handle_def)
    moreover have "\<exists>e0 c. mods s q = Some e0 \<and> e' = e0\<lparr>me_fn_cache := c\<rparr>" if "mods t q = Some e'" for q e'
      using that same t(3) by (auto split: if_splits)
    moreover have "mods t m = Some e" "\<forall>q. mods t q = None \<longleftrightarrow> mods s q = None" using t(3) m by auto
    moreover have "mods t q = Some (e0\<lparr>me_fn_cache := swept E s (me_handle e) q e0\<rparr>)" if "q \<noteq> m" "mods s q = Some e0" for q e0
      using that t(3) in_table_iter [OF E sg, of q] base by (auto simp: swept_def forgotten_code)
    ultimately show ?thesis using t(2) by blast
  qed
qed

lemma remove_loop_single:
  assumes "env_ok E"
  shows "tbl_single E (snd (remove_loop E d x vs s)) = tbl_single E s"
proof (induction vs arbitrary: s)
  case (Cons v vs)
  have "tbl_single E (tbl_del E d (KPath v) s) = tbl_single E s" by (simp add: fun_eq_iff tbl_single_del [OF assms])
  with Cons show ?case by (cases "v = x") (simp_all add: case_prod_beta)
qed simp

lemma remove_denies_frame:
  assumes E: "env_ok E" and inv: "deny_inv E s" and r: "regions s p = Some r"
  shows "\<exists>t rest h. module_remove_denies E (Some p) (Some x) s = Some t \<and>
     t = s\<lparr>st_corm := h, regions := (regions s)(p \<mapsto> r\<lparr>re_denied_modules := rest\<rparr>)\<rparr> \<and>
     set rest = denied_mods s p - {x} \<and> deny_inv E t \<and>
     (\<forall>d \<in> rt_handles s. tbl_get E t d = tbl_get E s d) \<and> tbl_single E t = tbl_single E s"
proof -
  let ?d = "re_denied_modules_set r" and ?vs = "re_denied_modules r"
  let ?rest = "filter (\<lambda>v. v \<noteq> x) ?vs" and ?s1 = "snd (remove_loop E ?d x ?vs s)"
  have s1: "remove_loop E ?d x ?vs s = (?rest, ?s1)" using remove_loop_list [of E ?d x ?vs s] by (metis prod.collapse)
  obtain h where h: "?s1 = s\<lparr>st_corm := h\<rparr>" using remove_loop_frame [of E ?d x ?vs s] by blast
  let ?t = "upd_reg p (\<lambda>r. r\<lparr>re_denied_modules := ?rest\<rparr>) ?s1"
  have "module_remove_denies E (Some p) (Some x) s = Some ?t"
    using r by (simp add: module_remove_denies_def case_prod_beta remove_loop_list)
  moreover have "?t = s\<lparr>st_corm := h, regions := (regions s)(p \<mapsto> r\<lparr>re_denied_modules := ?rest\<rparr>)\<rparr>"
    using r by (simp add: h upd_reg_def)
  moreover have "deny_inv E ?t" using E inv r s1 by (rule deny_inv_removed)
  moreover have "set ?rest = denied_mods s p - {x}" using r by (auto simp: denied_mods_def)
  moreover have "tbl_get E ?t d = tbl_get E s d" if d: "d \<in> rt_handles s" for d
  proof -
    have "dset s p True = Some (?d, KPath ` set ?vs)" using r by (simp add: dset_def deny_set_def)
    then have "?d \<noteq> 0 \<Longrightarrow> ?d \<notin> rt_handles s" "tbl_single E s d" using inv d unfolding deny_inv_def by blast+
    then show ?thesis using remove_loop_others(2) [OF E, of d ?d s x ?vs] d by (auto simp: heap_simps)
  qed
  moreover have "tbl_single E ?t = tbl_single E s"
    using remove_loop_single [OF E, of ?d x ?vs s] by (simp add: fun_eq_iff heap_simps)
  ultimately show ?thesis by (intro exI [of _ ?t] exI [of _ ?rest] exI [of _ h]) simp
qed


section \<open>Removing a module\<close>

lemma children_none:
  assumes "\<And>q. listed kvs q \<Longrightarrow> mods s q \<noteq> None" "\<And>q e. mods s q = Some e \<Longrightarrow> q \<noteq> m \<Longrightarrow> me_parent_entry e \<noteq> Some m"
  shows "children_of s m kvs = Some []"
  using assms
proof (induction kvs)
  case (Cons kv kvs)
  obtain k v where kv: "kv = (k, v)" by (cases kv)
  have IH: "children_of s m kvs = Some []" using Cons kv by (auto simp: listed_Cons)
  show ?case
  proof (cases "corm_ptr (Some v)")
    case (Some q)
    then have "mods s q \<noteq> None" using Cons.prems(1) kv by (simp add: listed_Cons)
    with IH Cons.prems(2) [of q] Some kv show ?thesis by auto
  qed (use IH kv in simp)
qed simp

lemma mods_of_freed:
  assumes "mods_of s q ns" "regions t q = regions s q" "mods t = (mods s)(m := None)" "m \<notin> set ns"
  shows "mods_of t q ns"
proof -
  have same: "mod_next t x = mod_next s x" "mod_prev t x = mod_prev s x" "mod_region t x = mod_region s x" if "x \<in> set ns" for x
    using that assms(3,4) by (auto simp: mod_next_def mod_prev_def mod_region_def)
  show ?thesis
    using assms(1) same(3) unfolding mods_of_def assms(2)
    using chain_cong [of "mod_next s" _ ns, OF _ same(1)] chain_cong [of "mod_prev s" _ "rev ns", OF _ same(2)] by auto
qed

text \<open>The lists only depend on the heads, the tails and the links.\<close>

lemma mods_of_links:
  assumes "mod_next t = mod_next s" "mod_prev t = mod_prev s" "mod_region t = mod_region s"
    and "map_option (\<lambda>r. (re_mods_head r, re_mods_tail r)) (regions t q) = map_option (\<lambda>r. (re_mods_head r, re_mods_tail r)) (regions s q)"
  shows "mods_of t q ns = mods_of s q ns"
  using assms by (cases "regions t q"; cases "regions s q") (simp_all add: mods_of_def)

lemma same_links:
  assumes "\<forall>q e'. mods t q = Some e' \<longrightarrow> (\<exists>e0 c. mods s q = Some e0 \<and> e' = e0\<lparr>me_fn_cache := c\<rparr>)"
    and "\<forall>q. mods t q = None \<longleftrightarrow> mods s q = None"
  shows "mod_next t = mod_next s" "mod_prev t = mod_prev s" "mod_region t = mod_region s"
proof -
  have "mod_next t q = mod_next s q \<and> mod_prev t q = mod_prev s q \<and> mod_region t q = mod_region s q" for q
    using assms by (cases "mods t q") (force simp: mod_next_def mod_prev_def mod_region_def)+
  then show "mod_next t = mod_next s" "mod_prev t = mod_prev s" "mod_region t = mod_region s" by (simp_all add: fun_eq_iff)
qed

text \<open>What an unload may change in the entries it leaves: links and cached functions.\<close>

definition kept :: "xy_mod_entry \<Rightarrow> xy_mod_entry \<Rightarrow> bool" where
  "kept e e' \<longleftrightarrow>
     me_handle e' = me_handle e \<and> me_ctx e' = me_ctx e \<and> me_region_entry e' = me_region_entry e \<and>
     me_region_id e' = me_region_id e \<and> me_region_plen e' = me_region_plen e \<and> me_refcount e' = me_refcount e \<and>
     me_parent_entry e' = me_parent_entry e \<and> me_region_state e' = me_region_state e \<and> me_mod_key e' = me_mod_key e \<and>
     me_load_path e' = me_load_path e \<and> me_tmp_load_path e' = me_tmp_load_path e \<and>
     me_hook_impl_bits e' = me_hook_impl_bits e"

lemma kept_refl [simp]: "kept e e"
  by (simp add: kept_def)

lemma kept_trans: "kept e e' \<Longrightarrow> kept e' e'' \<Longrightarrow> kept e e''"
  by (simp add: kept_def)

lemma kept_unlinked:
  assumes "mods (unlinked p m xs ys s) q = Some e'" "q \<noteq> m"
  shows "\<exists>e0. mods s q = Some e0 \<and> kept e0 e' \<and> me_fn_cache e' = me_fn_cache e0"
proof -
  obtain e0 where e0: "mods s q = Some e0" using assms(1) by (cases "mods s q") (simp_all add: unlinked_def)
  have "e' = e0\<lparr>me_region_next := (if xs \<noteq> [] \<and> q = last xs then first ys else me_region_next e0),
      me_region_prev := (if ys \<noteq> [] \<and> q = hd ys then first (rev xs) else me_region_prev e0)\<rparr>"
    using assms e0 by (simp add: unlinked_def)
  then have "kept e0 e'" "me_fn_cache e' = me_fn_cache e0" by (simp_all add: kept_def)
  with e0 show ?thesis by blast
qed

lemma dset_unlinked: "dset (upd_regs A (\<lambda>r. mark_dirty (bump_gen r)) (unlinked p m xs ys s)) = dset s"
proof -
  have "deny_set b (mark_dirty (bump_gen r)) = deny_set b r" for b r
    by (simp add: deny_set_def mark_dirty_def bump_gen_def Let_def)
  moreover have "deny_set b (r\<lparr>re_mods_head := x, re_mods_tail := y\<rparr>) = deny_set b r" for b r x y by (simp add: deny_set_def)
  ultimately have "dset (upd_regs A (\<lambda>r. mark_dirty (bump_gen r)) (unlinked p m xs ys s)) q b = dset s q b" for q b
    by (cases "regions s q"; cases "q = p"; simp add: dset_def upd_regs_def unlinked_def)
  then show ?thesis by (simp add: fun_eq_iff)
qed

text \<open>The deny sets only see their own tables and the regions.\<close>

lemma deny_inv_tables:
  assumes inv: "deny_inv E s" and "dset t = dset s" "rt_list t = rt_list s" "tbl_single E t = tbl_single E s"
    and get: "\<And>d. d \<notin> rt_handles s \<Longrightarrow> tbl_single E s d \<Longrightarrow> tbl_get E t d = tbl_get E s d"
  shows "deny_inv E t"
proof -
  have rt: "rt_handles t = rt_handles s" by (simp add: rt_handles_def assms(3))
  have "set_agrees E t d K" if ds: "dset s p b = Some (d, K)" for p b d K
  proof -
    have "set_agrees E s d K" "d \<noteq> 0 \<Longrightarrow> d \<notin> rt_handles s" using inv ds unfolding deny_inv_def by blast+
    then show ?thesis using get by (simp add: set_agrees_def assms(4))
  qed
  with inv show ?thesis unfolding deny_inv_def assms(2-4) rt by blast
qed

lemma mod_remove_any:
  assumes E: "env_ok E" and wf: "region_wf E s" and inv: "deny_inv E s" and al: "listed_alive E s"
    and nm: "\<not> tbl_single E s (mod_by_region_hd (xy_rt s))"
    and ms: "mods_of s p (xs @ m # ys)" and e: "mods s m = Some e"
    and ef: "me_mod_key e = key" "me_load_path e = Some x" "me_region_state e = None" "me_handle e = Some h" "me_tmp_load_path e = tmp"
  shows "\<exists>t. mod_remove E m s = Some t \<and>
     mods t m = None \<and> (\<forall>q. q \<noteq> m \<longrightarrow> (mods t q = None \<longleftrightarrow> mods s q = None)) \<and>
     mods_of t p (xs @ ys) \<and> (\<forall>q ns. q \<noteq> p \<longrightarrow> mods_of s q ns \<longrightarrow> mods_of t q ns) \<and>
     tbl_get E t (mod_hd (xy_rt s)) = (tbl_get E s (mod_hd (xy_rt s)))(KStr key := None) \<and>
     dl_refs t = (dl_refs s)(h := dl_refs s h - 1) \<and> tmp_files t = tmp_files (unlink_file tmp s) \<and>
     xy_rt t = (xy_rt s)\<lparr>xy_mod_count := xy_mod_count (xy_rt s) - 1\<rparr> \<and>
     region_wf E t \<and> r_key t = r_key s \<and> denied_mods t p = denied_mods s p - {x} \<and>
     (\<forall>q. q \<noteq> p \<longrightarrow> denied_mods t q = denied_mods s q) \<and>
     xy_current_region_id t = xy_current_region_id s \<and> xy_current_region_entry t = xy_current_region_entry s \<and>
     deny_inv E t \<and> tbl_single E t = tbl_single E s \<and> ctxs t = ctxs s \<and> next_addr t = next_addr s \<and>
     (\<forall>q e'. q \<noteq> m \<longrightarrow> mods t q = Some e' \<longrightarrow> (\<exists>e0. mods s q = Some e0 \<and> kept e0 e')) \<and>
     (module_clear_fn_cache_for_handle E (Some m) s = Some s \<longrightarrow> (\<forall>q e'. q \<noteq> m \<longrightarrow> mods t q = Some e' \<longrightarrow>
        (\<exists>e0. mods s q = Some e0 \<and> kept e0 e' \<and> me_fn_cache e' = me_fn_cache e0))) \<and>
     (\<forall>q e0. q \<noteq> m \<longrightarrow> mods s q = Some e0 \<longrightarrow>
        (\<exists>e'. mods t q = Some e' \<and> kept e0 e' \<and> me_fn_cache e' = swept E s (Some h) q e0)) \<and>
     (\<forall>d \<in> rt_handles s. d \<noteq> mod_hd (xy_rt s) \<longrightarrow> tbl_get E t d = tbl_get E s d) \<and>
     paths t = paths s \<and> xy_reloading t = xy_reloading s \<and> xy_loading_mod t = xy_loading_mod s \<and>
     xy_pending_ctx t = xy_pending_ctx s \<and>
     (\<forall>q. map_option re_require_claim (regions t q) = map_option re_require_claim (regions s q))"
proof -
  have rt: "rt_handles s = {region_hd (xy_rt s), path_intern_hd (xy_rt s), mod_hd (xy_rt s), hook_id_hd (xy_rt s), sica_hd (xy_rt s)}"
    by (auto simp: rt_handles_def rt_list_def Let_def)
  have sg: "tbl_single E s (mod_hd (xy_rt s))" "tbl_single E s (region_hd (xy_rt s))" "region_hd (xy_rt s) \<noteq> mod_hd (xy_rt s)"
    using inv unfolding deny_inv_def rt by (auto simp: rt_list_def Let_def)
  obtain s2 where s2: "module_clear_fn_cache_for_handle E (Some m) s = Some s2" "s2 = s\<lparr>mods := mods s2\<rparr>" "mods s2 m = Some e"
    "\<forall>q e'. mods s2 q = Some e' \<longrightarrow> (\<exists>e0 c. mods s q = Some e0 \<and> e' = e0\<lparr>me_fn_cache := c\<rparr>)"
    "\<forall>q. mods s2 q = None \<longleftrightarrow> mods s q = None"
    "\<forall>q e0. q \<noteq> m \<longrightarrow> mods s q = Some e0 \<longrightarrow> mods s2 q = Some (e0\<lparr>me_fn_cache := swept E s (Some h) q e0\<rparr>)"
    using clear_caches_ok [OF E sg(1) al e] unfolding ef(4) by blast
  have f2: "regions s2 = regions s" "st_corm s2 = st_corm s" "xy_rt s2 = xy_rt s" "next_addr s2 = next_addr s" by (subst s2(2), simp)+
  have tab2: "tbl_get E s2 = tbl_get E s" "tbl_single E s2 = tbl_single E s"
    by (rule tbl_get_cong [OF f2(2)]) (rule tbl_single_cong [OF f2(2)])
  have ds2: "dset s2 = dset s" by (simp add: fun_eq_iff dset_def f2)
  have inv2: "deny_inv E s2" by (rule deny_inv_frame [OF ds2 f2(3) inv]) (simp_all add: tab2)
  obtain r where r: "regions s p = Some r" using ms by (auto simp: mods_of_def)
  then have r2: "regions s2 p = Some r" by (simp add: f2)
  obtain s3 rest hh where s3: "module_remove_denies E (Some p) (Some x) s2 = Some s3"
    "s3 = s2\<lparr>st_corm := hh, regions := (regions s2)(p \<mapsto> r\<lparr>re_denied_modules := rest\<rparr>)\<rparr>"
    "set rest = denied_mods s2 p - {x}" "\<forall>d \<in> rt_handles s2. tbl_get E s3 d = tbl_get E s2 d" "tbl_single E s3 = tbl_single E s2" "deny_inv E s3"
    using remove_denies_frame [OF E inv2 r2] by blast
  have f3: "mods s3 = mods s2" "xy_rt s3 = xy_rt s" "next_addr s3 = next_addr s" "regions s3 = (regions s)(p \<mapsto> r\<lparr>re_denied_modules := rest\<rparr>)"
    by (simp_all add: s3(2) f2)
  have hs2: "rt_handles s2 = rt_handles s" by (simp add: rt_handles_def rt_list_def f2)
  have tab3: "tbl_get E s3 (mod_hd (xy_rt s)) = tbl_get E s (mod_hd (xy_rt s))" "tbl_get E s3 (region_hd (xy_rt s)) = tbl_get E s (region_hd (xy_rt s))"
    "tbl_single E s3 (mod_hd (xy_rt s))" "tbl_single E s3 (region_hd (xy_rt s))"
    using s3(4) sg rt by (simp_all add: tab2 rt_handles_def rt_list_def f2 s3(5))
  have sh3: "same_shape s s3" "r_gen s3 = r_gen s"
    using r by (auto simp: same_shape_def fun_eq_iff r_key_def r_depth_def r_parent_def r_head_def sib_next_def r_gen_def key_of_def f3)
  have wf3: "region_wf E s3" by (rule region_wf_other_tables [OF wf sh3 f3(2)]) (use tab3 sg in simp_all)
  then have tw3: "tree_wf s3" by (simp add: region_wf_def)
  have lk3: "mods_of s3 q ns = mods_of s q ns" for q ns
    by (rule mods_of_links) (use same_links [OF s2(4,5)] r in \<open>auto simp: fun_eq_iff mod_next_def mod_prev_def mod_region_def f3\<close>)
  have ms3: "mods_of s3 p (xs @ m # ys)" using ms lk3 by simp
  let ?l = "unlinked p m xs ys s3"
  define s4 where "s4 = upd_regs (set (ancestors ?l p)) (\<lambda>r. mark_dirty (bump_gen r)) ?l"
  have det: "module_region_detach (Some m) s3 = Some s4" unfolding s4_def by (rule detach_exact [OF tw3 ms3])
  from detach_refines [OF wf3 ms3] det have s4: "region_wf E s4" "same_shape s3 s4" "mods_of s4 p (xs @ ys)"
    "\<forall>q ns. q \<noteq> p \<longrightarrow> mods_of s3 q ns \<longrightarrow> mods_of s4 q ns" by auto
  have m3: "mods s3 m = Some e" by (simp add: f3 s2(3))
  define e4 where "e4 = e\<lparr>me_region_prev := None, me_region_next := None\<rparr>"
  have f4: "mods s4 m = Some e4" "\<And>q. (mods s4 q = None) = (mods s q = None)" "xy_rt s4 = xy_rt s" "st_corm s4 = st_corm s3"
    using unlinked_fields(2) [OF m3] s2(5) by (simp_all add: s4_def heap_simps e4_def unlinked_fields(1) f3) (simp_all add: unlinked_def f3)
  have tab4: "tbl_get E s4 = tbl_get E s3" "tbl_single E s4 = tbl_single E s3"
    by (rule tbl_get_cong [OF f4(4)]) (rule tbl_single_cong [OF f4(4)])
  define s5 where "s5 = tbl_del E (mod_hd (xy_rt s)) (KStr key) (tbl_del E (mod_by_region_hd (xy_rt s))
     (KRegion (region_key (me_region_id e4) (me_region_plen e4))) s4)"
  have unp: "unpublish E m s4 = Some s5" using f4 ef by (simp add: unpublish_def s5_def e4_def)
  have tab5: "tbl_get E s5 (mod_hd (xy_rt s)) = (tbl_get E s (mod_hd (xy_rt s)))(KStr key := None)"
    "tbl_get E s5 (region_hd (xy_rt s)) = tbl_get E s (region_hd (xy_rt s))" "tbl_single E s5 (region_hd (xy_rt s))"
  proof -
    have d: "mod_by_region_hd (xy_rt s) \<noteq> mod_hd (xy_rt s)" "mod_by_region_hd (xy_rt s) \<noteq> region_hd (xy_rt s)" using nm sg by auto
    show "tbl_get E s5 (mod_hd (xy_rt s)) = (tbl_get E s (mod_hd (xy_rt s)))(KStr key := None)"
      "tbl_get E s5 (region_hd (xy_rt s)) = tbl_get E s (region_hd (xy_rt s))" "tbl_single E s5 (region_hd (xy_rt s))"
      using d sg tab3 tab4 by (auto simp: fun_eq_iff s5_def tbl_get_del [OF E] tbl_single_del [OF E])
  qed
  have f5: "mods s5 = mods s4" "regions s5 = regions s4" "xy_rt s5 = xy_rt s" "next_addr s5 = next_addr s4" "dl_refs s5 = dl_refs s"
    "tmp_files s5 = tmp_files s" "xy_current_region_id s5 = xy_current_region_id s" "xy_current_region_entry s5 = xy_current_region_entry s"
    by (simp_all add: s5_def tbl_del_def f4 s4_def upd_regs_def) (simp_all add: unlinked_def s3(2), (subst s2(2), simp)+)
  define t where "t = s5\<lparr>xy_rt := (xy_rt s5)\<lparr>xy_mod_count := xy_mod_count (xy_rt s5) - 1\<rparr>, mods := (mods s5)(m := None),
     dl_refs := (dl_refs s5)(h := dl_refs s5 h - 1), tmp_files := tmp_files (unlink_file tmp s5)\<rparr>"
  have free: "module_free_entry E (Some m) True (upd_rt (\<lambda>r. r\<lparr>xy_mod_count := xy_mod_count r - 1\<rparr>) s5) = Some t"
    using f4(1) ef(3,4,5) f5(1)
    by (cases tmp) (simp_all add: module_free_entry_def module_cleanup_region_state_def free_mod_def unlink_file_def dl_close_def upd_rt_def
        e4_def t_def)
  have reg: "me_region_entry e = Some p" using mods_of_at [OF ms] e by auto
  have run: "mod_remove E m s = Some t"
    using s2(1,3) reg ef(2) s3(1) det unp free by (simp add: mod_remove_def module_remove_path_owned_entries_def)
  have md: "mods t = (mods s4)(m := None)" "regions t = regions s4" by (simp_all add: t_def f5)
  have d: "distinct (xs @ m # ys)" using ms by (rule mods_of_distinct)
  have "mods_of t p (xs @ ys)" by (rule mods_of_freed [OF s4(3) _ md(1)]) (use d md in auto)
  moreover have "mods_of t q ns" if "q \<noteq> p" "mods_of s q ns" for q ns
  proof -
    have "set (xs @ m # ys) \<inter> set ns = {}" using mods_of_disjoint [OF ms that(2)] that(1) by blast
    then show ?thesis using s4(4) that lk3 md by (intro mods_of_freed [of s4 q ns t m]) auto
  qed
  moreover have kt: "r_key t = r_key s" "r_gen t = r_gen s4"
    using sh3(1) s4(2) md(2) by (simp_all add: same_shape_def fun_eq_iff r_key_def r_gen_def)
  moreover have "region_wf E t"
  proof -
    have "same_shape s4 t" by (rule same_shape_regions) (simp_all add: t_def f5)
    then have "tree_wf t" using s4(1) tree_wf_shape by (auto simp: region_wf_def)
    moreover have "tbl_get E t = tbl_get E s5" "tbl_single E t = tbl_single E s5"
      by (rule tbl_get_cong tbl_single_cong, simp add: t_def)+
    then have "table_wf E t" using wf tab5 kt(1) by (simp add: region_wf_def table_wf_def t_def f5)
    ultimately show ?thesis using s4(1) kt(2) by (simp add: region_wf_def)
  qed
  moreover have "denied_mods t q = (if q = p then denied_mods s p - {x} else denied_mods s q)" for q
  proof -
    have "re_denied_modules (mark_dirty (bump_gen r)) = re_denied_modules r" for r
      by (simp add: mark_dirty_def bump_gen_def Let_def)
    moreover have "map_option re_denied_modules (regions ?l q) = map_option re_denied_modules (regions s3 q)"
      by (simp add: unlinked_def option.map_comp comp_def)
    ultimately have "map_option re_denied_modules (regions s4 q) = map_option re_denied_modules (regions s3 q)"
      by (simp add: s4_def heap_simps option.map_comp comp_def)
    then have "denied_mods t q = denied_mods s3 q"
      by (cases "regions s4 q"; cases "regions s3 q") (simp_all add: denied_mods_def md)
    then show ?thesis using s3(3) r by (auto simp: denied_mods_def f3 f2)
  qed
  moreover have "map_option re_require_claim (regions t q) = map_option re_require_claim (regions s q)" for q
  proof -
    have "re_require_claim (mark_dirty (bump_gen r)) = re_require_claim r" for r
      by (simp add: mark_dirty_def bump_gen_def Let_def)
    moreover have "map_option re_require_claim (regions ?l q) = map_option re_require_claim (regions s3 q)"
      by (simp add: unlinked_def option.map_comp comp_def)
    ultimately have "map_option re_require_claim (regions s4 q) = map_option re_require_claim (regions s3 q)"
      by (simp add: s4_def heap_simps option.map_comp comp_def)
    then show ?thesis using r by (simp add: md f3)
  qed
  moreover have "tbl_get E t (mod_hd (xy_rt s)) = (tbl_get E s (mod_hd (xy_rt s)))(KStr key := None)"
    using tab5(1) by (simp add: tbl_get_def fun_eq_iff t_def)
  moreover have "\<forall>q. q \<noteq> m \<longrightarrow> (mods t q = None \<longleftrightarrow> mods s q = None)" using f4(2) md by simp
  moreover have "tbl_single E t = tbl_single E s"
  proof -
    have "tbl_single E t = tbl_single E s5" by (rule tbl_single_cong) (simp add: t_def)
    then show ?thesis by (simp add: fun_eq_iff s5_def tbl_single_del [OF E] tab4 s3(5) tab2)
  qed
  moreover have "deny_inv E t"
  proof (rule deny_inv_tables [OF s3(6)])
    show "dset t = dset s3" by (simp add: fun_eq_iff dset_def t_def f5 s4_def) (simp add: dset_unlinked [unfolded fun_eq_iff dset_def])
    show "rt_list t = rt_list s3" by (simp add: rt_list_def t_def f5 f3 Let_def)
    show "tbl_single E t = tbl_single E s3" using \<open>tbl_single E t = tbl_single E s\<close> by (simp add: s3(5) tab2)
    fix d assume d: "d \<notin> rt_handles s3" "tbl_single E s3 d"
    then have "d \<noteq> mod_hd (xy_rt s)" "d \<noteq> mod_by_region_hd (xy_rt s)" using nm by (auto simp: rt_handles_def rt_list_def f3 s3(5) tab2 Let_def)
    then have "tbl_get E s5 d = tbl_get E s3 d" using d(2) by (simp add: fun_eq_iff s5_def tbl_get_del [OF E] tbl_single_del [OF E] tab4)
    moreover have "tbl_get E t = tbl_get E s5" by (rule tbl_get_cong) (simp add: t_def)
    ultimately show "tbl_get E t d = tbl_get E s3 d" by simp
  qed
  moreover have ent: "\<exists>e0. mods s q = Some e0 \<and> kept e0 e' \<and>
      (module_clear_fn_cache_for_handle E (Some m) s = Some s \<longrightarrow> me_fn_cache e' = me_fn_cache e0)"
    if "q \<noteq> m" "mods t q = Some e'" for q e'
  proof -
    have "mods s4 q = Some e'" using that md(1) by simp
    then have "mods ?l q = Some e'" by (simp add: s4_def heap_simps)
    from kept_unlinked [OF this that(1)] obtain e1 where e1: "mods s3 q = Some e1" "kept e1 e'" "me_fn_cache e' = me_fn_cache e1" by blast
    from e1(1) have "mods s2 q = Some e1" by (simp only: f3(1))
    then obtain e0 c where e0: "mods s q = Some e0" "e1 = e0\<lparr>me_fn_cache := c\<rparr>" using s2(4) by blast
    from e0(2) have "kept e0 e1" by (simp add: kept_def)
    moreover have "module_clear_fn_cache_for_handle E (Some m) s = Some s \<longrightarrow> e1 = e0"
      using s2(1) \<open>mods s2 q = Some e1\<close> e0(1) by auto
    ultimately show ?thesis using e0(1) e1(2,3) kept_trans by blast
  qed
  moreover have "\<exists>e0. mods s q = Some e0 \<and> kept e0 e'" if "q \<noteq> m" "mods t q = Some e'" for q e' using ent that by blast
  moreover have "\<exists>e'. mods t q = Some e' \<and> kept e0 e' \<and> me_fn_cache e' = swept E s (Some h) q e0"
    if q: "q \<noteq> m" "mods s q = Some e0" for q e0
  proof -
    have q2: "mods s2 q = Some (e0\<lparr>me_fn_cache := swept E s (Some h) q e0\<rparr>)" using s2(6) q by blast
    obtain e' where e': "mods t q = Some e'" using q f4(2) [of q] md(1) by (cases "mods s4 q") auto
    then have "mods ?l q = Some e'" using q(1) md(1) by (simp add: s4_def heap_simps)
    from kept_unlinked [OF this q(1)] obtain e1 where
      e1: "mods s3 q = Some e1" "kept e1 e'" "me_fn_cache e' = me_fn_cache e1" by blast
    have eq: "e1 = e0\<lparr>me_fn_cache := swept E s (Some h) q e0\<rparr>" using q2 e1(1) by (simp add: f3(1))
    have "kept e0 e'" "me_fn_cache e' = swept E s (Some h) q e0" using e1(2,3) unfolding eq by (simp_all add: kept_def)
    with e' show ?thesis by blast
  qed
  moreover have "module_clear_fn_cache_for_handle E (Some m) s = Some s \<longrightarrow> (\<forall>q e'. q \<noteq> m \<longrightarrow> mods t q = Some e' \<longrightarrow>
      (\<exists>e0. mods s q = Some e0 \<and> kept e0 e' \<and> me_fn_cache e' = me_fn_cache e0))" using ent by blast
  moreover have "tbl_get E t d = tbl_get E s d" if d: "d \<in> rt_handles s" "d \<noteq> mod_hd (xy_rt s)" for d
  proof -
    have "tbl_single E s d" using inv d(1) unfolding deny_inv_def by blast
    then have "d \<noteq> mod_by_region_hd (xy_rt s)" using nm by blast
    then have "tbl_get E s5 d = tbl_get E s3 d"
      using d(2) \<open>tbl_single E s d\<close> by (simp add: fun_eq_iff s5_def tbl_get_del [OF E] tbl_single_del [OF E] tab4 s3(5) tab2)
    moreover have "tbl_get E t = tbl_get E s5" by (rule tbl_get_cong) (simp add: t_def)
    moreover have "tbl_get E s3 d = tbl_get E s d" using s3(4) d(1) hs2 by (simp add: tab2)
    ultimately show ?thesis by simp
  qed
  moreover have "ctxs t = ctxs s" "next_addr t = next_addr s" "paths t = paths s" "xy_reloading t = xy_reloading s"
      "xy_loading_mod t = xy_loading_mod s" "xy_pending_ctx t = xy_pending_ctx s"
    by (simp_all add: t_def s5_def tbl_del_def s4_def upd_regs_def) (simp_all add: unlinked_def s3(2), (subst s2(2), simp)+)
  moreover have "tmp_files (unlink_file tmp s5) = tmp_files (unlink_file tmp s)"
    using f5(6) by (cases tmp) (simp_all add: unlink_file_def)
  ultimately show ?thesis using run f5 by - (rule exI [of _ t], simp add: t_def)
qed

lemma unlink_none: "unlink_file None s = s"
  by (simp add: unlink_file_def)

lemmas mod_remove_ok = mod_remove_any [where tmp = None, unfolded unlink_none]


section \<open>The last reference\<close>

lemma unload_effects:
  assumes E: "env_ok E" "never_oom E" and rd: "ready E s" and inv: "deny_inv E s" and al: "listed_alive E s"
    and nm: "\<not> tbl_single E s (mod_by_region_hd (xy_rt s))"
    and path: "module_load_path E s fname = Some path" and plen: "region_current_plen s = Some plen"
    and key: "key = mod_key (mod_key_len path) path (xy_current_region_id s) plen"
    and tab: "tbl_get E s (mod_hd (xy_rt s)) (KStr key) = Some (VPtr m)"
    and e: "mods s m = Some e" "held_once e key x h" and ms: "mods_of s p (xs @ m # ys)"
    and leaf: "\<forall>q e'. mods s q = Some e' \<longrightarrow> q \<noteq> m \<longrightarrow> me_parent_entry e' \<noteq> Some m"
  shows "\<exists>t. xy_unload E fname s = Some (XY_OK, t) \<and> xy_err_val t = XY_OK \<and>
     mods t m = None \<and> (\<forall>q. q \<noteq> m \<longrightarrow> (mods t q = None \<longleftrightarrow> mods s q = None)) \<and>
     mods_of t p (xs @ ys) \<and> (\<forall>q ns. q \<noteq> p \<longrightarrow> mods_of s q ns \<longrightarrow> mods_of t q ns) \<and>
     tbl_get E t (mod_hd (xy_rt s)) = (tbl_get E s (mod_hd (xy_rt s)))(KStr key := None) \<and>
     dl_refs t = (dl_refs s)(h := dl_refs s h - 1) \<and> tmp_files t = tmp_files s \<and>
     xy_rt t = (xy_rt s)\<lparr>xy_mod_count := xy_mod_count (xy_rt s) - 1\<rparr> \<and>
     region_wf E t \<and> r_key t = r_key s \<and>
     (\<forall>q. denied_mods t q = denied_mods s q - (if q = p then {x} else {})) \<and>
     xy_current_region_id t = xy_current_region_id s \<and> xy_current_region_entry t = xy_current_region_entry s \<and>
     (\<forall>q e0. q \<noteq> m \<longrightarrow> mods s q = Some e0 \<longrightarrow>
        (\<exists>e'. mods t q = Some e' \<and> kept e0 e' \<and> me_fn_cache e' = swept E s (Some h) q e0)) \<and>
     (\<forall>d \<in> rt_handles s. d \<noteq> mod_hd (xy_rt s) \<longrightarrow> tbl_get E t d = tbl_get E s d) \<and>
     tbl_single E t = tbl_single E s \<and> ctxs t = ctxs s"
proof -
  note f = e(2) [unfolded held_once_def]
  have sg: "tbl_single E s (mod_hd (xy_rt s))" using inv unfolding deny_inv_def by (auto simp: rt_handles_def rt_list_def Let_def)
  let ?g = "\<lambda>e. e\<lparr>me_refcount := me_refcount e - 1\<rparr>"
  define s1 where "s1 = upd_mod m ?g s"
  have fr: "regions s1 = regions s" "st_corm s1 = st_corm s" "xy_rt s1 = xy_rt s" "next_addr s1 = next_addr s" "dl_refs s1 = dl_refs s"
    "tmp_files s1 = tmp_files s" "xy_current_region_id s1 = xy_current_region_id s" "xy_current_region_entry s1 = xy_current_region_entry s"
    by (simp_all add: s1_def upd_mod_def)
  have m1: "mods s1 m = Some (?g e)" "\<And>q. (mods s1 q = None) = (mods s q = None)"
    "\<And>q e'. mods s1 q = Some e' \<Longrightarrow> \<exists>e0. mods s q = Some e0 \<and> me_parent_entry e' = me_parent_entry e0"
    "\<And>q. q \<noteq> m \<Longrightarrow> mods s1 q = mods s q"
    using e(1) by (auto simp: s1_def heap_simps split: if_splits)
  have tab1: "tbl_get E s1 = tbl_get E s" "tbl_single E s1 = tbl_single E s"
    by (rule tbl_get_cong [OF fr(2)]) (rule tbl_single_cong [OF fr(2)])
  have wf1: "region_wf E s1"
    by (rule region_wf_more_addresses [of E s]) (use rd in \<open>simp_all add: ready_def fr tab1\<close>)
  have inv1: "deny_inv E s1" by (rule deny_inv_frame [OF _ fr(3) inv]) (simp_all add: tab1 fun_eq_iff dset_def fr)
  have al1: "listed_alive E s1" using al by (simp add: listed_alive_def tab1 fr(3) m1(2))
  have lk: "mods_of s1 q ns = mods_of s q ns" for q ns
    by (rule mods_of_links) (auto simp: fun_eq_iff mod_next_def mod_prev_def mod_region_def s1_def heap_simps e(1))
  have dm: "denied_mods s1 q = denied_mods s q" for q by (simp add: denied_mods_def fr)
  have sw: "swept E s1 hd q e0 = swept E s hd q e0" for hd q e0 by (simp add: swept_def in_table_def tab1 fr)
  have rk: "r_key s1 = r_key s" by (simp add: fun_eq_iff r_key_def fr)
  have ef: "me_mod_key (?g e) = key" "me_load_path (?g e) = Some x" "me_region_state (?g e) = None" "me_handle (?g e) = Some h"
    "me_tmp_load_path (?g e) = None" using f by simp_all
  have nm1: "\<not> tbl_single E s1 (mod_by_region_hd (xy_rt s1))" using nm by (simp add: fr tab1)
  from mod_remove_ok [OF E(1) wf1 inv1 al1 nm1 ms [folded lk] m1(1) ef] obtain t where
    t: "mod_remove E m s1 = Some t" "mods t m = None" "\<forall>q. q \<noteq> m \<longrightarrow> (mods t q = None \<longleftrightarrow> mods s q = None)"
      "mods_of t p (xs @ ys)" "\<forall>q ns. q \<noteq> p \<longrightarrow> mods_of s q ns \<longrightarrow> mods_of t q ns"
      "tbl_get E t (mod_hd (xy_rt s)) = (tbl_get E s (mod_hd (xy_rt s)))(KStr key := None)"
      "dl_refs t = (dl_refs s)(h := dl_refs s h - 1)" "tmp_files t = tmp_files s"
      "xy_rt t = (xy_rt s)\<lparr>xy_mod_count := xy_mod_count (xy_rt s) - 1\<rparr>" "region_wf E t" "r_key t = r_key s"
      "denied_mods t p = denied_mods s p - {x}" "\<forall>q. q \<noteq> p \<longrightarrow> denied_mods t q = denied_mods s q"
      "xy_current_region_id t = xy_current_region_id s" "xy_current_region_entry t = xy_current_region_entry s"
      "\<forall>q e0. q \<noteq> m \<longrightarrow> mods s1 q = Some e0 \<longrightarrow>
        (\<exists>e'. mods t q = Some e' \<and> kept e0 e' \<and> me_fn_cache e' = swept E s (Some h) q e0)"
      "\<forall>d \<in> rt_handles s1. d \<noteq> mod_hd (xy_rt s) \<longrightarrow> tbl_get E t d = tbl_get E s d" "tbl_single E t = tbl_single E s" "ctxs t = ctxs s1"
    unfolding lk dm rk tab1 fr m1(2) sw by (elim exE conjE) (rule that)
  then have t16: "\<forall>q e0. q \<noteq> m \<longrightarrow> mods s q = Some e0 \<longrightarrow>
      (\<exists>e'. mods t q = Some e' \<and> kept e0 e' \<and> me_fn_cache e' = swept E s (Some h) q e0)"
    using m1(4) by metis
  have t17: "\<forall>d \<in> rt_handles s. d \<noteq> mod_hd (xy_rt s) \<longrightarrow> tbl_get E t d = tbl_get E s d" "ctxs t = ctxs s"
    using t(17,19) by (simp_all add: rt_handles_def rt_list_def fr) (simp add: s1_def upd_mod_def)
  have "children_of s1 m (tbl_iter E s1 (mod_hd (xy_rt s1))) = Some []"
  proof (rule children_none)
    show "mods s1 q \<noteq> None" if "listed (tbl_iter E s1 (mod_hd (xy_rt s1))) q" for q
      by (rule listed_alive_iter [OF E(1) _ al1 that]) (simp add: tab1 fr sg)
    show "me_parent_entry e' \<noteq> Some m" if "mods s1 q = Some e'" "q \<noteq> m" for q e'
      using m1(3) [OF that(1)] leaf that(2) by metis
  qed
  then have "mod_unload (link_fuel s) E fname (xy_current_region_id s) plen s = Some (XY_OK, t)"
    using lookup_found [OF E(2) path] tab e(1) m1(1) f t(1) by (simp add: link_fuel_def key s1_def [symmetric])
  then have "xy_unload E fname s = Some (XY_OK, set_err XY_OK t)"
    using plen by (simp add: xy_unload_def ensure_ready [OF rd] fail_with_def)
  moreover have "tbl_get E (set_err XY_OK t) = tbl_get E t" "tbl_single E (set_err XY_OK t) = tbl_single E t"
    by (rule tbl_get_cong tbl_single_cong, simp add: set_err_def)+
  moreover have "region_wf E (set_err XY_OK t)" using t(10) region_wf_cong [of "set_err XY_OK t" t E] by (simp add: set_err_def)
  moreover have "r_key (set_err XY_OK t) = r_key s" using t(11) by (simp add: fun_eq_iff r_key_def set_err_def)
  ultimately show ?thesis
    using t(2-15,18) t16 t17
    by (intro exI [of _ "set_err XY_OK t"]) (simp add: mods_of_set_err heap_simps denied_mods_def, simp add: set_err_def)
qed

text \<open>
  C24. Unloading a module that is loaded once, and that is no module's parent: \<^verbatim>\<open>xy_unload\<close>
  returns \<^const>\<open>XY_OK\<close>; the entry is freed and no other is; the table of modules loses exactly its
  key; the region's list closes over it and the other regions' lists stay; the library gives one
  reference on the object back and counts one module less; the region tree, the other
  single-valued tables of the library, the contexts and the caller's region stay. Every other
  entry keeps its contents (\<^const>\<open>kept\<close>: all but the links of the list and the symbol cache),
  and its symbol cache is exactly \<^const>\<open>swept\<close>: an entry the table of modules lists forgets the
  symbols of the unloaded object, so another instance of the same file loses what it had
  cached; any other symbol stays. The region's ban on the module's path goes with it, the other bans
  stay. What becomes of the row in the index by region (\<^verbatim>\<open>mod_by_region_hd\<close>, a multi-valued
  table of libcorm, which only the rekeying of a loaded entry reads) is not stated.
\<close>

theorem unload_last_reference:
  assumes E: "env_ok E" "never_oom E" and rd: "ready E s" and inv: "deny_inv E s" and al: "listed_alive E s"
    and nm: "\<not> tbl_single E s (mod_by_region_hd (xy_rt s))"
    and path: "module_load_path E s fname = Some path" and plen: "region_current_plen s = Some plen"
    and key: "key = mod_key (mod_key_len path) path (xy_current_region_id s) plen"
    and tab: "tbl_get E s (mod_hd (xy_rt s)) (KStr key) = Some (VPtr m)"
    and e: "mods s m = Some e" "held_once e key x h" and ms: "mods_of s p (xs @ m # ys)"
    and leaf: "\<forall>q e'. mods s q = Some e' \<longrightarrow> q \<noteq> m \<longrightarrow> me_parent_entry e' \<noteq> Some m"
  shows "\<exists>t. xy_unload E fname s = Some (XY_OK, t) \<and> xy_err_val t = XY_OK \<and>
     mods t m = None \<and> (\<forall>q. q \<noteq> m \<longrightarrow> (mods t q = None \<longleftrightarrow> mods s q = None)) \<and>
     mods_of t p (xs @ ys) \<and> (\<forall>q ns. q \<noteq> p \<longrightarrow> mods_of s q ns \<longrightarrow> mods_of t q ns) \<and>
     tbl_get E t (mod_hd (xy_rt s)) = (tbl_get E s (mod_hd (xy_rt s)))(KStr key := None) \<and>
     dl_refs t = (dl_refs s)(h := dl_refs s h - 1) \<and> tmp_files t = tmp_files s \<and>
     xy_rt t = (xy_rt s)\<lparr>xy_mod_count := xy_mod_count (xy_rt s) - 1\<rparr> \<and>
     region_wf E t \<and> r_key t = r_key s \<and>
     (\<forall>q. denied_mods t q = denied_mods s q - (if q = p then {x} else {})) \<and>
     xy_current_region_id t = xy_current_region_id s \<and> xy_current_region_entry t = xy_current_region_entry s \<and>
     (\<forall>q e0. q \<noteq> m \<longrightarrow> mods s q = Some e0 \<longrightarrow>
        (\<exists>e'. mods t q = Some e' \<and> kept e0 e' \<and> me_fn_cache e' = swept E s (Some h) q e0)) \<and>
     (\<forall>d \<in> rt_handles s. d \<noteq> mod_hd (xy_rt s) \<longrightarrow> tbl_get E t d = tbl_get E s d) \<and>
     tbl_single E t = tbl_single E s \<and> ctxs t = ctxs s"
  by (rule unload_effects [OF assms])


section \<open>Load and unload\<close>

text \<open>The invariants an unload needs, after a load.\<close>

lemma deny_inv_loaded:
  assumes inv: "deny_inv E s" and "dset t = dset s" "xy_rt t = (xy_rt s)\<lparr>xy_mod_count := n\<rparr>" "tbl_single E t = tbl_single E s"
    and get: "\<forall>d. tbl_single E s d \<longrightarrow> d \<notin> {mod_hd (xy_rt s), path_intern_hd (xy_rt s)} \<longrightarrow> tbl_get E t d = tbl_get E s d"
  shows "deny_inv E t"
proof -
  have "{mod_hd (xy_rt s), path_intern_hd (xy_rt s)} \<subseteq> rt_handles s" by (auto simp: rt_handles_def rt_list_def Let_def)
  then have "deny_inv E (t\<lparr>xy_rt := xy_rt s\<rparr>)"
    using assms(2,4) get tbl_get_cong [of "t\<lparr>xy_rt := xy_rt s\<rparr>" t E] tbl_single_cong [of "t\<lparr>xy_rt := xy_rt s\<rparr>" t E]
    by (intro deny_inv_frame [OF _ _ inv]) (auto simp: fun_eq_iff dset_def)
  moreover have same: "dset (t\<lparr>xy_rt := xy_rt s\<rparr>) = dset t" "rt_list (t\<lparr>xy_rt := xy_rt s\<rparr>) = rt_list t"
    "tbl_get E (t\<lparr>xy_rt := xy_rt s\<rparr>) = tbl_get E t" "tbl_single E (t\<lparr>xy_rt := xy_rt s\<rparr>) = tbl_single E t"
    using assms(3) by (simp_all add: fun_eq_iff dset_def rt_list_def tbl_get_def tbl_single_def Let_def)
  moreover have "deny_inv E (t\<lparr>xy_rt := xy_rt s\<rparr>) = deny_inv E t"
    unfolding deny_inv_def set_agrees_def rt_handles_def same ..
  ultimately show ?thesis by simp
qed

lemma listed_alive_loaded:
  assumes "listed_alive E s" "mods t m \<noteq> None" "\<forall>q. q \<noteq> m \<longrightarrow> (mods t q = None \<longleftrightarrow> mods s q = None)"
    and "mod_hd (xy_rt t) = mod_hd (xy_rt s)" "tbl_get E t (mod_hd (xy_rt s)) = (tbl_get E s (mod_hd (xy_rt s)))(k \<mapsto> v)"
    and "corm_ptr (Some v) = Some m"
  shows "listed_alive E t"
  using assms unfolding listed_alive_def by (metis fun_upd_apply option.inject)

text \<open>What has just been loaded can be unloaded.\<close>

lemma load_unloadable:
  assumes E: "env_ok E" "never_oom E" and wf: "load_ready E s" and inv: "deny_inv E s" "listed_alive E s"
    and old: "\<forall>q e x. mods s q = Some e \<longrightarrow> me_parent_entry e = Some x \<longrightarrow> x < next_addr s"
    and fr: "fresh_file E s fname path key h cs pc" and plain: "plain_module E h"
    and c: "module_ctx E (Some h) (s\<lparr>xy_pending_ctx := pc\<rparr>) = c" "good_ctx E h cs c"
    and p: "xy_current_region_entry s = Some p" "regions s p = Some r" "\<not> re_require_claim r" and ms: "mods_of s p ms"
  shows "\<exists>t m e x plen. xy_load E fname s = Some (XY_OK, t) \<and>
     ready E t \<and> deny_inv E t \<and> listed_alive E t \<and> \<not> tbl_single E t (mod_by_region_hd (xy_rt t)) \<and>
     module_load_path E t fname = Some path \<and> region_current_plen t = Some plen \<and>
     key = mod_key (mod_key_len path) path (xy_current_region_id t) plen \<and>
     tbl_get E t (mod_hd (xy_rt t)) (KStr key) = Some (VPtr m) \<and> mods t m = Some e \<and> held_once e key x h \<and>
     mods_of t p (ms @ m # []) \<and> (\<forall>q e'. mods t q = Some e' \<longrightarrow> q \<noteq> m \<longrightarrow> me_parent_entry e' \<noteq> Some m) \<and>
     mods s m = None \<and> (\<forall>q. q \<noteq> m \<longrightarrow> (mods t q = None \<longleftrightarrow> mods s q = None)) \<and>
     (\<forall>q ns. q \<noteq> p \<longrightarrow> mods_of s q ns \<longrightarrow> mods_of t q ns) \<and>
     tbl_get E t (mod_hd (xy_rt s)) = (tbl_get E s (mod_hd (xy_rt s)))(KStr key \<mapsto> VPtr m) \<and>
     dl_refs t = (dl_refs s)(h := dl_refs s h + 1) \<and> xy_rt t = (xy_rt s)\<lparr>xy_mod_count := xy_mod_count (xy_rt s) + 1\<rparr> \<and>
     xy_current_region_id t = xy_current_region_id s \<and> xy_current_region_entry t = xy_current_region_entry s \<and>
     paths t x = Some path \<and> r_key t = r_key s \<and> tmp_files t = tmp_files s \<and> (\<forall>q. denied_mods t q = denied_mods s q) \<and>
     (\<forall>q e'. q \<noteq> m \<longrightarrow> mods t q = Some e' \<longrightarrow> (\<exists>e0. mods s q = Some e0 \<and> relinked_in e0 e'))"
proof -
  from load_effects [OF E wf fr plain c p ms] obtain t m e x where
    t: "xy_load E fname s = Some (XY_OK, t)" "mods s m = None" "mods t m = Some e" "region_current_plen s = Some (me_region_plen e)"
      "tbl_get E t (mod_hd (xy_rt s)) = (tbl_get E s (mod_hd (xy_rt s)))(KStr key \<mapsto> VPtr m)" "mods_of t p (ms @ [m])" "load_ready E t"
      "dl_refs t = (dl_refs s)(h := dl_refs s h + 1)" "xy_rt t = (xy_rt s)\<lparr>xy_mod_count := xy_mod_count (xy_rt s) + 1\<rparr>"
      "xy_current_region_id t = xy_current_region_id s" "xy_current_region_entry t = Some p"
    and t': "held_once e key x h" "paths t x = Some path" "r_key t = r_key s" "tmp_files t = tmp_files s" "dset t = dset s"
      "tbl_single E t = tbl_single E s"
      "\<forall>d. tbl_single E s d \<longrightarrow> d \<notin> {mod_hd (xy_rt s), path_intern_hd (xy_rt s)} \<longrightarrow> tbl_get E t d = tbl_get E s d"
      "\<forall>q ns. q \<noteq> p \<longrightarrow> mods_of s q ns \<longrightarrow> mods_of t q ns" "next_addr s \<le> m"
      "\<forall>q. q \<noteq> m \<longrightarrow> (mods t q = None \<longleftrightarrow> mods s q = None)"
      "\<forall>q e'. q \<noteq> m \<longrightarrow> mods t q = Some e' \<longrightarrow> (\<exists>e0. mods s q = Some e0 \<and> relinked_in e0 e')"
    by (elim exE conjE) (rule that)
  note f = fr [unfolded fresh_file_def]
  have hd: "mod_hd (xy_rt t) = mod_hd (xy_rt s)" "mod_by_region_hd (xy_rt t) = mod_by_region_hd (xy_rt s)" using t(9) by simp_all
  have plen: "region_current_plen t = Some (me_region_plen e)"
  proof -
    have "map_option key_of (regions t p) = map_option key_of (regions s p)" using t'(3) unfolding r_key_def fun_eq_iff by simp
    then obtain r' where "regions t p = Some r'" "key_of r' = key_of r" using p(2) by auto
    moreover have "re_plen r = me_region_plen e" using t(4) p(1,2) by (simp add: region_current_plen_def)
    ultimately show ?thesis using t(11) by (simp add: region_current_plen_def key_of_def region_key_def)
  qed
  have key: "key = mod_key (mod_key_len path) path (xy_current_region_id t) (me_region_plen e)" using f t(4,10) by auto
  have leaf: "\<forall>q e'. mods t q = Some e' \<longrightarrow> q \<noteq> m \<longrightarrow> me_parent_entry e' \<noteq> Some m"
  proof (intro allI impI)
    fix q e' assume "mods t q = Some e'" "q \<noteq> m"
    then obtain e0 where e0: "mods s q = Some e0" "relinked e0 e'" using t'(11) relinked_in_def by blast
    from e0(2) have "me_parent_entry e' = me_parent_entry e0" unfolding relinked_def by auto
    with old e0(1) t'(9) show "me_parent_entry e' \<noteq> Some m" by (metis leD)
  qed
  have rd: "ready E t" "\<not> tbl_single E t (mod_by_region_hd (xy_rt t))" using t(7) by (simp_all add: load_ready_def)
  have inv_t: "deny_inv E t" "listed_alive E t"
    using deny_inv_loaded [OF inv(1) t'(5) t(9) t'(6,7)] listed_alive_loaded [OF inv(2) _ t'(10) hd(1) t(5)] t(3) by auto
  have path: "module_load_path E t fname = Some path" using f load_path_same [OF E(2), of s fname t] by simp
  have row: "tbl_get E t (mod_hd (xy_rt t)) (KStr key) = Some (VPtr m)" by (simp add: hd t(5))
  have "\<forall>q. denied_mods t q = denied_mods s q" by (simp add: denied_mods_dset t'(5))
  with t t' rd inv_t path plen key row leaf p(1) show ?thesis
    by - (rule exI [of _ t], rule exI [of _ m], rule exI [of _ e], rule exI [of _ x], rule exI [of _ "me_region_plen e"], simp)
qed

text \<open>
  C6. Loading a file that is not loaded and unloading it again: both calls return
  \<^const>\<open>XY_OK\<close>, and afterwards the set of allocated entries, every region's list, the table of
  modules, the library's references on shared objects, its temporary files, the runtime's
  handles and counters, the region tree and the caller's region are what they were, and every
  entry has its old contents (\<^const>\<open>kept\<close>). Two things are not as before. The caller's
  region no longer bans the path of the file, if it did. And the symbol caches of the entries
  that were there are \<^const>\<open>swept\<close>: an entry of the table that holds the same object (the file loaded
  in another region) has forgotten the object's symbols, while an entry without symbols of that
  object has the cache it had. The multi-valued index by region is not part of the statement.
\<close>

theorem load_unload_roundtrip:
  assumes E: "env_ok E" "never_oom E" and wf: "load_ready E s" and inv: "deny_inv E s" "listed_alive E s"
    and old: "\<forall>q e x. mods s q = Some e \<longrightarrow> me_parent_entry e = Some x \<longrightarrow> x < next_addr s"
    and fr: "fresh_file E s fname path key h cs pc" and plain: "plain_module E h"
    and c: "module_ctx E (Some h) (s\<lparr>xy_pending_ctx := pc\<rparr>) = c" "good_ctx E h cs c"
    and p: "xy_current_region_entry s = Some p" "regions s p = Some r" "\<not> re_require_claim r" and ms: "mods_of s p ms"
  shows "\<exists>t u x. xy_load E fname s = Some (XY_OK, t) \<and> xy_unload E fname t = Some (XY_OK, u) \<and>
     (\<forall>q. mods u q = None \<longleftrightarrow> mods s q = None) \<and> (\<forall>q ns. mods_of s q ns \<longrightarrow> mods_of u q ns) \<and>
     tbl_get E u (mod_hd (xy_rt s)) = tbl_get E s (mod_hd (xy_rt s)) \<and>
     dl_refs u = dl_refs s \<and> tmp_files u = tmp_files s \<and> xy_rt u = xy_rt s \<and> region_wf E u \<and> r_key u = r_key s \<and>
     xy_current_region_id u = xy_current_region_id s \<and> xy_current_region_entry u = xy_current_region_entry s \<and>
     paths t x = Some path \<and> (\<forall>q. denied_mods u q = denied_mods s q - (if q = p then {x} else {})) \<and>
     (\<forall>q e0. mods s q = Some e0 \<longrightarrow>
        (\<exists>e'. mods u q = Some e' \<and> kept e0 e' \<and> me_fn_cache e' = swept E s (Some h) q e0))"
proof -
  from load_unloadable [OF assms] obtain t m e x plen where
    h: "ready E t" "deny_inv E t" "listed_alive E t" "\<not> tbl_single E t (mod_by_region_hd (xy_rt t))"
      "module_load_path E t fname = Some path" "region_current_plen t = Some plen"
      "key = mod_key (mod_key_len path) path (xy_current_region_id t) plen"
      "tbl_get E t (mod_hd (xy_rt t)) (KStr key) = Some (VPtr m)" "mods t m = Some e" "held_once e key x h"
      "mods_of t p (ms @ m # [])" "\<forall>q e'. mods t q = Some e' \<longrightarrow> q \<noteq> m \<longrightarrow> me_parent_entry e' \<noteq> Some m"
    and t: "xy_load E fname s = Some (XY_OK, t)" "mods s m = None" "\<forall>q. q \<noteq> m \<longrightarrow> (mods t q = None \<longleftrightarrow> mods s q = None)"
      "\<forall>q ns. q \<noteq> p \<longrightarrow> mods_of s q ns \<longrightarrow> mods_of t q ns"
      "tbl_get E t (mod_hd (xy_rt s)) = (tbl_get E s (mod_hd (xy_rt s)))(KStr key \<mapsto> VPtr m)"
      "dl_refs t = (dl_refs s)(h := dl_refs s h + 1)" "xy_rt t = (xy_rt s)\<lparr>xy_mod_count := xy_mod_count (xy_rt s) + 1\<rparr>"
      "xy_current_region_id t = xy_current_region_id s" "xy_current_region_entry t = xy_current_region_entry s"
      "paths t x = Some path" "r_key t = r_key s" "tmp_files t = tmp_files s" "\<forall>q. denied_mods t q = denied_mods s q"
      "\<forall>q e'. q \<noteq> m \<longrightarrow> mods t q = Some e' \<longrightarrow> (\<exists>e0. mods s q = Some e0 \<and> relinked_in e0 e')"
    by (elim exE conjE) (rule that)
  have hd: "mod_hd (xy_rt t) = mod_hd (xy_rt s)" using t(7) by simp
  from unload_effects [OF E h] obtain u where
    u: "xy_unload E fname t = Some (XY_OK, u)" "mods u m = None" "\<forall>q. q \<noteq> m \<longrightarrow> (mods u q = None \<longleftrightarrow> mods t q = None)"
      "mods_of u p (ms @ [])" "\<forall>q ns. q \<noteq> p \<longrightarrow> mods_of t q ns \<longrightarrow> mods_of u q ns"
      "tbl_get E u (mod_hd (xy_rt t)) = (tbl_get E t (mod_hd (xy_rt t)))(KStr key := None)"
      "dl_refs u = (dl_refs t)(h := dl_refs t h - 1)" "tmp_files u = tmp_files t"
      "xy_rt u = (xy_rt t)\<lparr>xy_mod_count := xy_mod_count (xy_rt t) - 1\<rparr>" "region_wf E u" "r_key u = r_key t"
      "\<forall>q. denied_mods u q = denied_mods t q - (if q = p then {x} else {})"
      "xy_current_region_id u = xy_current_region_id t" "xy_current_region_entry u = xy_current_region_entry t"
      "\<forall>q e0. q \<noteq> m \<longrightarrow> mods t q = Some e0 \<longrightarrow>
        (\<exists>e'. mods u q = Some e' \<and> kept e0 e' \<and> me_fn_cache e' = swept E t (Some h) q e0)"
      "ctxs u = ctxs t"
    by (elim exE conjE) (rule that)
  have "mods u q = None \<longleftrightarrow> mods s q = None" for q using u(2,3) t(2,3) by (cases "q = m") auto
  moreover have "mods_of u q ns" if "mods_of s q ns" for q ns
    using that u(4,5) t(4) mods_of_unique [OF that, of ms] ms by (cases "q = p") auto
  moreover have "tbl_get E u (mod_hd (xy_rt s)) = tbl_get E s (mod_hd (xy_rt s))"
    using u(6) t(5) fr by (auto simp: fresh_file_def hd fun_eq_iff)
  moreover have "dl_refs u = dl_refs s" "xy_rt u = xy_rt s" using u(7,9) t(6,7) by (simp_all add: fun_eq_iff)
  moreover have "\<exists>e'. mods u q = Some e' \<and> kept e0 e' \<and> me_fn_cache e' = swept E s (Some h) q e0" if q: "mods s q = Some e0" for q e0
  proof -
    have ne: "q \<noteq> m" using q t(2) by auto
    then obtain e1 where e1: "mods t q = Some e1" using t(3) q by (cases "mods t q") auto
    obtain e2 where "mods s q = Some e2" "relinked_in e2 e1" using t(14) ne e1 by blast
    with q have "relinked_in e0 e1" by simp
    then have "kept e0 e1" "me_fn_cache e1 = me_fn_cache e0" by (auto simp: relinked_in_def relinked_def kept_def)
    moreover have "tbl_get E s (mod_hd (xy_rt s)) (KStr key) = None" using fr by (simp add: fresh_file_def)
    then have "tbl_get E t (mod_hd (xy_rt s)) k = Some (VPtr q) \<longleftrightarrow> tbl_get E s (mod_hd (xy_rt s)) k = Some (VPtr q)" for k
      using ne by (cases "k = KStr key") (simp_all add: t(5))
    then have "in_table E t q = in_table E s q" unfolding in_table_def hd by simp
    moreover obtain e2 where "mods u q = Some e2" "kept e1 e2" "me_fn_cache e2 = swept E t (Some h) q e1"
      using u(15) ne e1 by blast
    ultimately show ?thesis using kept_trans [of e0 e1 e2] by (intro exI [of _ e2]) (simp add: swept_def)
  qed
  ultimately show ?thesis
    using t(1,8-13) u(1,8,10-14)
    by - (rule exI [of _ t], rule exI [of _ u], rule exI [of _ x], simp)
qed


text \<open>The demo process loads the demo module and unloads it again.\<close>

lemma demo_linker_deny: "deny_inv (demo_linker abi) demo_boot" "listed_alive (demo_linker abi) demo_boot"
proof -
  show "deny_inv (demo_linker abi) demo_boot"
    using demo_boot_deny(1) by (simp add: deny_inv_def set_agrees_def demo_linker_tables)
  show "listed_alive (demo_linker abi) demo_boot"
    by (simp add: listed_alive_def demo_linker_tables demo_boot_corm tbl_get_def demo_env_def list_corm_def)
qed

lemma demo_no_parents: "\<forall>q e x. mods demo_boot q = Some e \<longrightarrow> me_parent_entry e = Some x \<longrightarrow> x < next_addr demo_boot"
  by (simp add: demo_boot_corm)

lemmas demo_load = demo_linker_ok demo_linker_ready demo_linker_deny demo_no_parents demo_fresh_file demo_plain demo_ctx
  demo_good_ctx demo_boot_current

theorem load_unload_roundtrip_witness:
  "\<exists>t u. xy_load (demo_linker True) ''mods/a'' demo_boot = Some (XY_OK, t) \<and>
     xy_unload (demo_linker True) ''mods/a'' t = Some (XY_OK, u) \<and> mods u = (\<lambda>_. None) \<and> dl_refs u = dl_refs demo_boot"
  using load_unload_roundtrip [OF demo_load] by (auto simp: demo_boot_corm)

theorem unload_last_reference_witness:
  "\<exists>t u m. mods t m \<noteq> None \<and> xy_unload (demo_linker True) ''mods/a'' t = Some (XY_OK, u) \<and> mods u m = None"
proof -
  from load_unloadable [OF demo_load] obtain t m e x plen where
    h: "ready (demo_linker True) t" "deny_inv (demo_linker True) t" "listed_alive (demo_linker True) t"
      "\<not> tbl_single (demo_linker True) t (mod_by_region_hd (xy_rt t))"
      "module_load_path (demo_linker True) t ''mods/a'' = Some ''mods/a.so''" "region_current_plen t = Some plen"
      "mod_key (mod_key_len ''mods/a.so'') ''mods/a.so'' 0 0 = mod_key (mod_key_len ''mods/a.so'') ''mods/a.so'' (xy_current_region_id t) plen"
      "tbl_get (demo_linker True) t (mod_hd (xy_rt t)) (KStr (mod_key (mod_key_len ''mods/a.so'') ''mods/a.so'' 0 0)) = Some (VPtr m)"
      "mods t m = Some e" "held_once e (mod_key (mod_key_len ''mods/a.so'') ''mods/a.so'' 0 0) x 9"
      "mods_of t 1 ([] @ m # [])" "\<forall>q e'. mods t q = Some e' \<longrightarrow> q \<noteq> m \<longrightarrow> me_parent_entry e' \<noteq> Some m"
    by blast
  from unload_last_reference [OF demo_linker_ok h] h(9) show ?thesis by blast
qed

end
