(* ===== verification/Xy_Cascade.thy ===== *)
theory Xy_Cascade
  imports Xy_Unload
begin

text \<open>
  The cascade of an unload: the modules that a module has loaded go with it, and those they
  have loaded, as far as each is held once and has a name to be found by. It comes back, and it
  takes down exactly these.
\<close>

section \<open>The modules and their parents\<close>

text \<open>A row of the module table.\<close>

definition row :: "'h env \<Rightarrow> 'h xy_state \<Rightarrow> string \<Rightarrow> mptr \<Rightarrow> bool" where
  "row E s key m \<longleftrightarrow> tbl_get E s (mod_hd (xy_rt s)) (KStr key) = Some (VPtr m)"

text \<open>Has the module a name under which the cascade looks it up?\<close>

definition named :: "'h env \<Rightarrow> 'h xy_state \<Rightarrow> xy_mod_entry \<Rightarrow> bool" where
  "named E s e \<longleftrightarrow>
     (\<exists>c x path P. me_ctx e = Some c \<and> ctxs s c = Some x \<and> cx_module_path x = Some path \<and> module_load_path E s path = Some P)"

text \<open>
  What is expected of a listed module: it is in its region's list, has its file, and no per-region
  state or temporary copy; its context is mapped; it was allocated after its parent; and its
  name, when it resolves, resolves to its own key.
\<close>

definition entry_fit :: "'h env \<Rightarrow> 'h xy_state \<Rightarrow> mptr \<Rightarrow> xy_mod_entry \<Rightarrow> bool" where
  "entry_fit E s m e \<longleftrightarrow>
     (\<exists>p xs ys. mods_of s p (xs @ m # ys)) \<and> me_load_path e \<noteq> None \<and> me_region_state e = None \<and> me_handle e \<noteq> None \<and>
     me_tmp_load_path e = None \<and> (\<forall>c. me_ctx e = Some c \<longrightarrow> ctxs s c \<noteq> None) \<and>
     (\<forall>x. me_parent_entry e = Some x \<longrightarrow> x < m) \<and>
     (\<forall>c x path P. me_ctx e = Some c \<longrightarrow> ctxs s c = Some x \<longrightarrow> cx_module_path x = Some path \<longrightarrow>
        module_load_path E s path = Some P \<longrightarrow>
        mod_key (mod_key_len P) P (me_region_id e) (me_region_plen e) = me_mod_key e)"

definition unload_inv :: "'h env \<Rightarrow> 'h xy_state \<Rightarrow> bool" where
  "unload_inv E s \<longleftrightarrow>
     region_wf E s \<and> deny_inv E s \<and> \<not> tbl_single E s (mod_by_region_hd (xy_rt s)) \<and>
     (\<forall>k v. tbl_get E s (mod_hd (xy_rt s)) k = Some v \<longrightarrow>
        (\<exists>m e. k = KStr (me_mod_key e) \<and> v = VPtr m \<and> mods s m = Some e \<and> m < next_addr s \<and> entry_fit E s m e))"

lemma row_fit:
  assumes "unload_inv E s" "row E s key m"
  obtains e where "mods s m = Some e" "me_mod_key e = key" "m < next_addr s" "entry_fit E s m e"
proof -
  from assms have "\<exists>m' e. KStr key = KStr (me_mod_key e) \<and> VPtr m = VPtr m' \<and> mods s m' = Some e \<and> m' < next_addr s \<and> entry_fit E s m' e"
    unfolding unload_inv_def row_def by blast
  then show ?thesis using that by auto
qed

lemma unload_inv_single: "unload_inv E s \<Longrightarrow> tbl_single E s (mod_hd (xy_rt s))"
  by (auto simp: unload_inv_def deny_inv_def rt_handles_def rt_list_def Let_def)

lemma unload_inv_listed: "unload_inv E s \<Longrightarrow> listed_alive E s"
  unfolding unload_inv_def listed_alive_def by fastforce

text \<open>The modules below a module, along the parents.\<close>

inductive descends :: "'h env \<Rightarrow> 'h xy_state \<Rightarrow> mptr \<Rightarrow> mptr \<Rightarrow> bool" for E s m where
  descends_self: "descends E s m m"
| descends_child: "descends E s m q \<Longrightarrow> row E s (me_mod_key e) r \<Longrightarrow> mods s r = Some e \<Longrightarrow> me_parent_entry e = Some q \<Longrightarrow>
    descends E s m r"

lemma descends_le:
  assumes "unload_inv E s" "descends E s m q"
  shows "m \<le> q"
  using assms(2)
proof induction
  case (descends_child q e r)
  from row_fit [OF assms(1) descends_child(2)] descends_child(3) have "entry_fit E s r e" by auto
  then show ?case using descends_child(4,5) by (fastforce simp: entry_fit_def)
qed simp

text \<open>The modules above a module are in line.\<close>

lemma descends_line:
  assumes "descends E s a r" "descends E s b r"
  shows "descends E s a b \<or> descends E s b a"
  using assms
proof (induction arbitrary: b)
  case (descends_child q e r)
  from descends_child(6) show ?case
  proof cases
    case descends_self
    then show ?thesis using descends.descends_child [OF descends_child(1-4)] by blast
  next
    case (descends_child q' e')
    with \<open>mods s r = Some e\<close> \<open>me_parent_entry e = Some q\<close> have "descends E s b q" by simp
    then show ?thesis using descends_child.IH by blast
  qed
qed simp

text \<open>Two modules with one parent are not below one another.\<close>

lemma siblings_apart:
  assumes inv: "unload_inv E s" and c: "row E s k c" "mods s c = Some e" "me_parent_entry e = Some m"
    and c': "row E s k' c'" "mods s c' = Some e'" "me_parent_entry e' = Some m" and "descends E s c c'"
  shows "c = c'"
  using assms(8)
proof cases
  case (descends_child q e'')
  then have "descends E s c m" using c' by simp
  then have "c \<le> m" using descends_le inv by blast
  moreover have "m < c" using row_fit [OF inv c(1)] c(2,3) by (auto simp: entry_fit_def)
  ultimately show ?thesis by simp
qed simp

text \<open>What the cascade takes down.\<close>

inductive falls :: "'h env \<Rightarrow> 'h xy_state \<Rightarrow> mptr \<Rightarrow> mptr \<Rightarrow> bool" for E s where
  falls_self: "mods s m = Some e \<Longrightarrow> me_refcount e \<le> 1 \<Longrightarrow> falls E s m m"
| falls_child: "mods s m = Some e \<Longrightarrow> me_refcount e \<le> 1 \<Longrightarrow> row E s (me_mod_key d) c \<Longrightarrow> mods s c = Some d \<Longrightarrow>
    me_parent_entry d = Some m \<Longrightarrow> named E s d \<Longrightarrow> falls E s c q \<Longrightarrow> falls E s m q"


section \<open>What a part of the cascade leaves\<close>

text \<open>An entry up to its reference count.\<close>

definition same_ident :: "xy_mod_entry \<Rightarrow> xy_mod_entry \<Rightarrow> bool" where
  "same_ident e e' \<longleftrightarrow> kept (e\<lparr>me_refcount := me_refcount e'\<rparr>) e'"

lemma kept_same: "kept e e' \<Longrightarrow> same_ident e e'" by (simp add: same_ident_def kept_def)

lemma same_ident_trans: "same_ident e e' \<Longrightarrow> same_ident e' e'' \<Longrightarrow> same_ident e e''"
  by (simp add: same_ident_def kept_def)

lemma same_identD:
  "same_ident e e' \<Longrightarrow> me_parent_entry e' = me_parent_entry e \<and> me_mod_key e' = me_mod_key e \<and> me_ctx e' = me_ctx e \<and>
     me_region_id e' = me_region_id e \<and> me_region_plen e' = me_region_plen e"
  by (simp add: same_ident_def kept_def)

lemma keptD: "kept e e' \<Longrightarrow> me_refcount e' = me_refcount e"
  by (simp add: kept_def)

definition thinned :: "'h env \<Rightarrow> 'h xy_state \<Rightarrow> 'h xy_state \<Rightarrow> bool" where
  "thinned E s t \<longleftrightarrow>
     unload_inv E t \<and> next_addr t = next_addr s \<and> ctxs t = ctxs s \<and>
     (\<forall>k q. row E t k q \<longrightarrow> row E s k q) \<and>
     (\<forall>k q e'. row E t k q \<longrightarrow> mods t q = Some e' \<longrightarrow> (\<exists>e. mods s q = Some e \<and> same_ident e e'))"

definition post :: "'h env \<Rightarrow> 'h xy_state \<Rightarrow> 'h xy_state \<Rightarrow> mptr set \<Rightarrow> bool" where
  "post E s t C \<longleftrightarrow> thinned E s t \<and>
     (\<forall>k q e. row E s k q \<longrightarrow> mods s q = Some e \<longrightarrow> (\<forall>c \<in> C. \<not> descends E s c q) \<longrightarrow>
        row E t k q \<and> (\<exists>e'. mods t q = Some e' \<and> kept e e'))"

lemma postD:
  assumes "post E s t C"
  shows "unload_inv E t" "next_addr t = next_addr s" "ctxs t = ctxs s" "row E t k q \<Longrightarrow> row E s k q"
    "row E t k q \<Longrightarrow> mods t q = Some e' \<Longrightarrow> \<exists>e. mods s q = Some e \<and> same_ident e e'"
    "row E s k q \<Longrightarrow> mods s q = Some e \<Longrightarrow> (\<And>c. c \<in> C \<Longrightarrow> \<not> descends E s c q) \<Longrightarrow>
       row E t k q \<and> (\<exists>e'. mods t q = Some e' \<and> kept e e')"
  using assms unfolding post_def thinned_def by blast+

lemma post_refl: "unload_inv E s \<Longrightarrow> post E s s C"
  unfolding post_def thinned_def using row_fit kept_same [OF kept_refl] kept_refl by blast

lemma descends_post:
  assumes "post E s t C" "descends E t m q"
  shows "descends E s m q"
  using assms(2)
proof induction
  case (descends_child q e' r)
  from postD(5) [OF assms(1) this(2,3)] obtain e where "mods s r = Some e" "same_ident e e'" by blast
  moreover from this(2) have "row E s (me_mod_key e) r" "me_parent_entry e = Some q"
    using postD(4) [OF assms(1) descends_child(2)] descends_child(4) same_identD by auto
  ultimately show ?case using descends_child.IH descends.descends_child by metis
qed (rule descends_self)

lemma post_trans:
  assumes a: "post E s t C" and b: "post E t u D"
  shows "post E s u (C \<union> D)"
proof -
  have "row E u k q \<and> (\<exists>e'. mods u q = Some e' \<and> kept e e')"
    if q: "row E s k q" "mods s q = Some e" and nd: "\<forall>c \<in> C \<union> D. \<not> descends E s c q" for k q e
  proof -
    obtain e1 where e1: "row E t k q" "mods t q = Some e1" "kept e e1" using postD(6) [OF a q] nd by blast
    have "\<not> descends E t c q" if "c \<in> D" for c using nd that descends_post [OF a] by blast
    from postD(6) [OF b e1(1,2) this] e1(3) kept_trans show ?thesis by blast
  qed
  moreover have "\<exists>e. mods s q = Some e \<and> same_ident e e'" if u: "row E u k q" "mods u q = Some e'" for k q e'
  proof -
    obtain e1 where "mods t q = Some e1" "same_ident e1 e'" using postD(5) [OF b u] by blast
    with postD(5) [OF a postD(4) [OF b u(1)]] same_ident_trans show ?thesis by blast
  qed
  ultimately show ?thesis using postD(1-4) [OF a] postD(1-4) [OF b] unfolding post_def thinned_def by auto
qed

lemma descends_trans: "descends E s c q \<Longrightarrow> descends E s d c \<Longrightarrow> descends E s d q"
proof (induction rule: descends.induct)
  case (descends_child q e r)
  then show ?case using descends.descends_child by metis
qed

lemma post_mono:
  assumes "post E s t C" "\<And>c. c \<in> C \<Longrightarrow> \<exists>d \<in> D. descends E s d c"
  shows "post E s t D"
proof -
  have nd: "\<not> descends E s c q" if nd: "\<forall>d \<in> D. \<not> descends E s d q" and c: "c \<in> C" for c q
  proof
    assume q: "descends E s c q"
    obtain d where d: "d \<in> D" "descends E s d c" using assms(2) [OF c] by blast
    show False using descends_trans [OF q d(2)] nd d(1) by blast
  qed
  have "row E t k q \<and> (\<exists>e'. mods t q = Some e' \<and> kept e e')"
    if "row E s k q" "mods s q = Some e" "\<forall>d \<in> D. \<not> descends E s d q" for k q e
    using postD(6) [OF assms(1) that(1,2)] nd [OF that(3)] by blast
  with assms(1) show ?thesis unfolding post_def by blast
qed

lemma named_post:
  assumes "never_oom E" "ctxs t = ctxs s" "me_ctx d' = me_ctx d"
  shows "named E t d' = named E s d"
  using assms load_path_same [OF assms(1), of t _ s] by (simp add: named_def)

text \<open>The cascade below a module that is left alone so far is what it was.\<close>

definition alike :: "xy_mod_entry \<Rightarrow> xy_mod_entry \<Rightarrow> bool" where
  "alike e e' \<longleftrightarrow> me_refcount e' = me_refcount e \<and> me_parent_entry e' = me_parent_entry e \<and> me_mod_key e' = me_mod_key e \<and> me_ctx e' = me_ctx e"

lemma kept_alike: "kept e e' \<Longrightarrow> alike e e' \<and> alike e' e"
  using keptD same_identD [OF kept_same] by (auto simp: alike_def)

lemma falls_mono:
  assumes nm: "\<And>d d'. me_ctx d' = me_ctx d \<Longrightarrow> named E t d' = named E s d"
    and "falls E s c q" "row E s k c"
    and "\<And>r k e. descends E s c r \<Longrightarrow> row E s k r \<Longrightarrow> mods s r = Some e \<Longrightarrow> row E t k r \<and> (\<exists>e'. mods t r = Some e' \<and> alike e e')"
  shows "falls E t c q"
  using assms(2-)
proof (induction arbitrary: k)
  case (falls_self m e)
  obtain e' where "mods t m = Some e'" "alike e e'" using falls_self.prems(2) [OF descends_self falls_self.prems(1) falls_self.hyps(1)] by blast
  with falls_self.hyps(2) show ?case using falls.falls_self [of t m e' E] by (simp add: alike_def)
next
  case (falls_child m e d c q)
  obtain e1 where e1: "mods t m = Some e1" "alike e e1"
    using falls_child.prems(2) [OF descends_self falls_child.prems(1) falls_child.hyps(1)] by blast
  have dc: "descends E s m c" by (rule descends.descends_child [OF descends_self falls_child.hyps(3-5)])
  obtain d1 where d1: "row E t (me_mod_key d) c" "mods t c = Some d1" "alike d d1"
    using falls_child.prems(2) [OF dc falls_child.hyps(3,4)] by blast
  have "falls E t c q"
    by (rule falls_child.IH [OF falls_child.hyps(3)]) (rule falls_child.prems(2), rule descends_trans [OF _ dc])
  then show ?case
    using e1 d1 falls_child.hyps(2,5,6) nm [of d1 d] by (intro falls.falls_child [of t m e1 E d1 c q]) (auto simp: alike_def)
qed

lemma falls_same:
  assumes mem: "never_oom E" and p: "post E s t C" and c: "row E s k c" "mods s c = Some e"
    and keep: "\<And>r k e. descends E s c r \<Longrightarrow> row E s k r \<Longrightarrow> mods s r = Some e \<Longrightarrow> row E t k r \<and> (\<exists>e'. mods t r = Some e' \<and> kept e e')"
  shows "falls E t c q \<longleftrightarrow> falls E s c q"
proof
  have nm: "named E t d' = named E s d" if "me_ctx d' = me_ctx d" for d d'
    by (rule named_post [OF mem postD(3) [OF p] that])
  show "falls E t c q" if "falls E s c q"
  proof (rule falls_mono [OF nm that c(1)])
    fix r k e assume "descends E s c r" "row E s k r" "mods s r = Some e"
    from keep [OF this] kept_alike show "row E t k r \<and> (\<exists>e'. mods t r = Some e' \<and> alike e e')" by blast
  qed
  have rev: "row E s k r \<and> (\<exists>e. mods s r = Some e \<and> alike e' e)"
    if r: "descends E t c r" "row E t k r" "mods t r = Some e'" for r k e'
  proof -
    note s = postD(4) [OF p r(2)]
    obtain e where e: "mods s r = Some e" using postD(5) [OF p r(2,3)] by blast
    with keep [OF descends_post [OF p r(1)] s e] r(3) kept_alike s show ?thesis by auto
  qed
  have "row E t k c" using keep [OF descends_self c] by blast
  with falls_mono [where s = t and t = s and E = E and c = c and q = q and k = k] nm [symmetric] rev show "falls E s c q" if "falls E t c q" using that by blast
qed


section \<open>The steps of an unload\<close>

lemma unload_inv_thin:
  assumes inv: "unload_inv E s" and mem: "never_oom E" and wf: "region_wf E t" "deny_inv E t" "tbl_single E t = tbl_single E s"
    and hd: "mod_hd (xy_rt t) = mod_hd (xy_rt s)" "mod_by_region_hd (xy_rt t) = mod_by_region_hd (xy_rt s)"
    and fr: "next_addr t = next_addr s" "ctxs t = ctxs s"
    and tab: "\<And>k v. tbl_get E t (mod_hd (xy_rt s)) k = Some v \<Longrightarrow> tbl_get E s (mod_hd (xy_rt s)) k = Some v"
    and ent: "\<And>k m e. row E t k m \<Longrightarrow> mods s m = Some e \<Longrightarrow> \<exists>e'. mods t m = Some e' \<and> same_ident e e'"
    and lst: "\<And>k m p xs ys. row E t k m \<Longrightarrow> mods_of s p (xs @ m # ys) \<Longrightarrow> \<exists>p xs ys. mods_of t p (xs @ m # ys)"
  shows "thinned E s t"
proof -
  have rows: "row E s k q" if "row E t k q" for k q using that tab by (simp add: row_def hd)
  have "\<exists>m e. k = KStr (me_mod_key e) \<and> v = VPtr m \<and> mods t m = Some e \<and> m < next_addr t \<and> entry_fit E t m e"
    if v: "tbl_get E t (mod_hd (xy_rt t)) k = Some v" for k v
  proof -
    have "tbl_get E s (mod_hd (xy_rt s)) k = Some v" using v tab by (simp add: hd)
    then obtain m e where m: "k = KStr (me_mod_key e)" "v = VPtr m" "mods s m = Some e" "m < next_addr s" "entry_fit E s m e"
      using inv unfolding unload_inv_def by blast
    have r: "row E t (me_mod_key e) m" using v m by (simp add: row_def)
    obtain e' where e': "mods t m = Some e'" "same_ident e e'" using ent [OF r m(3)] by blast
    have "entry_fit E t m e'"
      using m(5) lst [OF r] e'(2) load_path_same [OF mem, of t _ s]
      by (auto simp: entry_fit_def same_ident_def kept_def fr)
    then show ?thesis using m e' same_identD [OF e'(2)] fr by auto
  qed
  moreover have "\<exists>e. mods s q = Some e \<and> same_ident e e'" if "row E t k q" "mods t q = Some e'" for k q e'
    using row_fit [OF inv rows [OF that(1)]] ent [OF that(1)] that(2) by force
  ultimately show ?thesis using inv wf rows unfolding thinned_def unload_inv_def by (simp add: hd fr)
qed

lemma dec_post:
  assumes inv: "unload_inv E s" and mem: "never_oom E" and m: "mods s m = Some e"
  defines "t \<equiv> upd_mod m (\<lambda>e. e\<lparr>me_refcount := me_refcount e - 1\<rparr>) s"
  shows "thinned E s t" "row E t = row E s" "mods t = (mods s)(m \<mapsto> e\<lparr>me_refcount := me_refcount e - 1\<rparr>)"
proof -
  have fr: "regions t = regions s" "st_corm t = st_corm s" "xy_rt t = xy_rt s" "next_addr t = next_addr s" "ctxs t = ctxs s"
    by (simp_all add: t_def upd_mod_def)
  have tab: "tbl_get E t = tbl_get E s" "tbl_single E t = tbl_single E s"
    by (rule tbl_get_cong [OF fr(2)]) (rule tbl_single_cong [OF fr(2)])
  show row: "row E t = row E s" by (simp add: fun_eq_iff row_def tab fr)
  show ms: "mods t = (mods s)(m \<mapsto> e\<lparr>me_refcount := me_refcount e - 1\<rparr>)" by (simp add: t_def upd_mod_def m)
  have lk: "mods_of t q ns = mods_of s q ns" for q ns
    by (rule mods_of_links) (auto simp: fun_eq_iff mod_next_def mod_prev_def mod_region_def ms m fr)
  show "thinned E s t"
  proof (rule unload_inv_thin [OF inv mem])
    show "region_wf E t"
      by (rule region_wf_more_addresses [of E s]) (use inv in \<open>simp_all add: unload_inv_def fr tab\<close>)
    show "deny_inv E t" by (rule deny_inv_frame [of t s]) (use inv in \<open>simp_all add: unload_inv_def fun_eq_iff dset_def fr tab\<close>)
    show "\<exists>e'. mods t q = Some e' \<and> same_ident e0 e'" if "mods s q = Some e0" for q e0
      using that m by (auto simp: ms same_ident_def kept_def)
  qed (auto simp: fr tab lk)
qed

lemma remove_post:
  assumes E: "env_ok E" "never_oom E" and inv: "unload_inv E s" and m: "row E s key m"
  shows "\<exists>t. mod_remove E m s = Some t \<and> thinned E s t \<and> (\<forall>k q. row E t k q \<longleftrightarrow> row E s k q \<and> q \<noteq> m) \<and>
    (\<forall>q e. q \<noteq> m \<longrightarrow> mods s q = Some e \<longrightarrow> (\<exists>e'. mods t q = Some e' \<and> kept e e'))"
proof -
  obtain e where e: "mods s m = Some e" "me_mod_key e = key" "m < next_addr s" "entry_fit E s m e" by (rule row_fit [OF inv m])
  obtain p xs ys where ms: "mods_of s p (xs @ m # ys)" using e(4) unfolding entry_fit_def by blast
  obtain x h where f: "me_load_path e = Some x" "me_region_state e = None" "me_handle e = Some h" "me_tmp_load_path e = None"
    using e(4) unfolding entry_fit_def by auto
  have iv: "region_wf E s" "deny_inv E s" "\<not> tbl_single E s (mod_by_region_hd (xy_rt s))" using inv by (simp_all add: unload_inv_def)
  from mod_remove_ok [OF E(1) iv(1,2) unload_inv_listed [OF inv] iv(3) ms e(1,2) f] obtain t where
    t: "mod_remove E m s = Some t" "mods t m = None" "\<forall>q. q \<noteq> m \<longrightarrow> (mods t q = None \<longleftrightarrow> mods s q = None)"
      "mods_of t p (xs @ ys)" "\<forall>q ns. q \<noteq> p \<longrightarrow> mods_of s q ns \<longrightarrow> mods_of t q ns"
      "tbl_get E t (mod_hd (xy_rt s)) = (tbl_get E s (mod_hd (xy_rt s)))(KStr key := None)"
      "xy_rt t = (xy_rt s)\<lparr>xy_mod_count := xy_mod_count (xy_rt s) - 1\<rparr>" "region_wf E t" "deny_inv E t"
      "tbl_single E t = tbl_single E s" "ctxs t = ctxs s" "next_addr t = next_addr s"
      "\<forall>q e'. q \<noteq> m \<longrightarrow> mods t q = Some e' \<longrightarrow> (\<exists>e0. mods s q = Some e0 \<and> kept e0 e')"
    by (elim exE conjE) (rule that)
  have hd: "mod_hd (xy_rt t) = mod_hd (xy_rt s)" "mod_by_region_hd (xy_rt t) = mod_by_region_hd (xy_rt s)" using t(7) by simp_all
  have rows: "row E t k q \<longleftrightarrow> row E s k q \<and> q \<noteq> m" for k q
  proof -
    have "k = key" if r: "row E s k m" by (rule row_fit [OF inv r]) (use e in simp)
    moreover have "q = m" if "row E s key q" using that m by (simp add: row_def)
    moreover have "row E t k q \<longleftrightarrow> row E s k q \<and> k \<noteq> key" by (simp add: row_def hd t(6))
    ultimately show ?thesis using m by blast
  qed
  have ent: "\<exists>e'. mods t q = Some e' \<and> kept e0 e'" if "q \<noteq> m" "mods s q = Some e0" for q e0
    using that t(3,13) by fastforce
  have "thinned E s t"
  proof (rule unload_inv_thin [OF inv E(2) t(8,9,10) hd t(12,11)])
    show "tbl_get E s (mod_hd (xy_rt s)) k = Some v" if "tbl_get E t (mod_hd (xy_rt s)) k = Some v" for k v
      using that by (simp add: t(6) split: if_splits)
    show "\<exists>e'. mods t q = Some e' \<and> same_ident e0 e'" if "row E t k q" "mods s q = Some e0" for k q e0
      using ent that rows kept_same by blast
    fix k q p' xs' ys' assume q: "row E t k q" "mods_of s p' (xs' @ q # ys')"
    show "\<exists>p xs ys. mods_of t p (xs @ q # ys)"
    proof (cases "p' = p")
      case True
      then have "xs' @ q # ys' = xs @ m # ys" using q(2) ms mods_of_unique by blast
      then have "q \<in> set (xs @ m # ys)" by (metis in_set_conv_decomp)
      moreover have "q \<noteq> m" using q(1) rows by blast
      ultimately have "q \<in> set (xs @ ys)" by simp
      then show ?thesis using t(4) by (metis split_list)
    next
      case False
      then show ?thesis using t(5) q(2) by blast
    qed
  qed
  then show ?thesis using t(1) rows ent by blast
qed


text \<open>The children the table lists, each once.\<close>

lemma children_of_filter:
  assumes "\<And>k v. (k, v) \<in> set kvs \<Longrightarrow> \<exists>q e. v = VPtr q \<and> mods s q = Some e"
  shows "children_of s m kvs =
    Some (filter (\<lambda>q. q \<noteq> m \<and> me_parent_entry (the (mods s q)) = Some m) (map (\<lambda>kv. the (corm_ptr (Some (snd kv)))) kvs))"
  using assms
proof (induction kvs)
  case (Cons kv kvs)
  obtain k v where kv: "kv = (k, v)" by (cases kv)
  then obtain q e where "v = VPtr q" "mods s q = Some e" using Cons.prems by fastforce
  moreover have "children_of s m kvs =
      Some (filter (\<lambda>q. q \<noteq> m \<and> me_parent_entry (the (mods s q)) = Some m) (map (\<lambda>kv. the (corm_ptr (Some (snd kv)))) kvs))"
    by (rule Cons.IH) (rule Cons.prems, erule list.set_intros(2))
  ultimately show ?case using kv by simp
qed simp

lemma children_rows:
  assumes E: "env_ok E" and inv: "unload_inv E s"
  obtains cs where "children_of s m (tbl_iter E s (mod_hd (xy_rt s))) = Some cs" "distinct cs"
    "\<And>c. c \<in> set cs \<longleftrightarrow> (\<exists>d. row E s (me_mod_key d) c \<and> mods s c = Some d \<and> me_parent_entry d = Some m)"
proof -
  let ?kvs = "tbl_iter E s (mod_hd (xy_rt s))" and ?f = "\<lambda>kv. the (corm_ptr (Some (snd kv)))"
  let ?cs = "filter (\<lambda>q. q \<noteq> m \<and> me_parent_entry (the (mods s q)) = Some m) (map ?f ?kvs)"
  note iff = tbl_iter_iff [OF E unload_inv_single [OF inv]]
  have rows: "\<exists>q e. k = KStr (me_mod_key e) \<and> v = VPtr q \<and> mods s q = Some e \<and> entry_fit E s q e" if "(k, v) \<in> set ?kvs" for k v
    using that iff inv unfolding unload_inv_def by blast
  have "distinct (map fst ?kvs)"
    using E unload_inv_single [OF inv] unfolding env_ok_def corm_ok_def tbl_iter_def tbl_single_def by blast
  moreover have inj: "inj_on ?f (set ?kvs)"
  proof (rule inj_onI)
    fix a b assume ab: "a \<in> set ?kvs" "b \<in> set ?kvs" "?f a = ?f b"
    obtain k v where a: "a = (k, v)" by (cases a)
    obtain k' v' where b: "b = (k', v')" by (cases b)
    obtain q e q' e' where "k = KStr (me_mod_key e)" "v = VPtr q" "mods s q = Some e" "k' = KStr (me_mod_key e')" "v' = VPtr q'" "mods s q' = Some e'"
      using rows ab(1,2) unfolding a b by blast
    then show "a = b" using ab(3) by (simp add: a b)
  qed
  ultimately have 1: "distinct ?cs" by (simp add: distinct_map distinct_map [of fst])
  have 2: "children_of s m ?kvs = Some ?cs" by (rule children_of_filter) (use rows in blast)
  have 3: "c \<in> set ?cs \<longleftrightarrow> (\<exists>d. row E s (me_mod_key d) c \<and> mods s c = Some d \<and> me_parent_entry d = Some m)" for c
  proof
    assume c: "c \<in> set ?cs"
    then obtain k v where kv: "(k, v) \<in> set ?kvs" "c = ?f (k, v)" by auto
    with rows obtain q e where q: "k = KStr (me_mod_key e)" "v = VPtr q" "mods s q = Some e" by blast
    then have "c = q" using kv(2) by simp
    moreover have "row E s (me_mod_key e) q" using kv(1) q iff by (simp add: row_def)
    ultimately show "\<exists>d. row E s (me_mod_key d) c \<and> mods s c = Some d \<and> me_parent_entry d = Some m" using q(3) c by auto
  next
    assume "\<exists>d. row E s (me_mod_key d) c \<and> mods s c = Some d \<and> me_parent_entry d = Some m"
    then obtain d where d: "row E s (me_mod_key d) c" "mods s c = Some d" "me_parent_entry d = Some m" by blast
    then have kv: "(KStr (me_mod_key d), VPtr c) \<in> set ?kvs" using iff by (simp add: row_def)
    then have "c \<in> set (map ?f ?kvs)" by force
    moreover have "c \<noteq> m" by (rule row_fit [OF inv d(1)]) (use d in \<open>auto simp: entry_fit_def\<close>)
    ultimately show "c \<in> set ?cs" using d by simp
  qed
  show ?thesis by (rule that [OF 2 1 3])
qed

section \<open>The cascade\<close>

text \<open>The entries of the modules below \<open>c\<close> are what they were.\<close>

definition spared :: "'h env \<Rightarrow> 'h xy_state \<Rightarrow> 'h xy_state \<Rightarrow> mptr \<Rightarrow> bool" where
  "spared E s t c \<longleftrightarrow>
     (\<forall>r k e. descends E s c r \<longrightarrow> row E s k r \<longrightarrow> mods s r = Some e \<longrightarrow> row E t k r \<and> (\<exists>e'. mods t r = Some e' \<and> kept e e'))"

text \<open>What an unload does when its fuel is enough.\<close>

definition unloads :: "nat \<Rightarrow> 'h env \<Rightarrow> bool" where
  "unloads n E \<longleftrightarrow>
     (\<forall>s fname i plen P m e. unload_inv E s \<longrightarrow> module_load_path E s fname = Some P \<longrightarrow>
        row E s (mod_key (mod_key_len P) P i plen) m \<longrightarrow> mods s m = Some e \<longrightarrow> next_addr s \<le> m + n \<longrightarrow>
        (\<exists>t. mod_unload n E fname i plen s = Some (XY_OK, t) \<and> post E s t {m} \<and>
           (\<forall>k q. row E t k q \<longleftrightarrow> row E s k q \<and> \<not> falls E s m q)))"

lemma set_err_post:
  assumes inv: "unload_inv E s" and mem: "never_oom E"
  shows "post E s (set_err x s) C" "row E (set_err x s) = row E s"
proof -
  have tab: "tbl_get E (set_err x s) = tbl_get E s" "tbl_single E (set_err x s) = tbl_single E s"
    by (rule tbl_get_cong tbl_single_cong, simp add: set_err_def)+
  have fr: "mods (set_err x s) = mods s" "xy_rt (set_err x s) = xy_rt s" "next_addr (set_err x s) = next_addr s" "ctxs (set_err x s) = ctxs s"
    by (simp_all add: set_err_def)
  show row: "row E (set_err x s) = row E s" by (simp add: fun_eq_iff row_def tab fr)
  have "region_wf E (set_err x s) = region_wf E s" by (rule region_wf_cong) (simp_all add: set_err_def)
  moreover have "deny_inv E (set_err x s) = deny_inv E s"
  proof -
    have same: "dset (set_err x s) = dset s" "rt_list (set_err x s) = rt_list s"
      by (simp_all add: fun_eq_iff dset_def rt_list_def set_err_def)
    show ?thesis unfolding deny_inv_def set_agrees_def rt_handles_def same tab ..
  qed
  ultimately have "thinned E s (set_err x s)"
    using inv by (intro unload_inv_thin [OF inv mem]) (auto simp: unload_inv_def tab fr mods_of_set_err kept_same)
  then show "post E s (set_err x s) C" by (auto simp: post_def row fr)
qed

lemma thinned_post: "thinned E s t \<Longrightarrow> post E s t UNIV"
  unfolding post_def using descends_self by blast

lemma thinned_one:
  assumes "thinned E s t"
    and "\<And>k q e. row E s k q \<Longrightarrow> mods s q = Some e \<Longrightarrow> q \<noteq> m \<Longrightarrow> row E t k q \<and> (\<exists>e'. mods t q = Some e' \<and> kept e e')"
  shows "post E s t {m}"
  unfolding post_def using assms descends_self by blast

lemma thinned_trans: "thinned E s t \<Longrightarrow> thinned E t u \<Longrightarrow> thinned E s u"
  using post_trans [OF thinned_post thinned_post] by (auto simp: post_def)

text \<open>One child.\<close>

lemma child_ok:
  assumes E: "env_ok E" "never_oom E" and un: "unloads n E" and inv: "unload_inv E s" and fuel: "next_addr s \<le> Suc (m + n)"
    and c: "row E s (me_mod_key d) c" "mods s c = Some d" "me_parent_entry d = Some m"
  shows "\<exists>u. unload_children (mod_unload n E) (c # cs) s = unload_children (mod_unload n E) cs u \<and> post E s u {c} \<and>
    (\<forall>k q. row E u k q \<longleftrightarrow> row E s k q \<and> \<not> (named E s d \<and> falls E s c q))"
proof -
  have fit: "entry_fit E s c d" "c < next_addr s" by (rule row_fit [OF inv c(1)]; use c(2) in simp)+
  then have mc: "m < c" using c(3) by (auto simp: entry_fit_def)
  show ?thesis
  proof (cases "me_ctx d")
    case None
    then have "\<not> named E s d" by (simp add: named_def)
    with post_refl [OF inv] None c(2) show ?thesis by (intro exI [of _ s]) simp
  next
    case (Some y)
    then obtain x where x: "ctxs s y = Some x" using fit(1) by (auto simp: entry_fit_def)
    show ?thesis
    proof (cases "cx_module_path x")
      case None
      then have "\<not> named E s d" using Some x by (simp add: named_def)
      with post_refl [OF inv] None Some x c(2) show ?thesis by (intro exI [of _ s]) simp
    next
      case path: (Some path)
      show ?thesis
      proof (cases "module_load_path E s path")
        case None
        obtain k where n: "n = Suc k" using mc fit(2) fuel by (cases n) auto
        have nn: "\<not> named E s d" using Some x path None by (simp add: named_def)
        have "mod_unload n E path (me_region_id d) (me_region_plen d) s = Some (XY_ERR_INVALID, set_err XY_ERR_INVALID s)"
          using None by (simp add: n module_lookup_from_fname_def lookup_zero_def err_simps fail_with_def)
        then show ?thesis
          using nn Some x path c(2) set_err_post [OF inv E(2)]
          by (intro exI [of _ "set_err XY_ERR_INVALID s"]) simp
      next
        case P: (Some P)
        have nm: "named E s d" using Some x path P by (simp add: named_def)
        have key: "mod_key (mod_key_len P) P (me_region_id d) (me_region_plen d) = me_mod_key d"
          using fit(1) Some x path P unfolding entry_fit_def by blast
        have "next_addr s \<le> c + n" using fuel mc by simp
        then obtain u where "mod_unload n E path (me_region_id d) (me_region_plen d) s = Some (XY_OK, u)" "post E s u {c}"
            "\<forall>k q. row E u k q \<longleftrightarrow> row E s k q \<and> \<not> falls E s c q"
          using un inv P c(1,2) key unfolding unloads_def by metis
        then show ?thesis using nm Some x path c(2) by (intro exI [of _ u]) simp
      qed
    qed
  qed
qed

text \<open>All the children.\<close>

lemma loop_ok:
  assumes E: "env_ok E" "never_oom E" and un: "unloads n E"
  shows "unload_inv E s \<Longrightarrow> distinct cs \<Longrightarrow>
    (\<forall>c \<in> set cs. \<exists>d. row E s (me_mod_key d) c \<and> mods s c = Some d \<and> me_parent_entry d = Some m) \<Longrightarrow>
    next_addr s \<le> Suc (m + n) \<Longrightarrow>
    \<exists>t. unload_children (mod_unload n E) cs s = Some t \<and> post E s t (set cs) \<and>
      (\<forall>k q. row E t k q \<longleftrightarrow> row E s k q \<and> \<not> (\<exists>c \<in> set cs. \<exists>d. mods s c = Some d \<and> named E s d \<and> falls E s c q))"
proof (induction cs arbitrary: s)
  case (Cons c cs)
  obtain d where c: "row E s (me_mod_key d) c" "mods s c = Some d" "me_parent_entry d = Some m" using Cons.prems(3) by auto
  from child_ok [OF E un Cons.prems(1,4) c, of cs] obtain u where
    u: "unload_children (mod_unload n E) (c # cs) s = unload_children (mod_unload n E) cs u" "post E s u {c}"
      "\<forall>k q. row E u k q \<longleftrightarrow> row E s k q \<and> \<not> (named E s d \<and> falls E s c q)" by blast
  have keep: "row E u k r \<and> (\<exists>e'. mods u r = Some e' \<and> kept e e')"
    if c': "c' \<in> set cs" and r: "descends E s c' r" "row E s k r" "mods s r = Some e" for c' r k e
  proof (rule postD(6) [OF u(2) r(2,3)])
    obtain d' where d': "row E s (me_mod_key d') c'" "mods s c' = Some d'" "me_parent_entry d' = Some m"
      using Cons.prems(3) c' by auto
    have "c \<noteq> c'" using Cons.prems(2) c' by auto
    then have "\<not> descends E s c c'" "\<not> descends E s c' c"
      using siblings_apart [OF Cons.prems(1) c d'] siblings_apart [OF Cons.prems(1) d' c] by blast+
    then show "\<not> descends E s x r" if "x \<in> {c}" for x using that descends_line [OF r(1)] by blast
  qed
  have sib: "\<exists>d d'. row E s (me_mod_key d) c' \<and> mods s c' = Some d \<and> me_parent_entry d = Some m \<and>
      row E u (me_mod_key d') c' \<and> mods u c' = Some d' \<and> kept d d'" if c': "c' \<in> set cs" for c'
  proof -
    obtain d0 where d0: "row E s (me_mod_key d0) c'" "mods s c' = Some d0" "me_parent_entry d0 = Some m"
      using Cons.prems(3) c' by auto
    obtain d1 where d1: "row E u (me_mod_key d0) c'" "mods u c' = Some d1" "kept d0 d1"
      using keep [OF c' descends_self d0(1,2)] by blast
    then have "row E u (me_mod_key d1) c'" using same_identD [OF kept_same [OF d1(3)]] by simp
    with d0 d1 show ?thesis by blast
  qed
  have "\<exists>t. unload_children (mod_unload n E) cs u = Some t \<and> post E u t (set cs) \<and>
      (\<forall>k q. row E t k q \<longleftrightarrow> row E u k q \<and> \<not> (\<exists>c \<in> set cs. \<exists>d. mods u c = Some d \<and> named E u d \<and> falls E u c q))"
  proof (rule Cons.IH)
    show "\<forall>c \<in> set cs. \<exists>d. row E u (me_mod_key d) c \<and> mods u c = Some d \<and> me_parent_entry d = Some m"
    proof
      fix c' assume "c' \<in> set cs"
      from sib [OF this] obtain d d' where "me_parent_entry d = Some m" "row E u (me_mod_key d') c'" "mods u c' = Some d'" "kept d d'" by blast
      then show "\<exists>d. row E u (me_mod_key d) c' \<and> mods u c' = Some d \<and> me_parent_entry d = Some m"
        using same_identD [OF kept_same, of d d'] by auto
    qed
  qed (use Cons.prems postD(1,2) [OF u(2)] in simp_all)
  then obtain t where t: "unload_children (mod_unload n E) cs u = Some t" "post E u t (set cs)"
      "\<forall>k q. row E t k q \<longleftrightarrow> row E u k q \<and> \<not> (\<exists>c \<in> set cs. \<exists>d. mods u c = Some d \<and> named E u d \<and> falls E u c q)" by blast
  have same: "(\<exists>d. mods u c' = Some d \<and> named E u d \<and> falls E u c' q) \<longleftrightarrow> (\<exists>d. mods s c' = Some d \<and> named E s d \<and> falls E s c' q)"
    if c': "c' \<in> set cs" for c' q
  proof -
    from sib [OF c'] obtain d0 d1 where d: "row E s (me_mod_key d0) c'" "mods s c' = Some d0" "mods u c' = Some d1" "kept d0 d1" by blast
    have "falls E u c' q \<longleftrightarrow> falls E s c' q" by (rule falls_same [OF E(2) u(2) d(1,2)]) (rule keep [OF c'])
    moreover have "named E u d1 = named E s d0"
      using named_post [OF E(2) postD(3) [OF u(2)]] same_identD [OF kept_same [OF d(4)]] by blast
    ultimately show ?thesis using d(2,3) by simp
  qed
  have "row E t k q \<longleftrightarrow> row E s k q \<and>
      \<not> (\<exists>c' \<in> set (c # cs). \<exists>d. mods s c' = Some d \<and> named E s d \<and> falls E s c' q)" for k q
    using t(3) u(3) same c(2) by auto
  moreover have "post E s t (set (c # cs))" using post_trans [OF u(2) t(2)] by simp
  ultimately show ?case using t(1) u(1) by (intro exI [of _ t] conjI allI) simp_all
qed (use post_refl in auto)

lemma falls_descends: "falls E s m q \<Longrightarrow> descends E s m q"
proof (induction rule: falls.induct)
  case (falls_child m e d c q)
  then show ?case using descends_trans descends.descends_child [OF descends_self] by metis
qed (rule descends_self)

definition child :: "'h env \<Rightarrow> 'h xy_state \<Rightarrow> mptr \<Rightarrow> mptr \<Rightarrow> xy_mod_entry \<Rightarrow> bool" where
  "child E s m c d \<longleftrightarrow> row E s (me_mod_key d) c \<and> mods s c = Some d \<and> me_parent_entry d = Some m"

lemma child_above: "unload_inv E s \<Longrightarrow> child E s m c d \<Longrightarrow> m < c"
  unfolding child_def by (elim conjE, erule (1) row_fit) (auto simp: entry_fit_def)

lemma child_descends: "child E s m c d \<Longrightarrow> descends E s m c"
  unfolding child_def using descends.descends_child [OF descends_self] by blast

lemma falls_unfold:
  assumes "mods s m = Some e" "me_refcount e \<le> 1"
  shows "falls E s m q \<longleftrightarrow> q = m \<or> (\<exists>c d. child E s m c d \<and> named E s d \<and> falls E s c q)"
proof
  assume "falls E s m q"
  then show "q = m \<or> (\<exists>c d. child E s m c d \<and> named E s d \<and> falls E s c q)"
    by cases (auto simp: child_def)
next
  assume "q = m \<or> (\<exists>c d. child E s m c d \<and> named E s d \<and> falls E s c q)"
  then show "falls E s m q"
    using falls.falls_self [OF assms] falls.falls_child [OF assms] unfolding child_def by blast
qed

text \<open>The decrement changes nothing below the module.\<close>

lemma dec_below:
  assumes inv: "unload_inv E s" and mem: "never_oom E" and m: "mods s m = Some e"
  defines "t \<equiv> upd_mod m (\<lambda>e. e\<lparr>me_refcount := me_refcount e - 1\<rparr>) s"
  shows "post E s t {m}" "child E t m c d \<longleftrightarrow> child E s m c d"
    "child E s m c d \<Longrightarrow> falls E t c q \<longleftrightarrow> falls E s c q" "named E t d \<longleftrightarrow> named E s d"
proof -
  note dec = dec_post [OF inv mem m, folded t_def]
  show p: "post E s t {m}" using thinned_one [OF dec(1)] dec(2,3) kept_refl by auto
  show "named E t d \<longleftrightarrow> named E s d" by (rule named_post [OF mem postD(3) [OF p] refl])
  show "child E t m c d \<longleftrightarrow> child E s m c d"
    using child_above [OF inv, of m c d] child_above [OF postD(1) [OF p], of m c d] by (auto simp: child_def dec(2,3))
  show "falls E t c q \<longleftrightarrow> falls E s c q" if c: "child E s m c d"
  proof (rule falls_same [OF mem p, of "me_mod_key d" c d])
    fix r k e assume r: "descends E s c r" "row E s k r" "mods s r = Some e"
    have "m < r" using child_above [OF inv c] descends_le [OF inv r(1)] by simp
    then show "row E t k r \<and> (\<exists>e'. mods t r = Some e' \<and> kept e e')" using r kept_refl by (auto simp: dec(2,3))
  qed (use c in \<open>simp_all add: child_def\<close>)
qed

text \<open>Releasing the children, and then the module itself, leaves what is not below it.\<close>

lemma remove_below:
  assumes s: "post E s s1 {m}" and u: "post E s1 u C" and C: "\<forall>c \<in> C. descends E s m c"
    and t: "thinned E u t" "\<forall>k q. row E t k q \<longleftrightarrow> row E u k q \<and> q \<noteq> m"
      "\<forall>q e. q \<noteq> m \<longrightarrow> mods u q = Some e \<longrightarrow> (\<exists>e'. mods t q = Some e' \<and> kept e e')"
  shows "post E s t {m}"
proof -
  have "post E u t {m}" using thinned_one [OF t(1)] t(2,3) by blast
  from post_trans [OF post_trans [OF s u] this] show ?thesis
    by (rule post_mono) (use C descends_self in blast)
qed

text \<open>Every unload comes back, by induction on the fuel.\<close>

lemma unloads_step:
  fixes E :: "'h env"
  assumes E: "env_ok E" "never_oom E" and un: "unloads n E"
  shows "unloads (Suc n) E"
  unfolding unloads_def
proof (intro allI impI)
  fix s :: "'h xy_state" and fname i plen P m e
  let ?key = "mod_key (mod_key_len P) P i plen" and ?s = "upd_mod m (\<lambda>e. e\<lparr>me_refcount := me_refcount e - 1\<rparr>) s"
  assume inv: "unload_inv E s" and P: "module_load_path E s fname = Some P" and m: "row E s ?key m" "mods s m = Some e"
    and fuel: "next_addr s \<le> m + Suc n"
  have look: "module_lookup_from_fname E fname i plen s =
      \<lparr>lr_entry = Some m, lr_key = Some ?key, lr_load_path = Some P, lr_err = XY_OK\<rparr>"
    using m(1) by (simp add: lookup_found [OF E(2) P] row_def)
  have wr: "wr_mod m (\<lambda>e. e\<lparr>me_refcount := me_refcount e - 1\<rparr>) s = Some ?s" using m(2) by (simp add: wr_mod_def)
  note dec = dec_post [OF inv E(2) m(2)] and below = dec_below [OF inv E(2) m(2)]
  show "\<exists>t. mod_unload (Suc n) E fname i plen s = Some (XY_OK, t) \<and> post E s t {m} \<and>
      (\<forall>k q. row E t k q \<longleftrightarrow> row E s k q \<and> \<not> falls E s m q)"
  proof (cases "1 < me_refcount e")
    case True
    have "mod_unload (Suc n) E fname i plen s = Some (XY_OK, ?s)" using True by (simp add: look wr dec(3) del: fun_upd_apply) simp
    moreover have "\<not> falls E s m q" for q using True m(2) by (auto elim: falls.cases)
    ultimately show ?thesis using below(1) dec(2) by (intro exI [of _ ?s]) simp
  next
    case False
    note inv1 = postD(1,2) [OF below(1)]
    obtain cs where cs: "children_of ?s m (tbl_iter E ?s (mod_hd (xy_rt ?s))) = Some cs" "distinct cs"
      "\<And>c. c \<in> set cs \<longleftrightarrow> (\<exists>d. row E ?s (me_mod_key d) c \<and> mods ?s c = Some d \<and> me_parent_entry d = Some m)"
      by (rule children_rows [OF E(1) inv1(1), of m]) (rule that)
    have ch: "c \<in> set cs \<longleftrightarrow> (\<exists>d. child E s m c d)" for c
      unfolding cs(3) by (simp only: child_def [symmetric] below(2))
    from loop_ok [OF E un inv1(1) cs(2), of m] cs(3) fuel inv1(2) obtain u where
      u: "unload_children (mod_unload n E) cs ?s = Some u" "post E ?s u (set cs)"
        "\<forall>k q. row E u k q \<longleftrightarrow> row E ?s k q \<and> \<not> (\<exists>c \<in> set cs. \<exists>d. mods ?s c = Some d \<and> named E ?s d \<and> falls E ?s c q)" by auto
    have gone: "(\<exists>c \<in> set cs. \<exists>d. mods ?s c = Some d \<and> named E ?s d \<and> falls E ?s c q) \<longleftrightarrow>
        (\<exists>c d. child E s m c d \<and> named E s d \<and> falls E s c q)" for q
    proof -
      have "c \<in> set cs \<and> (\<exists>d. mods ?s c = Some d \<and> named E ?s d \<and> falls E ?s c q) \<longleftrightarrow>
          (\<exists>d. child E s m c d \<and> named E s d \<and> falls E s c q)" for c
      proof (cases "\<exists>d. child E s m c d")
        case True
        then obtain d where d: "child E s m c d" by blast
        then have "mods ?s c = Some d" "child E s m c d' \<longleftrightarrow> d' = d" for d'
          using below(2) [of c d] by (auto simp: child_def)
        then show ?thesis using True by (simp add: ch below(3) [OF d] below(4))
      qed (simp add: ch)
      then show ?thesis by blast
    qed
    have "\<not> falls E s c m" if "child E s m c d" for c d
      using falls_descends [of E s c m] descends_le [OF inv, of c m] child_above [OF inv that] by auto
    then have "row E u ?key m" using u(3) m(1) by (auto simp: gone dec(2))
    from remove_post [OF E postD(1) [OF u(2)] this] obtain t where t: "mod_remove E m u = Some t" "thinned E u t"
      "\<forall>k q. row E t k q \<longleftrightarrow> row E u k q \<and> q \<noteq> m" "\<forall>q e. q \<noteq> m \<longrightarrow> mods u q = Some e \<longrightarrow> (\<exists>e'. mods t q = Some e' \<and> kept e e')"
      by blast
    have "mod_unload (Suc n) E fname i plen s = Some (XY_OK, t)"
      using False cs(1) u(1) t(1) by (simp add: look wr dec(3))
    moreover have "post E s t {m}"
      by (rule remove_below [OF below(1) u(2) _ t(2-4)]) (use ch child_descends in blast)
    moreover have "row E t k q \<longleftrightarrow> row E s k q \<and> \<not> falls E s m q" for k q
      using False t(3) u(3) unfolding gone dec(2) by (auto simp: falls_unfold [OF m(2)])
    ultimately show ?thesis by blast
  qed
qed

lemma unloads_all:
  fixes E :: "'h env"
  assumes E: "env_ok E" "never_oom E"
  shows "unloads n E"
proof (induction n)
  case 0
  have False if "unload_inv E s" "row E s key m" "next_addr s \<le> m" for s :: "'h xy_state" and key m
    using row_fit [OF that(1,2)] that(3) by (metis not_less)
  then show ?case unfolding unloads_def by (metis add_0_right)
next
  case (Suc n)
  then show ?case by (rule unloads_step [OF E])
qed

text \<open>
  C7. An unload always comes back, and takes down exactly what it should. Under the invariant
  of the loaded modules, \<^verbatim>\<open>xy_unload\<close> of a module that is listed returns \<^const>\<open>XY_OK\<close>: the
  recursion through the children of children ends, each round having released one address
  more. Out of the table of modules go the module, if this was its last reference, and with it
  the modules it has loaded that are held once and have a name to be found by, and so on down;
  nothing else goes. The entries that are not below the module keep their place, their reference
  counts and all but their links and their symbol caches (an entry that holds the object of an
  unloaded one loses that object's symbols); and the invariant holds again. The invariant leaves out modules
  with per-region state or with a temporary copy of their file.
\<close>

theorem unload_cascade:
  assumes E: "env_ok E" "never_oom E" and rd: "ready E s" and inv: "unload_inv E s"
    and path: "module_load_path E s fname = Some P" and plen: "region_current_plen s = Some plen"
    and m: "row E s (mod_key (mod_key_len P) P (xy_current_region_id s) plen) m"
  shows "\<exists>t. xy_unload E fname s = Some (XY_OK, t) \<and> unload_inv E t \<and>
    (\<forall>k q. row E t k q \<longleftrightarrow> row E s k q \<and> \<not> falls E s m q) \<and>
    (\<forall>k q e. row E s k q \<longrightarrow> mods s q = Some e \<longrightarrow> \<not> descends E s m q \<longrightarrow> (\<exists>e'. mods t q = Some e' \<and> kept e e'))"
proof -
  obtain e where e: "mods s m = Some e" by (rule row_fit [OF inv m])
  have "next_addr s \<le> m + link_fuel s" by (simp add: link_fuel_def)
  with unloads_all [OF E, of "link_fuel s"] inv path m e obtain t where
    t: "mod_unload (link_fuel s) E fname (xy_current_region_id s) plen s = Some (XY_OK, t)" "post E s t {m}"
      "\<forall>k q. row E t k q \<longleftrightarrow> row E s k q \<and> \<not> falls E s m q" unfolding unloads_def by blast
  have "xy_unload E fname s = Some (XY_OK, set_err XY_OK t)"
    using t(1) plen by (simp add: xy_unload_def ensure_ready [OF rd] fail_with_def)
  moreover note err = set_err_post [OF postD(1) [OF t(2)] E(2), of XY_OK]
  moreover have "\<exists>e'. mods (set_err XY_OK t) q = Some e' \<and> kept e0 e'"
    if "row E s k q" "mods s q = Some e0" "\<not> descends E s m q" for k q e0
    using postD(6) [OF t(2) that(1,2)] that(3) by (auto simp: set_err_def)
  ultimately show ?thesis using t(3) postD(1) [OF err(1)] err(2) by auto
qed


text \<open>A host with two modules in its root region: the second was loaded by the first.\<close>

definition demo_pair :: "alist_corm xy_state" where
  "demo_pair = demo_boot\<lparr>
     regions := [1 \<mapsto> region_zero\<lparr>re_id := XY_REGION_ROOT, re_dispatch_gen := 1, re_mods_head := Some 10, re_mods_tail := Some 11\<rparr>],
     ctxs := [20 \<mapsto> xy_t_zero\<lparr>cx_module_path := Some ''mods/b''\<rparr>], paths := [30 \<mapsto> ''mods/a.so'', 31 \<mapsto> ''mods/b.so''],
     mods := [10 \<mapsto> mod_zero\<lparr>me_load_path := Some 30, me_handle := Some 5, me_refcount := 1, me_region_entry := Some 1,
                me_mod_key := mod_key (mod_key_len ''mods/a.so'') ''mods/a.so'' 0 0, me_region_next := Some 11\<rparr>,
              11 \<mapsto> mod_zero\<lparr>me_load_path := Some 31, me_handle := Some 6, me_refcount := 1, me_region_entry := Some 1,
                me_mod_key := mod_key (mod_key_len ''mods/b.so'') ''mods/b.so'' 0 0, me_region_prev := Some 10,
                me_parent_entry := Some 10, me_ctx := Some 20\<rparr>],
     next_addr := 50,
     st_corm := (st_corm demo_boot)\<lparr>ac_rows := (ac_rows (st_corm demo_boot))(4 :=
       [(KStr (mod_key (mod_key_len ''mods/a.so'') ''mods/a.so'' 0 0), VPtr 10),
        (KStr (mod_key (mod_key_len ''mods/b.so'') ''mods/b.so'' 0 0), VPtr 11)])\<rparr>\<rparr>"

lemma demo_pair_keys:
  "mod_key (mod_key_len ''mods/a.so'') ''mods/a.so'' 0 0 \<noteq> mod_key (mod_key_len ''mods/b.so'') ''mods/b.so'' 0 0"
  by (subst mod_key_eq_iff) (simp_all add: NUL_def)

lemma demo_pair_tables:
  "tbl_single demo_env demo_pair d \<longleftrightarrow> d \<in> {1, 2, 3, 4, 6}"
  "tbl_get demo_env demo_pair d k =
     (if d = 4 \<and> k = KStr (mod_key (mod_key_len ''mods/a.so'') ''mods/a.so'' 0 0) then Some (VPtr 10)
      else if d = 4 \<and> k = KStr (mod_key (mod_key_len ''mods/b.so'') ''mods/b.so'' 0 0) then Some (VPtr 11)
      else if d = 6 \<and> k = KRegion root_key then Some (VPtr 1) else None)"
  by (auto simp: tbl_single_def tbl_get_def demo_env_def demo_pair_def demo_boot_corm list_corm_def)

lemma demo_pair_path: "module_load_path demo_env demo_pair fname = Some (fname @ ''.so'')"
  by (simp add: module_load_path_def demo_env_def Let_def)

lemma demo_pair_mods: "mods_of demo_pair 1 [10, 11]"
  by (simp add: mods_of_def mod_next_def mod_prev_def mod_region_def demo_pair_def mod_zero_def)

lemma demo_pair_key: "r_key demo_pair = [1 \<mapsto> root_key]"
  by (auto simp: fun_eq_iff r_key_def demo_pair_def region_zero_def key_of_def region_key_def root_key_def)

lemma demo_pair_ready: "ready demo_env demo_pair"
proof -
  have "r_parent demo_pair = r_parent demo_boot" "r_depth demo_pair = r_depth demo_boot" "r_head demo_pair = r_head demo_boot"
    "sib_next demo_pair = sib_next demo_boot" "r_key demo_pair = r_key demo_boot" "r_gen demo_pair = r_gen demo_boot"
    by (simp_all add: fun_eq_iff r_parent_def r_depth_def r_head_def sib_next_def r_key_def r_gen_def demo_pair_def demo_boot_regions
        region_zero_def key_of_def)
  moreover have "next_addr demo_boot \<le> next_addr demo_pair" by (simp add: demo_pair_def demo_boot_corm)
  ultimately have "tree_wf demo_pair" "\<forall>p. r_gen demo_pair p \<noteq> Some 0"
    using demo_boot_ready(1) by (auto simp: ready_def region_wf_def tree_wf_def dest: order.strict_trans2)
  moreover have "table_wf demo_env demo_pair"
    unfolding table_wf_def demo_pair_key demo_pair_tables by (auto simp: demo_pair_def demo_boot_corm)
  moreover have "current_wf demo_pair"
    unfolding current_wf_def demo_pair_key
    by (simp add: demo_pair_def demo_boot_fields root_key_def XY_REGION_ROOT_def)
  ultimately show ?thesis by (simp add: ready_def region_wf_def demo_pair_def demo_boot_corm)
qed

lemma demo_pair_inv: "unload_inv demo_env demo_pair"
proof -
  have ds: "dset demo_pair p b = (if p = 1 then Some (0, {}) else None)" for p b
    by (simp add: dset_def demo_pair_def deny_set_def region_zero_def)
  have hd: "mod_hd (xy_rt demo_pair) = 4" "mod_by_region_hd (xy_rt demo_pair) = 5"
    by (simp_all add: demo_pair_def demo_boot_corm)
  have "deny_inv demo_env demo_pair"
    by (auto simp: deny_inv_def set_agrees_def rt_handles_def rt_list_def demo_pair_tables ds Let_def split: if_splits)
       (simp_all add: demo_pair_def demo_boot_corm)
  moreover have "entry_fit demo_env demo_pair m e" if "mods demo_pair m = Some e" for m e
  proof -
    have "m = 10 \<or> m = 11" using that by (auto simp: demo_pair_def split: if_splits)
    moreover from demo_pair_mods have "\<exists>p xs ys. mods_of demo_pair p (xs @ 10 # ys)" "\<exists>p xs ys. mods_of demo_pair p (xs @ 11 # ys)"
      by (metis append_Cons append_Nil)+
    ultimately show ?thesis
      using that by (auto simp: entry_fit_def demo_pair_path) (auto simp: demo_pair_def mod_zero_def)
  qed
  moreover have "\<exists>m e. k = KStr (me_mod_key e) \<and> v = VPtr m \<and> mods demo_pair m = Some e \<and> m < next_addr demo_pair"
    if "tbl_get demo_env demo_pair 4 k = Some v" for k v
    using that unfolding demo_pair_tables by (auto split: if_splits) (simp_all add: demo_pair_def)
  ultimately show ?thesis
    using demo_pair_ready by (simp add: unload_inv_def hd demo_pair_tables(1) ready_def) blast
qed

theorem unload_cascade_witness:
  "\<exists>t. xy_unload demo_env ''mods/a'' demo_pair = Some (XY_OK, t) \<and> (\<forall>k q. \<not> row demo_env t k q)"
proof -
  let ?a = "mod_key (mod_key_len ''mods/a.so'') ''mods/a.so'' 0 0" and ?b = "mod_key (mod_key_len ''mods/b.so'') ''mods/b.so'' 0 0"
  have f: "module_load_path demo_env demo_pair ''mods/a'' = Some ''mods/a.so''" "region_current_plen demo_pair = Some 0"
    "xy_current_region_id demo_pair = 0"
    using demo_pair_path [of "''mods/a''"] by (simp_all add: region_current_plen_def demo_boot_fields demo_pair_def region_zero_def)
  have row: "row demo_env demo_pair k q \<longleftrightarrow> (k = ?a \<and> q = 10) \<or> (k = ?b \<and> q = 11)" for k q
    using demo_pair_keys unfolding row_def demo_pair_tables by (auto simp: demo_pair_def demo_boot_corm)
  have m: "mods demo_pair 10 \<noteq> None" "me_refcount (the (mods demo_pair 10)) = 1" "mods demo_pair 11 \<noteq> None"
    "me_refcount (the (mods demo_pair 11)) = 1" "me_mod_key (the (mods demo_pair 11)) = ?b" "me_parent_entry (the (mods demo_pair 11)) = Some 10"
    "named demo_env demo_pair (the (mods demo_pair 11))"
    by (simp_all add: demo_pair_def named_def module_load_path_def demo_env_def Let_def)
  obtain e d where e: "mods demo_pair 10 = Some e" "me_refcount e \<le> 1"
    and d: "mods demo_pair 11 = Some d" "me_refcount d \<le> 1" "me_mod_key d = ?b" "me_parent_entry d = Some 10" "named demo_env demo_pair d"
    using m by auto
  have "falls demo_env demo_pair 11 11" by (rule falls_self [OF d(1,2)])
  moreover have "row demo_env demo_pair (me_mod_key d) 11" by (simp add: row d(3))
  ultimately have "falls demo_env demo_pair 10 11" by (intro falls_child [OF e _ d(1,4,5)])
  moreover have "falls demo_env demo_pair 10 10" by (rule falls_self [OF e])
  ultimately have down: "falls demo_env demo_pair 10 q" if "row demo_env demo_pair k q" for k q
    using that unfolding row by auto
  have "row demo_env demo_pair (mod_key (mod_key_len ''mods/a.so'') ''mods/a.so'' (xy_current_region_id demo_pair) 0) 10"
    by (simp add: row f(3))
  from unload_cascade [OF demo_env_ok demo_never_oom demo_pair_ready demo_pair_inv f(1,2) this] obtain t where
    "xy_unload demo_env ''mods/a'' demo_pair = Some (XY_OK, t)"
    "\<forall>k q. row demo_env t k q \<longleftrightarrow> row demo_env demo_pair k q \<and> \<not> falls demo_env demo_pair 10 q" by (elim exE conjE) (rule that)
  with down show ?thesis by blast
qed

end
