(* ===== verification/Xy_Lifecycle.thy ===== *)
theory Xy_Lifecycle
  imports Xy_Cascade
begin

text \<open>
  Loads keep the invariant that unloads need: a host that only loads modules and unloads them can
  always unload the next one.
\<close>

lemma relinked_same: "relinked e e' \<Longrightarrow> me_ctx e' = me_ctx e \<and> me_parent_entry e' = me_parent_entry e \<and> me_mod_key e' = me_mod_key e \<and>
    me_region_id e' = me_region_id e \<and> me_region_plen e' = me_region_plen e \<and> me_load_path e' = me_load_path e \<and>
    me_region_state e' = me_region_state e \<and> me_handle e' = me_handle e \<and> me_tmp_load_path e' = me_tmp_load_path e"
  by (auto simp: relinked_def)

text \<open>The entry of a loaded module, and the entries that were there.\<close>

lemma entry_fit_new:
  assumes mem: "never_oom E" and one: "held_once e key x h" and ms: "mods_of t p (ms @ [m])"
    and c: "me_ctx e = c" "good_ctx E h cs c" "ctxs t = bind_ctx fname i c cs"
    and par: "\<And>x. me_parent_entry e = Some x \<Longrightarrow> x < m" and path: "module_load_path E s fname = Some path"
    and key: "key = mod_key (mod_key_len path) path (me_region_id e) (me_region_plen e)"
  shows "entry_fit E t m e"
proof -
  have "module_load_path E t fname = Some path" using path load_path_same [OF mem] by metis
  moreover have "\<exists>p xs ys. mods_of t p (xs @ m # ys)" using ms by blast
  moreover have "ctxs t y \<noteq> None" "\<And>z. ctxs t y = Some z \<Longrightarrow> cx_module_path z = Some fname" if "c = Some y" for y
    using c that by (auto simp: good_ctx_def bind_ctx_def bound_def)
  ultimately show ?thesis
    using one par key c(1) unfolding entry_fit_def held_once_def by force
qed

lemma entry_fit_old:
  assumes mem: "never_oom E" and fit: "entry_fit E s q e" and e': "relinked e e'"
    and ctx: "\<And>y. me_ctx e = Some y \<Longrightarrow> ctxs t y = ctxs s y"
    and lst: "\<And>p xs ys. mods_of s p (xs @ q # ys) \<Longrightarrow> \<exists>p xs ys. mods_of t p (xs @ q # ys)"
  shows "entry_fit E t q e'"
proof -
  note same = relinked_same [OF e']
  have path: "module_load_path E t f = module_load_path E s f" for f by (rule load_path_same [OF mem])
  show ?thesis
    using fit ctx same lst unfolding entry_fit_def path by (auto 0 3)
qed

text \<open>
  C13. A load keeps the invariant that unloads need. When \<^verbatim>\<open>xy_load\<close> takes in a file that is not
  loaded yet, from a state with the invariant, it returns \<^const>\<open>XY_OK\<close> in a state that has it again:
  every listed module still is in a region's list, was allocated after its parent, and is found
  under its own name. This is of a module that has a context of its own, and whose opening leaves
  the contexts of the listed modules alone; \<open>xy_loading_mod\<close>, if it is set, is an entry that exists.
\<close>

theorem load_keeps_unload_inv:
  assumes E: "env_ok E" "never_oom E" and wf: "load_ready E s" and inv: "unload_inv E s"
    and fr: "fresh_file E s fname path key h cs pc" and plain: "plain_module E h"
    and c: "module_ctx E (Some h) (s\<lparr>xy_pending_ctx := pc\<rparr>) = c" "good_ctx E h cs c"
    and p: "xy_current_region_entry s = Some p" "regions s p = Some r" "\<not> re_require_claim r" and ms: "mods_of s p ms"
    and par: "\<forall>x. xy_loading_mod s = Some x \<longrightarrow> x < next_addr s"
    and others: "\<forall>k q e y. row E s k q \<longrightarrow> mods s q = Some e \<longrightarrow> me_ctx e = Some y \<longrightarrow> c \<noteq> Some y \<and> cs y = ctxs s y"
  shows "\<exists>t m. xy_load E fname s = Some (XY_OK, t) \<and> load_ready E t \<and> unload_inv E t \<and>
    (\<forall>k q. row E t k q \<longleftrightarrow> row E s k q \<or> (k = key \<and> q = m)) \<and> (\<forall>k. \<not> row E s k m)"
proof -
  from load_effects [OF E wf fr plain c p ms] obtain t m e x where
    t: "xy_load E fname s = Some (XY_OK, t)" "mods s m = None" "mods t m = Some e" "region_current_plen s = Some (me_region_plen e)"
      "tbl_get E t (mod_hd (xy_rt s)) = (tbl_get E s (mod_hd (xy_rt s)))(KStr key \<mapsto> VPtr m)" "mods_of t p (ms @ [m])" "load_ready E t"
      "xy_rt t = (xy_rt s)\<lparr>xy_mod_count := xy_mod_count (xy_rt s) + 1\<rparr>" "me_region_id e = xy_current_region_id s"
      "me_ctx e = c" "ctxs t = bind_ctx fname (xy_current_region_id s) c cs" "me_parent_entry e = xy_loading_mod s"
    and t': "held_once e key x h" "dset t = dset s" "tbl_single E t = tbl_single E s"
      "\<forall>d. tbl_single E s d \<longrightarrow> d \<notin> {mod_hd (xy_rt s), path_intern_hd (xy_rt s)} \<longrightarrow> tbl_get E t d = tbl_get E s d"
      "\<forall>q ns. q \<noteq> p \<longrightarrow> mods_of s q ns \<longrightarrow> mods_of t q ns" "next_addr s \<le> m"
      "\<forall>q. q \<noteq> m \<longrightarrow> (mods t q = None \<longleftrightarrow> mods s q = None)"
      "\<forall>q e'. q \<noteq> m \<longrightarrow> mods t q = Some e' \<longrightarrow> (\<exists>e0. mods s q = Some e0 \<and> relinked_in e0 e')"
    by (elim exE conjE) (rule that)
  have hd: "mod_hd (xy_rt t) = mod_hd (xy_rt s)" using t(8) by simp
  have f: "module_load_path E s fname = Some path" "key = mod_key (mod_key_len path) path (me_region_id e) (me_region_plen e)"
    "tbl_get E s (mod_hd (xy_rt s)) (KStr key) = None"
    using fr t(4,9) by (auto simp: fresh_file_def)
  have rows: "row E t k q \<longleftrightarrow> row E s k q \<or> (k = key \<and> q = m)" for k q
    using f(3) by (auto simp: row_def hd t(5))
  have lst: "\<exists>p xs ys. mods_of t p (xs @ q # ys)" if "mods_of s p' (xs @ q # ys)" for p' q xs ys
  proof (cases "p' = p")
    case True
    then have "ms = xs @ q # ys" using that ms mods_of_unique by blast
    with t(6) show ?thesis by (metis append_Cons append_assoc)
  qed (use t'(5) that in blast)
  have fit: "\<exists>e'. mods t q = Some e' \<and> me_mod_key e' = k \<and> q < next_addr t \<and> entry_fit E t q e'" if q: "row E t k q" for k q
  proof (cases "q = m")
    case True
    have "entry_fit E t m e"
      by (rule entry_fit_new [OF E(2) t'(1) t(6,10) c(2) t(11) _ f(1,2)]) (use par t(12) t'(6) in \<open>auto dest: order.strict_trans2\<close>)
    moreover have "k = key" using q True rows row_fit [OF inv, of k m] t(2) by force
    ultimately show ?thesis using t(3,7) t'(1) True by (auto simp: held_once_def load_ready_def mods_wf_def)
  next
    case False
    then have r: "row E s k q" using q rows by blast
    then obtain e0 where e0: "mods s q = Some e0" "me_mod_key e0 = k" "entry_fit E s q e0" using row_fit [OF inv r] by metis
    then obtain e' where e': "mods t q = Some e'" "relinked e0 e'" using t'(7,8) False by (force simp: relinked_in_def)
    have "ctxs t y = ctxs s y" if "me_ctx e0 = Some y" for y
      using others r e0(1) that by (auto simp: t(11) bind_ctx_def split: option.split)
    then have "entry_fit E t q e'" by (rule entry_fit_old [OF E(2) e0(3) e'(2)]) (use lst in blast)+
    moreover have "q < next_addr t" using t(7) e'(1) by (auto simp: load_ready_def mods_wf_def)
    ultimately show ?thesis using e' e0(2) relinked_same by metis
  qed
  have iv: "deny_inv E s" using inv by (simp add: unload_inv_def)
  have "\<exists>q e. k = KStr (me_mod_key e) \<and> v = VPtr q \<and> mods t q = Some e \<and> q < next_addr t \<and> entry_fit E t q e"
    if kv: "tbl_get E t (mod_hd (xy_rt t)) k = Some v" for k v
  proof -
    have "\<exists>k' q. k = KStr k' \<and> v = VPtr q"
      using kv inv unfolding unload_inv_def by (auto simp: hd t(5) split: if_splits)
    then obtain k' q where "k = KStr k'" "v = VPtr q" by blast
    with kv fit [of k' q] show ?thesis by (auto simp: row_def)
  qed
  moreover have "region_wf E t" "\<not> tbl_single E t (mod_by_region_hd (xy_rt t))" using t(7) by (simp_all add: load_ready_def ready_def)
  moreover have "deny_inv E t" by (rule deny_inv_loaded [OF iv t'(2) t(8) t'(3,4)])
  ultimately have "unload_inv E t" unfolding unload_inv_def by blast
  moreover have "\<not> row E s k m" for k using row_fit [OF inv, of k m] t(2) by force
  ultimately show ?thesis using t(1,7) rows by blast
qed

text \<open>The demo process starts with the invariant, and loads its module.\<close>

lemma demo_boot_row: "\<not> row (demo_linker abi) demo_boot k q"
  by (simp add: row_def demo_linker_tables tbl_get_def demo_env_def demo_boot_corm list_corm_def)

lemma demo_boot_inv: "unload_inv (demo_linker abi) demo_boot"
proof -
  have "tbl_get (demo_linker abi) demo_boot (mod_hd (xy_rt demo_boot)) k = None" for k
    by (simp add: demo_linker_tables tbl_get_def demo_env_def demo_boot_corm list_corm_def)
  with demo_linker_ready [of abi] demo_linker_deny(1) [of abi] show ?thesis
    by (simp add: unload_inv_def load_ready_def ready_def)
qed

theorem load_keeps_unload_inv_witness:
  "\<exists>t k m. xy_load (demo_linker True) ''mods/a'' demo_boot = Some (XY_OK, t) \<and> unload_inv (demo_linker True) t \<and>
     row (demo_linker True) t k m"
proof -
  have idle: "xy_loading_mod demo_boot = None"
    by (simp add: demo_boot_def xy_runtime_bootstrap_def demo_start_def open_table_def tbl_open_def region_ensure_root_def
        region_lookup_def demo_env_def list_corm_def upd_rt_def tbl_get_def new_region_def tbl_put_def set_current_region_def
        region_current_plen_def region_zero_def)
  from load_keeps_unload_inv [OF demo_linker_ok demo_linker_ready demo_boot_inv demo_fresh_file demo_plain demo_ctx
      demo_good_ctx demo_boot_current] idle demo_boot_row obtain t m where
    "xy_load (demo_linker True) ''mods/a'' demo_boot = Some (XY_OK, t)" "unload_inv (demo_linker True) t"
    "\<forall>k q. row (demo_linker True) t k q \<longleftrightarrow> row (demo_linker True) demo_boot k q \<or>
       (k = mod_key (mod_key_len ''mods/a.so'') ''mods/a.so'' 0 0 \<and> q = m)" by auto
  then show ?thesis by (intro exI [of _ t] exI [of _ "mod_key (mod_key_len ''mods/a.so'') ''mods/a.so'' 0 0"] exI [of _ m]) simp
qed

end
