(* ===== verification/Xy_Load_Claim.thy ===== *)
theory Xy_Load_Claim
  imports Xy_Unload
begin

text \<open>
  A load that claims: a module with an \<^verbatim>\<open>xy_claim\<close> symbol gets a child region of its own, and is
  renamed and entered there.
\<close>

section \<open>A new region for the lists\<close>

lemma attach_loads:
  assumes E: "env_ok E" and wf: "load_ready E t" and p: "regions t p = Some r"
    and k: "key_of r < key_of ch" "canonical (key_of ch)" "\<And>q. r_key t q \<noteq> Some (key_of ch)"
    and ch: "re_parent ch = Some p" "re_children_head ch = None" "re_depth ch = re_depth r + 1" "re_dispatch_gen ch \<noteq> 0"
      "re_mods_head ch = None" "re_mods_tail ch = None"
  shows "\<exists>v. attach_region E p ch t = Some (next_addr t, v) \<and>
     v = t\<lparr>regions := regions v, st_corm := st_corm v, next_addr := Suc (next_addr t)\<rparr> \<and> load_ready E v \<and>
     r_key v = (r_key t)(next_addr t \<mapsto> key_of ch) \<and> r_parent v = (r_parent t)(next_addr t \<mapsto> Some p) \<and>
     mods_of v (next_addr t) [] \<and> (\<forall>q ns. mods_of t q ns \<longrightarrow> mods_of v q ns) \<and> tbl_single E v = tbl_single E t \<and>
     (\<forall>d. tbl_single E t d \<longrightarrow> d \<noteq> region_hd (xy_rt t) \<longrightarrow> tbl_get E v d = tbl_get E t d) \<and>
     (\<forall>q. q \<noteq> next_addr t \<longrightarrow> dset v q = dset t q)"
proof -
  note w = wf [unfolded load_ready_def]
  let ?c = "next_addr t" and ?l = "linked E p r ch t" and ?f = "\<lambda>r. mark_dirty (bump_gen r)"
  have rw: "region_wf E t" "tree_wf t" using w by (simp_all add: ready_def region_wf_def)
  note fresh = fresh_region [OF rw(2)]
  have kp: "r_key t p = Some (key_of r)" "r_depth t p = Some (re_depth r)" using p by (simp_all add: r_key_def r_depth_def)
  define v where "v = upd_regs (set (ancestors ?l p)) ?f ?l"
  have att: "attach_region E p ch t = Some (?c, v)"
    unfolding v_def using attach_exact [OF rw(2) linked_tree_wf [OF rw(2) p kp(2) k(1,2) ch(1-3)] p] .
  have v: "region_wf E v" "r_key v = (r_key t)(?c \<mapsto> key_of ch)" "r_parent v = (r_parent t)(?c \<mapsto> Some p)"
    using attach_region_wf [OF E rw(1) kp k ch(1-4)] att by auto
  have lr: "?l = t\<lparr>regions := regions ?l, st_corm := st_corm ?l, next_addr := Suc ?c\<rparr>"
    by (simp add: linked_def upd_reg_def tbl_put_def)
  have eq: "v = t\<lparr>regions := regions v, st_corm := st_corm v, next_addr := Suc ?c\<rparr>"
    unfolding v_def upd_regs_def by (subst lr) simp
  have f: "xy_rt v = xy_rt t" "mods v = mods t" "paths v = paths t" "next_addr v = Suc ?c"
    "xy_current_region_entry v = xy_current_region_entry t" "xy_current_region_id v = xy_current_region_id t"
    by (subst eq, simp)+
  let ?put = "tbl_put E (region_hd (xy_rt t)) (KRegion (key_of ch)) (VPtr ?c) t"
  have corm: "st_corm v = st_corm ?put" by (simp add: v_def upd_regs_def linked_def upd_reg_def tbl_put_def)
  have tab: "tbl_get E v = tbl_get E ?put" "tbl_single E v = tbl_single E ?put"
    by (rule tbl_get_cong [OF corm]) (rule tbl_single_cong [OF corm])
  have sg: "tbl_single E v = tbl_single E t" by (simp add: tab fun_eq_iff tbl_single_put [OF E])
  have keep: "tbl_get E v d = tbl_get E t d" if "tbl_single E t d" "d \<noteq> region_hd (xy_rt t)" for d
    using that by (simp add: tab fun_eq_iff tbl_get_put [OF E])
  have ends: "map_option (\<lambda>r. (re_mods_head r, re_mods_tail r)) (regions v q) =
      (if q = ?c then Some (None, None) else map_option (\<lambda>r. (re_mods_head r, re_mods_tail r)) (regions t q))" for q
    using p fresh ch(5,6)
    by (cases "regions t q") (auto simp: v_def upd_regs_def linked_regions [OF fresh p] mark_dirty_def bump_gen_def Let_def)
  have ds: "dset v q = dset t q" if "q \<noteq> ?c" for q
    using that p
    by (cases "regions t q") (auto simp: fun_eq_iff dset_def deny_set_def v_def upd_regs_def linked_regions [OF fresh p] mark_dirty_def bump_gen_def Let_def)
  have links: "mod_next v = mod_next t" "mod_prev v = mod_prev t" "mod_region v = mod_region t"
    by (simp_all add: fun_eq_iff mod_next_def mod_prev_def mod_region_def f)
  have lists: "mods_of v q ns" if q: "mods_of t q ns" for q ns
  proof -
    have "q \<noteq> ?c" using q fresh unfolding mods_of_def by auto
    then show ?thesis using q mods_of_links [OF links, of q ns] ends [of q] by simp
  qed
  have empty: "mods_of v ?c []" using ends [of ?c] by (auto simp: mods_of_def)
  have "load_ready E v"
  proof (rule load_readyI [OF wf v(1) _ _ sg])
    show "xy_rt v = (xy_rt t)\<lparr>xy_mod_count := xy_mod_count (xy_rt t)\<rparr>" by (simp add: f)
    show "current_wf v" using w v(2) fresh by (auto simp: ready_def current_wf_def f r_key_def)
    have "\<exists>ns. mods_of v q ns" if "regions v q \<noteq> None" for q
    proof (cases "q = ?c")
      case False
      then have "regions t q \<noteq> None" using that ends [of q] by (cases "regions t q") auto
      then obtain ns where "mods_of t q ns" using w unfolding mods_wf_def by blast
      with lists show ?thesis by blast
    qed (use empty in blast)
    then show "mods_wf v" using w unfolding mods_wf_def f by (metis less_SucI)
    have ph: "tbl_single E t (path_intern_hd (xy_rt t))" "path_intern_hd (xy_rt t) \<noteq> region_hd (xy_rt t)"
      using w by (auto simp: intern_wf_def)
    then show "intern_wf E v" using w keep [OF ph] by (auto simp: intern_wf_def f sg less_SucI)
    have hh: "tbl_single E t (hook_id_hd (xy_rt t))" "hook_id_hd (xy_rt t) \<noteq> region_hd (xy_rt t)"
      using w by (auto simp: hook_tab_def)
    show "caches_ok E v" "hooks_wf E v" "hook_tab E v" "unused_ok E v"
      by (rule hook_state_frame [of E t]; use w sg keep [OF hh] f in auto)+
  qed
  with att eq v(2,3) empty lists sg keep ds show ?thesis by blast
qed

section \<open>The claim of a load\<close>

lemma mod_key_length: "length (mod_key (mod_key_len path) path i k) \<le> mod_key_len path"
  by (simp add: mod_key_def snprintf_def mod_key_len_def MOD_KEY_SUFFIX_LEN_def)

text \<open>The state after a claim: a child region at the next address, current, and the entry renamed.\<close>

definition claimed :: "u64 \<Rightarrow> u8 \<Rightarrow> string \<Rightarrow> mptr \<Rightarrow> xy_mod_entry \<Rightarrow> 'h xy_state \<Rightarrow> 'h xy_state \<Rightarrow> bool" where
  "claimed cid cpl new m e t u \<longleftrightarrow>
     u = t\<lparr>regions := regions u, st_corm := st_corm u, next_addr := Suc (next_addr t),
           ctxs := moved_ctx cid (me_ctx e) (ctxs t),
           mods := (mods t)(m \<mapsto> e\<lparr>me_region_id := cid, me_region_plen := cpl, me_mod_key := new\<rparr>),
           xy_current_region_id := cid, xy_current_region_entry := Some (next_addr t), xy_err_val := XY_OK\<rparr>"

lemma claimedD:
  assumes "claimed cid cpl new m e t u"
  shows "mods u = (mods t)(m \<mapsto> e\<lparr>me_region_id := cid, me_region_plen := cpl, me_mod_key := new\<rparr>)"
    "ctxs u = moved_ctx cid (me_ctx e) (ctxs t)" "next_addr u = Suc (next_addr t)" "xy_rt u = xy_rt t" "paths u = paths t"
    "dl_refs u = dl_refs t" "tmp_files u = tmp_files t" "xy_loading_mod u = xy_loading_mod t" "xy_pending_ctx u = xy_pending_ctx t"
    "xy_reloading u = xy_reloading t" "xy_current_region_id u = cid" "xy_current_region_entry u = Some (next_addr t)"
  using assms unfolding claimed_def by (elim ssubst, simp)+

lemma claim_for_load_ok:
  assumes E: "env_ok E" "never_oom E" and wf: "load_ready E t" and p: "regions t p = Some r"
    and bits: "0 < bits" "bits \<le> 64" and hd: "re_claim_handler r = Some fn"
    and run: "run_claim E fn fname bits (re_claim_handler_ud r) t = Some (XY_OK, g, t)"
    and g: "0 < g" "unat (re_plen r) + unat g < 64"
    and slot: "region_alloc_slot E t r g = cid" "cid \<noteq> XY_REGION_INVALID"
    and path: "module_load_path E t fname = Some path" and key: "key = mod_key (mod_key_len path) path (re_id r) (re_plen r)"
    and row: "tbl_get E t (mod_hd (xy_rt t)) (KStr key) = Some (VPtr m)"
    and e: "mods t m = Some e" "\<And>x. me_ctx e = Some x \<Longrightarrow> ctxs t x \<noteq> None" "me_mod_key e = key"
    and new: "new = mod_key (mod_key_len path) path cid (re_plen r + g)"
  shows "\<exists>u. xy_claim_for_load E (Some fname) (re_id r) (re_plen r) bits t = Some (XY_OK, u) \<and>
     claimed cid (re_plen r + g) new m e t u \<and> load_ready E u \<and>
     r_key u = (r_key t)(next_addr t \<mapsto> Region_Key cid (re_plen r + g)) \<and> r_parent u = (r_parent t)(next_addr t \<mapsto> Some p) \<and>
     mods_of u (next_addr t) [] \<and> (\<forall>q ns. mods_of t q ns \<longrightarrow> mods_of u q ns) \<and> tbl_single E u = tbl_single E t \<and>
     tbl_get E u (mod_hd (xy_rt t)) = (tbl_get E t (mod_hd (xy_rt t)))(KStr new \<mapsto> VPtr m, KStr key := None) \<and>
     (\<forall>d. tbl_single E t d \<longrightarrow> d \<notin> {mod_hd (xy_rt t), region_hd (xy_rt t)} \<longrightarrow> tbl_get E u d = tbl_get E t d) \<and>
     (\<forall>q. q \<noteq> next_addr t \<longrightarrow> dset u q = dset t q)"
proof -
  note w = wf [unfolded load_ready_def]
  let ?c = "next_addr t" and ?pl = "re_plen r + g"
  have rw: "tree_wf t" "table_wf E t" using w by (simp_all add: ready_def region_wf_def)
  have kp: "r_key t p = Some (key_of r)" using p by (simp add: r_key_def)
  then have can: "canonical (key_of r)" using tree_key [OF rw(1)] by blast
  have ids: "key_of r = Region_Key (re_id r) (re_plen r)" by (simp add: key_of_def region_key_def)
  have look: "region_lookup E t (re_id r) (re_plen r) = Some p" using kp ids by (simp add: region_lookup_iff [OF rw(2)])
  define ch where "ch = region_zero\<lparr>re_id := cid, re_plen := ?pl, re_depth := re_depth r + 1, re_child_bits := g,
     re_owner_path := Some fname, re_dispatch_gen := 1, re_parent := Some p\<rparr>"
  have chk: "key_of ch = Region_Key cid ?pl" by (simp add: ch_def key_of_def region_key_def)
  have k: "key_of r < key_of ch" "canonical (key_of ch)" "\<And>q. r_key t q \<noteq> Some (key_of ch)"
    using alloc_slot_cases [OF can g, of E t] slot region_lookup_iff [OF rw(2), of cid ?pl] unfolding chk
    by (auto simp: taken_def)
  have cz: "re_parent ch = Some p" "re_children_head ch = None" "re_depth ch = re_depth r + 1" "re_dispatch_gen ch \<noteq> 0"
      "re_mods_head ch = None" "re_mods_tail ch = None" by (simp_all add: ch_def region_zero_def)
  from attach_loads [OF E(1) wf p k cz] obtain v where
    v: "attach_region E p ch t = Some (?c, v)" "v = t\<lparr>regions := regions v, st_corm := st_corm v, next_addr := Suc ?c\<rparr>"
      "load_ready E v" "r_key v = (r_key t)(?c \<mapsto> key_of ch)" "r_parent v = (r_parent t)(?c \<mapsto> Some p)" "mods_of v ?c []"
      "\<forall>q ns. mods_of t q ns \<longrightarrow> mods_of v q ns" "tbl_single E v = tbl_single E t"
      "\<forall>d. tbl_single E t d \<longrightarrow> d \<noteq> region_hd (xy_rt t) \<longrightarrow> tbl_get E v d = tbl_get E t d"
      "\<forall>q. q \<noteq> ?c \<longrightarrow> dset v q = dset t q" by blast
  define v1 where "v1 = set_current_region cid (Some ?c) v"
  have fv: "xy_rt v = xy_rt t" "mods v = mods t" "ctxs v = ctxs t" by (subst v(2), simp)+
  have f1: "xy_rt v1 = xy_rt t" "mods v1 = mods t" "ctxs v1 = ctxs t" "regions v1 = regions v" "st_corm v1 = st_corm v"
    by (simp_all add: v1_def set_current_region_def fv)
  have tab1: "tbl_get E v1 = tbl_get E v" "tbl_single E v1 = tbl_single E v" by (rule tbl_get_cong [OF f1(5)]) (rule tbl_single_cong [OF f1(5)])
  have wf1: "load_ready E v1" unfolding v1_def using v(3,4) chk by (intro load_ready_current) auto
  have md: "tbl_single E t (mod_hd (xy_rt t))" "mod_hd (xy_rt t) \<noteq> region_hd (xy_rt t)" "mod_hd (xy_rt t) \<noteq> mod_by_region_hd (xy_rt t)"
    using w by auto
  have path1: "module_load_path E v1 fname = Some path" using path load_path_same [OF E(2)] by metis
  from rekey_effects [OF E path1 _ _ key new, of m e] md row e f1 tab1 v(8,9) obtain u0 where
    u0: "module_rekey_for_claim E fname (re_id r) (re_plen r) cid ?pl v1 = Some u0"
      "u0 = v1\<lparr>st_corm := st_corm u0, ctxs := moved_ctx cid (me_ctx e) (ctxs t), mods := (mods t)(m \<mapsto> e\<lparr>me_region_id := cid,
            me_region_plen := ?pl, me_mod_key := new @ drop (mod_key_len path) (me_mod_key e)\<rparr>)\<rparr>"
      "tbl_get E u0 (mod_hd (xy_rt t)) = (tbl_get E t (mod_hd (xy_rt t)))(KStr new \<mapsto> VPtr m, KStr key := None)"
      "tbl_single E u0 = tbl_single E t"
      "\<forall>d. tbl_single E t d \<longrightarrow> d \<noteq> mod_hd (xy_rt t) \<longrightarrow> d \<noteq> mod_by_region_hd (xy_rt t) \<longrightarrow> tbl_get E u0 d = tbl_get E v d" by auto
  have "drop (mod_key_len path) (me_mod_key e) = []" using e(3) key mod_key_length by simp
  note u0eq = u0(2) [unfolded this append_Nil2]
  define u where "u = set_err XY_OK u0"
  have small: "\<not> 64 < g" "\<not> 64 < bits" "g \<noteq> 0" "bits \<noteq> 0" using g bits by (auto simp: word_less_nat_alt word_le_nat_alt)
  have run': "xy_claim_for_load E (Some fname) (re_id r) (re_plen r) bits t = Some (XY_OK, u)"
    using small look p hd run slot E(2) v(1) u0(1)
    by (simp add: xy_claim_for_load_def fail_with_def never_oom_def Let_def ch_def [symmetric] v1_def [symmetric] u_def)
  have ru: "regions u0 = regions v" by (subst u0eq) (simp add: f1(4))
  have cl: "claimed cid ?pl new m e t u"
    unfolding claimed_def u_def set_err_def by (subst u0eq) (simp add: v1_def set_current_region_def, subst v(2), simp add: ru)
  note d = claimedD [OF cl]
  have tu: "tbl_get E u = tbl_get E u0" "tbl_single E u = tbl_single E t" "regions u = regions v"
  proof -
    show "tbl_get E u = tbl_get E u0" by (rule tbl_get_cong) (simp add: u_def set_err_def)
    have "tbl_single E u = tbl_single E u0" by (rule tbl_single_cong) (simp add: u_def set_err_def)
    then show "tbl_single E u = tbl_single E t" by (simp add: u0(4))
    show "regions u = regions v" by (simp add: u_def set_err_def ru)
  qed
  have other: "d' \<noteq> mod_by_region_hd (xy_rt t)" if "tbl_single E t d'" for d' using that w by auto
  have ends: "mod_next u = mod_next v1" "mod_prev u = mod_prev v1" "mod_region u = mod_region v1"
    using e(1) by (auto simp: fun_eq_iff mod_next_def mod_prev_def mod_region_def d(1) f1(2))
  have lists: "mods_of u q ns = mods_of v q ns" for q ns
  proof -
    have "mods_of v1 q ns = mods_of v q ns"
      by (rule mods_of_links) (simp_all add: fun_eq_iff mod_next_def mod_prev_def mod_region_def f1 fv)
    moreover have "mods_of u q ns = mods_of v1 q ns" by (rule mods_of_links [OF ends]) (simp add: tu(3) f1(4))
    ultimately show ?thesis by simp
  qed
  have keys: "r_key u = r_key v" "r_parent u = r_parent v" by (simp_all add: fun_eq_iff r_key_def r_parent_def tu(3))
  have "load_ready E u"
  proof (rule load_readyI [OF wf1])
    note w1 = wf1 [unfolded load_ready_def]
    have nx: "next_addr v1 = next_addr u" "paths v1 = paths u" by (simp add: v1_def set_current_region_def d(3,5), subst v(2), simp)+
    have sgs: "tbl_single E u = tbl_single E v1" by (simp add: tu(2) tab1 v(8))
    have keep: "tbl_get E u d' = tbl_get E v1 d'" if "tbl_single E t d'" "d' \<noteq> mod_hd (xy_rt t)" for d'
      using u0(5) that other [OF that(1)] by (simp add: tu(1) tab1)
    show "tbl_single E u = tbl_single E v1" by (rule sgs)
    show "xy_rt u = (xy_rt v1)\<lparr>xy_mod_count := xy_mod_count (xy_rt v1)\<rparr>" by (simp add: d(4) f1(1))
    have rh: "tbl_single E t (region_hd (xy_rt t))" using rw(2) by (simp add: table_wf_def)
    show "region_wf E u"
      by (rule region_wf_more_addresses [of E v1]) (use w1 md rh keep nx sgs in \<open>auto simp: ready_def f1 tu(3) d(4)\<close>)
    show "current_wf u" using current_wf_frame [of u v1] w1 keys by (simp add: ready_def d(11,12) r_key_def [abs_def] f1(4) tu(3) v1_def set_current_region_def)
    have "mods_of v1 q ns = mods_of v q ns" for q ns
      by (rule mods_of_links) (simp_all add: fun_eq_iff mod_next_def mod_prev_def mod_region_def f1 fv)
    then show "mods_wf u" using w1 e(1) nx by (auto simp: mods_wf_def lists tu(3) f1(2,4) d(1))
    have ph: "tbl_single E t (path_intern_hd (xy_rt t))" "path_intern_hd (xy_rt t) \<noteq> mod_hd (xy_rt t)" using w by (auto simp: intern_wf_def)
    show "intern_wf E u" using w1 keep [OF ph] nx sgs by (simp add: intern_wf_def d(4) f1(1))
    have hh: "tbl_single E t (hook_id_hd (xy_rt t))" "hook_id_hd (xy_rt t) \<noteq> mod_hd (xy_rt t)" using w by (auto simp: hook_tab_def)
    have same: "\<exists>e0. mods v1 q = Some e0 \<and> me_fn_cache e' = me_fn_cache e0 \<and> me_hook_impl_bits e' = me_hook_impl_bits e0 \<and>
       me_handle e' = me_handle e0" if "mods u q = Some e'" for q e' using that e(1) by (auto simp: d(1) f1(2) split: if_splits)
    show "caches_ok E u" "hooks_wf E u" "hook_tab E u" "unused_ok E u"
      by (rule hook_state_frame [of E v1]; use w1 sgs keep [OF hh] same d(4) f1(1) in force)+
  qed
  moreover have "tbl_get E u d' = tbl_get E t d'" if "tbl_single E t d'" "d' \<notin> {mod_hd (xy_rt t), region_hd (xy_rt t)}" for d'
    using u0(5) v(9) that other [OF that(1)] by (simp add: tu(1))
  moreover have "dset u q = dset t q" if "q \<noteq> ?c" for q
    using v(10) that by (simp add: dset_def [abs_def] tu(3))
  ultimately show ?thesis
    using run' cl v(4-7) keys chk lists tu(1,2) u0(3) by (intro exI [of _ u]) simp
qed

section \<open>The whole load\<close>

lemma alloc_loop_same:
  assumes "region_lookup E t = region_lookup E s"
  shows "alloc_loop E t pid cplen sh k n = alloc_loop E s pid cplen sh k n"
  using assms
proof (induction E s pid cplen sh k n rule: alloc_loop.induct)
  case (1 E s pid cplen sh k n)
  then show ?case by (subst (1 2) alloc_loop.simps) (simp add: Let_def)
qed

lemma alloc_slot_same:
  "region_lookup E t = region_lookup E s \<Longrightarrow> region_alloc_slot E t r g = region_alloc_slot E s r g"
  by (simp add: region_alloc_slot_def alloc_loop_same [of E t s] Let_def)

text \<open>A module that asks for bits, and the region's handler that grants \<open>g\<close> of them and leaves no trace.\<close>

definition granted :: "'h env \<Rightarrow> dlhandle \<Rightarrow> string \<Rightarrow> xy_region_entry \<Rightarrow> u8 \<Rightarrow> bool" where
  "granted E h fname r g \<longleftrightarrow>
     (\<exists>a fn. module_lookup_symbol_raw E (Some h) ''xy_claim'' = Some a \<and> 0 < read_claim E a \<and> read_claim E a \<le> 64 \<and>
        re_claim_handler r = Some fn \<and>
        (\<forall>v. run_claim E fn fname (read_claim E a) (re_claim_handler_ud r) v = Some (XY_OK, g, v))) \<and>
     0 < g \<and> unat (re_plen r) + unat g < 64"

text \<open>
  C4. A module that claims and whose region's handler grants the bits is loaded into a region of its
  own: \<^verbatim>\<open>xy_load\<close> returns \<^const>\<open>XY_OK\<close>; there is one new region, the leftmost free slot of the caller's, below
  it; the new entry carries its identity, is alone in its list and is filed under the key of that
  identity; all other lists are as they were, and the caller's region is current again. When the
  new key is the key the entry was filed under first, the row is gone: the module runs but
  is found under no name.
\<close>

theorem load_claims_region:
  assumes E: "env_ok E" "never_oom E" and wf: "load_ready E s"
    and fr: "fresh_file E s fname path key h cs pc" and quiet: "quiet_module E h"
    and c: "module_ctx E (Some h) (s\<lparr>xy_pending_ctx := pc\<rparr>) = c" "good_ctx E h cs c"
    and p: "xy_current_region_entry s = Some p" "regions s p = Some r" and gr: "granted E h fname r g"
    and slot: "region_alloc_slot E s r g = cid" "cid \<noteq> XY_REGION_INVALID"
    and new: "new = mod_key (mod_key_len path) path cid (re_plen r + g)"
  shows "\<exists>t q m e. xy_load E fname s = Some (XY_OK, t) \<and> xy_errno t = XY_OK \<and> regions s q = None \<and>
     r_key t = (r_key s)(q \<mapsto> Region_Key cid (re_plen r + g)) \<and> r_parent t = (r_parent s)(q \<mapsto> Some p) \<and>
     mods s m = None \<and> mods t m = Some e \<and> me_refcount e = 1 \<and> me_handle e = Some h \<and> me_ctx e = c \<and>
     me_region_id e = cid \<and> me_region_plen e = re_plen r + g \<and> me_mod_key e = new \<and> me_region_entry e = Some q \<and>
     me_parent_entry e = xy_loading_mod s \<and> warmed E s e \<and>
     mods_of t q [m] \<and> (\<forall>x ns. mods_of s x ns \<longrightarrow> mods_of t x ns) \<and>
     tbl_get E t (mod_hd (xy_rt s)) =
       (if new = key then tbl_get E s (mod_hd (xy_rt s)) else (tbl_get E s (mod_hd (xy_rt s)))(KStr new \<mapsto> VPtr m)) \<and>
     ctxs t = moved_ctx cid c (bind_ctx fname (xy_current_region_id s) c cs) \<and>
     dl_refs t = (dl_refs s)(h := dl_refs s h + 1) \<and>
     xy_rt t = (xy_rt s)\<lparr>xy_mod_count := xy_mod_count (xy_rt s) + 1\<rparr> \<and>
     xy_current_region_id t = xy_current_region_id s \<and> xy_current_region_entry t = Some p \<and> load_ready E t"
proof -
  note w = wf [unfolded load_ready_def] and f = fr [unfolded fresh_file_def]
  let ?i = "xy_current_region_id s" and ?hd = "mod_hd (xy_rt s)"
  obtain plen where plen: "region_current_plen s = Some plen" "key = mod_key (mod_key_len path) path ?i plen" using f by blast
  have rp: "re_plen r = plen" using p plen(1) by (simp add: region_current_plen_def)
  have ri: "re_id r = ?i" using w p by (auto simp: ready_def current_wf_def r_key_def key_of_def region_key_def)
  from load_until_claim [OF E wf fr [unfolded fresh_file_from, THEN conjunct1] c p(1) plen(1)] obtain tx t m x where
    t: "mod_load E fname s = load_tail E tx t" "load_ready E t"
      "staged s (tmp_files s) h (bind_ctx fname ?i c cs) m ((entry_for None h key x plen s)\<lparr>me_ctx := c\<rparr>) t"
      "tbl_get E t ?hd = (tbl_get E s ?hd)(KStr key \<mapsto> VPtr m)" "tbl_single E t = tbl_single E s"
      "\<forall>d. tbl_single E s d \<longrightarrow> d \<notin> {?hd, path_intern_hd (xy_rt s)} \<longrightarrow> tbl_get E t d = tbl_get E s d"
    and tx: "tx_handle tx = Some h" "tx_stable_fname tx = Some fname" "tx_mod_entry tx = Some m" "tx_inherited_reg tx = Some p"
      "tx_inherited_region_id tx = ?i" "tx_inherited_region_plen tx = plen" "tx_prev_region_id tx = ?i"
      "tx_prev_region_entry tx = Some p" "tx_context_active tx" by blast
  define e where "e = (entry_for None h key x plen s)\<lparr>me_ctx := c\<rparr>"
  have e: "me_ctx e = c" "me_handle e = Some h" "me_refcount e = 1" "me_parent_entry e = xy_loading_mod s" "me_mod_key e = key"
    "me_region_entry e = None" by (simp_all add: e_def entry_for_def mod_zero_def)
  note sd = stagedD [OF t(3) [folded e_def]]
  have nm: "mods s m = None" using sd(12) mod_lookup_fresh [OF wf] by blast
  have rhd: "tbl_get E t (region_hd (xy_rt s)) = tbl_get E s (region_hd (xy_rt s))"
    "tbl_get E t (hook_id_hd (xy_rt s)) = tbl_get E s (hook_id_hd (xy_rt s))"
    using w t(6) by (auto simp: ready_def region_wf_def table_wf_def hook_tab_def)
  \<comment> \<open>claim\<close>
  obtain a fn where g: "module_lookup_symbol_raw E (Some h) ''xy_claim'' = Some a" "0 < read_claim E a" "read_claim E a \<le> 64"
    "re_claim_handler r = Some fn" "\<And>v. run_claim E fn fname (read_claim E a) (re_claim_handler_ud r) v = Some (XY_OK, g, v)"
    "0 < g" "unat (re_plen r) + unat g < 64" using gr unfolding granted_def by blast
  have pt: "regions t p = Some r" using p(2) sd(1) by simp
  have slot_t: "region_alloc_slot E t r g = cid"
    using slot(1) alloc_slot_same [of E t s] rhd(1) by (simp add: fun_eq_iff region_lookup_def sd(2))
  have path: "module_load_path E t fname = Some path" using f load_path_same [OF E(2)] by metis
  have mt: "mods t m = Some e" using sd(3) by simp
  have ctx: "ctxs t y \<noteq> None" if "me_ctx e = Some y" for y
    using that c(2) sd(4) e(1) by (auto simp: good_ctx_def bind_ctx_def)
  have row: "tbl_get E t (mod_hd (xy_rt t)) (KStr key) = Some (VPtr m)" by (simp add: t(4) sd(2))
  from claim_for_load_ok [OF E t(2) pt g(2-4) g(5) g(6,7) slot_t slot(2) path _ row mt ctx e(5) new] plen(2) obtain u where
    u: "xy_claim_for_load E (Some fname) (re_id r) (re_plen r) (read_claim E a) t = Some (XY_OK, u)"
      "claimed cid (re_plen r + g) new m e t u" "load_ready E u"
      "r_key u = (r_key t)(next_addr t \<mapsto> Region_Key cid (re_plen r + g))" "r_parent u = (r_parent t)(next_addr t \<mapsto> Some p)"
      "mods_of u (next_addr t) []" "\<forall>q ns. mods_of t q ns \<longrightarrow> mods_of u q ns" "tbl_single E u = tbl_single E t"
      "tbl_get E u (mod_hd (xy_rt t)) = (tbl_get E t (mod_hd (xy_rt t)))(KStr new \<mapsto> VPtr m, KStr key := None)"
      "\<forall>d. tbl_single E t d \<longrightarrow> d \<notin> {mod_hd (xy_rt t), region_hd (xy_rt t)} \<longrightarrow> tbl_get E u d = tbl_get E t d"
    unfolding rp ri by blast
  note d = claimedD [OF u(2)]
  have claim: "mod_load_claim_if_needed E tx t = Some (XY_OK, u)"
    using tx pt g(1,4) u(1) by (simp add: mod_load_claim_if_needed_def rp ri)
  \<comment> \<open>enter\<close>
  define e1 where "e1 = e\<lparr>me_region_id := cid, me_region_plen := re_plen r + g, me_mod_key := new\<rparr>"
  have m1: "mods u m = Some e1" by (simp add: d(1) e1_def)
  have out: "\<forall>q ns. mods_of u q ns \<longrightarrow> m \<notin> set ns"
  proof (intro allI impI notI)
    fix q ns assume "mods_of u q ns" and "m \<in> set ns"
    then have "me_region_entry e1 = Some q" using m1 unfolding mods_of_def mod_region_def by auto
    then show False by (simp add: e1_def e(6))
  qed
  have look: "region_lookup E u (me_region_id e1) (me_region_plen e1) = Some (next_addr t)"
  proof -
    have "table_wf E u" using u(3) by (simp add: load_ready_def ready_def region_wf_def)
    then show ?thesis by (simp add: region_lookup_iff e1_def u(4))
  qed
  have h1: "me_handle e1 = Some h" by (simp add: e1_def e)
  from load_from_claim [OF E u(3) quiet u(6) out m1 look tx(1,3) h1] obtain v e2 e3 where
    v: "mod_load_enter E tx u = Some (XY_OK, v)"
    "v = u\<lparr>regions := regions v, mods := mods v, bufs := bufs v, xy_rt := (xy_rt u)\<lparr>xy_mod_count := xy_mod_count (xy_rt u) + 1\<rparr>\<rparr>"
    "mods v m = Some e3" "relinked e1 e2" "same_mod e2 e3" "me_region_entry e3 = Some (next_addr t)" "warmed E u e3"
    "mods_of v (next_addr t) ([] @ [m])" "load_ready E v" "r_key v = r_key u" "r_parent v = r_parent u"
    "\<forall>p ns. p \<noteq> next_addr t \<longrightarrow> mods_of u p ns \<longrightarrow> mods_of v p ns"
    by (elim exE conjE) (rule that)
  \<comment> \<open>back in the caller's region\<close>
  define z where "z = set_current_region ?i (Some p) v"
  have z: "z = v\<lparr>xy_current_region_id := ?i, xy_current_region_entry := Some p\<rparr>" by (simp add: z_def set_current_region_def)
  have "mod_load E fname s = Some (XY_OK, z)"
    using t(1) claim v(1) tx(7-9) by (simp add: load_tail_def mod_load_restore_context_def z_def)
  then have load: "xy_load E fname s = Some (XY_OK, set_err XY_OK z)"
    using wf by (simp add: xy_load_def fail_with_def load_ready_def ensure_ready)
  have fv: "ctxs v = moved_ctx cid c (bind_ctx fname ?i c cs)" "dl_refs v = (dl_refs s)(h := dl_refs s h + 1)"
    "xy_rt v = (xy_rt s)\<lparr>xy_mod_count := xy_mod_count (xy_rt s) + 1\<rparr>" "st_corm v = st_corm u"
    by (subst v(2), simp add: d sd e(1))+
  have tab: "tbl_get E (set_err XY_OK z) = tbl_get E u" by (rule tbl_get_cong) (simp add: z set_err_def fv)
  have "regions t (next_addr t) = None"
    using t(2) by (intro fresh_region) (simp add: load_ready_def ready_def region_wf_def)
  then have fresh: "regions s (next_addr t) = None" by (simp add: sd(1))
  have keys: "r_key t = r_key s" "r_parent t = r_parent s" by (simp_all add: fun_eq_iff r_key_def r_parent_def sd(1))
  have ks: "r_key v = (r_key s)(next_addr t \<mapsto> Region_Key cid (re_plen r + g))" by (simp add: v(10) u(4) keys)
  have ps: "r_parent v = (r_parent s)(next_addr t \<mapsto> Some p)" by (simp add: v(11) u(5) keys)
  have kz: "r_key (set_err XY_OK z) = r_key v" "r_parent (set_err XY_OK z) = r_parent v"
    by (simp_all add: fun_eq_iff r_key_def r_parent_def z set_err_def)
  have "p \<noteq> next_addr t" using fresh p(2) by auto
  then have "r_key v p = Some (key_of r)" using p(2) by (simp add: ks r_key_def)
  then have "load_ready E z" unfolding z_def by (rule load_ready_current [OF v(9)]) (simp add: key_of_def region_key_def ri)
  then have ready: "load_ready E (set_err XY_OK z)" by (simp add: load_ready_set_err)
  have of: "mods_of (set_err XY_OK z) q ns = mods_of v q ns" for q ns
    by (simp add: mods_of_set_err)
       (simp add: mods_of_def mod_next_def [abs_def] mod_prev_def [abs_def] mod_region_def [abs_def] z)
  have lists: "mods_of v q ns" if "mods_of s q ns" for q ns
  proof -
    have "q \<noteq> next_addr t" using that fresh by (auto simp: mods_of_def)
    moreover have "mods_of t q ns" by (rule mods_of_new [OF that _ sd(3) nm]) (simp add: sd(1))
    ultimately show ?thesis using u(7) v(12) by blast
  qed
  have "hook_id_hd (xy_rt s) \<noteq> ?hd \<and> hook_id_hd (xy_rt s) \<noteq> region_hd (xy_rt s) \<and> tbl_single E s (hook_id_hd (xy_rt s))"
    using w by (auto simp: hook_tab_def)
  then have "tbl_get E u (hook_id_hd (xy_rt s)) = tbl_get E s (hook_id_hd (xy_rt s))" using u(10) rhd(2) t(5) sd(2) by simp
  then have "hook_reg E u = hook_reg E s" by (simp add: fun_eq_iff hook_reg_def d(4) sd(2))
  then have warm: "warmed E s e3" using v(7) by (simp add: warmed_def)
  have rows: "tbl_get E u ?hd = (if new = key then tbl_get E s ?hd else (tbl_get E s ?hd)(KStr new \<mapsto> VPtr m))"
    using u(9) f by (auto simp: sd(2) t(4) fun_eq_iff)
  have "me_refcount e3 = 1 \<and> me_handle e3 = Some h \<and> me_ctx e3 = c \<and> me_region_id e3 = cid \<and> me_region_plen e3 = re_plen r + g \<and>
      me_mod_key e3 = new \<and> me_parent_entry e3 = xy_loading_mod s"
    using v(4,5) e by (auto simp: relinked_def same_mod_def e1_def)
  then show ?thesis
    using load fresh nm v(3,6,8) ks ps kz ready of lists warm rows tab fv
    by - (rule exI [of _ "set_err XY_OK z"], rule exI [of _ "next_addr t"], rule exI [of _ m], rule exI [of _ e3],
        simp, simp add: z set_err_def xy_errno_def)
qed

text \<open>
  A host whose root region has a claim handler, which grants 4 bits. The first module that claims gets
  the region \<open>(0, 4)\<close>, and with it the truncated key it was filed under already: it is lost.
\<close>

definition demo_claimer :: "alist_corm env" where
  "demo_claimer = (demo_linker True)\<lparr>stl_dlsym :=
     (\<lambda>h name. if name = ''xy_claim'' then Some 80 else stl_dlsym (demo_linker True) h name)\<rparr>"

definition demo_host :: "alist_corm xy_state" where
  "demo_host = upd_reg 1 (\<lambda>r. r\<lparr>re_claim_handler := Some 90\<rparr>) demo_boot"

lemma demo_claimer_tables:
  "tbl_get demo_claimer = tbl_get demo_env" "tbl_single demo_claimer = tbl_single demo_env"
  by (simp_all add: fun_eq_iff tbl_get_def tbl_single_def demo_claimer_def demo_linker_def)

lemma demo_claimer_ok: "env_ok demo_claimer" "never_oom demo_claimer"
  using demo_linker_ok [of True] by (simp_all add: env_ok_def never_oom_def demo_claimer_def)

lemma demo_host_same:
  "mods demo_host = mods demo_boot" "xy_rt demo_host = xy_rt demo_boot" "st_corm demo_host = st_corm demo_boot"
  "paths demo_host = paths demo_boot" "next_addr demo_host = next_addr demo_boot"
  "xy_current_region_id demo_host = xy_current_region_id demo_boot"
  "xy_current_region_entry demo_host = xy_current_region_entry demo_boot" "xy_reloading demo_host = xy_reloading demo_boot"
  "xy_pending_ctx demo_host = xy_pending_ctx demo_boot"
  "regions demo_host = [1 \<mapsto> region_zero\<lparr>re_id := XY_REGION_ROOT, re_dispatch_gen := 1, re_claim_handler := Some 90\<rparr>]"
  by (simp_all add: demo_host_def upd_reg_def demo_boot_regions fun_eq_iff)

lemma demo_host_ready: "load_ready demo_claimer demo_host"
proof -
  have tab: "tbl_get E demo_host = tbl_get E demo_boot" "tbl_single E demo_host = tbl_single E demo_boot" for E :: "alist_corm env"
    by (rule tbl_get_cong tbl_single_cong, simp add: demo_host_same)+
  have b: "load_ready demo_claimer demo_boot"
    using demo_linker_ready [of True]
    by (simp add: load_ready_def ready_def region_wf_def table_wf_def intern_wf_def hooks_wf_def hook_tab_def hook_reg_def caches_ok_def
        unused_ok_def demo_linker_tables demo_claimer_tables demo_boot_corm)
  have rt: "xy_rt demo_host = (xy_rt demo_boot)\<lparr>xy_mod_count := xy_mod_count (xy_rt demo_boot)\<rparr>" by (simp add: demo_host_same)
  note w = b [unfolded load_ready_def]
  show ?thesis
  proof (rule load_readyI [OF b _ _ rt tab(2)])
    show "region_wf demo_claimer demo_host"
      unfolding demo_host_def using w by (intro region_wf_upd_reg) (simp_all add: ready_def shape_keeping_def)
    show "current_wf demo_host"
      using w by (intro current_wf_frame [of demo_host demo_boot])
        (simp_all add: ready_def demo_host_same fun_eq_iff r_key_def demo_boot_regions key_of_def region_key_def)
    show "mods_wf demo_host" by (auto simp: mods_wf_def demo_host_same demo_boot_corm mods_of_def region_zero_def intro!: exI [of _ "[]"])
    show "intern_wf demo_claimer demo_host" "caches_ok demo_claimer demo_host" "hooks_wf demo_claimer demo_host"
      "hook_tab demo_claimer demo_host" "unused_ok demo_claimer demo_host"
      using w by (simp_all add: intern_wf_def caches_ok_def hooks_wf_def hook_tab_def unused_ok_def hook_reg_def tab demo_host_same)
  qed
qed

theorem load_claims_region_witness:
  "\<exists>t q m. xy_load demo_claimer ''mods/a'' demo_host = Some (XY_OK, t) \<and> r_key t q = Some (Region_Key 0 4) \<and>
     mods_of t q [m] \<and> mods_of t 1 [] \<and> (\<forall>k. tbl_get demo_claimer t 4 k = None)"
proof -
  let ?k = "mod_key (mod_key_len ''mods/a.so'') ''mods/a.so''"
    and ?r = "region_zero\<lparr>re_id := XY_REGION_ROOT, re_dispatch_gen := 1, re_claim_handler := Some 90\<rparr>"
  have same: "?k 0 4 = ?k 0 0" by (subst mod_key_eq_iff) (simp_all add: NUL_def)
  have none: "tbl_get demo_env demo_host d k = tbl_get demo_env demo_boot d k" for d k
    using tbl_get_cong [of demo_host demo_boot] by (simp add: demo_host_same)
  have hd: "mod_hd (xy_rt demo_host) = 4" by (simp add: demo_host_same demo_boot_corm)
  have fr: "fresh_file demo_claimer demo_host ''mods/a'' ''mods/a.so'' (?k 0 0) 9 [77 \<mapsto> xy_t_zero] (xy_pending_ctx demo_boot)"
  proof -
    note f = demo_fresh_file [of True, unfolded fresh_file_def]
    have "module_load_path demo_claimer demo_host ''mods/a'' = Some ''mods/a.so''"
      by (simp add: module_load_path_def demo_claimer_def demo_linker_def demo_env_def Let_def)
    moreover have "region_current_plen demo_host = Some 0" "xy_current_region_id demo_host = 0"
      by (simp_all add: region_current_plen_def demo_host_same demo_boot_corm region_zero_def)
    moreover have "stl_dlopen demo_claimer (Some ''mods/a.so'') demo_host =
        Some (Some 9, demo_host\<lparr>ctxs := [77 \<mapsto> xy_t_zero], xy_pending_ctx := xy_pending_ctx demo_boot\<rparr>)"
      using demo_host_same(9) by (simp add: demo_claimer_def demo_linker_def)
    ultimately show ?thesis
      using f by (simp add: fresh_file_def demo_claimer_tables demo_linker_tables none demo_host_same)
  qed
  have quiet: "quiet_module demo_claimer 9"
    by (auto simp: quiet_module_def module_lookup_symbol_fn_def module_lookup_symbol_raw_def demo_claimer_def demo_linker_def demo_env_def
        intro!: exI [of _ id])
  have ctx: "module_ctx demo_claimer (Some 9) s = Some 77" for s :: "alist_corm xy_state"
    by (simp add: module_ctx_def module_lookup_symbol_fn_def module_lookup_symbol_raw_def demo_claimer_def demo_linker_def demo_env_def)
  have good: "good_ctx demo_claimer 9 [77 \<mapsto> xy_t_zero] (Some 77)"
    by (simp add: good_ctx_def abi_matches_def module_lookup_symbol_fn_def module_lookup_symbol_raw_def demo_claimer_def demo_linker_def demo_env_def)
  have p: "xy_current_region_entry demo_host = Some 1" "regions demo_host 1 = Some ?r"
    by (simp_all add: demo_host_same demo_boot_corm)
  have gr: "granted demo_claimer 9 ''mods/a'' ?r 4"
    by (simp add: granted_def module_lookup_symbol_raw_def demo_claimer_def demo_linker_def demo_env_def region_zero_def)
  have slot: "region_alloc_slot demo_claimer demo_host ?r 4 = 0"
    by (subst region_alloc_slot_def, simp add: region_zero_def Let_def XY_REGION_ROOT_def, subst alloc_loop.simps,
        simp add: region_lookup_def demo_claimer_tables none demo_host_same demo_boot_corm)
       (simp add: tbl_get_def demo_env_def demo_boot_corm list_corm_def region_key_def root_key_def)
  have plen: "re_plen ?r + 4 = 4" by (simp add: region_zero_def)
  have m: "mods_of demo_host 1 []" by (auto simp: mods_of_def demo_host_same region_zero_def)
  have no: "tbl_get demo_env demo_boot 4 k = None" for k
    by (simp add: tbl_get_def demo_env_def demo_boot_corm list_corm_def)
  from load_claims_region [OF demo_claimer_ok demo_host_ready fr quiet ctx good p gr slot _ refl] obtain t q m where
    "xy_load demo_claimer ''mods/a'' demo_host = Some (XY_OK, t)" "r_key t = (r_key demo_host)(q \<mapsto> Region_Key 0 4)" "mods_of t q [m]"
    "\<forall>x ns. mods_of demo_host x ns \<longrightarrow> mods_of t x ns"
    "tbl_get demo_claimer t 4 = tbl_get demo_claimer demo_host 4"
    unfolding plen same hd by (auto simp: XY_REGION_INVALID_def)
  with m no none show ?thesis by (intro exI [of _ t] exI [of _ q] exI [of _ m]) (auto simp: demo_claimer_tables)
qed

end
