(* ===== verification/Xy_Modside.thy ===== *)
theory Xy_Modside
  imports Xy_Load
begin

text \<open>
  The module side of the interface: what the macros of \<^verbatim>\<open>src/include/ttypt/xy.h\<close> expand to
  (adapters, typed call stubs, the functions that unpack the arguments of a dispatch and store
  its result) and the functions of \<^verbatim>\<open>src/include/ttypt/xy-mod.h\<close>, which reach the library through
  the context the host has filled in.

  A value is its bytes; \<^verbatim>\<open>struct fname_args\<close> is the list of its bytes, and so is a returned
  \<^verbatim>\<open>ftype\<close>. A module's own function of the hook's type is \<open>code f args\<close>, from a state to
  a result and a state.
\<close>

section \<open>Adapters\<close>

text \<open>\<^verbatim>\<open>static xy_adapter_t __xy_decl_##fname##_adapter\<close>: no call function, no hook id yet.\<close>

definition decl_adapter :: "string \<Rightarrow> nat \<Rightarrow> nat \<Rightarrow> xy_adapter" where
  "decl_adapter fname arg_size ret_size =
     \<lparr>ad_name = fname, ad_arg_size = arg_size, ad_ret_size = ret_size, ad_call = None, ad_hook_id = -1\<rparr>"

text \<open>\<^verbatim>\<open>xy_adapter_t fname##_adapter\<close>: the one that is registered.\<close>

definition hook_adapter :: "string \<Rightarrow> nat \<Rightarrow> nat \<Rightarrow> fnptr \<Rightarrow> xy_adapter" where
  "hook_adapter fname arg_size ret_size adapter_call =
     \<lparr>ad_name = fname, ad_arg_size = arg_size, ad_ret_size = ret_size, ad_call = Some adapter_call, ad_hook_id = -1\<rparr>"

text \<open>\<^verbatim>\<open>fname##_adapter_reg\<close>, which runs as a constructor.\<close>

definition adapter_reg :: "'h env \<Rightarrow> string \<Rightarrow> aptr \<Rightarrow> 'h xy_state \<Rightarrow> 'h xy_state option" where
  "adapter_reg E fname adapter s = do { (_, s1) \<leftarrow> xy_areg E fname adapter s; Some s1 }"


section \<open>Running a listener\<close>

text \<open>\<^verbatim>\<open>if (res) *(ftype *)res = result;\<close>, and the \<^verbatim>\<open>memset\<close> of a missing function.\<close>

definition store_result :: "addr option \<Rightarrow> u8 list \<Rightarrow> 'h xy_state \<Rightarrow> 'h xy_state option" where
  "store_result res v s = (case res of None \<Rightarrow> Some s | Some r \<Rightarrow> buf_write r v s)"

text \<open>The fields of the argument structure; a structure without fields is not read.\<close>

definition read_args :: "addr option \<Rightarrow> nat \<Rightarrow> 'h xy_state \<Rightarrow> u8 list option" where
  "read_args arg n s =
     (case arg of None \<Rightarrow> if n = 0 then Some [] else None | Some a \<Rightarrow> buf_read s a n)"

text \<open>
  \<^verbatim>\<open>fname##_adapter_call(res, fn, arg)\<close> as \<^verbatim>\<open>XY_DEF\<close> writes it. Calling the sentinel
  \<^verbatim>\<open>(void *)1\<close> is \<^const>\<open>None\<close>.
\<close>

definition def_adapter_call ::
  "(fnptr \<Rightarrow> u8 list \<Rightarrow> 'h xy_state \<Rightarrow> (u8 list \<times> 'h xy_state) option) \<Rightarrow> nat \<Rightarrow> nat \<Rightarrow>
     addr option \<Rightarrow> fn_slot \<Rightarrow> addr option \<Rightarrow> 'h xy_state \<Rightarrow> 'h xy_state option" where
  "def_adapter_call code arg_size ret_size res fn arg s =
     (case fn of
        FN_NULL \<Rightarrow> store_result res (replicate ret_size 0) s
      | XY_FN_NOT_FOUND \<Rightarrow> None
      | Fn f \<Rightarrow> do { args \<leftarrow> read_args arg arg_size s;
                     (result, s1) \<leftarrow> code f args s;
                     store_result res result s1 })"

text \<open>
  The same as \<^verbatim>\<open>XY_IMPL\<close> and \<^verbatim>\<open>XY_LISTENER_TAG\<close> write it: a null \<^verbatim>\<open>fn\<close> is the module's own
  function \<open>own\<close>, whose address is not null.
\<close>

definition impl_adapter_call ::
  "(fnptr \<Rightarrow> u8 list \<Rightarrow> 'h xy_state \<Rightarrow> (u8 list \<times> 'h xy_state) option) \<Rightarrow> fnptr \<Rightarrow> nat \<Rightarrow> nat \<Rightarrow>
     addr option \<Rightarrow> fn_slot \<Rightarrow> addr option \<Rightarrow> 'h xy_state \<Rightarrow> 'h xy_state option" where
  "impl_adapter_call code own arg_size ret_size res fn arg s =
     def_adapter_call code arg_size ret_size res (if fn = FN_NULL then Fn own else fn) arg s"


section \<open>Calling a hook\<close>

text \<open>
  The inline function \<^verbatim>\<open>fname\<close> of \<^verbatim>\<open>XY_DECL\<close> and \<^verbatim>\<open>XY_DEF\<close>. Its locals \<^verbatim>\<open>ret\<close> and \<^verbatim>\<open>args\<close>
  are at \<open>r\<close> and \<open>a\<close>; \<open>junk\<close> is what \<^verbatim>\<open>ret\<close> holds before it is assigned, one byte for each
  of \<^verbatim>\<open>sizeof(ftype)\<close>. The locals are gone when it has returned.
\<close>

definition hook_stub ::
  "'h env \<Rightarrow> aptr \<Rightarrow> addr \<Rightarrow> addr \<Rightarrow> u8 list \<Rightarrow> u8 list \<Rightarrow> 'h xy_state \<Rightarrow> (u8 list \<times> 'h xy_state) option" where
  "hook_stub E adapter r a junk args s =
     do { (_, s1) \<leftarrow> xy_call E (Some r) (Some adapter) (Some a) (s\<lparr>bufs := (bufs s)(r \<mapsto> junk, a \<mapsto> args)\<rparr>);
          ret \<leftarrow> buf_read s1 r (length junk);
          Some (ret, s1\<lparr>bufs := (bufs s1)(r := None, a := None)\<rparr>) }"

text \<open>\<^verbatim>\<open>XY_CALL(retp, fname, ...)\<close> of the host: the caller brings the buffer.\<close>

definition host_XY_CALL ::
  "'h env \<Rightarrow> addr option \<Rightarrow> aptr \<Rightarrow> addr \<Rightarrow> u8 list \<Rightarrow> 'h xy_state \<Rightarrow> 'h xy_state option" where
  "host_XY_CALL E retp adapter a args s =
     do { (_, s1) \<leftarrow> xy_call E retp (Some adapter) (Some a) (s\<lparr>bufs := (bufs s)(a \<mapsto> args)\<rparr>);
          Some (s1\<lparr>bufs := (bufs s1)(a := None)\<rparr>) }"


section \<open>The module's context\<close>

text \<open>
  \<^verbatim>\<open>xy.f(..)\<close>: a call through the field for \<open>f\<close> of the module's static context \<open>c\<close>. A null
  field is a jump to address 0, which is \<^const>\<open>None\<close>.
\<close>

definition via :: "cptr \<Rightarrow> xy_api \<Rightarrow> ('h xy_state \<Rightarrow> 'r option) \<Rightarrow> 'h xy_state \<Rightarrow> 'r option" where
  "via c f k s = do { x \<leftarrow> ctxs s c; if cx_fns x f = Some f then k s else None }"

text \<open>\<^verbatim>\<open>_n->f ? _n->f(..) : d\<close>\<close>

definition via_or ::
  "cptr \<Rightarrow> xy_api \<Rightarrow> 'a \<Rightarrow> ('h xy_state \<Rightarrow> ('a \<times> 'h xy_state) option) \<Rightarrow> 'h xy_state \<Rightarrow> ('a \<times> 'h xy_state) option" where
  "via_or c f d k s = do { x \<leftarrow> ctxs s c; if cx_fns x f = None then Some (d, s) else via c f k s }"

text \<open>The two symbols the loader asks a module for: the address of its context, and the ABI.\<close>

definition get_xy_ptr :: "cptr \<Rightarrow> cptr option" where "get_xy_ptr c = Some c"

definition xy_ctx_abi :: u64 where "xy_ctx_abi = XY_CTX_ABI_DESC"

definition mod_XY_CALL ::
  "'h env \<Rightarrow> cptr \<Rightarrow> addr option \<Rightarrow> aptr \<Rightarrow> addr \<Rightarrow> u8 list \<Rightarrow> 'h xy_state \<Rightarrow> 'h xy_state option" where
  "mod_XY_CALL E c retp adapter a args s =
     do { (_, s1) \<leftarrow> via c Api_call (xy_call E retp (Some adapter) (Some a)) (s\<lparr>bufs := (bufs s)(a \<mapsto> args)\<rparr>);
          Some (s1\<lparr>bufs := (bufs s1)(a := None)\<rparr>) }"

definition mod_XY_CALL_SELF ::
  "'h env \<Rightarrow> cptr \<Rightarrow> addr option \<Rightarrow> aptr \<Rightarrow> addr \<Rightarrow> u8 list \<Rightarrow> 'h xy_state \<Rightarrow> 'h xy_state option" where
  "mod_XY_CALL_SELF E c retp adapter a args s =
     do { (_, s1) \<leftarrow> via c Api_call_self (xy_call_self E retp (Some adapter) (Some a)) (s\<lparr>bufs := (bufs s)(a \<mapsto> args)\<rparr>);
          Some (s1\<lparr>bufs := (bufs s1)(a := None)\<rparr>) }"

definition xy_mod_load :: "'h env \<Rightarrow> cptr \<Rightarrow> string \<Rightarrow> 'h xy_state \<Rightarrow> (int \<times> 'h xy_state) option" where
  "xy_mod_load E n f = via n Api_load (xy_load E f)"

definition xy_mod_deny :: "'h env \<Rightarrow> cptr \<Rightarrow> string \<Rightarrow> xy_deny_type \<Rightarrow> 'h xy_state \<Rightarrow> (int \<times> 'h xy_state) option" where
  "xy_mod_deny E n w t = via n Api_deny (xy_deny E w t)"

definition xy_mod_require_claim ::
  "'h env \<Rightarrow> cptr \<Rightarrow> fnptr option \<Rightarrow> addr option \<Rightarrow> 'h xy_state \<Rightarrow> (int \<times> 'h xy_state) option" where
  "xy_mod_require_claim E n fn ud = via n Api_require_claim (xy_require_claim E fn ud)"

definition xy_mod_region_each ::
  "'h env \<Rightarrow> cptr \<Rightarrow> fnptr \<Rightarrow> addr option \<Rightarrow> 'h xy_state \<Rightarrow> (int \<times> 'h xy_state) option" where
  "xy_mod_region_each E n fn ud = via n Api_region_each (xy_region_each E fn ud)"

definition xy_mod_with_region ::
  "'h env \<Rightarrow> cptr \<Rightarrow> u64 \<Rightarrow> u8 \<Rightarrow> fnptr option \<Rightarrow> addr option \<Rightarrow> 'h xy_state \<Rightarrow> (int \<times> 'h xy_state) option" where
  "xy_mod_with_region E n region_id plen fn ud = via n Api_with_region (xy_with_region E region_id plen fn ud)"

definition mod_current_region :: "'h env \<Rightarrow> cptr \<Rightarrow> 'h xy_state \<Rightarrow> (u64 \<times> 'h xy_state) option" where
  "mod_current_region E n = via n Api_current_region (xy_current_region E)"

definition xy_mod_current_region_plen :: "'h env \<Rightarrow> cptr \<Rightarrow> 'h xy_state \<Rightarrow> (u8 \<times> 'h xy_state) option" where
  "xy_mod_current_region_plen E n = via_or n Api_current_region_plen 0 (xy_current_region_plen E)"

definition xy_mod_region_exists :: "'h env \<Rightarrow> cptr \<Rightarrow> u64 \<Rightarrow> u8 \<Rightarrow> 'h xy_state \<Rightarrow> (int \<times> 'h xy_state) option" where
  "xy_mod_region_exists E n region_id plen =
     via_or n Api_region_exists XY_ERR_NOTFOUND (xy_region_exists E region_id plen)"

definition xy_mod_claim_at ::
  "'h env \<Rightarrow> cptr \<Rightarrow> u64 \<Rightarrow> u8 \<Rightarrow> fnptr option \<Rightarrow> addr option \<Rightarrow> 'h xy_state \<Rightarrow> (int \<times> 'h xy_state) option" where
  "xy_mod_claim_at E n i plen fn ud = via_or n Api_claim_at XY_ERR_INVALID (xy_claim_at E i plen fn ud)"

definition xy_mod_region_at :: "'h env \<Rightarrow> cptr \<Rightarrow> u64 \<Rightarrow> u8 \<Rightarrow> 'h xy_state \<Rightarrow> ((u64 \<times> u8) \<times> 'h xy_state) option" where
  "xy_mod_region_at E n prefix_id plen =
     via_or n Api_region_at (XY_REGION_INVALID, 0) (xy_region_at E prefix_id plen)"

definition xy_mod_unload :: "'h env \<Rightarrow> cptr \<Rightarrow> string \<Rightarrow> 'h xy_state \<Rightarrow> (int \<times> 'h xy_state) option" where
  "xy_mod_unload E n f = via n Api_unload (xy_unload E f)"

definition xy_mod_reload :: "'h env \<Rightarrow> cptr \<Rightarrow> string \<Rightarrow> 'h xy_state \<Rightarrow> (int \<times> 'h xy_state) option" where
  "xy_mod_reload E n f = via n Api_reload (xy_reload E f)"

text \<open>\<^verbatim>\<open>xy_my_region()\<close> and the block behind \<^verbatim>\<open>XY_RS\<close>; the size \<^verbatim>\<open>XY_REGION_INIT\<close> exports.\<close>

definition xy_my_region :: "cptr \<Rightarrow> 'h xy_state \<Rightarrow> u64 option" where
  "xy_my_region c s = do { x \<leftarrow> ctxs s c; Some (cx_region_id x) }"

definition XY_RS :: "cptr \<Rightarrow> 'h xy_state \<Rightarrow> addr option option" where
  "XY_RS c s = do { x \<leftarrow> ctxs s c; Some (cx_region_state x) }"

end
