(* ===== verification/Xy_Wasm.thy ===== *)
theory Xy_Wasm
  imports Xy_Types
begin

text \<open>
  The WebAssembly build of the library, from \<^verbatim>\<open>src/libxylem-wasm.c\<close>: one process-wide table of at
  most 256 hooks, each with a linked list of listeners, and a dispatch that calls every listener
  of the hook. It has no regions and no deny lists; the calls that need them are stubs.

  A listener's code runs through the \<^verbatim>\<open>call\<close> pointer of its adapter and may call back into the
  library: it is a parameter from a state to a state. A list node is a cell of a heap, so that
  a listener that is registered while its hook runs is reached by the running walk, as in the code.
\<close>

section \<open>State\<close>

record xy_wasm_listener =
  wl_adapter :: "aptr option"
  wl_next :: "nat option"

record xy_wasm_hook_slot =
  ws_name :: string
  ws_listeners :: "nat option"
  ws_hook_id :: int

type_synonym wasm_mem = "addr \<Rightarrow> u8 list option"

record wasm =
  g_xy_hooks :: "xy_wasm_hook_slot list"
  g_xy_err :: int
  g_xy_last_ran :: nat
  g_xy_last_retp :: "addr option"
  g_xy_current_adapter :: "aptr option"
  wasm_nodes :: "nat \<Rightarrow> xy_wasm_listener option"
  wasm_next :: nat
  wasm_adapters :: "aptr \<Rightarrow> xy_adapter option"
  wasm_bufs :: wasm_mem

text \<open>The listeners' code, the allocator, and the two functions the embedder imports.\<close>

record wasm_env =
  wasm_call :: "fnptr \<Rightarrow> addr option \<Rightarrow> addr option \<Rightarrow> wasm \<Rightarrow> wasm option"
  wasm_malloc_ok :: "wasm \<Rightarrow> bool"
  wasm_scope :: "fnptr \<Rightarrow> addr option \<Rightarrow> wasm \<Rightarrow> (int \<times> wasm) option"
  wasm_xy_load_module :: "string \<Rightarrow> nat \<Rightarrow> int"
  wasm_xy_unload_module :: "string \<Rightarrow> nat \<Rightarrow> int"

definition XY_WASM_MAX_HOOKS :: nat where "XY_WASM_MAX_HOOKS = 256"

definition wasm_init :: "(aptr \<Rightarrow> xy_adapter option) \<Rightarrow> (addr \<Rightarrow> u8 list option) \<Rightarrow> wasm" where
  "wasm_init ads bs =
     \<lparr>g_xy_hooks = [], g_xy_err = XY_OK, g_xy_last_ran = 0, g_xy_last_retp = None, g_xy_current_adapter = None,
      wasm_nodes = (\<lambda>_. None), wasm_next = 0, wasm_adapters = ads, wasm_bufs = bs\<rparr>"

definition wasm_fail :: "int \<Rightarrow> wasm \<Rightarrow> int \<times> wasm" where
  "wasm_fail e w = (e, w\<lparr>g_xy_err := e\<rparr>)"

definition wasm_xy_errno :: "wasm \<Rightarrow> int" where
  "wasm_xy_errno w = g_xy_err w"

definition wasm_xy_strerror :: "int \<Rightarrow> string" where
  "wasm_xy_strerror e =
     (if e = XY_OK then ''Success''
      else if e = XY_ERR_NOTFOUND then ''Hook or listener not found''
      else if e = XY_ERR_INVALID then ''Invalid argument''
      else if e = XY_ERR_TOOBIG then ''Return size exceeds limit''
      else ''Xylem error'')"


section \<open>Registration\<close>

text \<open>The scan \<^verbatim>\<open>strcmp(g_xy_hooks[i].name, name) == 0\<close>.\<close>

fun wasm_find :: "xy_wasm_hook_slot list \<Rightarrow> string \<Rightarrow> nat option" where
  "wasm_find [] name = None"
| "wasm_find (h # hs) name = (if ws_name h = name then Some 0 else map_option Suc (wasm_find hs name))"

definition wasm_nxt :: "wasm \<Rightarrow> nat \<Rightarrow> nat option option" where
  "wasm_nxt w p = map_option wl_next (wasm_nodes w p)"

text \<open>\<^verbatim>\<open>while (tail->next) tail = tail->next;\<close> with the number of nodes as fuel.\<close>

fun wasm_tail :: "wasm \<Rightarrow> nat \<Rightarrow> nat \<Rightarrow> nat option" where
  "wasm_tail w 0 p = None"
| "wasm_tail w (Suc n) p = do { y \<leftarrow> wasm_nxt w p; case y of None \<Rightarrow> Some p | Some q \<Rightarrow> wasm_tail w n q }"

definition wasm_new :: "aptr \<Rightarrow> wasm \<Rightarrow> nat \<times> wasm" where
  "wasm_new a w =
     (wasm_next w, w\<lparr>wasm_nodes := (wasm_nodes w)(wasm_next w \<mapsto> \<lparr>wl_adapter = Some a, wl_next = None\<rparr>),
                    wasm_next := Suc (wasm_next w)\<rparr>)"

definition wasm_link :: "nat \<Rightarrow> nat \<Rightarrow> wasm \<Rightarrow> wasm option" where
  "wasm_link i l w =
     (case ws_listeners (g_xy_hooks w ! i) of
        None \<Rightarrow> Some (w\<lparr>g_xy_hooks := (g_xy_hooks w)[i := (g_xy_hooks w ! i)\<lparr>ws_listeners := Some l\<rparr>]\<rparr>)
      | Some p \<Rightarrow>
          do { t \<leftarrow> wasm_tail w (wasm_next w) p;
               Some (w\<lparr>wasm_nodes := (wasm_nodes w)(t := map_option (\<lambda>n. n\<lparr>wl_next := Some l\<rparr>) (wasm_nodes w t))\<rparr>) })"

definition set_hook_id :: "aptr \<Rightarrow> int \<Rightarrow> wasm \<Rightarrow> wasm" where
  "set_hook_id a i w =
     w\<lparr>wasm_adapters := (wasm_adapters w)(a := map_option (\<lambda>ad. ad\<lparr>ad_hook_id := i\<rparr>) (wasm_adapters w a))\<rparr>"

text \<open>\<^verbatim>\<open>return (unsigned)-1\<close> with its error.\<close>

definition areg_fail :: "int \<Rightarrow> wasm \<Rightarrow> u32 \<times> wasm" where
  "areg_fail e w = (-1, w\<lparr>g_xy_err := e\<rparr>)"

definition wasm_xy_areg ::
  "wasm_env \<Rightarrow> string option \<Rightarrow> aptr option \<Rightarrow> wasm \<Rightarrow> (u32 \<times> wasm) option" where
  "wasm_xy_areg W name adapter w =
     (case (name, adapter) of
        (Some nm, Some a) \<Rightarrow>
          do { ad \<leftarrow> wasm_adapters w a;
               if ad_ret_size ad > XY_MAX_RET_SIZE then Some (areg_fail XY_ERR_TOOBIG w)
               else case wasm_find (g_xy_hooks w) nm of
                 Some i \<Rightarrow>
                   (let hid = ws_hook_id (g_xy_hooks w ! i); w1 = set_hook_id a hid w
                    in if \<not> wasm_malloc_ok W w1 then Some (areg_fail XY_ERR_INIT w1)
                       else let (l, w2) = wasm_new a w1
                            in do { w3 \<leftarrow> wasm_link i l w2;
                                    Some (word_of_int hid, w3\<lparr>g_xy_err := XY_OK\<rparr>) })
               | None \<Rightarrow>
                   if length (g_xy_hooks w) \<ge> XY_WASM_MAX_HOOKS then Some (areg_fail XY_ERR_TOOBIG w)
                   else let i = length (g_xy_hooks w);
                            w1 = w\<lparr>g_xy_hooks := g_xy_hooks w @
                                     [\<lparr>ws_name = take 63 nm, ws_listeners = None, ws_hook_id = int i\<rparr>]\<rparr>
                        in if \<not> wasm_malloc_ok W w1 then Some (areg_fail XY_ERR_INIT w1)
                           else let (l, w2) = wasm_new a w1;
                                    w3 = w2\<lparr>g_xy_hooks := (g_xy_hooks w2)[i := (g_xy_hooks w2 ! i)\<lparr>ws_listeners := Some l\<rparr>]\<rparr>
                                in Some (word_of_int (int i), (set_hook_id a (int i) w3)\<lparr>g_xy_err := XY_OK\<rparr>) }
      | _ \<Rightarrow> Some (areg_fail XY_ERR_INVALID w))"


section \<open>Dispatch\<close>

definition wasm_write :: "addr \<Rightarrow> u8 list \<Rightarrow> wasm \<Rightarrow> wasm option" where
  "wasm_write a bs w =
     do { b \<leftarrow> wasm_bufs w a;
          if length bs \<le> length b then Some (w\<lparr>wasm_bufs := (wasm_bufs w)(a \<mapsto> bs @ drop (length bs) b)\<rparr>) else None }"

text \<open>
  The walk over the listeners. It may not end: a listener that registers another one on the same
  hook each time it is called keeps the list growing ahead of the walk.
\<close>

partial_function (option) wasm_walk ::
  "wasm_env \<Rightarrow> addr option \<Rightarrow> addr option \<Rightarrow> nat option \<Rightarrow> nat \<Rightarrow> wasm \<Rightarrow> wasm option" where
  "wasm_walk W retp arg cur n w =
     (case cur of
        None \<Rightarrow> Some w
      | Some p \<Rightarrow>
          do { l \<leftarrow> wasm_nodes w p;
               r \<leftarrow> (case wl_adapter l of
                       None \<Rightarrow> Some (n, w)
                     | Some a \<Rightarrow>
                         do { ad \<leftarrow> wasm_adapters w a;
                              case ad_call ad of
                                None \<Rightarrow> Some (n, w)
                              | Some f \<Rightarrow> do { w1 \<leftarrow> wasm_call W f retp arg w;
                                            Some (Suc n, w1\<lparr>g_xy_last_ran := Suc n\<rparr>) } });
               l1 \<leftarrow> wasm_nodes (snd r) p;
               wasm_walk W retp arg (wl_next l1) (fst r) (snd r) })"

text \<open>The hook of an adapter: by its id when the name at that id is its own, else by the scan.\<close>

definition wasm_hook_of :: "aptr \<Rightarrow> xy_adapter \<Rightarrow> wasm \<Rightarrow> nat option \<times> wasm" where
  "wasm_hook_of reg ad w =
     (let i = ad_hook_id ad
      in if i < 0 \<or> nat i \<ge> length (g_xy_hooks w) \<or> ws_name (g_xy_hooks w ! nat i) \<noteq> ad_name ad
         then (case wasm_find (g_xy_hooks w) (ad_name ad) of
                 None \<Rightarrow> (None, w)
               | Some j \<Rightarrow> (Some j, set_hook_id reg (int j) w))
         else (Some (nat i), w))"

definition wasm_xy_call ::
  "wasm_env \<Rightarrow> addr option \<Rightarrow> aptr option \<Rightarrow> addr option \<Rightarrow> wasm \<Rightarrow> (int \<times> wasm) option" where
  "wasm_xy_call W retp reg arg w =
     (case reg of
        None \<Rightarrow> Some (wasm_fail XY_ERR_INVALID w)
      | Some r \<Rightarrow>
          do { ad \<leftarrow> wasm_adapters w r;
               let (hk, w1) = wasm_hook_of r ad w;
               (case hk \<bind> (\<lambda>i. ws_listeners (g_xy_hooks w1 ! i)) of
                  None \<Rightarrow>
                    do { w2 \<leftarrow> (case retp of
                                  Some a \<Rightarrow> if ad_ret_size ad > 0 then wasm_write a (replicate (ad_ret_size ad) 0) w1
                                           else Some w1
                                | None \<Rightarrow> Some w1);
                         Some (wasm_fail XY_ERR_NOTFOUND w2) }
                | Some l \<Rightarrow>
                    do { w2 \<leftarrow> wasm_walk W retp arg (Some l) 0
                                 (w1\<lparr>g_xy_current_adapter := Some r, g_xy_last_retp := retp, g_xy_last_ran := 0\<rparr>);
                         Some (wasm_fail XY_OK w2) }) })"

definition wasm_xy_call_self ::
  "wasm_env \<Rightarrow> addr option \<Rightarrow> aptr option \<Rightarrow> addr option \<Rightarrow> wasm \<Rightarrow> (int \<times> wasm) option" where
  "wasm_xy_call_self W retp reg arg w = wasm_xy_call W retp reg arg w"

definition wasm_xy_last :: "addr option \<Rightarrow> wasm \<Rightarrow> (int \<times> wasm) option" where
  "wasm_xy_last ret w =
     (if g_xy_last_ran w = 0 then Some (wasm_fail XY_ERR_NOTFOUND w)
      else case (ret, g_xy_last_retp w, g_xy_current_adapter w) of
        (Some d, Some p, Some a) \<Rightarrow>
          do { ad \<leftarrow> wasm_adapters w a; b \<leftarrow> wasm_bufs w p;
               if ad_ret_size ad \<le> length b
               then do { w1 \<leftarrow> wasm_write d (take (ad_ret_size ad) b) w; Some (wasm_fail XY_OK w1) }
               else None }
      | _ \<Rightarrow> Some (wasm_fail XY_OK w))"


section \<open>Stubs and the context table\<close>

definition wasm_xy_current_region :: "wasm \<Rightarrow> u64" where "wasm_xy_current_region w = 0"
definition wasm_xy_current_region_plen :: "wasm \<Rightarrow> u8" where "wasm_xy_current_region_plen w = 0"

definition wasm_xy_with_region ::
  "wasm_env \<Rightarrow> u64 \<Rightarrow> u8 \<Rightarrow> fnptr option \<Rightarrow> addr option \<Rightarrow> wasm \<Rightarrow> (int \<times> wasm) option" where
  "wasm_xy_with_region W rid plen fn ud w = (case fn of Some f \<Rightarrow> wasm_scope W f ud w | None \<Rightarrow> Some (0, w))"

definition wasm_xy_claim_at :: "u64 \<Rightarrow> u8 \<Rightarrow> wasm \<Rightarrow> int \<times> wasm" where
  "wasm_xy_claim_at rid plen w = (0, w)"
definition wasm_xy_region_exists :: "u64 \<Rightarrow> u8 \<Rightarrow> wasm \<Rightarrow> int \<times> wasm" where
  "wasm_xy_region_exists rid plen w = (0, w)"
definition wasm_xy_deny :: "string \<Rightarrow> xy_deny_type \<Rightarrow> wasm \<Rightarrow> int \<times> wasm" where
  "wasm_xy_deny what type w = (0, w)"

text \<open>The \<^verbatim>\<open>__wasm__\<close> branch of the two loaders.\<close>

definition wasm_xy_load :: "wasm_env \<Rightarrow> string option \<Rightarrow> int" where
  "wasm_xy_load W fname = (case fname of None \<Rightarrow> XY_ERR_INVALID | Some f \<Rightarrow> wasm_xy_load_module W f (length f))"
definition wasm_xy_unload :: "wasm_env \<Rightarrow> string option \<Rightarrow> int" where
  "wasm_xy_unload W fname = (case fname of None \<Rightarrow> XY_ERR_INVALID | Some f \<Rightarrow> wasm_xy_unload_module W f (length f))"
definition wasm_xy_reload :: "string option \<Rightarrow> wasm \<Rightarrow> int \<times> wasm" where
  "wasm_xy_reload fname w = (0, w)"

text \<open>The assignments, field and function.\<close>

definition wasm_fns :: "(xy_api \<times> xy_api) list" where
  "wasm_fns =
     [(Api_call, Api_call), (Api_call_self, Api_call_self), (Api_areg, Api_areg), (Api_last, Api_last),
      (Api_load, Api_load), (Api_unload, Api_unload), (Api_reload, Api_reload), (Api_region_exists, Api_region_exists),
      (Api_current_region, Api_current_region), (Api_current_region_plen, Api_current_region_plen),
      (Api_with_region, Api_with_region), (Api_claim_at, Api_claim_at), (Api_deny, Api_deny)]"

definition wasm_xy_init_ctx :: "xy_t option \<Rightarrow> xy_t option" where
  "wasm_xy_init_ctx ctx =
     map_option (\<lambda>_. \<lparr>cx_fns = map_of wasm_fns, cx_adapter = None,
                    cx_module_path = None, cx_region_id = 0, cx_region_state = None\<rparr>) ctx"

text \<open>\<^verbatim>\<open>get_xy_ptr\<close> is a weak symbol: absent, or a function that gives a context or null.\<close>

definition wasm_start :: "xy_t option option \<Rightarrow> xy_t option" where
  "wasm_start get_xy_ptr = (case get_xy_ptr of None \<Rightarrow> None | Some p \<Rightarrow> wasm_xy_init_ctx p)"

end
