(* ===== verification/Xy_Modside_Props.thy ===== *)
theory Xy_Modside_Props
  imports Xy_Modside Xy_Dispatch_Props Xy_Wasm
begin

text \<open>
  Typed hooks, end to end: what the function a hook's declaration defines returns, through
  adoption of the registered adapter, dispatch, and the unpacking code of the definition; and
  what the module-side functions do with the context the host fills in.
\<close>

section \<open>Adapters and buffers are no part of the invariants\<close>

definition other_data :: "'h xy_state \<Rightarrow> 'h xy_state \<Rightarrow> bool" where
  "other_data s t \<longleftrightarrow>
     t = s\<lparr>adapters := adapters t, bufs := bufs t,
           xy_rt := (xy_rt s)\<lparr>xy_adapter_by_id := xy_adapter_by_id (xy_rt t)\<rparr>\<rparr>"

lemma other_data_reads:
  assumes "other_data s t"
  shows "regions t = regions s" "mods t = mods s" "ctxs t = ctxs s" "st_corm t = st_corm s" "next_addr t = next_addr s"
    "slot_arrays t = slot_arrays s" "xy_current_region_entry t = xy_current_region_entry s"
    "xy_current_region_id t = xy_current_region_id s" "xy_last_retbuf t = xy_last_retbuf s"
    "xy_rt t = (xy_rt s)\<lparr>xy_adapter_by_id := xy_adapter_by_id (xy_rt t)\<rparr>"
  by (subst assms [unfolded other_data_def], simp)+

lemma other_data_inv:
  assumes "other_data s t"
  shows "disp_ready E t = disp_ready E s" "ancestors t = ancestors s" "denied_hook_names t = denied_hook_names s"
    "hook_vec E t = hook_vec E s" "cache_fresh E t = cache_fresh E s" "vec_for t = vec_for s"
    "hook_reg E t = hook_reg E s"
proof -
  note rd = other_data_reads [OF assms]
  have h: "hook_id_hd (xy_rt t) = hook_id_hd (xy_rt s)" "region_hd (xy_rt t) = region_hd (xy_rt s)" "mod_hd (xy_rt t) = mod_hd (xy_rt s)"
    "path_intern_hd (xy_rt t) = path_intern_hd (xy_rt s)" "sica_hd (xy_rt t) = sica_hd (xy_rt s)" "xy_inited (xy_rt t) = xy_inited (xy_rt s)"
    "xy_hook_id_counter (xy_rt t) = xy_hook_id_counter (xy_rt s)" by (subst rd(10), simp)+
  have tab: "tbl_get E t = tbl_get E s" "tbl_single E t = tbl_single E s"
    by (rule tbl_get_cong [OF rd(4)]) (rule tbl_single_cong [OF rd(4)])
  have tree: "r_key t = r_key s" "r_parent t = r_parent s" "r_gen t = r_gen s" "tree_wf t = tree_wf s"
    by (simp_all add: fun_eq_iff r_key_def r_parent_def r_gen_def rd(1) tree_wf_cong [OF rd(1,5)])
  have links: "mod_next t = mod_next s" "mod_prev t = mod_prev s" "mod_region t = mod_region s"
    by (simp_all add: fun_eq_iff mod_next_def mod_prev_def mod_region_def rd(2))
  have mo: "mods_of t = mods_of s" by (simp add: fun_eq_iff mods_of_def links rd(1))
  have anc: "ancestor_loop t n q = ancestor_loop s n q" for n q
  proof (induction n arbitrary: q)
    case 0 show ?case by (cases q) simp_all
  next
    case (Suc n) then show ?case by (cases q) (simp_all add: rd(1))
  qed
  show anc': "ancestors t = ancestors s" by (simp add: fun_eq_iff ancestors_def anc)
  have sub: "subtree t = subtree s" by (simp add: fun_eq_iff subtree_def tree anc')
  show dn: "denied_hook_names t = denied_hook_names s" by (simp add: fun_eq_iff denied_hook_names_def rd(1))
  have dm: "denied_mods t = denied_mods s" by (simp add: fun_eq_iff denied_mods_def rd(1))
  have mi: "mods_in t = mods_in s" by (simp add: fun_eq_iff mods_in_def mo)
  show vf: "vec_for t = vec_for s" 
    using preorder_cong [OF mo] by (simp add: fun_eq_iff vec_for_def sub mi r_head_def [abs_def] sib_next_def [abs_def] rd(1))
  show hr: "hook_reg E t = hook_reg E s" by (simp add: fun_eq_iff hook_reg_def tab h)
  have hc: "hook_cache t = hook_cache s" by (simp add: fun_eq_iff hook_cache_def rd(1))
  have so: "slots_of t = slots_of s" by (simp add: fun_eq_iff slots_of_def rd(6) split: option.splits)
  show hv: "hook_vec E t = hook_vec E s"
    by (simp add: fun_eq_iff hook_vec_def hears_def [abs_def] hook_slot_def [abs_def] denied_anc_def dm rd(2))
  show "cache_fresh E t = cache_fresh E s" by (simp add: fun_eq_iff cache_fresh_def hc so hv rd(1))
  have ds: "dset t = dset s" "rt_list t = rt_list s" by (simp_all add: fun_eq_iff dset_def rd(1) rt_list_def h Let_def)
  have "deny_inv E t = deny_inv E s" unfolding deny_inv_def set_agrees_def rt_handles_def ds tab ..
  moreover have "slots_wf t = slots_wf s" unfolding slots_wf_def hc cell_ok_def rd(5,6) ..
  ultimately have di: "disp_inv E t = disp_inv E s"
    by (simp add: disp_inv_def caches_ok_def hooks_wf_def hr rd(2) h)
  have "ready E t = ready E s"
    by (simp add: ready_def region_wf_def table_wf_def current_wf_def tree tab h rd(7,8))
  moreover have "mods_wf t = mods_wf s" by (simp add: mods_wf_def mo rd(1,2,5))
  moreover have "vec_ok t = vec_ok s" by (simp add: vec_ok_def vf rd(1))
  moreover have "ctx_live t = ctx_live s" by (simp add: ctx_live_def rd(2,3))
  moreover have "flags_ok t = flags_ok s" by (simp add: flags_ok_def dn rd(1))
  ultimately show "disp_ready E t = disp_ready E s" by (simp add: disp_ready_def di rd(9))
qed


section \<open>The first call through a declaration\<close>

text \<open>What the declaration's adapter holds after its first dispatch: id, function and sizes of the registered one.\<close>

definition adopted :: "string \<Rightarrow> int \<Rightarrow> xy_adapter \<Rightarrow> xy_adapter" where
  "adopted name h C =
     \<lparr>ad_name = name, ad_arg_size = ad_arg_size C, ad_ret_size = ad_ret_size C, ad_call = ad_call C, ad_hook_id = h\<rparr>"

definition declared ::
  "'h env \<Rightarrow> 'h xy_state \<Rightarrow> aptr \<Rightarrow> string \<Rightarrow> nat \<Rightarrow> nat \<Rightarrow> int \<Rightarrow> xy_adapter \<Rightarrow> fnptr \<Rightarrow> bool" where
  "declared E s ad name k n h C f \<longleftrightarrow>
     adapters s ad = Some (decl_adapter name k n) \<and> hook_reg E s name h \<and>
     (\<exists>ca. canonical_adapter s h = Some ca \<and> ca \<noteq> ad \<and> adapters s ca = Some C) \<and>
     ad_call C = Some f \<and> ad_ret_size C \<le> XY_MAX_RET_SIZE"

lemma declared_bufs: "declared E (s\<lparr>bufs := b\<rparr>) = declared E s"
  by (simp add: fun_eq_iff declared_def hook_reg_def canonical_adapter_def tbl_get_def)

lemma stub_adopts:
  assumes rd: "disp_ready E s" and d: "declared E s ad name k n h C f"
  defines "t \<equiv> upd_adapter ad (\<lambda>_. adopted name h C) s"
  shows "xy_call E retp (Some ad) arg s = xy_call E retp (Some ad) arg t" "other_data s t" "adapter_ok E t ad (adopted name h C) f None"
proof -
  note d' = d [unfolded declared_def]
  have h0: "0 \<le> h" and ini: "xy_inited (xy_rt s)" using rd d' readyD(4) unfolding disp_ready_def disp_inv_def hooks_wf_def by blast+
  show od: "other_data s t" by (simp add: t_def other_data_def upd_adapter_def)
  have ad: "adapters t ad = Some (adopted name h C)" using d' by (simp add: t_def upd_adapter_def)
  show "adapter_ok E t ad (adopted name h C) f None"
    using d' ad by (simp add: adapter_ok_def adopted_def other_data_inv(7) [OF od])
  have hs: "dispatch_hook E ad s = Some (Inr (h, f), t)"
  proof -
    from d' obtain ca where ca: "canonical_adapter s h = Some ca" "ca \<noteq> ad" "adapters s ca = Some C" by blast
    let ?s1 = "upd_adapter ad (\<lambda>a. a\<lparr>ad_hook_id := h\<rparr>) s"
    have "canonical_adapter ?s1 h = canonical_adapter s h" by (simp add: canonical_adapter_def upd_adapter_def)
    then have "canonical_adapter ?s1 h = Some ca" "adapters ?s1 ca = Some C" using ca by (simp_all add: upd_adapter_def)
    moreover have "upd_adapter ad (\<lambda>a. a\<lparr>ad_call := ad_call C, ad_ret_size := ad_ret_size C, ad_arg_size := ad_arg_size C\<rparr>) ?s1 = t"
      using d' by (simp add: t_def upd_adapter_def adopted_def decl_adapter_def)
    ultimately have "adopt_hook_id E ad s = Some (Inr h, t)"
      using d' by (simp add: adopt_hook_id_def hook_reg_def decl_adapter_def)
    then show ?thesis using d' ad by (simp add: dispatch_hook_def adopted_def)
  qed
  have ht: "dispatch_hook E ad t = Some (Inr (h, f), t)"
    using d' ad h0 by (simp add: dispatch_hook_def adopt_hook_id_def adopted_def)
  have same: "xy_rt t = xy_rt s" "region_current_plen t = region_current_plen s" "xy_current_region_id t = xy_current_region_id s"
    "xy_current_region_entry t = xy_current_region_entry s"
    by (simp_all add: t_def upd_adapter_def region_current_plen_def cong: option.case_cong)
  show "xy_call E retp (Some ad) arg s = xy_call E retp (Some ad) arg t"
    using ini by (simp add: xy_call_def xy_dispatch_def hs ht same)
qed

lemma stub_scope:
  assumes mem: "never_oom E" and q: "quiet E eff" and rd: "disp_ready E s" and cur: "xy_current_region_entry s = Some p"
    and d: "declared E s ad name k n h C f"
    and nd: "\<And>q. q \<in> set (ancestors s p) - {p} \<Longrightarrow> name \<notin> denied_hook_names s q"
    and fresh: "cache_fresh E s p h name (rev (ancestors s p))"
  shows "\<exists>L t. vec_for s p L \<and>
     xy_call E (Some r) (Some ad) arg (s\<lparr>bufs := b\<rparr>) =
       dispatch_finish (length (hook_vec E s (rev (ancestors s p)) name L)) (Some r) ad t \<and>
     adapters t ad = Some (adopted name h C) \<and> length (xy_last_retbuf t) = XY_MAX_RET_SIZE \<and>
     bufs t = run_all eff f (Some r) arg (hook_vec E s (rev (ancestors s p)) name L) b"
proof -
  let ?b = "s\<lparr>bufs := b\<rparr>"
  define u where "u = upd_adapter ad (\<lambda>_. adopted name h C) ?b"
  have ob: "other_data s ?b" by (simp add: other_data_def)
  have rb: "disp_ready E ?b" using rd other_data_inv(1) [OF ob] by simp
  have db: "declared E ?b ad name k n h C f" using d by (simp add: declared_bufs)
  note ad = stub_adopts [OF rb db, folded u_def]
  have ou: "other_data s u" by (simp add: u_def other_data_def upd_adapter_def)
  note inv = other_data_inv [OF ou] and rds = other_data_reads [OF ou]
  have A: "ad_name (adopted name h C) = name" "ad_hook_id (adopted name h C) = h" by (simp_all add: adopted_def)
  have "disp_ready E u" "xy_current_region_entry u = Some p" using rd cur inv rds by simp_all
  from call_scope [OF mem q this ad(3), of "Some r" arg, unfolded A inv] nd fresh obtain L t where
    t: "vec_for s p L" "xy_call E (Some r) (Some ad) arg u =
       dispatch_finish (length (hook_vec E s (rev (ancestors s p)) name L)) (Some r) ad t" "adapters t = adapters u"
      "bufs t = run_all eff f (Some r) arg (hook_vec E s (rev (ancestors s p)) name L) (bufs u)"
      "length (xy_last_retbuf t) = XY_MAX_RET_SIZE" by blast
  have "bufs u = b" by (simp add: u_def upd_adapter_def)
  moreover have "adapters u ad = Some (adopted name h C)" using d by (simp add: u_def upd_adapter_def declared_def)
  ultimately show ?thesis using t ad(1) [of "Some r" arg] by (intro exI [of _ L] exI [of _ t]) simp
qed

text \<open>The function of a slot.\<close>

fun slot_fn :: "fn_slot \<Rightarrow> fnptr" where
  "slot_fn (Fn f) = f"
| "slot_fn _ = 0"

lemma hook_vec_fn:
  assumes "sl \<in> set (hook_vec E s anc name L)"
  shows "sl_cb sl = Fn (slot_fn (sl_cb sl))"
  using assms by (auto simp: hook_vec_def hears_def hook_slot_def slot_for_def slot_of_def)

text \<open>What typed listeners leave in the return buffer: the result of the last.\<close>

lemma run_all_typed:
  assumes eff: "\<And>g b v. b r = Some v \<Longrightarrow> length v = n \<Longrightarrow> b a = Some args \<Longrightarrow>
      eff f (Some r) (Fn g) (Some a) b = b(r \<mapsto> body g args)"
    and len: "\<And>g. length (body g args) = n" and "r \<noteq> a"
    and vec: "\<And>sl. sl \<in> set vec \<Longrightarrow> sl_cb sl = Fn (slot_fn (sl_cb sl))"
    and b: "b r = Some v" "length v = n" "b a = Some args"
  shows "run_all eff f (Some r) (Some a) vec b =
    (if vec = [] then b else b(r \<mapsto> body (slot_fn (sl_cb (last vec))) args))"
  using vec b
proof (induction vec arbitrary: b v)
  case (Cons sl vec)
  have cb: "sl_cb sl = Fn (slot_fn (sl_cb sl))" using Cons.prems(1) [of sl] by simp
  have "eff f (Some r) (sl_cb sl) (Some a) b = b(r \<mapsto> body (slot_fn (sl_cb sl)) args)"
    by (subst cb) (rule eff [OF Cons.prems(2-4)])
  moreover have "run_all eff f (Some r) (Some a) vec (b(r \<mapsto> body (slot_fn (sl_cb sl)) args)) =
     (if vec = [] then b(r \<mapsto> body (slot_fn (sl_cb sl)) args)
      else (b(r \<mapsto> body (slot_fn (sl_cb sl)) args))(r \<mapsto> body (slot_fn (sl_cb (last vec))) args))"
    by (rule Cons.IH [where v = "body (slot_fn (sl_cb sl)) args"]) (use Cons.prems len \<open>r \<noteq> a\<close> in auto)
  ultimately show ?case by (cases "vec = []") (simp_all only: run_all_def fold_Cons o_apply fun_upd_upd if_True if_False last.simps list.distinct simp_thms)
qed (simp add: run_all_def)


section \<open>Properties of typed hooks\<close>

text \<open>The listeners are functions of the hook's type, run by the registered adapter's own call function.\<close>

definition typed_listeners ::
  "'h env \<Rightarrow> fnptr \<Rightarrow> (fnptr \<Rightarrow> u8 list \<Rightarrow> u8 list) \<Rightarrow> nat \<Rightarrow> nat \<Rightarrow> bool" where
  "typed_listeners E f body k n \<longleftrightarrow>
     (\<forall>g x. length (body g x) = n) \<and>
     (\<forall>r a g u v x. bufs u r = Some v \<longrightarrow> length v = n \<longrightarrow> bufs u a = Some x \<longrightarrow> length x = k \<longrightarrow> r \<noteq> a \<longrightarrow>
        run_hook E f (Some r) (Fn g) (Some a) u =
          def_adapter_call (\<lambda>g x u. Some (body g x, u)) k n (Some r) (Fn g) (Some a) u)"

lemma typed_eff:
  fixes E :: "'h env"
  assumes q: "quiet E eff" and ty: "typed_listeners E f body k n"
    and b: "b r = Some v" "length v = n" "b a = Some x" "length x = k" "r \<noteq> a"
  shows "eff f (Some r) (Fn g) (Some a) b = b(r \<mapsto> body g x)"
proof -
  fix u :: "'h xy_state"
  let ?u = "u\<lparr>bufs := b\<rparr>"
  have "length (body g x) = n" using ty unfolding typed_listeners_def by blast
  then have "def_adapter_call (\<lambda>g x u. Some (body g x, u)) k n (Some r) (Fn g) (Some a) ?u = Some (?u\<lparr>bufs := b(r \<mapsto> body g x)\<rparr>)"
    using b by (simp add: def_adapter_call_def read_args_def store_result_def buf_read_def buf_write_def)
  moreover have "run_hook E f (Some r) (Fn g) (Some a) ?u =
      def_adapter_call (\<lambda>g x u. Some (body g x, u)) k n (Some r) (Fn g) (Some a) ?u"
    using ty b unfolding typed_listeners_def by simp
  ultimately have "Some (?u\<lparr>bufs := eff f (Some r) (Fn g) (Some a) b\<rparr>) = Some (?u\<lparr>bufs := b(r \<mapsto> body g x)\<rparr>)"
    using q by (simp add: quiet_def)
  then have "bufs (?u\<lparr>bufs := eff f (Some r) (Fn g) (Some a) b\<rparr>) = bufs (?u\<lparr>bufs := b(r \<mapsto> body g x)\<rparr>)" by (rule arg_cong [OF option.inject [THEN iffD1]])
  then show ?thesis by simp
qed

text \<open>
  C14. A call through a hook's declared function has the hook's type: it comes back with exactly
  \<^verbatim>\<open>sizeof(ftype)\<close> bytes, all of them written, whatever the uninitialised local held. They are
  the result of the last listener of the caller's subtree for the given arguments, or zeros
  when nobody listens. The first call gives the declaration the id, the function and the sizes
  of the registered adapter; no other buffer of the program changes.
\<close>

theorem stub_returns_last:
  assumes "never_oom E" "quiet E eff" "disp_ready E s" "xy_current_region_entry s = Some p"
    and "declared E s ad name k n h C f" "ad_arg_size C = k" "ad_ret_size C = n" "typed_listeners E f body k n"
    and "\<forall>q \<in> set (ancestors s p) - {p}. name \<notin> denied_hook_names s q"
    and "cache_fresh E s p h name (rev (ancestors s p))"
    and "r \<noteq> a" "bufs s r = None" "bufs s a = None" "length junk = n" "length args = k"
  shows "\<exists>L vec ret t. vec_for s p L \<and> vec = hook_vec E s (rev (ancestors s p)) name L \<and>
     hook_stub E ad r a junk args s = Some (ret, t) \<and> length ret = n \<and>
     ret = (if vec = [] then replicate n 0 else body (slot_fn (sl_cb (last vec))) args) \<and>
     bufs t = bufs s \<and> adapters t ad = Some (adopted name h C)"
proof -
  let ?b = "(bufs s)(r \<mapsto> junk, a \<mapsto> args)" and ?vec = "\<lambda>L. hook_vec E s (rev (ancestors s p)) name L"
  have len: "length (body g x) = n" for g x using assms(8) unfolding typed_listeners_def by blast
  from stub_scope [OF assms(1-5) assms(9) [rule_format] assms(10), of r "Some a" ?b] obtain L t where
    t: "vec_for s p L" "xy_call E (Some r) (Some ad) (Some a) (s\<lparr>bufs := ?b\<rparr>) = dispatch_finish (length (?vec L)) (Some r) ad t"
      "adapters t ad = Some (adopted name h C)" "length (xy_last_retbuf t) = XY_MAX_RET_SIZE"
      "bufs t = run_all eff f (Some r) (Some a) (?vec L) ?b" by blast
  let ?ret = "if ?vec L = [] then replicate n 0 else body (slot_fn (sl_cb (last (?vec L)))) args"
  have run: "bufs t = (if ?vec L = [] then ?b else ?b(r \<mapsto> body (slot_fn (sl_cb (last (?vec L)))) args))"
    unfolding t(5)
    by (rule run_all_typed [where v = junk and n = n])
      (use assms(11,14,15) len hook_vec_fn typed_eff [OF assms(2,8)] in auto)
  have C: "ad_ret_size (adopted name h C) = n" "n \<le> XY_MAX_RET_SIZE" using assms(5,7) by (auto simp: adopted_def declared_def)
  have "\<exists>v. bufs t r = Some v \<and> length v = n" using run assms(11,14) len by auto
  then obtain rc u where u: "dispatch_finish (length (?vec L)) (Some r) ad t = Some (rc, u)"
      "bufs u = (if ?vec L = [] then zeroed (Some r) n (bufs t) else bufs t)" "adapters u = adapters t"
    using finish_ok [OF t(3) _ t(4), of "Some r" "length (?vec L)"] C by auto
  have bu: "bufs u = ?b(r \<mapsto> ?ret)"
    using u(2) run assms(11,14) by (auto simp: zeroed_def)
  then have "buf_read u r (length junk) = Some ?ret" using len assms(14) by (simp add: buf_read_def)
  then have "hook_stub E ad r a junk args s = Some (?ret, u\<lparr>bufs := (bufs u)(r := None, a := None)\<rparr>)"
    using t(2) u(1) by (simp add: hook_stub_def)
  moreover have "(bufs u)(r := None, a := None) = bufs s" using assms(12,13) by (auto simp: bu fun_eq_iff)
  ultimately show ?thesis using t(1,3) u(3) len
    by (intro exI [of _ L] exI [of _ "?vec L"] exI [of _ ?ret] exI [of _ "u\<lparr>bufs := (bufs u)(r := None, a := None)\<rparr>"]) simp
qed

text \<open>
  The demo process, with the hook registered by a one-byte definition and called through a
  declaration; its listener adds one to its argument. The invariants only depend on the tables
  and on the symbols of the modules.
\<close>

lemma disp_ready_env:
  assumes rd: "disp_ready E s" and co: "env_corm E' = env_corm E"
    and ca: "\<And>m e k nm. mods s m = Some e \<Longrightarrow> 0 \<le> k \<Longrightarrow> cache_ok E' e k nm"
  shows "disp_ready E' s"
proof -
  have tab: "tbl_get E' = tbl_get E" "tbl_single E' = tbl_single E" by (simp_all add: fun_eq_iff tbl_get_def tbl_single_def co)
  have hr: "hook_reg E' = hook_reg E" by (simp add: fun_eq_iff hook_reg_def tab)
  have di: "disp_inv E s" and w: "hooks_wf E s" using rd by (simp_all add: disp_ready_def disp_inv_def)
  have "deny_inv E' s = deny_inv E s" unfolding deny_inv_def set_agrees_def tab ..
  moreover have "hooks_wf E' s = hooks_wf E s" unfolding hooks_wf_def hr ..
  moreover have "caches_ok E' s" using ca w unfolding caches_ok_def hooks_wf_def hr by blast
  ultimately have "disp_inv E' s" using di by (simp add: disp_inv_def)
  moreover have "ready E' s = ready E s" by (simp add: ready_def region_wf_def table_wf_def tab)
  ultimately show ?thesis using rd by (simp add: disp_ready_def)
qed

definition demo_typed_eff :: "fnptr \<Rightarrow> addr option \<Rightarrow> fn_slot \<Rightarrow> addr option \<Rightarrow> bufs \<Rightarrow> bufs" where
  "demo_typed_eff f retp cb arg b =
     (case (retp, arg) of
        (Some r, Some a) \<Rightarrow>
          (case (b r, b a) of
             (Some v, Some x) \<Rightarrow> if length v = 1 \<and> length x = 1 then b(r \<mapsto> [hd x + 1]) else b
           | _ \<Rightarrow> b)
      | _ \<Rightarrow> b)"

definition demo_typed_env :: "bool \<Rightarrow> alist_corm env" where
  "demo_typed_env listens = demo_tick\<lparr>
     run_hook := (\<lambda>f retp cb arg s. Some (s\<lparr>bufs := demo_typed_eff f retp cb arg (bufs s)\<rparr>)),
     stl_dlsym := (\<lambda>h name. if listens then stl_dlsym demo_tick h name else None)\<rparr>"

definition demo_typed :: "nat \<Rightarrow> alist_corm xy_state" where
  "demo_typed n = demo_disp\<lparr>
     adapters := [33 \<mapsto> decl_adapter ''on_tick'' 1 1, 34 \<mapsto> (hook_adapter ''on_tick'' 1 n 99)\<lparr>ad_hook_id := 0\<rparr>],
     xy_rt := (xy_rt demo_disp)\<lparr>xy_adapter_by_id := [Some 34]\<rparr>\<rparr>"

lemma demo_typed_other: "other_data demo_disp (demo_typed n)"
  by (simp add: other_data_def demo_typed_def)

lemma demo_typed_env:
  "never_oom (demo_typed_env b)" "quiet (demo_typed_env b) demo_typed_eff" "disp_ready (demo_typed_env b) (demo_typed n)"
proof -
  show "never_oom (demo_typed_env b)" using demo_tick_quiet(2) by (simp add: never_oom_def demo_typed_env_def)
  show "quiet (demo_typed_env b) demo_typed_eff"
    by (auto simp: quiet_def demo_typed_env_def demo_typed_eff_def split: option.splits)
  have "cache_ok E e k nm" if "mods demo_disp m = Some e" "0 \<le> k" for E :: "alist_corm env" and m e k nm
    using that by (auto simp: demo_disp_fields demo_listener_def mod_zero_def cache_ok_def has_hook_iff split: if_splits)
  then have "disp_ready (demo_typed_env b) demo_disp"
    by (intro disp_ready_env [OF demo_disp_ok]) (simp_all add: demo_typed_env_def)
  then show "disp_ready (demo_typed_env b) (demo_typed n)" using other_data_inv(1) [OF demo_typed_other] by simp
qed

lemma demo_typed_declared:
  assumes "n \<le> 8"
  shows "declared (demo_typed_env b) (demo_typed n) 33 ''on_tick'' 1 1 0 ((hook_adapter ''on_tick'' 1 n 99)\<lparr>ad_hook_id := 0\<rparr>) 99"
proof -
  have "hook_reg (demo_typed_env b) demo_disp ''on_tick'' 0"
    using demo_hook_reg [of "''on_tick''" 0] by (simp add: hook_reg_def tbl_get_def demo_typed_env_def)
  then have "hook_reg (demo_typed_env b) (demo_typed n) ''on_tick'' 0" using other_data_inv(7) [OF demo_typed_other] by simp
  then show ?thesis using assms
    by (auto simp: declared_def demo_typed_def canonical_adapter_def hook_adapter_def XY_MAX_RET_SIZE_def)
qed

lemma demo_typed_listeners: "typed_listeners (demo_typed_env b) 99 (\<lambda>g x. [hd (x @ [0]) + 1]) 1 1"
  by (auto simp: typed_listeners_def demo_typed_env_def demo_typed_eff_def def_adapter_call_def read_args_def store_result_def
      buf_read_def buf_write_def length_Suc_conv)

lemma demo_typed_scope:
  "xy_current_region_entry (demo_typed n) = Some 1"
  "\<forall>q \<in> set (ancestors (demo_typed n) 1) - {1}. ''on_tick'' \<notin> denied_hook_names (demo_typed n) q"
  "cache_fresh (demo_typed_env b) (demo_typed n) 1 0 ''on_tick'' (rev (ancestors (demo_typed n) 1))"
  "bufs (demo_typed n) 60 = None" "bufs (demo_typed n) 61 = None"
proof -
  note o = other_data_inv [OF demo_typed_other] other_data_reads [OF demo_typed_other]
  show "xy_current_region_entry (demo_typed n) = Some 1" using demo_disp_current o by simp
  show "\<forall>q \<in> set (ancestors (demo_typed n) 1) - {1}. ''on_tick'' \<notin> denied_hook_names (demo_typed n) q"
    unfolding o using demo_not_denied by (simp add: demo_adapter_def)
  show "cache_fresh (demo_typed_env b) (demo_typed n) 1 0 ''on_tick'' (rev (ancestors (demo_typed n) 1))"
    unfolding o by (auto simp: cache_fresh_def hook_cache_def demo_disp_fields demo_root_def region_zero_def)
  show "bufs (demo_typed n) 60 = None" "bufs (demo_typed n) 61 = None" by (simp_all add: demo_typed_def demo_disp_fields)
qed

lemma demo_typed_vec:
  assumes "vec_for (demo_typed n) 1 L"
  shows "hook_vec (demo_typed_env b) (demo_typed n) (rev (ancestors (demo_typed n) 1)) ''on_tick'' L =
    (if b then [slot_for 10 (Fn 1005)] else [])"
proof -
  note o = other_data_inv [OF demo_typed_other]
  have "hook_vec demo_tick demo_disp (rev (ancestors demo_disp 1)) ''on_tick'' L = [slot_for 10 (Fn 1005)]"
    using demo_hook_vec assms o by (simp add: demo_adapter_def)
  moreover have "hook_fn (demo_typed_env b) e nm = (if b then hook_fn demo_tick e nm else None)" for e nm
    by (cases "me_handle e") (auto simp: hook_fn_def demo_typed_env_def)
  ultimately show ?thesis
    unfolding o by (simp add: hook_vec_def hears_def [abs_def] hook_slot_def [abs_def])
qed

theorem stub_returns_last_witness:
  "\<exists>t. hook_stub (demo_typed_env True) 33 60 61 [99] [6] (demo_typed 1) = Some ([7], t) \<and>
     adapters t 33 = Some \<lparr>ad_name = ''on_tick'', ad_arg_size = 1, ad_ret_size = 1, ad_call = Some 99, ad_hook_id = 0\<rparr>"
proof -
  let ?C = "(hook_adapter ''on_tick'' 1 1 99)\<lparr>ad_hook_id := 0\<rparr>"
  have sz: "ad_arg_size ?C = 1" "ad_ret_size ?C = 1" "(60::nat) \<noteq> 61" "length [99::u8] = 1" "length [6::u8] = 1"
    by (simp_all add: hook_adapter_def)
  have d: "declared (demo_typed_env True) (demo_typed 1) 33 ''on_tick'' 1 1 0 ?C 99" by (rule demo_typed_declared) simp
  from stub_returns_last [OF demo_typed_env demo_typed_scope(1) d sz(1,2) demo_typed_listeners demo_typed_scope(2,3) sz(3)
      demo_typed_scope(4,5) sz(4,5)] obtain L vec ret t where
    "vec_for (demo_typed 1) 1 L" "vec = hook_vec (demo_typed_env True) (demo_typed 1) (rev (ancestors (demo_typed 1) 1)) ''on_tick'' L"
    "hook_stub (demo_typed_env True) 33 60 61 [99] [6] (demo_typed 1) = Some (ret, t)"
    "ret = (if vec = [] then replicate 1 0 else [hd ([6] @ [0]) + 1])" "adapters t 33 = Some (adopted ''on_tick'' 0 ?C)" by blast
  then show ?thesis by (simp add: demo_typed_vec adopted_def hook_adapter_def del: One_nat_def)
qed

text \<open>
  C40. The sizes of a declaration and of the registered hook are not compared. When the
  declaration's return type is smaller and nobody listens, the call zeroes as many bytes as the
  registered type has, which is past the end of the local of the declared type.
\<close>

theorem narrow_stub_overruns:
  assumes "never_oom E" "quiet E eff" "disp_ready E s" "xy_current_region_entry s = Some p"
    and "declared E s ad name k n h C f" "n < ad_ret_size C" "r \<noteq> a" "length junk = n"
    and "\<forall>q \<in> set (ancestors s p) - {p}. name \<notin> denied_hook_names s q"
    and "cache_fresh E s p h name (rev (ancestors s p))"
    and "\<forall>L. vec_for s p L \<longrightarrow> hook_vec E s (rev (ancestors s p)) name L = []"
  shows "hook_stub E ad r a junk args s = None"
proof -
  let ?b = "(bufs s)(r \<mapsto> junk, a \<mapsto> args)"
  from stub_scope [OF assms(1-5) assms(9) [rule_format] assms(10), of r "Some a" ?b] assms(11) obtain t where
    t: "xy_call E (Some r) (Some ad) (Some a) (s\<lparr>bufs := ?b\<rparr>) = dispatch_finish 0 (Some r) ad t"
      "adapters t ad = Some (adopted name h C)" "bufs t = ?b" by (auto simp: run_all_def)
  then have "dispatch_finish 0 (Some r) ad t = None"
    using assms(6,7,8)
    by (simp add: dispatch_finish_def xy_set_last_ret_def xy_zero_ret_def buf_write_def adopted_def)
  with t(1) show ?thesis by (simp add: hook_stub_def)
qed

theorem narrow_stub_overruns_witness:
  "hook_stub (demo_typed_env False) 33 60 61 [99] [6] (demo_typed 2) = None"
proof -
  let ?C = "(hook_adapter ''on_tick'' 1 2 99)\<lparr>ad_hook_id := 0\<rparr>"
  have sz: "1 < ad_ret_size ?C" "(60::nat) \<noteq> 61" "length [99::u8] = 1" by (simp_all add: hook_adapter_def)
  have d: "declared (demo_typed_env False) (demo_typed 2) 33 ''on_tick'' 1 1 0 ?C 99" by (rule demo_typed_declared) simp
  have "\<forall>L. vec_for (demo_typed 2) 1 L \<longrightarrow>
      hook_vec (demo_typed_env False) (demo_typed 2) (rev (ancestors (demo_typed 2) 1)) ''on_tick'' L = []"
    by (simp add: demo_typed_vec del: One_nat_def)
  from narrow_stub_overruns [OF demo_typed_env demo_typed_scope(1) d sz demo_typed_scope(2,3) this] show ?thesis .
qed


section \<open>The module's context\<close>

lemma via_filled:
  assumes "ctxs s c = Some x" "cx_fns x f = Some f"
  shows "via c f g s = g s" "via_or c f d k s = k s"
  using assms by (simp_all add: via_def via_or_def)

text \<open>
  C33. From the moment the host has filled in a module's context, and as long as its function
  fields stay, every function and macro of \<^verbatim>\<open>xy-mod.h\<close> that goes through the context, \<^verbatim>\<open>XY_CALL\<close> and
  \<^verbatim>\<open>XY_CALL_SELF\<close> included, is the library's function of the same purpose, and so are the fields a
  module uses by hand (\<^verbatim>\<open>xy.areg\<close>, \<^verbatim>\<open>xy.last\<close>, \<^verbatim>\<open>xy.shutdown\<close>): none is null, none is another field's
  function, none answers with its default.
\<close>

theorem filled_ctx_is_the_api:
  assumes "xy_init_ctx c fname i s0 = Some s1"
    and "map_option cx_fns (ctxs s c) = map_option cx_fns (ctxs s1 c)"
  shows "xy_mod_load E c path s = xy_load E path s \<and> xy_mod_unload E c path s = xy_unload E path s \<and>
     xy_mod_reload E c path s = xy_reload E path s \<and> xy_mod_deny E c path ty s = xy_deny E path ty s \<and>
     xy_mod_require_claim E c fn ud s = xy_require_claim E fn ud s \<and>
     xy_mod_region_each E c g ud s = xy_region_each E g ud s \<and>
     xy_mod_with_region E c j plen fn ud s = xy_with_region E j plen fn ud s \<and>
     mod_current_region E c s = xy_current_region E s \<and> xy_mod_current_region_plen E c s = xy_current_region_plen E s \<and>
     xy_mod_region_exists E c j plen s = xy_region_exists E j plen s \<and>
     xy_mod_claim_at E c j plen fn ud s = xy_claim_at E j plen fn ud s \<and>
     xy_mod_region_at E c j plen s = xy_region_at E j plen s \<and>
     mod_XY_CALL E c retp ad a args s = host_XY_CALL E retp ad a args s \<and>
     mod_XY_CALL_SELF E c retp ad a args s =
       do { (_, s1) \<leftarrow> xy_call_self E retp (Some ad) (Some a) (s\<lparr>bufs := (bufs s)(a \<mapsto> args)\<rparr>);
            Some (s1\<lparr>bufs := (bufs s1)(a := None)\<rparr>) } \<and>
     via c Api_areg (xy_areg E path ad) s = xy_areg E path ad s \<and> via c Api_last (xy_last E retp) s = xy_last E retp s \<and>
     via c Api_shutdown (xy_shutdown E) s = xy_shutdown E s"
proof -
  obtain x0 x where x: "ctxs s c = Some x" "cx_fns x = cx_fns (bind_fns init_fns x0)"
    using assms by (auto simp: xy_init_ctx_def upd_ctx_def split: if_splits)
  have fn: "cx_fns x f = Some f" if "f \<notin> {Api_err, Api_strerror}" for f using that x(2) by (simp add: bind_init_fns)
  have y: "ctxs (s\<lparr>bufs := b\<rparr>) c = Some x" for b using x(1) by simp
  show ?thesis
    by (simp add: via_filled [OF x(1)] via_filled(1) [OF y] fn xy_mod_load_def xy_mod_unload_def xy_mod_reload_def xy_mod_deny_def xy_mod_require_claim_def
        xy_mod_region_each_def xy_mod_with_region_def mod_current_region_def xy_mod_current_region_plen_def
        xy_mod_region_exists_def xy_mod_claim_at_def xy_mod_region_at_def mod_XY_CALL_def host_XY_CALL_def mod_XY_CALL_SELF_def)
qed

theorem filled_ctx_is_the_api_witness:
  "\<exists>t. xy_init_ctx 20 (Some ''mods/a'') 0 demo_disp = Some t \<and> mod_current_region demo_tick 20 t = Some (0, t)"
proof -
  obtain t where t: "xy_init_ctx 20 (Some ''mods/a'') 0 demo_disp = Some t" by (simp add: xy_init_ctx_def demo_disp_fields)
  then have f: "xy_rt t = xy_rt demo_disp" "xy_current_region_id t = 0"
    by (auto simp: xy_init_ctx_def upd_ctx_def demo_disp_def demo_boot_fields split: if_splits)
  have "xy_current_region demo_tick t = Some (0, t)"
    using f by (simp add: xy_current_region_def xy_runtime_ensure_def demo_disp_def demo_boot_corm)
  with filled_ctx_is_the_api [OF t refl] t show ?thesis by simp
qed

text \<open>
  The context the WebAssembly build fills in has gaps: a module that sets a claim gate or
  enumerates child regions jumps to address 0, and \<^verbatim>\<open>xy_region_at\<close> answers that there is no
  region without asking the host. Before any host has filled it in, a context answers the four guarded
  calls with their defaults and nothing else.
\<close>

theorem wasm_ctx_gaps:
  assumes "ctxs s c = wasm_xy_init_ctx (Some x)" "ctxs s c0 = Some xy_t_zero"
  shows "xy_mod_require_claim E c fn ud s = None \<and> xy_mod_region_each E c g ud s = None \<and>
     xy_mod_region_at E c j plen s = Some ((XY_REGION_INVALID, 0), s) \<and>
     xy_mod_load E c0 path s = None \<and> mod_XY_CALL E c0 retp ad a args s = None \<and>
     xy_mod_current_region_plen E c0 s = Some (0, s) \<and> xy_mod_region_exists E c0 j plen s = Some (XY_ERR_NOTFOUND, s) \<and>
     xy_mod_claim_at E c0 j plen h ud s = Some (XY_ERR_INVALID, s) \<and>
     xy_mod_region_at E c0 j plen s = Some ((XY_REGION_INVALID, 0), s)"
  using assms
  by (simp add: wasm_xy_init_ctx_def wasm_fns_def via_def via_or_def xy_mod_require_claim_def xy_mod_region_each_def
      xy_mod_region_at_def xy_mod_load_def mod_XY_CALL_def xy_mod_current_region_plen_def xy_mod_region_exists_def
      xy_mod_claim_at_def xy_t_zero_def)

theorem wasm_ctx_gaps_witness:
  "\<exists>s. ctxs s 20 = Some xy_t_zero \<and> xy_mod_region_each demo_tick 21 5 None s = None \<and>
     xy_mod_region_exists demo_tick 20 0 0 s = Some (XY_ERR_NOTFOUND, s)"
proof -
  let ?s = "demo_disp\<lparr>ctxs := (ctxs demo_disp)(21 := wasm_xy_init_ctx (Some xy_t_zero))\<rparr>"
  have "ctxs ?s 21 = wasm_xy_init_ctx (Some xy_t_zero)" "ctxs ?s 20 = Some xy_t_zero" by (simp_all add: demo_disp_fields)
  with wasm_ctx_gaps [OF this] show ?thesis by blast
qed

end
