(* ===== verification/Xy_Napi.thy ===== *)
theory Xy_Napi
  imports Xy_Prelude
begin

text \<open>
  The hook table of the Node addon, from \<^verbatim>\<open>npm/native/xylem_napi.c\<close>. The conversions between
  JavaScript values and C (the \<^verbatim>\<open>napi_*\<close> calls) are the addon's interface: a hook name comes in
  as the NUL-terminated contents of \<^verbatim>\<open>name_buf\<close>, which
  \<^verbatim>\<open>napi_get_value_string_utf8\<close> cuts to 62 bytes.
\<close>

record XylemHookEntry =
  nh_name :: string
  nh_hook_id :: u32

definition MAX_NAPI_HOOKS :: nat where "MAX_NAPI_HOOKS = 128"

text \<open>\<^const>\<open>None\<close> is the thrown JavaScript error.\<close>

definition XylemRegisterHook :: "string \<Rightarrow> XylemHookEntry list \<Rightarrow> u32 option \<times> XylemHookEntry list" where
  "XylemRegisterHook name_buf hs =
     (if length hs \<ge> MAX_NAPI_HOOKS then (None, hs)
      else let i = of_nat (length hs)
           in (Some i, hs @ [\<lparr>nh_name = take 63 name_buf, nh_hook_id = i\<rparr>]))"

fun napi_find :: "XylemHookEntry list \<Rightarrow> string \<Rightarrow> nat option" where
  "napi_find [] name_buf = None"
| "napi_find (h # hs) name_buf = (if nh_name h = name_buf then Some 0 else map_option Suc (napi_find hs name_buf))"

definition XylemCallHook :: "string \<Rightarrow> XylemHookEntry list \<Rightarrow> int" where
  "XylemCallHook name_buf hs =
     (case napi_find hs name_buf of None \<Rightarrow> -1 | Some i \<Rightarrow> sint (nh_hook_id (hs ! i)))"

definition XylemVersion :: string where "XylemVersion = ''0.1.0''"


section \<open>The table\<close>

lemma napi_find_eq: "napi_find hs nm = first_index (\<lambda>h. nh_name h = nm) hs"
  by (induction hs) auto

interpretation napi: first_match napi_find "\<lambda>hs. hs" "\<lambda>nm h. nh_name h = nm"
  by unfold_locales (rule napi_find_eq)

text \<open>A sequence of registrations: what each of them returned, and the table after the last.\<close>

fun register_all :: "string list \<Rightarrow> XylemHookEntry list \<Rightarrow> u32 option list \<times> XylemHookEntry list" where
  "register_all [] hs = ([], hs)"
| "register_all (nm # nms) hs =
     (let (id, hs1) = XylemRegisterHook nm hs; (ids, hs2) = register_all nms hs1 in (id # ids, hs2))"

lemma map_upt_Suc_shift: "map f [0..<Suc n] = f 0 # map (\<lambda>i. f (Suc i)) [0..<n]"
  by (simp add: upt_conv_Cons map_Suc_upt [symmetric] comp_def del: upt_Suc)

lemma register_all_eq:
  "register_all nms hs =
     (map (\<lambda>i. if length hs + i < 128 then Some (of_nat (length hs + i)) else None) [0..<length nms],
      hs @ map (\<lambda>i. \<lparr>nh_name = take 63 (nms ! i), nh_hook_id = of_nat (length hs + i)\<rparr>)
             [0..<min (128 - length hs) (length nms)])"
proof (induction nms arbitrary: hs)
  case (Cons nm nms)
  show ?case
  proof (cases "length hs < 128")
    case True
    then have n: "min (128 - length hs) (Suc (length nms)) = Suc (min (127 - length hs) (length nms))" by auto
    have r: "XylemRegisterHook nm hs =
        (Some (of_nat (length hs)), hs @ [\<lparr>nh_name = take 63 nm, nh_hook_id = of_nat (length hs)\<rparr>])"
      using True by (simp add: XylemRegisterHook_def MAX_NAPI_HOOKS_def Let_def)
    show ?thesis
      unfolding n map_upt_Suc_shift length_Cons register_all.simps r Let_def split Cons.IH
      using True by (simp add: ac_simps)
  next
    case False
    then have r: "XylemRegisterHook nm hs = (None, hs)" by (simp add: XylemRegisterHook_def MAX_NAPI_HOOKS_def)
    show ?thesis
      unfolding map_upt_Suc_shift length_Cons register_all.simps r Let_def split Cons.IH
      using False by simp
  qed
qed simp

lemma first_index_take:
  "first_index P (take n xs) =
     (case first_index P xs of None \<Rightarrow> None | Some i \<Rightarrow> if i < n then Some i else None)"
  by (induction xs arbitrary: n) (auto split: option.splits simp: take_Cons' less_diff_conv2)

text \<open>
  C39. What \<^verbatim>\<open>registerHook\<close> promises of its ids. In any sequence of registrations the first 128
  return the ids 0, 1, and so on, and the others fail; afterwards \<^verbatim>\<open>callHook\<close> with a name answers the
  very id that the first registration of this name returned, and \<open>-1\<close> when that one failed or there
  is none. A later registration of the same name gets an id of its own that no \<^verbatim>\<open>callHook\<close> ever
  answers.
\<close>

theorem napi_call_first:
  assumes "\<forall>nm \<in> set nms. length nm \<le> 63" "register_all nms [] = (ids, hs)"
  shows "ids = map (\<lambda>i. if i < 128 then Some (of_nat i) else None) [0..<length nms] \<and>
     XylemCallHook nm hs =
       (case first_index (\<lambda>x. x = nm) nms of
          None \<Rightarrow> -1 | Some i \<Rightarrow> (case ids ! i of None \<Rightarrow> -1 | Some d \<Rightarrow> sint d))"
proof -
  have ids: "ids = map (\<lambda>i. if i < 128 then Some (of_nat i) else None) [0..<length nms]"
    and hs: "hs = map (\<lambda>i. \<lparr>nh_name = take 63 (nms ! i), nh_hook_id = of_nat i\<rparr>) [0..<min 128 (length nms)]"
    using assms(2) by (simp_all add: register_all_eq cong: if_cong)
  have len: "length hs = min 128 (length nms)" by (simp add: hs)
  have nth: "nh_name (hs ! i) = take 128 nms ! i \<and> nh_hook_id (hs ! i) = of_nat i" if "i < length hs" for i
  proof -
    have "nms ! i \<in> set nms" using that len by simp
    then show ?thesis using that assms(1) len by (simp add: hs)
  qed
  have eq: "napi_find hs nm = first_index (\<lambda>x. x = nm) (take 128 nms)"
  proof -
    have "map nh_name hs = take 128 nms"
      by (rule nth_equalityI) (use nth len in auto)
    moreover have "napi_find hs nm = first_index (\<lambda>x. x = nm) (map nh_name hs)"
      by (simp add: napi_find_eq first_index_map)
    ultimately show ?thesis by simp
  qed
  have "XylemCallHook nm hs = (case first_index (\<lambda>x. x = nm) nms of
      None \<Rightarrow> -1 | Some i \<Rightarrow> (case ids ! i of None \<Rightarrow> -1 | Some d \<Rightarrow> sint d))"
  proof (cases "first_index (\<lambda>x. x = nm) nms")
    case None
    then show ?thesis using eq by (simp add: XylemCallHook_def first_index_take)
  next
    case (Some i)
    then have i: "i < length nms" by (simp add: first_index_Some_iff)
    show ?thesis
    proof (cases "i < 128")
      case True
      then have "napi_find hs nm = Some i" "i < length hs" using Some eq i len by (simp_all add: first_index_take)
      with nth [of i] Some i True show ?thesis by (simp add: XylemCallHook_def ids)
    next
      case False
      then show ?thesis using Some eq i by (simp add: XylemCallHook_def ids first_index_take)
    qed
  qed
  with ids show ?thesis by blast
qed

theorem napi_call_first_witness:
  "fst (register_all [''a'', ''b'', ''b''] []) ! 2 = Some 2 \<and>
   XylemCallHook ''b'' (snd (register_all [''a'', ''b'', ''b''] [])) = 1"
proof -
  have "register_all [''a'', ''b'', ''b''] [] = (fst (register_all [''a'', ''b'', ''b''] []),
      snd (register_all [''a'', ''b'', ''b''] []))" by simp
  from napi_call_first [OF _ this, of "''b''"] show ?thesis by (simp add: numeral_2_eq_2)
qed

end
