(* ===== verification/Xy_Reload.thy ===== *)
theory Xy_Reload
  imports Xy_Cascade
begin

text \<open>
  \<^verbatim>\<open>xy_reload\<close> of a module that no other module depends on: the old entry goes, the object is opened
  again from a fresh copy, and the new entry takes the old one's place in its region's list.
\<close>

section \<open>Carrying the state of loads through\<close>

lemma load_ready_from:
  assumes w: "load_ready E s" and wf: "region_wf E t" "r_key t = r_key s"
    and rt: "xy_rt t = (xy_rt s)\<lparr>xy_mod_count := n\<rparr>"
    and cur: "xy_current_region_id t = xy_current_region_id s" "xy_current_region_entry t = xy_current_region_entry s"
    and ent: "\<And>q e'. mods t q = Some e' \<Longrightarrow> \<exists>e. mods s q = Some e \<and> me_fn_cache e' = me_fn_cache e \<and>
       me_hook_impl_bits e' = me_hook_impl_bits e \<and> me_handle e' = me_handle e"
    and mem: "paths t = paths s" "next_addr t = next_addr s"
    and tab: "tbl_single E t = tbl_single E s"
      "\<And>d. d \<in> {path_intern_hd (xy_rt s), hook_id_hd (xy_rt s)} \<Longrightarrow> tbl_get E t d = tbl_get E s d"
    and lists: "\<And>q. regions t q \<noteq> None \<Longrightarrow> \<exists>ns. mods_of t q ns"
  shows "load_ready E t"
proof -
  note w = w [unfolded load_ready_def]
  have "current_wf t" using w cur wf(2) by (simp add: ready_def current_wf_def)
  then have "ready E t" using w wf(1) rt by (simp add: ready_def)
  moreover have "mods_wf t" using w lists ent mem(2) unfolding mods_wf_def by fastforce
  moreover have "intern_wf E t" using w mem rt tab by (simp add: intern_wf_def)
  moreover have "caches_ok E t" "hooks_wf E t" "hook_tab E t" "unused_ok E t"
    by (rule hook_state_frame [of E s]; use w rt tab ent in force)+
  ultimately show ?thesis using w rt tab(1) by (simp add: load_ready_def)
qed

lemma load_ready_reloading: "load_ready E (t\<lparr>xy_reloading := b\<rparr>) = load_ready E t"
proof
  show "load_ready E t \<Longrightarrow> load_ready E (t\<lparr>xy_reloading := b\<rparr>)"
    by (rule load_ready_frame) (simp_all add: load_ready_def ready_def current_wf_def r_key_def [abs_def])
  show "load_ready E (t\<lparr>xy_reloading := b\<rparr>) \<Longrightarrow> load_ready E t"
    by (rule load_ready_frame [of E "t\<lparr>xy_reloading := b\<rparr>"])
       (simp_all add: load_ready_def ready_def current_wf_def r_key_def [abs_def])
qed

lemma list_exists:
  assumes "load_ready E s" "r_key t = r_key s" "mods_of t p L" "\<And>q ns. q \<noteq> p \<Longrightarrow> mods_of s q ns \<Longrightarrow> \<exists>ns. mods_of t q ns"
    and "regions t q \<noteq> None"
  shows "\<exists>ns. mods_of t q ns"
proof (cases "q = p")
  case False
  have "r_key t q \<noteq> None" using assms(5) by (auto simp: r_key_def)
  then have "regions s q \<noteq> None" unfolding assms(2) by (auto simp: r_key_def)
  then obtain ns where "mods_of s q ns" using assms(1) unfolding load_ready_def mods_wf_def by blast
  with False assms(4) show ?thesis by blast
qed (use assms(3) in blast)


section \<open>The way out\<close>

text \<open>No other module has a symbol of the object in its cache, so that the unload takes none from it.\<close>

definition alone :: "'h env \<Rightarrow> 'h xy_state \<Rightarrow> mptr \<Rightarrow> dlhandle \<Rightarrow> bool" where
  "alone E s m h \<longleftrightarrow>
     (\<forall>q e f. mods s q = Some e \<longrightarrow> q \<noteq> m \<longrightarrow> Fn f \<in> set (me_fn_cache e) \<longrightarrow>
        module_handle_base E (Some h) \<noteq> None \<longrightarrow> module_base_from_symbol E (Some f) \<noteq> module_handle_base E (Some h))"

lemma clear_nothing:
  assumes E: "env_ok E" and sg: "tbl_single E s (mod_hd (xy_rt s))" and al: "listed_alive E s"
    and m: "mods s m = Some e" "me_handle e = Some h" and alone: "alone E s m h"
  shows "module_clear_fn_cache_for_handle E (Some m) s = Some s"
proof (cases "module_handle_base E (Some h)")
  case None
  with m show ?thesis by (simp add: module_clear_fn_cache_for_handle_def)
next
  case (Some base)
  let ?kvs = "tbl_iter E s (mod_hd (xy_rt s))"
  obtain t where t: "clear_loop E m base ?kvs s = Some t" "t = s\<lparr>mods := mods t\<rparr>"
    "\<forall>q. mods t q = (if listed ?kvs q \<and> q \<noteq> m
       then map_option (\<lambda>e. e\<lparr>me_fn_cache := map (forget_base E base) (me_fn_cache e)\<rparr>) (mods s q) else mods s q)"
    using clear_loop_ok [of ?kvs s E m base] listed_alive_iter [OF E sg al] by blast
  have "map (forget_base E base) (me_fn_cache e') = me_fn_cache e'" if "mods s q = Some e'" "q \<noteq> m" for q e'
  proof (rule map_idI)
    fix fp assume "fp \<in> set (me_fn_cache e')"
    with that alone Some show "forget_base E base fp = fp" by (auto simp: alone_def forget_base_def split: fn_slot.split)
  qed
  then have "mods t q = mods s q" for q using t(3) by (cases "mods s q") auto
  then have "mods t = mods s" by (intro ext)
  then have "t = s" using t(2) by simp
  with t(1) m Some show ?thesis by (simp add: module_clear_fn_cache_for_handle_def)
qed

lemma unload_for_reload:
  assumes E: "env_ok E" "never_oom E" and wf: "load_ready E s" and inv: "deny_inv E s" and al: "listed_alive E s"
    and path: "module_load_path E s fname = Some path" and plen: "region_current_plen s = Some plen"
    and key: "key = mod_key (mod_key_len path) path (xy_current_region_id s) plen"
    and tab: "tbl_get E s (mod_hd (xy_rt s)) (KStr key) = Some (VPtr m)"
    and e: "mods s m = Some e" "held_with old e key x h" and ms: "mods_of s p (xs @ m # ys)"
    and leaf: "\<forall>q e'. mods s q = Some e' \<longrightarrow> q \<noteq> m \<longrightarrow> me_parent_entry e' \<noteq> Some m" and alone: "alone E s m h"
  shows "\<exists>t. mod_unload (link_fuel s) E fname (xy_current_region_id s) plen s = Some (XY_OK, t) \<and> load_ready E t \<and>
     mods t m = None \<and> (\<forall>q. q \<noteq> m \<longrightarrow> (mods t q = None \<longleftrightarrow> mods s q = None)) \<and>
     mods_of t p (xs @ ys) \<and> (\<forall>q ns. q \<noteq> p \<longrightarrow> mods_of s q ns \<longrightarrow> mods_of t q ns) \<and>
     tbl_get E t (mod_hd (xy_rt s)) = (tbl_get E s (mod_hd (xy_rt s)))(KStr key := None) \<and>
     dl_refs t = (dl_refs s)(h := dl_refs s h - 1) \<and> tmp_files t = tmp_files (unlink_file old s) \<and>
     xy_rt t = (xy_rt s)\<lparr>xy_mod_count := xy_mod_count (xy_rt s) - 1\<rparr> \<and> r_key t = r_key s \<and>
     (\<forall>q. denied_mods t q = denied_mods s q - (if q = p then {x} else {})) \<and>
     xy_current_region_id t = xy_current_region_id s \<and> xy_current_region_entry t = xy_current_region_entry s \<and>
     xy_loading_mod t = xy_loading_mod s \<and> next_addr t = next_addr s \<and> ctxs t = ctxs s \<and>
     (\<forall>q. map_option re_require_claim (regions t q) = map_option re_require_claim (regions s q))"
proof -
  note w = wf [unfolded load_ready_def] and f = e(2) [unfolded held_with_def]
  have nm: "\<not> tbl_single E s (mod_by_region_hd (xy_rt s))" and sg: "tbl_single E s (mod_hd (xy_rt s))" using w by simp_all
  let ?g = "\<lambda>e. e\<lparr>me_refcount := me_refcount e - 1\<rparr>"
  define s1 where "s1 = upd_mod m ?g s"
  have fr: "regions s1 = regions s" "st_corm s1 = st_corm s" "xy_rt s1 = xy_rt s" "next_addr s1 = next_addr s" "dl_refs s1 = dl_refs s"
    "tmp_files s1 = tmp_files s" "xy_current_region_id s1 = xy_current_region_id s" "xy_current_region_entry s1 = xy_current_region_entry s"
    "xy_loading_mod s1 = xy_loading_mod s" "paths s1 = paths s" "ctxs s1 = ctxs s"
    by (simp_all add: s1_def upd_mod_def)
  have m1: "mods s1 m = Some (?g e)" "\<And>q. (mods s1 q = None) = (mods s q = None)" "\<And>q. q \<noteq> m \<Longrightarrow> mods s1 q = mods s q"
    using e(1) by (auto simp: s1_def heap_simps split: if_splits)
  have tab1: "tbl_get E s1 = tbl_get E s" "tbl_single E s1 = tbl_single E s"
    by (rule tbl_get_cong [OF fr(2)]) (rule tbl_single_cong [OF fr(2)])
  have wf1: "region_wf E s1"
    by (rule region_wf_more_addresses [of E s]) (use w in \<open>simp_all add: ready_def fr tab1\<close>)
  have inv1: "deny_inv E s1" by (rule deny_inv_frame [OF _ fr(3) inv]) (simp_all add: tab1 fun_eq_iff dset_def fr)
  have al1: "listed_alive E s1" using al by (simp add: listed_alive_def tab1 fr(3) m1(2))
  have lk: "mods_of s1 q ns = mods_of s q ns" for q ns
    by (rule mods_of_links) (auto simp: fun_eq_iff mod_next_def mod_prev_def mod_region_def s1_def heap_simps e(1))
  have dm: "denied_mods s1 q = denied_mods s q" for q by (simp add: denied_mods_def fr)
  have rk: "r_key s1 = r_key s" by (simp add: fun_eq_iff r_key_def fr)
  have rth: "rt_handles s1 = rt_handles s" by (simp add: rt_handles_def rt_list_def fr)
  have ef: "me_mod_key (?g e) = key" "me_load_path (?g e) = Some x" "me_region_state (?g e) = None" "me_handle (?g e) = Some h"
    "me_tmp_load_path (?g e) = old" using f by simp_all
  have nm1: "\<not> tbl_single E s1 (mod_by_region_hd (xy_rt s1))" using nm by (simp add: fr tab1)
  have "alone E s1 m h" using alone unfolding alone_def by (metis m1(3))
  then have quiet: "module_clear_fn_cache_for_handle E (Some m) s1 = Some s1"
    using sg al1 by (intro clear_nothing [OF E(1) _ _ m1(1) ef(4)]) (simp_all add: tab1 fr)
  from mod_remove_any [OF E(1) wf1 inv1 al1 nm1 ms [folded lk] m1(1) ef] obtain t where
    t: "mod_remove E m s1 = Some t" "mods t m = None" "\<forall>q. q \<noteq> m \<longrightarrow> (mods t q = None \<longleftrightarrow> mods s q = None)"
      "mods_of t p (xs @ ys)" "\<forall>q ns. q \<noteq> p \<longrightarrow> mods_of s q ns \<longrightarrow> mods_of t q ns"
      "tbl_get E t (mod_hd (xy_rt s)) = (tbl_get E s (mod_hd (xy_rt s)))(KStr key := None)"
      "dl_refs t = (dl_refs s)(h := dl_refs s h - 1)" "tmp_files t = tmp_files (unlink_file old s1)"
      "xy_rt t = (xy_rt s)\<lparr>xy_mod_count := xy_mod_count (xy_rt s) - 1\<rparr>" "region_wf E t" "r_key t = r_key s"
      "denied_mods t p = denied_mods s p - {x}" "\<forall>q. q \<noteq> p \<longrightarrow> denied_mods t q = denied_mods s q"
      "xy_current_region_id t = xy_current_region_id s" "xy_current_region_entry t = xy_current_region_entry s"
      "tbl_single E t = tbl_single E s" "ctxs t = ctxs s" "next_addr t = next_addr s"
      "module_clear_fn_cache_for_handle E (Some m) s1 = Some s1 \<longrightarrow> (\<forall>q e'. q \<noteq> m \<longrightarrow> mods t q = Some e' \<longrightarrow>
        (\<exists>e0. mods s1 q = Some e0 \<and> kept e0 e' \<and> me_fn_cache e' = me_fn_cache e0))"
      "\<forall>d \<in> rt_handles s. d \<noteq> mod_hd (xy_rt s) \<longrightarrow> tbl_get E t d = tbl_get E s d" "paths t = paths s" "xy_loading_mod t = xy_loading_mod s"
      "\<forall>q. map_option re_require_claim (regions t q) = map_option re_require_claim (regions s q)"
    unfolding lk dm rk tab1 fr m1(2) rth by (elim exE conjE) (rule that)
  have "children_of s1 m (tbl_iter E s1 (mod_hd (xy_rt s1))) = Some []"
  proof (rule children_none)
    show "mods s1 q \<noteq> None" if "listed (tbl_iter E s1 (mod_hd (xy_rt s1))) q" for q
      by (rule listed_alive_iter [OF E(1) _ al1 that]) (simp add: tab1 fr sg)
    show "me_parent_entry e' \<noteq> Some m" if "mods s1 q = Some e'" "q \<noteq> m" for q e'
      using leaf that by (simp add: m1(3))
  qed
  then have "mod_unload (link_fuel s) E fname (xy_current_region_id s) plen s = Some (XY_OK, t)"
    using lookup_found [OF E(2) path] tab e(1) m1(1) f t(1) by (simp add: link_fuel_def key s1_def [symmetric])
  moreover have "load_ready E t"
  proof (rule load_ready_from [OF wf t(10,11,9,14,15) _ t(21,18,16)])
    show "\<exists>e. mods s q = Some e \<and> me_fn_cache e' = me_fn_cache e \<and> me_hook_impl_bits e' = me_hook_impl_bits e \<and> me_handle e' = me_handle e"
      if "mods t q = Some e'" for q e'
    proof -
      have q: "q \<noteq> m" using that t(2) by auto
      with t(19) quiet that obtain e0 where "mods s1 q = Some e0" "kept e0 e'" "me_fn_cache e' = me_fn_cache e0" by blast
      with m1(3) [OF q] show ?thesis by (intro exI [of _ e0]) (simp add: kept_def)
    qed
    have "mod_hd (xy_rt s) \<notin> {path_intern_hd (xy_rt s), hook_id_hd (xy_rt s)}" using w by auto
    then show "tbl_get E t d = tbl_get E s d" if "d \<in> {path_intern_hd (xy_rt s), hook_id_hd (xy_rt s)}" for d
      using that t(20) by (auto simp: rt_handles_def rt_list_def Let_def)
    show "\<exists>ns. mods_of t q ns" if "regions t q \<noteq> None" for q
      by (rule list_exists [OF wf t(11,4) _ that]) (use t(5) in blast)
  qed
  moreover have "tmp_files (unlink_file old s1) = tmp_files (unlink_file old s)" by (cases old) (simp_all add: unlink_file_def fr)
  ultimately show ?thesis using t(2-9,11-15,17,18,22,23) by - (rule exI [of _ t], simp)
qed


section \<open>Back to the old place\<close>

lemma relinked_trans: "relinked e e' \<Longrightarrow> relinked e' e'' \<Longrightarrow> relinked e e''"
  unfolding relinked_def by (elim exE) (rule exI, rule exI, rule exI, simp)

lemma unlinked_relinked:
  assumes "mods (unlinked p m xs ys s) q = Some e'"
  shows "\<exists>e. mods s q = Some e \<and> relinked e e'"
proof -
  obtain e where e: "mods s q = Some e" using assms by (cases "mods s q") (simp_all add: unlinked_def)
  have "relinked e e'"
  proof (cases "q = m")
    case True
    then have "e' = e\<lparr>me_region_prev := None, me_region_next := None\<rparr>" using assms e by (simp add: unlinked_def)
    then show ?thesis
      unfolding relinked_def by (intro exI [of _ "me_region_entry e"] exI [of _ None]) (cases e, simp)
  next
    case False
    then have "e' = e\<lparr>me_region_next := (if xs \<noteq> [] \<and> q = last xs then first ys else me_region_next e),
        me_region_prev := (if ys \<noteq> [] \<and> q = hd ys then first (rev xs) else me_region_prev e)\<rparr>"
      using assms e by (simp add: unlinked_def)
    then show ?thesis using relinked_two by simp
  qed
  with e show ?thesis by blast
qed

lemma insert_exact:
  assumes tw: "tree_wf s" and ms: "mods_of s p (xs @ ys)" and m: "m \<notin> set (xs @ ys)" "mods s m \<noteq> None"
  shows "module_region_insert_after (Some p) (Some m) (first (rev xs)) s =
     Some (upd_regs (set (ancestors (linked_in p m xs ys s) p)) (\<lambda>r. mark_dirty (bump_gen r)) (linked_in p m xs ys s))"
proof -
  have "tree_wf (linked_in p m xs ys s)" by (rule tree_wf_shape [OF relink_shape(5) tw])
  moreover obtain k where "r_key s p = Some k" using mods_of_key [OF ms] by blast
  then have "r_key (linked_in p m xs ys s) p = Some k" using relink_shape(5) [of s p m xs ys] by (simp add: same_shape_def)
  ultimately show ?thesis using insert_linked_in [OF ms m] by (simp add: region_mark_subtree_dirty_eq)
qed

lemma move_in_place:
  assumes wf: "load_ready E s" and ms: "mods_of s p ((xs @ ys) @ [m])"
  shows "\<exists>u v. module_region_detach (Some m) s = Some u \<and>
     module_region_insert_after (Some p) (Some m) (first (rev xs)) u = Some v \<and> load_ready E v \<and>
     v = s\<lparr>regions := regions v, mods := mods v\<rparr> \<and> mods_of v p (xs @ m # ys) \<and>
     (\<forall>q ns. q \<noteq> p \<longrightarrow> mods_of s q ns \<longrightarrow> mods_of v q ns) \<and> (\<forall>q. mods v q = None \<longleftrightarrow> mods s q = None) \<and>
     (\<forall>q e'. mods v q = Some e' \<longrightarrow> (\<exists>e. mods s q = Some e \<and> relinked e e')) \<and> r_key v = r_key s \<and> dset v = dset s"
proof -
  note w = wf [unfolded load_ready_def]
  have rw: "region_wf E s" using w by (simp add: ready_def)
  have d: "distinct ((xs @ ys) @ [m])" using ms by (rule mods_of_distinct)
  define l where "l = unlinked p m (xs @ ys) [] s"
  define u where "u = upd_regs (set (ancestors l p)) (\<lambda>r. mark_dirty (bump_gen r)) l"
  have det: "module_region_detach (Some m) s = Some u"
    unfolding u_def l_def using rw ms by (intro detach_exact) (simp_all add: region_wf_def)
  from detach_refines [OF rw, of p "xs @ ys" m "[]"] ms det have
    u: "region_wf E u" "same_shape s u" "mods_of u p (xs @ ys)" "\<forall>q ns. q \<noteq> p \<longrightarrow> mods_of s q ns \<longrightarrow> mods_of u q ns" by auto
  have m: "mods s m \<noteq> None" using mods_of_mem [OF ms] by simp
  have mu: "mods u = mods l" "(mods l q = None) = (mods s q = None)" for q by (simp_all add: u_def heap_simps l_def unlinked_fields(1))
  have m_u: "m \<notin> set (xs @ ys)" "mods u m \<noteq> None" using d m mu by auto
  define l2 where "l2 = linked_in p m xs ys u"
  define v where "v = upd_regs (set (ancestors l2 p)) (\<lambda>r. mark_dirty (bump_gen r)) l2"
  have ins: "module_region_insert_after (Some p) (Some m) (first (rev xs)) u = Some v"
    unfolding v_def l2_def using u(1) by (intro insert_exact [OF _ u(3) m_u]) (simp add: region_wf_def)
  from insert_refines [OF u(1,3) m_u] ins have
    v: "region_wf E v" "same_shape u v" "mods_of v p (xs @ m # ys)" "\<forall>q ns. q \<noteq> p \<longrightarrow> m \<notin> set ns \<longrightarrow> mods_of u q ns \<longrightarrow> mods_of v q ns"
    by auto
  have others: "mods_of v q ns" if "q \<noteq> p" "mods_of s q ns" for q ns
  proof -
    have "m \<notin> set ns" using mods_of_disjoint [OF ms that(2)] that(1) by auto
    with u(4) v(4) that show ?thesis by blast
  qed
  have mv: "mods v = mods l2" "(mods v q = None) = (mods s q = None)" for q
    using mu by (simp_all add: v_def heap_simps l2_def linked_in_def)
  have rel: "\<exists>e. mods s q = Some e \<and> relinked e e'" if "mods v q = Some e'" for q e'
  proof -
    have "mods (linked_in p m xs ys u) q = Some e'" using that by (simp add: mv(1) l2_def)
    from linked_in_relinked [OF this] obtain e1 where "mods u q = Some e1" "relinked e1 e'" by blast
    moreover from this(1) have "mods (unlinked p m (xs @ ys) [] s) q = Some e1" by (simp add: mu(1) l_def)
    from unlinked_relinked [OF this] obtain e where "mods s q = Some e" "relinked e e1" by blast
    ultimately show ?thesis using relinked_trans by blast
  qed
  have eqv: "v = s\<lparr>regions := regions v, mods := mods v\<rparr>"
    by (simp add: v_def upd_regs_def l2_def linked_in_def u_def l_def unlinked_def)
  have fv: "xy_rt v = xy_rt s" "xy_current_region_id v = xy_current_region_id s" "xy_current_region_entry v = xy_current_region_entry s"
    "paths v = paths s" "next_addr v = next_addr s" "st_corm v = st_corm s" by (subst eqv, simp)+
  have kv: "r_key v = r_key s" using same_shape_trans [OF u(2) v(2)] by (simp add: same_shape_def)
  have tab: "tbl_get E v = tbl_get E s" "tbl_single E v = tbl_single E s"
    by (rule tbl_get_cong [OF fv(6)]) (rule tbl_single_cong [OF fv(6)])
  have "load_ready E v"
  proof (rule load_ready_from [OF wf v(1) kv _ fv(2,3) _ fv(4,5) tab(2)])
    show "xy_rt v = (xy_rt s)\<lparr>xy_mod_count := xy_mod_count (xy_rt s)\<rparr>" by (simp add: fv(1))
    show "\<exists>e. mods s q = Some e \<and> me_fn_cache e' = me_fn_cache e \<and> me_hook_impl_bits e' = me_hook_impl_bits e \<and> me_handle e' = me_handle e"
      if "mods v q = Some e'" for q e' using rel [OF that] relinked_fields by blast
    show "\<exists>ns. mods_of v q ns" if "regions v q \<noteq> None" for q
      by (rule list_exists [OF wf kv v(3) _ that]) (use others in blast)
  qed (simp add: tab(1))
  moreover have "dset v = dset s"
    unfolding v_def l2_def dset_linked_in unfolding u_def l_def dset_unlinked ..
  ultimately show ?thesis using det ins eqv v(3) others mv(2) rel kv by blast
qed


section \<open>The reload\<close>

lemma plain_lists:
  "mods_of (s\<lparr>xy_reloading := b\<rparr>) = mods_of s" "tbl_get E (s\<lparr>xy_reloading := b\<rparr>) = tbl_get E s"
  "tbl_single E (s\<lparr>xy_reloading := b\<rparr>) = tbl_single E s" "r_key (s\<lparr>xy_reloading := b\<rparr>) = r_key s"
  "region_current_plen (s\<lparr>xy_reloading := b\<rparr>) = region_current_plen s" "dset (s\<lparr>xy_reloading := b\<rparr>) = dset s"
proof -
  show "tbl_get E (s\<lparr>xy_reloading := b\<rparr>) = tbl_get E s" "tbl_single E (s\<lparr>xy_reloading := b\<rparr>) = tbl_single E s"
    by (rule tbl_get_cong tbl_single_cong, simp)+
qed (simp_all add: fun_eq_iff mods_of_def mod_next_def [abs_def] mod_prev_def [abs_def] mod_region_def [abs_def] r_key_def
      region_current_plen_def dset_def cong: option.case_cong)

lemma current_plen_same:
  assumes "r_key t = r_key s" "xy_current_region_entry t = xy_current_region_entry s" "region_current_plen s = Some plen"
    and "xy_current_region_entry s = Some p"
  shows "region_current_plen t = Some plen"
proof -
  obtain r where r: "regions s p = Some r" "re_plen r = plen" using assms(3,4) by (auto simp: region_current_plen_def bind_eq_Some_conv)
  have "map_option key_of (regions t p) = map_option key_of (regions s p)" using assms(1) unfolding r_key_def fun_eq_iff by simp
  then obtain r' where "regions t p = Some r'" "key_of r' = key_of r" using r(1) by auto
  with r assms(2,4) show ?thesis by (simp add: region_current_plen_def key_of_def region_key_def)
qed

text \<open>
  C8. Reloading a module that is loaded once, in the current region, that is no module's parent, and whose
  object no other entry has cached symbols of (\<^const>\<open>alone\<close>): \<^verbatim>\<open>xy_reload\<close> returns \<^const>\<open>XY_OK\<close>; the old entry is freed and a new one, with one reference, the handle
  of the reopened object and its bound context, stands \<^emph>\<open>in the old one's place\<close> in the region's list
  and under the same key in the table of modules; the other lists and rows stay. The reference on the old
  object is given back and the old temporary copy removed, the counter of modules is what it was, the
  caller's region is current, and any file can be loaded again. The parent of the new entry is the module that is
  now loading, not the one that loaded the old entry.
\<close>

theorem reload_in_place:
  assumes E: "env_ok E" "never_oom E" and wf: "load_ready E s" and inv: "deny_inv E s" "listed_alive E s"
    and path: "module_load_path E s fname = Some path" and plen: "region_current_plen s = Some plen"
    and key: "key = mod_key (mod_key_len path) path (xy_current_region_id s) plen"
    and tab: "tbl_get E s (mod_hd (xy_rt s)) (KStr key) = Some (VPtr m)"
    and e: "mods s m = Some e" "held_with old e key x h" and ms: "mods_of s p (xs @ m # ys)"
    and leaf: "\<forall>q e'. mods s q = Some e' \<longrightarrow> q \<noteq> m \<longrightarrow> me_parent_entry e' \<noteq> Some m" and alone: "alone E s m h"
    and p: "xy_current_region_entry s = Some p" "regions s p = Some r" "\<not> re_require_claim r"
    and v: "mod_unload (link_fuel s) E fname (xy_current_region_id s) plen s = Some (XY_OK, v)"
    and re: "reopened E (v\<lparr>xy_reloading := True\<rparr>) path tmp tf h' cs pc"
    and mod: "plain_module E h'" "module_ctx E (Some h') (v\<lparr>xy_pending_ctx := pc\<rparr>) = c" "good_ctx E h' cs c"
  shows "\<exists>t m' e' x'. xy_reload E fname s = Some (XY_OK, t) \<and> xy_errno t = XY_OK \<and> mods s m' = None \<and> mods t m = None \<and>
     (\<forall>q. q \<noteq> m \<longrightarrow> q \<noteq> m' \<longrightarrow> (mods t q = None \<longleftrightarrow> mods s q = None)) \<and>
     mods t m' = Some e' \<and> held_with tmp e' key x' h' \<and> paths t x' = Some path \<and> me_ctx e' = c \<and>
     me_parent_entry e' = xy_loading_mod s \<and> mods_of t p (xs @ m' # ys) \<and>
     (\<forall>q ns. q \<noteq> p \<longrightarrow> mods_of s q ns \<longrightarrow> mods_of t q ns) \<and>
     tbl_get E t (mod_hd (xy_rt s)) = (tbl_get E s (mod_hd (xy_rt s)))(KStr key \<mapsto> VPtr m') \<and>
     dl_refs t = (dl_refs v)(h' := dl_refs v h' + 1) \<and> dl_refs v = (dl_refs s)(h := dl_refs s h - 1) \<and>
     tmp_files t = tf \<and> tmp_files v = tmp_files (unlink_file old s) \<and> xy_rt t = xy_rt s \<and> load_ready E t \<and>
     xy_current_region_id t = xy_current_region_id s \<and> xy_current_region_entry t = Some p \<and> \<not> xy_reloading t"
proof -
  let ?i = "xy_current_region_id s" and ?s = "v\<lparr>xy_reloading := True\<rparr>"
  have u: "load_ready E v" "mods v m = None" "\<forall>q. q \<noteq> m \<longrightarrow> (mods v q = None \<longleftrightarrow> mods s q = None)"
    "mods_of v p (xs @ ys)" "\<forall>q ns. q \<noteq> p \<longrightarrow> mods_of s q ns \<longrightarrow> mods_of v q ns"
    "tbl_get E v (mod_hd (xy_rt s)) = (tbl_get E s (mod_hd (xy_rt s)))(KStr key := None)"
    "dl_refs v = (dl_refs s)(h := dl_refs s h - 1)" "tmp_files v = tmp_files (unlink_file old s)"
    "xy_rt v = (xy_rt s)\<lparr>xy_mod_count := xy_mod_count (xy_rt s) - 1\<rparr>" "r_key v = r_key s"
    "xy_current_region_id v = ?i" "xy_current_region_entry v = xy_current_region_entry s" "xy_loading_mod v = xy_loading_mod s"
    "next_addr v = next_addr s" "map_option re_require_claim (regions v p) = map_option re_require_claim (regions s p)"
    using unload_for_reload [OF E wf inv path plen key tab e ms leaf alone] v by auto
  obtain rv where rv: "regions v p = Some rv" "\<not> re_require_claim rv" using u(15) p by auto
  have pv: "region_current_plen v = Some plen" by (rule current_plen_same [OF u(10,12) plen p(1)])
  have hd: "mod_hd (xy_rt v) = mod_hd (xy_rt s)" by (simp add: u(9))
  have fr: "fresh_from E ?s tmp tf fname path key h' cs pc"
    using re path load_path_same [OF E(2), of s fname ?s] pv u(6) key u(11) by (simp add: fresh_from_def plain_lists hd)
  have mc: "module_ctx E (Some h') (?s\<lparr>xy_pending_ctx := pc\<rparr>) = c"
    using mod(2) module_ctx_cong [of "?s\<lparr>xy_pending_ctx := pc\<rparr>" "v\<lparr>xy_pending_ctx := pc\<rparr>"] by simp
  have ps: "xy_current_region_entry ?s = Some p" "regions ?s p = Some rv" "mods_of ?s p (xs @ ys)" "load_ready E ?s"
    using u(1,4,12) p(1) rv(1) by (simp_all add: plain_lists load_ready_reloading)
  from mod_load_effects [OF E ps(4) fr mod(1) mc mod(3) ps(1,2) rv(2) ps(3)] obtain t1 m' e1 x' where
    t1: "mod_load E fname ?s = Some (XY_OK, t1)" "mods ?s m' = None" "mods t1 m' = Some e1" "me_ctx e1 = c"
      "me_parent_entry e1 = xy_loading_mod ?s"
      "tbl_get E t1 (mod_hd (xy_rt ?s)) = (tbl_get E ?s (mod_hd (xy_rt ?s)))(KStr key \<mapsto> VPtr m')"
      "mods_of t1 p ((xs @ ys) @ [m'])" "load_ready E t1" "dl_refs t1 = (dl_refs ?s)(h' := dl_refs ?s h' + 1)"
      "xy_rt t1 = (xy_rt ?s)\<lparr>xy_mod_count := xy_mod_count (xy_rt ?s) + 1\<rparr>"
      "xy_current_region_id t1 = xy_current_region_id ?s" "xy_current_region_entry t1 = Some p"
      "held_with tmp e1 key x' h'" "paths t1 x' = Some path" "tmp_files t1 = tf" "next_addr ?s \<le> m'"
      "\<forall>q ns. q \<noteq> p \<longrightarrow> mods_of ?s q ns \<longrightarrow> mods_of t1 q ns"
      "\<forall>q. q \<noteq> m' \<longrightarrow> (mods t1 q = None \<longleftrightarrow> mods ?s q = None)"
    by (elim exE conjE) (rule that)
  let ?t2 = "t1\<lparr>xy_reloading := False\<rparr>"
  have t2: "mods_of ?t2 p ((xs @ ys) @ [m'])" "load_ready E ?t2" using t1(7,8) by (simp_all add: plain_lists load_ready_reloading)
  from move_in_place [OF t2(2,1)] obtain d w where w: "module_region_detach (Some m') ?t2 = Some d"
    "module_region_insert_after (Some p) (Some m') (first (rev xs)) d = Some w" "load_ready E w"
    "w = ?t2\<lparr>regions := regions w, mods := mods w\<rparr>" "mods_of w p (xs @ m' # ys)"
    "\<forall>q ns. q \<noteq> p \<longrightarrow> mods_of ?t2 q ns \<longrightarrow> mods_of w q ns" "\<forall>q. mods w q = None \<longleftrightarrow> mods ?t2 q = None"
    "\<forall>q e'. mods w q = Some e' \<longrightarrow> (\<exists>e. mods ?t2 q = Some e \<and> relinked e e')" by blast
  have look: "module_lookup_from_fname E fname ?i plen ?t2 =
      \<lparr>lr_entry = Some m', lr_key = Some key, lr_load_path = Some path, lr_err = XY_OK\<rparr>"
  proof -
    have "module_load_path E ?t2 fname = Some path" using path load_path_same [OF E(2), of s fname ?t2] by simp
    then show ?thesis using lookup_found [OF E(2)] t1(6,10) hd by (simp add: key plain_lists)
  qed
  obtain e0 where e0: "me_region_entry e0 = Some p" "me_region_prev e0 = first (rev xs)" "mods s m = Some e0"
    using mods_of_at [OF ms] by blast
  have "xy_reload E fname s = Some (XY_OK, set_err XY_OK w)"
    using wf plen lookup_found [OF E(2) path] tab key v t1(1) look w(1,2) e0
    by (simp add: xy_reload_def ensure_ready load_ready_def fail_with_def Let_def)
  moreover obtain e' where e': "mods w m' = Some e'" "relinked e1 e'"
  proof -
    have "mods w m' \<noteq> None" using w(7) t1(3) by simp
    then obtain e' where "mods w m' = Some e'" by blast
    with w(8) t1(3) that show thesis by fastforce
  qed
  moreover have f: "xy_rt w = xy_rt t1" "st_corm w = st_corm t1" "dl_refs w = dl_refs t1" "tmp_files w = tf" "paths w = paths t1"
    "xy_current_region_id w = ?i" "xy_current_region_entry w = Some p" "\<not> xy_reloading w"
    by (subst w(4), simp add: t1 u(11))+
  moreover have "xy_rt t1 = xy_rt s" using t1(10) u(9) by simp
  moreover have "tbl_get E (set_err XY_OK w) = tbl_get E t1" by (rule tbl_get_cong) (simp add: set_err_def f)
  moreover have new: "mods s m' = None" using mod_lookup_fresh [OF wf, of m'] t1(16) u(14) by simp
  moreover have "m \<noteq> m'" using new e(1) by auto
  then have "mods w m = None" using w(7) t1(18) u(2) by simp
  moreover have "(mods w q = None) = (mods s q = None)" if "q \<noteq> m" "q \<noteq> m'" for q using that w(7) t1(18) u(3) by simp
  moreover have "held_with tmp e' key x' h'" "me_ctx e' = c" "me_parent_entry e' = xy_loading_mod s"
    using e'(2) t1(4,5,13) u(13) by (auto simp: relinked_def held_with_def)
  moreover have "mods_of w q ns" if "q \<noteq> p" "mods_of s q ns" for q ns
    using that u(5) t1(17) w(6) by (simp add: plain_lists)
  moreover have "tbl_get E t1 (mod_hd (xy_rt s)) = (tbl_get E s (mod_hd (xy_rt s)))(KStr key \<mapsto> VPtr m')"
    using t1(6) u(6) by (simp add: plain_lists hd)
  ultimately show ?thesis
    using w(3,5) t1(9,14) u(7,8)
    by - (rule exI [of _ "set_err XY_OK w"], rule exI [of _ m'], rule exI [of _ e'], rule exI [of _ x'],
        simp add: mods_of_set_err load_ready_set_err, simp add: set_err_def xy_errno_def)
qed


text \<open>The host with two modules reloads the second, which the first had loaded: it stays behind the first.\<close>

lemma demo_pair_loader: "load_ready (demo_linker True) demo_pair" "deny_inv (demo_linker True) demo_pair"
  "listed_alive (demo_linker True) demo_pair"
proof -
  have hd: "mod_hd (xy_rt demo_pair) = 4" "mod_by_region_hd (xy_rt demo_pair) = 5" "region_hd (xy_rt demo_pair) = 6"
    "path_intern_hd (xy_rt demo_pair) = 3" "hook_id_hd (xy_rt demo_pair) = 2"
    by (simp_all add: demo_pair_def demo_boot_corm)
  have "\<not> hook_reg (demo_linker True) demo_pair name k" for name k
    by (simp add: hook_reg_def demo_linker_tables demo_pair_tables hd)
  moreover have "mods_wf demo_pair"
    using demo_pair_mods by (auto simp: mods_wf_def demo_pair_def split: if_splits)
  moreover have "ready (demo_linker True) demo_pair"
    using demo_pair_ready by (simp add: ready_def region_wf_def table_wf_def demo_linker_tables)
  moreover have "intern_wf (demo_linker True) demo_pair"
    unfolding intern_wf_def hd demo_linker_tables demo_pair_tables by (simp add: demo_pair_def)
  moreover have "\<forall>m e k name. mods demo_pair m = Some e \<longrightarrow> 0 \<le> k \<longrightarrow> cache_ok (demo_linker True) e k name"
    by (auto simp: demo_pair_def cache_ok_def mod_zero_def module_has_hook_implemented_def)
  ultimately show "load_ready (demo_linker True) demo_pair"
    unfolding load_ready_def caches_ok_def unused_ok_def hooks_wf_def hook_tab_def hd demo_linker_tables demo_pair_tables by simp
  show "deny_inv (demo_linker True) demo_pair"
    using demo_pair_inv by (simp add: unload_inv_def deny_inv_def set_agrees_def demo_linker_tables)
  show "listed_alive (demo_linker True) demo_pair"
    by (auto simp: listed_alive_def demo_linker_tables hd demo_pair_tables split: if_splits) (simp_all add: demo_pair_def)
qed

lemma demo_reopened:
  "reopened (demo_linker True) s ''mods/b.so'' (Some ''mods/.xylem-XXXXXX.so'') (''mods/.xylem-XXXXXX.so'' # tmp_files s) 21
     [77 \<mapsto> xy_t_zero] (xy_pending_ctx s)"
  by (simp add: reopened_def copy_to_tmp_def copy_one_def last_slash_def demo_linker_def demo_env_def)

theorem reload_in_place_witness:
  "\<exists>t m' e'. xy_reload (demo_linker True) ''mods/b'' demo_pair = Some (XY_OK, t) \<and> mods t 11 = None \<and> mods t m' = Some e' \<and>
     me_handle e' = Some 21 \<and> me_ctx e' = Some 77 \<and> me_parent_entry e' = None \<and> mods_of t 1 [10, m']"
proof -
  let ?E = "demo_linker True" and ?b = "mod_key (mod_key_len ''mods/b.so'') ''mods/b.so'' 0 0" and ?r = "the (regions demo_pair 1)"
  have hd: "mod_hd (xy_rt demo_pair) = 4" "xy_current_region_id demo_pair = 0" "xy_current_region_entry demo_pair = Some 1"
    by (simp_all add: demo_pair_def demo_boot_corm demo_boot_fields)
  have path: "module_load_path ?E demo_pair ''mods/b'' = Some ''mods/b.so''"
    by (simp add: module_load_path_def demo_linker_def demo_env_def Let_def)
  have plen: "region_current_plen demo_pair = Some 0"
    by (simp add: region_current_plen_def hd) (simp add: demo_pair_def region_zero_def)
  have key: "?b = mod_key (mod_key_len ''mods/b.so'') ''mods/b.so'' (xy_current_region_id demo_pair) 0" by (simp only: hd)
  have tab: "tbl_get ?E demo_pair (mod_hd (xy_rt demo_pair)) (KStr ?b) = Some (VPtr 11)"
    using demo_pair_keys by (simp add: hd demo_linker_tables demo_pair_tables)
  obtain e where e: "mods demo_pair 11 = Some e" "held_with None e ?b 31 6"
    by (simp add: demo_pair_def held_with_def mod_zero_def)
  have ms: "mods_of demo_pair 1 ([10] @ 11 # [])" using demo_pair_mods by simp
  have leaf: "\<forall>q e'. mods demo_pair q = Some e' \<longrightarrow> q \<noteq> 11 \<longrightarrow> me_parent_entry e' \<noteq> Some 11"
    and alone: "alone ?E demo_pair 11 6"
    by (auto simp: alone_def demo_pair_def mod_zero_def split: if_splits)
  have p: "regions demo_pair 1 = Some ?r" "\<not> re_require_claim ?r" by (simp_all add: demo_pair_def region_zero_def)
  from unload_for_reload [OF demo_linker_ok demo_pair_loader path plen key tab e ms leaf alone] obtain v where
    v: "mod_unload (link_fuel demo_pair) ?E ''mods/b'' (xy_current_region_id demo_pair) 0 demo_pair = Some (XY_OK, v)" by blast
  have re: "reopened ?E (v\<lparr>xy_reloading := True\<rparr>) ''mods/b.so'' (Some ''mods/.xylem-XXXXXX.so'') (''mods/.xylem-XXXXXX.so'' # tmp_files v) 21
     [77 \<mapsto> xy_t_zero] (xy_pending_ctx v)"
    using demo_reopened [of "v\<lparr>xy_reloading := True\<rparr>"] by simp
  have mod: "plain_module ?E 21" "good_ctx ?E 21 [77 \<mapsto> xy_t_zero] (Some 77)"
  proof -
    show "plain_module ?E 21"
      by (auto simp: plain_module_def quiet_module_def module_lookup_symbol_fn_def module_lookup_symbol_raw_def demo_linker_def demo_env_def
          intro!: exI [of _ id])
  qed (simp add: good_ctx_def demo_abi)
  have "xy_loading_mod demo_pair = None"
    by (simp add: demo_pair_def demo_boot_def xy_runtime_bootstrap_def demo_start_def open_table_def tbl_open_def
        region_ensure_root_def region_lookup_def demo_env_def list_corm_def upd_rt_def tbl_get_def new_region_def tbl_put_def
        set_current_region_def region_current_plen_def region_zero_def)
  with reload_in_place [OF demo_linker_ok demo_pair_loader path plen key tab e ms leaf alone hd(3) p v re mod(1) demo_ctx mod(2)]
  show ?thesis by (simp add: held_with_def) blast
qed

end
