(* ===== verification/Xy_Shutdown.thy ===== *)
theory Xy_Shutdown
  imports Xy_Cascade
begin

text \<open>
  The end of the runtime, and its next start: \<^verbatim>\<open>xy_shutdown\<close> gives back every module and every
  region, keeps the registered hooks, and leaves a process in which the library starts again.
\<close>

section \<open>Freeing the modules\<close>

definition has_handle :: "'h xy_state \<Rightarrow> dlhandle \<Rightarrow> mptr \<Rightarrow> bool" where
  "has_handle s h m \<longleftrightarrow> (\<exists>e. mods s m = Some e \<and> me_handle e = Some h)"

definition has_copy :: "'h xy_state \<Rightarrow> string \<Rightarrow> mptr \<Rightarrow> bool" where
  "has_copy s f m \<longleftrightarrow> (\<exists>e. mods s m = Some e \<and> me_tmp_load_path e = Some f)"

text \<open>An entry without per-region state: module code does not run when it is freed.\<close>

definition stateless :: "'h xy_state \<Rightarrow> mptr \<Rightarrow> bool" where
  "stateless s m \<longleftrightarrow> (\<exists>e. mods s m = Some e \<and> me_region_state e = None)"

lemma free_entry_ok:
  assumes "stateless s m"
  shows "\<exists>t. module_free_entry E (Some m) True s = Some t \<and>
     t = s\<lparr>mods := (mods s)(m := None), dl_refs := dl_refs t, tmp_files := tmp_files t\<rparr> \<and>
     (\<forall>h. dl_refs t h = dl_refs s h - (if has_handle s h m then 1 else 0)) \<and>
     tmp_files t = filter (\<lambda>f. \<not> has_copy s f m) (tmp_files s)"
proof -
  obtain e where e: "mods s m = Some e" "me_region_state e = None" using assms unfolding stateless_def by blast
  let ?d = "\<lambda>h. dl_refs s h - (if me_handle e = Some h then 1 else 0)"
  let ?t = "s\<lparr>mods := (mods s)(m := None), dl_refs := ?d, tmp_files := filter (\<lambda>f. me_tmp_load_path e \<noteq> Some f) (tmp_files s)\<rparr>"
  have "?d = (case me_handle e of None \<Rightarrow> dl_refs s | Some h \<Rightarrow> (dl_refs s)(h := dl_refs s h - 1))"
    by (auto simp: fun_eq_iff split: option.split)
  moreover have "filter (\<lambda>f. me_tmp_load_path e \<noteq> Some f) (tmp_files s) =
      (case me_tmp_load_path e of None \<Rightarrow> tmp_files s | Some p \<Rightarrow> filter (\<lambda>f. f \<noteq> p) (tmp_files s))"
    by (auto split: option.split intro!: filter_cong)
  ultimately have "module_free_entry E (Some m) True s = Some ?t"
    using e by (simp add: module_free_entry_def module_cleanup_region_state_def free_mod_def dl_close_def unlink_file_def
        split: option.split)
  then show ?thesis using e(1) by (simp add: has_handle_def has_copy_def)
qed

lemma free_all_ok:
  assumes "map (\<lambda>kv. corm_ptr (Some (snd kv))) kvs = map Some ms" "distinct ms" "\<forall>m \<in> set ms. stateless s m"
  shows "\<exists>t. each_entry (\<lambda>m. module_free_entry E m True) kvs s = Some t \<and>
     t = s\<lparr>mods := (\<lambda>q. if q \<in> set ms then None else mods s q), dl_refs := dl_refs t, tmp_files := tmp_files t\<rparr> \<and>
     (\<forall>h. dl_refs t h = dl_refs s h - length (filter (has_handle s h) ms)) \<and>
     tmp_files t = filter (\<lambda>f. \<forall>m \<in> set ms. \<not> has_copy s f m) (tmp_files s)"
  using assms
proof (induction kvs arbitrary: s ms)
  case Nil
  then show ?case by simp
next
  case (Cons kv kvs)
  obtain m ms' where ms: "ms = m # ms'" "corm_ptr (Some (snd kv)) = Some m"
    "map (\<lambda>kv. corm_ptr (Some (snd kv))) kvs = map Some ms'" using Cons.prems(1) by (cases ms) auto
  obtain k v where kv: "kv = (k, v)" by (cases kv)
  obtain u where u: "module_free_entry E (Some m) True s = Some u"
    "u = s\<lparr>mods := (mods s)(m := None), dl_refs := dl_refs u, tmp_files := tmp_files u\<rparr>"
    "\<forall>h. dl_refs u h = dl_refs s h - (if has_handle s h m then 1 else 0)"
    "tmp_files u = filter (\<lambda>f. \<not> has_copy s f m) (tmp_files s)"
    using free_entry_ok [of s m E] Cons.prems(3) ms(1) by auto
  have mu: "mods u = (mods s)(m := None)" by (subst u(2)) simp
  have notin: "m \<notin> set ms'" "distinct ms'" using Cons.prems(2) ms(1) by auto
  have same: "stateless u q = stateless s q" "has_handle u h q = has_handle s h q" "has_copy u f q = has_copy s f q"
    if "q \<in> set ms'" for q h f
    using that notin by (auto simp: stateless_def has_handle_def has_copy_def mu)
  have st: "\<forall>q \<in> set ms'. stateless u q" using same(1) Cons.prems(3) ms(1) by auto
  obtain t where t: "each_entry (\<lambda>m. module_free_entry E m True) kvs u = Some t"
    "t = u\<lparr>mods := (\<lambda>q. if q \<in> set ms' then None else mods u q), dl_refs := dl_refs t, tmp_files := tmp_files t\<rparr>"
    "\<forall>h. dl_refs t h = dl_refs u h - length (filter (has_handle u h) ms')"
    "tmp_files t = filter (\<lambda>f. \<forall>m \<in> set ms'. \<not> has_copy u f m) (tmp_files u)"
    using Cons.IH [OF ms(3) notin(2) st] by blast
  have "filter (has_handle u h) ms' = filter (has_handle s h) ms'" for h using same(2) by (simp cong: filter_cong)
  then have "dl_refs t h = dl_refs s h - length (filter (has_handle s h) ms)" for h
    using t(3) u(3) by (simp add: ms(1))
  moreover have "tmp_files t = filter (\<lambda>f. \<forall>m \<in> set ms. \<not> has_copy s f m) (tmp_files s)"
    unfolding t(4) u(4) ms(1) using same(3) by (auto simp: filter_filter intro!: filter_cong)
  moreover have "t = s\<lparr>mods := (\<lambda>q. if q \<in> set ms then None else mods s q), dl_refs := dl_refs t, tmp_files := tmp_files t\<rparr>"
  proof -
    have "(\<lambda>q. if q \<in> set ms' then None else mods u q) = (\<lambda>q. if q \<in> set ms then None else mods s q)"
      by (auto simp: fun_eq_iff mu ms(1))
    with t(2) have "t = u\<lparr>mods := (\<lambda>q. if q \<in> set ms then None else mods s q), dl_refs := dl_refs t, tmp_files := tmp_files t\<rparr>" by simp
    then show ?thesis by (subst (asm) u(2)) simp
  qed
  moreover have "each_entry (\<lambda>m. module_free_entry E m True) (kv # kvs) s = Some t"
    using u(1) t(1) ms(2) by (simp add: kv)
  ultimately show ?case by blast
qed


section \<open>Freeing the regions\<close>

text \<open>The tables behind a region's deny lists, and the arrays behind its cached vectors.\<close>

definition deny_handle :: "'h xy_state \<Rightarrow> rptr \<Rightarrow> hd \<Rightarrow> bool" where
  "deny_handle s p d \<longleftrightarrow> d \<noteq> 0 \<and> (\<exists>b K. dset s p b = Some (d, K))"

definition own_array :: "'h xy_state \<Rightarrow> addr \<Rightarrow> rptr \<Rightarrow> bool" where
  "own_array s a p \<longleftrightarrow> (\<exists>r. regions s p = Some r \<and> (\<exists>c \<in> set (re_hook_dispatch r). hc_slots c = Some a))"

lemma tbl_close_keeps:
  assumes "env_ok E" "d' \<noteq> d"
  shows "tbl_get E (tbl_close E d s) d' = tbl_get E s d'" "tbl_single E (tbl_close E d s) d' = tbl_single E s d'"
  using assms by (simp_all add: fun_eq_iff tbl_close_def tbl_get_def tbl_single_def env_ok_def corm_ok_def)

lemma free_region_ok:
  assumes E: "env_ok E" and p: "regions s p \<noteq> None"
  shows "\<exists>t. region_entry_free E (Some p) s = Some t \<and>
     t = s\<lparr>st_corm := st_corm t, slot_arrays := slot_arrays t, regions := (regions s)(p := None)\<rparr> \<and>
     (\<forall>a. slot_arrays t a = (if own_array s a p then None else slot_arrays s a)) \<and>
     (\<forall>d. \<not> deny_handle s p d \<longrightarrow> tbl_get E t d = tbl_get E s d \<and> tbl_single E t d = tbl_single E s d)"
proof -
  obtain r where r: "regions s p = Some r" using p by blast
  let ?c = "\<lambda>d s. if d \<noteq> 0 then tbl_close E d s else s"
  define u where "u = ?c (re_denied_modules_set r) (?c (re_denied_hooks_set r) s)"
  let ?t = "u\<lparr>slot_arrays := (\<lambda>a. if a \<in> set (List.map_filter hc_slots (re_hook_dispatch r)) then None else slot_arrays u a),
    regions := (regions u)(p := None)\<rparr>"
  have u: "u = s\<lparr>st_corm := st_corm u\<rparr>" by (simp add: u_def tbl_close_def)
  have "region_entry_free E (Some p) s = Some ?t" using r unfolding region_entry_free_def u_def by (simp only: option.case bind.bind_lunit Let_def)
  moreover have "?t = s\<lparr>st_corm := st_corm ?t, slot_arrays := slot_arrays ?t, regions := (regions s)(p := None)\<rparr>"
    by (subst (1 2) u) simp
  moreover have "slot_arrays ?t a = (if own_array s a p then None else slot_arrays s a)" for a
  proof -
    have "slot_arrays u = slot_arrays s" by (subst u) simp
    moreover have "a \<in> set (List.map_filter hc_slots (re_hook_dispatch r)) \<longleftrightarrow> own_array s a p"
      using r by (force simp: own_array_def List.map_filter_def)
    ultimately show ?thesis by simp
  qed
  moreover have "tbl_get E ?t d = tbl_get E s d \<and> tbl_single E ?t d = tbl_single E s d" if "\<not> deny_handle s p d" for d
  proof -
    have nd: "d \<noteq> re_denied_modules_set r \<or> d = 0" "d \<noteq> re_denied_hooks_set r \<or> d = 0"
      using that r by (auto simp: deny_handle_def dset_def deny_set_def split: if_splits)
    have one: "tbl_get E (?c x v) d = tbl_get E v d \<and> tbl_single E (?c x v) d = tbl_single E v d" if "d \<noteq> x \<or> d = 0" for x v
      using that tbl_close_keeps [OF E, of d x v] by (cases "x = 0") auto
    have "tbl_get E u d = tbl_get E s d \<and> tbl_single E u d = tbl_single E s d"
      unfolding u_def using one [OF nd(1)] one [OF nd(2)] by metis
    moreover have "tbl_get E ?t = tbl_get E u" "tbl_single E ?t = tbl_single E u"
      by (rule tbl_get_cong tbl_single_cong, simp)+
    ultimately show ?thesis by simp
  qed
  ultimately show ?thesis by blast
qed

lemma free_regions_ok:
  assumes E: "env_ok E"
  shows "map (\<lambda>kv. corm_ptr (Some (snd kv))) kvs = map Some ps \<Longrightarrow> distinct ps \<Longrightarrow> \<forall>p \<in> set ps. regions s p \<noteq> None \<Longrightarrow>
   \<exists>t. each_entry (region_entry_free E) kvs s = Some t \<and>
     t = s\<lparr>st_corm := st_corm t, slot_arrays := slot_arrays t, regions := (\<lambda>q. if q \<in> set ps then None else regions s q)\<rparr> \<and>
     (\<forall>a. slot_arrays t a = (if \<exists>p \<in> set ps. own_array s a p then None else slot_arrays s a)) \<and>
     (\<forall>d. (\<forall>p \<in> set ps. \<not> deny_handle s p d) \<longrightarrow> tbl_get E t d = tbl_get E s d \<and> tbl_single E t d = tbl_single E s d)"
proof (induction kvs arbitrary: s ps)
  case Nil
  then show ?case by simp
next
  case (Cons kv kvs)
  obtain p ps' where ps: "ps = p # ps'" "corm_ptr (Some (snd kv)) = Some p"
    "map (\<lambda>kv. corm_ptr (Some (snd kv))) kvs = map Some ps'" using Cons.prems(1) by (cases ps) auto
  obtain k v where kv: "kv = (k, v)" by (cases kv)
  obtain u where u: "region_entry_free E (Some p) s = Some u"
    "u = s\<lparr>st_corm := st_corm u, slot_arrays := slot_arrays u, regions := (regions s)(p := None)\<rparr>"
    "\<forall>a. slot_arrays u a = (if own_array s a p then None else slot_arrays s a)"
    "\<forall>d. \<not> deny_handle s p d \<longrightarrow> tbl_get E u d = tbl_get E s d \<and> tbl_single E u d = tbl_single E s d"
    using free_region_ok [OF E, of s p] Cons.prems(3) ps(1) by auto
  have ru: "regions u = (regions s)(p := None)" by (subst u(2)) simp
  have notin: "p \<notin> set ps'" "distinct ps'" using Cons.prems(2) ps(1) by auto
  have same: "deny_handle u q d = deny_handle s q d" "own_array u a q = own_array s a q" if "q \<in> set ps'" for q d a
    using that notin by (auto simp: deny_handle_def dset_def own_array_def ru)
  have al: "\<forall>q \<in> set ps'. regions u q \<noteq> None" using Cons.prems(3) ps(1) notin by (auto simp: ru)
  obtain t where t: "each_entry (region_entry_free E) kvs u = Some t"
    "t = u\<lparr>st_corm := st_corm t, slot_arrays := slot_arrays t, regions := (\<lambda>q. if q \<in> set ps' then None else regions u q)\<rparr>"
    "\<forall>a. slot_arrays t a = (if \<exists>p \<in> set ps'. own_array u a p then None else slot_arrays u a)"
    "\<forall>d. (\<forall>p \<in> set ps'. \<not> deny_handle u p d) \<longrightarrow> tbl_get E t d = tbl_get E u d \<and> tbl_single E t d = tbl_single E u d"
    using Cons.IH [OF ps(3) notin(2) al] by blast
  have "slot_arrays t a = (if \<exists>p \<in> set ps. own_array s a p then None else slot_arrays s a)" for a
    using t(3) u(3) same(2) by (auto simp: ps(1))
  moreover have "tbl_get E t d = tbl_get E s d \<and> tbl_single E t d = tbl_single E s d" if "\<forall>p \<in> set ps. \<not> deny_handle s p d" for d
    using that t(4) u(4) same(1) by (simp add: ps(1))
  moreover have "t = s\<lparr>st_corm := st_corm t, slot_arrays := slot_arrays t, regions := (\<lambda>q. if q \<in> set ps then None else regions s q)\<rparr>"
  proof -
    have "(\<lambda>q. if q \<in> set ps' then None else regions u q) = (\<lambda>q. if q \<in> set ps then None else regions s q)"
      by (auto simp: fun_eq_iff ru ps(1))
    with t(2) have "t = u\<lparr>st_corm := st_corm t, slot_arrays := slot_arrays t, regions := (\<lambda>q. if q \<in> set ps then None else regions s q)\<rparr>" by simp
    then show ?thesis by (subst (asm) u(2)) simp
  qed
  moreover have "each_entry (region_entry_free E) (kv # kvs) s = Some t" using u(1) t(1) ps(2) by (simp add: kv)
  ultimately show ?case by blast
qed


section \<open>Shutdown\<close>

text \<open>
  A runtime that can be taken down: every allocated module has its row in the table of modules,
  none has per-region state, and the table of regions holds regions only.
\<close>

definition closable :: "'h env \<Rightarrow> 'h xy_state \<Rightarrow> bool" where
  "closable E s \<longleftrightarrow>
     ready E s \<and> deny_inv E s \<and> mod_hd (xy_rt s) \<noteq> 0 \<and> path_intern_hd (xy_rt s) \<noteq> 0 \<and> hook_id_hd (xy_rt s) \<noteq> 0 \<and>
     \<not> tbl_single E s (mod_by_region_hd (xy_rt s)) \<and>
     (\<forall>k v. tbl_get E s (mod_hd (xy_rt s)) k = Some v \<longrightarrow>
        (\<exists>m e. k = KStr (me_mod_key e) \<and> v = VPtr m \<and> mods s m = Some e \<and> me_region_state e = None)) \<and>
     (\<forall>m e. mods s m = Some e \<longrightarrow> row E s (me_mod_key e) m) \<and>
     (\<forall>k v. tbl_get E s (region_hd (xy_rt s)) k = Some v \<longrightarrow> (\<exists>i p. k = KRegion i \<and> v = VPtr p))"

text \<open>The rows of a table of pointers, each pointer once.\<close>

lemma rows_once:
  assumes E: "env_ok E" and sg: "tbl_single E s d"
    and ptr: "\<And>k v. tbl_get E s d k = Some v \<Longrightarrow> \<exists>p. v = VPtr p"
    and inj: "\<And>k k' p. tbl_get E s d k = Some (VPtr p) \<Longrightarrow> tbl_get E s d k' = Some (VPtr p) \<Longrightarrow> k = k'"
  obtains ps where "map (\<lambda>kv. corm_ptr (Some (snd kv))) (tbl_iter E s d) = map Some ps" "distinct ps"
    "\<And>p. p \<in> set ps \<longleftrightarrow> (\<exists>k. tbl_get E s d k = Some (VPtr p))"
proof -
  let ?kvs = "tbl_iter E s d" and ?f = "\<lambda>kv. the (corm_ptr (Some (snd kv)))"
  note iff = tbl_iter_iff [OF E sg]
  have vp: "\<exists>k p. kv = (k, VPtr p) \<and> tbl_get E s d k = Some (VPtr p)" if "kv \<in> set ?kvs" for kv
    
  proof -
    obtain k v where kv: "kv = (k, v)" by (cases kv)
    then have "tbl_get E s d k = Some v" using that by (simp add: iff)
    with ptr [OF this] kv show ?thesis by blast
  qed
  have "distinct (map fst ?kvs)"
    using E sg unfolding env_ok_def corm_ok_def tbl_iter_def tbl_single_def by blast
  moreover have "inj_on ?f (set ?kvs)"
  proof (rule inj_onI)
    fix a b assume ab: "a \<in> set ?kvs" "b \<in> set ?kvs" "?f a = ?f b"
    obtain k p where a: "a = (k, VPtr p)" "tbl_get E s d k = Some (VPtr p)" using vp [OF ab(1)] by blast
    obtain k' p' where b: "b = (k', VPtr p')" "tbl_get E s d k' = Some (VPtr p')" using vp [OF ab(2)] by blast
    have "p = p'" using ab(3) by (simp add: a(1) b(1))
    then show "a = b" using inj [OF a(2)] b by (simp add: a(1))
  qed
  ultimately have 1: "distinct (map ?f ?kvs)" by (simp add: distinct_map distinct_map [of fst])
  have 2: "map (\<lambda>kv. corm_ptr (Some (snd kv))) ?kvs = map Some (map ?f ?kvs)"
    unfolding map_map by (rule map_cong [OF refl]) (use vp in \<open>auto dest!: vp\<close>)
  have 3: "p \<in> set (map ?f ?kvs) \<longleftrightarrow> (\<exists>k. tbl_get E s d k = Some (VPtr p))" for p
  proof
    assume "p \<in> set (map ?f ?kvs)"
    then obtain kv where "kv \<in> set ?kvs" "p = ?f kv" by auto
    with vp [OF this(1)] show "\<exists>k. tbl_get E s d k = Some (VPtr p)" by auto
  next
    assume "\<exists>k. tbl_get E s d k = Some (VPtr p)"
    then obtain k where "(k, VPtr p) \<in> set ?kvs" using iff by blast
    then show "p \<in> set (map ?f ?kvs)" by force
  qed
  show ?thesis by (rule that [OF 2 1 3])
qed

lemma closable_rows:
  assumes E: "env_ok E" and cl: "closable E s"
  obtains ms ps where
    "map (\<lambda>kv. corm_ptr (Some (snd kv))) (tbl_iter E s (mod_hd (xy_rt s))) = map Some ms" "distinct ms"
    "\<And>m. m \<in> set ms \<longleftrightarrow> mods s m \<noteq> None" "\<And>m. m \<in> set ms \<Longrightarrow> stateless s m"
    "\<And>p. (\<exists>k. tbl_get E s (region_hd (xy_rt s)) k = Some (VPtr p)) \<longleftrightarrow> regions s p \<noteq> None"
    "\<And>k k' p. tbl_get E s (region_hd (xy_rt s)) k = Some (VPtr p) \<Longrightarrow> tbl_get E s (region_hd (xy_rt s)) k' = Some (VPtr p) \<Longrightarrow> k = k'"
proof -
  have sg: "tbl_single E s (mod_hd (xy_rt s))" using cl by (auto simp: closable_def deny_inv_def rt_handles_def rt_list_def Let_def)
  have rows: "\<exists>m e. k = KStr (me_mod_key e) \<and> v = VPtr m \<and> mods s m = Some e \<and> me_region_state e = None"
    if "tbl_get E s (mod_hd (xy_rt s)) k = Some v" for k v using cl that unfolding closable_def by blast
  obtain ms where ms: "map (\<lambda>kv. corm_ptr (Some (snd kv))) (tbl_iter E s (mod_hd (xy_rt s))) = map Some ms" "distinct ms"
    "\<And>m. m \<in> set ms \<longleftrightarrow> (\<exists>k. tbl_get E s (mod_hd (xy_rt s)) k = Some (VPtr m))"
  proof (rule rows_once [OF E sg])
    show "\<exists>p. v = VPtr p" if "tbl_get E s (mod_hd (xy_rt s)) k = Some v" for k v using rows [OF that] by blast
    show "k = k'" if "tbl_get E s (mod_hd (xy_rt s)) k = Some (VPtr p)" "tbl_get E s (mod_hd (xy_rt s)) k' = Some (VPtr p)" for k k' p
      using rows [OF that(1)] rows [OF that(2)] by auto
  qed (rule that)
  have 1: "m \<in> set ms \<longleftrightarrow> mods s m \<noteq> None" for m
  proof
    assume "m \<in> set ms"
    then obtain k where "tbl_get E s (mod_hd (xy_rt s)) k = Some (VPtr m)" unfolding ms(3) by blast
    from rows [OF this] show "mods s m \<noteq> None" by auto
  next
    assume "mods s m \<noteq> None"
    then show "m \<in> set ms" using cl unfolding ms(3) closable_def row_def by blast
  qed
  have 2: "stateless s m" if "m \<in> set ms" for m
  proof -
    from that obtain k where "tbl_get E s (mod_hd (xy_rt s)) k = Some (VPtr m)" unfolding ms(3) by blast
    from rows [OF this] show ?thesis unfolding stateless_def by auto
  qed
  have tw: "table_wf E s" using cl by (simp add: closable_def ready_def region_wf_def)
  have reg: "\<exists>i. k = KRegion i \<and> r_key s p = Some i" if "tbl_get E s (region_hd (xy_rt s)) k = Some (VPtr p)" for k p
  proof -
    from cl that obtain i where "k = KRegion i" unfolding closable_def by blast
    with that tw show ?thesis unfolding table_wf_def by force
  qed
  have 3: "(\<exists>k. tbl_get E s (region_hd (xy_rt s)) k = Some (VPtr p)) \<longleftrightarrow> regions s p \<noteq> None" for p
  proof
    assume "regions s p \<noteq> None"
    then obtain i where "r_key s p = Some i" by (auto simp: r_key_def)
    then have "corm_ptr (tbl_get E s (region_hd (xy_rt s)) (KRegion i)) = Some p" using tw unfolding table_wf_def by blast
    then show "\<exists>k. tbl_get E s (region_hd (xy_rt s)) k = Some (VPtr p)"
      by (cases "tbl_get E s (region_hd (xy_rt s)) (KRegion i)" rule: corm_ptr.cases) auto
  qed (use reg in \<open>auto simp: r_key_def\<close>)
  have 4: "k = k'" if "tbl_get E s (region_hd (xy_rt s)) k = Some (VPtr p)" "tbl_get E s (region_hd (xy_rt s)) k' = Some (VPtr p)" for k k' p
    using reg [OF that(1)] reg [OF that(2)] by auto
  show ?thesis by (rule that [OF ms(1,2) 1 2 3 4])
qed


text \<open>What every part of the teardown relies on.\<close>

lemma closableD:
  assumes "closable E s"
  shows "mod_hd (xy_rt s) \<noteq> 0" "region_hd (xy_rt s) \<noteq> 0" "path_intern_hd (xy_rt s) \<noteq> 0" "\<not> tbl_single E s (mod_by_region_hd (xy_rt s))"
    "d \<in> rt_handles s \<Longrightarrow> tbl_single E s d" "d \<in> rt_handles s \<Longrightarrow> d \<noteq> mod_by_region_hd (xy_rt s)"
    "deny_handle s p d \<Longrightarrow> d \<notin> rt_handles s" "xy_inited (xy_rt s)"
    "distinct [region_hd (xy_rt s), path_intern_hd (xy_rt s), mod_hd (xy_rt s), hook_id_hd (xy_rt s), sica_hd (xy_rt s)]"
    "rt_handles s = {region_hd (xy_rt s), path_intern_hd (xy_rt s), mod_hd (xy_rt s), hook_id_hd (xy_rt s), sica_hd (xy_rt s)}"
proof -
  have r: "table_wf E s" "xy_inited (xy_rt s)" and d: "deny_inv E s" and n: "\<not> tbl_single E s (mod_by_region_hd (xy_rt s))"
    using assms unfolding closable_def ready_def region_wf_def by blast+
  show "mod_hd (xy_rt s) \<noteq> 0" "path_intern_hd (xy_rt s) \<noteq> 0" using assms unfolding closable_def by blast+
  show "region_hd (xy_rt s) \<noteq> 0" using r(1) unfolding table_wf_def by blast
  show "\<not> tbl_single E s (mod_by_region_hd (xy_rt s))" "xy_inited (xy_rt s)" by (rule n, rule r(2))
  show sg: "tbl_single E s d" if "d \<in> rt_handles s" for d using d that unfolding deny_inv_def by blast
  show "d \<noteq> mod_by_region_hd (xy_rt s)" if "d \<in> rt_handles s" using sg [OF that] n by blast
  show "d \<notin> rt_handles s" if "deny_handle s p d" using d that unfolding deny_inv_def deny_handle_def by blast
  show "distinct [region_hd (xy_rt s), path_intern_hd (xy_rt s), mod_hd (xy_rt s), hook_id_hd (xy_rt s), sica_hd (xy_rt s)]"
    using d by (simp add: deny_inv_def rt_list_def Let_def)
  show "rt_handles s = {region_hd (xy_rt s), path_intern_hd (xy_rt s), mod_hd (xy_rt s), hook_id_hd (xy_rt s), sica_hd (xy_rt s)}"
    by (auto simp: rt_handles_def rt_list_def Let_def)
qed

lemma tbl_upd_rt: "tbl_get E (upd_rt f v) = tbl_get E v" "tbl_single E (upd_rt f v) = tbl_single E v"
  by (rule tbl_get_cong tbl_single_cong, simp add: upd_rt_def)+

text \<open>The part about modules.\<close>

definition drop_mod_tables :: "'h env \<Rightarrow> hd \<Rightarrow> hd \<Rightarrow> 'h xy_state \<Rightarrow> 'h xy_state" where
  "drop_mod_tables E d d' u =
     (let s1 = upd_rt (\<lambda>r. r\<lparr>mod_hd := 0\<rparr>) (tbl_close E d u)
      in if d' = 0 then s1 else upd_rt (\<lambda>r. r\<lparr>mod_by_region_hd := 0\<rparr>) (tbl_close E d' s1))"

lemma teardown_modules:
  assumes E: "env_ok E" and cl: "closable E s"
  defines "s0 \<equiv> upd_rt (\<lambda>r. r\<lparr>xy_inited := False\<rparr>) s"
  shows "\<exists>u. each_entry (\<lambda>m. module_free_entry E m True) (tbl_iter E s0 (mod_hd (xy_rt s))) s0 = Some u \<and>
    xy_rt u = (xy_rt s)\<lparr>xy_inited := False\<rparr> \<and>
    (\<exists>co. drop_mod_tables E (mod_hd (xy_rt s)) (mod_by_region_hd (xy_rt s)) u =
       s\<lparr>mods := (\<lambda>_. None), dl_refs := (\<lambda>h. dl_refs s h - card {m. has_handle s h m}),
         tmp_files := filter (\<lambda>f. \<forall>m. \<not> has_copy s f m) (tmp_files s), st_corm := co,
         xy_rt := (xy_rt s)\<lparr>xy_inited := False, mod_hd := 0, mod_by_region_hd := 0\<rparr>\<rparr>) \<and>
    (\<forall>d \<in> rt_handles s - {mod_hd (xy_rt s)}.
       tbl_get E (drop_mod_tables E (mod_hd (xy_rt s)) (mod_by_region_hd (xy_rt s)) u) d = tbl_get E s d \<and>
       tbl_single E (drop_mod_tables E (mod_hd (xy_rt s)) (mod_by_region_hd (xy_rt s)) u) d)"
proof -
  let ?rt = "xy_rt s"
  note c = closableD [OF cl]
  obtain ms where ms: "map (\<lambda>kv. corm_ptr (Some (snd kv))) (tbl_iter E s (mod_hd ?rt)) = map Some ms" "distinct ms"
    "\<And>m. m \<in> set ms \<longleftrightarrow> mods s m \<noteq> None" "\<And>m. m \<in> set ms \<Longrightarrow> stateless s m"
    by (rule closable_rows [OF E cl]) (rule that)
  have s0: "tbl_iter E s0 = tbl_iter E s" "mods s0 = mods s" "st_corm s0 = st_corm s" "dl_refs s0 = dl_refs s" "tmp_files s0 = tmp_files s"
    by (simp_all add: fun_eq_iff s0_def upd_rt_def tbl_iter_def)
  have hs: "has_handle s0 = has_handle s" "has_copy s0 = has_copy s" "stateless s0 = stateless s"
    by (simp_all add: fun_eq_iff has_handle_def has_copy_def stateless_def s0)
  obtain u where u: "each_entry (\<lambda>m. module_free_entry E m True) (tbl_iter E s0 (mod_hd ?rt)) s0 = Some u"
    "u = s0\<lparr>mods := (\<lambda>q. if q \<in> set ms then None else mods s q), dl_refs := dl_refs u, tmp_files := tmp_files u\<rparr>"
    "\<forall>h. dl_refs u h = dl_refs s h - length (filter (has_handle s h) ms)"
    "tmp_files u = filter (\<lambda>f. \<forall>m \<in> set ms. \<not> has_copy s f m) (tmp_files s)"
    using free_all_ok [of "tbl_iter E s0 (mod_hd ?rt)" ms s0 E] ms unfolding s0 hs by blast
  have "length (filter (has_handle s h) ms) = card {m. has_handle s h m}" for h
  proof -
    have "{m. has_handle s h m} \<inter> set ms = {m. has_handle s h m}" using ms(3) by (auto simp: has_handle_def)
    then show ?thesis using distinct_length_filter [OF ms(2), of "has_handle s h"] by simp
  qed
  then have dl: "dl_refs u = (\<lambda>h. dl_refs s h - card {m. has_handle s h m})" using u(3) by (simp add: fun_eq_iff)
  have tf: "tmp_files u = filter (\<lambda>f. \<forall>m. \<not> has_copy s f m) (tmp_files s)"
    unfolding u(4) using ms(3) by (auto simp: has_copy_def intro!: filter_cong)
  have none: "(\<lambda>q. if q \<in> set ms then None else mods s q) = (\<lambda>_. None)" using ms(3) by (auto simp: fun_eq_iff)
  have ueq: "u = s\<lparr>mods := (\<lambda>_. None), dl_refs := dl_refs u, tmp_files := tmp_files u, xy_rt := ?rt\<lparr>xy_inited := False\<rparr>\<rparr>"
    by (subst u(2)) (simp add: none s0_def upd_rt_def)
  have ur: "xy_rt u = ?rt\<lparr>xy_inited := False\<rparr>" by (subst ueq) simp
  let ?v = "drop_mod_tables E (mod_hd ?rt) (mod_by_region_hd ?rt) u"
  have "?v = u\<lparr>st_corm := st_corm ?v, xy_rt := ?rt\<lparr>xy_inited := False, mod_hd := 0, mod_by_region_hd := 0\<rparr>\<rparr>"
    by (cases "mod_by_region_hd ?rt = 0") (simp_all add: drop_mod_tables_def upd_rt_def tbl_close_def ur)
  moreover have "u\<lparr>st_corm := st_corm ?v, xy_rt := ?rt\<lparr>xy_inited := False, mod_hd := 0, mod_by_region_hd := 0\<rparr>\<rparr> =
      s\<lparr>mods := (\<lambda>_. None), dl_refs := dl_refs u, tmp_files := tmp_files u, st_corm := st_corm ?v,
        xy_rt := ?rt\<lparr>xy_inited := False, mod_hd := 0, mod_by_region_hd := 0\<rparr>\<rparr>"
    by (subst ueq) simp
  moreover have "tbl_get E ?v d = tbl_get E s d \<and> tbl_single E ?v d" if d: "d \<in> rt_handles s" "d \<noteq> mod_hd ?rt" for d
  proof -
    have st: "st_corm u = st_corm s" by (subst ueq) simp
    show ?thesis
      using tbl_get_cong [OF st, of E] tbl_single_cong [OF st, of E] tbl_close_keeps [OF E d(2)] tbl_close_keeps [OF E c(6) [OF d(1)]]
        c(5) [OF d(1)]
      by (simp add: drop_mod_tables_def Let_def tbl_upd_rt)
  qed
  ultimately show ?thesis using u(1) ur dl tf by (intro exI [of _ u]) auto
qed

text \<open>The part about regions.\<close>

lemma teardown_regions:
  assumes E: "env_ok E" and cl: "closable E s" and v: "regions v = regions s" "slot_arrays v = slot_arrays s"
    "\<forall>d \<in> rt_handles s - {mod_hd (xy_rt s)}. tbl_get E v d = tbl_get E s d \<and> tbl_single E v d"
  shows "\<exists>u. each_entry (region_entry_free E) (tbl_iter E v (region_hd (xy_rt s))) v = Some u \<and>
    u = v\<lparr>st_corm := st_corm u, slot_arrays := (\<lambda>a. if \<exists>p. own_array s a p then None else slot_arrays s a), regions := (\<lambda>_. None)\<rparr> \<and>
    (\<forall>d \<in> rt_handles s - {mod_hd (xy_rt s)}. tbl_get E u d = tbl_get E s d \<and> tbl_single E u d)"
proof -
  let ?d = "region_hd (xy_rt s)"
  note c = closableD [OF cl]
  have ps: "\<And>p. (\<exists>k. tbl_get E s ?d k = Some (VPtr p)) \<longleftrightarrow> regions s p \<noteq> None"
    "\<And>k k' p. tbl_get E s ?d k = Some (VPtr p) \<Longrightarrow> tbl_get E s ?d k' = Some (VPtr p) \<Longrightarrow> k = k'"
    by (rule closable_rows [OF E cl], assumption)+
  have d: "?d \<in> rt_handles s - {mod_hd (xy_rt s)}" using c(9,10) by auto
  then have get: "tbl_get E v ?d = tbl_get E s ?d" "tbl_single E v ?d" using v(3) by blast+
  obtain qs where qs: "map (\<lambda>kv. corm_ptr (Some (snd kv))) (tbl_iter E v ?d) = map Some qs" "distinct qs"
    "\<And>p. p \<in> set qs \<longleftrightarrow> (\<exists>k. tbl_get E v ?d k = Some (VPtr p))"
  proof (rule rows_once [OF E get(2)])
    show "\<exists>p. x = VPtr p" if "tbl_get E v ?d k = Some x" for k x
      using cl that unfolding get closable_def by blast
    show "k = k'" if "tbl_get E v ?d k = Some (VPtr p)" "tbl_get E v ?d k' = Some (VPtr p)" for k k' p
      using ps(2) that unfolding get by blast
  qed (rule that)
  have all: "p \<in> set qs \<longleftrightarrow> regions s p \<noteq> None" for p unfolding qs(3) get by (rule ps(1))
  have same: "own_array v = own_array s" "deny_handle v = deny_handle s"
    by (simp_all add: fun_eq_iff own_array_def deny_handle_def dset_def v)
  have al: "\<forall>p \<in> set qs. regions s p \<noteq> None" using all by blast
  obtain u where u: "each_entry (region_entry_free E) (tbl_iter E v ?d) v = Some u"
    "u = v\<lparr>st_corm := st_corm u, slot_arrays := slot_arrays u, regions := (\<lambda>q. if q \<in> set qs then None else regions s q)\<rparr>"
    "\<forall>a. slot_arrays u a = (if \<exists>p \<in> set qs. own_array s a p then None else slot_arrays s a)"
    "\<forall>d. (\<forall>p \<in> set qs. \<not> deny_handle s p d) \<longrightarrow> tbl_get E u d = tbl_get E v d \<and> tbl_single E u d = tbl_single E v d"
    using free_regions_ok [OF E qs(1,2), of v] al unfolding same v(1,2) by blast
  have rg: "(\<lambda>q. if q \<in> set qs then None else regions s q) = (\<lambda>_. None)" using all by (auto simp: fun_eq_iff)
  have sl: "slot_arrays u = (\<lambda>a. if \<exists>p. own_array s a p then None else slot_arrays s a)"
  proof -
    have "(\<exists>p \<in> set qs. own_array s a p) \<longleftrightarrow> (\<exists>p. own_array s a p)" for a using all by (auto simp: own_array_def)
    then show ?thesis using u(3) by (simp add: fun_eq_iff)
  qed
  have "tbl_get E u d = tbl_get E s d \<and> tbl_single E u d" if d: "d \<in> rt_handles s - {mod_hd (xy_rt s)}" for d
  proof -
    have "\<forall>p \<in> set qs. \<not> deny_handle s p d" using c(7) d by blast
    then have "tbl_get E u d = tbl_get E v d" "tbl_single E u d = tbl_single E v d" using u(4) by simp_all
    then show ?thesis using v(3) d by simp
  qed
  then show ?thesis using u(1) u(2) [unfolded rg sl] by (intro exI [of _ u] conjI ballI) simp_all
qed

lemma teardown_ok:
  assumes E: "env_ok E" and cl: "closable E s"
  shows "\<exists>t. xy_runtime_teardown E s = Some t \<and>
    t = s\<lparr>mods := (\<lambda>_. None), regions := (\<lambda>_. None), dl_refs := (\<lambda>h. dl_refs s h - card {m. has_handle s h m}),
      tmp_files := filter (\<lambda>f. \<forall>m. \<not> has_copy s f m) (tmp_files s),
      slot_arrays := (\<lambda>a. if \<exists>p. own_array s a p then None else slot_arrays s a), st_corm := st_corm t,
      xy_rt := (xy_rt s)\<lparr>xy_inited := False, mod_hd := 0, mod_by_region_hd := 0, region_hd := 0, path_intern_hd := 0, xy_mod_count := 0\<rparr>,
      xy_current_region_id := XY_REGION_ROOT, xy_current_region_entry := None, xy_last_ran := 0, xy_last_retp := None,
      xy_global := xy_t_zero\<rparr> \<and>
    (\<forall>d \<in> {hook_id_hd (xy_rt s), sica_hd (xy_rt s)}. tbl_get E t d = tbl_get E s d \<and> tbl_single E t d)"
proof -
  let ?rt = "xy_rt s" and ?s0 = "upd_rt (\<lambda>r. r\<lparr>xy_inited := False\<rparr>) s"
  note c = closableD [OF cl]
  obtain u1 v where
    u1: "each_entry (\<lambda>m. module_free_entry E m True) (tbl_iter E ?s0 (mod_hd ?rt)) ?s0 = Some u1" "xy_rt u1 = ?rt\<lparr>xy_inited := False\<rparr>"
    and v: "drop_mod_tables E (mod_hd ?rt) (mod_by_region_hd ?rt) u1 = v"
      "v = s\<lparr>mods := (\<lambda>_. None), dl_refs := (\<lambda>h. dl_refs s h - card {m. has_handle s h m}),
         tmp_files := filter (\<lambda>f. \<forall>m. \<not> has_copy s f m) (tmp_files s), st_corm := st_corm v,
         xy_rt := ?rt\<lparr>xy_inited := False, mod_hd := 0, mod_by_region_hd := 0\<rparr>\<rparr>"
    and tab: "\<forall>d \<in> rt_handles s - {mod_hd ?rt}. tbl_get E v d = tbl_get E s d \<and> tbl_single E v d"
    using teardown_modules [OF E cl] by fastforce
  have vr: "regions v = regions s" "slot_arrays v = slot_arrays s" "xy_rt v = ?rt\<lparr>xy_inited := False, mod_hd := 0, mod_by_region_hd := 0\<rparr>"
    by (subst v(2), simp)+
  from teardown_regions [OF E cl vr(1,2) tab] obtain u where
    u: "each_entry (region_entry_free E) (tbl_iter E v (region_hd ?rt)) v = Some u"
      "u = v\<lparr>st_corm := st_corm u, slot_arrays := (\<lambda>a. if \<exists>p. own_array s a p then None else slot_arrays s a), regions := (\<lambda>_. None)\<rparr>"
      "\<forall>d \<in> rt_handles s - {mod_hd ?rt}. tbl_get E u d = tbl_get E s d \<and> tbl_single E u d" by blast
  have ur: "xy_rt u = ?rt\<lparr>xy_inited := False, mod_hd := 0, mod_by_region_hd := 0\<rparr>" by (subst u(2)) (simp add: vr)
  let ?s1 = "upd_rt (\<lambda>r. r\<lparr>mod_hd := 0\<rparr>) (tbl_close E (mod_hd (xy_rt u1)) u1)"
  let ?w = "path_intern_free_all E (upd_rt (\<lambda>r. r\<lparr>region_hd := 0\<rparr>) (tbl_close E (region_hd (xy_rt u)) u))"
  let ?t = "(set_current_region XY_REGION_ROOT None (upd_rt (\<lambda>r. r\<lparr>xy_mod_count := 0\<rparr>) ?w))\<lparr>xy_last_ran := 0, xy_last_retp := None, xy_global := xy_t_zero\<rparr>"
  have 1: "(if mod_hd (xy_rt ?s0) = 0 then Some ?s0
      else do { u \<leftarrow> each_entry (\<lambda>m. module_free_entry E m True) (tbl_iter E ?s0 (mod_hd (xy_rt ?s0))) ?s0;
                Some (upd_rt (\<lambda>r. r\<lparr>mod_hd := 0\<rparr>) (tbl_close E (mod_hd (xy_rt u)) u)) }) = Some ?s1"
    using c(1) u1(1) by (simp add: upd_rt_def)
  have 2: "(if mod_by_region_hd (xy_rt ?s1) = 0 then ?s1
      else upd_rt (\<lambda>r. r\<lparr>mod_by_region_hd := 0\<rparr>) (tbl_close E (mod_by_region_hd (xy_rt ?s1)) ?s1)) = v"
    unfolding v(1) [symmetric] by (simp add: drop_mod_tables_def Let_def u1(2) upd_rt_def tbl_close_def)
  have 3: "(if region_hd (xy_rt v) = 0 then Some v
      else do { u \<leftarrow> each_entry (region_entry_free E) (tbl_iter E v (region_hd (xy_rt v))) v;
                Some (upd_rt (\<lambda>r. r\<lparr>region_hd := 0\<rparr>) (tbl_close E (region_hd (xy_rt u)) u)) }) =
      Some (upd_rt (\<lambda>r. r\<lparr>region_hd := 0\<rparr>) (tbl_close E (region_hd (xy_rt u)) u))"
    using c(2) u(1) by (simp add: vr)
  have run: "xy_runtime_teardown E s = Some ?t"
    unfolding xy_runtime_teardown_def Let_def by (simp only: 1 2 3 bind.bind_lunit)
  have "?t = u\<lparr>st_corm := st_corm ?t, xy_rt := ?rt\<lparr>xy_inited := False, mod_hd := 0, mod_by_region_hd := 0, region_hd := 0, path_intern_hd := 0, xy_mod_count := 0\<rparr>,
      xy_current_region_id := XY_REGION_ROOT, xy_current_region_entry := None, xy_last_ran := 0, xy_last_retp := None, xy_global := xy_t_zero\<rparr>"
    using c(3) by (simp add: path_intern_free_all_def upd_rt_def tbl_close_def set_current_region_def ur)
  then have eq: "?t = s\<lparr>mods := (\<lambda>_. None), regions := (\<lambda>_. None), dl_refs := (\<lambda>h. dl_refs s h - card {m. has_handle s h m}),
      tmp_files := filter (\<lambda>f. \<forall>m. \<not> has_copy s f m) (tmp_files s),
      slot_arrays := (\<lambda>a. if \<exists>p. own_array s a p then None else slot_arrays s a), st_corm := st_corm ?t,
      xy_rt := ?rt\<lparr>xy_inited := False, mod_hd := 0, mod_by_region_hd := 0, region_hd := 0, path_intern_hd := 0, xy_mod_count := 0\<rparr>,
      xy_current_region_id := XY_REGION_ROOT, xy_current_region_entry := None, xy_last_ran := 0, xy_last_retp := None,
      xy_global := xy_t_zero\<rparr>" (is "_ = ?r")
    by (rule trans) (subst u(2), subst v(2), simp)
  have "tbl_get E ?t d = tbl_get E s d \<and> tbl_single E ?t d" if d: "d = hook_id_hd ?rt \<or> d = sica_hd ?rt" for d
  proof -
    have "d \<in> rt_handles s - {mod_hd ?rt}" "d \<noteq> region_hd ?rt" "d \<noteq> path_intern_hd ?rt" using d c(9,10) by auto
    moreover have "tbl_get E ?t d = tbl_get E u d \<and> tbl_single E ?t d = tbl_single E u d"
    proof -
      let ?a = "tbl_close E (path_intern_hd ?rt) (tbl_close E (region_hd ?rt) u)"
      have "st_corm ?t = st_corm ?a" using c(3) by (simp add: path_intern_free_all_def upd_rt_def tbl_close_def set_current_region_def ur)
      from tbl_get_cong [OF this, of E] tbl_single_cong [OF this, of E] tbl_close_keeps [OF E calculation(2)] tbl_close_keeps [OF E calculation(3)]
      show ?thesis by simp
    qed
    ultimately show ?thesis using u(3) by auto
  qed
  then show ?thesis using run eq by (intro exI [of _ ?t]) blast
qed


section \<open>Starting again\<close>

text \<open>Start-up leaves the tables that are open alone, and everything but regions, tables and the host's context.\<close>

lemma open_table_keeps:
  assumes E: "env_ok E" and d: "tbl_single E s d"
  shows "tbl_get E (open_table E m f s) d = tbl_get E s d" "tbl_single E (open_table E m f s) d"
proof -
  obtain x u where u: "tbl_open E m s = (x, u)" by fastforce
  note laws = tbl_open_laws [OF E u]
  have "d \<noteq> x" using laws(2) d by blast
  then have "tbl_get E u d = tbl_get E s d" "tbl_single E u d" using laws(5,6) d by (auto simp: fun_eq_iff)
  then show "tbl_get E (open_table E m f s) d = tbl_get E s d" "tbl_single E (open_table E m f s) d"
    by (simp_all add: open_table_def u tbl_upd_rt)
qed

lemma ensure_root_keeps:
  assumes E: "env_ok E" and t: "region_ensure_root E s = Some t"
  shows "xy_rt t = xy_rt s" "mods t = mods s" "dl_refs t = dl_refs s" "adapters t = adapters s"
    "tbl_single E t = tbl_single E s"
    "tbl_single E s d \<Longrightarrow> d \<noteq> region_hd (xy_rt s) \<Longrightarrow> tbl_get E t d = tbl_get E s d"
proof -
  obtain root s1 where s1: "(case region_lookup E s XY_REGION_ROOT 0 of
           Some root \<Rightarrow> (root, s)
         | None \<Rightarrow>
             (let (p, s') = new_region (region_zero\<lparr>re_id := XY_REGION_ROOT, re_dispatch_gen := 1\<rparr>) s
              in (p, tbl_put E (region_hd (xy_rt s')) (KRegion (region_key XY_REGION_ROOT 0)) (VPtr p) s'))) = (root, s1)" by fastforce
  have t1: "t = s1 \<or> (\<exists>i. t = set_current_region i (Some root) s1)"
    using t s1 by (auto simp: region_ensure_root_def split: if_splits bind_splits)
  have c1: "xy_rt s1 = xy_rt s" "mods s1 = mods s" "dl_refs s1 = dl_refs s" "adapters s1 = adapters s"
    using s1 by (auto simp: new_region_def tbl_put_def split: option.splits)
  show "xy_rt t = xy_rt s" "mods t = mods s" "dl_refs t = dl_refs s" "adapters t = adapters s"
    using t1 c1 by (auto simp: set_current_region_def)
  have st: "st_corm t = st_corm s1" using t1 by (auto simp: set_current_region_def)
  have cong: "tbl_get E (s\<lparr>regions := rs, next_addr := n\<rparr>) = tbl_get E s" "tbl_single E (s\<lparr>regions := rs, next_addr := n\<rparr>) = tbl_single E s" for rs n
    by (rule tbl_get_cong tbl_single_cong, simp)+
  have "tbl_single E s1 = tbl_single E s"
    using s1 by (auto simp: new_region_def tbl_single_put [OF E] cong fun_eq_iff split: option.splits)
  then show "tbl_single E t = tbl_single E s" using tbl_single_cong [OF st] by simp
  have "tbl_get E t = tbl_get E s1" by (rule tbl_get_cong [OF st])
  moreover have "tbl_get E s1 d = tbl_get E s d" if "tbl_single E s d" "d \<noteq> region_hd (xy_rt s)"
  proof -
    show ?thesis
      using s1 that by (auto simp: new_region_def tbl_get_put [OF E] cong fun_eq_iff split: option.splits)
  qed
  ultimately show "tbl_single E s d \<Longrightarrow> d \<noteq> region_hd (xy_rt s) \<Longrightarrow> tbl_get E t d = tbl_get E s d" by simp
qed

lemma open_table_rt: "\<exists>d. xy_rt (open_table E m f s) = f d (xy_rt s) \<and> mods (open_table E m f s) = mods s \<and>
    dl_refs (open_table E m f s) = dl_refs s \<and> adapters (open_table E m f s) = adapters s \<and>
    (env_ok E \<longrightarrow> \<not> tbl_single E s d)"
proof -
  obtain x u where u: "tbl_open E m s = (x, u)" by fastforce
  then have "xy_rt u = xy_rt s" "mods u = mods s" "dl_refs u = dl_refs s" "adapters u = adapters s" by (auto simp: tbl_open_def split: prod.splits)
  then show ?thesis using tbl_open_laws(2) [OF _ u] by (intro exI [of _ x]) (simp add: open_table_def u upd_rt_def)
qed

definition same_hooks :: "'h env \<Rightarrow> 'h xy_state \<Rightarrow> 'h xy_state \<Rightarrow> bool" where
  "same_hooks E s t \<longleftrightarrow>
     hook_id_hd (xy_rt t) = hook_id_hd (xy_rt s) \<and>
     xy_hook_id_counter (xy_rt t) = xy_hook_id_counter (xy_rt s) \<and> xy_adapter_by_id (xy_rt t) = xy_adapter_by_id (xy_rt s) \<and>
     adapters t = adapters s \<and> tbl_single E t (hook_id_hd (xy_rt s)) \<and>
     tbl_get E t (hook_id_hd (xy_rt s)) = tbl_get E s (hook_id_hd (xy_rt s))"

lemma same_hooks_trans: "same_hooks E s t \<Longrightarrow> same_hooks E t u \<Longrightarrow> same_hooks E s u"
  by (simp add: same_hooks_def)

lemma open_table_hooks:
  assumes E: "env_ok E" and s: "tbl_single E s (hook_id_hd (xy_rt s))"
    and f: "\<And>d r. hook_id_hd (f d r) = hook_id_hd r \<and> xy_hook_id_counter (f d r) = xy_hook_id_counter r \<and> xy_adapter_by_id (f d r) = xy_adapter_by_id r"
  shows "same_hooks E s (open_table E m f s) \<and> mods (open_table E m f s) = mods s \<and> dl_refs (open_table E m f s) = dl_refs s"
  using open_table_rt [of E m f s] open_table_keeps [OF E s, of m f] f by (auto simp: same_hooks_def)

lemma bootstrap_keeps:
  assumes E: "env_ok E" and s: "tbl_single E s (hook_id_hd (xy_rt s))" "hook_id_hd (xy_rt s) \<noteq> 0"
    and b: "xy_runtime_bootstrap E s = Some (r, t)"
  shows "same_hooks E s t \<and> mods t = mods s \<and> dl_refs t = dl_refs s"
proof -
  let ?ok = "\<lambda>u v. same_hooks E u v \<and> mods v = mods u \<and> dl_refs v = dl_refs u"
  have refl: "?ok s s" using s(1) by (simp add: same_hooks_def)
  have step: "?ok s (open_table E m f u)" if "?ok s u" "\<And>d r. hook_id_hd (f d r) = hook_id_hd r \<and> xy_hook_id_counter (f d r) = xy_hook_id_counter r \<and> xy_adapter_by_id (f d r) = xy_adapter_by_id r"
    for m f u
  proof -
    have "tbl_single E u (hook_id_hd (xy_rt u))" using that(1) by (simp add: same_hooks_def)
    note o = open_table_hooks [OF E this that(2), of m]
    with that(1) same_hooks_trans [of E s u "open_table E m f u"] show ?thesis by simp
  qed
  define t1 where "t1 = (if sica_hd (xy_rt s) = 0 then open_table E False (\<lambda>d r. r\<lparr>sica_hd := d\<rparr>) s else s)"
  have o1: "?ok s t1" unfolding t1_def using refl step [OF refl, of "\<lambda>d r. r\<lparr>sica_hd := d\<rparr>" False] by simp
  then have h1: "hook_id_hd (xy_rt t1) \<noteq> 0" using s(2) by (simp add: same_hooks_def)
  define t2 where "t2 = (if hook_id_hd (xy_rt t1) = 0 then open_table E False (\<lambda>d r. r\<lparr>hook_id_hd := d\<rparr>) t1 else t1)"
  have o2: "?ok s t2" using o1 h1 by (simp add: t2_def)
  define t3 where "t3 = (if path_intern_hd (xy_rt t2) = 0 then open_table E False (\<lambda>d r. r\<lparr>path_intern_hd := d\<rparr>) t2 else t2)"
  have o3: "?ok s t3" unfolding t3_def using o2 step [OF o2, of "\<lambda>d r. r\<lparr>path_intern_hd := d\<rparr>" False] by simp
  define t5 where "t5 = open_table E True (\<lambda>d r. r\<lparr>mod_by_region_hd := d\<rparr>) (open_table E False (\<lambda>d r. r\<lparr>mod_hd := d\<rparr>) t3)"
  have o5: "?ok s t5" unfolding t5_def by (rule step, rule step [OF o3]) simp_all
  define t6 where "t6 = open_table E False (\<lambda>d r. r\<lparr>region_hd := d\<rparr>) t5"
  have o6: "?ok s t6" unfolding t6_def by (rule step [OF o5]) simp
  define t7 where "t7 = t6\<lparr>xy_global := bind_fns boot_fns (xy_global t6)\<rparr>"
  have c7: "tbl_get E t7 = tbl_get E t6" "tbl_single E t7 = tbl_single E t6" by (rule tbl_get_cong tbl_single_cong, simp add: t7_def)+
  have o7: "?ok s t7" using o6 by (simp add: same_hooks_def c7) (simp add: t7_def)
  have "region_hd (xy_rt t7) \<noteq> hook_id_hd (xy_rt t7)"
  proof -
    obtain d where d: "xy_rt t6 = (xy_rt t5)\<lparr>region_hd := d\<rparr>" "\<not> tbl_single E t5 d"
      using open_table_rt [of E False "\<lambda>d r. r\<lparr>region_hd := d\<rparr>" t5] E unfolding t6_def by blast
    moreover have "tbl_single E t5 (hook_id_hd (xy_rt t5))" using o5 by (simp add: same_hooks_def)
    ultimately show ?thesis by (auto simp: t7_def)
  qed
  moreover have "xy_runtime_bootstrap E s = do { s8 \<leftarrow> region_ensure_root E t7; Some (XY_OK, upd_rt (\<lambda>r. r\<lparr>xy_inited := True\<rparr>) s8) }"
    unfolding xy_runtime_bootstrap_def Let_def t7_def t6_def t5_def t3_def t2_def t1_def ..
  then obtain u where u: "region_ensure_root E t7 = Some u" "t = upd_rt (\<lambda>r. r\<lparr>xy_inited := True\<rparr>) u"
    using b by (cases "region_ensure_root E t7") auto
  moreover from o7 have single: "tbl_single E t7 (hook_id_hd (xy_rt t7))" by (simp add: same_hooks_def)
  moreover note keeps = ensure_root_keeps [OF E u(1)]
  ultimately have o8: "?ok t7 u" by (simp add: same_hooks_def)
  have "tbl_get E t = tbl_get E u" "tbl_single E t = tbl_single E u" by (simp_all add: u(2) tbl_upd_rt)
  with o8 have "?ok t7 t" by (simp add: same_hooks_def) (simp add: u(2) upd_rt_def)
  with o7 same_hooks_trans [of E s t7 t] show ?thesis by simp
qed

text \<open>
  C9. From a state in which every module entry has its row in the table and none has per-region
  state (\<^const>\<open>closable\<close>), \<^verbatim>\<open>xy_shutdown\<close> gives everything back and the library can start again. Every module entry and
  every region is freed, once; each shared object loses as many references as modules were loaded
  from it; the temporary copies of reloaded files are unlinked and the cached dispatch vectors
  freed; the handles of the closed tables are cleared, and the caller stands in no region. The next
  \<^verbatim>\<open>xy_runtime_ensure\<close> finds a stopped library and starts it: the root is its only region and no
  module is there. What survives is the hook registry: every hook that was registered before has
  the id and the adapter it had.
\<close>

theorem shutdown_restart:
  assumes "env_ok E" "closable E s"
  shows "\<exists>t u. xy_shutdown E s = Some t \<and> xy_errno t = XY_OK \<and> pristine t \<and> (\<forall>m. mods t m = None) \<and>
    (\<forall>h. dl_refs t h = dl_refs s h - card {m. has_handle s h m}) \<and>
    (\<forall>f. f \<in> set (tmp_files t) \<longleftrightarrow> f \<in> set (tmp_files s) \<and> (\<forall>m. \<not> has_copy s f m)) \<and>
    (\<forall>a. slot_arrays t a = (if \<exists>p. own_array s a p then None else slot_arrays s a)) \<and>
    mod_hd (xy_rt t) = 0 \<and> mod_by_region_hd (xy_rt t) = 0 \<and> region_hd (xy_rt t) = 0 \<and> path_intern_hd (xy_rt t) = 0 \<and>
    xy_runtime_ensure E t = Some (XY_OK, u) \<and> ready E u \<and> region_keys u = {root_key} \<and> (\<forall>m. mods u m = None) \<and>
    dl_refs u = dl_refs t \<and> same_hooks E s u"
proof -
  obtain t where t: "xy_runtime_teardown E s = Some t"
    "t = s\<lparr>mods := (\<lambda>_. None), regions := (\<lambda>_. None), dl_refs := (\<lambda>h. dl_refs s h - card {m. has_handle s h m}),
      tmp_files := filter (\<lambda>f. \<forall>m. \<not> has_copy s f m) (tmp_files s),
      slot_arrays := (\<lambda>a. if \<exists>p. own_array s a p then None else slot_arrays s a), st_corm := st_corm t,
      xy_rt := (xy_rt s)\<lparr>xy_inited := False, mod_hd := 0, mod_by_region_hd := 0, region_hd := 0, path_intern_hd := 0, xy_mod_count := 0\<rparr>,
      xy_current_region_id := XY_REGION_ROOT, xy_current_region_entry := None, xy_last_ran := 0, xy_last_retp := None,
      xy_global := xy_t_zero\<rparr>"
    "tbl_get E t (hook_id_hd (xy_rt s)) = tbl_get E s (hook_id_hd (xy_rt s))" "tbl_single E t (hook_id_hd (xy_rt s))"
    using teardown_ok [OF assms] by blast
  obtain c where eq: "t = s\<lparr>mods := (\<lambda>_. None), regions := (\<lambda>_. None), dl_refs := (\<lambda>h. dl_refs s h - card {m. has_handle s h m}),
      tmp_files := filter (\<lambda>f. \<forall>m. \<not> has_copy s f m) (tmp_files s),
      slot_arrays := (\<lambda>a. if \<exists>p. own_array s a p then None else slot_arrays s a), st_corm := c,
      xy_rt := (xy_rt s)\<lparr>xy_inited := False, mod_hd := 0, mod_by_region_hd := 0, region_hd := 0, path_intern_hd := 0, xy_mod_count := 0\<rparr>,
      xy_current_region_id := XY_REGION_ROOT, xy_current_region_entry := None, xy_last_ran := 0, xy_last_retp := None,
      xy_global := xy_t_zero\<rparr>" using t(2) by blast
  let ?t = "set_err XY_OK t"
  have shut: "xy_shutdown E s = Some ?t" using t(1) closableD(8) [OF assms(2)] by (simp add: xy_shutdown_def)
  have pr: "pristine ?t" by (simp add: pristine_def set_err_def eq)
  have tab: "tbl_get E ?t = tbl_get E t" "tbl_single E ?t = tbl_single E t" by (rule tbl_get_cong tbl_single_cong, simp add: set_err_def)+
  have hd: "hook_id_hd (xy_rt ?t) = hook_id_hd (xy_rt s)" by (simp add: set_err_def eq)
  have sh: "same_hooks E s ?t" using t(3,4) by (simp add: same_hooks_def tab) (simp add: set_err_def eq)
  obtain u where u: "xy_runtime_bootstrap E ?t = Some (XY_OK, u)" "ready E u" "r_key u = [next_addr ?t \<mapsto> root_key]"
    using bootstrap_ready [OF assms(1) pr] by blast
  have ne: "hook_id_hd (xy_rt ?t) \<noteq> 0" using assms(2) unfolding hd closable_def by blast
  have "tbl_single E ?t (hook_id_hd (xy_rt ?t))" using t(4) by (simp add: tab hd)
  from bootstrap_keeps [OF assms(1) this ne u(1)] same_hooks_trans [OF sh]
  have k: "same_hooks E s u" "mods u = mods ?t" "dl_refs u = dl_refs ?t" by blast+
  moreover have "xy_runtime_ensure E ?t = Some (XY_OK, u)" using u(1) pr by (simp add: xy_runtime_ensure_def pristine_def)
  moreover have "region_keys u = {root_key}" using u(3) by (auto simp: region_keys_def)
  ultimately show ?thesis
    using shut pr u(2) by (intro exI [of _ ?t] exI [of _ u]) (simp add: xy_errno_def set_err_def eq)
qed

text \<open>The host with two modules shuts down and starts again.\<close>

lemma demo_pair_closable: "closable demo_env demo_pair"
proof -
  have hd: "mod_hd (xy_rt demo_pair) = 4" "region_hd (xy_rt demo_pair) = 6" "path_intern_hd (xy_rt demo_pair) = 3"
    "hook_id_hd (xy_rt demo_pair) = 2" "mod_by_region_hd (xy_rt demo_pair) = 5"
    by (simp_all add: demo_pair_def demo_boot_corm)
  have ms: "mods demo_pair m = Some e \<Longrightarrow> row demo_env demo_pair (me_mod_key e) m \<and> me_region_state e = None" for m e
    using demo_pair_keys unfolding row_def hd demo_pair_tables by (auto simp: demo_pair_def mod_zero_def split: if_splits)
  moreover have "\<exists>m e. k = KStr (me_mod_key e) \<and> v = VPtr m \<and> mods demo_pair m = Some e"
    if "tbl_get demo_env demo_pair 4 k = Some v" for k v
    using that unfolding demo_pair_tables by (auto split: if_splits) (simp_all add: demo_pair_def)
  moreover have "\<exists>i p. k = KRegion i \<and> v = VPtr p" if "tbl_get demo_env demo_pair 6 k = Some v" for k v
    using that unfolding demo_pair_tables by (auto split: if_splits)
  moreover have "deny_inv demo_env demo_pair" using demo_pair_inv by (simp add: unload_inv_def)
  ultimately show ?thesis
    using demo_pair_ready unfolding closable_def hd demo_pair_tables(1) by (intro conjI allI impI) (simp_all, metis)
qed

theorem shutdown_restart_witness:
  "\<exists>t u. xy_shutdown demo_env demo_pair = Some t \<and> mods t 10 = None \<and> mods t 11 = None \<and>
     xy_runtime_ensure demo_env t = Some (XY_OK, u) \<and> region_keys u = {root_key}"
  using shutdown_restart [OF demo_env_ok demo_pair_closable] by blast

end
