(* ===== verification/Xy_Stale.thy ===== *)
theory Xy_Stale
  imports Xy_Dispatch_Props
begin

text \<open>
  What a deny of a module changes for the calls that follow it, from \<^verbatim>\<open>src/libxylem.c\<close> and
  \<^verbatim>\<open>src/libxylem-dispatch.c\<close>: the walk of \<^verbatim>\<open>xy_call_self\<close> asks the deny lists each time, the vector
  of \<^verbatim>\<open>xy_call\<close> was built with the lists of its day, and \<^verbatim>\<open>xy_deny\<close> does not tell the regions below.
\<close>

section \<open>What a deny touches\<close>

definition deny_wipe :: "xy_region_entry \<Rightarrow> xy_region_entry" where
  "deny_wipe r = r\<lparr>re_denied_modules := [], re_denied_modules_set := 0, re_subtree_flags := 0, re_dispatch_gen := 0\<rparr>"

definition deny_touched :: "xy_region_entry \<Rightarrow> xy_region_entry \<Rightarrow> bool" where
  "deny_touched r r' \<longleftrightarrow> deny_wipe r' = deny_wipe r \<and> re_subtree_flags r' AND re_subtree_flags r = re_subtree_flags r"

definition state_wipe :: "'h xy_state \<Rightarrow> 'h xy_state \<Rightarrow> 'h xy_state" where
  "state_wipe s t = t\<lparr>regions := regions s, st_corm := st_corm s, paths := paths s, next_addr := next_addr s,
     xy_err_val := xy_err_val s,
     xy_current_region_id := xy_current_region_id s, xy_current_region_entry := xy_current_region_entry s\<rparr>"

definition deny_frame :: "'h xy_state \<Rightarrow> 'h xy_state \<Rightarrow> bool" where
  "deny_frame s t \<longleftrightarrow>
     state_wipe s t = s \<and> next_addr s \<le> next_addr t \<and> (\<forall>q. rel_option deny_touched (regions s q) (regions t q))"

lemma deny_touched_refl [simp]: "deny_touched r r"
  by (simp add: deny_touched_def)

lemma deny_touched_trans: "deny_touched r r' \<Longrightarrow> deny_touched r' r'' \<Longrightarrow> deny_touched r r''"
  unfolding deny_touched_def by (metis and.assoc)

lemma deny_touchedI:
  "deny_touched r (r\<lparr>re_denied_modules := dm\<rparr>)" "deny_touched r (r\<lparr>re_denied_modules_set := ds\<rparr>)"
  "deny_touched r (mark_has_deny r)" "deny_touched r (bump_gen r)"
  by (simp_all add: deny_touched_def deny_wipe_def mark_has_deny_def bump_gen_def Let_def)

lemma deny_touchedD:
  assumes "deny_touched r r'"
  shows "re_id r' = re_id r" "re_plen r' = re_plen r" "re_depth r' = re_depth r" "re_parent r' = re_parent r"
    "re_children_head r' = re_children_head r" "re_sibling_next r' = re_sibling_next r"
    "re_mods_head r' = re_mods_head r" "re_mods_tail r' = re_mods_tail r" "re_subtree_mods r' = re_subtree_mods r"
    "re_subtree_mods_dirty r' = re_subtree_mods_dirty r" "re_hook_dispatch r' = re_hook_dispatch r"
    "re_denied_hooks r' = re_denied_hooks r"
proof -
  have w: "deny_wipe r' = deny_wipe r" using assms by (simp add: deny_touched_def)
  have sel: "re_id (deny_wipe x) = re_id x" "re_plen (deny_wipe x) = re_plen x" "re_depth (deny_wipe x) = re_depth x"
    "re_parent (deny_wipe x) = re_parent x" "re_children_head (deny_wipe x) = re_children_head x"
    "re_sibling_next (deny_wipe x) = re_sibling_next x" "re_mods_head (deny_wipe x) = re_mods_head x"
    "re_mods_tail (deny_wipe x) = re_mods_tail x" "re_subtree_mods (deny_wipe x) = re_subtree_mods x"
    "re_subtree_mods_dirty (deny_wipe x) = re_subtree_mods_dirty x" "re_hook_dispatch (deny_wipe x) = re_hook_dispatch x"
    "re_denied_hooks (deny_wipe x) = re_denied_hooks x" for x by (simp_all add: deny_wipe_def)
  show "re_id r' = re_id r" "re_plen r' = re_plen r" "re_depth r' = re_depth r" "re_parent r' = re_parent r"
    "re_children_head r' = re_children_head r" "re_sibling_next r' = re_sibling_next r"
    "re_mods_head r' = re_mods_head r" "re_mods_tail r' = re_mods_tail r" "re_subtree_mods r' = re_subtree_mods r"
    "re_subtree_mods_dirty r' = re_subtree_mods_dirty r" "re_hook_dispatch r' = re_hook_dispatch r"
    "re_denied_hooks r' = re_denied_hooks r"
    using sel [of r] sel [of r'] w by simp_all
qed

lemma deny_touched_flag:
  assumes "deny_touched r r'" "re_subtree_flags r AND m \<noteq> 0"
  shows "re_subtree_flags r' AND m \<noteq> 0"
  using assms unfolding deny_touched_def by (metis and.left_commute and.right_neutral and_zero_eq and.commute)

lemma deny_frame_refl [simp]: "deny_frame s s"
  by (simp add: deny_frame_def state_wipe_def option.rel_refl)

lemma deny_frame_trans:
  assumes "deny_frame s t" "deny_frame t u"
  shows "deny_frame s u"
proof -
  have "rel_option deny_touched (regions s q) (regions u q)" for q
  proof -
    have "rel_option deny_touched (regions s q) (regions t q)" "rel_option deny_touched (regions t q) (regions u q)"
      using assms unfolding deny_frame_def by blast+
    then show ?thesis using deny_touched_trans by (auto simp: rel_option_iff split: option.splits)
  qed
  moreover have w: "state_wipe s t = s" "state_wipe t u = t" "next_addr s \<le> next_addr t" "next_addr t \<le> next_addr u"
    using assms unfolding deny_frame_def by blast+
  have "state_wipe s u = state_wipe s (state_wipe t u)" by (simp add: state_wipe_def)
  then have "state_wipe s u = s" using w(1) unfolding w(2) by (rule trans)
  ultimately show ?thesis using order_trans [OF w(3,4)] unfolding deny_frame_def by blast
qed

lemma deny_frame_step:
  "(\<And>r. deny_touched r (f r)) \<Longrightarrow> deny_frame s (upd_reg p f s)"
  "deny_frame s (s\<lparr>st_corm := c\<rparr>)" "deny_frame s (set_current_region i x s)" "deny_frame s (tbl_put E d k v s)" "deny_frame s (set_err e s)"
  by (simp_all add: deny_frame_def state_wipe_def upd_reg_def tbl_put_def set_err_def set_current_region_def option.rel_refl)
     (auto simp: rel_option_iff split: option.splits)

lemma deny_frame_parents:
  "(\<And>r. deny_touched r (f r)) \<Longrightarrow> for_parents n f e s = Some t \<Longrightarrow> deny_frame s t"
proof (induction n f e s rule: for_parents.induct)
  case (3 n f p s)
  then obtain r u where "regions s p = Some r" "for_parents n f (re_parent r) (upd_reg p f s) = Some t"
    by (auto simp: bind_eq_Some_conv)
  with 3 deny_frame_step(1) show ?case by (metis deny_frame_trans)
qed auto

lemma deny_frame_set:
  assumes "ensure_set E d0 (\<lambda>d r. r\<lparr>re_denied_modules_set := d\<rparr>) p s = (d, t)"
  shows "deny_frame s t"
proof (cases "d0 = 0")
  case True
  then obtain h where "t = upd_reg p (\<lambda>r. r\<lparr>re_denied_modules_set := d\<rparr>) (s\<lparr>st_corm := h\<rparr>)"
    using assms by (auto simp: ensure_set_def tbl_open_def split: prod.splits)
  then show ?thesis using deny_frame_trans [OF deny_frame_step(2) deny_frame_step(1) [OF deny_touchedI(2)]] by simp
next
  case False
  with assms show ?thesis by (simp add: ensure_set_def)
qed

lemma deny_frame_intern:
  assumes "path_intern_hd (xy_rt s) \<noteq> 0" "module_path_intern E (Some str) s = (x, t)"
  shows "deny_frame s t"
proof (cases "tbl_get E s (path_intern_hd (xy_rt s)) (KStr str)")
  case None
  then have t: "t = tbl_put E (path_intern_hd (xy_rt s)) (KStr str) (VPtr (next_addr s))
      (s\<lparr>paths := (paths s)(next_addr s \<mapsto> str), next_addr := Suc (next_addr s)\<rparr>)"
    using assms by (simp add: module_path_intern_def Let_def)
  show ?thesis unfolding t by (simp add: deny_frame_def state_wipe_def tbl_put_def option.rel_refl)
next
  case (Some v)
  then have "t = s" using assms by (simp add: module_path_intern_def Let_def)
  then show ?thesis by simp
qed

lemma deny_module_frame:
  assumes "xy_inited (xy_rt s)" "path_intern_hd (xy_rt s) \<noteq> 0" "xy_deny E what XY_DENY_MODULE s = Some (rc, t)"
  shows "deny_frame s t"
proof -
  have ens: "xy_runtime_ensure E s = Some (XY_OK, s)" using assms(1) by (simp add: xy_runtime_ensure_def)
  show ?thesis
  proof (cases "region_lookup_current s = None \<or> module_load_path E s what = None")
    case True
    with assms ens show ?thesis
      by (auto simp: xy_deny_def fail_with_def bind_eq_Some_conv deny_frame_step split: option.splits if_splits)
  next
    case False
    then obtain p path where p: "region_lookup_current s = Some p" "module_load_path E s what = Some path" by (meson not_Some_eq)
    obtain x u where i: "module_path_intern E (Some path) s = (x, u)" by fastforce
    note fr = deny_frame_intern [OF assms(2) i]
    show ?thesis
    proof (cases x)
      case None
      with assms(3) ens p i have "t = set_err XY_ERR_INVALID u"
        by (auto simp: xy_deny_def fail_with_def bind_eq_Some_conv split: if_splits)
      then show ?thesis using deny_frame_trans [OF fr deny_frame_step(5)] by simp
    next
      case (Some y)
      let ?v = "upd_reg p (\<lambda>r. r\<lparr>re_denied_modules := y # re_denied_modules r\<rparr>) u"
      obtain r where re: "regions s p = Some r"
        using assms(3) ens p by (auto simp: xy_deny_def bind_eq_Some_conv)
      obtain d w where r: "ensure_set E (re_denied_modules_set r) (\<lambda>d r. r\<lparr>re_denied_modules_set := d\<rparr>) p ?v = (d, w)"
        by fastforce
      let ?w = "tbl_put E d (KPath y) (VPtr 1) w"
      obtain a b where ab: "region_propagate_deny (Some p) ?w = Some a"
        "region_dispatch_gen_bump (Some p) a = Some b" "t = set_err XY_OK b"
        using assms(3) ens p i Some re r
        by (auto simp: xy_deny_def fail_with_def bind_eq_Some_conv split: if_splits)
      have "deny_frame u ?v" by (intro deny_frame_step(1) deny_touchedI(1))
      note f1 = deny_frame_trans [OF fr this]
      note f2 = deny_frame_trans [OF f1 deny_frame_set [OF r]]
      note f3 = deny_frame_trans [OF f2 deny_frame_step(4)]
      note f4 = deny_frame_trans [OF f3 deny_frame_parents [OF deny_touchedI(3) ab(1) [unfolded region_propagate_deny_def]]]
      note f5 = deny_frame_trans [OF f4 deny_frame_parents [OF deny_touchedI(4) ab(2) [unfolded region_dispatch_gen_bump_def]]]
      show ?thesis unfolding ab(3) by (rule deny_frame_trans [OF f5 deny_frame_step(5)])
    qed
  qed
qed


section \<open>What a deny leaves alone\<close>

lemma deny_frame_same:
  assumes "deny_frame s t"
  shows "mods t = mods s" "ctxs t = ctxs s" "adapters t = adapters s" "bufs t = bufs s" "slot_arrays t = slot_arrays s"
    "xy_rt t = xy_rt s" "xy_last_retbuf t = xy_last_retbuf s"
proof -
  have w: "state_wipe s t = s" using assms by (simp add: deny_frame_def)
  have sel: "mods (state_wipe s t) = mods t" "ctxs (state_wipe s t) = ctxs t" "adapters (state_wipe s t) = adapters t"
    "bufs (state_wipe s t) = bufs t" "slot_arrays (state_wipe s t) = slot_arrays t" "xy_rt (state_wipe s t) = xy_rt t"
    "xy_last_retbuf (state_wipe s t) = xy_last_retbuf t" by (simp_all add: state_wipe_def)
  show "mods t = mods s" "ctxs t = ctxs s" "adapters t = adapters s" "bufs t = bufs s" "slot_arrays t = slot_arrays s"
    "xy_rt t = xy_rt s" "xy_last_retbuf t = xy_last_retbuf s"
    using sel unfolding w by simp_all
qed

lemma deny_frame_reg:
  assumes "deny_frame s t"
  shows "regions t q = None \<longleftrightarrow> regions s q = None" "regions s q = Some r \<Longrightarrow> \<exists>r'. regions t q = Some r' \<and> deny_touched r r'"
    "regions t q = Some r' \<Longrightarrow> \<exists>r. regions s q = Some r \<and> deny_touched r r'"
proof -
  have "rel_option deny_touched (regions s q) (regions t q)" using assms by (simp add: deny_frame_def)
  then show "regions t q = None \<longleftrightarrow> regions s q = None" "regions s q = Some r \<Longrightarrow> \<exists>r'. regions t q = Some r' \<and> deny_touched r r'"
    "regions t q = Some r' \<Longrightarrow> \<exists>r. regions s q = Some r \<and> deny_touched r r'"
    by (auto simp: rel_option_iff split: option.splits)
qed

lemma deny_frame_map:
  assumes fr: "deny_frame s t" and f: "\<And>r r'. deny_touched r r' \<Longrightarrow> f r' = f r"
  shows "map_option f (regions t q) = map_option f (regions s q)"
  using deny_frame_reg [OF fr, of q] f by (cases "regions s q") fastforce+

lemma deny_frame_views:
  assumes fr: "deny_frame s t"
  shows "r_key t = r_key s" "ancestors t p = ancestors s p" "subtree t = subtree s" "mods_of t = mods_of s"
    "vec_for t = vec_for s" "hook_cache t = hook_cache s" "slots_of t = slots_of s"
    "denied_hook_names t = denied_hook_names s"
proof -
  note same = deny_frame_same [OF fr] and reg = deny_frame_reg [OF fr]
  have "key_of r' = key_of r" if "deny_touched r r'" for r r' using deny_touchedD(1,2) [OF that] by (simp add: key_of_def)
  from deny_frame_map [where f = key_of, OF fr this] show k: "r_key t = r_key s" by (simp add: fun_eq_iff r_key_def)
  have loop: "ancestor_loop t n x = ancestor_loop s n x" for n x
  proof (induction n arbitrary: x)
    case (Suc n)
    then show ?case
    proof (cases x)
      case (Some q)
      show ?thesis
      proof (cases "regions s q")
        case None
        with reg(1) [of q] Some show ?thesis by simp
      next
        case (Some r)
        from reg(2) [OF this] obtain r' where "regions t q = Some r'" "re_parent r' = re_parent r"
          using deny_touchedD(4) by blast
        with Some \<open>x = Some q\<close> Suc show ?thesis by simp
      qed
    qed auto
  next
    case 0
    then show ?case by (cases x) auto
  qed
  then show an: "ancestors t p = ancestors s p" for p by (simp add: ancestors_def)
  show sub: "subtree t = subtree s" by (simp add: fun_eq_iff subtree_def k an)
  have nx: "mod_next t = mod_next s" "mod_prev t = mod_prev s" "mod_region t = mod_region s"
    by (simp_all add: fun_eq_iff mod_next_def mod_prev_def mod_region_def same)
  have "(\<exists>r. regions t q = Some r \<and> P (re_mods_head r) (re_mods_tail r)) \<longleftrightarrow>
      (\<exists>r. regions s q = Some r \<and> P (re_mods_head r) (re_mods_tail r))" for q P
  proof -
    have "map_option (\<lambda>r. (re_mods_head r, re_mods_tail r)) (regions t q) =
        map_option (\<lambda>r. (re_mods_head r, re_mods_tail r)) (regions s q)"
      by (rule deny_frame_map [OF fr]) (simp add: deny_touchedD(7,8))
    then show ?thesis by (cases "regions s q"; cases "regions t q") auto
  qed
  from this [of _ "\<lambda>h tl. chain (mod_next s) h ms \<and> chain (mod_prev s) tl (rev ms)" for ms]
  show mo: "mods_of t = mods_of s" by (simp add: fun_eq_iff mods_of_def nx)
  have "r_head t = r_head s" "sib_next t = sib_next s"
    unfolding fun_eq_iff r_head_def sib_next_def by (intro allI deny_frame_map [OF fr]; simp add: deny_touchedD)+
  with mo preorder_cong [OF mo] show "vec_for t = vec_for s" by (simp add: fun_eq_iff vec_for_def mods_in_def sub)
  have "hook_cache t q h = hook_cache s q h" for q h
  proof -
    have "map_option re_hook_dispatch (regions t q) = map_option re_hook_dispatch (regions s q)"
      by (rule deny_frame_map [OF fr]) (simp add: deny_touchedD(11))
    then show ?thesis by (cases "regions s q"; cases "regions t q") (auto simp: hook_cache_def)
  qed
  then show "hook_cache t = hook_cache s" by (intro ext) simp
  show "slots_of t = slots_of s" by (intro ext) (auto simp: slots_of_def same split: option.splits)
  have "denied_hook_names t q = denied_hook_names s q" for q
  proof -
    have "map_option re_denied_hooks (regions t q) = map_option re_denied_hooks (regions s q)"
      by (rule deny_frame_map [OF fr]) (simp add: deny_touchedD(12))
    then show ?thesis by (cases "regions s q"; cases "regions t q") (auto simp: denied_hook_names_def)
  qed
  then show "denied_hook_names t = denied_hook_names s" by (intro ext) simp
qed


lemma deny_frame_ready:
  assumes fr: "deny_frame s t" and rd: "disp_ready E s" and t: "ready E t" "deny_inv E t" "hook_reg E t = hook_reg E s"
  shows "disp_ready E t"
proof -
  note same = deny_frame_same [OF fr] and reg = deny_frame_reg [OF fr] and views = deny_frame_views [OF fr]
  have next_le: "next_addr s \<le> next_addr t" using fr by (simp add: deny_frame_def)
  have S: "mods_wf s" "vec_ok s" "slots_wf s" "caches_ok E s" "hooks_wf E s" "ctx_live s" "flags_ok s"
    "length (xy_last_retbuf s) = XY_MAX_RET_SIZE" using rd by (simp_all add: disp_ready_def disp_inv_def)
  have "mods_wf t" using S(1) reg(1) next_le by (fastforce simp: mods_wf_def views same)
  moreover have "vec_ok t"
    unfolding vec_ok_def views
  proof (intro allI impI)
    fix p r' assume "regions t p = Some r'" "\<not> re_subtree_mods_dirty r'"
    with reg(3) obtain r where "regions s p = Some r" "deny_touched r r'" by blast
    with deny_touchedD(9,10) [of r r'] \<open>\<not> re_subtree_mods_dirty r'\<close> S(2) show "vec_for s p (re_subtree_mods r')"
      by (simp add: vec_ok_def)
  qed
  moreover have "cell_ok t c" if "cell_ok s c" for c
    using that next_le by (auto simp: cell_ok_def same split: option.splits)
  with S(3) have "slots_wf t" by (simp add: slots_wf_def views)
  moreover have "caches_ok E t" "hooks_wf E t" "ctx_live t"
    using S(4-6) by (simp_all add: caches_ok_def hooks_wf_def ctx_live_def same t(3))
  moreover have "flags_ok t"
    unfolding flags_ok_def views
  proof (intro allI impI)
    fix q p r' assume q: "denied_hook_names s q \<noteq> {}" and r': "regions t p = Some r'" "re_parent r' = None"
    from reg(3) [OF r'(1)] obtain r where r: "regions s p = Some r" "deny_touched r r'" by blast
    have "re_parent r = None" using r'(2) deny_touchedD(4) [OF r(2)] by simp
    with q r(1) S(7) have "re_subtree_flags r AND XY_SUBTREE_HAS_DENY \<noteq> 0" unfolding flags_ok_def by blast
    with r(2) show "re_subtree_flags r' AND XY_SUBTREE_HAS_DENY \<noteq> 0" by (rule deny_touched_flag)
  qed
  ultimately show ?thesis using t(1,2) S(8) by (simp add: disp_ready_def disp_inv_def same)
qed


section \<open>A call with a vector in stock\<close>

text \<open>Whatever a current cell holds is what a subtree call runs.\<close>

lemma subtree_scope_warm:
  assumes q: "quiet E eff" and wf: "slots_wf s" and r: "regions s p = Some r" "\<not> re_subtree_mods_dirty r"
    and c: "hook_cache s p (df_hook_id F) = Some c" "hc_region_gen c = re_dispatch_gen r"
    and F: "df_caller F = p" "adapters s (df_reg F) = Some a" "xy_current_region_id s = df_region_id F"
    and live: "\<And>sl. sl \<in> set (slots_of s c) \<Longrightarrow> live_slot s sl"
  shows "\<exists>t. subtree_scope E F s = Some (Inr (length (slots_of s c)), t) \<and> run_frame s t \<and>
     bufs t = fold (slot_eff eff F) (slots_of s c) (bufs s) \<and>
     (published 0 (df_retp F) (df_reg F) s \<longrightarrow> published (length (slots_of s c)) (df_retp F) (df_reg F) t)"
proof -
  from slots_loop_cell [OF q wf c(1) F(3) live] obtain t where
    t: "slots_loop E F (hc_slots c) (hc_count c) 0 0 s = Some (length (slots_of s c), t)" "run_frame s t"
      "bufs t = fold (slot_eff eff F) (slots_of s c) (bufs s)" by blast
  have "df_hook_id F < int (length (re_hook_dispatch r))"
    using c(1) r(1) by (auto simp: hook_cache_def split: if_splits)
  then have "subtree_scope E F s = Some (Inr (length (slots_of s c)), t)"
    using r c F t(1) by (simp add: subtree_scope_def Let_def)
  with t slots_loop_published [OF t(1)] show ?thesis by blast
qed

lemma call_warm:
  assumes q: "quiet E eff" and rd: "disp_ready E s" and cur: "xy_current_region_entry s = Some p"
    and a: "adapter_ok E s reg a f retp"
    and nd: "\<And>q. q \<in> set (ancestors s p) - {p} \<Longrightarrow> ad_name a \<notin> denied_hook_names s q"
    and r: "regions s p = Some r" "\<not> re_subtree_mods_dirty r"
    and c: "hook_cache s p (ad_hook_id a) = Some c" "hc_region_gen c = re_dispatch_gen r"
    and live: "\<And>sl. sl \<in> set (slots_of s c) \<Longrightarrow> live_slot s sl"
  shows "\<exists>rc t. xy_call E retp (Some reg) arg s = Some (rc, t) \<and>
     disp_outcome retp (ad_ret_size a) (slots_of s c) (run_all eff f retp arg (slots_of s c) (bufs s)) s rc t"
proof -
  let ?F = "frame_for retp reg arg f a s p" and ?s2 = "xy_last_publish 0 retp reg s"
  note D = disp_readyD [OF rd cur] and inv2 = run_frame_inv [OF publish_frame(1) [of s 0 retp reg]]
    and same2 = run_frame_same [OF publish_frame(1) [of s 0 retp reg]]
  have F: "df_caller ?F = p" "df_reg ?F = reg" "df_hook_id ?F = ad_hook_id a" "df_region_id ?F = xy_current_region_id s"
    by (simp_all add: frame_for_def)
  have lv: "live_slot ?s2 sl" if "sl \<in> set (slots_of ?s2 c)" for sl
    using live that by (simp add: inv2 live_slot_frame [OF publish_frame(1)])
  have pre: "slots_wf ?s2" "regions ?s2 p = Some r" "hook_cache ?s2 p (df_hook_id ?F) = Some c"
    "adapters ?s2 (df_reg ?F) = Some a" "xy_current_region_id ?s2 = df_region_id ?F"
    using slots_wf_cong(1) [OF same2(2,3,4)] D(4) r(1) c(1) a
    by (simp_all add: F same2 inv2 adapter_ok_def) (simp add: disp_inv_def)
  from subtree_scope_warm [OF q pre(1,2) r(2) pre(3) c(2) F(1) pre(4,5) lv] obtain t where
    t: "subtree_scope E ?F ?s2 = Some (Inr (length (slots_of ?s2 c)), t)" "run_frame ?s2 t"
      "bufs t = fold (slot_eff eff ?F) (slots_of ?s2 c) (bufs ?s2)" by blast
  note same = run_frame_same [OF t(2)]
  have u: "adapters t = adapters s" "bufs t = run_all eff f retp arg (slots_of s c) (bufs s)"
      "length (xy_last_retbuf t) = XY_MAX_RET_SIZE"
      "xy_current_region_entry t = xy_current_region_entry s" "xy_current_region_id t = xy_current_region_id s"
    using same same2 t(3) D(10) by (simp_all add: run_all_frame publish_frame inv2)
  from finish_outcome [OF q a u] obtain rc t' where
    fin: "dispatch_finish (length (slots_of s c)) retp reg t = Some (rc, t')"
      "disp_outcome retp (ad_ret_size a) (slots_of s c) (run_all eff f retp arg (slots_of s c) (bufs s)) s rc t'" by blast
  have "xy_call E retp (Some reg) arg s = Some (rc, t')"
    using nd t(1) fin(1) by (auto simp: xy_call_def dispatch_unfold [OF rd cur a] inv2)
  with fin(2) show ?thesis by blast
qed


section \<open>The property\<close>

lemma descendant_not_ancestor:
  assumes wf: "region_wf E s" and p: "r_key s p = Some k" and q: "q \<in> set (ancestors s p)" "q \<noteq> p"
  shows "p \<notin> set (ancestors s q)"
proof
  assume "p \<in> set (ancestors s q)"
  moreover have tw: "tree_wf s" using wf by (simp add: region_wf_def)
  ultimately have "r_key s q = Some k" using ancestors_contain [OF tw p q(1)] ancestors_contain [OF tw, of q] p by fastforce
  with p wf have "q = p" unfolding region_wf_def table_wf_def by (metis option.inject)
  with q(2) show False by simp
qed

lemma hook_vec_denied:
  assumes fr: "deny_frame s t" and q: "q \<in> set anc" "denied_mods t q = insert x (denied_mods s q)"
    and others: "\<And>g. g \<noteq> q \<Longrightarrow> denied_mods t g = denied_mods s g"
  shows "hook_vec E t anc name L = hook_vec E s anc name (filter (\<lambda>m. me_load_path (the (mods s m)) \<noteq> Some x) L)"
proof -
  note same = deny_frame_same [OF fr]
  have "denied_anc t anc e \<longleftrightarrow> denied_anc s anc e \<or> me_load_path e = Some x" for e
    unfolding denied_anc_def using q others by (metis insert_iff)
  then have "hears E t anc name = (\<lambda>m. me_load_path (the (mods s m)) \<noteq> Some x \<and> hears E s anc name m)"
    by (auto simp: fun_eq_iff hears_def same)
  moreover have "hook_slot E t = hook_slot E s" by (simp add: fun_eq_iff hook_slot_def same)
  ultimately show ?thesis by (simp add: hook_vec_def)
qed

text \<open>
  C11. When a region above denies a module that is on the vector region \<open>p\<close> has in stock, the calls
  from \<open>p\<close> go on running it: \<^verbatim>\<open>xy_deny\<close> returns \<^const>\<open>XY_OK\<close> and the path is on the deny list, but
  \<^verbatim>\<open>xy_call\<close> from \<open>p\<close> still runs every listener of the old vector, the denied module's included,
  while \<^verbatim>\<open>xy_call_self\<close> from the same state runs the listeners without the modules of that path.
\<close>

theorem deny_misses_cached_calls:
  assumes "env_ok E" "never_oom E" "quiet E eff" "disp_ready E s" "intern_wf E s"
    and "xy_current_region_entry s = Some q" "module_load_path E s what = Some path"
    and "r_key s p = Some k" "q \<in> set (ancestors s p)" "q \<noteq> p"
    and "adapter_ok E s reg a f retp" "\<forall>g \<in> set (ancestors s p) - {p}. ad_name a \<notin> denied_hook_names s g"
    and "regions s p = Some r" "\<not> re_subtree_mods_dirty r"
    and "hook_cache s p (ad_hook_id a) = Some c" "hc_region_gen c = re_dispatch_gen r"
    and "slots_of s c = hook_vec E s (rev (ancestors s p)) (ad_name a) (re_subtree_mods r)" "mods_of s p own"
  shows "\<exists>s1 s2 x old new rc t rc' t'. xy_deny E what XY_DENY_MODULE s = Some (XY_OK, s1) \<and>
     fst (module_path_intern E (Some path) s) = Some x \<and> x \<in> denied_mods s1 q \<and> s2 = set_current_region (rk_id k) (Some p) s1 \<and>
     old = hook_vec E s (rev (ancestors s p)) (ad_name a) (re_subtree_mods r) \<and>
     new = hook_vec E s (rev (ancestors s p)) (ad_name a) (filter (\<lambda>m. me_load_path (the (mods s m)) \<noteq> Some x) own) \<and>
     xy_call E retp (Some reg) arg s2 = Some (rc, t) \<and> rc = (if old = [] then XY_ERR_NOTFOUND else XY_OK) \<and>
     bufs t = (if old = [] then zeroed retp (ad_ret_size a) (bufs s)
               else fold (\<lambda>sl. eff f retp (sl_cb sl) arg) old (bufs s)) \<and>
     xy_call_self E retp (Some reg) arg s2 = Some (rc', t') \<and> rc' = (if new = [] then XY_ERR_NOTFOUND else XY_OK) \<and>
     bufs t' = (if new = [] then zeroed retp (ad_ret_size a) (bufs s)
                else fold (\<lambda>sl. eff f retp (sl_cb sl) arg) new (bufs s))"
proof -
  let ?anc = "rev (ancestors s p)" and ?n = "ad_name a"
  have rd: "ready E s" "deny_inv E s" using assms(4) by (simp_all add: disp_ready_def disp_inv_def)
  note wf = readyD [OF rd(1)]
  obtain s1 x where s1: "xy_deny E what XY_DENY_MODULE s = Some (XY_OK, s1)" "ready E s1" "deny_inv E s1"
      "fst (module_path_intern E (Some path) s) = Some x" "denied_mods s1 q = insert x (denied_mods s q)"
      "\<forall>g. g \<noteq> q \<longrightarrow> denied_mods s1 g = denied_mods s g"
      "\<forall>g. r_gen s1 g = (if g \<in> set (ancestors s q)
        then map_option (\<lambda>r. re_dispatch_gen (bump_gen r)) (regions s g) else r_gen s g)"
      "\<forall>d \<in> rt_handles s. d \<noteq> path_intern_hd (xy_rt s) \<longrightarrow> tbl_get E s1 d = tbl_get E s d"
    using deny_module_ok [OF assms(1,2) rd assms(5,6,7)] by blast
  have hd: "path_intern_hd (xy_rt s) \<noteq> 0" using assms(5) by (simp add: intern_wf_def)
  let ?s2 = "set_current_region (rk_id k) (Some p) s1"
  have fr: "deny_frame s ?s2" by (rule deny_frame_trans [OF deny_module_frame [OF wf(4) hd s1(1)] deny_frame_step(3)])
  note same = deny_frame_same [OF fr] and views = deny_frame_views [OF fr]
  have k: "r_key s1 p = Some k" using views(1) assms(8) by (simp add: heap_simps)
  have rd2: "ready E ?s2" by (rule ready_set_current [OF readyD(1) [OF s1(2)] readyD(4) [OF s1(2)] k refl])
  have tabs: "tbl_get E ?s2 = tbl_get E s1" "tbl_single E ?s2 = tbl_single E s1"
    by (rule tbl_get_cong tbl_single_cong, simp add: heap_simps)+
  have "dset ?s2 = dset s1" by (simp add: fun_eq_iff dset_def heap_simps)
  then have di2: "deny_inv E ?s2" using s1(3) by (simp add: deny_inv_def set_agrees_def rt_handles_def rt_list_def tabs heap_simps)
  have hk: "hook_id_hd (xy_rt s) \<in> rt_handles s" "hook_id_hd (xy_rt s) \<noteq> path_intern_hd (xy_rt s)"
    using rd(2) by (auto simp: deny_inv_def rt_handles_def rt_list_def Let_def)
  have hr2: "hook_reg E ?s2 = hook_reg E s"
    using s1(8) hk by (simp add: fun_eq_iff hook_reg_def tabs same(6))
  have dr2: "disp_ready E ?s2" by (rule deny_frame_ready [OF fr assms(4) rd2 di2 hr2])
  have cur2: "xy_current_region_entry ?s2 = Some p" by (simp add: heap_simps)
  have a2: "adapter_ok E ?s2 reg a f retp" using assms(11) by (simp add: adapter_ok_def same hr2)
  have nd2: "ad_name a \<notin> denied_hook_names ?s2 g" if "g \<in> set (ancestors ?s2 p) - {p}" for g
    using assms(12) that by (simp add: views)
  have far: "p \<notin> set (ancestors s q)" by (rule descendant_not_ancestor [OF wf(1) assms(8,9,10)])
  obtain r2 where r2: "regions ?s2 p = Some r2" "deny_touched r r2" using deny_frame_reg(2) [OF fr assms(13)] by blast
  have "r_gen s1 p = r_gen s p" using s1(7) far by simp
  then have gen: "re_dispatch_gen r2 = re_dispatch_gen r" using r2(1) assms(13) by (simp add: r_gen_def heap_simps)
  have cell: "\<not> re_subtree_mods_dirty r2" "hook_cache ?s2 p (ad_hook_id a) = Some c" "hc_region_gen c = re_dispatch_gen r2"
    using deny_touchedD(10) [OF r2(2)] assms(14,15,16) gen by (simp_all add: views)
  have old: "slots_of ?s2 c = hook_vec E s ?anc ?n (re_subtree_mods r)" using assms(17) by (simp add: views)
  have cl: "ctx_live s" using assms(4) by (simp add: disp_ready_def)
  have live: "live_slot ?s2 sl" if "sl \<in> set (slots_of ?s2 c)" for sl
    using hook_vec_live [OF cl] that unfolding old by (simp add: live_slot_def same)
  obtain rc t where call: "xy_call E retp (Some reg) arg ?s2 = Some (rc, t)"
      "disp_outcome retp (ad_ret_size a) (slots_of ?s2 c) (run_all eff f retp arg (slots_of ?s2 c) (bufs ?s2)) ?s2 rc t"
    using call_warm [OF assms(3) dr2 cur2 a2 nd2 r2(1) cell live, of arg] by blast
  have own2: "mods_of ?s2 p own" using assms(18) by (simp add: views)
  obtain rc' t' where self: "xy_call_self E retp (Some reg) arg ?s2 = Some (rc', t')"
      "disp_outcome retp (ad_ret_size a) (hook_vec E ?s2 ?anc ?n own)
        (run_all eff f retp arg (hook_vec E ?s2 ?anc ?n own) (bufs ?s2)) ?s2 rc' t'"
    using call_self_ok [OF assms(2,3) dr2 cur2 a2 nd2 own2, of arg] by (auto simp: views)
  have dm: "denied_mods ?s2 = denied_mods s1" by (simp add: fun_eq_iff denied_mods_def heap_simps)
  have new: "hook_vec E ?s2 ?anc ?n own =
      hook_vec E s ?anc ?n (filter (\<lambda>m. me_load_path (the (mods s m)) \<noteq> Some x) own)"
    using assms(9) s1(5,6) by (intro hook_vec_denied [OF fr, of q]) (simp_all add: dm)
  have "x \<in> denied_mods s1 q" by (simp add: s1(5))
  then show ?thesis
    using s1(1,4) call(1) call(2) [unfolded disp_outcome_def run_all_def old] self(1)
      self(2) [unfolded disp_outcome_def run_all_def new]
    unfolding same(4) by blast
qed

text \<open>A child region with one module, which it has called before; the root is current.\<close>

definition demo_stock :: xy_region_entry where
  "demo_stock = region_zero\<lparr>re_id := 0, re_plen := 16, re_depth := 1, re_dispatch_gen := 1, re_parent := Some 1,
     re_mods_head := Some 10, re_mods_tail := Some 10, re_subtree_mods := [10], re_subtree_mods_cap := 1,
     re_subtree_mods_dirty := False,
     re_hook_dispatch := [\<lparr>hc_slots = Some 45, hc_count = 1, hc_cap = 1, hc_region_gen = 1\<rparr>]\<rparr>"

definition demo_warm :: "alist_corm xy_state" where
  "demo_warm = demo_disp\<lparr>
     regions := [1 \<mapsto> region_zero\<lparr>re_id := XY_REGION_ROOT, re_dispatch_gen := 1, re_children_head := Some 2,
                   re_subtree_mods_dirty := True\<rparr>, 2 \<mapsto> demo_stock],
     mods := [10 \<mapsto> demo_listener\<lparr>me_region_entry := Some 2, me_load_path := Some 46\<rparr>],
     paths := [46 \<mapsto> ''mods/a.so''], slot_arrays := [45 \<mapsto> [slot_for 10 (Fn 1005)]],
     st_corm := (st_corm demo_disp)\<lparr>
       ac_rows := (ac_rows (st_corm demo_disp))(3 := [(KStr ''mods/a.so'', VPtr 46)],
         6 := [(KRegion demo_child_key, VPtr 2), (KRegion root_key, VPtr 1)])\<rparr>\<rparr>"

lemma demo_warm_tables:
  "tbl_single demo_tick demo_warm d \<longleftrightarrow> d \<in> {1, 2, 3, 4, 6}"
  "tbl_get demo_tick demo_warm d k =
     (if d = 2 \<and> k = KStr ''on_tick'' then Some (VInt 0)
      else if d = 3 \<and> k = KStr ''mods/a.so'' then Some (VPtr 46)
      else if d = 6 \<and> k = KRegion demo_child_key then Some (VPtr 2)
      else if d = 6 \<and> k = KRegion root_key then Some (VPtr 1) else None)"
  by (auto simp: tbl_single_def tbl_get_def demo_disp_corm demo_warm_def demo_disp_def demo_boot_corm list_corm_def
      demo_child_key_def root_key_def)

lemma demo_warm_fields:
  "r_key demo_warm p = (if p = 1 then Some root_key else if p = 2 then Some demo_child_key else None)"
  "r_parent demo_warm p = (if p = 1 then Some None else if p = 2 then Some (Some 1) else None)"
  "r_depth demo_warm p = (if p = 1 then Some 0 else if p = 2 then Some 1 else None)"
  "r_head demo_warm p = (if p = 1 then Some (Some 2) else if p = 2 then Some None else None)"
  "sib_next demo_warm p = (if p = 1 \<or> p = 2 then Some None else None)" "next_addr demo_warm = 50"
  "denied_hook_names demo_warm p = {}" "denied_mods demo_warm p = {}"
  "region_hd (xy_rt demo_warm) = 6" "hook_id_hd (xy_rt demo_warm) = 2" "path_intern_hd (xy_rt demo_warm) = 3"
  "rt_list demo_warm = [6, 3, 4, 2, 1]"
  "xy_current_region_entry demo_warm = Some 1" "xy_current_region_id demo_warm = 0" "xy_inited (xy_rt demo_warm)"
  "adapters demo_warm = adapters demo_disp" "bufs demo_warm = bufs demo_disp" "ctxs demo_warm = ctxs demo_disp"
  by (auto simp: r_key_def r_parent_def r_depth_def r_head_def sib_next_def demo_warm_def demo_disp_fields
      demo_stock_def region_zero_def key_of_def region_key_def root_key_def demo_child_key_def denied_mods_def
      XY_REGION_ROOT_def denied_hook_names_def demo_disp_def demo_boot_corm demo_boot_fields rt_list_def Let_def)

lemma demo_warm_ready: "ready demo_tick demo_warm"
proof -
  have "tree_wf demo_warm"
    unfolding tree_wf_def
  proof (intro conjI allI impI)
    fix p h assume "r_head demo_warm p = Some h"
    then have "p = 1 \<and> h = Some 2 \<or> p = 2 \<and> h = None" by (auto simp: demo_warm_fields split: if_splits)
    then show "\<exists>cs. chain (sib_next demo_warm) h cs \<and> set cs = {c. r_parent demo_warm c = Some (Some p)}"
    proof (elim disjE conjE)
      assume "p = 1" "h = Some 2"
      then show ?thesis by (intro exI [of _ "[2]"]) (auto simp: demo_warm_fields chain_Some)
    next
      assume "p = 2" "h = None"
      then show ?thesis by (intro exI [of _ "[]"]) (auto simp: demo_warm_fields)
    qed
  qed (auto simp: demo_warm_fields demo_child_below split: if_splits)
  moreover have "table_wf demo_tick demo_warm"
    unfolding table_wf_def demo_warm_tables demo_warm_fields
    by (auto simp: demo_child_key_def root_key_def intro: exI [of _ "Suc 0"])
  moreover have "r_gen demo_warm p \<noteq> Some 0" for p
    by (simp add: r_gen_def demo_warm_def demo_stock_def region_zero_def)
  moreover have "current_wf demo_warm"
    by (simp add: current_wf_def demo_warm_fields root_key_def XY_REGION_ROOT_def)
  ultimately show ?thesis by (simp add: ready_def region_wf_def demo_warm_fields)
qed

lemma demo_warm_ancestors: "ancestors demo_warm 1 = [1]" "ancestors demo_warm 2 = [2, 1]"
proof -
  have wf: "tree_wf demo_warm" using demo_warm_ready by (simp add: readyD)
  have p: "r_parent demo_warm 1 = Some None" "r_parent demo_warm 2 = Some (Some 1)" by (simp_all add: demo_warm_fields)
  from ancestors_unfold [OF wf p(1)] show a: "ancestors demo_warm 1 = [1]" by simp
  from ancestors_unfold [OF wf p(2)] a show "ancestors demo_warm 2 = [2, 1]" by simp
qed

lemma demo_warm_mods: "mods_of demo_warm 1 []" "mods_of demo_warm 2 [10]"
  "mods demo_warm = [10 \<mapsto> demo_listener\<lparr>me_region_entry := Some 2, me_load_path := Some 46\<rparr>]"
  by (simp_all add: mods_of_def demo_warm_def demo_stock_def demo_listener_def mod_zero_def mod_next_def
      mod_prev_def mod_region_def region_zero_def chain_Some)

lemma demo_warm_cell:
  "hook_cache demo_warm p h = (if p = 2 \<and> h = 0 then Some \<lparr>hc_slots = Some 45, hc_count = 1, hc_cap = 1, hc_region_gen = 1\<rparr> else None)"
  by (auto simp: hook_cache_def demo_warm_def demo_stock_def region_zero_def)

lemma demo_warm_ok: "disp_ready demo_tick demo_warm"
proof -
  have reg: "hook_reg demo_tick demo_warm name k \<longleftrightarrow> name = ''on_tick'' \<and> k = 0" for name k
    by (simp add: hook_reg_def demo_warm_tables demo_warm_fields)
  have "mods_wf demo_warm"
    using demo_warm_mods by (auto simp: mods_wf_def demo_warm_def demo_disp_def split: if_splits)
  moreover have "vec_ok demo_warm"
    unfolding vec_ok_def
  proof (intro allI impI)
    fix p r assume r: "regions demo_warm p = Some r" "\<not> re_subtree_mods_dirty r"
    then have p: "p = 2" "re_subtree_mods r = [10]"
      by (auto simp: demo_warm_def demo_stock_def region_zero_def split: if_splits)
    have "subtree demo_warm 2 = {2}"
      by (auto simp: subtree_def demo_warm_fields demo_warm_ancestors simp del: One_nat_def split: if_splits)
    then have "mods_in demo_warm (subtree demo_warm 2) = {10}"
      using mods_in_insert [OF demo_warm_mods(2), of "{}"] by (simp add: mods_in_def [of _ "{}"])
    moreover have "preorder demo_warm 2 [10]" using demo_warm_mods(2) by (rule preorder_leaf) (simp add: demo_warm_fields)
    ultimately show "vec_for demo_warm p (re_subtree_mods r)" using p by (simp add: vec_for_def)
  qed
  moreover have "ctx_live demo_warm"
    by (simp add: ctx_live_def demo_warm_def demo_disp_def demo_listener_def mod_zero_def)
  moreover have "flags_ok demo_warm" by (simp add: flags_ok_def demo_warm_fields)
  moreover have "deny_inv demo_tick demo_warm"
  proof -
    have d: "dset demo_warm p b = (if p = 1 \<or> p = 2 then Some (0, {}) else None)" for p b
      by (simp add: dset_def demo_warm_def demo_stock_def deny_set_def region_zero_def)
    show ?thesis
      by (auto simp: deny_inv_def d set_agrees_def rt_handles_def demo_warm_fields demo_warm_tables split: if_splits)
  qed
  moreover have "caches_ok demo_tick demo_warm"
    by (auto simp: caches_ok_def reg cache_ok_def demo_warm_mods(3) demo_listener_def mod_zero_def
        has_hook_iff split: if_splits)
  moreover have "hooks_wf demo_tick demo_warm"
    unfolding hooks_wf_def reg by (simp add: demo_warm_def demo_disp_fields)
  moreover have "slots_wf demo_warm"
    by (auto simp: slots_wf_def demo_warm_cell cell_ok_def demo_warm_fields split: if_splits) (simp add: demo_warm_def)
  ultimately show ?thesis
    using demo_warm_ready
    by (simp add: disp_ready_def disp_inv_def) (simp add: demo_warm_def demo_disp_def demo_boot_fields)
qed

lemma demo_warm_vec:
  "hook_vec demo_tick demo_warm [1, 2] ''on_tick'' [10] = [slot_for 10 (Fn 1005)]"
  by (simp add: hook_vec_def hears_def hook_slot_def demo_warm_fields denied_anc_def)
     (simp add: demo_warm_def demo_listener_def mod_zero_def
      hook_fn_def demo_tick_def demo_env_def slot_of_def)

theorem deny_misses_cached_calls_witness:
  "\<exists>s1 t t'. xy_deny demo_tick ''mods/a'' XY_DENY_MODULE demo_warm = Some (XY_OK, s1) \<and> 46 \<in> denied_mods s1 1 \<and>
     xy_call demo_tick (Some 40) (Some 30) None (set_current_region 0 (Some 2) s1) = Some (XY_OK, t) \<and>
     bufs t 40 = Some [8] \<and>
     xy_call_self demo_tick (Some 40) (Some 30) None (set_current_region 0 (Some 2) s1) = Some (XY_ERR_NOTFOUND, t') \<and>
     bufs t' 40 = Some [0]"
proof -
  have iw: "intern_wf demo_tick demo_warm"
    by (auto simp: intern_wf_def demo_warm_fields demo_warm_tables split: if_splits) (auto simp: demo_warm_def split: if_splits)
  have path: "module_load_path demo_tick demo_warm ''mods/a'' = Some ''mods/a.so''"
    by (simp add: module_load_path_def demo_tick_def demo_env_def Let_def)
  have anc: "1 \<in> set (ancestors demo_warm 2)" "(1 :: nat) \<noteq> 2" by (simp_all add: demo_warm_ancestors)
  have k: "r_key demo_warm 2 = Some demo_child_key" by (simp add: demo_warm_fields)
  have a: "adapter_ok demo_tick demo_warm 30 demo_adapter 99 (Some 40)"
    by (simp add: adapter_ok_def hook_reg_def demo_warm_fields demo_warm_tables demo_adapter_def demo_disp_fields
        XY_MAX_RET_SIZE_def)
  have nd: "\<forall>g \<in> set (ancestors demo_warm 2) - {2}. ad_name demo_adapter \<notin> denied_hook_names demo_warm g"
    by (simp add: demo_warm_fields)
  have r: "regions demo_warm 2 = Some demo_stock" "\<not> re_subtree_mods_dirty demo_stock" "re_subtree_mods demo_stock = [10]"
    by (simp_all add: demo_warm_def demo_stock_def)
  let ?c = "\<lparr>hc_slots = Some 45, hc_count = 1, hc_cap = 1, hc_region_gen = 1\<rparr>"
  have n: "ad_name demo_adapter = ''on_tick''" "ad_hook_id demo_adapter = 0" by (simp_all add: demo_adapter_def)
  have c: "hook_cache demo_warm 2 (ad_hook_id demo_adapter) = Some ?c" "hc_region_gen ?c = re_dispatch_gen demo_stock"
    by (simp_all add: demo_warm_cell n demo_stock_def)
  have vec: "hook_vec demo_tick demo_warm (rev (ancestors demo_warm 2)) (ad_name demo_adapter) [10] = [slot_for 10 (Fn 1005)]"
    by (simp only: demo_warm_ancestors n rev.simps append.simps demo_warm_vec)
  have sl: "slots_of demo_warm ?c = hook_vec demo_tick demo_warm (rev (ancestors demo_warm 2)) (ad_name demo_adapter)
      (re_subtree_mods demo_stock)" unfolding r(3) vec by (simp add: slots_of_def demo_warm_def)
  have x: "fst (module_path_intern demo_tick (Some ''mods/a.so'') demo_warm) = Some 46"
    by (simp add: module_path_intern_def demo_warm_fields demo_warm_tables Let_def)
  have p: "me_load_path (the (mods demo_warm 10)) = Some 46" by (simp add: demo_warm_def)
  have id: "rk_id demo_child_key = 0" by (simp add: demo_child_key_def)
  note D = deny_misses_cached_calls [OF demo_tick_quiet(3,2,1) demo_warm_ok iw demo_warm_fields(13) path k anc a nd r(1,2) c sl
      demo_warm_mods(2), of None]
  have none: "hook_vec demo_tick demo_warm anc name [] = []" for anc name by (simp add: hook_vec_def)
  show ?thesis using D unfolding r(3) vec x id
    by (auto simp: p none demo_eff_def demo_warm_fields demo_disp_fields zeroed_def demo_adapter_def)
qed

end
