(* ===== verification/Xy_Twin.thy ===== *)
theory Xy_Twin
  imports Xy_Unload
begin

text \<open>
  Two entries that hold one shared object: what the unload of one leaves in the other's symbol
  cache, how a dispatch treats that, and what puts it right.
\<close>

section \<open>Filling an empty cell\<close>

lemma same_mod_answered: "same_mod e (answered h n f e)"
  by (rule same_modI [where b = "me_hook_impl_bits (answered h n f e)" and c = "me_fn_cache (answered h n f e)"])
     (simp add: answered_def marked_def Let_def)

text \<open>
  The eager pass resolves the empty cells of the names it is given, whatever the bit set says,
  and leaves the cells that are filled.
\<close>

lemma prewarm_fills:
  assumes mem: "never_oom E" and i: "0 \<le> i"
    and "\<forall>kv \<in> set kvs. \<exists>nm j. kv = (KStr nm, VInt j)" "\<forall>nm. (KStr nm, VInt i) \<in> set kvs \<longrightarrow> nm = name"
    and "mods s m = Some e" "nat i < length (me_fn_cache e)"
  shows "\<exists>e'. prewarm_loop E m kvs s = Some (upd_mod m (\<lambda>_. e') s) \<and> same_mod e e' \<and>
     me_fn_cache e' ! nat i =
       (if me_fn_cache e ! nat i = FN_NULL \<and> (KStr name, VInt i) \<in> set kvs then slot_of (hook_fn E e name)
        else me_fn_cache e ! nat i)"
  using assms(3-)
proof (induction kvs arbitrary: s e)
  case Nil
  have "upd_mod m (\<lambda>_. e) s = s" using Nil.prems(3) by (auto simp: upd_mod_def intro!: xy_state.equality)
  then show ?case by (auto intro!: exI [of _ e])
next
  case (Cons kv kvs)
  obtain nm j where kv: "kv = (KStr nm, VInt j)" using Cons.prems(1) by auto
  have nm: "j = i \<Longrightarrow> nm = name" using Cons.prems(2) kv by auto
  note IH = Cons.IH
  consider (skip) "j < 0 \<or> int (length (me_fn_cache e)) \<le> j \<or> me_fn_cache e ! nat j \<noteq> FN_NULL"
    | (fill) "0 \<le> j" "j < int (length (me_fn_cache e))" "me_fn_cache e ! nat j = FN_NULL" by linarith
  then show ?case
  proof cases
    case skip
    then have "prewarm_loop E m (kv # kvs) s = prewarm_loop E m kvs s" using Cons.prems(3) kv by auto
    moreover have "j = i \<Longrightarrow> me_fn_cache e ! nat i \<noteq> FN_NULL" using skip i Cons.prems(4) by auto
    moreover obtain e' where "prewarm_loop E m kvs s = Some (upd_mod m (\<lambda>_. e') s)" "same_mod e e'"
      "me_fn_cache e' ! nat i =
        (if me_fn_cache e ! nat i = FN_NULL \<and> (KStr name, VInt i) \<in> set kvs then slot_of (hook_fn E e name)
         else me_fn_cache e ! nat i)"
      using IH [OF _ _ Cons.prems(3,4)] Cons.prems(1,2) by auto
    moreover have "(KStr name, VInt i) \<in> set (kv # kvs) \<longleftrightarrow> j = i \<or> (KStr name, VInt i) \<in> set kvs"
      using nm kv by auto
    ultimately show ?thesis by (intro exI [of _ e']) auto
  next
    case fill
    define e1 where "e1 = answered j (length (me_fn_cache e)) (hook_fn E e nm) e"
    have j: "nat j < length (me_fn_cache e)" using fill by linarith
    have "upd_mod m (answered j (length (me_fn_cache e)) (hook_fn E e nm)) s = upd_mod m (\<lambda>_. e1) s"
      by (rule upd_mod_cong [OF Cons.prems(3)]) (simp add: e1_def)
    then have step: "prewarm_loop E m (kv # kvs) s = prewarm_loop E m kvs (upd_mod m (\<lambda>_. e1) s)"
      using prewarm_step [OF Cons.prems(3) fill(1,2), of E nm kvs] fn_cache_resolve_eq [OF mem fill(1) Cons.prems(3), of nm]
        fill(3) j by (simp add: kv)
    have e1: "same_mod e e1" "length (me_fn_cache e1) = length (me_fn_cache e)" "hook_fn E e1 name = hook_fn E e name"
      "me_fn_cache e1 ! nat i = (if j = i then slot_of (hook_fn E e nm) else me_fn_cache e ! nat i)"
      using Cons.prems(4) i fill(1) by (auto simp: e1_def same_mod_answered answered_fields nth_list_update nat_eq_iff)
    have m1: "mods (upd_mod m (\<lambda>_. e1) s) m = Some e1" using Cons.prems(3) by (simp add: heap_simps)
    have two: "upd_mod m (\<lambda>_. e') (upd_mod m (\<lambda>_. e1) s) = upd_mod m (\<lambda>_. e') s" for e'
      using Cons.prems(3) by (auto simp: upd_mod_def intro!: xy_state.equality)
    have full: "slot_of f \<noteq> FN_NULL" for f by (simp add: slot_of_def split: option.splits)
    obtain e' where e': "prewarm_loop E m kvs (upd_mod m (\<lambda>_. e1) s) = Some (upd_mod m (\<lambda>_. e') s)" "same_mod e1 e'"
      "me_fn_cache e' ! nat i =
        (if me_fn_cache e1 ! nat i = FN_NULL \<and> (KStr name, VInt i) \<in> set kvs then slot_of (hook_fn E e1 name)
         else me_fn_cache e1 ! nat i)"
      using IH [OF _ _ m1] Cons.prems(1,2,4) e1(2) two by auto
    have "me_fn_cache e' ! nat i =
       (if me_fn_cache e ! nat i = FN_NULL \<and> (KStr name, VInt i) \<in> set (kv # kvs) then slot_of (hook_fn E e name)
        else me_fn_cache e ! nat i)"
      using e'(3) e1(3,4) nm fill(3) full kv by auto
    then show ?thesis using step e'(1) same_mod_trans [OF e1(1) e'(2)] by auto
  qed
qed

lemma fn_cache_prewarm_fills:
  assumes E: "env_ok E" "never_oom E" and tab: "hook_tab E s" "hooks_wf E s" "hook_reg E s name i"
    and e: "mods s m = Some e" "me_handle e \<noteq> None" "nat i < length (me_fn_cache e)" "me_fn_cache e ! nat i = FN_NULL"
  shows "\<exists>u e'. fn_cache_prewarm E (Some m) s = Some (0, u) \<and> mods u m = Some e' \<and>
     me_fn_cache e' ! nat i = slot_of (hook_fn E e name)"
proof -
  let ?n = "xy_hook_id_counter (xy_rt s)"
  have i: "0 \<le> i" "i < ?n" using tab(2,3) unfolding hooks_wf_def by blast+
  define g :: "xy_mod_entry \<Rightarrow> xy_mod_entry" where "g = (\<lambda>e. e\<lparr>me_fn_cache := me_fn_cache e @ replicate (nat (?n + 16) - length (me_fn_cache e)) FN_NULL\<rparr>)"
  let ?s1 = "upd_mod m (\<lambda>_. g e) s"
  have grow: "module_ensure_fn_cache_cap E (Some m) (?n + 16) s = Some (0, ?s1)"
  proof (cases "?n + 16 \<le> int (length (me_fn_cache e))")
    case True
    then have "g e = e" by (simp add: g_def nat_le_iff)
    moreover have "upd_mod m (\<lambda>_. e) s = s" using e(1) by (auto simp: upd_mod_def intro!: xy_state.equality)
    ultimately show ?thesis using True e(1) by (simp add: module_ensure_fn_cache_cap_def)
  next
    case False
    have "upd_mod m g s = ?s1" using e(1) by (rule upd_mod_cong) simp
    with False e(1) E(2) show ?thesis by (simp add: module_ensure_fn_cache_cap_def never_oom_def g_def)
  qed
  have fr: "xy_rt ?s1 = xy_rt s" "st_corm ?s1 = st_corm s" by (simp_all add: upd_mod_def)
  have get: "tbl_get E ?s1 = tbl_get E s" "tbl_single E ?s1 = tbl_single E s"
    by (rule tbl_get_cong [OF fr(2)]) (rule tbl_single_cong [OF fr(2)])
  have m1: "mods ?s1 m = Some (g e)" using e(1) by (simp add: heap_simps)
  let ?kvs = "tbl_iter E ?s1 (hook_id_hd (xy_rt s))"
  have iff: "(k, v) \<in> set ?kvs \<longleftrightarrow> tbl_get E s (hook_id_hd (xy_rt s)) k = Some v" for k v
    using tbl_iter_iff [OF E(1), of ?s1 "hook_id_hd (xy_rt s)" k v] tab(1) get by (simp add: hook_tab_def)
  have rows: "\<forall>kv \<in> set ?kvs. \<exists>nm j. kv = (KStr nm, VInt j)"
  proof
    fix kv assume "kv \<in> set ?kvs"
    then have "tbl_get E s (hook_id_hd (xy_rt s)) (fst kv) = Some (snd kv)" using iff [of "fst kv" "snd kv"] by simp
    then obtain nm j where "fst kv = KStr nm" "snd kv = VInt j" using tab(1) unfolding hook_tab_def by blast
    then show "\<exists>nm j. kv = (KStr nm, VInt j)" by (metis prod.collapse)
  qed
  have one: "\<forall>nm. (KStr nm, VInt i) \<in> set ?kvs \<longrightarrow> nm = name"
    using tab(2,3) iff unfolding hooks_wf_def by (simp add: hook_reg_def)
  have mem: "(KStr name, VInt i) \<in> set ?kvs" using tab(3) iff by (simp add: hook_reg_def)
  have gi: "nat i < length (me_fn_cache (g e))" "me_fn_cache (g e) ! nat i = FN_NULL" "hook_fn E (g e) name = hook_fn E e name"
    using e(3,4) by (simp_all add: g_def nth_append) (rule hook_fn_handle, simp)
  obtain e' where e': "prewarm_loop E m ?kvs ?s1 = Some (upd_mod m (\<lambda>_. e') ?s1)" "me_fn_cache e' ! nat i = slot_of (hook_fn E e name)"
    using prewarm_fills [OF E(2) i(1) rows one m1 gi(1)] gi mem by auto
  have "fn_cache_prewarm E (Some m) s = Some (0, upd_mod m (\<lambda>_. e') ?s1)"
    using e(1,2) i grow e'(1) fr(1) by (auto simp: fn_cache_prewarm_def)
  then show ?thesis using e'(2) m1 by (auto simp: heap_simps)
qed


section \<open>The other entry of an unloaded object\<close>

text \<open>
  C37. Unloading one entry of a shared object silences the other entries that hold the same object,
  until their caches are filled again. Let the module that is unloaded be loaded once and no
  module's parent, and let another entry of the table have a function of the same object cached
  for a registered hook. The unload succeeds and keeps that entry, but its cell for the hook is null while
  the bit that says the hook is implemented stays set. From there on: the test for a listener
  still answers yes and resolves nothing; the slot that a rebuilt vector gets for the entry has
  a null callback; a call to a region and its subtree skips such a slot; a call to the entry's
  own region alone does not test for null and hands the null callback to the adapter, so the
  call is lost when the adapter cannot bear it. What fills the cell again, with the function
  it had, is the eager pass over the names of the hooks, which the library runs over every
  module when a new hook is registered. (The comment at the assignment says that a null cell
  forces the symbol to be resolved again.)
\<close>

theorem unload_silences_twin:
  assumes E: "env_ok E" "never_oom E" and rd: "ready E s" and inv: "deny_inv E s" and al: "listed_alive E s"
    and nm: "\<not> tbl_single E s (mod_by_region_hd (xy_rt s))"
    and path: "module_load_path E s fname = Some path" and plen: "region_current_plen s = Some plen"
    and key: "key = mod_key (mod_key_len path) path (xy_current_region_id s) plen"
    and tab: "tbl_get E s (mod_hd (xy_rt s)) (KStr key) = Some (VPtr m)"
    and e: "mods s m = Some e" "held_once e key x h" and ms: "mods_of s p (xs @ m # ys)"
    and leaf: "\<forall>q e'. mods s q = Some e' \<longrightarrow> q \<noteq> m \<longrightarrow> me_parent_entry e' \<noteq> Some m"
    and twin: "in_table E s m2" "m2 \<noteq> m" "mods s m2 = Some e2" "me_ctx e2 = Some c"
    and hook: "hook_tab E s" "hooks_wf E s" "hook_reg E s name k" "cache_ok E e2 k name"
    and cached: "nat k < length (me_fn_cache e2)" "me_fn_cache e2 ! nat k = Fn f"
    and obj: "object_base E h = dladdr_base E f"
  shows "\<exists>t e3. xy_unload E fname s = Some (XY_OK, t) \<and> mods t m2 = Some e3 \<and> kept e2 e3 \<and>
     me_fn_cache e3 ! nat k = FN_NULL \<and> module_has_hook_implemented e3 k \<and>
     module_listens E m2 k name t = Some (Inr True, t) \<and>
     (\<forall>q d a arr. hook_cache t q k = Some d \<longrightarrow> hc_slots d = Some a \<longrightarrow> slot_arrays t a = Some arr \<longrightarrow>
        hc_count d < hc_cap d \<longrightarrow> hc_count d < length arr \<longrightarrow>
        (\<exists>u. slots_push E q k m2 t = Some (XY_OK, u) \<and>
           slot_arrays u a = Some (arr[hc_count d := \<lparr>sl_me = Some m2, sl_cb = FN_NULL\<rparr>]))) \<and>
     (\<forall>F. run_slot E F \<lparr>sl_me = Some m2, sl_cb = FN_NULL\<rparr> t = Some (False, t)) \<and>
     (\<forall>F n ad. df_hook_id F = k \<longrightarrow> ctxs t c \<noteq> None \<longrightarrow> adapters t (df_reg F) = Some ad \<longrightarrow>
        module_denied_by_ancestors E t (df_anc F) e3 = Some False \<longrightarrow>
        run_hook E (df_call F) (df_retp F) FN_NULL (df_arg F) (enter_ctx F e3 c t) = None \<longrightarrow>
        self_loop E F n (Some m2) t = None) \<and>
     (\<exists>u e4. fn_cache_prewarm E (Some m2) t = Some (0, u) \<and> mods u m2 = Some e4 \<and> me_fn_cache e4 ! nat k = Fn f)"
proof -
  from unload_effects [OF E rd inv al nm path plen key tab e ms leaf] obtain t where
    t: "xy_unload E fname s = Some (XY_OK, t)"
      "xy_rt t = (xy_rt s)\<lparr>xy_mod_count := xy_mod_count (xy_rt s) - 1\<rparr>"
      "\<forall>q e0. q \<noteq> m \<longrightarrow> mods s q = Some e0 \<longrightarrow>
        (\<exists>e'. mods t q = Some e' \<and> kept e0 e' \<and> me_fn_cache e' = swept E s (Some h) q e0)"
      "\<forall>d \<in> rt_handles s. d \<noteq> mod_hd (xy_rt s) \<longrightarrow> tbl_get E t d = tbl_get E s d" "tbl_single E t = tbl_single E s"
    by blast
  from t(3) twin(2,3) obtain e3 where e3: "mods t m2 = Some e3" "kept e2 e3" "me_fn_cache e3 = swept E s (Some h) m2 e2" by blast
  have k: "0 \<le> k" using hook(2,3) unfolding hooks_wf_def by blast
  have own: "hook_fn E e2 name = Some f" "module_has_hook_implemented e2 k"
    using hook(4) cached k by (auto simp: cache_ok_def nat_less_iff split: if_splits)
  then obtain base where base: "dladdr_base E f = Some base" by (auto simp: hook_fn_def split: bind_splits if_splits)
  have null: "nat k < length (me_fn_cache e3)" "me_fn_cache e3 ! nat k = FN_NULL"
    using twin(1) cached base obj by (simp_all add: e3(3) swept_def forgotten_def)
  have bit: "module_has_hook_implemented e3 k" using own(2) e3(2) by (simp add: has_hook_iff kept_def)
  have ctx: "me_ctx e3 = Some c" "me_handle e3 \<noteq> None"
    using e3(2) twin(4) own(1) by (auto simp: kept_def hook_fn_def split: bind_splits)
  have listens: "module_listens E m2 k nm t = Some (Inr True, t)" for nm using e3(1) bit by (simp add: module_listens_def)
  have d: "hook_id_hd (xy_rt s) \<in> rt_handles s" "hook_id_hd (xy_rt s) \<noteq> mod_hd (xy_rt s)"
    using inv by (auto simp: deny_inv_def rt_handles_def rt_list_def Let_def)
  then have same: "tbl_get E t (hook_id_hd (xy_rt t)) = tbl_get E s (hook_id_hd (xy_rt s))" using t(2,4) by simp
  then have reg: "hook_reg E t = hook_reg E s" by (simp add: fun_eq_iff hook_reg_def)
  have wf: "hook_tab E t" "hooks_wf E t" "hook_reg E t name k"
    using hook(1-3) same t(2,5) by (simp_all add: hook_tab_def hooks_wf_def reg)
  have "hook_fn E e3 name = Some f" using hook_fn_handle [of e3 e2 E name] e3(2) own(1) by (simp add: kept_def)
  then have "\<exists>u e4. fn_cache_prewarm E (Some m2) t = Some (0, u) \<and> mods u m2 = Some e4 \<and> me_fn_cache e4 ! nat k = Fn f"
    using fn_cache_prewarm_fills [OF E wf e3(1) ctx(2) null] by (simp add: slot_of_def)
  moreover have "self_loop E F n (Some m2) t = None"
    if "df_hook_id F = k" "ctxs t c \<noteq> None" "adapters t (df_reg F) = Some ad" "module_denied_by_ancestors E t (df_anc F) e3 = Some False"
      "run_hook E (df_call F) (df_retp F) FN_NULL (df_arg F) (enter_ctx F e3 c t) = None" for F n ad
    using that e3(1) ctx(1) listens null by (subst self_loop.simps) simp
  moreover have "\<exists>u. slots_push E q k m2 t = Some (XY_OK, u) \<and>
      slot_arrays u a = Some (arr[hc_count d := \<lparr>sl_me = Some m2, sl_cb = FN_NULL\<rparr>])"
    if "hook_cache t q k = Some d" "hc_slots d = Some a" "slot_arrays t a = Some arr" "hc_count d < hc_cap d" "hc_count d < length arr" for q d a arr
    using that e3(1) null k by (simp add: slots_push_def slots_grow_def upd_cache_def upd_reg_def nat_less_iff)
  moreover have "run_slot E F \<lparr>sl_me = Some m2, sl_cb = FN_NULL\<rparr> t = Some (False, t)" for F
    using e3(1) ctx(1) by (simp add: run_slot_def)
  ultimately show ?thesis using t(1) e3(1,2) null(2) bit listens by (intro exI [of _ t] exI [of _ e3]) blast
qed


text \<open>
  Two entries of the root region: 10 and 11 were loaded under two paths that lead to one shared
  object, and 11 has the hook resolved.
\<close>

definition demo_key :: "string \<Rightarrow> string" where
  "demo_key path = mod_key (mod_key_len path) path 0 0"

definition demo_first :: xy_mod_entry where
  "demo_first = demo_listener\<lparr>me_refcount := 1, me_mod_key := demo_key ''mods/a.so'', me_load_path := Some 60,
     me_region_next := Some 11\<rparr>"

definition demo_second :: xy_mod_entry where
  "demo_second = demo_listener\<lparr>me_refcount := 1, me_mod_key := demo_key ''mods/b.so'', me_load_path := Some 61,
     me_region_prev := Some 10, me_fn_cache := [Fn 1005], me_hook_impl_bits := [1]\<rparr>"

definition demo_twins :: "alist_corm xy_state" where
  "demo_twins = demo_disp\<lparr>regions := [1 \<mapsto> demo_root\<lparr>re_mods_tail := Some 11\<rparr>],
     mods := [10 \<mapsto> demo_first, 11 \<mapsto> demo_second], paths := [60 \<mapsto> ''mods/a.so'', 61 \<mapsto> ''mods/b.so''],
     st_corm := (st_corm demo_boot)\<lparr>ac_rows := (ac_rows (st_corm demo_boot))(2 := [(KStr ''on_tick'', VInt 0)],
       4 := [(KStr (demo_key ''mods/a.so''), VPtr 10), (KStr (demo_key ''mods/b.so''), VPtr 11)])\<rparr>\<rparr>"

definition demo_twin_env :: "alist_corm env" where
  "demo_twin_env = demo_tick\<lparr>stl_dlsym := (\<lambda>h name. Some (1000 + h))\<rparr>"

lemma demo_twin_env_ok: "env_ok demo_twin_env" "never_oom demo_twin_env" "env_corm demo_twin_env = list_corm"
  using demo_tick_quiet(2,3) by (simp_all add: env_ok_def never_oom_def demo_twin_env_def demo_disp_corm)

lemma demo_twins_fields:
  "regions demo_twins = [1 \<mapsto> demo_root\<lparr>re_mods_tail := Some 11\<rparr>]" "mods demo_twins = [10 \<mapsto> demo_first, 11 \<mapsto> demo_second]"
  "xy_rt demo_twins = (xy_rt demo_boot)\<lparr>xy_hook_id_counter := 1\<rparr>" "xy_current_region_id demo_twins = 0"
  "xy_current_region_entry demo_twins = Some 1"
  by (simp_all add: demo_twins_def demo_disp_def demo_boot_fields)

lemma demo_keys: "demo_key ''mods/a.so'' \<noteq> demo_key ''mods/b.so''"
  by code_simp

lemma demo_twins_tables:
  "tbl_single demo_twin_env demo_twins d \<longleftrightarrow> d \<in> {1, 2, 3, 4, 6}"
  "tbl_get demo_twin_env demo_twins d k =
     (if d = 2 \<and> k = KStr ''on_tick'' then Some (VInt 0)
      else if d = 4 \<and> k = KStr (demo_key ''mods/a.so'') then Some (VPtr 10)
      else if d = 4 \<and> k = KStr (demo_key ''mods/b.so'') then Some (VPtr 11)
      else if d = 6 \<and> k = KRegion root_key then Some (VPtr 1) else None)"
  by (auto simp: tbl_single_def tbl_get_def demo_twin_env_ok(3) demo_twins_def demo_boot_corm list_corm_def)

lemma demo_twins_reg: "hook_reg demo_twin_env demo_twins name k \<longleftrightarrow> name = ''on_tick'' \<and> k = 0"
  by (auto simp: hook_reg_def demo_twins_tables demo_twins_fields demo_boot_corm)

lemma demo_twins_ready: "ready demo_twin_env demo_twins"
proof -
  have k: "r_key demo_twins = [1 \<mapsto> root_key]" "r_gen demo_twins = r_gen demo_disp"
    by (auto simp: fun_eq_iff r_key_def r_gen_def demo_twins_fields demo_disp_fields demo_root_def region_zero_def key_of_def
        region_key_def root_key_def)
  have "same_shape demo_disp demo_twins"
    by (auto simp: same_shape_def fun_eq_iff r_key_def r_depth_def r_parent_def r_head_def sib_next_def key_of_def
        demo_twins_fields demo_disp_fields demo_twins_def)
  then have "tree_wf demo_twins" using tree_wf_shape demo_disp_ready by (auto simp: ready_def region_wf_def)
  moreover have "table_wf demo_twin_env demo_twins"
    unfolding table_wf_def k demo_twins_tables demo_twins_fields by (auto simp: demo_boot_corm)
  moreover have "current_wf demo_twins"
    unfolding current_wf_def k demo_twins_fields by (simp add: root_key_def XY_REGION_ROOT_def)
  ultimately show ?thesis
    using demo_disp_ready unfolding ready_def region_wf_def k by (simp add: demo_twins_fields demo_boot_corm)
qed

lemma demo_twins_deny: "deny_inv demo_twin_env demo_twins" "listed_alive demo_twin_env demo_twins"
proof -
  have "dset demo_twins p b = (if p = 1 then Some (0, {}) else None)" for p b
    by (simp add: dset_def demo_twins_fields demo_root_def deny_set_def region_zero_def)
  then show "deny_inv demo_twin_env demo_twins"
    by (auto simp: deny_inv_def set_agrees_def rt_handles_def rt_list_def demo_twins_fields demo_boot_corm
        demo_twins_tables Let_def split: if_splits)
  show "listed_alive demo_twin_env demo_twins"
    by (auto simp: listed_alive_def demo_twins_tables demo_twins_fields demo_boot_corm split: if_splits)
qed

theorem unload_silences_twin_witness:
  "\<exists>t e u e4. xy_unload demo_twin_env ''mods/a'' demo_twins = Some (XY_OK, t) \<and> mods t 11 = Some e \<and>
     me_fn_cache e ! 0 = FN_NULL \<and> module_listens demo_twin_env 11 0 ''on_tick'' t = Some (Inr True, t) \<and>
     fn_cache_prewarm demo_twin_env (Some 11) t = Some (0, u) \<and> mods u 11 = Some e4 \<and> me_fn_cache e4 ! 0 = Fn 1005"
proof -
  have nm: "\<not> tbl_single demo_twin_env demo_twins (mod_by_region_hd (xy_rt demo_twins))"
    by (simp add: demo_twins_tables demo_twins_fields demo_boot_corm)
  have path: "module_load_path demo_twin_env demo_twins ''mods/a'' = Some ''mods/a.so''"
    by (simp add: module_load_path_def demo_twin_env_def demo_tick_def demo_env_def Let_def)
  have plen: "region_current_plen demo_twins = Some 0"
    by (simp add: region_current_plen_def demo_twins_fields demo_root_def region_zero_def)
  have key: "demo_key ''mods/a.so'' = mod_key (mod_key_len ''mods/a.so'') ''mods/a.so'' (xy_current_region_id demo_twins) 0"
    by (simp add: demo_key_def demo_twins_fields)
  have tab: "tbl_get demo_twin_env demo_twins (mod_hd (xy_rt demo_twins)) (KStr (demo_key ''mods/a.so'')) = Some (VPtr 10)"
    by (simp add: demo_twins_tables demo_twins_fields demo_boot_corm)
  have e: "mods demo_twins 10 = Some demo_first" "held_once demo_first (demo_key ''mods/a.so'') 60 5"
    by (simp_all add: demo_twins_fields held_once_def demo_first_def demo_listener_def mod_zero_def)
  have ms: "mods_of demo_twins 1 ([] @ 10 # [11])"
    by (simp add: mods_of_def demo_twins_fields demo_root_def demo_first_def demo_second_def demo_listener_def mod_zero_def
        mod_next_def mod_prev_def mod_region_def chain_Some)
  have leaf: "\<forall>q e'. mods demo_twins q = Some e' \<longrightarrow> q \<noteq> 10 \<longrightarrow> me_parent_entry e' \<noteq> Some 10"
    by (simp add: demo_twins_fields demo_second_def demo_listener_def mod_zero_def)
  have "tbl_get demo_twin_env demo_twins (mod_hd (xy_rt demo_twins)) (KStr (demo_key ''mods/b.so'')) = Some (VPtr 11)"
    using demo_keys by (simp add: demo_twins_tables demo_twins_fields demo_boot_corm)
  then have twin: "in_table demo_twin_env demo_twins 11" "(11::nat) \<noteq> 10" "mods demo_twins 11 = Some demo_second" "me_ctx demo_second = Some 20"
    by (auto simp: in_table_def demo_twins_fields demo_second_def demo_listener_def)
  have hook: "hook_tab demo_twin_env demo_twins" "hooks_wf demo_twin_env demo_twins" "hook_reg demo_twin_env demo_twins ''on_tick'' 0"
    by (auto simp: hook_tab_def hooks_wf_def demo_twins_reg demo_twins_tables demo_twins_fields demo_boot_corm split: if_splits)
  have base: "object_base demo_twin_env 5 = dladdr_base demo_twin_env 1005"
    by (simp add: object_base_def demo_twin_env_def)
  have ok: "cache_ok demo_twin_env demo_second 0 ''on_tick''" "nat 0 < length (me_fn_cache demo_second)" "me_fn_cache demo_second ! nat 0 = Fn 1005"
    by (simp_all add: cache_ok_def hook_fn_def module_has_hook_implemented_def demo_second_def demo_listener_def demo_twin_env_def
        demo_tick_def demo_env_def)
  show ?thesis
    using unload_silences_twin [OF demo_twin_env_ok(1,2) demo_twins_ready demo_twins_deny nm path plen key tab e ms leaf twin hook ok base] by auto
qed

end
