(* ===== verification/Xy_Wasm_Props.thy ===== *)
theory Xy_Wasm_Props
  imports Xy_Wasm
begin

text \<open>
  What the WebAssembly build promises: the hook table is a list of names with the adapters
  registered for each, in order, and a call runs all of them. A name of 64 characters or more
  falls outside that contract.
\<close>

section \<open>The registry\<close>

lemma wasm_find_eq: "wasm_find hs nm = first_index (\<lambda>h. ws_name h = nm) hs"
  by (induction hs) auto

interpretation hooks: first_match wasm_find "\<lambda>hs. hs" "\<lambda>nm h. ws_name h = nm"
  by unfold_locales (rule wasm_find_eq)

definition node_adapter :: "wasm \<Rightarrow> nat \<Rightarrow> aptr option" where
  "node_adapter w p = wasm_nodes w p \<bind> wl_adapter"

text \<open>The lists of nodes behind a table, one per hook, and what they hold.\<close>

definition laid_out :: "wasm \<Rightarrow> nat list list \<Rightarrow> (string \<times> aptr list) list \<Rightarrow> bool" where
  "laid_out w L rs \<longleftrightarrow>
     map ws_name (g_xy_hooks w) = map fst rs \<and> length L = length rs \<and>
     distinct (concat L) \<and> (\<forall>p \<in> set (concat L). p < wasm_next w) \<and>
     (\<forall>i < length rs. ws_hook_id (g_xy_hooks w ! i) = int i \<and> L ! i \<noteq> [] \<and>
        chain (wasm_nxt w) (ws_listeners (g_xy_hooks w ! i)) (L ! i) \<and>
        map (node_adapter w) (L ! i) = map Some (snd (rs ! i)))"

definition represents :: "wasm \<Rightarrow> (string \<times> aptr list) list \<Rightarrow> bool" where
  "represents w rs \<longleftrightarrow>
     (\<exists>L. laid_out w L rs) \<and> distinct (map fst rs) \<and> length rs \<le> 256 \<and>
     (\<forall>r \<in> set rs. length (fst r) \<le> 63 \<and> (\<forall>a \<in> set (snd r). wasm_adapters w a \<noteq> None))"

text \<open>The registry with one more listener.\<close>

fun spec_areg :: "string \<Rightarrow> aptr \<Rightarrow> (string \<times> aptr list) list \<Rightarrow> (string \<times> aptr list) list" where
  "spec_areg nm a [] = [(nm, [a])]"
| "spec_areg nm a (r # rs) = (if fst r = nm then (nm, snd r @ [a]) # rs else r # spec_areg nm a rs)"

lemma spec_areg_new: "nm \<notin> set (map fst rs) \<Longrightarrow> spec_areg nm a rs = rs @ [(nm, [a])]"
  by (induction rs) auto

lemma spec_areg_old:
  "first_index (\<lambda>x. x = nm) (map fst rs) = Some i \<Longrightarrow> spec_areg nm a rs = rs[i := (nm, snd (rs ! i) @ [a])]"
  by (induction rs arbitrary: i) (auto split: if_splits)

lemma wasm_find_names: "wasm_find hs nm = first_index (\<lambda>x. x = nm) (map ws_name hs)"
  by (simp add: wasm_find_eq first_index_map)


section \<open>Lists of node lists\<close>

lemma set_concat_snoc:
  "i < length L \<Longrightarrow> set (concat (L[i := L ! i @ [l]])) = insert l (set (concat L))"
proof (induction L arbitrary: i)
  case (Cons xs L)
  then show ?case by (cases i) auto
qed simp

lemma distinct_concat_snoc:
  "i < length L \<Longrightarrow> distinct (concat L) \<Longrightarrow> l \<notin> set (concat L) \<Longrightarrow> distinct (concat (L[i := L ! i @ [l]]))"
proof (induction L arbitrary: i)
  case (Cons xs L)
  show ?case
  proof (cases i)
    case (Suc k)
    with Cons set_concat_snoc [of k L l] show ?thesis by auto
  qed (use Cons.prems in auto)
qed simp

lemma nth_in_concat: "i < length L \<Longrightarrow> p \<in> set (L ! i) \<Longrightarrow> p \<in> set (concat L)"
  by (auto dest: nth_mem)

lemma distinct_concat_disjoint:
  "distinct (concat L) \<Longrightarrow> i < length L \<Longrightarrow> j < length L \<Longrightarrow> i \<noteq> j \<Longrightarrow> p \<in> set (L ! i) \<Longrightarrow> p \<notin> set (L ! j)"
proof (induction L arbitrary: i j)
  case (Cons xs L)
  have new: "set xs \<inter> set (concat L) = {}" and d: "distinct (concat L)" using Cons.prems(1) by auto
  show ?case
  proof (cases i)
    case 0
    then obtain k where "j = Suc k" "k < length L" using Cons.prems by (cases j) auto
    with 0 Cons.prems(5) new nth_in_concat [of k L p] show ?thesis by auto
  next
    case (Suc k)
    then have k: "k < length L" "p \<in> set (L ! k)" using Cons.prems by auto
    show ?thesis
    proof (cases j)
      case 0
      with new nth_in_concat [OF k] show ?thesis by auto
    next
      case (Suc m)
      with Cons.IH [OF d k(1), of m] Cons.prems \<open>i = Suc k\<close> k(2) show ?thesis by simp
    qed
  qed
qed simp

lemma distinct_concat_nth: "distinct (concat L) \<Longrightarrow> i < length L \<Longrightarrow> distinct (L ! i)"
  by (induction L arbitrary: i) (auto simp: nth_Cons split: nat.splits)


section \<open>Walking to the tail\<close>

lemma wasm_tail_last:
  "chain (wasm_nxt w) (Some p) ps \<Longrightarrow> length ps \<le> n \<Longrightarrow> wasm_tail w n p = Some (last ps)"
proof (induction n arbitrary: p ps)
  case (Suc n)
  obtain y qs where ps: "ps = p # qs" "wasm_nxt w p = Some y" "chain (wasm_nxt w) y qs"
    using Suc.prems(1) by (auto simp: chain_Some)
  show ?case
  proof (cases y)
    case (Some q)
    then have "wasm_tail w n q = Some (last qs)" "qs \<noteq> []" using Suc.IH [of q qs] Suc.prems(2) ps by auto
    with Some ps show ?thesis by simp
  qed (use ps in simp)
qed (auto simp: chain_Some)

text \<open>A state whose table, nodes or other fields alone matter to the layout.\<close>

lemma laid_out_cong:
  assumes "laid_out w L rs" "g_xy_hooks w' = g_xy_hooks w" "wasm_nodes w' = wasm_nodes w" "wasm_next w' = wasm_next w"
  shows "laid_out w' L rs"
proof -
  have "wasm_nxt w' = wasm_nxt w" "node_adapter w' = node_adapter w"
    using assms(3) by (auto simp: wasm_nxt_def node_adapter_def fun_eq_iff)
  with assms show ?thesis by (simp add: laid_out_def)
qed

lemma laid_out_len: "laid_out w L rs \<Longrightarrow> length (g_xy_hooks w) = length rs"
  unfolding laid_out_def by (metis length_map)

text \<open>One more node at the end of the list of hook \<open>i\<close>.\<close>

lemma link_laid_out:
  assumes lay: "laid_out w L rs" and i: "i < length rs"
  shows "\<exists>w'. wasm_link i (wasm_next w) (snd (wasm_new a w)) = Some w' \<and>
     laid_out w' (L[i := L ! i @ [wasm_next w]]) (rs[i := (fst (rs ! i), snd (rs ! i) @ [a])]) \<and>
     wasm_adapters w' = wasm_adapters w \<and> g_xy_hooks w' = g_xy_hooks w \<and> wasm_bufs w' = wasm_bufs w"
proof -
  let ?l = "wasm_next w" and ?w2 = "snd (wasm_new a w)"
  let ?hs = "g_xy_hooks w" and ?ps = "L ! i"
  note lo = lay [unfolded laid_out_def]
  have lenL: "i < length L" using lo i by simp
  have below: "p < ?l" if "p \<in> set (L ! j)" "j < length L" for p j
    using lo nth_in_concat [OF that(2,1)] by blast
  have ne: "?ps \<noteq> []" and ch: "chain (wasm_nxt w) (ws_listeners (?hs ! i)) ?ps" using lo i by auto
  then obtain p where p: "ws_listeners (?hs ! i) = Some p" by (cases ?ps) auto
  have hooks2: "g_xy_hooks ?w2 = ?hs" by (simp add: wasm_new_def)
  have nxt2: "wasm_nxt ?w2 q = (if q = ?l then Some None else wasm_nxt w q)" for q
    by (simp add: wasm_new_def wasm_nxt_def)
  have "chain (wasm_nxt ?w2) (Some p) ?ps"
    using ch unfolding p by (rule chain_cong) (use below [of _ i] lenL nxt2 in \<open>auto dest: less_not_refl2\<close>)
  moreover have "length ?ps \<le> Suc ?l"
    using chain_length_bound [OF ch, of ?l] below lenL by fastforce
  ultimately have tail: "wasm_tail ?w2 (wasm_next ?w2) p = Some (last ?ps)"
    by (intro wasm_tail_last) (simp_all add: wasm_new_def)
  define w' where "w' = ?w2\<lparr>wasm_nodes := (wasm_nodes ?w2)(last ?ps := map_option (\<lambda>n. n\<lparr>wl_next := Some ?l\<rparr>) (wasm_nodes ?w2 (last ?ps)))\<rparr>"
  have link: "wasm_link i ?l ?w2 = Some w'" by (simp add: wasm_link_def hooks2 p tail w'_def)
  have last: "last ?ps \<in> set ?ps" using ne by simp
  then have lb: "last ?ps < ?l" using below lenL by blast
  have nodes: "wasm_nxt w (last ?ps) \<noteq> None" using ch last by (rule chain_allocated)
  have nxt: "wasm_nxt w' q = (if q = ?l then Some None else if q = last ?ps then Some (Some ?l) else wasm_nxt w q)" for q
    using lb nodes by (auto simp: w'_def wasm_nxt_def wasm_new_def)
  have adp: "node_adapter w' q = (if q = ?l then Some a else node_adapter w q)" for q
    using lb nodes by (auto simp: w'_def node_adapter_def wasm_new_def wasm_nxt_def Option.bind_eq_None_conv split: Option.bind_splits)
  have hk: "g_xy_hooks w' = ?hs" by (simp add: w'_def hooks2)
  have notin: "?l \<notin> set (concat L)" using lo by blast
  let ?L = "L[i := ?ps @ [?l]]" and ?rs = "rs[i := (fst (rs ! i), snd (rs ! i) @ [a])]"
  have fst_keep: "map fst ?rs = map fst rs" by (rule nth_equalityI) (auto simp: nth_list_update i)
  have "laid_out w' ?L ?rs"
    unfolding laid_out_def
  proof (intro conjI allI impI ballI)
    show "map ws_name (g_xy_hooks w') = map fst ?rs" using lo i by (simp add: hk fst_keep)
    show "length ?L = length ?rs" using lo by simp
    show "distinct (concat ?L)" using distinct_concat_snoc [OF lenL] lo notin by blast
    show "p < wasm_next w'" if "p \<in> set (concat ?L)" for p
      using that lo unfolding set_concat_snoc [OF lenL] by (auto simp: w'_def wasm_new_def dest: less_SucI)
    fix j assume j: "j < length ?rs"
    show "ws_hook_id (g_xy_hooks w' ! j) = int j" "?L ! j \<noteq> []" using lo j lenL by (auto simp: hk nth_list_update)
    show "chain (wasm_nxt w') (ws_listeners (g_xy_hooks w' ! j)) (?L ! j)"
    proof (cases "j = i")
      case True
      have "chain (wasm_nxt w') (if ?ps = [] then Some ?l else Some p) (?ps @ ?l # [])"
      proof (rule chain_link)
        show "chain (wasm_nxt w) (Some p) (?ps @ [])" using ch p by simp
        show "?l \<notin> set (?ps @ [])" using below lenL by auto
        show "wasm_nxt w' ?l = Some (first [])" by (simp add: nxt)
        show "wasm_nxt w' q = (if ?ps \<noteq> [] \<and> q = last ?ps then Some (Some ?l) else wasm_nxt w q)" if "q \<noteq> ?l" for q
          using that ne by (simp add: nxt)
      qed
      with True ne p lenL show ?thesis by (simp add: hk)
    next
      case False
      have "chain (wasm_nxt w) (ws_listeners (?hs ! j)) (L ! j)" using lo j by simp
      then have "chain (wasm_nxt w') (ws_listeners (?hs ! j)) (L ! j)"
      proof (rule chain_cong)
        fix q assume q: "q \<in> set (L ! j)"
        have jl: "j < length L" using j lo by simp
        have "q \<noteq> last ?ps" using distinct_concat_disjoint [of L i j "last ?ps"] lo lenL jl False last q by auto
        with below [OF q jl] show "wasm_nxt w' q = wasm_nxt w q" by (simp add: nxt)
      qed
      with False show ?thesis by (simp add: hk)
    qed
    show "map (node_adapter w') (?L ! j) = map Some (snd (?rs ! j))"
    proof -
      have jl: "j < length L" using j lo by simp
      have "map (node_adapter w') (L ! j) = map (node_adapter w) (L ! j)"
        using below [OF _ jl] by (auto simp: adp dest: less_not_refl2)
      moreover have "map (node_adapter w) (L ! j) = map Some (snd (rs ! j))" using lo j by simp
      ultimately have "map (node_adapter w') (L ! j) = map Some (snd (rs ! j))" by (rule trans)
      then show ?thesis using i lenL by (cases "j = i") (simp_all add: adp)
    qed
  qed
  then show ?thesis using link by (auto simp: hk) (simp_all add: w'_def wasm_new_def)
qed

text \<open>One more hook with one listener.\<close>

lemma new_laid_out:
  assumes lay: "laid_out w L rs"
    and w': "g_xy_hooks w' = g_xy_hooks w @ [\<lparr>ws_name = nm, ws_listeners = Some (wasm_next w), ws_hook_id = int (length rs)\<rparr>]"
      "wasm_nodes w' = (wasm_nodes w)(wasm_next w \<mapsto> \<lparr>wl_adapter = Some a, wl_next = None\<rparr>)" "wasm_next w' = Suc (wasm_next w)"
  shows "laid_out w' (L @ [[wasm_next w]]) (rs @ [(nm, [a])])"
proof -
  let ?l = "wasm_next w" and ?hs = "g_xy_hooks w"
  note lo = lay [unfolded laid_out_def]
  have lens: "length ?hs = length rs" "length L = length rs" using laid_out_len [OF lay] lo by simp_all
  have below: "p < ?l" if "p \<in> set (L ! j)" "j < length L" for p j
    using lo nth_in_concat [OF that(2,1)] by blast
  have nxt: "wasm_nxt w' q = (if q = ?l then Some None else wasm_nxt w q)" for q
    by (simp add: wasm_nxt_def w')
  have adp: "node_adapter w' q = (if q = ?l then Some a else node_adapter w q)" for q
    by (simp add: node_adapter_def w')
  show ?thesis
    unfolding laid_out_def
  proof (intro conjI allI impI ballI)
    show "map ws_name (g_xy_hooks w') = map fst (rs @ [(nm, [a])])" using lo by (simp add: w')
    show "length (L @ [[?l]]) = length (rs @ [(nm, [a])])" using lens by simp
    show "distinct (concat (L @ [[?l]]))" using lo by auto
    show "p < wasm_next w'" if "p \<in> set (concat (L @ [[?l]]))" for p
      using that lo by (auto simp: w' dest: less_SucI)
    fix j assume j: "j < length (rs @ [(nm, [a])])"
    show "ws_hook_id (g_xy_hooks w' ! j) = int j" "(L @ [[?l]]) ! j \<noteq> []"
      using lo j lens by (auto simp: w' nth_append less_Suc_eq)
    show "chain (wasm_nxt w') (ws_listeners (g_xy_hooks w' ! j)) ((L @ [[?l]]) ! j)"
    proof (cases "j < length rs")
      case True
      have "chain (wasm_nxt w) (ws_listeners (?hs ! j)) (L ! j)" using lo True by simp
      then have "chain (wasm_nxt w') (ws_listeners (?hs ! j)) (L ! j)"
        by (rule chain_cong) (use below [of _ j] True lens nxt in \<open>auto dest: less_not_refl2\<close>)
      with True lens show ?thesis by (simp add: w' nth_append)
    next
      case False
      then have "j = length rs" using j by simp
      with lens show ?thesis by (simp add: w' nth_append nxt)
    qed
    show "map (node_adapter w') ((L @ [[?l]]) ! j) = map Some (snd ((rs @ [(nm, [a])]) ! j))"
    proof (cases "j < length rs")
      case True
      have "map (node_adapter w') (L ! j) = map (node_adapter w) (L ! j)"
        using below [of _ j] True lens by (auto simp: adp dest: less_not_refl2)
      moreover have "map (node_adapter w) (L ! j) = map Some (snd (rs ! j))" using lo True by simp
      ultimately show ?thesis using True lens by (simp add: nth_append)
    next
      case False
      then have "j = length rs" using j by simp
      with lens show ?thesis by (simp add: nth_append adp)
    qed
  qed
qed


section \<open>Registration\<close>

lemma set_hook_id_fields [simp]:
  "g_xy_hooks (set_hook_id a i w) = g_xy_hooks w" "wasm_nodes (set_hook_id a i w) = wasm_nodes w"
  "wasm_next (set_hook_id a i w) = wasm_next w" "wasm_bufs (set_hook_id a i w) = wasm_bufs w"
  "(wasm_adapters (set_hook_id a i w) b = None) = (wasm_adapters w b = None)"
  by (simp_all add: set_hook_id_def)

lemma set_hook_id_call:
  "wasm_adapters (set_hook_id a i w) b \<bind> ad_call = wasm_adapters w b \<bind> ad_call"
  by (cases "wasm_adapters w b") (auto simp: set_hook_id_def)

section \<open>Examples\<close>

definition demo_listener_code :: "fnptr \<Rightarrow> addr option \<Rightarrow> addr option \<Rightarrow> wasm_mem \<Rightarrow> wasm_mem" where
  "demo_listener_code f retp arg b = b(f \<mapsto> [1])"

definition demo_wasm_env :: wasm_env where
  "demo_wasm_env =
     \<lparr>wasm_call = (\<lambda>f retp arg w. Some (w\<lparr>wasm_bufs := demo_listener_code f retp arg (wasm_bufs w)\<rparr>)),
      wasm_malloc_ok = (\<lambda>_. True), wasm_scope = (\<lambda>_ _ w. Some (0, w)),
      wasm_xy_load_module = (\<lambda>_ _. 0), wasm_xy_unload_module = (\<lambda>_ _. 0)\<rparr>"

definition demo_wasm :: wasm where
  "demo_wasm = wasm_init
     (\<lambda>a. if a = 1 \<or> a = 2 then Some \<lparr>ad_name = ''on_tick'', ad_arg_size = 0, ad_ret_size = 4, ad_call = Some (a + 10), ad_hook_id = 0\<rparr>
          else None) (\<lambda>_. None)"

text \<open>The same with both adapters registered.\<close>

definition demo_wasm_two :: wasm where
  "demo_wasm_two = demo_wasm
     \<lparr>g_xy_hooks := [\<lparr>ws_name = ''on_tick'', ws_listeners = Some 0, ws_hook_id = 0\<rparr>],
      wasm_nodes := [0 \<mapsto> \<lparr>wl_adapter = Some 1, wl_next = Some 1\<rparr>, 1 \<mapsto> \<lparr>wl_adapter = Some 2, wl_next = None\<rparr>],
      wasm_next := 2\<rparr>"

lemma demo_wasm_rep: "represents demo_wasm []"
  by (auto simp: represents_def laid_out_def demo_wasm_def wasm_init_def)

lemma demo_wasm_two_rep: "represents demo_wasm_two [(''on_tick'', [1, 2])]"
proof -
  have "laid_out demo_wasm_two [[0, 1]] [(''on_tick'', [1, 2])]"
    by (auto simp: laid_out_def demo_wasm_two_def demo_wasm_def wasm_init_def wasm_nxt_def node_adapter_def)
  then show ?thesis by (auto simp: represents_def demo_wasm_two_def demo_wasm_def wasm_init_def)
qed


section \<open>The claims\<close>

text \<open>
  C27. Registration refines the abstract registry, a list of hook names with the adapters
  registered for each. For a name of at most 63 characters, with memory, and an adapter whose
  result fits: the adapter is appended to the listeners of its name, or opens a new hook at the
  end of the list; the result and the adapter's \<^verbatim>\<open>hook_id\<close> are the position of the hook; and the
  257th name is refused with \<^const>\<open>XY_ERR_TOOBIG\<close> and changes nothing.
\<close>

theorem wasm_areg_refines:
  assumes rep: "represents w rs" and ad: "wasm_adapters w a = Some ad" "ad_ret_size ad \<le> 4096"
    and nm: "length nm \<le> 63" and mem: "\<forall>v. wasm_malloc_ok W v"
  shows "\<exists>r w'. wasm_xy_areg W (Some nm) (Some a) w = Some (r, w') \<and>
    (if nm \<notin> set (map fst rs) \<and> length rs = 256
     then r = -1 \<and> g_xy_err w' = XY_ERR_TOOBIG \<and> represents w' rs
     else g_xy_err w' = XY_OK \<and> represents w' (spec_areg nm a rs) \<and>
       (\<exists>i < length (spec_areg nm a rs). r = of_nat i \<and> fst (spec_areg nm a rs ! i) = nm \<and>
          map_option ad_hook_id (wasm_adapters w' a) = Some (int i)))"
proof -
  obtain L where lay: "laid_out w L rs" using rep by (auto simp: represents_def)
  note lo = lay [unfolded laid_out_def]
  have len: "length (g_xy_hooks w) = length rs" "length rs \<le> 256" using laid_out_len [OF lay] rep by (simp_all add: represents_def)
  have names: "map ws_name (g_xy_hooks w) = map fst rs" using lo by simp
  have small: "\<not> XY_MAX_RET_SIZE < ad_ret_size ad" using ad(2) by (simp add: XY_MAX_RET_SIZE_def)
  show ?thesis
  proof (cases "wasm_find (g_xy_hooks w) nm")
    case (Some i)
    then have fi: "first_index (\<lambda>x. x = nm) (map fst rs) = Some i" by (simp add: wasm_find_names names)
    then have i: "i < length rs" "fst (rs ! i) = nm" by (auto simp: first_index_Some_iff)
    let ?w1 = "set_hook_id a (int i) w"
    have hid: "ws_hook_id (g_xy_hooks w ! i) = int i" using lo i by simp
    have "laid_out ?w1 L rs" by (rule laid_out_cong [OF lay]) simp_all
    from link_laid_out [OF this i(1), of a] obtain w3 where
      w3: "wasm_link i (wasm_next w) (snd (wasm_new a ?w1)) = Some w3"
        "laid_out w3 (L[i := L ! i @ [wasm_next w]]) (rs[i := (fst (rs ! i), snd (rs ! i) @ [a])])"
        "wasm_adapters w3 = wasm_adapters ?w1" by auto
    have new: "wasm_new a ?w1 = (wasm_next w, snd (wasm_new a ?w1))" by (simp add: wasm_new_def)
    have eq: "wasm_xy_areg W (Some nm) (Some a) w = Some (word_of_int (int i), w3\<lparr>g_xy_err := XY_OK\<rparr>)"
      using ad(1) small Some mem w3(1) by (simp add: wasm_xy_areg_def hid Let_def) (subst new, simp)
    have sp: "spec_areg nm a rs = rs[i := (nm, snd (rs ! i) @ [a])]" by (rule spec_areg_old [OF fi])
    have keep: "map fst (spec_areg nm a rs) = map fst rs" using i by (auto simp: sp intro!: nth_equalityI simp: nth_list_update)
    have lay3: "laid_out (w3\<lparr>g_xy_err := XY_OK\<rparr>) (L[i := L ! i @ [wasm_next w]]) (spec_areg nm a rs)"
      using laid_out_cong [OF w3(2), of "w3\<lparr>g_xy_err := XY_OK\<rparr>"] i(2) by (simp add: sp)
    have mem_rs: "rs ! i \<in> set rs" using i by simp
    have "represents (w3\<lparr>g_xy_err := XY_OK\<rparr>) (spec_areg nm a rs)"
      unfolding represents_def
    proof (intro conjI ballI)
      show "\<exists>L. laid_out (w3\<lparr>g_xy_err := XY_OK\<rparr>) L (spec_areg nm a rs)" using lay3 by blast
      show "distinct (map fst (spec_areg nm a rs))" using keep rep by (simp add: represents_def)
      show "length (spec_areg nm a rs) \<le> 256" using len by (simp add: sp)
      fix r assume "r \<in> set (spec_areg nm a rs)"
      then have r: "r = (nm, snd (rs ! i) @ [a]) \<or> r \<in> set rs" unfolding sp by (meson insertE set_update_subset_insert subsetD)
      show "length (fst r) \<le> 63" using r nm rep by (auto simp: represents_def)
      fix b assume "b \<in> set (snd r)"
      with r have "b = a \<or> (\<exists>r' \<in> set rs. b \<in> set (snd r'))" using mem_rs by auto
      then have "wasm_adapters w b \<noteq> None" using rep ad(1) by (auto simp: represents_def)
      then show "wasm_adapters (w3\<lparr>g_xy_err := XY_OK\<rparr>) b \<noteq> None" using w3(3) by simp
    qed
    moreover have "nm \<in> set (map fst rs)" using i by auto
    moreover have "map_option ad_hook_id (wasm_adapters w3 a) = Some (int i)" using w3(3) ad(1) by (simp add: set_hook_id_def)
    ultimately show ?thesis using eq i by (auto simp: sp)
  next
    case None
    then have notin: "nm \<notin> set (map fst rs)" by (auto simp: wasm_find_names names first_index_None_iff)
    show ?thesis
    proof (cases "length rs = 256")
      case True
      have "wasm_xy_areg W (Some nm) (Some a) w = Some (-1, w\<lparr>g_xy_err := XY_ERR_TOOBIG\<rparr>)"
        using ad(1) small None len True by (simp add: wasm_xy_areg_def areg_fail_def XY_WASM_MAX_HOOKS_def)
      moreover have "represents (w\<lparr>g_xy_err := XY_ERR_TOOBIG\<rparr>) rs"
        using rep laid_out_cong [OF lay, of "w\<lparr>g_xy_err := XY_ERR_TOOBIG\<rparr>"] by (auto simp: represents_def)
      ultimately show ?thesis using notin True by auto
    next
      case False
      let ?n = "length rs"
      define w' where "w' = (set_hook_id a (int ?n) (w\<lparr>
          wasm_nodes := (wasm_nodes w)(wasm_next w \<mapsto> \<lparr>wl_adapter = Some a, wl_next = None\<rparr>),
          wasm_next := Suc (wasm_next w),
          g_xy_hooks := g_xy_hooks w @ [\<lparr>ws_name = nm, ws_listeners = Some (wasm_next w), ws_hook_id = int ?n\<rparr>]\<rparr>))\<lparr>g_xy_err := XY_OK\<rparr>"
      have at_end: "(g_xy_hooks w @ [x]) ! ?n = x" for x by (simp add: nth_append len(1))
      have eq: "wasm_xy_areg W (Some nm) (Some a) w = Some (word_of_int (int ?n), w')"
        using ad(1) small None len False mem nm at_end
        by (simp add: wasm_xy_areg_def XY_WASM_MAX_HOOKS_def Let_def wasm_new_def w'_def list_update_append)
      have sp: "spec_areg nm a rs = rs @ [(nm, [a])]" by (rule spec_areg_new [OF notin])
      have lay': "laid_out w' (L @ [[wasm_next w]]) (rs @ [(nm, [a])])"
        by (rule new_laid_out [OF lay]) (simp_all add: w'_def)
      have dom: "(wasm_adapters w' b = None) = (wasm_adapters w b = None)" for b by (simp add: w'_def)
      have "represents w' (spec_areg nm a rs)"
        using rep notin lay' len(2) False nm ad(1) unfolding represents_def sp
        by (auto simp: dom)
      moreover have "map_option ad_hook_id (wasm_adapters w' a) = Some (int ?n)"
        using ad(1) by (simp add: w'_def set_hook_id_def)
      moreover have "g_xy_err w' = XY_OK" by (simp add: w'_def)
      ultimately show ?thesis using eq notin False by (auto simp: sp intro!: exI [of _ ?n])
    qed
  qed
qed


theorem wasm_areg_refines_witness:
  "\<exists>r w'. wasm_xy_areg demo_wasm_env (Some ''on_tick'') (Some 2) demo_wasm_two = Some (r, w') \<and>
     represents w' [(''on_tick'', [1, 2, 2])]"
  using wasm_areg_refines [OF demo_wasm_two_rep, of 2 _ "''on_tick''" demo_wasm_env]
  by (force simp: demo_wasm_two_def demo_wasm_def wasm_init_def demo_wasm_env_def)


section \<open>Dispatch\<close>

text \<open>Listeners that only write buffers.\<close>

definition wasm_quiet :: "wasm_env \<Rightarrow> (fnptr \<Rightarrow> addr option \<Rightarrow> addr option \<Rightarrow> wasm_mem \<Rightarrow> wasm_mem) \<Rightarrow> bool" where
  "wasm_quiet W eff \<longleftrightarrow>
     (\<forall>f retp arg w. wasm_call W f retp arg w = Some (w\<lparr>wasm_bufs := eff f retp arg (wasm_bufs w)\<rparr>))"

text \<open>The code behind a list of adapters.\<close>

definition callbacks :: "wasm \<Rightarrow> aptr list \<Rightarrow> fnptr list" where
  "callbacks w as = List.map_filter (\<lambda>a. wasm_adapters w a \<bind> ad_call) as"

lemma callbacks_cong: "(\<And>a. wasm_adapters w' a \<bind> ad_call = wasm_adapters w a \<bind> ad_call) \<Longrightarrow> callbacks w' as = callbacks w as"
  by (simp add: callbacks_def)

lemma wasm_walk_None: "wasm_walk W retp arg None n w = Some w"
  by (simp add: wasm_walk.simps)

lemma walk_quiet:
  assumes q: "wasm_quiet W eff"
  shows "\<lbrakk>chain (wasm_nxt w) cur ps; map (node_adapter w) ps = map Some as; \<forall>a \<in> set as. wasm_adapters w a \<noteq> None\<rbrakk> \<Longrightarrow>
    wasm_walk W retp arg cur n w =
      Some (w\<lparr>wasm_bufs := fold (\<lambda>f. eff f retp arg) (callbacks w as) (wasm_bufs w),
              g_xy_last_ran := if callbacks w as = [] then g_xy_last_ran w else n + length (callbacks w as)\<rparr>)"
proof (induction ps arbitrary: cur as n w)
  case Nil
  then show ?case by (simp add: wasm_walk_None callbacks_def map_filter_simps)
next
  case (Cons p ps)
  obtain y where y: "cur = Some p" "wasm_nxt w p = Some y" "chain (wasm_nxt w) y ps" using Cons.prems(1) by auto
  obtain a as' where as: "as = a # as'" "node_adapter w p = Some a" "map (node_adapter w) ps = map Some as'"
    using Cons.prems(2) by auto
  obtain l where l: "wasm_nodes w p = Some l" "wl_next l = y" "wl_adapter l = Some a"
    using y(2) as(2) by (auto simp: wasm_nxt_def node_adapter_def)
  obtain ad where ad: "wasm_adapters w a = Some ad" using Cons.prems(3) as by auto
  have rest: "\<forall>a \<in> set as'. wasm_adapters w a \<noteq> None" using Cons.prems(3) as by simp
  show ?case
  proof (cases "ad_call ad")
    case None
    then have "wasm_walk W retp arg cur n w = wasm_walk W retp arg y n w"
      by (subst wasm_walk.simps) (simp add: y(1) l ad)
    moreover have "callbacks w as = callbacks w as'" using None ad by (simp add: callbacks_def as map_filter_simps)
    ultimately show ?thesis using Cons.IH [OF y(3) as(3) rest] by simp
  next
    case (Some f)
    let ?w1 = "w\<lparr>wasm_bufs := eff f retp arg (wasm_bufs w), g_xy_last_ran := Suc n\<rparr>"
    have "wasm_call W f retp arg w = Some (w\<lparr>wasm_bufs := eff f retp arg (wasm_bufs w)\<rparr>)" using q by (simp add: wasm_quiet_def)
    then have step: "wasm_walk W retp arg cur n w = wasm_walk W retp arg y (Suc n) ?w1"
      using Some by (subst wasm_walk.simps) (simp add: y(1) l ad)
    have same: "wasm_nxt ?w1 = wasm_nxt w" "node_adapter ?w1 = node_adapter w"
      by (auto simp: wasm_nxt_def node_adapter_def fun_eq_iff)
    have cb: "callbacks w as = f # callbacks w as'" "callbacks ?w1 as' = callbacks w as'"
      using Some ad by (simp_all add: callbacks_def as map_filter_simps)
    have "wasm_walk W retp arg y (Suc n) ?w1 =
        Some (?w1\<lparr>wasm_bufs := fold (\<lambda>f. eff f retp arg) (callbacks ?w1 as') (wasm_bufs ?w1),
              g_xy_last_ran := if callbacks ?w1 as' = [] then g_xy_last_ran ?w1 else Suc n + length (callbacks ?w1 as')\<rparr>)"
      by (rule Cons.IH) (use y(3) as(3) rest same in simp_all)
    then show ?thesis by (simp add: step cb)
  qed
qed

lemma hook_of_represented:
  assumes rep: "represents w rs" and i: "i < length rs" "fst (rs ! i) = ad_name ad"
  shows "fst (wasm_hook_of r ad w) = Some i \<and>
    (snd (wasm_hook_of r ad w) = w \<or> snd (wasm_hook_of r ad w) = set_hook_id r (int i) w)"
proof -
  obtain L where lay: "laid_out w L rs" using rep by (auto simp: represents_def)
  have names: "map ws_name (g_xy_hooks w) = map fst rs" using lay by (simp add: laid_out_def)
  have len: "length (g_xy_hooks w) = length rs" by (rule laid_out_len [OF lay])
  have at: "ws_name (g_xy_hooks w ! j) = fst (rs ! j)" if "j < length rs" for j
    using that names len by (metis nth_map)
  have uniq: "j = i" if "j < length rs" "fst (rs ! j) = ad_name ad" for j
    using that i rep nth_eq_iff_index_eq [of "map fst rs" j i] by (simp add: represents_def)
  obtain k where k: "wasm_find (g_xy_hooks w) (ad_name ad) = Some k"
    using hooks.scan_complete [of "g_xy_hooks w ! i" "g_xy_hooks w" "ad_name ad"] at [OF i(1)] i len by auto
  then have "k = i" using hooks.scan_hit [OF k] uniq at len by auto
  moreover have "nat (ad_hook_id ad) = i" if "\<not> nat (ad_hook_id ad) \<ge> length (g_xy_hooks w)"
      "ws_name (g_xy_hooks w ! nat (ad_hook_id ad)) = ad_name ad"
    using that uniq at len by simp
  ultimately show ?thesis using k by (auto simp: wasm_hook_of_def Let_def)
qed

text \<open>
  C28. A call runs every listener of its hook exactly once, in registration order, each on the
  buffers the one before left, and counts those that have code; the table is as before. The
  hook is the one of the adapter's name, whatever \<^verbatim>\<open>hook_id\<close> the adapter carried. So does
  \<^verbatim>\<open>xy_call_self\<close>, which the native library confines to the caller's own region.
\<close>

theorem wasm_call_runs_all:
  assumes rep: "represents w rs" and r: "wasm_adapters w r = Some ad"
    and hk: "(ad_name ad, as) \<in> set rs" and q: "wasm_quiet W eff"
  shows "\<exists>w'. wasm_xy_call W retp (Some r) arg w = Some (XY_OK, w') \<and>
    wasm_xy_call_self W retp (Some r) arg w = Some (XY_OK, w') \<and> represents w' rs \<and>
    wasm_bufs w' = fold (\<lambda>f. eff f retp arg) (callbacks w as) (wasm_bufs w) \<and>
    g_xy_last_ran w' = length (callbacks w as) \<and> g_xy_err w' = XY_OK"
proof -
  obtain L where lay: "laid_out w L rs" using rep by (auto simp: represents_def)
  obtain i where i: "i < length rs" "rs ! i = (ad_name ad, as)" using hk by (auto simp: in_set_conv_nth)
  obtain w1 where w1: "wasm_hook_of r ad w = (Some i, w1)" "w1 = w \<or> w1 = set_hook_id r (int i) w"
    using hook_of_represented [OF rep i(1), of ad r] i(2) by (cases "wasm_hook_of r ad w") auto
  have same: "g_xy_hooks w1 = g_xy_hooks w" "wasm_nodes w1 = wasm_nodes w" "wasm_next w1 = wasm_next w"
      "wasm_bufs w1 = wasm_bufs w" "\<And>b. (wasm_adapters w1 b = None) = (wasm_adapters w b = None)"
      "\<And>b. wasm_adapters w1 b \<bind> ad_call = wasm_adapters w b \<bind> ad_call"
    using w1(2) set_hook_id_call [of r "int i" w] by auto
  let ?w2 = "w1\<lparr>g_xy_current_adapter := Some r, g_xy_last_retp := retp, g_xy_last_ran := 0\<rparr>"
  have nf: "wasm_nxt ?w2 = wasm_nxt w" "node_adapter ?w2 = node_adapter w"
    using same(2) by (auto simp: wasm_nxt_def node_adapter_def fun_eq_iff)
  have li: "L ! i \<noteq> []" "chain (wasm_nxt w) (ws_listeners (g_xy_hooks w ! i)) (L ! i)"
      "map (node_adapter w) (L ! i) = map Some as"
    using lay i by (auto simp: laid_out_def)
  then obtain l where l: "ws_listeners (g_xy_hooks w ! i) = Some l" by (cases "L ! i") auto
  have alloc: "\<forall>a \<in> set as. wasm_adapters w a \<noteq> None" using rep hk by (auto simp: represents_def)
  have cb: "callbacks ?w2 as = callbacks w as" by (rule callbacks_cong) (simp add: same(6))
  define w3 where "w3 = ?w2\<lparr>wasm_bufs := fold (\<lambda>f. eff f retp arg) (callbacks w as) (wasm_bufs w),
      g_xy_last_ran := length (callbacks w as)\<rparr>"
  have "wasm_walk W retp arg (Some l) 0 ?w2 = Some w3"
    using walk_quiet [OF q, of ?w2 "Some l" "L ! i" as retp arg 0] li l alloc nf same
    by (simp add: cb w3_def)
  then have call: "wasm_xy_call W retp (Some r) arg w = Some (wasm_fail XY_OK w3)"
    using r w1(1) l same(1) by (simp add: wasm_xy_call_def)
  have "laid_out (w3\<lparr>g_xy_err := XY_OK\<rparr>) L rs" by (rule laid_out_cong [OF lay]) (simp_all add: w3_def same)
  then have "represents (w3\<lparr>g_xy_err := XY_OK\<rparr>) rs"
    using rep same(5) by (auto simp: represents_def w3_def)
  then show ?thesis using call by (auto simp: wasm_fail_def wasm_xy_call_self_def w3_def)
qed

theorem wasm_call_runs_all_witness:
  "\<exists>w'. wasm_xy_call demo_wasm_env None (Some 2) None demo_wasm_two = Some (XY_OK, w') \<and>
     wasm_bufs w' = [11 \<mapsto> [1], 12 \<mapsto> [1]] \<and> g_xy_last_ran w' = 2"
proof -
  have ad: "wasm_adapters demo_wasm_two 2 = Some \<lparr>ad_name = ''on_tick'', ad_arg_size = 0, ad_ret_size = 4, ad_call = Some 12, ad_hook_id = 0\<rparr>"
    by (simp add: demo_wasm_two_def demo_wasm_def wasm_init_def)
  have q: "wasm_quiet demo_wasm_env demo_listener_code" by (simp add: wasm_quiet_def demo_wasm_env_def)
  have cb: "callbacks demo_wasm_two [1, 2] = [11, 12]"
    by (simp add: callbacks_def map_filter_simps demo_wasm_two_def demo_wasm_def wasm_init_def)
  show ?thesis
    using wasm_call_runs_all [OF demo_wasm_two_rep ad _ q, where as = "[1, 2]" and retp = None and arg = None] cb
    by (fastforce simp: demo_listener_code_def demo_wasm_two_def demo_wasm_def wasm_init_def)
qed

text \<open>
  C38. A name of 64 characters or more is stored cut to 63 but looked up whole, so it is never
  found: every registration opens a further hook with the same stored name, and two
  adapters registered under it get different ids.
\<close>

theorem wasm_long_name_splits:
  assumes nm: "64 \<le> length nm" and short: "\<forall>h \<in> set (g_xy_hooks w). length (ws_name h) \<le> 63"
    and room: "length (g_xy_hooks w) \<le> 254"
    and ad: "wasm_adapters w a = Some ad" "ad_ret_size ad \<le> 4096" "wasm_adapters w b = Some bd" "ad_ret_size bd \<le> 4096"
    and mem: "\<forall>v. wasm_malloc_ok W v"
  shows "\<exists>w1 w2 n. wasm_xy_areg W (Some nm) (Some a) w = Some (word_of_nat n, w1) \<and>
    wasm_xy_areg W (Some nm) (Some b) w1 = Some (word_of_nat (Suc n), w2) \<and>
    length (g_xy_hooks w2) = Suc (Suc n) \<and>
    ws_name (g_xy_hooks w2 ! n) = take 63 nm \<and> ws_name (g_xy_hooks w2 ! Suc n) = take 63 nm"
proof -
  have miss: "wasm_find hs nm = None" if "\<forall>h \<in> set hs. length (ws_name h) \<le> 63" for hs
    using that nm hooks.scan_miss [of hs nm] by fastforce
  have one: "\<exists>w1. wasm_xy_areg W (Some nm) (Some c) v = Some (word_of_nat (length (g_xy_hooks v)), w1) \<and>
      map ws_name (g_xy_hooks w1) = map ws_name (g_xy_hooks v) @ [take 63 nm] \<and>
      (\<forall>x. map_option ad_ret_size (wasm_adapters w1 x) = map_option ad_ret_size (wasm_adapters v x))"
    if "\<forall>h \<in> set (g_xy_hooks v). length (ws_name h) \<le> 63" "length (g_xy_hooks v) \<le> 255"
      "map_option ad_ret_size (wasm_adapters v c) = Some n" "n \<le> 4096" for v c n
    using that miss [OF that(1)] mem
    by (auto simp: wasm_xy_areg_def XY_WASM_MAX_HOOKS_def XY_MAX_RET_SIZE_def Let_def wasm_new_def
        list_update_append nth_append set_hook_id_def)
  obtain w1 where w1: "wasm_xy_areg W (Some nm) (Some a) w = Some (word_of_nat (length (g_xy_hooks w)), w1)"
      "map ws_name (g_xy_hooks w1) = map ws_name (g_xy_hooks w) @ [take 63 nm]"
      "\<forall>x. map_option ad_ret_size (wasm_adapters w1 x) = map_option ad_ret_size (wasm_adapters w x)"
    using one [OF short, of a "ad_ret_size ad"] room ad by auto
  have n1: "length (g_xy_hooks w1) = Suc (length (g_xy_hooks w))" using arg_cong [OF w1(2), of length] by simp
  have "ws_name ` set (g_xy_hooks w1) = insert (take 63 nm) (ws_name ` set (g_xy_hooks w))"
    using arg_cong [OF w1(2), of set] by simp
  then have "\<forall>h \<in> set (g_xy_hooks w1). length (ws_name h) \<le> 63" using short by (metis (no_types, lifting) imageE image_eqI insertE length_take min.cobounded2)
  from one [OF this, of b "ad_ret_size bd"] n1 room ad w1(3) obtain w2 where
    w2: "wasm_xy_areg W (Some nm) (Some b) w1 = Some (word_of_nat (length (g_xy_hooks w1)), w2)"
      "map ws_name (g_xy_hooks w2) = map ws_name (g_xy_hooks w1) @ [take 63 nm]" by auto
  have n2: "length (g_xy_hooks w2) = Suc (Suc (length (g_xy_hooks w)))" using arg_cong [OF w2(2), of length] n1 by simp
  have "ws_name (g_xy_hooks w2 ! j) = (map ws_name (g_xy_hooks w) @ [take 63 nm, take 63 nm]) ! j" if "j < length (g_xy_hooks w2)" for j
    using nth_map [OF that, of ws_name] w1(2) w2(2) by simp
  then show ?thesis using w1(1) w2(1) n1 n2 by (auto simp: nth_append intro!: exI [of _ "length (g_xy_hooks w)"])
qed

theorem wasm_long_name_splits_witness:
  "\<exists>w1 w2 n. wasm_xy_areg demo_wasm_env (Some (replicate 64 (CHR ''a''))) (Some 1) demo_wasm = Some (word_of_nat n, w1) \<and>
     wasm_xy_areg demo_wasm_env (Some (replicate 64 (CHR ''a''))) (Some 2) w1 = Some (word_of_nat (Suc n), w2)"
  using wasm_long_name_splits [of "replicate 64 (CHR ''a'')" demo_wasm 1 _ 2 _ demo_wasm_env]
  by (fastforce simp: demo_wasm_def wasm_init_def demo_wasm_env_def)

end
