(* ===== verification/Xy_Watch.thy ===== *)
theory Xy_Watch
  imports Xy_Load
begin

text \<open>
  The file watcher, from \<^verbatim>\<open>src/libxylem-watch.c\<close>: the table of watched names, the calls that start
  and stop the background thread, and the thread itself. Everything that happens under the
  mutex \<^verbatim>\<open>g_mu\<close> is one step; the thread's program counter says where it stands between two
  steps, so that the steps of all threads interleave freely.

  The kernel (\<^verbatim>\<open>inotify\<close>, \<^verbatim>\<open>pipe\<close>, \<^verbatim>\<open>pthread_create\<close>) is a parameter with a state of its own. What
  \<^verbatim>\<open>select\<close> and \<^verbatim>\<open>read\<close> answer is an input of the step.
\<close>

section \<open>State\<close>

record watch_entry =
  we_fname :: string
  we_wd :: int

record inotify_event =
  ie_wd :: int
  ie_mask :: u32

record 'k kernel =
  k_inotify_init :: "'k \<Rightarrow> int \<times> 'k"
  k_pipe :: "'k \<Rightarrow> (int \<times> int) option \<times> 'k"
  k_add_watch :: "'k \<Rightarrow> int \<Rightarrow> string \<Rightarrow> int \<times> 'k"
  k_rm_watch :: "'k \<Rightarrow> int \<Rightarrow> int \<Rightarrow> 'k"
  k_thread_ok :: "'k \<Rightarrow> bool"
  k_strdup_ok :: "'k \<Rightarrow> bool"

text \<open>Where a thread stands: before \<^verbatim>\<open>select\<close>, in it with the descriptors it was given, before \<^verbatim>\<open>read\<close>,
  with unprocessed events, with a name to reload, or returned.\<close>

datatype wpc =
    W_Top | W_Select int int | W_Read | W_Events "inotify_event list"
  | W_Reload string "inotify_event list" | W_Done

text \<open>
  The globals; the threads created so far, by number; the read ends of pipes that hold the stop
  byte; the calls of \<^verbatim>\<open>xy_watch_stop\<close> that wait for a thread; the kernel; and the library as the
  watcher thread sees it, whose thread-local region is that thread's own. \<^verbatim>\<open>g_pipe_r\<close> and \<^verbatim>\<open>g_pipe_w\<close> are only
  set together, so that a byte written to \<^verbatim>\<open>g_pipe_w\<close> arrives at \<^verbatim>\<open>g_pipe_r\<close>. A new pipe is empty.
\<close>

record ('h, 'k) watcher =
  g_ifd :: int
  g_running :: bool
  g_entries :: "watch_entry list"
  g_pipe_r :: int
  g_pipe_w :: int
  g_thread :: nat
  w_threads :: "wpc list"
  w_bytes :: "int set"
  w_waiting :: nat
  w_kern :: 'k
  w_lib :: "'h xy_state"

definition XY_WATCH_MAX :: nat where "XY_WATCH_MAX = 256"
definition IN_CLOSE_WRITE :: u32 where "IN_CLOSE_WRITE = 8"
definition IN_MOVED_TO :: u32 where "IN_MOVED_TO = 128"
definition XY_WATCH_MASK :: u32 where "XY_WATCH_MASK = IN_CLOSE_WRITE OR IN_MOVED_TO"

text \<open>The static initialisers.\<close>

definition watch_init :: "'k \<Rightarrow> 'h xy_state \<Rightarrow> ('h, 'k) watcher" where
  "watch_init k s =
     \<lparr>g_ifd = -1, g_running = False, g_entries = [], g_pipe_r = -1, g_pipe_w = -1, g_thread = 0,
      w_threads = [], w_bytes = {}, w_waiting = 0, w_kern = k, w_lib = s\<rparr>"


section \<open>The table of names\<close>

text \<open>\<^verbatim>\<open>snprintf(buf, buf_len, "%s.so", fname)\<close>, refused when it would not fit with its NUL.\<close>

definition make_so_path :: "string \<Rightarrow> nat \<Rightarrow> string option" where
  "make_so_path fname buf_len =
     (let n = length fname + 3 in if n \<ge> buf_len then None else Some (fname @ ''.so''))"

text \<open>The index loops; \<^const>\<open>None\<close> is the \<open>-1\<close>.\<close>

fun entry_find :: "watch_entry list \<Rightarrow> string \<Rightarrow> nat option" where
  "entry_find [] fname = None"
| "entry_find (e # es) fname =
     (if we_fname e = fname then Some 0 else map_option Suc (entry_find es fname))"

fun entry_find_by_wd :: "watch_entry list \<Rightarrow> int \<Rightarrow> nat option" where
  "entry_find_by_wd [] wd = None"
| "entry_find_by_wd (e # es) wd =
     (if we_wd e = wd then Some 0 else map_option Suc (entry_find_by_wd es wd))"

definition entry_rewatch :: "'k kernel \<Rightarrow> nat \<Rightarrow> ('h, 'k) watcher \<Rightarrow> ('h, 'k) watcher" where
  "entry_rewatch K i w =
     (if g_ifd w < 0 then w
      else case make_so_path (we_fname (g_entries w ! i)) 4096 of
        None \<Rightarrow> w
      | Some path \<Rightarrow>
          (let (wd, k) = k_add_watch K (w_kern w) (g_ifd w) path
           in w\<lparr>g_entries := (g_entries w)[i := (g_entries w ! i)\<lparr>we_wd := wd\<rparr>], w_kern := k\<rparr>))"

text \<open>\<^verbatim>\<open>for (i = 0; i < g_entry_count; i++) entry_rewatch(i);\<close>\<close>

fun rewatch_all :: "'k kernel \<Rightarrow> nat \<Rightarrow> nat \<Rightarrow> ('h, 'k) watcher \<Rightarrow> ('h, 'k) watcher" where
  "rewatch_all K i 0 w = w"
| "rewatch_all K i (Suc n) w = rewatch_all K (Suc i) n (entry_rewatch K i w)"


section \<open>The calls\<close>

definition xy_watch_start :: "'k kernel \<Rightarrow> ('h, 'k) watcher \<Rightarrow> int \<times> ('h, 'k) watcher" where
  "xy_watch_start K w =
     (if g_running w then (0, w)
      else let (ifd, k1) = k_inotify_init K (w_kern w);
               w1 = w\<lparr>g_ifd := ifd, w_kern := k1\<rparr>
           in if ifd < 0 then (-1, w1)
              else let (p, k2) = k_pipe K (w_kern w1); w2 = w1\<lparr>w_kern := k2\<rparr>
                   in case p of
                        None \<Rightarrow> (-1, w2\<lparr>g_ifd := -1\<rparr>)
                      | Some (r, wr) \<Rightarrow>
                          (let w3 = w2\<lparr>g_pipe_r := r, g_pipe_w := wr, w_bytes := w_bytes w2 - {r}\<rparr>;
                               w4 = rewatch_all K 0 (length (g_entries w3)) w3
                           in if \<not> k_thread_ok K (w_kern w4)
                              then (-1, w4\<lparr>g_ifd := -1, g_pipe_r := -1, g_pipe_w := -1\<rparr>)
                              else (0, w4\<lparr>g_thread := length (w_threads w4),
                                          w_threads := w_threads w4 @ [W_Top], g_running := True\<rparr>)))"

text \<open>
  \<^verbatim>\<open>xy_watch_stop\<close> holds the mutex twice: to wake the thread, and, after \<^verbatim>\<open>pthread_join\<close>, to close
  the descriptors. In between every other call can run. The result of the first part says
  whether there is a second.
\<close>

definition watch_stop_signal :: "('h, 'k) watcher \<Rightarrow> bool \<times> ('h, 'k) watcher" where
  "watch_stop_signal w =
     (if \<not> g_running w then (False, w)
      else (True, w\<lparr>w_bytes := insert (g_pipe_r w) (w_bytes w), g_running := False,
                   w_waiting := Suc (w_waiting w)\<rparr>))"

definition watch_stop_close :: "('h, 'k) watcher \<Rightarrow> ('h, 'k) watcher" where
  "watch_stop_close w =
     w\<lparr>g_ifd := -1, g_pipe_r := -1, g_pipe_w := -1,
       g_entries := map (\<lambda>e. e\<lparr>we_wd := -1\<rparr>) (g_entries w), w_waiting := w_waiting w - 1\<rparr>"

text \<open>\<^verbatim>\<open>ENOMEM\<close> and a refused \<^verbatim>\<open>strdup\<close> are \<open>-1\<close>, a duplicate is 0.\<close>

definition xy_watch_add :: "'k kernel \<Rightarrow> string option \<Rightarrow> ('h, 'k) watcher \<Rightarrow> int \<times> ('h, 'k) watcher" where
  "xy_watch_add K fname w =
     (case fname of
        None \<Rightarrow> (-1, w)
      | Some f \<Rightarrow>
          if entry_find (g_entries w) f \<noteq> None then (0, w)
          else if length (g_entries w) \<ge> XY_WATCH_MAX then (-1, w)
          else if \<not> k_strdup_ok K (w_kern w) then (-1, w)
          else let idx = length (g_entries w);
                   w1 = w\<lparr>g_entries := g_entries w @ [\<lparr>we_fname = f, we_wd = -1\<rparr>]\<rparr>
               in (0, if g_ifd w1 \<ge> 0 then entry_rewatch K idx w1 else w1))"

text \<open>The loop that compacts the array.\<close>

fun compact :: "nat \<Rightarrow> watch_entry list \<Rightarrow> watch_entry list" where
  "compact i [] = []"
| "compact 0 (e # es) = es"
| "compact (Suc i) (e # es) = e # compact i es"

definition xy_watch_remove :: "'k kernel \<Rightarrow> string option \<Rightarrow> ('h, 'k) watcher \<Rightarrow> ('h, 'k) watcher" where
  "xy_watch_remove K fname w =
     (case fname of
        None \<Rightarrow> w
      | Some f \<Rightarrow>
          (case entry_find (g_entries w) f of
             None \<Rightarrow> w
           | Some idx \<Rightarrow>
               (let wd = we_wd (g_entries w ! idx);
                    w1 = (if g_ifd w \<ge> 0 \<and> wd \<ge> 0 then w\<lparr>w_kern := k_rm_watch K (w_kern w) (g_ifd w) wd\<rparr> else w)
                in w1\<lparr>g_entries := compact idx (g_entries w1)\<rparr>)))"


section \<open>The thread\<close>

text \<open>What \<^verbatim>\<open>select\<close> answers: interrupted, failed, or the descriptors that are ready; and \<^verbatim>\<open>read\<close>.\<close>

datatype sel_answer = Sel_Intr | Sel_Fail | Sel_Ready "int set"
datatype read_answer = Read_Intr | Read_Fail | Read_Got "inotify_event list"

definition sel_step :: "int \<Rightarrow> int \<Rightarrow> sel_answer \<Rightarrow> ('h, 'k) watcher \<Rightarrow> wpc" where
  "sel_step ifd pr a w =
     (case a of
        Sel_Intr \<Rightarrow> W_Top
      | Sel_Fail \<Rightarrow> W_Done
      | Sel_Ready fds \<Rightarrow>
          if g_pipe_r w \<in> fds then W_Done
          else if g_ifd w \<notin> fds then W_Top
          else W_Read)"

definition read_step :: "read_answer \<Rightarrow> wpc" where
  "read_step a = (case a of Read_Intr \<Rightarrow> W_Top | Read_Fail \<Rightarrow> W_Done | Read_Got evs \<Rightarrow> W_Events evs)"

text \<open>One event: find its entry, watch the file again after a rename, and take a copy of the name.\<close>

definition event_step ::
  "'k kernel \<Rightarrow> inotify_event \<Rightarrow> inotify_event list \<Rightarrow> ('h, 'k) watcher \<Rightarrow> wpc \<times> ('h, 'k) watcher" where
  "event_step K ev evs w =
     (if ie_mask ev AND XY_WATCH_MASK = 0 then (W_Events evs, w)
      else case entry_find_by_wd (g_entries w) (ie_wd ev) of
        None \<Rightarrow> (W_Events evs, w)
      | Some idx \<Rightarrow>
          (let copy = (if k_strdup_ok K (w_kern w) then Some (we_fname (g_entries w ! idx)) else None);
               w1 = (if ie_mask ev AND IN_MOVED_TO \<noteq> 0 then entry_rewatch K idx w else w)
           in (case copy of None \<Rightarrow> W_Events evs | Some f \<Rightarrow> W_Reload f evs, w1)))"

definition set_pc :: "nat \<Rightarrow> wpc \<Rightarrow> ('h, 'k) watcher \<Rightarrow> ('h, 'k) watcher" where
  "set_pc t pc w = w\<lparr>w_threads := (w_threads w)[t := pc]\<rparr>"

text \<open>\<^verbatim>\<open>evbuf\<close> has 4096 bytes, an event at least 16.\<close>

definition EVBUF_EVENTS :: nat where "EVBUF_EVENTS = 256"

text \<open>
  A \<^verbatim>\<open>select\<close> on a pipe that holds a byte cannot answer that this pipe is not ready.
\<close>

inductive thread_step ::
  "'h env \<Rightarrow> 'k kernel \<Rightarrow> nat \<Rightarrow> ('h, 'k) watcher \<Rightarrow> ('h, 'k) watcher \<Rightarrow> bool"
  for E :: "'h env" and K :: "'k kernel" and t :: nat where
  ts_enter: "t < length (w_threads w) \<Longrightarrow> w_threads w ! t = W_Top \<Longrightarrow>
     thread_step E K t w (set_pc t (W_Select (g_ifd w) (g_pipe_r w)) w)"
| ts_select: "t < length (w_threads w) \<Longrightarrow> w_threads w ! t = W_Select ifd pr \<Longrightarrow>
     (\<And>fds. a = Sel_Ready fds \<Longrightarrow> fds \<subseteq> {ifd, pr} \<and> fds \<noteq> {} \<and> (pr \<in> w_bytes w \<longrightarrow> pr \<in> fds)) \<Longrightarrow>
     thread_step E K t w (set_pc t (sel_step ifd pr a w) w)"
| ts_read: "t < length (w_threads w) \<Longrightarrow> w_threads w ! t = W_Read \<Longrightarrow>
     (\<And>evs. a = Read_Got evs \<Longrightarrow> length evs \<le> EVBUF_EVENTS) \<Longrightarrow>
     thread_step E K t w (set_pc t (read_step a) w)"
| ts_drained: "t < length (w_threads w) \<Longrightarrow> w_threads w ! t = W_Events [] \<Longrightarrow>
     thread_step E K t w (set_pc t W_Top w)"
| ts_event: "t < length (w_threads w) \<Longrightarrow> w_threads w ! t = W_Events (ev # evs) \<Longrightarrow>
     event_step K ev evs w = (pc, w') \<Longrightarrow> thread_step E K t w (set_pc t pc w')"
| ts_reload: "t < length (w_threads w) \<Longrightarrow> w_threads w ! t = W_Reload f evs \<Longrightarrow>
     xy_reload E f (w_lib w) = Some (rc, s') \<Longrightarrow>
     thread_step E K t w (set_pc t (W_Events evs) (w\<lparr>w_lib := s'\<rparr>))"

text \<open>
  The steps of the whole process. A call of \<^verbatim>\<open>xy_watch_start\<close> while an \<^verbatim>\<open>xy_watch_stop\<close> is waiting
  is possible in the code (\<open>racy\<close>); a caller that keeps the two calls apart has \<^const>\<open>False\<close>
  there.
\<close>

inductive watch_step ::
  "bool \<Rightarrow> 'h env \<Rightarrow> 'k kernel \<Rightarrow> ('h, 'k) watcher \<Rightarrow> ('h, 'k) watcher \<Rightarrow> bool"
  for racy :: bool and E :: "'h env" and K :: "'k kernel" where
  ws_start: "racy \<or> w_waiting w = 0 \<Longrightarrow> watch_step racy E K w (snd (xy_watch_start K w))"
| ws_stop: "watch_stop_signal w = (b, w') \<Longrightarrow> watch_step racy E K w w'"
| ws_close: "0 < w_waiting w \<Longrightarrow> g_thread w < length (w_threads w) \<Longrightarrow> w_threads w ! g_thread w = W_Done \<Longrightarrow>
     watch_step racy E K w (watch_stop_close w)"
| ws_add: "watch_step racy E K w (snd (xy_watch_add K f w))"
| ws_remove: "watch_step racy E K w (xy_watch_remove K f w)"
| ws_thread: "thread_step E K t w w' \<Longrightarrow> watch_step racy E K w w'"

inductive_cases thread_stepE: "thread_step E K t w w'"
inductive_cases watch_stepE: "watch_step racy E K w w'"

end
