(* ===== verification/Xy_Watch_Props.thy ===== *)
theory Xy_Watch_Props
  imports Xy_Watch Xy_Instance
begin

text \<open>
  What the watcher keeps, under the discipline that \<^verbatim>\<open>xy_watch_start\<close> is not called while an
  \<^verbatim>\<open>xy_watch_stop\<close> is waiting, and what happens without it.
\<close>

section \<open>The two scans\<close>

lemma entry_find_eq: "entry_find es f = first_index (\<lambda>e. we_fname e = f) es"
  by (induction es) auto

lemma entry_find_by_wd_eq: "entry_find_by_wd es d = first_index (\<lambda>e. we_wd e = d) es"
  by (induction es) auto

interpretation names: first_match entry_find "\<lambda>es. es" "\<lambda>f e. we_fname e = f"
  by unfold_locales (rule entry_find_eq)

interpretation wds: first_match entry_find_by_wd "\<lambda>es. es" "\<lambda>d e. we_wd e = d"
  by unfold_locales (rule entry_find_by_wd_eq)


section \<open>Names\<close>

text \<open>The names that are watched, in the order they were added.\<close>

definition watched :: "('h, 'k) watcher \<Rightarrow> string list" where
  "watched w = map we_fname (g_entries w)"

lemma watched_upd:
  "watched (w\<lparr>g_ifd := a\<rparr>) = watched w" "watched (w\<lparr>g_pipe_r := a\<rparr>) = watched w"
  "watched (w\<lparr>g_pipe_w := a\<rparr>) = watched w" "watched (w\<lparr>g_thread := b\<rparr>) = watched w"
  "watched (w\<lparr>w_threads := c\<rparr>) = watched w" "watched (w\<lparr>g_running := e\<rparr>) = watched w"
  "watched (w\<lparr>w_kern := k\<rparr>) = watched w" "watched (w\<lparr>w_lib := l\<rparr>) = watched w"
  "watched (w\<lparr>w_bytes := bs\<rparr>) = watched w" "watched (w\<lparr>w_waiting := b\<rparr>) = watched w"
  by (simp_all add: watched_def)

lemma entry_find_None: "entry_find es f = None \<longleftrightarrow> f \<notin> we_fname ` set es"
  using names.scan_miss [of es f] by auto

lemma names_set_wd [simp]: "map we_fname (es[i := (es ! i)\<lparr>we_wd := d\<rparr>]) = map we_fname es"
  by (cases "i < length es") (auto simp: nth_list_update intro: nth_equalityI)

lemma rewatch_names: "map we_fname (g_entries (entry_rewatch K i w)) = map we_fname (g_entries w)"
  by (auto simp: entry_rewatch_def split: option.splits prod.splits)

lemma rewatch_watched: "watched (entry_rewatch K i w) = watched w"
  by (simp add: watched_def rewatch_names)

lemma entry_find_watched: "entry_find (g_entries w) f = None \<longleftrightarrow> f \<notin> set (watched w)"
  by (simp add: entry_find_None watched_def)

lemma watched_len: "length (g_entries w) = length (watched w)"
  by (simp add: watched_def)

lemma rewatch_frame:
  "w_threads (entry_rewatch K i w) = w_threads w" "g_running (entry_rewatch K i w) = g_running w"
  "g_ifd (entry_rewatch K i w) = g_ifd w" "g_pipe_r (entry_rewatch K i w) = g_pipe_r w"
  "g_thread (entry_rewatch K i w) = g_thread w" "w_bytes (entry_rewatch K i w) = w_bytes w"
  "w_waiting (entry_rewatch K i w) = w_waiting w" "w_lib (entry_rewatch K i w) = w_lib w"
  "g_pipe_w (entry_rewatch K i w) = g_pipe_w w" "length (g_entries (entry_rewatch K i w)) = length (g_entries w)"
  by (simp_all add: entry_rewatch_def split: option.splits prod.splits)

lemma rewatch_all_frame:
  "w_threads (rewatch_all K i n w) = w_threads w" "g_running (rewatch_all K i n w) = g_running w"
  "g_ifd (rewatch_all K i n w) = g_ifd w" "g_pipe_r (rewatch_all K i n w) = g_pipe_r w"
  "g_thread (rewatch_all K i n w) = g_thread w" "w_bytes (rewatch_all K i n w) = w_bytes w"
  "w_waiting (rewatch_all K i n w) = w_waiting w" "w_lib (rewatch_all K i n w) = w_lib w"
  "map we_fname (g_entries (rewatch_all K i n w)) = map we_fname (g_entries w)"
  by (induction n arbitrary: i w) (simp_all add: rewatch_frame rewatch_names)

lemma compact_eq: "i < length es \<Longrightarrow> compact i es = take i es @ drop (Suc i) es"
  by (induction i es rule: compact.induct) auto

lemma remove_names:
  assumes "distinct (watched w)"
  shows "watched (xy_watch_remove K (Some f) w) = removeAll f (watched w)"
proof (cases "entry_find (g_entries w) f")
  case None
  then show ?thesis by (auto simp: xy_watch_remove_def watched_def entry_find_None [symmetric] intro: removeAll_id [symmetric])
next
  case (Some i)
  let ?es = "g_entries w"
  have i: "i < length ?es" "we_fname (?es ! i) = f" using names.scan_hit [OF Some] by auto
  have "watched (xy_watch_remove K (Some f) w) = map we_fname (take i ?es @ drop (Suc i) ?es)"
    using Some compact_eq [OF i(1)] by (simp add: xy_watch_remove_def watched_def Let_def)
  moreover have es: "?es = take i ?es @ ?es ! i # drop (Suc i) ?es" using i(1) by (rule id_take_nth_drop)
  have "f \<notin> set (map we_fname (take i ?es @ drop (Suc i) ?es))"
    using assms i(2) unfolding watched_def by (subst (asm) es) auto
  then have "removeAll f (watched w) = map we_fname (take i ?es @ drop (Suc i) ?es)"
    using i(2) unfolding watched_def by (subst es) (auto simp: removeAll_id)
  ultimately show ?thesis by simp
qed

lemma add_names:
  "watched (snd (xy_watch_add K (Some f) w)) =
     (if f \<in> set (watched w) \<or> 256 \<le> length (watched w) \<or> \<not> k_strdup_ok K (w_kern w) then watched w
      else watched w @ [f])"
  "fst (xy_watch_add K (Some f) w) =
     (if f \<in> set (watched w) then 0 else if 256 \<le> length (watched w) \<or> \<not> k_strdup_ok K (w_kern w) then -1 else 0)"
  by (cases "f \<in> set (watched w)";
      simp add: xy_watch_add_def entry_find_watched rewatch_watched Let_def XY_WATCH_MAX_def watched_len;
      simp add: watched_def)+

lemma add_frame:
  "w_threads (snd (xy_watch_add K f w)) = w_threads w" "g_running (snd (xy_watch_add K f w)) = g_running w"
  "g_ifd (snd (xy_watch_add K f w)) = g_ifd w" "g_pipe_r (snd (xy_watch_add K f w)) = g_pipe_r w"
  "g_thread (snd (xy_watch_add K f w)) = g_thread w" "w_bytes (snd (xy_watch_add K f w)) = w_bytes w"
  "w_waiting (snd (xy_watch_add K f w)) = w_waiting w"
  by (simp_all add: xy_watch_add_def rewatch_frame Let_def split: option.splits)

lemma remove_frame:
  "w_threads (xy_watch_remove K f w) = w_threads w" "g_running (xy_watch_remove K f w) = g_running w"
  "g_ifd (xy_watch_remove K f w) = g_ifd w" "g_pipe_r (xy_watch_remove K f w) = g_pipe_r w"
  "g_thread (xy_watch_remove K f w) = g_thread w" "w_bytes (xy_watch_remove K f w) = w_bytes w"
  "w_waiting (xy_watch_remove K f w) = w_waiting w"
  by (simp_all add: xy_watch_remove_def Let_def split: option.splits)


section \<open>The invariant\<close>

definition watch_inv :: "('h, 'k) watcher \<Rightarrow> bool" where
  "watch_inv w \<longleftrightarrow>
     distinct (watched w) \<and> length (watched w) \<le> 256 \<and>
     (g_running w \<longrightarrow> 0 \<le> g_ifd w \<and> g_thread w < length (w_threads w) \<and> w_waiting w = 0) \<and>
     (w_waiting w \<noteq> 0 \<longrightarrow> w_waiting w = 1 \<and> g_thread w < length (w_threads w) \<and> g_pipe_r w \<in> w_bytes w) \<and>
     (\<forall>t < length (w_threads w). w_threads w ! t \<noteq> W_Done \<longrightarrow>
        t = g_thread w \<and> (g_running w \<or> w_waiting w \<noteq> 0)) \<and>
     (\<forall>t < length (w_threads w). \<forall>i p. w_threads w ! t = W_Select i p \<longrightarrow> i = g_ifd w \<and> p = g_pipe_r w)"

lemma watch_inv_cong:
  assumes "watch_inv w" "w_threads w' = w_threads w" "g_running w' = g_running w" "g_ifd w' = g_ifd w"
    "g_pipe_r w' = g_pipe_r w" "g_thread w' = g_thread w" "w_bytes w' = w_bytes w" "w_waiting w' = w_waiting w"
    "distinct (watched w')" "length (watched w') \<le> 256"
  shows "watch_inv w'"
  using assms unfolding watch_inv_def by simp

lemma watch_inv_start:
  assumes inv: "watch_inv w" and "w_waiting w = 0"
  shows "watch_inv (snd (xy_watch_start K w))"
proof (cases "g_running w")
  case True
  with inv show ?thesis by (simp add: xy_watch_start_def)
next
  case False
  then have fin: "w_threads w ! t = W_Done" if "t < length (w_threads w)" for t
    using assms that unfolding watch_inv_def by blast
  have nm: "distinct (watched w)" "length (watched w) \<le> 256" using inv by (simp_all add: watch_inv_def)
  obtain ifd k1 p k2 where k: "k_inotify_init K (w_kern w) = (ifd, k1)" "k_pipe K k1 = (p, k2)"
    by (metis surj_pair)
  show ?thesis
  proof (cases "0 \<le> ifd \<and> p \<noteq> None")
    case True
    then obtain r wr where p: "p = Some (r, wr)" by auto
    let ?w3 = "w\<lparr>g_ifd := ifd, w_kern := k2, g_pipe_r := r, g_pipe_w := wr, w_bytes := w_bytes w - {r}\<rparr>"
    define w4 where "w4 = rewatch_all K 0 (length (g_entries w)) ?w3"
    have fr: "w_threads w4 = w_threads w" "g_running w4 = False" "g_ifd w4 = ifd" "g_pipe_r w4 = r"
        "w_waiting w4 = 0" "watched w4 = watched w"
      using assms(2) False by (simp_all add: w4_def rewatch_all_frame watched_def)
    have eq: "snd (xy_watch_start K w) =
        (if \<not> k_thread_ok K (w_kern w4) then w4\<lparr>g_ifd := -1, g_pipe_r := -1, g_pipe_w := -1\<rparr>
         else w4\<lparr>g_thread := length (w_threads w), w_threads := w_threads w @ [W_Top], g_running := True\<rparr>)"
      using True False k p by (simp add: w4_def xy_watch_start_def Let_def rewatch_all_frame)
    show ?thesis
      unfolding eq using fr fin nm True by (auto simp: watch_inv_def watched_upd nth_append less_Suc_eq)
  next
    case bad: False
    then consider "ifd < 0" | "\<not> ifd < 0" "p = None" by force
    then show ?thesis
      using assms False k fin nm
      by cases (simp_all add: xy_watch_start_def watch_inv_def watched_upd Let_def)
  qed
qed

lemma event_step_frame:
  assumes "event_step K ev evs w = (pc, w')"
  shows "w_threads w' = w_threads w" "g_running w' = g_running w" "g_ifd w' = g_ifd w"
    "g_pipe_r w' = g_pipe_r w" "g_thread w' = g_thread w" "w_bytes w' = w_bytes w" "w_waiting w' = w_waiting w"
    "watched w' = watched w" "w_lib w' = w_lib w" "pc = W_Events evs \<or> (\<exists>f. pc = W_Reload f evs)"
  using assms
  by (auto simp: event_step_def Let_def rewatch_frame rewatch_names watched_def split: if_splits option.splits)

lemma set_pc_inv:
  assumes inv: "watch_inv w" and t: "t < length (w_threads w)" "w_threads w ! t \<noteq> W_Done"
    and pc: "\<And>i p. pc = W_Select i p \<Longrightarrow> i = g_ifd w \<and> p = g_pipe_r w"
  shows "watch_inv (set_pc t pc w)"
proof -
  have "t = g_thread w" "g_running w \<or> w_waiting w \<noteq> 0" using inv t unfolding watch_inv_def by blast+
  moreover have "(w_threads w)[t := pc] ! u = (if u = t then pc else w_threads w ! u)" for u
    using t(1) by (simp add: nth_list_update)
  ultimately show ?thesis
    using inv pc unfolding watch_inv_def set_pc_def by (simp add: watched_upd)
qed

lemma watch_inv_thread:
  assumes inv: "watch_inv w" and st: "thread_step E K t w w'"
  shows "watch_inv w'"
  using st
proof (cases rule: thread_step.cases)
  case ts_enter
  with inv show ?thesis by (auto intro: set_pc_inv)
next
  case (ts_select ifd pr a)
  have "sel_step ifd pr a w \<noteq> W_Select i p" for i p by (simp add: sel_step_def split: sel_answer.splits)
  then show ?thesis unfolding ts_select(1) using ts_select(2,3) by (intro set_pc_inv [OF inv]) (assumption, simp, blast)
next
  case (ts_read a)
  have "read_step a \<noteq> W_Select i p" for i p by (simp add: read_step_def split: read_answer.splits)
  then show ?thesis unfolding ts_read(1) using ts_read(2,3) by (intro set_pc_inv [OF inv]) (assumption, simp, blast)
next
  case ts_drained
  with inv show ?thesis by (auto intro!: set_pc_inv)
next
  case (ts_event ev evs pc w1)
  note fr = event_step_frame [OF ts_event(4)]
  have "watch_inv w1" using inv fr by (auto intro: watch_inv_cong simp: watch_inv_def)
  with ts_event fr show ?thesis by (auto intro!: set_pc_inv)
next
  case (ts_reload f evs rc s')
  have "watch_inv (w\<lparr>w_lib := s'\<rparr>)" using inv by (simp add: watch_inv_def watched_def)
  with ts_reload show ?thesis by (auto intro!: set_pc_inv)
qed

lemma watch_inv_step:
  assumes inv: "watch_inv w" and st: "watch_step False E K w w'"
  shows "watch_inv w'"
  using st
proof (cases rule: watch_step.cases)
  case ws_start
  with inv show ?thesis by (simp add: watch_inv_start)
next
  case (ws_stop b)
  show ?thesis
  proof (cases "g_running w")
    case True
    with ws_stop have "w' = w\<lparr>w_bytes := insert (g_pipe_r w) (w_bytes w), g_running := False, w_waiting := Suc (w_waiting w)\<rparr>"
      by (simp add: watch_stop_signal_def)
    with inv True show ?thesis by (simp add: watch_inv_def watched_upd)
  next
    case False
    with ws_stop inv show ?thesis by (simp add: watch_stop_signal_def)
  qed
next
  case ws_close
  then have fin: "w_threads w ! t = W_Done" if "t < length (w_threads w)" for t
    using inv that unfolding watch_inv_def by blast
  have "w_waiting w = 1" "\<not> g_running w" using inv ws_close by (auto simp: watch_inv_def)
  with ws_close inv fin show ?thesis
    by (auto simp: watch_inv_def watch_stop_close_def watched_def comp_def)
next
  case (ws_add f)
  have "distinct (watched w') \<and> length (watched w') \<le> 256"
  proof (cases f)
    case None
    with ws_add inv show ?thesis by (simp add: xy_watch_add_def watch_inv_def)
  next
    case (Some g)
    then have "watched w' = watched w \<or> g \<notin> set (watched w) \<and> length (watched w) < 256 \<and> watched w' = watched w @ [g]"
      using ws_add add_names(1) [of K g w] by (simp split: if_splits)
    with inv show ?thesis by (auto simp: watch_inv_def)
  qed
  with inv show ?thesis unfolding ws_add by (intro watch_inv_cong [OF _ add_frame]) simp_all
next
  case (ws_remove f)
  have "distinct (watched w') \<and> length (watched w') \<le> 256"
  proof (cases f)
    case None
    with ws_remove inv show ?thesis by (simp add: xy_watch_remove_def watch_inv_def)
  next
    case (Some g)
    then have "watched w' = removeAll g (watched w)"
      using ws_remove inv remove_names [of w K g] by (simp add: watch_inv_def)
    moreover have "length (removeAll g (watched w)) \<le> 256"
      using inv by (auto simp: watch_inv_def intro: le_trans [OF length_removeAll_less_eq])
    ultimately show ?thesis using inv by (simp add: watch_inv_def distinct_removeAll)
  qed
  with inv show ?thesis unfolding ws_remove by (intro watch_inv_cong [OF _ remove_frame]) simp_all
next
  case (ws_thread t)
  with inv watch_inv_thread show ?thesis by blast
qed

definition watch_started :: "('h, 'k) watcher \<Rightarrow> bool" where
  "watch_started w \<longleftrightarrow> (\<exists>k s. w = watch_init k s)"

interpretation ws: step_system watch_started "watch_step False E K" watch_inv for E K
proof unfold_locales
  show "watch_inv w" if "watch_started w" for w :: "('a, 'b) watcher"
    using that by (auto simp: watch_started_def watch_inv_def watch_init_def watched_def)
qed (rule watch_inv_step)

end
