(* ===== verification/Xy_Watch_Stop.thy ===== *)
theory Xy_Watch_Stop
  imports Xy_Watch_Props
begin

text \<open>
  The claims about the watcher: the set of names, the single thread, the end of the thread after
  \<^verbatim>\<open>xy_watch_stop\<close>, and the race of \<^verbatim>\<open>xy_watch_start\<close> with a stop that is still waiting. The kernel of
  the examples counts: every descriptor is new, every call succeeds.
\<close>

definition demo_kernel :: "nat kernel" where
  "demo_kernel =
     \<lparr>k_inotify_init = (\<lambda>n. (int n, n + 1)), k_pipe = (\<lambda>n. (Some (int n, int n + 1), n + 2)),
      k_add_watch = (\<lambda>n _ _. (int n, n + 1)), k_rm_watch = (\<lambda>n _ _. n),
      k_thread_ok = (\<lambda>_. True), k_strdup_ok = (\<lambda>_. True)\<rparr>"

definition demo_watch :: "(alist_corm, nat) watcher" where
  "demo_watch = watch_init 3 demo_start"


section \<open>The set of names\<close>

datatype name_op = Add string | Remove string

primrec do_name_op :: "'k kernel \<Rightarrow> name_op \<Rightarrow> ('h, 'k) watcher \<Rightarrow> ('h, 'k) watcher" where
  "do_name_op K (Add f) w = snd (xy_watch_add K (Some f) w)"
| "do_name_op K (Remove f) w = xy_watch_remove K (Some f) w"

text \<open>What the calls promise: a list without duplicates and of at most 256 names.\<close>

primrec spec_name_op :: "name_op \<Rightarrow> string list \<Rightarrow> string list" where
  "spec_name_op (Add f) ns = (if f \<in> set ns \<or> 256 \<le> length ns then ns else ns @ [f])"
| "spec_name_op (Remove f) ns = removeAll f ns"

lemma spec_name_op_distinct: "distinct ns \<Longrightarrow> distinct (spec_name_op a ns)"
  by (cases a) (auto simp: distinct_removeAll)

lemma do_name_op_spec:
  assumes "\<forall>k. k_strdup_ok K k" "distinct (watched w)"
  shows "watched (do_name_op K a w) = spec_name_op a (watched w)"
  using assms by (cases a) (auto simp: add_names remove_names)

text \<open>
  C32. Any sequence of \<^verbatim>\<open>xy_watch_add\<close> and \<^verbatim>\<open>xy_watch_remove\<close> calls, with the watcher running or
  not, leaves exactly the names that the same operations leave on a duplicate-free list
  of at most 256 names, in insertion order: the second call with a name, the 257th name and the
  removal of an unknown name change nothing, whatever watch descriptors the kernel hands out.
\<close>

theorem watch_set_refines:
  assumes "\<forall>k. k_strdup_ok K k" "distinct (watched w)"
  shows "watched (fold (do_name_op K) ops w) = fold spec_name_op ops (watched w)"
  using assms(2)
proof (induction ops arbitrary: w)
  case (Cons a ops)
  have "distinct (watched (do_name_op K a w))"
    using Cons.prems by (simp add: do_name_op_spec [OF assms(1)] spec_name_op_distinct)
  from Cons.IH [OF this] show ?case by (simp add: do_name_op_spec [OF assms(1) Cons.prems])
qed simp

theorem watch_set_refines_witness:
  "watched (fold (do_name_op demo_kernel) [Add ''a'', Add ''b'', Add ''a'', Remove ''a'', Remove ''c''] demo_watch) = [''b'']"
  by (subst watch_set_refines) (simp_all add: demo_kernel_def demo_watch_def watch_init_def watched_def)


section \<open>One thread\<close>

text \<open>
  C21. In every state the process reaches by watcher calls and thread steps in any interleaving,
  provided that \<^verbatim>\<open>xy_watch_start\<close> is not called while an \<^verbatim>\<open>xy_watch_stop\<close> waits for the thread: at
  most one watcher thread has not returned; it runs on the descriptors the globals hold; a
  waiting stop has its byte in the pipe that thread listens to; and the table has no duplicate and
  at most 256 names.
\<close>

theorem watch_one_thread:
  assumes "reach watch_started (watch_step False E K) w"
  shows "(\<forall>t u. t < length (w_threads w) \<and> u < length (w_threads w) \<and> w_threads w ! t \<noteq> W_Done \<and>
            w_threads w ! u \<noteq> W_Done \<longrightarrow> t = u) \<and>
         (\<forall>t i p. t < length (w_threads w) \<and> w_threads w ! t = W_Select i p \<longrightarrow> i = g_ifd w \<and> p = g_pipe_r w) \<and>
         (w_waiting w \<noteq> 0 \<longrightarrow> w_waiting w = 1 \<and> \<not> g_running w \<and> g_pipe_r w \<in> w_bytes w) \<and>
         distinct (watched w) \<and> length (watched w) \<le> 256"
proof -
  have i: "watch_inv w" using assms by (rule ws.reach_inv)
  show ?thesis
  proof (intro conjI)
    show "\<forall>t u. t < length (w_threads w) \<and> u < length (w_threads w) \<and> w_threads w ! t \<noteq> W_Done \<and>
        w_threads w ! u \<noteq> W_Done \<longrightarrow> t = u"
      using i unfolding watch_inv_def by metis
  qed (use i in \<open>auto simp: watch_inv_def\<close>)
qed

lemma reach_demo_running:
  "reach watch_started (watch_step racy E demo_kernel) (snd (xy_watch_start demo_kernel demo_watch))"
proof (rule reach_step [OF reach_start])
  show "watch_started demo_watch" by (auto simp: watch_started_def demo_watch_def)
  show "watch_step racy E demo_kernel demo_watch (snd (xy_watch_start demo_kernel demo_watch))"
    by (rule ws_start) (simp add: demo_watch_def watch_init_def)
qed

theorem watch_one_thread_witness:
  "\<exists>w. w_threads w = [W_Top] \<and> g_running w \<and> distinct (watched (w :: (alist_corm, nat) watcher)) \<and> w_waiting w = 0"
  using watch_one_thread [OF reach_demo_running [of False demo_env]]
  by (intro exI [of _ "snd (xy_watch_start demo_kernel demo_watch)"])
     (simp add: xy_watch_start_def demo_kernel_def demo_watch_def watch_init_def)


section \<open>The end of the thread\<close>

text \<open>
  The thread after the stop byte has been written. A step is \<open>calm\<close> when it is not a
  \<^verbatim>\<open>select\<close> that a signal interrupted.
\<close>

definition calm_step :: "'h env \<Rightarrow> 'k kernel \<Rightarrow> nat \<Rightarrow> ('h, 'k) watcher \<Rightarrow> ('h, 'k) watcher \<Rightarrow> bool" where
  "calm_step E K t w w' \<longleftrightarrow>
     thread_step E K t w w' \<and> \<not> ((\<exists>i p. w_threads w ! t = W_Select i p) \<and> w_threads w' ! t = W_Top)"

fun pc_rank :: "wpc \<Rightarrow> nat" where
  "pc_rank W_Done = 0"
| "pc_rank (W_Select _ _) = 1"
| "pc_rank W_Top = 2"
| "pc_rank (W_Events evs) = 3 + 2 * length evs"
| "pc_rank (W_Reload _ evs) = 4 + 2 * length evs"
| "pc_rank W_Read = 516"

definition stopping :: "nat \<Rightarrow> ('h, 'k) watcher \<Rightarrow> bool" where
  "stopping t w \<longleftrightarrow> t < length (w_threads w) \<and> g_pipe_r w \<in> w_bytes w \<and>
     (\<forall>i p. w_threads w ! t = W_Select i p \<longrightarrow> i = g_ifd w \<and> p = g_pipe_r w)"

lemma set_pc_simps [simp]:
  "w_bytes (set_pc t pc w) = w_bytes w" "g_pipe_r (set_pc t pc w) = g_pipe_r w" "g_ifd (set_pc t pc w) = g_ifd w"
  "length (w_threads (set_pc t pc w)) = length (w_threads w)" "w_lib (set_pc t pc w) = w_lib w"
  "t < length (w_threads w) \<Longrightarrow> w_threads (set_pc t pc w) ! t = pc"
  by (simp_all add: set_pc_def)

lemma sel_step_stopping:
  assumes "stopping t w" "w_threads w ! t = W_Select ifd pr"
    and "\<And>fds. a = Sel_Ready fds \<Longrightarrow> fds \<subseteq> {ifd, pr} \<and> fds \<noteq> {} \<and> (pr \<in> w_bytes w \<longrightarrow> pr \<in> fds)"
  shows "sel_step ifd pr a w = W_Done \<or> sel_step ifd pr a w = W_Top"
  using assms by (cases a) (auto simp: sel_step_def stopping_def)

lemma calm_step_rank:
  assumes st: "stopping t w" and c: "calm_step E K t w w'"
  shows "stopping t w' \<and> pc_rank (w_threads w' ! t) < pc_rank (w_threads w ! t)"
proof -
  have "thread_step E K t w w'" using c by (simp add: calm_step_def)
  then show ?thesis
  proof (cases rule: thread_step.cases)
    case (ts_select ifd pr a)
    have t: "w_threads w' ! t = sel_step ifd pr a w" using ts_select(1,2) by simp
    have "sel_step ifd pr a w = W_Done \<or> sel_step ifd pr a w = W_Top"
      by (rule sel_step_stopping [OF st ts_select(3)]) (rule ts_select(4))
    moreover have "sel_step ifd pr a w \<noteq> W_Top" using c ts_select(3) t unfolding calm_step_def by metis
    ultimately show ?thesis using ts_select(1-3) st by (simp add: stopping_def)
  next
    case (ts_read a)
    have "pc_rank (read_step a) < 516 \<and> (\<forall>i p. read_step a \<noteq> W_Select i p)"
      using ts_read(4) by (cases a) (auto simp: read_step_def EVBUF_EVENTS_def)
    with ts_read(1-3) st show ?thesis by (auto simp: stopping_def)
  next
    case (ts_event ev evs pc w1)
    note fr = event_step_frame [OF ts_event(4)]
    have "pc_rank pc < pc_rank (W_Events (ev # evs)) \<and> (\<forall>i p. pc \<noteq> W_Select i p)" using fr(10) by auto
    with ts_event(1-3) fr st show ?thesis by (auto simp: stopping_def)
  qed (use st in \<open>auto simp: stopping_def\<close>)
qed

lemma calm_run_rank:
  assumes "(calm_step E K t ^^ n) w w'" "stopping t w"
  shows "stopping t w' \<and> n + pc_rank (w_threads w' ! t) \<le> pc_rank (w_threads w ! t)"
  using assms
proof (induction n arbitrary: w')
  case (Suc n)
  then obtain v where v: "(calm_step E K t ^^ n) w v" "calm_step E K t v w'" by auto
  with Suc.IH [OF v(1) Suc.prems(2)] calm_step_rank [OF _ v(2)] show ?case by fastforce
qed simp

lemma stuck_end:
  assumes st: "stopping t w" and stuck: "\<nexists>w'. calm_step E K t w w'"
  shows "w_threads w ! t = W_Done \<or>
     (\<exists>f evs. w_threads w ! t = W_Reload f evs \<and> xy_reload E f (w_lib w) = None)"
proof -
  have t: "t < length (w_threads w)" using st by (simp add: stopping_def)
  have nxt: "\<exists>w'. calm_step E K t w w'" if "thread_step E K t w v" "w_threads v ! t \<noteq> W_Top \<or> \<not> (\<exists>i p. w_threads w ! t = W_Select i p)" for v
    using that by (auto simp: calm_step_def)
  show ?thesis
  proof (cases "w_threads w ! t")
    case W_Top
    with nxt [OF ts_enter [OF t]] stuck show ?thesis by auto
  next
    case (W_Select i p)
    with st have "p = g_pipe_r w" by (simp add: stopping_def)
    with W_Select nxt [OF ts_select [OF t, of i p "Sel_Ready {p}"]] stuck t show ?thesis by (auto simp: sel_step_def)
  next
    case W_Read
    with nxt [OF ts_read [OF t, of Read_Fail]] stuck show ?thesis by auto
  next
    case (W_Events evs)
    then show ?thesis
    proof (cases evs)
      case Nil
      with W_Events nxt [OF ts_drained [OF t]] stuck show ?thesis by auto
    next
      case (Cons ev es)
      obtain pc w1 where "event_step K ev es w = (pc, w1)" by (metis surj_pair)
      with W_Events Cons nxt [OF ts_event [OF t]] stuck show ?thesis by auto
    qed
  next
    case (W_Reload f evs)
    show ?thesis
    proof (cases "xy_reload E f (w_lib w)")
      case (Some r)
      with W_Reload nxt [OF ts_reload [OF t, of f evs _ "fst r" "snd r"]] stuck show ?thesis by auto
    qed (use W_Reload in auto)
  qed simp
qed

text \<open>No thread holds more events than one \<^verbatim>\<open>read\<close> can bring.\<close>

definition ranks_ok :: "('h, 'k) watcher \<Rightarrow> bool" where
  "ranks_ok w \<longleftrightarrow> (\<forall>t < length (w_threads w). pc_rank (w_threads w ! t) \<le> 516)"

lemma set_pc_ranks: "ranks_ok w \<Longrightarrow> pc_rank pc \<le> 516 \<Longrightarrow> ranks_ok (set_pc t pc w)"
  by (cases "t < length (w_threads w)") (auto simp: ranks_ok_def set_pc_def nth_list_update)

lemma ranks_thread:
  assumes r: "ranks_ok w" and st: "thread_step E K t w w'"
  shows "ranks_ok w'"
  using st
proof (cases rule: thread_step.cases)
  case ts_enter
  with r show ?thesis by (simp add: set_pc_ranks)
next
  case (ts_select ifd pr a)
  have "pc_rank (sel_step ifd pr a w) \<le> 516" by (simp add: sel_step_def split: sel_answer.splits)
  with r show ?thesis unfolding ts_select(1) by (rule set_pc_ranks)
next
  case (ts_read a)
  have "pc_rank (read_step a) \<le> 516" using ts_read(4) by (cases a) (auto simp: read_step_def EVBUF_EVENTS_def)
  with r show ?thesis unfolding ts_read(1) by (rule set_pc_ranks)
next
  case ts_drained
  with r show ?thesis by (simp add: set_pc_ranks)
next
  case (ts_event ev evs pc w1)
  note fr = event_step_frame [OF ts_event(4)]
  have "pc_rank (w_threads w ! t) \<le> 516" using r ts_event(2) by (simp add: ranks_ok_def)
  then have "pc_rank pc \<le> 516" using fr(10) ts_event(3) by auto
  moreover have "ranks_ok w1" using r fr(1) by (simp add: ranks_ok_def)
  ultimately show ?thesis unfolding ts_event(1) by (simp add: set_pc_ranks)
next
  case (ts_reload f evs rc s')
  have "pc_rank (w_threads w ! t) \<le> 516" using r ts_reload(2) by (simp add: ranks_ok_def)
  moreover have "ranks_ok (w\<lparr>w_lib := s'\<rparr>)" using r by (simp add: ranks_ok_def)
  ultimately show ?thesis unfolding ts_reload(1) using ts_reload(3) by (simp add: set_pc_ranks)
qed

lemma start_threads:
  "w_threads (snd (xy_watch_start K w)) = w_threads w \<or> w_threads (snd (xy_watch_start K w)) = w_threads w @ [W_Top]"
  by (simp add: xy_watch_start_def Let_def rewatch_all_frame split: prod.splits option.splits)

lemma ranks_step: "ranks_ok w \<Longrightarrow> watch_step racy E K w w' \<Longrightarrow> ranks_ok w'"
proof (erule watch_stepE)
  assume r: "ranks_ok w" and w': "w' = snd (xy_watch_start K w)"
  from start_threads [of K w] r show "ranks_ok w'" unfolding w' ranks_ok_def
    by (elim disjE) (simp_all add: nth_append less_Suc_eq)
qed (auto simp: ranks_ok_def watch_stop_signal_def watch_stop_close_def add_frame remove_frame
      ranks_thread [unfolded ranks_ok_def] split: if_splits)

interpretation ranks: step_system watch_started "watch_step racy E K" ranks_ok for racy E K
proof unfold_locales
  show "ranks_ok w" if "watch_started w" for w :: "('a, 'b) watcher"
    using that by (auto simp: watch_started_def watch_init_def ranks_ok_def)
qed (rule ranks_step)

text \<open>
  C20. Once \<^verbatim>\<open>xy_watch_stop\<close> has signalled, the watcher thread ends: from wherever it stands, at
  most 516 steps that are not interrupted by a signal remain (two for each of the 256 events a \<^verbatim>\<open>read\<close> can bring), and where
  no step is left the thread has returned, so that \<^verbatim>\<open>pthread_join\<close> does. The one exception is a module
  reload that does not come back. In particular no event arriving meanwhile keeps it
  alive.
\<close>

theorem stop_terminates:
  assumes "reach watch_started (watch_step False E K) w" "w_waiting w \<noteq> 0"
    and "(calm_step E K (g_thread w) ^^ n) w w'"
  shows "n \<le> 516 \<and>
    ((\<nexists>w''. calm_step E K (g_thread w) w' w'') \<longrightarrow>
       w_threads w' ! g_thread w = W_Done \<or>
       (\<exists>f evs. w_threads w' ! g_thread w = W_Reload f evs \<and> xy_reload E f (w_lib w') = None))"
proof -
  have "stopping (g_thread w) w"
    using ws.reach_inv [OF assms(1)] assms(2) unfolding watch_inv_def stopping_def by blast
  note run = calm_run_rank [OF assms(3) this]
  have "pc_rank (w_threads w ! g_thread w) \<le> 516"
    using ranks.reach_inv [OF assms(1)] \<open>stopping (g_thread w) w\<close> by (simp add: ranks_ok_def stopping_def)
  with run have "n \<le> 516" by simp
  with stuck_end [of "g_thread w" w' E K] run show ?thesis by blast
qed

lemma reach_demo_stopped:
  "reach watch_started (watch_step racy E demo_kernel) (snd (watch_stop_signal (snd (xy_watch_start demo_kernel demo_watch))))"
  by (rule reach_step [OF reach_demo_running]) (rule ws_stop [OF prod.collapse [symmetric]])

theorem stop_terminates_witness:
  "\<exists>w. w_waiting (w :: (alist_corm, nat) watcher) = 1 \<and> g_thread w = 0 \<and> w_threads w = [W_Top] \<and>
     (\<forall>n w'. (calm_step demo_env demo_kernel 0 ^^ n) w w' \<longrightarrow> n \<le> 516)"
proof -
  let ?w = "snd (watch_stop_signal (snd (xy_watch_start demo_kernel demo_watch)))"
  have w: "w_waiting ?w = 1" "g_thread ?w = 0" "w_threads ?w = [W_Top]"
    by (simp_all add: watch_stop_signal_def xy_watch_start_def demo_kernel_def demo_watch_def watch_init_def)
  have "\<forall>n w'. (calm_step demo_env demo_kernel 0 ^^ n) ?w w' \<longrightarrow> n \<le> 516"
    using stop_terminates [OF reach_demo_stopped] w(1,2) by fastforce
  with w show ?thesis by blast
qed


section \<open>The race\<close>

lemma start_done:
  assumes "\<not> g_running w" "xy_watch_start K w = (0, w')"
  shows "w_threads w' = w_threads w @ [W_Top]" "g_running w'" "w_waiting w' = w_waiting w"
    "w_bytes w' = w_bytes w - {g_pipe_r w'}"
  using assms by (auto simp: xy_watch_start_def Let_def rewatch_all_frame split: prod.splits option.splits if_splits)

text \<open>
  C36. The discipline is needed. Let the watcher run, its thread blocked in \<^verbatim>\<open>select\<close>, and let a
  \<^verbatim>\<open>xy_watch_stop\<close> signal it and wait in \<^verbatim>\<open>pthread_join\<close>. Every answer of \<^verbatim>\<open>select\<close> that reports the
  byte now ends the thread. But if a \<^verbatim>\<open>xy_watch_start\<close> gets in first and succeeds, with descriptors
  that are not the old ones, which are still open, none of these answers does: there is a second
  thread, the watcher counts as running, the stop still waits, the byte is in the pipe that no variable names
  any more, and the new pipe holds none. The old thread can go back to its loop and select on the
  new descriptors, which both threads then share.
\<close>

theorem start_during_stop_races:
  assumes "g_running w" "g_thread w < length (w_threads w)"
    and "w_threads w ! g_thread w = W_Select (g_ifd w) (g_pipe_r w)"
    and "watch_stop_signal w = (b, w1)" "xy_watch_start K w1 = (0, w2)"
    and "{g_ifd w2, g_pipe_r w2} \<inter> {g_ifd w, g_pipe_r w} = {}"
  shows "b \<and> w_threads w2 = w_threads w @ [W_Top] \<and> g_running w2 \<and> w_waiting w2 = Suc (w_waiting w) \<and>
     g_pipe_r w \<in> w_bytes w2 \<and> g_pipe_r w2 \<notin> w_bytes w2 \<and>
     (\<forall>fds \<subseteq> {g_ifd w, g_pipe_r w}. g_pipe_r w \<in> fds \<longrightarrow>
        sel_step (g_ifd w) (g_pipe_r w) (Sel_Ready fds) w1 = W_Done \<and>
        sel_step (g_ifd w) (g_pipe_r w) (Sel_Ready fds) w2 \<noteq> W_Done) \<and>
     (\<exists>w3 w4. watch_step True E K w2 w3 \<and> watch_step True E K w3 w4 \<and>
        w_threads w4 = (w_threads w)[g_thread w := W_Select (g_ifd w2) (g_pipe_r w2)] @ [W_Top])"
proof -
  have w1: "b" "\<not> g_running w1" "w_threads w1 = w_threads w" "w_waiting w1 = Suc (w_waiting w)"
      "w_bytes w1 = insert (g_pipe_r w) (w_bytes w)" "g_pipe_r w1 = g_pipe_r w"
    using assms(1,4) by (auto simp: watch_stop_signal_def)
  note w2 = start_done [OF w1(2) assms(5)]
  let ?t = "g_thread w" and ?old = "W_Select (g_ifd w) (g_pipe_r w)" and ?new = "W_Select (g_ifd w2) (g_pipe_r w2)"
  let ?w3 = "set_pc ?t W_Top w2"
  have t: "?t < length (w_threads w2)" "w_threads w2 ! ?t = ?old"
    using assms(2,3) by (simp_all add: w2 w1 nth_append)
  have top: "sel_step (g_ifd w) (g_pipe_r w) (Sel_Ready {g_pipe_r w}) w2 = W_Top"
    using assms(6) by (simp add: sel_step_def)
  have "thread_step E K ?t w2 (set_pc ?t (sel_step (g_ifd w) (g_pipe_r w) (Sel_Ready {g_pipe_r w}) w2) w2)"
    using t by (rule ts_select) simp
  then have "thread_step E K ?t w2 ?w3" unfolding top .
  moreover have "thread_step E K ?t ?w3 (set_pc ?t (W_Select (g_ifd ?w3) (g_pipe_r ?w3)) ?w3)"
    by (rule ts_enter) (use t(1) in \<open>simp_all add: set_pc_def\<close>)
  moreover have "w_threads (set_pc ?t (W_Select (g_ifd ?w3) (g_pipe_r ?w3)) ?w3) =
      (w_threads w)[?t := ?new] @ [W_Top]"
    using assms(2) by (simp add: set_pc_def w2 w1 list_update_append)
  ultimately have "\<exists>w3 w4. watch_step True E K w2 w3 \<and> watch_step True E K w3 w4 \<and>
      w_threads w4 = (w_threads w)[?t := ?new] @ [W_Top]"
    using ws_thread by blast
  moreover have "sel_step (g_ifd w) (g_pipe_r w) (Sel_Ready fds) w1 = W_Done \<and>
      sel_step (g_ifd w) (g_pipe_r w) (Sel_Ready fds) w2 \<noteq> W_Done"
    if "fds \<subseteq> {g_ifd w, g_pipe_r w}" "g_pipe_r w \<in> fds" for fds
    using that assms(6) w1(6) by (auto simp: sel_step_def)
  ultimately show ?thesis using w1 w2 assms(6) by simp
qed

theorem start_during_stop_races_witness:
  "\<exists>(w2 :: (alist_corm, nat) watcher) (w4 :: (alist_corm, nat) watcher). reach watch_started (watch_step True demo_env demo_kernel) w4 \<and>
     w_threads w4 = [W_Select 6 7, W_Top] \<and> w_waiting w2 = 1 \<and> g_running w2 \<and> 4 \<in> w_bytes w2 \<and> 7 \<notin> w_bytes w2"
proof -
  let ?w = "set_pc 0 (W_Select 3 4) (snd (xy_watch_start demo_kernel demo_watch))"
  let ?w1 = "snd (watch_stop_signal ?w)"
  let ?w2 = "snd (xy_watch_start demo_kernel ?w1)"
  note ev = watch_stop_signal_def xy_watch_start_def demo_kernel_def demo_watch_def watch_init_def set_pc_def
  have "g_running ?w" "g_thread ?w < length (w_threads ?w)"
    "w_threads ?w ! g_thread ?w = W_Select (g_ifd ?w) (g_pipe_r ?w)"
    "watch_stop_signal ?w = (True, ?w1)" "xy_watch_start demo_kernel ?w1 = (0, ?w2)"
    "{g_ifd ?w2, g_pipe_r ?w2} \<inter> {g_ifd ?w, g_pipe_r ?w} = {}"
    by (simp_all add: ev)
  note race = start_during_stop_races [where E = demo_env, OF this]
  then obtain w3 w4 where w4: "watch_step True demo_env demo_kernel ?w2 w3" "watch_step True demo_env demo_kernel w3 w4"
      "w_threads w4 = (w_threads ?w)[g_thread ?w := W_Select (g_ifd ?w2) (g_pipe_r ?w2)] @ [W_Top]" by blast
  have th: "(w_threads ?w)[g_thread ?w := W_Select (g_ifd ?w2) (g_pipe_r ?w2)] @ [W_Top] = [W_Select 6 7, W_Top]"
    by (simp add: ev)
  have "thread_step demo_env demo_kernel 0 (snd (xy_watch_start demo_kernel demo_watch))
      (set_pc 0 (W_Select (g_ifd (snd (xy_watch_start demo_kernel demo_watch)))
         (g_pipe_r (snd (xy_watch_start demo_kernel demo_watch)))) (snd (xy_watch_start demo_kernel demo_watch)))"
    by (rule ts_enter) (simp_all add: ev)
  then have "thread_step demo_env demo_kernel 0 (snd (xy_watch_start demo_kernel demo_watch)) ?w" by (simp add: ev)
  then have "reach watch_started (watch_step True demo_env demo_kernel) ?w"
    by (rule reach_step [OF reach_demo_running ws_thread])
  then have "reach watch_started (watch_step True demo_env demo_kernel) ?w1"
    by (rule reach_step) (rule ws_stop [OF prod.collapse [symmetric]])
  then have "reach watch_started (watch_step True demo_env demo_kernel) ?w2"
    by (rule reach_step) (rule ws_start, simp)
  then have "reach watch_started (watch_step True demo_env demo_kernel) w4" using w4(1,2) reach_step by metis
  moreover have "w_waiting ?w2 = 1" "g_running ?w2" "4 \<in> w_bytes ?w2" "7 \<notin> w_bytes ?w2" by (simp_all add: ev)
  ultimately show ?thesis using w4(3) unfolding th by blast
qed

end
