(* ===== verification/Spec2Isabelle.thy ===== *)
theory Spec2Isabelle
  imports Xy_Lifecycle Xy_Load_Claim Xy_Modside_Props Xy_Napi Xy_Reload Xy_Shutdown Xy_Stale Xy_Twin Xy_Wasm_Props Xy_Watch_Stop
begin

text \<open>
  A verification library for libxylem, a hook-based plugin runtime in C: a host defines typed
  hooks, loads modules from shared objects, and calls a hook to run every module that implements
  it. Modules live in a tree of regions, each named by an id and a prefix width; a call runs the
  modules of the caller's region and of those below, and a region can deny hooks and modules to
  the regions below it.

  \<^bold>\<open>The program and the theories.\<close> All of \<^verbatim>\<open>src/src\<close> is covered, with the headers its contract is
  in. Definitions keep the C names.

  \<^item> Data, from \<^verbatim>\<open>papi.h\<close>, \<^verbatim>\<open>libxylem-internal.h\<close> and \<^verbatim>\<open>ttypt/xy.h\<close>: \<open>Xy_Prelude\<close> (machine types,
    codes, chains of links, first-match scans, step systems) and \<open>Xy_Types\<close> (one record per
    struct, one heap per kind of object, the state \<open>xy_state\<close>, and the environment \<open>env\<close> of
    everything the library calls). \<open>Xy_Instance\<close> gives a concrete environment.
  \<^item> Regions, from \<^verbatim>\<open>libxylem.c\<close>: \<open>Xy_Region\<close> (identities, the table, the walks up and down),
    \<open>Xy_Tree\<close> (the invariant \<open>region_wf\<close>), \<open>Xy_Cover\<close> (the two covering searches), \<open>Xy_Claim\<close> (the
    region calls of the interface), \<open>Xy_Claim_Inv\<close> and \<open>Xy_Slot_Inv\<close> (claims, the free-slot
    search), \<open>Xy_Region_Spec\<close> and \<open>Xy_Region_Props\<close> (the contract on sets of identities, the
    properties).
  \<^item> Start-up and the end, from \<^verbatim>\<open>libxylem-runtime.c\<close>: \<open>Xy_Boot\<close>; the code of the shutdown is in
    \<open>Xy_Load\<close>, and \<open>Xy_Shutdown\<close> shows that it gives everything back and that the library starts again.
  \<^item> Module entries, from \<^verbatim>\<open>libxylem.c\<close>: \<open>Xy_Modlist\<close> (the doubly linked list of a region),
    \<open>Xy_Subtree\<close> (the cached vector of a subtree's modules and its order \<open>preorder\<close>), \<open>Xy_Path\<close> (keys, path resolution,
    interned paths), \<open>Xy_Hooks\<close> (which hooks a module implements), \<open>Xy_Deny\<close> (deny lists and
    their hash sets), \<open>Xy_Module_Props\<close>.
  \<^item> Dispatch, from \<^verbatim>\<open>libxylem-dispatch.c\<close>: \<open>Xy_Dispatch\<close> (the code), \<open>Xy_Slots\<close> and \<open>Xy_Run\<close> (the
    vector of listeners and its run), \<open>Xy_Call\<close> (the calls end to end), \<open>Xy_Repeat\<close> (what a call leaves
    for the next one), \<open>Xy_Dispatch_Props\<close> (sequences of calls, \<open>call_each\<close>; the properties),
    \<open>Xy_Stale\<close> (a deny and the vectors in stock), \<open>Xy_Areg\<close> (registration).
  \<^item> Loading, from \<^verbatim>\<open>libxylem.c\<close> and \<^verbatim>\<open>libxylem-module.c\<close>: \<open>Xy_Loader\<close> (lookup, linker, temporary
    copies, re-keying), \<open>Xy_Txn\<close> (the steps of the transaction), \<open>Xy_Load\<close> (load, abort, unload,
    reload, teardown), \<open>Xy_Load_Safety\<close>, \<open>Xy_Load_Ok\<close>, \<open>Xy_Load_Props\<close> and \<open>Xy_Load_Enter\<close> (what a
    load does when it is refused and when it succeeds), \<open>Xy_Load_Claim\<close> (the load that claims a region), \<open>Xy_Unload\<close> (the last reference, the
    round trip), \<open>Xy_Twin\<close> (the other entries of an unloaded object), \<open>Xy_Cascade\<close> (the modules that go with a module), \<open>Xy_Reload\<close> (the
    reload in place), \<open>Xy_Lifecycle\<close> (loads keep the invariant unloads need).
  \<^item> The module's side, from \<^verbatim>\<open>ttypt/xy.h\<close> and \<^verbatim>\<open>ttypt/xy-mod.h\<close>: \<open>Xy_Modside\<close> (what the hook macros
    expand to, the functions that go through the context), \<open>Xy_Modside_Props\<close>.
  \<^item> The watcher, from \<^verbatim>\<open>libxylem-watch.c\<close>: \<open>Xy_Watch\<close> (table, start, stop, the thread as a step
    relation), \<open>Xy_Watch_Props\<close>, \<open>Xy_Watch_Stop\<close>.
  \<^item> Two smaller programs beside the library: \<open>Xy_Wasm\<close> and \<open>Xy_Wasm_Props\<close> (\<^verbatim>\<open>libxylem-wasm.c\<close>, the
    WebAssembly build) and \<open>Xy_Napi\<close> (\<^verbatim>\<open>npm/native/xylem_napi.c\<close>, the Node addon).

  \<^bold>\<open>State.\<close> \<open>xy_state\<close> holds the library's globals (\<open>xy_rt\<close>), its thread-locals (error code, last
  return value, current region, loading module) and the heaps. A pointer is a number, a nullable
  one an option; an address outside its heap is dangling. \<open>uint8_t\<close> and \<open>uint64_t\<close> are words,
  \<^verbatim>\<open>int\<close> counters unbounded integers. Addresses are handed out in increasing order and never twice.
  A function returns \<^const>\<open>None\<close> where the C code would leave its defined behaviour, or not come back.

  \<^bold>\<open>Parameters.\<close> The hash tables (libcorm), the allocator, the linker, the file system, and the code of
  modules and of the host (hook bodies, installers, claim handlers, scopes) are fields of \<open>env\<close>. What
  the proofs ask of them is named: \<open>env_ok\<close> (tables look up what was put), \<open>never_oom\<close> (the
  allocator does not refuse), \<open>quiet\<close> (hook bodies only write buffers), \<open>plain_module\<close> (a module
  without a claim and per-region state). Each property that uses one is applied to the concrete
  environment of \<open>Xy_Instance\<close> or a variant of it.

  \<^bold>\<open>What the lemmas show.\<close> The region tree with its table is a set of identities ordered by containment:
  a claim inserts one, a cover is the greatest that contains a point, and every walk returns
  (\<open>region_wf\<close>). A region's module list is a list of entries, and its cached vector the modules of the
  subtree in order (\<open>mods_of\<close>, \<open>mods_wf\<close>). A symbol cache agrees with what the linker would answer
  (\<open>caches_ok\<close>). A call from a region whose vector is not in stock, and every call after it, runs the
  listeners of the caller's subtree once each, a region's own before those below it, and reports the
  last one's value; a vector in stock goes stale when a region above denies a module (\<open>Xy_Stale\<close>). A
  load that succeeds enters a plain module into the tables and lists the theorem names, a load
  refused at the context gate leaves those as they were, and the other ways a load can fail have no
  theorem. An unload frees the entry, its row and its place in the list, and makes the other entries
  of the table forget the object's symbols, which silences those that hold the same object (\<open>Xy_Twin\<close>);
  the cascade removes exactly the modules held once below it. What the multi-valued index of entries
  by region holds is not stated anywhere: libcorm's deletion from it is not specified here, and only
  the re-keying of a loaded entry reads it. Four interfaces are locales: \<open>cover_search\<close>, \<open>first_match\<close>, \<open>step_system\<close>,
  \<open>region_store\<close>; each is interpreted on the model's own functions.

  \<^bold>\<open>Bounds.\<close> Walks along links have the number of addresses as fuel (\<open>link_fuel\<close>): the chains have no
  repetition, so it is enough. Walks in the tree have \<open>depth_fuel = 66\<close>: widths grow strictly
  from 0 to at most 64 downwards. The cascade has \<open>link_fuel\<close>: a child is allocated after its
  parent. The watcher's thread ends after at most 516 steps once it has been told to, a bound
  that comes from the size of its event buffer. None of these is a hypothesis of a property.

  \<^bold>\<open>Not modelled.\<close> The branches for Windows and for systems without \<^verbatim>\<open>dlinfo\<close>; warnings and the debug
  log; the registration of key types with libcorm; the release of deny-list nodes and of
  strings; calls of the host into the library beside the watcher's reload, which the code does
  not synchronise (the thread's own table is modelled with all interleavings). \<^verbatim>\<open>XY_LISTENER_TAG\<close> differs from
  \<^verbatim>\<open>XY_IMPL\<close> in the names it declares only, and \<^verbatim>\<open>xy-pp.h\<close> iterates over macro arguments, which are
  a byte list here. The headers under \<^verbatim>\<open>npm/include\<close> are copies of those under \<^verbatim>\<open>include\<close>. The Rust crates, the JavaScript bridge and
  the tests are other programs.

  Of the modelled code, some paths have no theorem yet: the load of a module with per-region state, a
  claim whose handler has effects of its own, and the reload of a module that others depend on.
\<close>

end
